(* ===== verification/TauTerm_Prelude.thy ===== *)
theory TauTerm_Prelude
  imports Main "HOL-Library.Word"
begin

unbundle bit_operations_syntax

text \<open>
  Shared vocabulary of the development: the machine integers of the Rust code, Rust's
  \<open>Result\<close> together with the outcome of a panicking index, slices, big-endian byte
  conversion, fixed-size chunks and bit packing. Nothing here models a file of its own;
  the component theories build on it, and its lemmas are collected in the
  \<open>named_theorems\<close> below so that component proofs reuse them by name.
\<close>

named_theorems result_simps \<open>characterisations of the outcomes of Result-valued code\<close>
named_theorems byte_simps \<open>length and round-trip facts of byte conversions\<close>

type_synonym byte = "8 word"
type_synonym u16 = "16 word"
type_synonym u32 = "32 word"
type_synonym u64 = "64 word"

section \<open>Result with panics\<close>

text \<open>
  A Rust function of type \<open>Result<T, E>\<close> returns \<open>Ok\<close> or \<open>Err\<close>; an index or a
  slice outside its bounds panics instead. \<open>Panic\<close> is a value of the model, so that
  freedom from panics is a statement to prove and not a convention.
\<close>

datatype ('a, 'e) result = Ok 'a | Err 'e | Panic

text \<open>The question-mark operator: continue with the value, or leave with the failure.\<close>

fun rbind :: "('a, 'e) result \<Rightarrow> ('a \<Rightarrow> ('b, 'e) result) \<Rightarrow> ('b, 'e) result" where
  "rbind (Ok v) f = f v"
| "rbind (Err e) f = Err e"
| "rbind Panic f = Panic"

definition require :: "bool \<Rightarrow> 'e \<Rightarrow> (unit, 'e) result" where
  "require b e = (if b then Ok () else Err e)"

fun map_err :: "('e \<Rightarrow> 'f) \<Rightarrow> ('a, 'e) result \<Rightarrow> ('a, 'f) result" where
  "map_err f (Ok v) = Ok v"
| "map_err f (Err e) = Err (f e)"
| "map_err f Panic = Panic"

fun ok_or :: "'e \<Rightarrow> 'a option \<Rightarrow> ('a, 'e) result" where
  "ok_or e (Some v) = Ok v"
| "ok_or e None = Err e"

fun is_ok :: "('a, 'e) result \<Rightarrow> bool" where
  "is_ok (Ok _) = True"
| "is_ok _ = False"

fun rmap :: "('a \<Rightarrow> ('b, 'e) result) \<Rightarrow> 'a list \<Rightarrow> ('b list, 'e) result" where
  "rmap f [] = Ok []"
| "rmap f (x # xs) = rbind (f x) (\<lambda>y. rbind (rmap f xs) (\<lambda>ys. Ok (y # ys)))"

lemma rbind_eq_Ok [result_simps]: "rbind m f = Ok v \<longleftrightarrow> (\<exists>x. m = Ok x \<and> f x = Ok v)"
  by (cases m) auto

lemma rbind_eq_Err [result_simps]:
  "rbind m f = Err e \<longleftrightarrow> m = Err e \<or> (\<exists>x. m = Ok x \<and> f x = Err e)"
  by (cases m) auto

lemma rbind_eq_Panic [result_simps]:
  "rbind m f = Panic \<longleftrightarrow> m = Panic \<or> (\<exists>x. m = Ok x \<and> f x = Panic)"
  by (cases m) auto

lemma Ok_eq_rbind [result_simps]: "Ok v = rbind m f \<longleftrightarrow> (\<exists>x. m = Ok x \<and> f x = Ok v)"
  by (cases m) auto

lemma rbind_assoc: "rbind (rbind m f) g = rbind m (\<lambda>x. rbind (f x) g)"
  by (cases m) auto

lemma rbind_Ok_right [simp]: "rbind m Ok = m"
  by (cases m) auto

lemma require_simps [simp]: "require True e = Ok ()" "require False e = Err e"
  by (simp_all add: require_def)

lemma require_eq [result_simps]:
  "require b e = Ok u \<longleftrightarrow> b" "require b e = Err e' \<longleftrightarrow> \<not> b \<and> e' = e" "require b e \<noteq> Panic"
  by (auto simp: require_def)

lemma map_err_eq [result_simps]:
  "map_err f m = Ok v \<longleftrightarrow> m = Ok v"
  "map_err f m = Err e \<longleftrightarrow> (\<exists>e'. m = Err e' \<and> e = f e')"
  "map_err f m = Panic \<longleftrightarrow> m = Panic"
  by (cases m; auto)+

lemma ok_or_eq [result_simps]:
  "ok_or e m = Ok v \<longleftrightarrow> m = Some v" "ok_or e m = Err e' \<longleftrightarrow> m = None \<and> e' = e"
  "ok_or e m \<noteq> Panic"
  by (cases m; auto)+

lemma is_ok_iff: "is_ok r \<longleftrightarrow> (\<exists>v. r = Ok v)"
  by (cases r) auto

lemma rmap_Ok_map: "(\<And>x. x \<in> set xs \<Longrightarrow> f x = Ok (g x)) \<Longrightarrow> rmap f xs = Ok (map g xs)"
  by (induction xs) auto

lemma rmap_no_panic: "(\<And>x. x \<in> set xs \<Longrightarrow> f x \<noteq> Panic) \<Longrightarrow> rmap f xs \<noteq> Panic"
  by (induction xs) (auto simp: result_simps)

lemma rmap_length: "rmap f xs = Ok ys \<Longrightarrow> length ys = length xs"
  by (induction xs arbitrary: ys) (auto simp: result_simps)

lemma rmap_all: "rmap f xs = Ok ys \<Longrightarrow> (\<And>x y. x \<in> set xs \<Longrightarrow> f x = Ok y \<Longrightarrow> P y) \<Longrightarrow>
    y \<in> set ys \<Longrightarrow> P y"
proof (induction xs arbitrary: ys)
  case (Cons x xs)
  from Cons.prems(1) obtain z zs where "f x = Ok z" "rmap f xs = Ok zs" "ys = z # zs"
    by (auto simp: result_simps)
  with Cons.prems(2,3) Cons.IH [of zs] show ?case by auto
qed simp

section \<open>Messages\<close>

text \<open>
  The error strings of the code. \<open>Msg\<close> is a string literal; \<open>Fmt\<close> is a
  \<open>format!\<close> call, kept as its template with its text and its number arguments.
\<close>

datatype message = Msg string | Fmt string "message list" "nat list"

section \<open>Indexing and slicing\<close>

definition idx :: "'a list \<Rightarrow> nat \<Rightarrow> ('a, 'e) result" where
  "idx xs i = (if i < length xs then Ok (xs ! i) else Panic)"

text \<open>\<open>&xs[n..]\<close> and \<open>&xs[a..b]\<close> panic out of range; \<open>xs.get(a..b)\<close> is an option.\<close>

definition slice_from :: "'a list \<Rightarrow> nat \<Rightarrow> ('a list, 'e) result" where
  "slice_from xs n = (if n \<le> length xs then Ok (drop n xs) else Panic)"

definition slice :: "'a list \<Rightarrow> nat \<Rightarrow> nat \<Rightarrow> ('a list, 'e) result" where
  "slice xs a b = (if a \<le> b \<and> b \<le> length xs then Ok (take (b - a) (drop a xs)) else Panic)"

definition get_range :: "'a list \<Rightarrow> nat \<Rightarrow> nat \<Rightarrow> 'a list option" where
  "get_range xs a b = (if a \<le> b \<and> b \<le> length xs then Some (take (b - a) (drop a xs)) else None)"

definition get_opt :: "'a list \<Rightarrow> nat \<Rightarrow> 'a option" where
  "get_opt xs i = (if i < length xs then Some (xs ! i) else None)"

lemma idx_in [simp]: "i < length xs \<Longrightarrow> idx xs i = Ok (xs ! i)"
  by (simp add: idx_def)

lemma slice_from_in [simp]: "n \<le> length xs \<Longrightarrow> slice_from xs n = Ok (drop n xs)"
  by (simp add: slice_from_def)

lemma slice_in [simp]:
  "a \<le> b \<Longrightarrow> b \<le> length xs \<Longrightarrow> slice xs a b = Ok (take (b - a) (drop a xs))"
  by (simp add: slice_def)

lemma idx_eq [result_simps]:
  "idx xs i = Ok v \<longleftrightarrow> i < length xs \<and> v = xs ! i" "idx xs i \<noteq> Err e"
  "idx xs i = Panic \<longleftrightarrow> length xs \<le> i"
  by (auto simp: idx_def)

lemma slice_from_eq [result_simps]:
  "slice_from xs n = Ok v \<longleftrightarrow> n \<le> length xs \<and> v = drop n xs" "slice_from xs n \<noteq> Err e"
  "slice_from xs n = Panic \<longleftrightarrow> length xs < n"
  by (auto simp: slice_from_def)

lemma slice_eq [result_simps]:
  "slice xs a b = Ok v \<longleftrightarrow> a \<le> b \<and> b \<le> length xs \<and> v = take (b - a) (drop a xs)"
  "slice xs a b \<noteq> Err e" "slice xs a b = Panic \<longleftrightarrow> b < a \<or> length xs < b"
  by (auto simp: slice_def)

lemma length_Suc_split:
  "Suc n \<le> length xs \<Longrightarrow> \<exists>x ys. xs = x # ys \<and> n \<le> length ys"
  by (cases xs) auto

lemma length_two_conv: "length xs = 2 \<longleftrightarrow> (\<exists>a b. xs = [a, b])"
  by (auto simp: numeral_2_eq_2 length_Suc_conv)

section \<open>Integers\<close>

text \<open>Rust's \<open>as\<close> casts truncate; \<open>usize\<close> values are naturals here.\<close>

definition as_u8 :: "nat \<Rightarrow> byte" where
  "as_u8 n = word_of_nat n"

definition as_u16 :: "nat \<Rightarrow> u16" where
  "as_u16 n = word_of_nat n"

definition div_ceil :: "nat \<Rightarrow> nat \<Rightarrow> nat" where
  "div_ceil n k = (n + (k - 1)) div k"

definition checked_add_u16 :: "u16 \<Rightarrow> u16 \<Rightarrow> u16 option" where
  "checked_add_u16 a b = (if unat a + unat b < 65536 then Some (a + b) else None)"

lemma unat_as_u8: "unat (as_u8 n) = n mod 256"
  by (simp add: as_u8_def unat_of_nat)

lemma unat_as_u16: "unat (as_u16 n) = n mod 65536"
  by (simp add: as_u16_def unat_of_nat)

lemma unat_as_u8_small [byte_simps]: "n < 256 \<Longrightarrow> unat (as_u8 n) = n"
  by (simp add: unat_as_u8)

lemma unat_as_u16_small [byte_simps]: "n < 65536 \<Longrightarrow> unat (as_u16 n) = n"
  by (simp add: unat_as_u16)

lemma as_u8_unat [simp]: "as_u8 (unat b) = b"
  by (simp add: as_u8_def)

lemma as_u16_unat [simp]: "as_u16 (unat b) = b"
  by (simp add: as_u16_def)

lemma u16_bound: "unat (w :: u16) < 65536"
  using unsigned_less [of w] by simp

lemma u8_bound: "unat (w :: byte) < 256"
  using unsigned_less [of w] by simp

lemma xor_cancel: "a XOR c = b XOR c \<longleftrightarrow> a = b" "c XOR a = c XOR b \<longleftrightarrow> a = b"
  for a b c :: "'a::len word"
proof -
  have "(x XOR c) XOR c = x" "c XOR (c XOR x) = x" for x
    by (simp_all add: xor.assoc flip: xor.assoc [of c c])
  then show "a XOR c = b XOR c \<longleftrightarrow> a = b" "c XOR a = c XOR b \<longleftrightarrow> a = b"
    by metis+
qed

lemma funpow_8: "(f ^^ 8) x = f (f (f (f (f (f (f (f x)))))))"
  by (simp add: eval_nat_numeral)

lemma ucast_byte_inj: "(ucast a :: u16) = ucast b \<longleftrightarrow> a = (b :: byte)"
proof
  have up: "is_up (ucast :: byte \<Rightarrow> u16)" by (simp add: is_up)
  assume "(ucast a :: u16) = ucast b"
  then have "(ucast (ucast a :: u16) :: byte) = ucast (ucast b :: u16)" by (rule arg_cong)
  then show "a = b" unfolding ucast_up_ucast_id [OF up] .
qed simp

section \<open>Big-endian words\<close>

definition to_be_bytes :: "u16 \<Rightarrow> byte list" where
  "to_be_bytes w = [ucast (drop_bit 8 w), ucast w]"

definition from_be_bytes :: "byte \<Rightarrow> byte \<Rightarrow> u16" where
  "from_be_bytes hi lo = push_bit 8 (ucast hi) OR ucast lo"

lemma from_be_bytes_split [simp]: "from_be_bytes (ucast (drop_bit 8 (w :: u16))) (ucast w) = w"
  unfolding from_be_bytes_def by (rule bit_word_eqI) (auto simp: bit_simps)

lemma to_be_from_be [simp]: "to_be_bytes (from_be_bytes a b) = [a, b]"
proof -
  have "ucast (drop_bit 8 (push_bit 8 (ucast a) OR ucast b :: u16)) = a"
    by (rule bit_word_eqI) (auto simp: bit_simps dest: bit_imp_le_length)
  moreover have "ucast (push_bit 8 (ucast a) OR ucast b :: u16) = b"
    by (rule bit_word_eqI) (auto simp: bit_simps)
  ultimately show ?thesis by (simp add: from_be_bytes_def to_be_bytes_def)
qed

lemma length_to_be_bytes [simp, byte_simps]: "length (to_be_bytes w) = 2"
  by (simp add: to_be_bytes_def)

lemma to_be_bytes_nonempty [simp]: "to_be_bytes w \<noteq> []"
  by (simp add: to_be_bytes_def)

definition be_bytes_of :: "u16 list \<Rightarrow> byte list" where
  "be_bytes_of ws = concat (map to_be_bytes ws)"

lemma be_bytes_of_simps [simp]:
  "be_bytes_of [] = []" "be_bytes_of (w # ws) = to_be_bytes w @ be_bytes_of ws"
  by (simp_all add: be_bytes_of_def)

lemma length_be_bytes_of [simp, byte_simps]: "length (be_bytes_of ws) = 2 * length ws"
  by (induction ws) auto

section \<open>Chunks\<close>

text \<open>The first component of \<open>as_chunks::<N>()\<close>: the complete chunks, without the rest.\<close>

function as_chunks :: "nat \<Rightarrow> 'a list \<Rightarrow> 'a list list" where
  "as_chunks n xs =
     (if n = 0 \<or> length xs < n then [] else take n xs # as_chunks n (drop n xs))"
  by pat_completeness auto
termination
  by (relation "measure (\<lambda>(n, xs). length xs)") auto

declare as_chunks.simps [simp del]

lemma as_chunks_short: "length xs < n \<Longrightarrow> as_chunks n xs = []"
  by (subst as_chunks.simps) simp

lemma as_chunks_append:
  "0 < n \<Longrightarrow> length c = n \<Longrightarrow> as_chunks n (c @ xs) = c # as_chunks n xs"
  by (subst as_chunks.simps) simp

lemma as_chunks_all_length: "c \<in> set (as_chunks n xs) \<Longrightarrow> length c = n"
proof (induction n xs rule: as_chunks.induct)
  case (1 n xs)
  then show ?case by (subst (asm) (2) as_chunks.simps) (auto split: if_splits)
qed

lemma as_chunks_concat:
  "0 < n \<Longrightarrow> (\<And>c. c \<in> set cs \<Longrightarrow> length c = n) \<Longrightarrow> as_chunks n (concat cs) = cs"
  by (induction cs) (auto simp: as_chunks_append as_chunks_short)

lemma concat_as_chunks: "n dvd length xs \<Longrightarrow> 0 < n \<Longrightarrow> concat (as_chunks n xs) = xs"
proof (induction n xs rule: as_chunks.induct)
  case (1 n xs)
  show ?case
  proof (cases "length xs < n")
    case True
    with "1.prems" have "xs = []" by (auto dest: dvd_imp_le)
    then show ?thesis using "1.prems" by (simp add: as_chunks_short)
  next
    case False
    with "1.prems" have "n dvd length (drop n xs)" by (simp add: dvd_minus_self)
    with False "1.prems" "1.IH" show ?thesis
      by (subst as_chunks.simps) simp
  qed
qed

lemma length_as_chunks: "0 < n \<Longrightarrow> length (as_chunks n xs) = length xs div n"
proof (induction n xs rule: as_chunks.induct)
  case (1 n xs)
  show ?case
  proof (cases "length xs < n")
    case True
    then show ?thesis by (simp add: as_chunks_short)
  next
    case False
    with "1.prems" "1.IH" show ?thesis
      by (subst as_chunks.simps) (simp add: le_div_geq)
  qed
qed

definition chunk_to_u16 :: "byte list \<Rightarrow> u16" where
  "chunk_to_u16 c = from_be_bytes (c ! 0) (c ! 1)"

lemma chunk_to_u16_be [simp]: "chunk_to_u16 (to_be_bytes w) = w"
  by (simp add: chunk_to_u16_def to_be_bytes_def)

lemma to_be_chunk [simp]: "length c = 2 \<Longrightarrow> to_be_bytes (chunk_to_u16 c) = c"
  by (auto simp: chunk_to_u16_def numeral_2_eq_2 length_Suc_conv)

lemma chunks_be_bytes_of [simp]:
  "map chunk_to_u16 (as_chunks 2 (be_bytes_of ws)) = ws"
proof -
  have "as_chunks 2 (be_bytes_of ws) = map to_be_bytes ws"
    unfolding be_bytes_of_def by (rule as_chunks_concat) auto
  then show ?thesis by (simp add: comp_def)
qed

lemma be_bytes_of_chunks:
  assumes "even (length bs)"
  shows "be_bytes_of (map chunk_to_u16 (as_chunks 2 bs)) = bs"
proof -
  have "map (to_be_bytes \<circ> chunk_to_u16) (as_chunks 2 bs) = as_chunks 2 bs"
    by (rule map_idI) (auto dest: as_chunks_all_length)
  with assms show ?thesis
    by (simp add: be_bytes_of_def concat_as_chunks)
qed

end
