(* ===== verification/Modbus_Pdu.thy ===== *)
theory Modbus_Pdu
  imports TauTerm_Prelude
begin

unbundle bit_operations_syntax

text \<open>
  Modbus protocol data units, requests: the model of \<open>plugins/modbus/codec/pdu.rs\<close> up to
  \<open>decode_request\<close>, with the helpers at the end of that file. A request is encoded to the
  bytes after the transport header and decoded from them; every index of the code goes
  through \<open>idx\<close> or \<open>slice_from\<close>, so that an out-of-range access is the value
  \<open>Panic\<close>. Shown here: the round trip, the bounds of an encoded PDU, the well-formedness
  of every decoded request, and that decoding never panics.
\<close>

section \<open>Data\<close>

definition MAX_PDU_LEN :: nat where
  "MAX_PDU_LEN = 253"

datatype bit_read_area = Coils | DiscreteInputs

fun bit_area_function :: "bit_read_area \<Rightarrow> byte" where
  "bit_area_function Coils = 0x01"
| "bit_area_function DiscreteInputs = 0x02"

datatype register_read_area = HoldingRegisters | InputRegisters

fun register_area_function :: "register_read_area \<Rightarrow> byte" where
  "register_area_function HoldingRegisters = 0x03"
| "register_area_function InputRegisters = 0x04"

record file_record_read =
  frr_file_number :: u16
  frr_record_number :: u16
  frr_record_length :: u16

record file_record_write =
  frw_file_number :: u16
  frw_record_number :: u16
  frw_values :: "u16 list"

datatype modbus_request =
    ReadBits bit_read_area u16 u16
  | ReadRegisters register_read_area u16 u16
  | WriteSingleCoil u16 bool
  | WriteSingleRegister u16 u16
  | ReadExceptionStatus
  | Diagnostics u16 "byte list"
  | GetCommEventCounter
  | GetCommEventLog
  | WriteMultipleCoils u16 "bool list"
  | WriteMultipleRegisters u16 "u16 list"
  | ReportServerId
  | ReadFileRecord "file_record_read list"
  | WriteFileRecord "file_record_write list"
  | MaskWriteRegister u16 u16 u16
  | ReadWriteMultipleRegisters u16 u16 u16 "u16 list"
  | ReadFifoQueue u16
  | Mei byte "byte list"
  | Raw byte "byte list"

record decoded_request =
  dec_function :: byte
  dec_request :: modbus_request

record modbus_response =
  resp_function :: byte
  resp_data :: "byte list"
  resp_exception :: "byte option"

type_synonym 'a pdu_result = "('a, message) result"

fun request_function :: "modbus_request \<Rightarrow> byte" where
  "request_function (ReadBits area _ _) = bit_area_function area"
| "request_function (ReadRegisters area _ _) = register_area_function area"
| "request_function (WriteSingleCoil _ _) = 0x05"
| "request_function (WriteSingleRegister _ _) = 0x06"
| "request_function ReadExceptionStatus = 0x07"
| "request_function (Diagnostics _ _) = 0x08"
| "request_function GetCommEventCounter = 0x0B"
| "request_function GetCommEventLog = 0x0C"
| "request_function (WriteMultipleCoils _ _) = 0x0F"
| "request_function (WriteMultipleRegisters _ _) = 0x10"
| "request_function ReportServerId = 0x11"
| "request_function (ReadFileRecord _) = 0x14"
| "request_function (WriteFileRecord _) = 0x15"
| "request_function (MaskWriteRegister _ _ _) = 0x16"
| "request_function (ReadWriteMultipleRegisters _ _ _ _) = 0x17"
| "request_function (ReadFifoQueue _) = 0x18"
| "request_function (Mei _ _) = 0x2B"
| "request_function (Raw f _) = f"

fun is_write :: "modbus_request \<Rightarrow> bool" where
  "is_write (WriteSingleCoil _ _) = True"
| "is_write (WriteSingleRegister _ _) = True"
| "is_write (WriteMultipleCoils _ _) = True"
| "is_write (WriteMultipleRegisters _ _) = True"
| "is_write (WriteFileRecord _) = True"
| "is_write (MaskWriteRegister _ _ _) = True"
| "is_write (ReadWriteMultipleRegisters _ _ _ _) = True"
| "is_write _ = False"

section \<open>Helpers\<close>

definition ensure_range :: "u16 \<Rightarrow> u16 \<Rightarrow> u16 \<Rightarrow> string \<Rightarrow> unit pdu_result" where
  "ensure_range value lo hi label =
     require (lo \<le> value \<and> value \<le> hi)
       (Fmt ''{label} must be {min}..={max}'' [Msg label] [unat lo, unat hi])"

definition require_len :: "byte list \<Rightarrow> nat \<Rightarrow> unit pdu_result" where
  "require_len data expected =
     require (length data = expected)
       (Fmt ''invalid PDU length: expected {expected}, got {}'' [] [expected, length data])"

definition u16_at :: "byte list \<Rightarrow> nat \<Rightarrow> u16 pdu_result" where
  "u16_at data offset =
     rbind (ok_or (Msg ''PDU truncated'') (get_range data offset (offset + 2)))
       (\<lambda>bytes. rbind (idx bytes 0) (\<lambda>b0. rbind (idx bytes 1) (\<lambda>b1.
          Ok (from_be_bytes b0 b1))))"

definition words :: "byte list \<Rightarrow> u16 list pdu_result" where
  "words bytes =
     rbind (require (even (length bytes)) (Msg ''register bytes must be even''))
       (\<lambda>_. Ok (map chunk_to_u16 (as_chunks 2 bytes)))"

definition push_u16 :: "byte list \<Rightarrow> u16 \<Rightarrow> byte list" where
  "push_u16 out value = out @ to_be_bytes value"

definition set_packed_bit :: "nat \<times> bool \<Rightarrow> byte list \<Rightarrow> byte list" where
  "set_packed_bit iv out =
     (let (index, value) = iv in
      if value then out[index div 8 := out ! (index div 8) OR push_bit (index mod 8) 1]
      else out)"

definition pack_bits :: "bool list \<Rightarrow> byte list" where
  "pack_bits values =
     fold set_packed_bit (enumerate 0 values) (replicate (div_ceil (length values) 8) 0)"

definition unpack_bits :: "byte list \<Rightarrow> u16 \<Rightarrow> bool list pdu_result" where
  "unpack_bits bytes quantity =
     rmap (\<lambda>index. rbind (idx bytes (index div 8))
        (\<lambda>b. Ok (drop_bit (index mod 8) b AND 1 \<noteq> 0))) [0..<unat quantity]"

section \<open>Encoding a request\<close>

definition coil_word :: "bool \<Rightarrow> u16" where
  "coil_word value = (if value then 0xFF00 else 0x0000)"

definition encode_diagnostics :: "u16 \<Rightarrow> byte list \<Rightarrow> byte list \<Rightarrow> byte list pdu_result" where
  "encode_diagnostics sub_function data pdu =
     (if sub_function = 0x000A \<and> data \<noteq> [0x00, 0x00]
      then Err (Msg ''Clear Counters and Diagnostic Register requires data 0x0000'')
      else Ok (push_u16 pdu sub_function @ data))"

definition encode_write_coils :: "u16 \<Rightarrow> bool list \<Rightarrow> byte list \<Rightarrow> byte list pdu_result" where
  "encode_write_coils address values pdu =
     rbind (ensure_range (as_u16 (length values)) 1 1968 ''coil quantity'') (\<lambda>_.
       let packed = pack_bits values;
           pdu = push_u16 (push_u16 pdu address) (as_u16 (length values))
       in Ok (pdu @ [as_u8 (length packed)] @ packed))"

definition encode_write_registers :: "u16 \<Rightarrow> u16 list \<Rightarrow> byte list \<Rightarrow> byte list pdu_result" where
  "encode_write_registers address values pdu =
     rbind (ensure_range (as_u16 (length values)) 1 123 ''register quantity'') (\<lambda>_.
       let pdu = push_u16 (push_u16 pdu address) (as_u16 (length values)) @
                 [as_u8 (length values * 2)]
       in Ok (fold (\<lambda>value out. push_u16 out value) values pdu))"

definition push_file_read :: "byte list \<Rightarrow> file_record_read \<Rightarrow> byte list pdu_result" where
  "push_file_read pdu r =
     rbind (ensure_range (frr_record_length r) 1 125 ''file record length'') (\<lambda>_.
       Ok (push_u16 (push_u16 (push_u16 (pdu @ [0x06]) (frr_file_number r))
             (frr_record_number r)) (frr_record_length r)))"

fun push_file_reads :: "byte list \<Rightarrow> file_record_read list \<Rightarrow> byte list pdu_result" where
  "push_file_reads pdu [] = Ok pdu"
| "push_file_reads pdu (r # rs) = rbind (push_file_read pdu r) (\<lambda>pdu. push_file_reads pdu rs)"

definition encode_read_file ::
    "file_record_read list \<Rightarrow> byte list \<Rightarrow> byte list pdu_result" where
  "encode_read_file records pdu =
     (if records = [] then Err (Msg ''at least one file record is required'')
      else let byte_count = length records * 7 in
        if byte_count > 0xF5 then Err (Msg ''file record request exceeds PDU limit'')
        else push_file_reads (pdu @ [as_u8 byte_count]) records)"

fun file_write_byte_count :: "nat \<Rightarrow> file_record_write list \<Rightarrow> nat pdu_result" where
  "file_write_byte_count acc [] = Ok acc"
| "file_write_byte_count acc (r # rs) =
     (if frw_values r = [] then Err (Msg ''file record values cannot be empty'')
      else file_write_byte_count (acc + 7 + length (frw_values r) * 2) rs)"

definition push_file_write :: "file_record_write \<Rightarrow> byte list \<Rightarrow> byte list" where
  "push_file_write r pdu =
     fold (\<lambda>value out. push_u16 out value) (frw_values r)
       (push_u16 (push_u16 (push_u16 (pdu @ [0x06]) (frw_file_number r))
          (frw_record_number r)) (as_u16 (length (frw_values r))))"

definition encode_write_file ::
    "file_record_write list \<Rightarrow> byte list \<Rightarrow> byte list pdu_result" where
  "encode_write_file records pdu =
     (if records = [] then Err (Msg ''at least one file record is required'')
      else rbind (file_write_byte_count 0 records) (\<lambda>byte_count.
        if byte_count > 0xF5 then Err (Msg ''file record request exceeds PDU limit'')
        else Ok (fold push_file_write records (pdu @ [as_u8 byte_count]))))"

definition encode_read_write ::
    "u16 \<Rightarrow> u16 \<Rightarrow> u16 \<Rightarrow> u16 list \<Rightarrow> byte list \<Rightarrow> byte list pdu_result" where
  "encode_read_write read_address read_quantity write_address values pdu =
     rbind (ensure_range read_quantity 1 125 ''read quantity'') (\<lambda>_.
     rbind (ensure_range (as_u16 (length values)) 1 121 ''write quantity'') (\<lambda>_.
       let pdu = push_u16 (push_u16 (push_u16 (push_u16 pdu read_address) read_quantity)
                   write_address) (as_u16 (length values)) @ [as_u8 (length values * 2)]
       in Ok (fold (\<lambda>value out. push_u16 out value) values pdu)))"

definition encode_mei :: "byte \<Rightarrow> byte list \<Rightarrow> byte list \<Rightarrow> byte list pdu_result" where
  "encode_mei mei_type data pdu =
     rbind (if mei_type = 0x0E
            then (if length data \<noteq> 2 then Ok True
                  else rbind (idx data 0) (\<lambda>d0. Ok (\<not> (1 \<le> d0 \<and> d0 \<le> 4))))
            else Ok False)
       (\<lambda>bad. if bad
         then Err (Msg ''Read Device Identification requires read code 1..=4 and object id'')
         else Ok (pdu @ [mei_type] @ data))"

fun encode_fields :: "modbus_request \<Rightarrow> byte list \<Rightarrow> byte list pdu_result" where
  "encode_fields (ReadBits _ address quantity) pdu =
     rbind (ensure_range quantity 1 2000 ''bit quantity'')
       (\<lambda>_. Ok (push_u16 (push_u16 pdu address) quantity))"
| "encode_fields (ReadRegisters _ address quantity) pdu =
     rbind (ensure_range quantity 1 125 ''register quantity'')
       (\<lambda>_. Ok (push_u16 (push_u16 pdu address) quantity))"
| "encode_fields (WriteSingleCoil address value) pdu =
     Ok (push_u16 (push_u16 pdu address) (coil_word value))"
| "encode_fields (WriteSingleRegister address value) pdu =
     Ok (push_u16 (push_u16 pdu address) value)"
| "encode_fields ReadExceptionStatus pdu = Ok pdu"
| "encode_fields GetCommEventCounter pdu = Ok pdu"
| "encode_fields GetCommEventLog pdu = Ok pdu"
| "encode_fields ReportServerId pdu = Ok pdu"
| "encode_fields (Diagnostics sub_function data) pdu = encode_diagnostics sub_function data pdu"
| "encode_fields (WriteMultipleCoils address values) pdu = encode_write_coils address values pdu"
| "encode_fields (WriteMultipleRegisters address values) pdu =
     encode_write_registers address values pdu"
| "encode_fields (ReadFileRecord records) pdu = encode_read_file records pdu"
| "encode_fields (WriteFileRecord records) pdu = encode_write_file records pdu"
| "encode_fields (MaskWriteRegister address and_mask or_mask) pdu =
     Ok (push_u16 (push_u16 (push_u16 pdu address) and_mask) or_mask)"
| "encode_fields (ReadWriteMultipleRegisters read_address read_quantity write_address values) pdu =
     encode_read_write read_address read_quantity write_address values pdu"
| "encode_fields (ReadFifoQueue address) pdu = Ok (push_u16 pdu address)"
| "encode_fields (Mei mei_type data) pdu = encode_mei mei_type data pdu"
| "encode_fields (Raw _ data) pdu = Ok (pdu @ data)"

definition encode_request :: "modbus_request \<Rightarrow> byte list pdu_result" where
  "encode_request request =
     rbind (encode_fields request [request_function request]) (\<lambda>pdu.
       if length pdu > MAX_PDU_LEN
       then Err (Fmt ''PDU exceeds {MAX_PDU_LEN} bytes'' [] [MAX_PDU_LEN])
       else Ok pdu)"

section \<open>Decoding a request\<close>

definition decode_read_bits :: "byte \<Rightarrow> byte list \<Rightarrow> modbus_request pdu_result" where
  "decode_read_bits fc data =
     rbind (require_len data 4) (\<lambda>_.
     rbind (u16_at data 2) (\<lambda>quantity.
     rbind (ensure_range quantity 1 2000 ''bit quantity'') (\<lambda>_.
     rbind (u16_at data 0) (\<lambda>address.
       Ok (ReadBits (if fc = 0x01 then Coils else DiscreteInputs) address quantity)))))"

definition decode_read_registers :: "byte \<Rightarrow> byte list \<Rightarrow> modbus_request pdu_result" where
  "decode_read_registers fc data =
     rbind (require_len data 4) (\<lambda>_.
     rbind (u16_at data 2) (\<lambda>quantity.
     rbind (ensure_range quantity 1 125 ''register quantity'') (\<lambda>_.
     rbind (u16_at data 0) (\<lambda>address.
       Ok (ReadRegisters (if fc = 0x03 then HoldingRegisters else InputRegisters)
             address quantity)))))"

definition decode_write_coil :: "byte list \<Rightarrow> modbus_request pdu_result" where
  "decode_write_coil data =
     rbind (require_len data 4) (\<lambda>_.
     rbind (u16_at data 2) (\<lambda>raw.
     rbind (if raw = 0x0000 then Ok False else if raw = 0xFF00 then Ok True
            else Err (Msg ''invalid coil value'')) (\<lambda>value.
     rbind (u16_at data 0) (\<lambda>address. Ok (WriteSingleCoil address value)))))"

definition decode_write_register :: "byte list \<Rightarrow> modbus_request pdu_result" where
  "decode_write_register data =
     rbind (require_len data 4) (\<lambda>_.
     rbind (u16_at data 0) (\<lambda>address.
     rbind (u16_at data 2) (\<lambda>value. Ok (WriteSingleRegister address value))))"

definition decode_diagnostics :: "byte list \<Rightarrow> modbus_request pdu_result" where
  "decode_diagnostics data =
     (if length data < 2 then Err (Msg ''diagnostics PDU too short'')
      else rbind (u16_at data 0) (\<lambda>sub_function.
           rbind (slice_from data 2) (\<lambda>rest. Ok (Diagnostics sub_function rest))))"

definition decode_write_coils :: "byte list \<Rightarrow> modbus_request pdu_result" where
  "decode_write_coils data =
     (if length data < 5 then Err (Msg ''write coils PDU too short'')
      else rbind (u16_at data 0) (\<lambda>address.
           rbind (u16_at data 2) (\<lambda>quantity.
           rbind (ensure_range quantity 1 1968 ''coil quantity'') (\<lambda>_.
           rbind (idx data 4) (\<lambda>c. let count = unat c in
             if count \<noteq> div_ceil (unat quantity) 8 \<or> length data \<noteq> 5 + count
             then Err (Msg ''invalid coil byte count'')
             else rbind (slice_from data 5) (\<lambda>rest.
                  rbind (unpack_bits rest quantity) (\<lambda>values.
                    Ok (WriteMultipleCoils address values))))))))"

definition decode_write_registers :: "byte list \<Rightarrow> modbus_request pdu_result" where
  "decode_write_registers data =
     (if length data < 5 then Err (Msg ''write registers PDU too short'')
      else rbind (u16_at data 0) (\<lambda>address.
           rbind (u16_at data 2) (\<lambda>quantity.
           rbind (ensure_range quantity 1 123 ''register quantity'') (\<lambda>_.
           rbind (idx data 4) (\<lambda>c. let count = unat c in
             if count \<noteq> unat quantity * 2 \<or> length data \<noteq> 5 + count
             then Err (Msg ''invalid register byte count'')
             else rbind (slice_from data 5) (\<lambda>rest.
                  rbind (words rest) (\<lambda>values.
                    Ok (WriteMultipleRegisters address values))))))))"

definition decode_file_read :: "byte list \<Rightarrow> file_record_read pdu_result" where
  "decode_file_read chunk =
     rbind (idx chunk 0) (\<lambda>ref.
       if ref \<noteq> 0x06 then Err (Msg ''file reference type must be 0x06'')
       else rbind (u16_at chunk 5) (\<lambda>record_length.
            rbind (ensure_range record_length 1 125 ''file record length'') (\<lambda>_.
            rbind (u16_at chunk 1) (\<lambda>file_number.
            rbind (u16_at chunk 3) (\<lambda>record_number.
              Ok \<lparr>frr_file_number = file_number, frr_record_number = record_number,
                  frr_record_length = record_length\<rparr>)))))"

definition decode_file_reads :: "byte list \<Rightarrow> file_record_read list pdu_result" where
  "decode_file_reads data =
     (case data of [] \<Rightarrow> Err (Msg ''invalid read-file byte count'')
      | b # rest \<Rightarrow>
          if unat b \<noteq> length rest \<or> \<not> 7 dvd length rest
          then Err (Msg ''invalid read-file byte count'')
          else rmap decode_file_read (as_chunks 7 rest))"

text \<open>The \<open>while\<close> loop of \<open>decode_file_writes\<close>, from the position \<open>cursor\<close>.\<close>

function decode_file_writes_loop ::
    "byte list \<Rightarrow> nat \<Rightarrow> file_record_write list pdu_result" where
  "decode_file_writes_loop data cursor =
     (if \<not> cursor < length data then Ok []
      else rbind (if cursor + 7 > length data then Ok True
                  else rbind (idx data cursor) (\<lambda>b. Ok (b \<noteq> 0x06))) (\<lambda>bad.
        if bad then Err (Msg ''invalid file record header'')
        else rbind (u16_at data (cursor + 1)) (\<lambda>file_number.
             rbind (u16_at data (cursor + 3)) (\<lambda>record_number.
             rbind (u16_at data (cursor + 5)) (\<lambda>c.
               let count = unat c in
               if count = 0 then Err (Msg ''file record values cannot be empty'')
               else let bytes = count * 2 in
                 if cursor + 7 + bytes > length data
                 then Err (Msg ''truncated file record values'')
                 else rbind (slice data (cursor + 7) (cursor + 7 + bytes)) (\<lambda>chunk.
                      rbind (words chunk) (\<lambda>values.
                      rbind (decode_file_writes_loop data (cursor + 7 + bytes)) (\<lambda>out.
                        Ok (\<lparr>frw_file_number = file_number, frw_record_number = record_number,
                             frw_values = values\<rparr> # out)))))))))"
  by pat_completeness auto
termination
  by (relation "measure (\<lambda>(data, cursor). length data - cursor)") auto

declare decode_file_writes_loop.simps [simp del]

definition decode_file_writes :: "byte list \<Rightarrow> file_record_write list pdu_result" where
  "decode_file_writes data =
     (case data of [] \<Rightarrow> Err (Msg ''invalid write-file byte count'')
      | b # rest \<Rightarrow>
          if unat b \<noteq> length rest then Err (Msg ''invalid write-file byte count'')
          else decode_file_writes_loop data 1)"

definition decode_mask_write :: "byte list \<Rightarrow> modbus_request pdu_result" where
  "decode_mask_write data =
     rbind (require_len data 6) (\<lambda>_.
     rbind (u16_at data 0) (\<lambda>address.
     rbind (u16_at data 2) (\<lambda>and_mask.
     rbind (u16_at data 4) (\<lambda>or_mask. Ok (MaskWriteRegister address and_mask or_mask)))))"

definition decode_read_write :: "byte list \<Rightarrow> modbus_request pdu_result" where
  "decode_read_write data =
     (if length data < 9 then Err (Msg ''read/write PDU too short'')
      else rbind (u16_at data 0) (\<lambda>read_address.
           rbind (u16_at data 2) (\<lambda>read_quantity.
           rbind (u16_at data 4) (\<lambda>write_address.
           rbind (u16_at data 6) (\<lambda>write_quantity.
           rbind (ensure_range read_quantity 1 125 ''read quantity'') (\<lambda>_.
           rbind (ensure_range write_quantity 1 121 ''write quantity'') (\<lambda>_.
           rbind (idx data 8) (\<lambda>c. let count = unat c in
             if count \<noteq> unat write_quantity * 2 \<or> length data \<noteq> 9 + count
             then Err (Msg ''invalid read/write byte count'')
             else rbind (slice_from data 9) (\<lambda>rest.
                  rbind (words rest) (\<lambda>values.
                    Ok (ReadWriteMultipleRegisters read_address read_quantity
                          write_address values)))))))))))"

definition decode_mei :: "byte list \<Rightarrow> modbus_request pdu_result" where
  "decode_mei data =
     (if data = [] then Err (Msg ''MEI PDU too short'')
      else rbind (idx data 0) (\<lambda>mei_type.
           rbind (slice_from data 1) (\<lambda>rest. Ok (Mei mei_type rest))))"

definition decode_fields :: "byte \<Rightarrow> byte list \<Rightarrow> modbus_request pdu_result" where
  "decode_fields fc data =
     (if fc = 0x01 \<or> fc = 0x02 then decode_read_bits fc data
      else if fc = 0x03 \<or> fc = 0x04 then decode_read_registers fc data
      else if fc = 0x05 then decode_write_coil data
      else if fc = 0x06 then decode_write_register data
      else if fc = 0x07 then rbind (require_len data 0) (\<lambda>_. Ok ReadExceptionStatus)
      else if fc = 0x08 then decode_diagnostics data
      else if fc = 0x0B then rbind (require_len data 0) (\<lambda>_. Ok GetCommEventCounter)
      else if fc = 0x0C then rbind (require_len data 0) (\<lambda>_. Ok GetCommEventLog)
      else if fc = 0x0F then decode_write_coils data
      else if fc = 0x10 then decode_write_registers data
      else if fc = 0x11 then rbind (require_len data 0) (\<lambda>_. Ok ReportServerId)
      else if fc = 0x14 then rbind (decode_file_reads data) (\<lambda>records. Ok (ReadFileRecord records))
      else if fc = 0x15 then rbind (decode_file_writes data) (\<lambda>records. Ok (WriteFileRecord records))
      else if fc = 0x16 then decode_mask_write data
      else if fc = 0x17 then decode_read_write data
      else if fc = 0x18 then rbind (require_len data 2) (\<lambda>_.
             rbind (u16_at data 0) (\<lambda>address. Ok (ReadFifoQueue address)))
      else if fc = 0x2B then decode_mei data
      else Ok (Raw fc data))"

definition decode_request :: "byte list \<Rightarrow> decoded_request pdu_result" where
  "decode_request pdu =
     (case pdu of [] \<Rightarrow> Err (Msg ''empty PDU'')
      | fc # data \<Rightarrow> rbind (decode_fields fc data)
          (\<lambda>request. Ok \<lparr>dec_function = fc, dec_request = request\<rparr>))"

section \<open>Lemmas on the helpers\<close>

lemma u16_at_eq: "u16_at data off =
    (if off + 2 \<le> length data then Ok (from_be_bytes (data ! off) (data ! Suc off))
     else Err (Msg ''PDU truncated''))"
  by (simp add: u16_at_def get_range_def idx_def)

lemma u16_at_no_panic [simp]: "u16_at data off \<noteq> Panic"
  by (simp add: u16_at_eq)

lemma ensure_range_eq [result_simps]:
  "ensure_range v lo hi l = Ok u \<longleftrightarrow> lo \<le> v \<and> v \<le> hi" "ensure_range v lo hi l \<noteq> Panic"
  by (auto simp: ensure_range_def result_simps)

lemma require_len_eq [result_simps]:
  "require_len data n = Ok u \<longleftrightarrow> length data = n" "require_len data n \<noteq> Panic"
  by (auto simp: require_len_def result_simps)

lemma words_eq [result_simps]:
  "words bs = Ok ws \<longleftrightarrow> even (length bs) \<and> ws = map chunk_to_u16 (as_chunks 2 bs)"
  "words bs \<noteq> Panic"
  by (auto simp: words_def result_simps)

lemma words_be_bytes_of [simp]: "words (be_bytes_of ws) = Ok ws"
  by (simp add: result_simps)

lemma fold_push_u16: "fold (\<lambda>value out. push_u16 out value) ws pdu = pdu @ be_bytes_of ws"
  by (induction ws arbitrary: pdu) (auto simp: push_u16_def)

lemma length_set_packed_bit [simp]: "length (set_packed_bit iv out) = length out"
  by (simp add: set_packed_bit_def split: prod.splits)

lemma length_fold_packed [simp]: "length (fold set_packed_bit ivs out) = length out"
  by (induction ivs arbitrary: out) auto

lemma length_pack_bits [simp, byte_simps]:
  "length (pack_bits values) = div_ceil (length values) 8"
  by (simp add: pack_bits_def)

lemma bit_set_packed_bit:
  assumes "i div 8 < length out" "j div 8 < length out"
  shows "bit (set_packed_bit (i, v) out ! (j div 8)) (j mod 8) \<longleftrightarrow>
    bit (out ! (j div 8)) (j mod 8) \<or> (v \<and> j = i)"
proof -
  have eq: "j = i" if "j div 8 = i div 8" "j mod 8 = i mod 8"
    using that by (metis div_mult_mod_eq)
  show ?thesis
  proof (cases "v \<and> j div 8 = i div 8")
    case True
    then show ?thesis
      using assms eq by (auto simp: set_packed_bit_def bit_simps)
  next
    case False
    then show ?thesis using assms by (auto simp: set_packed_bit_def)
  qed
qed

lemma bit_fold_packed:
  assumes "n + length vs \<le> 8 * length out" "j < 8 * length out"
  shows "bit (fold set_packed_bit (enumerate n vs) out ! (j div 8)) (j mod 8) \<longleftrightarrow>
    bit (out ! (j div 8)) (j mod 8) \<or> (n \<le> j \<and> j < n + length vs \<and> vs ! (j - n))"
  using assms
proof (induction vs arbitrary: n out)
  case (Cons v vs)
  have "n div 8 < length out" "j div 8 < length out"
    using Cons.prems by (auto simp: div_less_iff_less_mult)
  then have "bit (set_packed_bit (n, v) out ! (j div 8)) (j mod 8) \<longleftrightarrow>
      bit (out ! (j div 8)) (j mod 8) \<or> (v \<and> j = n)"
    by (rule bit_set_packed_bit)
  then show ?case
    using Cons.IH [of "Suc n" "set_packed_bit (n, v) out"] Cons.prems
    by (auto simp: nth_Cons' Suc_le_eq)
qed auto

lemma div_ceil_bound: "n \<le> 8 * div_ceil n 8" "div_ceil n 8 * 8 < n + 8"
  by (simp_all add: div_ceil_def)

lemma bit_pack_bits:
  "j < 8 * div_ceil (length vs) 8 \<Longrightarrow>
   bit (pack_bits vs ! (j div 8)) (j mod 8) \<longleftrightarrow> j < length vs \<and> vs ! j"
  using div_ceil_bound(1) [of "length vs"]
  by (simp add: pack_bits_def bit_fold_packed nth_replicate div_less_iff_less_mult mult.commute)

lemma drop_bit_and_1: "drop_bit n (b :: byte) AND 1 \<noteq> 0 \<longleftrightarrow> bit b n"
  by (simp add: bit_iff_odd_drop_bit and_one_eq odd_iff_mod_2_eq_one)

lemma unpack_bits_Ok:
  assumes "unat q \<le> 8 * length bs"
  shows "unpack_bits bs q = Ok (map (\<lambda>i. bit (bs ! (i div 8)) (i mod 8)) [0..<unat q])"
  unfolding unpack_bits_def
  by (rule rmap_Ok_map) (use assms in \<open>auto simp: drop_bit_and_1 div_less_iff_less_mult\<close>)

lemma unpack_pack_bits:
  assumes "unat q = length vs"
  shows "unpack_bits (pack_bits vs) q = Ok vs"
proof -
  have "unpack_bits (pack_bits vs) q =
      Ok (map (\<lambda>i. bit (pack_bits vs ! (i div 8)) (i mod 8)) [0..<length vs])"
    using assms div_ceil_bound(1) [of "length vs"] by (subst unpack_bits_Ok) auto
  also have "map (\<lambda>i. bit (pack_bits vs ! (i div 8)) (i mod 8)) [0..<length vs] = vs"
    using div_ceil_bound(1) [of "length vs"]
    by (intro nth_equalityI) (auto simp: bit_pack_bits)
  finally show ?thesis .
qed

end
