(* ===== verification/Modbus_Pdu_Request.thy ===== *)
theory Modbus_Pdu_Request
  imports Modbus_Pdu
begin

unbundle bit_operations_syntax

text \<open>
  Facts about the request half of \<open>plugins/modbus/codec/pdu.rs\<close>: what the encoder writes,
  byte by byte; that the decoder reads it back; that the decoder never indexes out of range;
  and the well-formedness (\<open>wf_request\<close>) that every decoded request satisfies, which the
  server's theories rely on.
\<close>

section \<open>Round trip\<close>


definition file_read_bytes :: "file_record_read \<Rightarrow> byte list" where
  "file_read_bytes r = 0x06 # to_be_bytes (frr_file_number r) @
     to_be_bytes (frr_record_number r) @ to_be_bytes (frr_record_length r)"

definition file_write_bytes :: "file_record_write \<Rightarrow> byte list" where
  "file_write_bytes r = 0x06 # to_be_bytes (frw_file_number r) @
     to_be_bytes (frw_record_number r) @ to_be_bytes (as_u16 (length (frw_values r))) @
     be_bytes_of (frw_values r)"

lemma length_file_read_bytes [simp]: "length (file_read_bytes r) = 7"
  by (simp add: file_read_bytes_def)

lemma length_file_write_bytes [simp]:
  "length (file_write_bytes r) = 7 + 2 * length (frw_values r)"
  by (simp add: file_write_bytes_def)

lemma push_file_reads_Ok:
  "push_file_reads pdu rs = Ok out \<longleftrightarrow>
   (\<forall>r\<in>set rs. 1 \<le> frr_record_length r \<and> frr_record_length r \<le> 125) \<and>
   out = pdu @ concat (map file_read_bytes rs)"
  by (induction rs arbitrary: pdu)
    (auto simp: push_file_read_def result_simps push_u16_def file_read_bytes_def)

lemma push_file_write_eq: "push_file_write r pdu = pdu @ file_write_bytes r"
  unfolding push_file_write_def fold_push_u16 by (simp add: push_u16_def file_write_bytes_def)

lemma fold_push_file_write:
  "fold push_file_write rs pdu = pdu @ concat (map file_write_bytes rs)"
  by (induction rs arbitrary: pdu) (auto simp: push_file_write_eq)

lemma file_write_byte_count_Ok:
  "file_write_byte_count acc rs = Ok n \<longleftrightarrow>
   (\<forall>r\<in>set rs. frw_values r \<noteq> []) \<and> n = acc + length (concat (map file_write_bytes rs))"
  by (induction rs arbitrary: acc) (auto simp: algebra_simps)

lemma decode_file_read_bytes:
  assumes "1 \<le> frr_record_length r" "frr_record_length r \<le> 125"
  shows "decode_file_read (file_read_bytes r) = Ok r"
  using assms
  by (simp add: decode_file_read_def file_read_bytes_def u16_at_eq to_be_bytes_def
      ensure_range_def)

lemma rmap_decode_file_read:
  assumes "\<forall>r\<in>set rs. 1 \<le> frr_record_length r \<and> frr_record_length r \<le> 125"
  shows "rmap decode_file_read (as_chunks 7 (concat (map file_read_bytes rs))) = Ok rs"
proof -
  have "as_chunks 7 (concat (map file_read_bytes rs)) = map file_read_bytes rs"
    by (rule as_chunks_concat) auto
  moreover have "rmap decode_file_read (map file_read_bytes rs) = Ok rs"
    using assms by (induction rs) (auto simp: decode_file_read_bytes)
  ultimately show ?thesis by simp
qed

lemma decode_file_writes_loop_bytes:
  assumes "\<forall>r\<in>set rs. frw_values r \<noteq> [] \<and> length (frw_values r) < 65536"
  shows "decode_file_writes_loop (pre @ concat (map file_write_bytes rs)) (length pre) = Ok rs"
  using assms
proof (induction rs arbitrary: pre)
  case Nil
  then show ?case by (simp add: decode_file_writes_loop.simps)
next
  case (Cons r rs)
  let ?rest = "concat (map file_write_bytes rs)"
  let ?data = "pre @ concat (map file_write_bytes (r # rs))"
  let ?n = "length (frw_values r)"
  let ?vs = "be_bytes_of (frw_values r)"
  have n: "unat (as_u16 ?n) = ?n" "(?n = 0) = False"
    using Cons.prems by (auto simp: byte_simps)
  have data: "?data = pre @ 0x06 # to_be_bytes (frw_file_number r) @
      to_be_bytes (frw_record_number r) @ to_be_bytes (as_u16 ?n) @ ?vs @ ?rest"
    by (simp add: file_write_bytes_def)
  have at: "u16_at ?data (length pre + 1) = Ok (frw_file_number r)"
    "u16_at ?data (length pre + 3) = Ok (frw_record_number r)"
    "u16_at ?data (length pre + 5) = Ok (as_u16 ?n)"
    unfolding data by (simp_all add: u16_at_eq to_be_bytes_def nth_append)
  have tail: "decode_file_writes_loop ?data (length pre + 7 + ?n * 2) = Ok rs"
    using Cons.IH [of "pre @ file_write_bytes r"] Cons.prems by (simp add: algebra_simps)
  have sl: "slice ?data (length pre + 7) (length pre + 7 + ?n * 2) = Ok ?vs"
    unfolding data by (simp add: slice_def to_be_bytes_def)
  have hd: "idx ?data (length pre) = Ok 0x06" "\<not> length pre + 7 > length ?data"
    "length pre < length ?data" "\<not> length pre + 7 + ?n * 2 > length ?data"
    by (auto simp: idx_def nth_append file_write_bytes_def)
  show ?case
    by (subst decode_file_writes_loop.simps)
      (simp only: hd at sl tail n Let_def rbind.simps words_be_bytes_of simp_thms if_True if_False,
       simp)
qed

section \<open>Known function codes\<close>

definition known_functions :: "byte list" where
  "known_functions = [0x01, 0x02, 0x03, 0x04, 0x05, 0x06, 0x07, 0x08, 0x0B, 0x0C, 0x0F,
     0x10, 0x11, 0x14, 0x15, 0x16, 0x17, 0x18, 0x2B]"

text \<open>A \<open>Raw\<close> request is its own only where its code is not that of another variant.\<close>

fun canonical_request :: "modbus_request \<Rightarrow> bool" where
  "canonical_request (Raw f _) = (f \<notin> set known_functions)"
| "canonical_request _ = True"

lemma coil_word_eq [simp]: "coil_word v = 0xFF00 \<longleftrightarrow> v" "coil_word v = 0 \<longleftrightarrow> \<not> v"
  by (simp_all add: coil_word_def)

lemmas u16_bytes = u16_at_eq to_be_bytes_def push_u16_def

lemma decode_write_coils_bytes:
  assumes "1 \<le> length vs" "length vs \<le> 1968"
  shows "decode_write_coils (to_be_bytes a @ to_be_bytes (as_u16 (length vs)) @
      [as_u8 (length (pack_bits vs))] @ pack_bits vs) = Ok (WriteMultipleCoils a vs)"
proof -
  have q: "unat (as_u16 (length vs)) = length vs" and c: "div_ceil (length vs) 8 < 256"
    using assms by (auto simp: unat_as_u16 div_ceil_def)
  have r: "ensure_range (as_u16 (length vs)) 1 1968 l = Ok ()" for l
    using assms by (simp add: result_simps word_le_nat_alt q)
  show ?thesis
    using c by (simp add: decode_write_coils_def u16_at_eq to_be_bytes_def r q byte_simps
        unpack_pack_bits [OF q])
qed

lemma decode_write_registers_bytes:
  assumes "1 \<le> length vs" "length vs \<le> 123"
  shows "decode_write_registers (to_be_bytes a @ to_be_bytes (as_u16 (length vs)) @
      [as_u8 (length vs * 2)] @ be_bytes_of vs) = Ok (WriteMultipleRegisters a vs)"
proof -
  have q: "unat (as_u16 (length vs)) = length vs" and c: "unat (as_u8 (length vs * 2)) = length vs * 2"
    using assms by (auto simp: unat_as_u16 unat_as_u8)
  have r: "ensure_range (as_u16 (length vs)) 1 123 l = Ok ()" for l
    using assms by (simp add: result_simps word_le_nat_alt q)
  show ?thesis
    by (simp add: decode_write_registers_def u16_at_eq to_be_bytes_def r q c)
qed

lemma decode_read_write_bytes:
  assumes "1 \<le> length vs" "length vs \<le> 121" "1 \<le> rq" "rq \<le> 125"
  shows "decode_read_write (to_be_bytes ra @ to_be_bytes rq @ to_be_bytes wa @
      to_be_bytes (as_u16 (length vs)) @ [as_u8 (length vs * 2)] @ be_bytes_of vs) =
    Ok (ReadWriteMultipleRegisters ra rq wa vs)"
proof -
  have q: "unat (as_u16 (length vs)) = length vs" and c: "unat (as_u8 (length vs * 2)) = length vs * 2"
    using assms by (auto simp: unat_as_u16 unat_as_u8)
  have r: "ensure_range (as_u16 (length vs)) 1 121 l = Ok ()" "ensure_range rq 1 125 l = Ok ()" for l
    using assms by (simp_all add: result_simps word_le_nat_alt q)
  show ?thesis
    by (simp add: decode_read_write_def u16_at_eq to_be_bytes_def r q c)
qed

lemma decode_file_reads_bytes:
  assumes "\<forall>r\<in>set rs. 1 \<le> frr_record_length r \<and> frr_record_length r \<le> 125"
    "length rs * 7 \<le> 0xF5"
  shows "decode_file_reads (as_u8 (length rs * 7) # concat (map file_read_bytes rs)) = Ok rs"
proof -
  have l: "length (concat (map file_read_bytes rs)) = length rs * 7"
    by (induction rs) auto
  show ?thesis
    using assms(2)
    by (simp add: decode_file_reads_def l byte_simps rmap_decode_file_read [OF assms(1)])
qed

lemma decode_file_writes_bytes:
  assumes "\<forall>r\<in>set rs. frw_values r \<noteq> []"
    and n: "n = length (concat (map file_write_bytes rs))" "n \<le> 0xF5"
  shows "decode_file_writes (as_u8 n # concat (map file_write_bytes rs)) = Ok rs"
proof -
  have "length (frw_values r) < 65536" if "r \<in> set rs" for r
  proof -
    from that have "length (file_write_bytes r) \<le> n"
      unfolding n by (induction rs) auto
    with n(2) show ?thesis by simp
  qed
  with assms(1) have "decode_file_writes_loop ([as_u8 n] @ concat (map file_write_bytes rs))
      (length [as_u8 n]) = Ok rs"
    by (intro decode_file_writes_loop_bytes) auto
  then show ?thesis
    using n by (simp add: decode_file_writes_def byte_simps)
qed


lemma encode_write_coils_Ok:
  assumes "encode_write_coils a vs [f] = Ok pdu" "length pdu \<le> 253"
  shows "1 \<le> length vs" "length vs \<le> 1968"
    "pdu = f # to_be_bytes a @ to_be_bytes (as_u16 (length vs)) @
      [as_u8 (length (pack_bits vs))] @ pack_bits vs"
proof -
  from assms(1) have r: "1 \<le> as_u16 (length vs)" "as_u16 (length vs) \<le> 1968"
    and p: "pdu = f # to_be_bytes a @ to_be_bytes (as_u16 (length vs)) @
      [as_u8 (length (pack_bits vs))] @ pack_bits vs"
    by (auto simp: encode_write_coils_def result_simps Let_def push_u16_def)
  show "pdu = f # to_be_bytes a @ to_be_bytes (as_u16 (length vs)) @
      [as_u8 (length (pack_bits vs))] @ pack_bits vs"
    by (rule p)
  have "length vs < 65536"
    using assms(2) div_ceil_bound(1) [of "length vs"] by (simp add: p)
  then have "unat (as_u16 (length vs)) = length vs" by (rule unat_as_u16_small)
  with r show "1 \<le> length vs" "length vs \<le> 1968" by (simp_all add: word_le_nat_alt)
qed

lemma encode_write_registers_Ok:
  assumes "encode_write_registers a vs [f] = Ok pdu" "length pdu \<le> 253"
  shows "1 \<le> length vs" "length vs \<le> 123"
    "pdu = f # to_be_bytes a @ to_be_bytes (as_u16 (length vs)) @
      [as_u8 (length vs * 2)] @ be_bytes_of vs"
proof -
  from assms(1) have r: "1 \<le> as_u16 (length vs)" "as_u16 (length vs) \<le> 123"
    and p: "pdu = f # to_be_bytes a @ to_be_bytes (as_u16 (length vs)) @
      [as_u8 (length vs * 2)] @ be_bytes_of vs"
    unfolding encode_write_registers_def fold_push_u16
    by (auto simp: result_simps Let_def push_u16_def)
  show "pdu = f # to_be_bytes a @ to_be_bytes (as_u16 (length vs)) @
      [as_u8 (length vs * 2)] @ be_bytes_of vs"
    by (rule p)
  have "length vs < 65536" using assms(2) by (simp add: p)
  then have "unat (as_u16 (length vs)) = length vs" by (rule unat_as_u16_small)
  with r show "1 \<le> length vs" "length vs \<le> 123" by (simp_all add: word_le_nat_alt)
qed

lemma encode_read_write_Ok:
  assumes "encode_read_write ra rq wa vs [f] = Ok pdu" "length pdu \<le> 253"
  shows "1 \<le> length vs" "length vs \<le> 121" "1 \<le> rq" "rq \<le> 125"
    "pdu = f # to_be_bytes ra @ to_be_bytes rq @ to_be_bytes wa @
      to_be_bytes (as_u16 (length vs)) @ [as_u8 (length vs * 2)] @ be_bytes_of vs"
proof -
  from assms(1) have r: "1 \<le> as_u16 (length vs)" "as_u16 (length vs) \<le> 121" "1 \<le> rq" "rq \<le> 125"
    and p: "pdu = f # to_be_bytes ra @ to_be_bytes rq @ to_be_bytes wa @
      to_be_bytes (as_u16 (length vs)) @ [as_u8 (length vs * 2)] @ be_bytes_of vs"
    unfolding encode_read_write_def fold_push_u16
    by (auto simp: result_simps Let_def push_u16_def)
  show "pdu = f # to_be_bytes ra @ to_be_bytes rq @ to_be_bytes wa @
      to_be_bytes (as_u16 (length vs)) @ [as_u8 (length vs * 2)] @ be_bytes_of vs"
    by (rule p)
  have "length vs < 65536" using assms(2) by (simp add: p)
  then have "unat (as_u16 (length vs)) = length vs" by (rule unat_as_u16_small)
  with r show "1 \<le> length vs" "length vs \<le> 121" "1 \<le> rq" "rq \<le> 125"
    by (simp_all add: word_le_nat_alt)
qed

lemma encode_read_file_Ok:
  "encode_read_file rs [f] = Ok pdu \<longleftrightarrow>
     rs \<noteq> [] \<and> length rs * 7 \<le> 0xF5 \<and>
     (\<forall>r\<in>set rs. 1 \<le> frr_record_length r \<and> frr_record_length r \<le> 125) \<and>
     pdu = f # as_u8 (length rs * 7) # concat (map file_read_bytes rs)"
  by (auto simp: encode_read_file_def push_file_reads_Ok Let_def)

lemma encode_write_file_Ok:
  "encode_write_file rs [f] = Ok pdu \<longleftrightarrow>
     rs \<noteq> [] \<and> (\<forall>r\<in>set rs. frw_values r \<noteq> []) \<and>
     length (concat (map file_write_bytes rs)) \<le> 0xF5 \<and>
     pdu = f # as_u8 (length (concat (map file_write_bytes rs))) # concat (map file_write_bytes rs)"
  unfolding encode_write_file_def fold_push_file_write
  by (auto simp: result_simps file_write_byte_count_Ok simp del: length_concat)

lemma encode_mei_eq: "encode_mei t d pdu =
   (if t = 0x0E \<and> (length d \<noteq> 2 \<or> \<not> (1 \<le> d ! 0 \<and> d ! 0 \<le> 4))
    then Err (Msg ''Read Device Identification requires read code 1..=4 and object id'')
    else Ok (pdu @ [t] @ d))"
  by (auto simp: encode_mei_def idx_def)

lemma fields_round_trip:
  assumes "encode_fields r [request_function r] = Ok pdu" "length pdu \<le> 253" "canonical_request r"
  shows "pdu = request_function r # tl pdu \<and> decode_fields (request_function r) (tl pdu) = Ok r"
proof (cases r)
  case (ReadBits area a q)
  with assms show ?thesis
    by (cases area) (auto simp: result_simps decode_fields_def decode_read_bits_def u16_bytes
        require_len_def ensure_range_def)
next
  case (ReadRegisters area a q)
  with assms show ?thesis
    by (cases area) (auto simp: result_simps decode_fields_def decode_read_registers_def u16_bytes
        require_len_def ensure_range_def)
next
  case (WriteSingleCoil a v)
  with assms show ?thesis
    by (auto simp: decode_fields_def decode_write_coil_def u16_bytes require_len_def)
next
  case (WriteSingleRegister a v)
  with assms show ?thesis
    by (auto simp: decode_fields_def decode_write_register_def u16_bytes require_len_def)
next
  case (Diagnostics sf d)
  with assms show ?thesis
    by (auto simp: decode_fields_def decode_diagnostics_def encode_diagnostics_def u16_bytes
        split: if_splits)
next
  case (WriteMultipleCoils a vs)
  with assms have "encode_write_coils a vs [0x0F] = Ok pdu" by simp
  from encode_write_coils_Ok [OF this assms(2)] WriteMultipleCoils show ?thesis
    using decode_write_coils_bytes [of vs a] by (simp add: decode_fields_def)
next
  case (WriteMultipleRegisters a vs)
  with assms have "encode_write_registers a vs [0x10] = Ok pdu" by simp
  from encode_write_registers_Ok [OF this assms(2)] WriteMultipleRegisters show ?thesis
    using decode_write_registers_bytes [of vs a] by (simp add: decode_fields_def)
next
  case (ReadFileRecord rs)
  with assms(1) show ?thesis
    by (auto simp: encode_read_file_Ok decode_fields_def decode_file_reads_bytes)
next
  case (WriteFileRecord rs)
  with assms(1) show ?thesis
    by (auto simp: encode_write_file_Ok decode_fields_def decode_file_writes_bytes
        simp del: length_concat)
next
  case (MaskWriteRegister a am om)
  with assms show ?thesis
    by (auto simp: decode_fields_def decode_mask_write_def u16_bytes require_len_def)
next
  case (ReadWriteMultipleRegisters ra rq wa vs)
  with assms have "encode_read_write ra rq wa vs [0x17] = Ok pdu" by simp
  from encode_read_write_Ok [OF this assms(2)] ReadWriteMultipleRegisters show ?thesis
    using decode_read_write_bytes [of vs rq ra wa] by (simp add: decode_fields_def)
next
  case (Mei t d)
  with assms show ?thesis
    by (auto simp: encode_mei_eq decode_fields_def decode_mei_def split: if_splits)
next
  case (Raw f d)
  with assms show ?thesis
    by (auto simp: decode_fields_def known_functions_def)
qed (use assms in \<open>auto simp: decode_fields_def require_len_def u16_bytes\<close>)

lemma encode_request_Ok:
  "encode_request r = Ok pdu \<longleftrightarrow>
   encode_fields r [request_function r] = Ok pdu \<and> length pdu \<le> 253"
  by (cases "encode_fields r [request_function r]") (auto simp: encode_request_def MAX_PDU_LEN_def)

theorem request_round_trip:
  assumes "encode_request r = Ok pdu" "canonical_request r"
  shows "decode_request pdu = Ok \<lparr>dec_function = request_function r, dec_request = r\<rparr>"
  using assms fields_round_trip [of r pdu]
  by (cases pdu) (auto simp: encode_request_Ok decode_request_def)

section \<open>Decoding never panics\<close>

lemma decode_file_writes_loop_no_panic: "decode_file_writes_loop data cursor \<noteq> Panic"
proof (induction data cursor rule: decode_file_writes_loop.induct)
  case (1 data cursor)
  show ?case
    by (subst decode_file_writes_loop.simps)
      (use "1.IH" in \<open>auto simp: result_simps Let_def u16_at_eq split: if_splits\<close>)
qed

lemma unpack_bits_no_panic: "unat q \<le> 8 * length bs \<Longrightarrow> unpack_bits bs q \<noteq> Panic"
  by (simp add: unpack_bits_Ok)

lemma decode_write_coils_no_panic: "decode_write_coils data \<noteq> Panic"
  using div_ceil_bound(1) unpack_bits_no_panic
  by (fastforce simp: decode_write_coils_def result_simps Let_def u16_at_eq split: if_splits)

lemma decode_file_read_no_panic: "length c = 7 \<Longrightarrow> decode_file_read c \<noteq> Panic"
  by (auto simp: decode_file_read_def result_simps u16_at_eq split: if_splits)

lemma decode_file_reads_no_panic: "decode_file_reads data \<noteq> Panic"
  by (auto simp: decode_file_reads_def split: list.splits
      dest!: as_chunks_all_length intro!: rmap_no_panic decode_file_read_no_panic)

lemma decode_file_writes_no_panic: "decode_file_writes data \<noteq> Panic"
  by (simp add: decode_file_writes_def decode_file_writes_loop_no_panic split: list.splits)

lemmas decode_arm_defs = decode_read_bits_def decode_read_registers_def decode_write_coil_def
  decode_write_register_def decode_diagnostics_def decode_mask_write_def decode_mei_def
  decode_write_registers_def decode_read_write_def

lemma decode_fields_no_panic: "decode_fields fc data \<noteq> Panic"
  unfolding decode_fields_def
  by (auto simp: decode_arm_defs result_simps Let_def decode_write_coils_no_panic u16_at_eq
      decode_file_reads_no_panic decode_file_writes_no_panic split: if_splits)

theorem decode_request_no_panic: "decode_request pdu \<noteq> Panic"
  by (simp add: decode_request_def result_simps decode_fields_no_panic split: list.splits)

lemma push_file_reads_no_panic: "push_file_reads pdu rs \<noteq> Panic"
  by (induction rs arbitrary: pdu) (auto simp: push_file_read_def result_simps)

lemma file_write_byte_count_no_panic: "file_write_byte_count acc rs \<noteq> Panic"
  by (induction rs arbitrary: acc) auto

lemma encode_request_no_panic: "encode_request r \<noteq> Panic"
  by (cases r) (auto simp: encode_request_def result_simps encode_mei_eq encode_diagnostics_def
      encode_write_coils_def encode_write_registers_def encode_read_file_def encode_write_file_def
      encode_read_write_def Let_def push_file_reads_no_panic file_write_byte_count_no_panic
      split: if_splits)

section \<open>Well-formed requests\<close>

fun wf_request :: "modbus_request \<Rightarrow> bool" where
  "wf_request (ReadBits _ _ q) \<longleftrightarrow> 1 \<le> q \<and> q \<le> 2000"
| "wf_request (ReadRegisters _ _ q) \<longleftrightarrow> 1 \<le> q \<and> q \<le> 125"
| "wf_request (WriteMultipleCoils _ vs) \<longleftrightarrow> 1 \<le> length vs \<and> length vs \<le> 1968"
| "wf_request (WriteMultipleRegisters _ vs) \<longleftrightarrow> 1 \<le> length vs \<and> length vs \<le> 123"
| "wf_request (ReadFileRecord rs) \<longleftrightarrow>
     list_all (\<lambda>r. 1 \<le> frr_record_length r \<and> frr_record_length r \<le> 125) rs \<and> 7 * length rs \<le> 255"
| "wf_request (WriteFileRecord rs) \<longleftrightarrow>
     list_all (\<lambda>r. frw_values r \<noteq> []) rs \<and> length (concat (map file_write_bytes rs)) \<le> 255"
| "wf_request (ReadWriteMultipleRegisters _ rq _ vs) \<longleftrightarrow>
     1 \<le> rq \<and> rq \<le> 125 \<and> 1 \<le> length vs \<and> length vs \<le> 121"
| "wf_request (Raw f _) \<longleftrightarrow> f \<notin> set known_functions"
| "wf_request _ \<longleftrightarrow> True"

lemma decode_file_writes_loop_Ok:
  "decode_file_writes_loop data cursor = Ok rs \<Longrightarrow> cursor \<le> length data \<Longrightarrow>
   list_all (\<lambda>r. frw_values r \<noteq> []) rs \<and>
   cursor + length (concat (map file_write_bytes rs)) = length data"
proof (induction data cursor arbitrary: rs rule: decode_file_writes_loop.induct)
  case (1 data cursor)
  show ?case
  proof (cases "cursor < length data")
    case False
    with "1.prems" show ?thesis by (simp add: decode_file_writes_loop.simps)
  next
    case True
    from "1.prems" True obtain fnum rnum c chunk vs out where
      h: "cursor + 7 \<le> length data" "idx data cursor = (Ok 0x06 :: byte pdu_result)"
      and u: "u16_at data (cursor + 1) = Ok fnum" "u16_at data (cursor + 3) = Ok rnum"
        "u16_at data (cursor + 5) = Ok c"
      and c: "unat c \<noteq> 0" "\<not> cursor + 7 + unat c * 2 > length data"
      and s: "slice data (cursor + 7) (cursor + 7 + unat c * 2) = (Ok chunk :: byte list pdu_result)"
        "words chunk = Ok vs" "decode_file_writes_loop data (cursor + 7 + unat c * 2) = Ok out"
      and rs: "rs = \<lparr>frw_file_number = fnum, frw_record_number = rnum, frw_values = vs\<rparr> # out"
      and not_False: "\<not> False"
      by (subst (asm) decode_file_writes_loop.simps)
        (auto simp: result_simps Let_def split: if_splits)
    have "length vs = unat c"
      using s(1,2) c by (auto simp: result_simps length_as_chunks)
    moreover have "list_all (\<lambda>r. frw_values r \<noteq> []) out \<and>
        cursor + 7 + unat c * 2 + length (concat (map file_write_bytes out)) = length data"
      using "1.IH" [OF _ not_False refl c(1) refl c(2) s(3)] True c(2) by simp
    ultimately show ?thesis using c by (auto simp: rs algebra_simps)
  qed
qed

lemma decode_file_writes_wf:
  "decode_file_writes data = Ok rs \<Longrightarrow> wf_request (WriteFileRecord rs)"
proof -
  assume a: "decode_file_writes data = Ok rs"
  then obtain b rest where d: "data = b # rest" "unat b = length rest"
    "decode_file_writes_loop data 1 = Ok rs"
    by (auto simp: decode_file_writes_def split: list.splits if_splits)
  from decode_file_writes_loop_Ok [OF d(3)] d(1,2) u8_bound [of b] show ?thesis by simp
qed

lemma decode_file_reads_wf:
  "decode_file_reads data = Ok rs \<Longrightarrow> wf_request (ReadFileRecord rs)"
proof -
  assume a: "decode_file_reads data = Ok rs"
  then obtain b :: byte and rest where d: "unat b = length rest"
    and r: "rmap decode_file_read (as_chunks 7 rest) = Ok rs"
    by (auto simp: decode_file_reads_def split: list.splits if_splits)
  have "1 \<le> frr_record_length r \<and> frr_record_length r \<le> 125" if "r \<in> set rs" for r
    using r _ that
    by (rule rmap_all) (auto simp: decode_file_read_def result_simps split: if_splits)
  moreover have "7 * length rs \<le> 255"
    using rmap_length [OF r] d u8_bound [of b] by (simp add: length_as_chunks)
  ultimately show ?thesis by (simp add: list_all_iff)
qed

lemma decode_write_coils_wf:
  "decode_write_coils data = Ok r \<Longrightarrow> wf_request r \<and> request_function r = 0x0F"
  using unpack_bits_Ok div_ceil_bound(1)
  by (fastforce simp: decode_write_coils_def result_simps Let_def word_le_nat_alt split: if_splits)

lemma decode_write_registers_wf:
  "decode_write_registers data = Ok r \<Longrightarrow> wf_request r \<and> request_function r = 0x10"
  by (auto simp: decode_write_registers_def result_simps Let_def word_le_nat_alt length_as_chunks
      split: if_splits)

lemma decode_read_write_wf:
  "decode_read_write data = Ok r \<Longrightarrow> wf_request r \<and> request_function r = 0x17"
  by (auto simp: decode_read_write_def result_simps Let_def word_le_nat_alt length_as_chunks
      split: if_splits)

lemma decode_fields_wf:
  "decode_fields fc data = Ok r \<Longrightarrow> wf_request r \<and> request_function r = fc"
  using decode_write_coils_wf [of data r] decode_write_registers_wf [of data r]
    decode_read_write_wf [of data r] decode_file_reads_wf [of data] decode_file_writes_wf [of data]
  unfolding decode_fields_def
  by (auto simp: decode_read_bits_def decode_read_registers_def decode_write_coil_def
      decode_write_register_def decode_diagnostics_def decode_mask_write_def decode_mei_def
      known_functions_def result_simps split: if_splits simp del: wf_request.simps(5,6))

theorem decode_request_wf:
  assumes "decode_request pdu = Ok d"
  shows "wf_request (dec_request d) \<and> request_function (dec_request d) = dec_function d \<and>
    dec_function d = hd pdu"
  using assms decode_fields_wf
  by (fastforce simp: decode_request_def result_simps split: list.splits)

lemma encode_fields_extends: "encode_fields r p = Ok q \<Longrightarrow> \<exists>t. q = p @ t"
  by (cases r)
    (auto simp: result_simps push_u16_def encode_diagnostics_def encode_write_coils_def
      encode_write_registers_def encode_read_file_def push_file_reads_Ok encode_write_file_def
      encode_read_write_def fold_push_u16 [unfolded push_u16_def] fold_push_file_write encode_mei_eq
      Let_def split: if_splits)

theorem encode_request_bounds:
  assumes "encode_request r = Ok pdu"
  shows "1 \<le> length pdu \<and> length pdu \<le> MAX_PDU_LEN \<and> hd pdu = request_function r"
  using assms encode_fields_extends [of r "[request_function r]" pdu]
  by (auto simp: encode_request_Ok MAX_PDU_LEN_def)

section \<open>Properties\<close>

text \<open>C3. Encoding a request and decoding the PDU on the other side
  gives the same request under the same function code, for every request the encoder
  accepts. A \<open>Raw\<close> request with the code of an implemented function is the one exception:
  it is decoded as that function.\<close>

theorem request_encode_decode:
  assumes "encode_request r = Ok pdu" "canonical_request r"
  shows "decode_request pdu = Ok \<lparr>dec_function = request_function r, dec_request = r\<rparr>"
  using assms by (rule request_round_trip)

theorem request_encode_decode_witness:
  "decode_request [0x17, 0, 3, 0, 6, 0, 14, 0, 2, 4, 0, 255, 18, 52] =
     Ok \<lparr>dec_function = 0x17, dec_request = ReadWriteMultipleRegisters 3 6 14 [0x00FF, 0x1234]\<rparr>"
proof -
  have "encode_request (ReadWriteMultipleRegisters 3 6 14 [0x00FF, 0x1234]) =
      Ok [0x17, 0, 3, 0, 6, 0, 14, 0, 2, 4, 0, 255, 18, 52]"
    by code_simp
  from request_encode_decode [OF this] show ?thesis by simp
qed

text \<open>
  C33. Decoding is total: every byte string gives a request or an error message, and no index leaves its range. An accepted request has the
  function code of the first byte and keeps these limits: 1 to 2000 bits or 1 to 125 registers read, 1 to 1968 coils or 1 to 123 registers written, 1 to 125 read and 1 to
  121 written at once, file records of 1 to 125 registers read or of at least one value written, at most 255 bytes of them together, and no raw request
  for a function code that has a decoder. The number of file records has no lower limit: the request for none is accepted, which the encoder refuses to
  send.
\<close>

theorem decode_request_sound:
  "((\<exists>d. decode_request pdu = Ok d \<and> wf_request (dec_request d) \<and>
      request_function (dec_request d) = dec_function d \<and> dec_function d = hd pdu) \<or>
    (\<exists>m. decode_request pdu = Err m)) \<and>
   (\<exists>d. decode_request [0x14, 0] = Ok d \<and> dec_request d = ReadFileRecord [] \<and> (\<exists>m. encode_request (ReadFileRecord []) = Err m)) \<and>
   (\<exists>d. decode_request [0x15, 0] = Ok d \<and> dec_request d = WriteFileRecord [] \<and> (\<exists>m. encode_request (WriteFileRecord []) = Err m))"
proof -
  have "\<exists>d. decode_request [0x14, 0] = Ok d \<and> dec_request d = ReadFileRecord [] \<and> (\<exists>m. encode_request (ReadFileRecord []) = Err m)"
    "\<exists>d. decode_request [0x15, 0] = Ok d \<and> dec_request d = WriteFileRecord [] \<and> (\<exists>m. encode_request (WriteFileRecord []) = Err m)"
  proof -
    have "case decode_request [0x14, 0] of Ok d \<Rightarrow> dec_request d = ReadFileRecord [] | _ \<Rightarrow> False"
      "case decode_request [0x15, 0] of Ok d \<Rightarrow> dec_request d = WriteFileRecord [] | _ \<Rightarrow> False"
      "case encode_request (ReadFileRecord []) of Err m \<Rightarrow> True | _ \<Rightarrow> False"
      "case encode_request (WriteFileRecord []) of Err m \<Rightarrow> True | _ \<Rightarrow> False"
      by code_simp+
    then show "\<exists>d. decode_request [0x14, 0] = Ok d \<and> dec_request d = ReadFileRecord [] \<and> (\<exists>m. encode_request (ReadFileRecord []) = Err m)"
      "\<exists>d. decode_request [0x15, 0] = Ok d \<and> dec_request d = WriteFileRecord [] \<and> (\<exists>m. encode_request (WriteFileRecord []) = Err m)"
      by (auto split: result.splits)
  qed
  then show ?thesis
    using decode_request_no_panic [of pdu] decode_request_wf [of pdu] by (cases "decode_request pdu") auto
qed

text \<open>An encoded request is between one byte and the 253 bytes
  of \<open>MAX_PDU_LEN\<close>, starts with its function code, and a request is never encoded with a
  quantity outside its limits.\<close>

theorem encoded_request_fits:
  assumes "encode_request r = Ok pdu"
  shows "1 \<le> length pdu \<and> length pdu \<le> MAX_PDU_LEN \<and> hd pdu = request_function r \<and>
    (canonical_request r \<longrightarrow> wf_request r)"
  using encode_request_bounds [OF assms] request_round_trip [OF assms] decode_request_wf [of pdu]
  by auto

theorem encoded_request_fits_witness:
  "length [0x01, 0, 7, 7, 208 :: byte] \<le> MAX_PDU_LEN \<and>
   request_function (ReadBits Coils 7 2000) = 0x01 \<and> wf_request (ReadBits Coils 7 2000)"
proof -
  have "encode_request (ReadBits Coils 7 2000) = Ok [0x01, 0, 7, 7, 208]" by code_simp
  from encoded_request_fits [OF this] show ?thesis by simp
qed

end
