(* ===== verification/Modbus_Pdu_Response.thy ===== *)
theory Modbus_Pdu_Response
  imports Modbus_Pdu_Request
begin

unbundle bit_operations_syntax

text \<open>
  Modbus protocol data units, responses: the model of \<open>validate_response\<close> of
  \<open>plugins/modbus/codec/pdu.rs\<close> and of its per-function validators. The client calls it
  on every PDU it receives; the theorems say which responses it lets through and that no
  response, however malformed, makes it panic.
\<close>

definition validate_write_multiple_echo :: "byte list \<Rightarrow> u16 \<Rightarrow> u16 \<Rightarrow> unit pdu_result" where
  "validate_write_multiple_echo data address quantity =
     rbind (require_len data 4) (\<lambda>_.
     rbind (u16_at data 0) (\<lambda>a.
       if a \<noteq> address then Err (Msg ''write-multiple address echo mismatch'')
       else rbind (u16_at data 2) (\<lambda>q.
         if q \<noteq> quantity then Err (Msg ''write-multiple quantity echo mismatch'') else Ok ())))"

definition validate_byte_count :: "byte list \<Rightarrow> nat \<Rightarrow> unit pdu_result" where
  "validate_byte_count data expected =
     (case data of [] \<Rightarrow> Err (Msg ''missing byte count'')
      | b # _ \<Rightarrow> let count = unat b in
          if count \<noteq> expected \<or> length data \<noteq> count + 1
          then Err (Fmt ''byte count mismatch: expected {expected}, got {count}'' [] [expected, count])
          else Ok ())"

definition validate_count_prefixed :: "byte list \<Rightarrow> unit pdu_result" where
  "validate_count_prefixed data =
     (case data of [] \<Rightarrow> Err (Msg ''response missing byte count'')
      | b # rest \<Rightarrow>
          if unat b \<noteq> length rest
          then Err (Msg ''response byte count does not match payload length'')
          else Ok ())"

fun file_read_cursor :: "byte list \<Rightarrow> file_record_read list \<Rightarrow> nat \<Rightarrow> nat pdu_result" where
  "file_read_cursor data [] cursor = Ok cursor"
| "file_read_cursor data (r # rs) cursor =
     (if cursor \<ge> length data then Err (Msg ''read-file response missing sub-response'')
      else rbind (idx data cursor) (\<lambda>b.
        let sub_len = unat b; expected = 1 + unat (frr_record_length r) * 2 in
        if sub_len \<noteq> expected \<or> cursor + 1 + sub_len > length data
        then Err (Msg ''read-file sub-response length mismatch'')
        else rbind (idx data (cursor + 1)) (\<lambda>ref.
          if ref \<noteq> 0x06 then Err (Msg ''read-file reference type must be 0x06'')
          else file_read_cursor data rs (cursor + 1 + sub_len))))"

definition validate_file_read_response ::
    "byte list \<Rightarrow> file_record_read list \<Rightarrow> unit pdu_result" where
  "validate_file_read_response data records =
     rbind (validate_count_prefixed data) (\<lambda>_.
     rbind (file_read_cursor data records 1) (\<lambda>cursor.
       if cursor \<noteq> length data
       then Err (Msg ''read-file response contains unexpected sub-response data'')
       else Ok ()))"

definition validate_comm_status :: "u16 \<Rightarrow> unit pdu_result" where
  "validate_comm_status status =
     (if status = 0x0000 \<or> status = 0xFFFF then Ok ()
      else Err (Fmt ''invalid communication status 0x{status:04X}'' [] [unat status]))"

definition validate_comm_event_counter :: "byte list \<Rightarrow> unit pdu_result" where
  "validate_comm_event_counter data =
     rbind (require_len data 4) (\<lambda>_. rbind (u16_at data 0) validate_comm_status)"

definition validate_comm_event_log :: "byte list \<Rightarrow> unit pdu_result" where
  "validate_comm_event_log data =
     rbind (validate_count_prefixed data) (\<lambda>_.
     rbind (idx data 0) (\<lambda>b0.
       if b0 < 6 then Err (Msg ''communication event log byte count must be at least 6'')
       else rbind (rbind (u16_at data 1) validate_comm_status) (\<lambda>_.
            rbind (u16_at data 3) (\<lambda>event_count.
            rbind (u16_at data 5) (\<lambda>message_count. Ok ())))))"

definition validate_report_server_id :: "byte list \<Rightarrow> unit pdu_result" where
  "validate_report_server_id data =
     rbind (validate_count_prefixed data) (\<lambda>_.
     rbind (idx data 0) (\<lambda>b0.
       if b0 < 2
       then Err (Msg ''report-server-id response must contain server id and run status'')
       else rbind (idx data 2) (\<lambda>run.
         if \<not> (run = 0x00 \<or> run = 0xFF)
         then Err (Msg ''report-server-id run status must be 0x00 or 0xFF'')
         else Ok ())))"

definition validate_fifo_response :: "byte list \<Rightarrow> unit pdu_result" where
  "validate_fifo_response data =
     (if length data < 4 then Err (Msg ''FIFO response too short'')
      else rbind (u16_at data 0) (\<lambda>bc. let byte_count = unat bc in
        if byte_count < 2 \<or> length data \<noteq> byte_count + 2
        then Err (Msg ''FIFO byte count mismatch'')
        else rbind (u16_at data 2) (\<lambda>fc. let fifo_count = unat fc in
          if fifo_count > 31 \<or> byte_count \<noteq> 2 + fifo_count * 2
          then Err (Msg ''FIFO count mismatch'')
          else Ok ())))"

text \<open>The object loop of \<open>validate_mei_response\<close>: \<open>n\<close> objects are still to be read.\<close>

fun mei_objects ::
    "byte list \<Rightarrow> nat \<Rightarrow> nat \<Rightarrow> byte option \<Rightarrow> (nat \<times> byte option) pdu_result" where
  "mei_objects data 0 cursor previous_id = Ok (cursor, previous_id)"
| "mei_objects data (Suc n) cursor previous_id =
     (if cursor + 2 > length data
      then Err (Msg ''truncated Read Device Identification object header'')
      else rbind (idx data cursor) (\<lambda>object_id.
           rbind (idx data (cursor + 1)) (\<lambda>l.
             let len = unat l; cursor = cursor + 2 in
             if cursor + len > length data
             then Err (Msg ''truncated Read Device Identification object value'')
             else if (case previous_id of None \<Rightarrow> False | Some previous \<Rightarrow> object_id \<le> previous)
             then Err (Msg ''Read Device Identification object ids must be strictly increasing'')
             else mei_objects data n (cursor + len) (Some object_id))))"

definition mei_header_ok ::
    "byte \<Rightarrow> byte \<Rightarrow> byte \<Rightarrow> byte \<Rightarrow> nat \<Rightarrow> unit pdu_result" where
  "mei_header_ok code conformity more_follows next_object object_count =
     (if code = 0x04 then
        (if conformity < 0x80
         then Err (Msg ''individual Read Device Identification requires individual-access conformity'')
         else if more_follows \<noteq> 0x00 \<or> next_object \<noteq> 0x00 \<or> object_count \<noteq> 1
         then Err (Msg ''individual Read Device Identification must return exactly one final object'')
         else Ok ())
      else if more_follows = 0x00 \<and> next_object \<noteq> 0x00
      then Err (Msg ''final Read Device Identification response must use next object id 0'')
      else Ok ())"

definition mei_tail_ok ::
    "byte list \<Rightarrow> byte list \<Rightarrow> byte \<Rightarrow> byte \<Rightarrow> nat \<times> byte option \<Rightarrow> unit pdu_result" where
  "mei_tail_ok data request_data more_follows next_object c =
     (let (cursor, previous_id) = c in
      if cursor \<noteq> length data
      then Err (Msg ''unexpected trailing Read Device Identification data'')
      else rbind (idx request_data 0) (\<lambda>code.
           rbind (if code = 0x04
                  then rbind (idx request_data 1) (\<lambda>obj. Ok (previous_id \<noteq> Some obj))
                  else Ok False) (\<lambda>different.
             if different
             then Err (Msg ''specific Read Device Identification response returned a different object'')
             else if more_follows = 0xFF \<and>
                (case previous_id of None \<Rightarrow> False | Some last_id \<Rightarrow> next_object \<le> last_id)
             then Err (Msg ''next Read Device Identification object id must advance'')
             else Ok ())))"

definition validate_mei_response :: "byte list \<Rightarrow> byte \<Rightarrow> byte list \<Rightarrow> unit pdu_result" where
  "validate_mei_response data mei_type request_data =
     (if get_opt data 0 \<noteq> Some mei_type then Err (Msg ''MEI type mismatch'')
      else if mei_type \<noteq> 0x0E then Ok ()
      else if length request_data \<noteq> 2 \<or> length data < 7
      then Err (Msg ''Read Device Identification response is too short'')
      else rbind (idx data 1) (\<lambda>read_code.
           rbind (idx request_data 0) (\<lambda>code.
             if read_code \<noteq> code
             then Err (Msg ''Read Device Identification read-code mismatch'')
             else rbind (idx data 2) (\<lambda>conformity.
               if \<not> (0x01 \<le> conformity \<and> conformity \<le> 0x03 \<or>
                      0x81 \<le> conformity \<and> conformity \<le> 0x83)
               then Err (Msg ''invalid Read Device Identification conformity level'')
               else rbind (idx data 3) (\<lambda>more_follows.
                 if \<not> (more_follows = 0x00 \<or> more_follows = 0xFF)
                 then Err (Msg ''invalid Read Device Identification more-follows flag'')
                 else rbind (idx data 4) (\<lambda>next_object.
                      rbind (idx data 5) (\<lambda>oc.
                      rbind (mei_header_ok code conformity more_follows next_object (unat oc)) (\<lambda>_.
                      rbind (mei_objects data (unat oc) 6 None)
                        (mei_tail_ok data request_data more_follows next_object)))))))))"

definition validate_diagnostics :: "byte list \<Rightarrow> u16 \<Rightarrow> byte list \<Rightarrow> unit pdu_result" where
  "validate_diagnostics data sub_function request_data =
     rbind (if length data < 2 then Ok True
            else rbind (u16_at data 0) (\<lambda>s. Ok (s \<noteq> sub_function))) (\<lambda>mismatch.
       if mismatch then Err (Msg ''diagnostics sub-function mismatch'')
       else if (sub_function = 0x0000 \<or> sub_function = 0x000A) \<and>
          (length data \<noteq> 2 + length request_data \<or> drop 2 data \<noteq> request_data)
       then Err (Msg ''diagnostics response does not echo the implemented request'')
       else Ok ())"

definition validate_mask_write :: "byte list \<Rightarrow> u16 \<Rightarrow> u16 \<Rightarrow> u16 \<Rightarrow> unit pdu_result" where
  "validate_mask_write data address and_mask or_mask =
     rbind (require_len data 6) (\<lambda>_.
     rbind (u16_at data 0) (\<lambda>a. rbind (u16_at data 2) (\<lambda>am. rbind (u16_at data 4) (\<lambda>om.
       if a \<noteq> address \<or> am \<noteq> and_mask \<or> om \<noteq> or_mask
       then Err (Msg ''mask-write echo mismatch'') else Ok ()))))"

definition validate_pair_echo :: "byte list \<Rightarrow> u16 \<Rightarrow> u16 \<Rightarrow> string \<Rightarrow> unit pdu_result" where
  "validate_pair_echo data address expected msg =
     rbind (require_len data 4) (\<lambda>_.
     rbind (u16_at data 0) (\<lambda>a. rbind (u16_at data 2) (\<lambda>v.
       if a \<noteq> address \<or> v \<noteq> expected then Err (Msg msg) else Ok ())))"

definition validate_write_file :: "byte list \<Rightarrow> modbus_request \<Rightarrow> unit pdu_result" where
  "validate_write_file data request =
     rbind (encode_request request) (\<lambda>pdu.
     rbind (slice_from pdu 1) (\<lambda>expected.
       if data \<noteq> expected then Err (Msg ''write-file response does not echo request'')
       else Ok ()))"

fun validate_data :: "modbus_request \<Rightarrow> byte list \<Rightarrow> unit pdu_result" where
  "validate_data (ReadBits _ _ quantity) data =
     validate_byte_count data (div_ceil (unat quantity) 8)"
| "validate_data (ReadRegisters _ _ quantity) data = validate_byte_count data (unat quantity * 2)"
| "validate_data (WriteSingleCoil address value) data =
     validate_pair_echo data address (coil_word value) ''write-single-coil echo mismatch''"
| "validate_data (WriteSingleRegister address value) data =
     validate_pair_echo data address value ''write-single-register echo mismatch''"
| "validate_data (WriteMultipleCoils address values) data =
     validate_write_multiple_echo data address (as_u16 (length values))"
| "validate_data (WriteMultipleRegisters address values) data =
     validate_write_multiple_echo data address (as_u16 (length values))"
| "validate_data (MaskWriteRegister address and_mask or_mask) data =
     validate_mask_write data address and_mask or_mask"
| "validate_data (ReadWriteMultipleRegisters _ read_quantity _ _) data =
     validate_byte_count data (unat read_quantity * 2)"
| "validate_data (ReadFileRecord records) data = validate_file_read_response data records"
| "validate_data (WriteFileRecord records) data = validate_write_file data (WriteFileRecord records)"
| "validate_data ReadExceptionStatus data = require_len data 1"
| "validate_data (Diagnostics sub_function request_data) data =
     validate_diagnostics data sub_function request_data"
| "validate_data GetCommEventCounter data = validate_comm_event_counter data"
| "validate_data GetCommEventLog data = validate_comm_event_log data"
| "validate_data ReportServerId data = validate_report_server_id data"
| "validate_data (ReadFifoQueue _) data = validate_fifo_response data"
| "validate_data (Mei mei_type request_data) data = validate_mei_response data mei_type request_data"
| "validate_data (Raw _ _) data = Ok ()"

definition validate_response :: "modbus_request \<Rightarrow> byte list \<Rightarrow> modbus_response pdu_result" where
  "validate_response request pdu =
     (case pdu of [] \<Rightarrow> Err (Msg ''empty response PDU'')
      | p0 # data \<Rightarrow>
          let fc = request_function request in
          if p0 = fc OR 0x80 then
            (if length pdu \<noteq> 2 then Err (Msg ''exception response must be exactly 2 bytes'')
             else rbind (idx pdu 1) (\<lambda>code.
               Ok \<lparr>resp_function = fc, resp_data = [], resp_exception = Some code\<rparr>))
          else if p0 \<noteq> fc
          then Err (Fmt ''function mismatch: expected 0x{function:02X}, got 0x{:02X}'' []
                 [unat fc, unat p0])
          else rbind (validate_data request data) (\<lambda>_.
            Ok \<lparr>resp_function = fc, resp_data = data, resp_exception = None\<rparr>))"

section \<open>The validator never panics\<close>

lemma validate_count_prefixed_eq [result_simps]:
  "validate_count_prefixed data = Ok u \<longleftrightarrow> (\<exists>b rest. data = b # rest \<and> unat b = length rest)"
  "validate_count_prefixed data \<noteq> Panic"
  by (auto simp: validate_count_prefixed_def split: list.splits)

lemma validate_byte_count_eq [result_simps]:
  "validate_byte_count data n = Ok u \<longleftrightarrow>
     (\<exists>b rest. data = b # rest \<and> unat b = n \<and> length rest = n)"
  "validate_byte_count data n \<noteq> Panic"
  by (auto simp: validate_byte_count_def Let_def split: list.splits)

lemma file_read_cursor_no_panic: "file_read_cursor data rs cursor \<noteq> Panic"
  by (induction data rs cursor rule: file_read_cursor.induct)
    (auto simp: result_simps Let_def split: if_splits)

lemma mei_objects_no_panic: "mei_objects data n cursor prev \<noteq> Panic"
  by (induction data n cursor prev rule: mei_objects.induct)
    (auto simp: result_simps Let_def split: if_splits)

lemma validate_mei_response_no_panic: "validate_mei_response data t rd \<noteq> Panic"
  by (auto simp: validate_mei_response_def mei_header_ok_def mei_tail_ok_def result_simps
      mei_objects_no_panic split: if_splits prod.splits)

lemma validate_data_no_panic: "validate_data r data \<noteq> Panic"
  by (cases r)
    (auto simp: result_simps validate_pair_echo_def validate_write_multiple_echo_def
      validate_mask_write_def validate_file_read_response_def file_read_cursor_no_panic
      validate_write_file_def encode_request_no_panic validate_diagnostics_def
      validate_comm_event_counter_def validate_comm_status_def validate_comm_event_log_def
      validate_report_server_id_def validate_fifo_response_def validate_mei_response_no_panic
      word_less_nat_alt Let_def dest: encode_request_bounds split: if_splits)

theorem validate_response_no_panic: "validate_response r pdu \<noteq> Panic"
  by (auto simp: validate_response_def result_simps Let_def validate_data_no_panic
      split: list.splits if_splits)

section \<open>What the validator lets through\<close>

lemma validate_response_Ok:
  "validate_response r pdu = Ok resp \<longleftrightarrow>
     (\<exists>c. pdu = [request_function r OR 0x80, c] \<and>
        resp = \<lparr>resp_function = request_function r, resp_data = [], resp_exception = Some c\<rparr>) \<or>
     (\<exists>data. pdu = request_function r # data \<and> request_function r \<noteq> request_function r OR 0x80 \<and>
        validate_data r data = Ok () \<and>
        resp = \<lparr>resp_function = request_function r, resp_data = data, resp_exception = None\<rparr>)"
proof (cases pdu)
  case (Cons p0 data)
  show ?thesis
  proof (cases "p0 = request_function r OR 0x80")
    case True
    with Cons show ?thesis
      by (cases data) (auto simp: validate_response_def result_simps Let_def)
  next
    case False
    with Cons show ?thesis by (auto simp: validate_response_def result_simps Let_def)
  qed
qed (simp add: validate_response_def)

lemma from_be_bytes_eq: "from_be_bytes a b = w \<longleftrightarrow> [a, b] = to_be_bytes w"
  by (metis to_be_from_be from_be_bytes_split to_be_bytes_def list.inject)

lemma list_len4: "length xs = 4 \<longleftrightarrow> (\<exists>a b c d. xs = [a, b, c, d])"
  by (auto simp: eval_nat_numeral length_Suc_conv)

lemma list_len6: "length xs = 6 \<longleftrightarrow> (\<exists>a b c d e f. xs = [a, b, c, d, e, f])"
  by (auto simp: eval_nat_numeral length_Suc_conv)

lemma validate_pair_echo_iff:
  "validate_pair_echo data a v msg = Ok () \<longleftrightarrow> data = to_be_bytes a @ to_be_bytes v"
  by (auto simp: validate_pair_echo_def result_simps list_len4 u16_at_eq from_be_bytes_eq
      to_be_bytes_def split: if_splits)

lemma validate_mask_write_iff:
  "validate_mask_write data a am om = Ok () \<longleftrightarrow> data = to_be_bytes a @ to_be_bytes am @ to_be_bytes om"
  by (auto simp: validate_mask_write_def result_simps list_len6 u16_at_eq from_be_bytes_eq
      to_be_bytes_def split: if_splits)

fun echoed :: "modbus_request \<Rightarrow> bool" where
  "echoed (WriteSingleCoil _ _) = True"
| "echoed (WriteSingleRegister _ _) = True"
| "echoed (MaskWriteRegister _ _ _) = True"
| "echoed (WriteFileRecord _) = True"
| "echoed _ = False"

lemma validate_data_echo:
  assumes "echoed r"
  shows "validate_data r data = Ok () \<longleftrightarrow> encode_request r = Ok (request_function r # data)"
  using assms
proof (cases r)
  case (WriteFileRecord rs)
  then show ?thesis
    by (auto simp: validate_write_file_def result_simps encode_request_Ok encode_write_file_Ok)
qed (auto simp: encode_request_Ok validate_pair_echo_iff validate_mask_write_iff push_u16_def)

text \<open>Validating any byte string as the response to any request
  ends without a panic. An accepted response carries an exception code exactly when the PDU is the
  two-byte exception reply of the request's function; otherwise its payload is the PDU after the
  function code.\<close>

theorem validate_response_outcomes:
  "(\<exists>msg. validate_response r pdu = Err msg) \<or>
   (\<exists>resp. validate_response r pdu = Ok resp \<and> resp_function resp = request_function r \<and>
      (\<forall>c. resp_exception resp = Some c \<longleftrightarrow> pdu = [request_function r OR 0x80, c]) \<and>
      (resp_exception resp = None \<longleftrightarrow> pdu = request_function r # resp_data resp \<and>
         request_function r \<noteq> request_function r OR 0x80))"
proof (cases "validate_response r pdu")
  case (Ok resp)
  then show ?thesis by (auto simp: validate_response_Ok)
qed (simp_all add: validate_response_no_panic)

text \<open>For a single write, a mask write and a file write the only normal
  response the client accepts is the request's own PDU.\<close>

theorem echo_response_exact:
  assumes "echoed r"
  shows "(\<exists>resp. validate_response r pdu = Ok resp \<and> resp_exception resp = None) \<longleftrightarrow>
    encode_request r = Ok pdu"
proof -
  have fx: "request_function r \<noteq> request_function r OR 0x80" using assms by (cases r) auto
  show ?thesis
  proof
    assume "\<exists>resp. validate_response r pdu = Ok resp \<and> resp_exception resp = None"
    then show "encode_request r = Ok pdu"
      by (auto simp: validate_response_Ok validate_data_echo [OF assms])
  next
    assume e: "encode_request r = Ok pdu"
    then have "pdu = request_function r # tl pdu"
      using encode_request_bounds [OF e] by (cases pdu) auto
    with e fx show "\<exists>resp. validate_response r pdu = Ok resp \<and> resp_exception resp = None"
      by (auto simp: validate_response_Ok validate_data_echo [OF assms])
  qed
qed

theorem echo_response_exact_witness:
  "(\<exists>resp. validate_response (WriteSingleCoil 0xAC True) [0x05, 0, 0xAC, 0xFF, 0] = Ok resp \<and>
      resp_exception resp = None) \<and>
   \<not> (\<exists>resp. validate_response (WriteSingleCoil 0xAC True) [0x05, 0, 0xAC, 0, 0] = Ok resp \<and>
      resp_exception resp = None)"
proof -
  have "echoed (WriteSingleCoil 0xAC True)" by simp
  note this [THEN echo_response_exact]
  moreover have "encode_request (WriteSingleCoil 0xAC True) = Ok [0x05, 0, 0xAC, 0xFF, 0]" by code_simp
  ultimately show ?thesis by simp
qed

text \<open>An accepted register read carries exactly the requested
  number of registers, so decoding the payload into words cannot fail.\<close>

theorem register_response_quantity:
  assumes "validate_response (ReadRegisters area a q) pdu = Ok resp" "resp_exception resp = None"
  shows "\<exists>ws. words (tl (resp_data resp)) = Ok ws \<and> length ws = unat q \<and>
    pdu = register_area_function area # as_u8 (2 * unat q) # be_bytes_of ws"
proof -
  from assms obtain b rest where p: "pdu = register_area_function area # b # rest"
    "unat b = unat q * 2" "length rest = unat q * 2" "resp_data resp = b # rest"
    by (auto simp: validate_response_Ok result_simps)
  let ?ws = "map chunk_to_u16 (as_chunks 2 rest)"
  have "words rest = Ok ?ws" "length ?ws = unat q" "be_bytes_of ?ws = rest"
    using p(3) by (simp_all add: result_simps length_as_chunks be_bytes_of_chunks)
  moreover have "b = as_u8 (2 * unat q)" using p(2) by (metis as_u8_unat mult.commute)
  ultimately show ?thesis using p by auto
qed

theorem register_response_quantity_witness:
  "\<exists>ws. words [0x02, 0x2B, 0, 0] = Ok ws \<and> length ws = 2"
proof -
  have "validate_response (ReadRegisters HoldingRegisters 0x6B 2) [0x03, 4, 0x02, 0x2B, 0, 0] =
      Ok \<lparr>resp_function = 0x03, resp_data = [4, 0x02, 0x2B, 0, 0], resp_exception = None\<rparr>"
    by code_simp
  from register_response_quantity [OF this] show ?thesis by auto
qed

end
