(* ===== verification/Modbus_Config.thy ===== *)
theory Modbus_Config
  imports Modbus_Pdu_Response
begin

unbundle bit_operations_syntax

text \<open>
  Configuration, \<open>plugins/modbus/config.rs\<close>, and transport capability,
  \<open>plugins/modbus/capability.rs\<close>: the permissive boundary record, its check \<open>validated\<close>
  into the tagged runtime configuration, the fault-injection settings, the RTU timing derived
  from the serial settings, and which functions and unit ids a transport admits. A \<open>String\<close>
  is a list of characters; \<open>trim\<close> removes the white space among the characters of one byte.
  Durations are microseconds as naturals.
\<close>

section \<open>Data\<close>

datatype modbus_mode = ModeRtu | ModeAscii | ModeTcp

datatype modbus_role = RoleClient | RoleServer

datatype serial_parity = ParityNone | ParityEven | ParityOdd

datatype serial_stop_bits = StopOne | StopTwo

datatype serial_flow_control = FlowNone | FlowRtsCts | FlowXonXoff

record serial_transport_config =
  baud_rate :: u32
  data_bits :: byte
  parity :: serial_parity
  stop_bits :: serial_stop_bits
  flow_control :: serial_flow_control

record tcp_connect_config =
  connect_timeout_ms :: u64
  read_timeout_ms :: u64
  nodelay :: bool

record server_fault_config =
  no_response :: bool
  delay_ms :: u64
  fault_exception_code :: "byte option"

record modbus_config =
  cfg_mode :: modbus_mode
  cfg_role :: modbus_role
  cfg_serial_port :: string
  cfg_serial :: serial_transport_config
  cfg_host :: string
  cfg_port :: u16
  cfg_tcp :: tcp_connect_config
  cfg_unit_id :: byte
  cfg_response_timeout_ms :: u64
  cfg_read_retries :: byte
  cfg_retry_writes :: bool
  cfg_server_max_clients :: nat
  cfg_server_fault :: server_fault_config

datatype serial_mode = SerialRtu | SerialAscii

datatype modbus_endpoint_config =
    SerialEndpoint serial_mode string serial_transport_config
  | TcpEndpoint string u16 tcp_connect_config

record client_runtime_config =
  response_timeout_ms :: u64
  read_retries :: byte
  retry_writes :: bool

record server_runtime_config =
  max_clients :: nat
  fault :: server_fault_config

datatype modbus_runtime_role = ClientRole client_runtime_config | ServerRole server_runtime_config

record validated_modbus_config =
  endpoint :: modbus_endpoint_config
  runtime_role :: modbus_runtime_role
  config_unit_id :: byte

section \<open>Reading the runtime configuration\<close>

definition config_mode :: "validated_modbus_config \<Rightarrow> modbus_mode" where
  "config_mode c =
     (case endpoint c of SerialEndpoint SerialRtu _ _ \<Rightarrow> ModeRtu
      | SerialEndpoint SerialAscii _ _ \<Rightarrow> ModeAscii | TcpEndpoint _ _ _ \<Rightarrow> ModeTcp)"

definition config_role :: "validated_modbus_config \<Rightarrow> modbus_role" where
  "config_role c = (case runtime_role c of ClientRole _ \<Rightarrow> RoleClient | ServerRole _ \<Rightarrow> RoleServer)"

definition config_client :: "validated_modbus_config \<Rightarrow> client_runtime_config option" where
  "config_client c = (case runtime_role c of ClientRole cc \<Rightarrow> Some cc | ServerRole _ \<Rightarrow> None)"

definition config_server :: "validated_modbus_config \<Rightarrow> server_runtime_config option" where
  "config_server c = (case runtime_role c of ServerRole sc \<Rightarrow> Some sc | ClientRole _ \<Rightarrow> None)"

text \<open>
  \<open>serial_gap\<close> computes \<open>ceil(chars * bits * 1_000_000 / baud)\<close> in \<open>f64\<close>. The argument
  here is twice the number of characters (3 and 7 for 1.5 and 3.5), so that the dividend is a
  natural below \<open>2 ^ 53\<close>: an exact quotient is exact in \<open>f64\<close>, and an inexact one has a
  fractional part of at least \<open>1 / (2 * baud)\<close>, far above the rounding error, so the rounded
  quotient has the same ceiling.
\<close>

definition bits_per_char :: "serial_transport_config \<Rightarrow> nat" where
  "bits_per_char config =
     (let parity_bits = (if parity config = ParityNone then 0 else 1);
          stop = (if stop_bits config = StopTwo then 2 else 1)
      in 1 + unat (data_bits config) + parity_bits + stop)"

definition serial_gap :: "serial_transport_config \<Rightarrow> nat \<Rightarrow> nat \<Rightarrow> nat" where
  "serial_gap config half_chars high_speed_micros =
     (if unat (baud_rate config) > 19200 then high_speed_micros
      else let baud = max (unat (baud_rate config)) 1;
               micros = div_ceil (half_chars * bits_per_char config * 1000000) (2 * baud)
           in max micros 1)"

definition rtu_inter_char_gap :: "validated_modbus_config \<Rightarrow> nat" where
  "rtu_inter_char_gap c =
     (case endpoint c of SerialEndpoint _ _ transport \<Rightarrow> serial_gap transport 3 750
      | TcpEndpoint _ _ _ \<Rightarrow> 0)"

definition rtu_frame_gap :: "validated_modbus_config \<Rightarrow> nat" where
  "rtu_frame_gap c =
     (case endpoint c of SerialEndpoint _ _ transport \<Rightarrow> serial_gap transport 7 1750
      | TcpEndpoint _ _ _ \<Rightarrow> 0)"

section \<open>Validation\<close>

definition is_whitespace :: "char \<Rightarrow> bool" where
  "is_whitespace c \<longleftrightarrow>
     (let n = (of_char c :: nat) in (9 \<le> n \<and> n \<le> 13) \<or> n = 32 \<or> n = 0x85 \<or> n = 0xA0)"

definition trim :: "string \<Rightarrow> string" where
  "trim s = rev (dropWhile is_whitespace (rev (dropWhile is_whitespace s)))"

definition standard_exception :: "byte \<Rightarrow> bool" where
  "standard_exception code \<longleftrightarrow> 1 \<le> code \<and> code \<le> 6 \<or> code = 8 \<or> code = 10 \<or> code = 11"

definition validate_fault :: "server_fault_config \<Rightarrow> unit pdu_result" where
  "validate_fault f =
     (if delay_ms f > 60000 then Err (Msg ''fault delay_ms must be <= 60000'')
      else case fault_exception_code f of None \<Rightarrow> Ok ()
        | Some code \<Rightarrow>
            if \<not> standard_exception code
            then Err (Msg ''fault exception_code must be a standard Modbus exception code'')
            else Ok ())"

definition validated_endpoint :: "modbus_config \<Rightarrow> modbus_endpoint_config pdu_result" where
  "validated_endpoint c =
     (if cfg_mode c = ModeRtu \<or> cfg_mode c = ModeAscii then
        (if trim (cfg_serial_port c) = [] then Err (Msg ''serial_port is required'')
         else if cfg_unit_id c > 247 then Err (Msg ''serial unit_id must be 0..=247'')
         else if cfg_role c = RoleServer \<and> cfg_unit_id c = 0
         then Err (Msg ''server unit_id cannot be broadcast address 0'')
         else Ok (SerialEndpoint (if cfg_mode c = ModeRtu then SerialRtu else SerialAscii)
                (trim (cfg_serial_port c)) (cfg_serial c)))
      else if trim (cfg_host c) = [] then Err (Msg ''host is required'')
      else if cfg_port c = 0 then Err (Msg ''port must be non-zero'')
      else Ok (TcpEndpoint (trim (cfg_host c)) (cfg_port c) (cfg_tcp c)))"

definition validated_role :: "modbus_config \<Rightarrow> modbus_runtime_role pdu_result" where
  "validated_role c =
     (case cfg_role c of
        RoleClient \<Rightarrow>
          if cfg_response_timeout_ms c = 0 \<or> cfg_response_timeout_ms c > 120000
          then Err (Msg ''response_timeout_ms must be 1..=120000'')
          else if cfg_read_retries c > 10 then Err (Msg ''read_retries must be <= 10'')
          else Ok (ClientRole \<lparr>response_timeout_ms = cfg_response_timeout_ms c,
                 read_retries = cfg_read_retries c, retry_writes = cfg_retry_writes c\<rparr>)
      | RoleServer \<Rightarrow>
          if cfg_server_max_clients c > 256 then Err (Msg ''server_max_clients must be <= 256'')
          else rbind (validate_fault (cfg_server_fault c)) (\<lambda>_.
            Ok (ServerRole \<lparr>max_clients = cfg_server_max_clients c, fault = cfg_server_fault c\<rparr>)))"

definition validated :: "modbus_config \<Rightarrow> validated_modbus_config pdu_result" where
  "validated c =
     rbind (validated_endpoint c) (\<lambda>e. rbind (validated_role c) (\<lambda>r.
       Ok \<lparr>endpoint = e, runtime_role = r, config_unit_id = cfg_unit_id c\<rparr>))"

definition default_serial :: serial_transport_config where
  "default_serial = \<lparr>baud_rate = 115200, data_bits = 8, parity = ParityNone, stop_bits = StopOne,
     flow_control = FlowNone\<rparr>"

definition default_tcp :: tcp_connect_config where
  "default_tcp = \<lparr>connect_timeout_ms = 5000, read_timeout_ms = 20, nodelay = True\<rparr>"

definition default_fault :: server_fault_config where
  "default_fault = \<lparr>no_response = False, delay_ms = 0, fault_exception_code = None\<rparr>"

definition default_config :: modbus_config where
  "default_config =
     \<lparr>cfg_mode = ModeRtu, cfg_role = RoleClient, cfg_serial_port = [], cfg_serial = default_serial,
      cfg_host = ''127.0.0.1'', cfg_port = 502, cfg_tcp = default_tcp, cfg_unit_id = 1,
      cfg_response_timeout_ms = 1000, cfg_read_retries = 1, cfg_retry_writes = False,
      cfg_server_max_clients = 16, cfg_server_fault = default_fault\<rparr>"

section \<open>Transport capability\<close>

datatype scope_of_function = AnyTransport | SerialLine

fun transport_scope :: "modbus_request \<Rightarrow> scope_of_function" where
  "transport_scope ReadExceptionStatus = SerialLine"
| "transport_scope (Diagnostics _ _) = SerialLine"
| "transport_scope GetCommEventCounter = SerialLine"
| "transport_scope GetCommEventLog = SerialLine"
| "transport_scope ReportServerId = SerialLine"
| "transport_scope _ = AnyTransport"

definition request_supported_on_mode :: "modbus_mode \<Rightarrow> modbus_request \<Rightarrow> bool" where
  "request_supported_on_mode mode request \<longleftrightarrow>
     mode \<noteq> ModeTcp \<or> transport_scope request \<noteq> SerialLine"

definition validate_client_unit_id :: "modbus_mode \<Rightarrow> byte \<Rightarrow> unit pdu_result" where
  "validate_client_unit_id mode unit_id =
     (if mode \<noteq> ModeTcp \<and> unit_id > 247 then Err (Msg ''serial unit_id must be 0..=247'') else Ok ())"

section \<open>Lemmas\<close>

text \<open>What \<open>validated\<close> guarantees to the runtime.\<close>

definition wf_config :: "validated_modbus_config \<Rightarrow> bool" where
  "wf_config c \<longleftrightarrow>
     (case endpoint c of
        SerialEndpoint _ port _ \<Rightarrow> port \<noteq> [] \<and> config_unit_id c \<le> 247 \<and>
          (config_role c = RoleServer \<longrightarrow> config_unit_id c \<noteq> 0)
      | TcpEndpoint host port _ \<Rightarrow> host \<noteq> [] \<and> port \<noteq> 0) \<and>
     (case runtime_role c of
        ClientRole cc \<Rightarrow> 1 \<le> response_timeout_ms cc \<and> response_timeout_ms cc \<le> 120000 \<and>
          read_retries cc \<le> 10
      | ServerRole sc \<Rightarrow> max_clients sc \<le> 256 \<and> delay_ms (fault sc) \<le> 60000 \<and>
          (\<forall>code. fault_exception_code (fault sc) = Some code \<longrightarrow> standard_exception code))"

lemma validate_fault_Ok:
  "validate_fault f = Ok u \<longleftrightarrow> delay_ms f \<le> 60000 \<and>
     (\<forall>code. fault_exception_code f = Some code \<longrightarrow> standard_exception code)"
  "validate_fault f \<noteq> Panic"
  by (auto simp: validate_fault_def not_less split: option.splits)

lemma validated_no_panic: "validated c \<noteq> Panic"
  by (auto simp: validated_def validated_endpoint_def validated_role_def result_simps
      validate_fault_Ok split: modbus_role.splits)

lemma word_pos_le: "(w :: 'a::len word) \<noteq> 0 \<longleftrightarrow> 1 \<le> w"
proof -
  have "w \<noteq> 0 \<longleftrightarrow> 0 < unat w" by (auto simp: word_unat_eq_iff)
  then show ?thesis by (simp add: word_le_nat_alt Suc_le_eq)
qed

lemma validated_endpoint_Ok:
  assumes "validated_endpoint c = Ok e"
  shows "config_mode \<lparr>endpoint = e, runtime_role = r, config_unit_id = u\<rparr> = cfg_mode c \<and>
    (case e of SerialEndpoint _ port _ \<Rightarrow> port \<noteq> [] \<and> cfg_unit_id c \<le> 247 \<and>
        (cfg_role c = RoleServer \<longrightarrow> cfg_unit_id c \<noteq> 0)
      | TcpEndpoint host port _ \<Rightarrow> host \<noteq> [] \<and> port \<noteq> 0)"
  using assms
  by (cases "cfg_mode c")
    (simp_all add: validated_endpoint_def config_mode_def not_less split: if_split_asm; force)+

lemma validated_role_Ok:
  assumes "validated_role c = Ok r"
  shows "(case r of ClientRole cc \<Rightarrow> cfg_role c = RoleClient \<and> 1 \<le> response_timeout_ms cc \<and>
        response_timeout_ms cc \<le> 120000 \<and> read_retries cc \<le> 10
      | ServerRole sc \<Rightarrow> cfg_role c = RoleServer \<and> max_clients sc \<le> 256 \<and> delay_ms (fault sc) \<le> 60000 \<and>
          (\<forall>code. fault_exception_code (fault sc) = Some code \<longrightarrow> standard_exception code))"
  using assms
  by (cases "cfg_role c")
    (auto simp: validated_role_def not_less word_pos_le rbind_eq_Ok validate_fault_Ok split: if_split_asm)

lemma validated_wf:
  assumes "validated c = Ok v"
  shows "wf_config v \<and> config_mode v = cfg_mode c \<and> config_role v = cfg_role c \<and>
    config_unit_id v = cfg_unit_id c"
proof -
  obtain e r where er: "validated_endpoint c = Ok e" "validated_role c = Ok r"
    and v: "v = \<lparr>endpoint = e, runtime_role = r, config_unit_id = cfg_unit_id c\<rparr>"
    using assms by (auto simp: validated_def rbind_eq_Ok)
  have role: "config_role v = cfg_role c"
    using validated_role_Ok [OF er(2)] by (simp add: v config_role_def split: modbus_runtime_role.splits)
  show ?thesis
    using validated_endpoint_Ok [OF er(1), of r "cfg_unit_id c"] validated_role_Ok [OF er(2)] role
    by (cases e; cases r) (simp_all add: v wf_config_def)
qed

lemma serial_gap_pos: "0 < h \<Longrightarrow> 0 < serial_gap s n h"
  by (simp add: serial_gap_def Let_def less_max_iff_disj)

lemma div_ceil_covers: "0 < k \<Longrightarrow> n \<le> div_ceil n k * k"
  using div_mult_mod_eq [of "n + (k - 1)" k] mod_less_divisor [of k "n + (k - 1)"]
  unfolding div_ceil_def by linarith

lemma div_ceil_step:
  assumes "0 < k" "a + k \<le> b"
  shows "div_ceil a k < div_ceil b k"
proof -
  have "(a + (k - 1)) div k + 1 = (a + (k - 1) + k) div k"
    using assms(1) div_add_self2 [of k "a + (k - 1)"] by linarith
  also have "\<dots> \<le> (b + (k - 1)) div k" using assms(2) by (intro div_le_mono) simp
  finally show ?thesis by (simp add: div_ceil_def)
qed

lemma serial_gap_less: "serial_gap s 3 750 < serial_gap s 7 1750"
proof (cases "unat (baud_rate s) > 19200")
  case False
  let ?b = "2 * max (unat (baud_rate s)) 1" and ?x = "bits_per_char s * 1000000"
  have b: "0 < ?b" "?b \<le> 38400" using False by auto
  have "2 \<le> bits_per_char s" by (simp add: bits_per_char_def Let_def)
  then have "div_ceil 0 ?b < div_ceil (3 * ?x) ?b" "div_ceil (3 * ?x) ?b < div_ceil (7 * ?x) ?b"
    using b by (auto intro!: div_ceil_step)
  then show ?thesis using False by (simp add: serial_gap_def Let_def mult.assoc)
qed (simp add: serial_gap_def)

section \<open>Properties\<close>

text \<open>A configuration that passes validation keeps its mode, its role
  and its unit id, and satisfies everything the runtime relies on: a port or host, a unit id the
  transport can address, no server on the broadcast address, and timeouts, retries, client and
  fault limits within their ranges. Validation never panics.\<close>

theorem validated_config_sound:
  "(\<exists>m. validated c = Err m) \<or>
   (\<exists>v. validated c = Ok v \<and> wf_config v \<and> config_mode v = cfg_mode c \<and>
      config_role v = cfg_role c \<and> config_unit_id v = cfg_unit_id c)"
  using validated_wf [of c] validated_no_panic [of c] by (cases "validated c") auto

text \<open>On a serial line the character gap t1.5 is positive and strictly below the
  frame gap t3.5, whatever the line settings, and at 19200 baud and below each lasts at least the
  1.5 and 3.5 character times it stands for.\<close>

theorem rtu_gaps:
  assumes "endpoint c = SerialEndpoint sm port s"
  shows "0 < rtu_inter_char_gap c \<and> rtu_inter_char_gap c < rtu_frame_gap c \<and>
    (0 < unat (baud_rate s) \<and> unat (baud_rate s) \<le> 19200 \<longrightarrow>
      3 * bits_per_char s * 1000000 \<le> 2 * unat (baud_rate s) * rtu_inter_char_gap c \<and>
      7 * bits_per_char s * 1000000 \<le> 2 * unat (baud_rate s) * rtu_frame_gap c)"
proof -
  have covers: "h * bits_per_char s * 1000000 \<le> 2 * unat (baud_rate s) * serial_gap s h v"
    if "0 < unat (baud_rate s)" "unat (baud_rate s) \<le> 19200" for h v
  proof -
    let ?n = "h * bits_per_char s * 1000000" and ?k = "2 * unat (baud_rate s)"
    have "?n \<le> div_ceil ?n ?k * ?k" using that by (intro div_ceil_covers) simp
    also have "max (unat (baud_rate s)) 1 = unat (baud_rate s)" using that by simp
    then have "div_ceil ?n ?k * ?k \<le> serial_gap s h v * ?k"
      using that by (intro mult_right_mono) (simp_all add: serial_gap_def Let_def)
    finally show ?thesis by (simp add: mult.commute)
  qed
  show ?thesis
    using assms covers [of 3 750] covers [of 7 1750] serial_gap_less [of s]
    by (simp add: rtu_inter_char_gap_def rtu_frame_gap_def serial_gap_pos)
qed

theorem rtu_gaps_witness:
  "0 < serial_gap (default_serial\<lparr>baud_rate := 9600\<rparr>) 3 750 \<and>
   serial_gap (default_serial\<lparr>baud_rate := 9600\<rparr>) 3 750 < serial_gap (default_serial\<lparr>baud_rate := 9600\<rparr>) 7 1750"
proof -
  let ?c = "\<lparr>endpoint = SerialEndpoint SerialRtu ''COM1'' (default_serial\<lparr>baud_rate := 9600\<rparr>),
    runtime_role = ServerRole \<lparr>max_clients = 1, fault = default_fault\<rparr>, config_unit_id = 1\<rparr>"
  have "endpoint ?c = SerialEndpoint SerialRtu ''COM1'' (default_serial\<lparr>baud_rate := 9600\<rparr>)" by simp
  from rtu_gaps [OF this] show ?thesis by (simp add: rtu_inter_char_gap_def rtu_frame_gap_def)
qed

end
