(* ===== verification/Modbus_Value.thy ===== *)
theory Modbus_Value
  imports Modbus_Pdu_Response
begin

unbundle bit_operations_syntax

text \<open>
  Interpretation of a validated response: \<open>decode_semantic_response\<close> of
  \<open>plugins/modbus/response.rs\<close>, and the typed values of \<open>plugins/modbus/value.rs\<close>.

  Floating point is the one part of the language not spelled out: the operations
  \<open>decode_register_bytes\<close> performs on \<open>f64\<close> are fields of a record that is an argument
  of the definitions, and a value of that type is opaque. The lossy decoding of \<open>UTF-8\<close> text
  is kept as the bytes it is applied to.
\<close>

section \<open>Semantic responses\<close>

datatype semantic_response =
    SemBits "bool list"
  | SemRegisters "u16 list"
  | SemAcknowledged
  | SemDiagnostics u16 "byte list"
  | SemRaw "byte list"

definition get_from :: "'a list \<Rightarrow> nat \<Rightarrow> 'a list option" where
  "get_from xs n = (if n \<le> length xs then Some (drop n xs) else None)"

definition semantic_bits :: "u16 \<Rightarrow> byte list \<Rightarrow> semantic_response option" where
  "semantic_bits quantity data =
     Option.bind (get_from data 1) (\<lambda>bytes.
       Some (SemBits (map (\<lambda>index.
         let b = (case get_opt bytes (index div 8) of Some b \<Rightarrow> b | None \<Rightarrow> 0)
         in drop_bit (index mod 8) b AND 1 \<noteq> 0) [0..<unat quantity])))"

definition semantic_registers :: "byte list \<Rightarrow> semantic_response option" where
  "semantic_registers data =
     Option.bind (get_from data 1) (\<lambda>bytes.
       if odd (length bytes) then None
       else Some (SemRegisters (map chunk_to_u16 (as_chunks 2 bytes))))"

definition decode_semantic_response ::
    "modbus_request \<Rightarrow> modbus_response \<Rightarrow> semantic_response option" where
  "decode_semantic_response request response =
     (if resp_exception response \<noteq> None then None
      else case request of
        ReadBits _ _ quantity \<Rightarrow> semantic_bits quantity (resp_data response)
      | ReadRegisters _ _ _ \<Rightarrow> semantic_registers (resp_data response)
      | ReadWriteMultipleRegisters _ _ _ _ \<Rightarrow> semantic_registers (resp_data response)
      | WriteSingleCoil _ _ \<Rightarrow> Some SemAcknowledged
      | WriteSingleRegister _ _ \<Rightarrow> Some SemAcknowledged
      | WriteMultipleCoils _ _ \<Rightarrow> Some SemAcknowledged
      | WriteMultipleRegisters _ _ \<Rightarrow> Some SemAcknowledged
      | WriteFileRecord _ \<Rightarrow> Some SemAcknowledged
      | MaskWriteRegister _ _ _ \<Rightarrow> Some SemAcknowledged
      | Diagnostics sub_function _ \<Rightarrow>
          Some (SemDiagnostics sub_function
            (case get_from (resp_data response) 2 of Some d \<Rightarrow> d | None \<Rightarrow> []))
      | _ \<Rightarrow> Some (SemRaw (resp_data response)))"

section \<open>Typed values\<close>

datatype value_type =
    VBool | VUInt16 | VInt16 | VUInt32 | VInt32 | VFloat32 | VUInt64 | VInt64 | VFloat64
  | VHex | VBinary | VAscii | VUtf8

datatype byte_order = BigBytes | LittleBytes

datatype word_order = NormalWords | ReverseWords

record 'f value_format =
  value_type :: value_type
  byte_order :: byte_order
  word_order :: word_order
  scale :: 'f
  offset :: 'f
  unit_label :: string
  bit_index :: "byte option"

record 'f float_ops =
  of_integer :: "int \<Rightarrow> 'f"
  of_bits32 :: "u32 \<Rightarrow> 'f"
  of_bits64 :: "u64 \<Rightarrow> 'f"
  fmul :: "'f \<Rightarrow> 'f \<Rightarrow> 'f"
  fadd :: "'f \<Rightarrow> 'f \<Rightarrow> 'f"
  is_one :: "'f \<Rightarrow> bool"
  is_zero :: "'f \<Rightarrow> bool"
  is_finite :: "'f \<Rightarrow> bool"

datatype 'f json_value =
    JBool bool
  | JNumber 'f
  | JString string
  | JDecimal int
  | JUtf8Lossy "byte list"
  | JArray "'f json_value list"

definition required_registers :: "'f value_format \<Rightarrow> u16 option" where
  "required_registers format =
     (if bit_index format \<noteq> None then Some 1
      else case value_type format of
        VBool \<Rightarrow> Some 1 | VUInt16 \<Rightarrow> Some 1 | VInt16 \<Rightarrow> Some 1
      | VUInt32 \<Rightarrow> Some 2 | VInt32 \<Rightarrow> Some 2 | VFloat32 \<Rightarrow> Some 2
      | VUInt64 \<Rightarrow> Some 4 | VInt64 \<Rightarrow> Some 4 | VFloat64 \<Rightarrow> Some 4
      | VHex \<Rightarrow> None | VBinary \<Rightarrow> None | VAscii \<Rightarrow> None | VUtf8 \<Rightarrow> None)"

definition take_bytes :: "byte list \<Rightarrow> nat \<Rightarrow> byte list pdu_result" where
  "take_bytes bytes len = ok_or (Fmt ''requires {len} bytes'' [] [len]) (get_range bytes 0 len)"

definition ordered_register_bytes ::
    "byte list \<Rightarrow> byte_order \<Rightarrow> word_order \<Rightarrow> byte list pdu_result" where
  "ordered_register_bytes bytes bo wo =
     (if bytes = [] \<or> odd (length bytes)
      then Err (Msg ''register value requires an even, non-zero byte count'')
      else let ws = map (\<lambda>c. case bo of BigBytes \<Rightarrow> [c ! 0, c ! 1] | LittleBytes \<Rightarrow> [c ! 1, c ! 0])
                  (as_chunks 2 bytes);
               ws = (if wo = ReverseWords then rev ws else ws)
           in Ok (concat ws))"

text \<open>\<open>uN::from_be_bytes\<close>: the bytes as the digits of a number in base 256.\<close>

definition be_value :: "byte list \<Rightarrow> nat" where
  "be_value bs = foldl (\<lambda>acc b. acc * 256 + unat b) 0 bs"

definition signed_of :: "nat \<Rightarrow> nat \<Rightarrow> int" where
  "signed_of w n = (if n < 2 ^ (w - 1) then int n else int n - 2 ^ w)"

definition scaled :: "'f float_ops \<Rightarrow> 'f \<Rightarrow> 'f value_format \<Rightarrow> 'f json_value pdu_result" where
  "scaled fl v format =
     (let v = fadd fl (fmul fl v (scale format)) (offset format) in
      if is_finite fl v then Ok (JNumber v) else Err (Msg ''non-finite scaled value''))"

definition require_identity_scaling ::
    "'f float_ops \<Rightarrow> 'f value_format \<Rightarrow> string \<Rightarrow> unit pdu_result" where
  "require_identity_scaling fl format label =
     (if is_one fl (scale format) \<and> is_zero fl (offset format) then Ok ()
      else Err (Fmt ''{label} uses exact decimal representation and requires scale=1, offset=0''
             [Msg label] []))"

definition hex_char :: "nat \<Rightarrow> char" where
  "hex_char n = (''0123456789ABCDEF'' ! n)"

definition hex_text :: "byte \<Rightarrow> string" where
  "hex_text b = [hex_char (unat b div 16), hex_char (unat b mod 16)]"

definition binary_text :: "byte \<Rightarrow> string" where
  "binary_text b = map (\<lambda>i. if bit b (7 - i) then CHR ''1'' else CHR ''0'') [0..<8]"

fun join_space :: "string list \<Rightarrow> string" where
  "join_space [] = []"
| "join_space [s] = s"
| "join_space (s # ss) = s @ CHR '' '' # join_space ss"

definition ascii_text :: "byte list \<Rightarrow> string" where
  "ascii_text bytes = map (\<lambda>b. if b < 0x80 then char_of (unat b) else CHR ''.'') bytes"

definition decode_bit :: "byte list \<Rightarrow> 'f value_format \<Rightarrow> byte \<Rightarrow> 'f json_value pdu_result" where
  "decode_bit bytes format b =
     (if b > 15 \<or> length bytes < 2
      then Err (Msg ''bit extraction requires one register and bit 0..15'')
      else rbind (slice bytes 0 2) (\<lambda>two.
           rbind (ordered_register_bytes two (byte_order format) NormalWords) (\<lambda>ordered.
           rbind (idx ordered 0) (\<lambda>o0. rbind (idx ordered 1) (\<lambda>o1.
             let v = from_be_bytes o0 o1 in Ok (JBool (drop_bit (unat b) v AND 1 \<noteq> 0)))))))"

text \<open>The bytes of an \<open>n\<close>-byte number in register order; \<open>try_into().expect\<close> panics on another length.\<close>

definition number_bytes :: "byte list \<Rightarrow> nat \<Rightarrow> byte_order \<Rightarrow> word_order \<Rightarrow> nat pdu_result" where
  "number_bytes bytes n bo wo =
     rbind (take_bytes bytes n) (\<lambda>taken.
     rbind (ordered_register_bytes taken bo wo) (\<lambda>ordered.
       if length ordered = n then Ok (be_value ordered) else Panic))"

definition decode_register_bytes ::
    "'f float_ops \<Rightarrow> byte list \<Rightarrow> 'f value_format \<Rightarrow> 'f json_value pdu_result" where
  "decode_register_bytes fl bytes format =
     (case bit_index format of
        Some b \<Rightarrow> decode_bit bytes format b
      | None \<Rightarrow>
          (let bo = byte_order format; wo = word_order format in
           case value_type format of
             VBool \<Rightarrow> rbind (number_bytes bytes 2 bo NormalWords) (\<lambda>n. Ok (JBool (n \<noteq> 0)))
           | VUInt16 \<Rightarrow> rbind (number_bytes bytes 2 bo NormalWords) (\<lambda>n.
               scaled fl (of_integer fl (int n)) format)
           | VInt16 \<Rightarrow> rbind (number_bytes bytes 2 bo NormalWords) (\<lambda>n.
               scaled fl (of_integer fl (signed_of 16 n)) format)
           | VUInt32 \<Rightarrow> rbind (number_bytes bytes 4 bo wo) (\<lambda>n.
               scaled fl (of_integer fl (int n)) format)
           | VInt32 \<Rightarrow> rbind (number_bytes bytes 4 bo wo) (\<lambda>n.
               scaled fl (of_integer fl (signed_of 32 n)) format)
           | VFloat32 \<Rightarrow> rbind (number_bytes bytes 4 bo wo) (\<lambda>n.
               scaled fl (of_bits32 fl (of_nat n)) format)
           | VUInt64 \<Rightarrow> rbind (require_identity_scaling fl format ''uint64'') (\<lambda>_.
               rbind (number_bytes bytes 8 bo wo) (\<lambda>n. Ok (JDecimal (int n))))
           | VInt64 \<Rightarrow> rbind (require_identity_scaling fl format ''int64'') (\<lambda>_.
               rbind (number_bytes bytes 8 bo wo) (\<lambda>n. Ok (JDecimal (signed_of 64 n))))
           | VFloat64 \<Rightarrow> rbind (number_bytes bytes 8 bo wo) (\<lambda>n.
               scaled fl (of_bits64 fl (of_nat n)) format)
           | VHex \<Rightarrow> Ok (JString (join_space (map hex_text bytes)))
           | VBinary \<Rightarrow> Ok (JString (join_space (map binary_text bytes)))
           | VAscii \<Rightarrow> Ok (JString (ascii_text bytes))
           | VUtf8 \<Rightarrow> Ok (JUtf8Lossy bytes)))"

section \<open>Lemmas\<close>

definition order_chunk :: "byte_order \<Rightarrow> byte list \<Rightarrow> byte list" where
  "order_chunk bo c = (case bo of BigBytes \<Rightarrow> [c ! 0, c ! 1] | LittleBytes \<Rightarrow> [c ! 1, c ! 0])"

lemma ordered_register_bytes_eq:
  "ordered_register_bytes bs bo wo =
     (if bs = [] \<or> odd (length bs)
      then Err (Msg ''register value requires an even, non-zero byte count'')
      else Ok (concat ((if wo = ReverseWords then rev else id) (map (order_chunk bo) (as_chunks 2 bs)))))"
  by (simp add: ordered_register_bytes_def order_chunk_def [abs_def] Let_def)

lemma order_chunk_twice: "length c = 2 \<Longrightarrow> order_chunk bo (order_chunk bo c) = c"
  by (auto simp: order_chunk_def length_two_conv split: byte_order.splits)

lemma length_order_chunk [simp]: "length (order_chunk bo c) = 2"
  by (simp add: order_chunk_def split: byte_order.splits)

lemma length_concat_ordered [simp]: "length (concat (map (order_chunk bo) cs)) = 2 * length cs"
  by (induction cs) auto

lemma length_ordered:
  "ordered_register_bytes bs bo wo = Ok out \<Longrightarrow> length out = length bs \<and> bs \<noteq> [] \<and> even (length bs)"
  by (auto simp: ordered_register_bytes_eq length_as_chunks simp flip: rev_map split: if_splits)

lemma ordered_twice:
  assumes "ordered_register_bytes bs bo wo = Ok out"
  shows "ordered_register_bytes out bo wo = Ok bs"
proof -
  let ?f = "if wo = ReverseWords then rev else id" and ?cs = "as_chunks 2 bs"
  have len: "length c = 2" if "c \<in> set ?cs" for c using that by (rule as_chunks_all_length)
  have out: "out = concat (?f (map (order_chunk bo) ?cs))" and l: "length out = length bs"
    and bs: "bs \<noteq> []" "even (length bs)"
    using assms length_ordered [OF assms] by (auto simp: ordered_register_bytes_eq split: if_splits)
  have "as_chunks 2 out = ?f (map (order_chunk bo) ?cs)"
    unfolding out by (rule as_chunks_concat) (auto split: if_splits)
  moreover have "?f (map (order_chunk bo) (?f (map (order_chunk bo) ?cs))) =
      map (order_chunk bo \<circ> order_chunk bo) ?cs"
    by (simp add: rev_map)
  moreover have "map (order_chunk bo \<circ> order_chunk bo) ?cs = ?cs"
    by (rule map_idI) (simp add: order_chunk_twice len)
  ultimately show ?thesis
    using bs l concat_as_chunks [of 2 bs] by (auto simp: ordered_register_bytes_eq)
qed

lemma be_value_bound: "be_value bs < 256 ^ length bs"
proof (induction bs rule: rev_induct)
  case (snoc b bs)
  have "be_value bs * 256 + unat b < (be_value bs + 1) * 256" using u8_bound [of b] by simp
  also have "\<dots> \<le> 256 ^ length bs * 256" using snoc by (intro mult_right_mono) simp_all
  finally show ?case by (simp add: be_value_def mult.commute)
qed (simp add: be_value_def)

lemma take_bytes_eq: "take_bytes bs n =
    (if n \<le> length bs then Ok (take n bs) else Err (Fmt ''requires {len} bytes'' [] [n]))"
  by (simp add: take_bytes_def get_range_def)

lemma ordered_no_panic: "ordered_register_bytes bs bo wo \<noteq> Panic"
  by (simp add: ordered_register_bytes_eq)

lemma number_bytes_no_panic: "number_bytes bs n bo wo \<noteq> Panic"
  by (auto simp: number_bytes_def result_simps take_bytes_eq ordered_no_panic dest!: length_ordered
      split: if_splits)

lemma number_bytes_Ok:
  assumes "0 < n" "even n" "n \<le> length bs"
  shows "\<exists>v. number_bytes bs n bo wo = Ok v \<and> v < 256 ^ n"
proof -
  have "bs \<noteq> []" using assms by auto
  then obtain out where o: "ordered_register_bytes (take n bs) bo wo = Ok out"
    using assms by (simp add: ordered_register_bytes_eq)
  then have "length out = n" using length_ordered [OF o] assms by simp
  then show ?thesis
    using o assms be_value_bound [of out] by (simp add: number_bytes_def take_bytes_eq)
qed

lemma decode_bit_no_panic: "decode_bit bs f b \<noteq> Panic"
  by (auto simp: decode_bit_def result_simps ordered_no_panic Let_def dest!: length_ordered
      split: if_splits)

lemma decode_register_bytes_no_panic: "decode_register_bytes fl bs f \<noteq> Panic"
  by (auto simp: decode_register_bytes_def result_simps decode_bit_no_panic number_bytes_no_panic
      scaled_def require_identity_scaling_def Let_def split: option.splits value_type.splits)

section \<open>Properties\<close>

text \<open>Byte order and word order only permute a register value: the
  reordered bytes are as many as the original ones and applying the same order again restores
  them, so a value laid out in an order is read back by the same order.\<close>

theorem register_order_involution:
  assumes "bytes \<noteq> []" "even (length bytes)"
  shows "\<exists>out. ordered_register_bytes bytes bo wo = Ok out \<and> length out = length bytes \<and>
    ordered_register_bytes out bo wo = Ok bytes"
proof -
  obtain out where "ordered_register_bytes bytes bo wo = Ok out"
    using assms by (simp add: ordered_register_bytes_eq)
  then show ?thesis using ordered_twice length_ordered by blast
qed

theorem register_order_involution_witness:
  "\<exists>out. ordered_register_bytes [1, 2, 3, 4] LittleBytes ReverseWords = Ok out \<and>
     ordered_register_bytes out LittleBytes ReverseWords = Ok [1, 2, 3, 4]"
  using register_order_involution [of "[1, 2, 3, 4]" LittleBytes ReverseWords] by auto

text \<open>Decoding a value never panics, for any bytes and any format. With the
  registers the format requires, an exact 64-bit format with the identity scaling always gives a
  number, and it is in the range of its type.\<close>

theorem value_decoding_total:
  "decode_register_bytes fl bytes format \<noteq> Panic \<and>
   (required_registers format = Some q \<and> 2 * unat q \<le> length bytes \<and> bit_index format = None \<and>
      is_one fl (scale format) \<and> is_zero fl (offset format) \<longrightarrow>
      (value_type format = VUInt64 \<longrightarrow>
        (\<exists>n. decode_register_bytes fl bytes format = Ok (JDecimal n) \<and> 0 \<le> n \<and> n < 2 ^ 64)) \<and>
      (value_type format = VInt64 \<longrightarrow>
        (\<exists>n. decode_register_bytes fl bytes format = Ok (JDecimal n) \<and> - (2 ^ 63) \<le> n \<and> n < 2 ^ 63)))"
proof -
  have "\<exists>v. number_bytes bytes 8 (byte_order format) (word_order format) = Ok v \<and> v < 256 ^ 8"
    if "8 \<le> length bytes" using that by (intro number_bytes_Ok) auto
  then show ?thesis
    by (auto simp: decode_register_bytes_no_panic required_registers_def)
      (auto simp: decode_register_bytes_def Let_def require_identity_scaling_def signed_of_def)
qed

definition integer_floats :: "int float_ops" where
  "integer_floats = \<lparr>of_integer = id, of_bits32 = uint, of_bits64 = uint, fmul = (*), fadd = (+),
     is_one = (\<lambda>x. x = 1), is_zero = (\<lambda>x. x = 0), is_finite = (\<lambda>_. True)\<rparr>"

theorem value_decoding_total_witness:
  "\<exists>n. decode_register_bytes integer_floats [0, 0, 0, 0, 0, 0, 0, 7]
      \<lparr>value_type = VInt64, byte_order = BigBytes, word_order = NormalWords, scale = 1, offset = 0,
       unit_label = [], bit_index = None\<rparr> = Ok (JDecimal n) \<and> n < 2 ^ 63"
  using value_decoding_total [of integer_floats "[0, 0, 0, 0, 0, 0, 0, 7]"
    "\<lparr>value_type = VInt64, byte_order = BigBytes, word_order = NormalWords, scale = 1, offset = 0,
       unit_label = [], bit_index = None\<rparr>" 4]
  by (auto simp: required_registers_def integer_floats_def)

end
