(* ===== verification/Modbus_Adu.thy ===== *)
theory Modbus_Adu
  imports Modbus_Pdu_Request
begin

unbundle bit_operations_syntax

text \<open>
  The interfaces between a Modbus transport codec and its users. \<open>adu_codec\<close> is what the
  client and the server rely on when they wrap a PDU for the wire and unwrap it again;
  \<open>stream_framer\<close> is what they rely on when a byte stream arrives in arbitrary pieces;
  \<open>framed_codec\<close> ties the two together. The codecs of \<open>plugins/modbus/codec\<close>
  (\<open>rtu.rs\<close>, \<open>ascii.rs\<close>, \<open>tcp.rs\<close>) are the interpretations, in their own theories.
\<close>

type_synonym framer_result = "(byte list list \<times> byte list) pdu_result"

text \<open>A caller's loop: one \<open>push\<close> per chunk, collecting the frames.\<close>

fun feed ::
    "(byte list \<Rightarrow> byte list \<Rightarrow> framer_result) \<Rightarrow> byte list \<Rightarrow> byte list list \<Rightarrow> framer_result" where
  "feed push buf [] = Ok ([], buf)"
| "feed push buf (c # cs) =
     rbind (push buf c) (\<lambda>(fs, buf). rbind (feed push buf cs) (\<lambda>(gs, buf). Ok (fs @ gs, buf)))"

locale adu_codec =
  fixes encode :: "'k \<Rightarrow> byte list \<Rightarrow> byte list pdu_result"
    and decode :: "byte list \<Rightarrow> ('k \<times> byte list) pdu_result"
  assumes encode_ok_iff: "is_ok (encode k pdu) \<longleftrightarrow> 1 \<le> length pdu \<and> length pdu \<le> MAX_PDU_LEN"
    and decode_encode: "encode k pdu = Ok frame \<Longrightarrow> decode frame = Ok (k, pdu)"
    and decode_bounds: "decode frame = Ok (k, pdu) \<Longrightarrow> 1 \<le> length pdu \<and> length pdu \<le> MAX_PDU_LEN"
    and decode_no_panic: "decode frame \<noteq> Panic"
begin

lemma encode_inj: "encode k p = Ok f \<Longrightarrow> encode k' p' = Ok f \<Longrightarrow> k' = k \<and> p' = p"
  using decode_encode [of k p f] decode_encode [of k' p' f] by simp

lemma request_crosses:
  assumes "encode_request r = Ok pdu" "canonical_request r"
  shows "\<exists>frame. encode k pdu = Ok frame \<and> decode frame = Ok (k, pdu) \<and>
    decode_request pdu = Ok \<lparr>dec_function = request_function r, dec_request = r\<rparr>"
proof -
  have "is_ok (encode k pdu)"
    using encode_request_bounds [OF assms(1)] by (simp add: encode_ok_iff)
  then obtain frame where "encode k pdu = Ok frame" by (auto simp: is_ok_iff)
  with assms show ?thesis by (auto simp: decode_encode request_round_trip)
qed

end

locale stream_framer =
  fixes push :: "byte list \<Rightarrow> byte list \<Rightarrow> framer_result"
  assumes push_append: "push buf (x @ y) =
      rbind (push buf x) (\<lambda>(fs, buf). rbind (push buf y) (\<lambda>(gs, buf). Ok (fs @ gs, buf)))"
begin

lemma feed_eq_push: "cs \<noteq> [] \<Longrightarrow> feed push buf cs = push buf (concat cs)"
proof (induction cs arbitrary: buf)
  case (Cons c cs)
  show ?case
  proof (cases cs)
    case Nil
    then show ?thesis by (cases "push buf c") auto
  next
    case (Cons d ds)
    then show ?thesis
      using Cons.IH by (simp add: push_append)
  qed
qed simp

lemma feed_chunking:
  "cs \<noteq> [] \<Longrightarrow> ds \<noteq> [] \<Longrightarrow> concat cs = concat ds \<Longrightarrow> feed push buf cs = feed push buf ds"
  by (simp add: feed_eq_push)

end

locale framed_codec = adu_codec encode decode + stream_framer push
  for encode :: "'k \<Rightarrow> byte list \<Rightarrow> byte list pdu_result"
    and decode :: "byte list \<Rightarrow> ('k \<times> byte list) pdu_result"
    and push :: "byte list \<Rightarrow> byte list \<Rightarrow> framer_result" +
  assumes push_nil: "push [] [] = Ok ([], [])"
    and push_frame: "encode k pdu = Ok frame \<Longrightarrow> push [] frame = Ok ([frame], [])"
begin

lemma push_frames:
  "list_all2 (\<lambda>(k, p) f. encode k p = Ok f) kps fs \<Longrightarrow> push [] (concat fs) = Ok (fs, [])"
proof (induction kps fs rule: list_all2_induct)
  case Nil
  then show ?case by (simp add: push_nil)
next
  case (Cons kp kps f fs)
  then show ?case by (auto simp: push_append push_frame split: prod.splits)
qed

lemma feed_frames:
  assumes "list_all2 (\<lambda>(k, p) f. encode k p = Ok f) kps fs" "concat cs = concat fs" "cs \<noteq> []"
  shows "feed push [] cs = Ok (fs, []) \<and> map decode fs = map Ok kps"
proof -
  have "map decode fs = map Ok kps"
    using assms(1) by (induction rule: list_all2_induct) (auto simp: decode_encode)
  with assms show ?thesis by (simp add: feed_eq_push push_frames)
qed

end

end
