(* ===== verification/Modbus_Rtu.thy ===== *)
theory Modbus_Rtu
  imports Modbus_Adu
begin

unbundle bit_operations_syntax

text \<open>
  The RTU codec, \<open>plugins/modbus/codec/rtu.rs\<close>: a frame is the unit, the PDU and a
  CRC-16 in little-endian order. Shown: the codec is an \<open>adu_codec\<close>, and the CRC
  rejects every frame in which exactly one byte was changed.
\<close>

definition crc16_shift :: "u16 \<Rightarrow> u16" where
  "crc16_shift crc = (if crc AND 1 \<noteq> 0 then drop_bit 1 crc XOR 0xA001 else drop_bit 1 crc)"

definition crc16_byte :: "u16 \<Rightarrow> byte \<Rightarrow> u16" where
  "crc16_byte crc b = (crc16_shift ^^ 8) (crc XOR ucast b)"

definition crc16 :: "byte list \<Rightarrow> u16" where
  "crc16 data = foldl crc16_byte 0xFFFF data"

definition to_le_bytes :: "u16 \<Rightarrow> byte list" where
  "to_le_bytes w = [ucast w, ucast (drop_bit 8 w)]"

definition from_le_bytes :: "byte \<Rightarrow> byte \<Rightarrow> u16" where
  "from_le_bytes lo hi = push_bit 8 (ucast hi) OR ucast lo"

definition rtu_encode :: "byte \<Rightarrow> byte list \<Rightarrow> byte list pdu_result" where
  "rtu_encode unit_id pdu =
     (if pdu = [] \<or> length pdu > MAX_PDU_LEN then Err (Msg ''invalid RTU PDU length'')
      else let frame = unit_id # pdu; crc = crc16 frame in Ok (frame @ to_le_bytes crc))"

definition rtu_decode :: "byte list \<Rightarrow> (byte \<times> byte list) pdu_result" where
  "rtu_decode frame =
     (if length frame < 4 then Err (Msg ''RTU frame too short'')
      else let data_len = length frame - 2 in
        rbind (slice frame 0 data_len) (\<lambda>covered.
        rbind (idx frame data_len) (\<lambda>lo. rbind (idx frame (data_len + 1)) (\<lambda>hi.
          let expected = crc16 covered; actual = from_le_bytes lo hi in
          if expected \<noteq> actual
          then Err (Fmt ''CRC mismatch: expected 0x{expected:04X}, got 0x{actual:04X}'' []
                 [unat expected, unat actual])
          else rbind (slice frame 1 data_len) (\<lambda>pdu.
            if pdu = [] \<or> length pdu > MAX_PDU_LEN then Err (Msg ''invalid RTU PDU length'')
            else rbind (idx frame 0) (\<lambda>unit_id. Ok (unit_id, pdu)))))))"

section \<open>Codec laws\<close>

lemma from_le_split [simp]: "from_le_bytes (ucast (w :: u16)) (ucast (drop_bit 8 w)) = w"
  using from_be_bytes_split by (simp add: from_be_bytes_def from_le_bytes_def)

lemma to_le_from_le: "to_le_bytes (from_le_bytes lo hi) = [lo, hi]"
proof -
  have "to_be_bytes (from_be_bytes hi lo) = [hi, lo]" by simp
  then show ?thesis
    by (simp add: to_le_bytes_def to_be_bytes_def from_le_bytes_def from_be_bytes_def)
qed

lemma rtu_decode_frame:
  assumes "d \<noteq> []"
  shows "rtu_decode (d @ [lo, hi]) =
    (if length d < 2 then Err (Msg ''RTU frame too short'')
     else if crc16 d \<noteq> from_le_bytes lo hi
     then Err (Fmt ''CRC mismatch: expected 0x{expected:04X}, got 0x{actual:04X}'' []
            [unat (crc16 d), unat (from_le_bytes lo hi)])
     else if length (tl d) > MAX_PDU_LEN then Err (Msg ''invalid RTU PDU length'')
     else Ok (hd d, tl d))"
proof -
  have "slice (d @ [lo, hi]) (Suc 0) (length d) = (Ok (tl d) :: byte list pdu_result)"
    using assms by (cases d) (auto simp: slice_def)
  moreover have "tl d \<noteq> []" if "\<not> length d < 2" using that by (cases d) auto
  moreover have "idx (d @ [lo, hi]) 0 = (Ok (hd d) :: byte pdu_result)"
    using assms by (cases d) auto
  ultimately show ?thesis
    by (auto simp: rtu_decode_def Let_def nth_append slice_def)
qed

lemma rtu_frame_cases:
  assumes "4 \<le> length frame"
  obtains d lo hi where "frame = d @ [lo, hi]" "2 \<le> length d"
proof -
  have "frame = take (length frame - 2) frame @ drop (length frame - 2) frame" by simp
  moreover have "length (drop (length frame - 2) frame) = 2" using assms by simp
  then obtain lo hi where "drop (length frame - 2) frame = [lo, hi]"
    unfolding length_two_conv by blast
  ultimately have "frame = take (length frame - 2) frame @ [lo, hi]" by simp
  moreover have "2 \<le> length (take (length frame - 2) frame)" using assms by simp
  ultimately show thesis using that by blast
qed

lemma rtu_decode_cases:
  "rtu_decode frame = Ok (u, p) \<longleftrightarrow>
     (\<exists>lo hi. frame = u # p @ [lo, hi] \<and> crc16 (u # p) = from_le_bytes lo hi \<and>
        1 \<le> length p \<and> length p \<le> MAX_PDU_LEN)"
  "rtu_decode frame \<noteq> Panic"
proof -
  have *: "(rtu_decode frame = Ok (u, p) \<longleftrightarrow>
     (\<exists>lo hi. frame = u # p @ [lo, hi] \<and> crc16 (u # p) = from_le_bytes lo hi \<and>
        1 \<le> length p \<and> length p \<le> MAX_PDU_LEN)) \<and> rtu_decode frame \<noteq> Panic"
  proof (cases "4 \<le> length frame")
    case True
    then obtain d lo hi where f: "frame = d @ [lo, hi]" "2 \<le> length d"
      by (rule rtu_frame_cases)
    then obtain u' p' where d: "d = u' # p'" by (cases d) auto
    have "frame = u' # p' @ [lo, hi]" by (simp add: f d)
    moreover have "1 \<le> length p'" using f(2) d by simp
    ultimately show ?thesis
      using rtu_decode_frame [of d lo hi] by (auto simp: f d)
  next
    case False
    then show ?thesis by (auto simp: rtu_decode_def)
  qed
  from * show "rtu_decode frame = Ok (u, p) \<longleftrightarrow>
     (\<exists>lo hi. frame = u # p @ [lo, hi] \<and> crc16 (u # p) = from_le_bytes lo hi \<and>
        1 \<le> length p \<and> length p \<le> MAX_PDU_LEN)" by blast
  from * show "rtu_decode frame \<noteq> Panic" by blast
qed

interpretation rtu: adu_codec rtu_encode rtu_decode
proof
  fix k pdu
  show "is_ok (rtu_encode k pdu) \<longleftrightarrow> 1 \<le> length pdu \<and> length pdu \<le> MAX_PDU_LEN"
    by (cases pdu) (auto simp: rtu_encode_def Let_def)
next
  fix k pdu frame
  assume "rtu_encode k pdu = Ok frame"
  then have "pdu \<noteq> []" "length pdu \<le> MAX_PDU_LEN" "frame = k # pdu @ to_le_bytes (crc16 (k # pdu))"
    by (auto simp: rtu_encode_def Let_def split: if_splits)
  then show "rtu_decode frame = Ok (k, pdu)"
    by (auto simp: rtu_decode_cases to_le_bytes_def Suc_le_eq)
qed (auto simp: rtu_decode_cases)

section \<open>Detection of a changed byte\<close>

lemma crc16_shift_inj: "crc16_shift a = crc16_shift b \<Longrightarrow> a = b"
proof -
  assume eq: "crc16_shift a = crc16_shift b"
  have and1: "(c AND 1 \<noteq> 0) = bit c 0" for c :: u16
    by (simp add: and_one_eq odd_iff_mod_2_eq_one bit_0)
  have shifted: "bit (crc16_shift c) 15 = bit c 0" for c
    by (auto simp: crc16_shift_def and1 bit_simps dest: bit_imp_le_length)
  have low: "bit a 0 = bit b 0"
    using eq shifted by metis
  have "drop_bit 1 a = drop_bit 1 b"
    using eq low by (auto simp: crc16_shift_def and1 xor_cancel split: if_splits)
  then have "bit a (Suc n) = bit b (Suc n)" for n
    by (metis bit_drop_bit_eq comp_apply plus_1_eq_Suc)
  with low have "bit a n = bit b n" for n
    by (cases n) auto
  then show "a = b" by (intro bit_eqI) blast
qed

lemma crc16_shifts_inj: "(crc16_shift ^^ n) a = (crc16_shift ^^ n) b \<Longrightarrow> a = b"
  by (induction n) (auto dest: crc16_shift_inj)

lemma crc16_byte_inj:
  "crc16_byte s a = crc16_byte t a \<Longrightarrow> s = t" "crc16_byte s a = crc16_byte s b \<Longrightarrow> a = b"
  unfolding crc16_byte_def by (auto dest!: crc16_shifts_inj simp: xor_cancel ucast_byte_inj)

lemma foldl_crc16_inj: "foldl crc16_byte s xs = foldl crc16_byte t xs \<Longrightarrow> s = t"
  by (induction xs arbitrary: s t) (auto dest: crc16_byte_inj(1))

lemma crc16_single_byte:
  assumes "i < length d" "d ! i \<noteq> b"
  shows "crc16 (d[i := b]) \<noteq> crc16 d"
proof
  assume eq: "crc16 (d[i := b]) = crc16 d"
  let ?s = "foldl crc16_byte 0xFFFF (take i d)"
  have d: "d = take i d @ d ! i # drop (Suc i) d" "d[i := b] = take i d @ b # drop (Suc i) d"
    using assms(1) by (simp_all add: id_take_nth_drop upd_conv_take_nth_drop)
  have "foldl crc16_byte (crc16_byte ?s b) (drop (Suc i) d) =
      foldl crc16_byte (crc16_byte ?s (d ! i)) (drop (Suc i) d)"
    using eq d unfolding crc16_def by (metis foldl_append foldl_Cons)
  then have "crc16_byte ?s b = crc16_byte ?s (d ! i)" by (rule foldl_crc16_inj)
  then show False using assms(2) crc16_byte_inj(2) by blast
qed

theorem rtu_detects_single_byte:
  assumes "rtu_encode u p = Ok frame" "i < length frame" "b \<noteq> frame ! i"
  shows "\<exists>m. rtu_decode (frame[i := b]) = Err m"
proof -
  let ?d = "u # p"
  from assms(1) obtain lo hi where f: "frame = ?d @ [lo, hi]" "crc16 ?d = from_le_bytes lo hi"
    using rtu.decode_encode [OF assms(1)] by (auto simp: rtu_decode_cases)
  have "\<exists>d' lo' hi'. frame[i := b] = d' @ [lo', hi'] \<and> d' \<noteq> [] \<and> crc16 d' \<noteq> from_le_bytes lo' hi'"
  proof (cases "i < length ?d")
    case True
    have "?d ! i \<noteq> b"
      using assms(3) f(1) True nth_append [of ?d "[lo, hi]" i] by simp
    with True have "crc16 (?d[i := b]) \<noteq> crc16 ?d" by (rule crc16_single_byte)
    moreover have "frame[i := b] = ?d[i := b] @ [lo, hi]"
      using True unfolding f(1) by (simp only: list_update_append1)
    moreover have "?d[i := b] \<noteq> []" by (simp only: list_update_nonempty list.simps not_False_eq_True)
    ultimately show ?thesis using f(2) by metis
  next
    case False
    then have "i = length ?d \<or> i = Suc (length ?d)" using assms(2) f by auto
    then have "frame[i := b] = ?d @ [b, hi] \<and> b \<noteq> lo \<or> frame[i := b] = ?d @ [lo, b] \<and> b \<noteq> hi"
      using assms(3) f by (auto simp: nth_append list_update_append)
    moreover have "from_le_bytes x y = from_le_bytes lo hi \<Longrightarrow> x = lo \<and> y = hi" for x y
      by (metis to_le_from_le list.inject)
    ultimately show ?thesis using f by (metis list.discI)
  qed
  then show ?thesis by (auto simp: rtu_decode_frame)
qed

section \<open>Properties\<close>

text \<open>C29. An RTU frame in which any one byte has been changed, in the
  address, the PDU or the checksum itself, is refused; the unchanged frame is decoded to the unit
  and the PDU it was made of.\<close>

theorem rtu_corruption_detected:
  assumes "rtu_encode u p = Ok frame"
  shows "rtu_decode frame = Ok (u, p) \<and>
    (\<forall>i<length frame. \<forall>b. b \<noteq> frame ! i \<longrightarrow> (\<exists>m. rtu_decode (frame[i := b]) = Err m))"
  using rtu.decode_encode [OF assms] rtu_detects_single_byte [OF assms] by blast

theorem rtu_corruption_detected_witness:
  "\<exists>m. rtu_decode [0x11, 0x06, 0x4c, 0x22] = Err m"
proof -
  have "rtu_encode 0x11 [0x07] = Ok [0x11, 0x07, 0x4c, 0x22]"
    by (simp add: rtu_encode_def MAX_PDU_LEN_def crc16_def crc16_byte_def crc16_shift_def
        funpow_8 to_le_bytes_def)
  from rtu_corruption_detected [OF this, THEN conjunct2, rule_format, of "Suc 0" "0x06"]
  show ?thesis by simp
qed

end
