(* ===== verification/Modbus_Tcp.thy ===== *)
theory Modbus_Tcp
  imports Modbus_Adu
begin

unbundle bit_operations_syntax

text \<open>
  The TCP codec, \<open>plugins/modbus/codec/tcp.rs\<close>: the MBAP header in front of a PDU, and
  \<open>TcpFramer\<close>, which cuts a byte stream into frames. Shown: the codec and the framer
  satisfy \<open>framed_codec\<close>, so a sequence of frames is recovered however the stream is
  chunked.
\<close>

definition MBAP_LEN :: nat where
  "MBAP_LEN = 7"

definition tcp_encode :: "u16 \<Rightarrow> byte \<Rightarrow> byte list \<Rightarrow> byte list pdu_result" where
  "tcp_encode transaction_id unit_id pdu =
     (if pdu = [] \<or> length pdu > MAX_PDU_LEN then Err (Msg ''invalid TCP PDU length'')
      else let len = length pdu + 1 in
        Ok (to_be_bytes transaction_id @ to_be_bytes 0 @ to_be_bytes (as_u16 len) @ [unit_id] @ pdu))"

definition tcp_decode :: "byte list \<Rightarrow> (u16 \<times> byte \<times> byte list) pdu_result" where
  "tcp_decode frame =
     (if length frame < MBAP_LEN + 1 then Err (Msg ''TCP ADU too short'')
      else rbind (idx frame 0) (\<lambda>f0. rbind (idx frame 1) (\<lambda>f1.
           rbind (idx frame 2) (\<lambda>f2. rbind (idx frame 3) (\<lambda>f3.
             let transaction_id = from_be_bytes f0 f1; protocol_id = from_be_bytes f2 f3 in
             if protocol_id \<noteq> 0
             then Err (Fmt ''invalid Protocol Identifier {protocol_id}'' [] [unat protocol_id])
             else rbind (idx frame 4) (\<lambda>f4. rbind (idx frame 5) (\<lambda>f5.
               let len = unat (from_be_bytes f4 f5) in
               if \<not> (2 \<le> len \<and> len \<le> 254) then Err (Fmt ''invalid MBAP length {length}'' [] [len])
               else if length frame \<noteq> 6 + len
               then Err (Fmt ''MBAP length mismatch: header={length}, actual={}'' []
                      [len, length frame - 6])
               else rbind (slice_from frame 7) (\<lambda>pdu.
                 if pdu = [] \<or> length pdu > MAX_PDU_LEN then Err (Msg ''invalid TCP PDU length'')
                 else rbind (idx frame 6) (\<lambda>unit_id. Ok (transaction_id, unit_id, pdu))))))))))"

text \<open>
  \<open>TcpFramer::push\<close>: the loop over the buffer after the new bytes are appended. On an
  error the code keeps the rest of the buffer; its callers drop the framer then, so the
  model returns the error alone.
\<close>

function tcp_frames :: "byte list \<Rightarrow> framer_result" where
  "tcp_frames buffer =
     (if length buffer < MBAP_LEN then Ok ([], buffer)
      else rbind (idx buffer 2) (\<lambda>b2. rbind (idx buffer 3) (\<lambda>b3.
        let protocol_id = from_be_bytes b2 b3 in
        if protocol_id \<noteq> 0
        then Err (Fmt ''invalid Protocol Identifier {protocol_id}'' [] [unat protocol_id])
        else rbind (idx buffer 4) (\<lambda>b4. rbind (idx buffer 5) (\<lambda>b5.
          let len = unat (from_be_bytes b4 b5) in
          if \<not> (2 \<le> len \<and> len \<le> 254) then Err (Fmt ''invalid MBAP length {length}'' [] [len])
          else let total = 6 + len in
            if length buffer < total then Ok ([], buffer)
            else rbind (tcp_frames (drop total buffer)) (\<lambda>(frames, rest).
              Ok (take total buffer # frames, rest)))))))"
  by pat_completeness auto
termination
  by (relation "measure length") (auto simp: MBAP_LEN_def)

declare tcp_frames.simps [simp del]

definition tcp_push :: "byte list \<Rightarrow> byte list \<Rightarrow> framer_result" where
  "tcp_push buffer data = tcp_frames (buffer @ data)"

section \<open>Codec laws\<close>

abbreviation tcp_encode_key :: "u16 \<times> byte \<Rightarrow> byte list \<Rightarrow> byte list pdu_result" where
  "tcp_encode_key k pdu \<equiv> tcp_encode (fst k) (snd k) pdu"

definition tcp_decode_key :: "byte list \<Rightarrow> ((u16 \<times> byte) \<times> byte list) pdu_result" where
  "tcp_decode_key frame = rbind (tcp_decode frame) (\<lambda>(tid, u, pdu). Ok ((tid, u), pdu))"

lemma tcp_decode_no_panic: "tcp_decode frame \<noteq> Panic"
  by (auto simp: tcp_decode_def result_simps Let_def MBAP_LEN_def split: if_splits)

lemma tcp_decode_bounds:
  "tcp_decode frame = Ok (tid, u, pdu) \<Longrightarrow> 1 \<le> length pdu \<and> length pdu \<le> MAX_PDU_LEN"
  by (auto simp: tcp_decode_def result_simps Let_def MBAP_LEN_def Suc_le_eq split: if_splits)

lemma tcp_decode_encode:
  assumes "tcp_encode tid u pdu = Ok frame"
  shows "tcp_decode frame = Ok (tid, u, pdu)"
proof -
  from assms have p: "pdu \<noteq> []" "length pdu \<le> 253" and
    f: "frame = to_be_bytes tid @ to_be_bytes 0 @ to_be_bytes (as_u16 (length pdu + 1)) @ [u] @ pdu"
    by (auto simp: tcp_encode_def Let_def MAX_PDU_LEN_def split: if_splits)
  have l: "unat (as_u16 (length pdu + 1)) = length pdu + 1"
    using p by (intro unat_as_u16_small) simp
  have z: "from_be_bytes 0 0 = 0" by (simp add: from_be_bytes_def)
  from p l z show ?thesis
    by (simp add: f tcp_decode_def MBAP_LEN_def MAX_PDU_LEN_def to_be_bytes_def Suc_le_eq)
qed

lemma tcp_frames_step:
  assumes "7 \<le> length buf" "from_be_bytes (buf ! 2) (buf ! 3) = 0"
    "2 \<le> unat (from_be_bytes (buf ! 4) (buf ! 5))" "unat (from_be_bytes (buf ! 4) (buf ! 5)) \<le> 254"
  shows "tcp_frames buf =
    (let total = 6 + unat (from_be_bytes (buf ! 4) (buf ! 5)) in
     if length buf < total then Ok ([], buf)
     else rbind (tcp_frames (drop total buf)) (\<lambda>(fs, rest). Ok (take total buf # fs, rest)))"
  by (subst tcp_frames.simps) (use assms in \<open>simp add: MBAP_LEN_def Let_def\<close>)

lemma tcp_frames_append:
  "tcp_frames (buf @ y) =
     rbind (tcp_frames buf) (\<lambda>(fs, rest). rbind (tcp_frames (rest @ y)) (\<lambda>(gs, rest). Ok (fs @ gs, rest)))"
proof (induction buf rule: tcp_frames.induct)
  case (1 buf)
  let ?pid = "from_be_bytes (buf ! 2) (buf ! 3)"
  let ?len = "unat (from_be_bytes (buf ! 4) (buf ! 5))"
  have triv: "rbind (tcp_frames z) (\<lambda>(gs, rest). Ok ([] @ gs, rest)) = tcp_frames z" for z
    by (cases "tcp_frames z") auto
  consider (short) "length buf < 7 \<or> (?pid = 0 \<and> 2 \<le> ?len \<and> ?len \<le> 254 \<and> length buf < 6 + ?len)"
    | (bad) "7 \<le> length buf" "?pid \<noteq> 0 \<or> \<not> (2 \<le> ?len \<and> ?len \<le> 254)"
    | (frame) "7 \<le> length buf" "?pid = 0" "2 \<le> ?len" "?len \<le> 254" "6 + ?len \<le> length buf"
    by linarith
  then show ?case
  proof cases
    case short
    then have "tcp_frames buf = Ok ([], buf)"
      by (subst tcp_frames.simps) (auto simp: MBAP_LEN_def Let_def)
    then show ?thesis using triv [of "buf @ y"] by simp
  next
    case bad
    then have "\<exists>e. tcp_frames buf = Err e \<and> tcp_frames (buf @ y) = Err e"
      by (subst (1 2) tcp_frames.simps) (auto simp: MBAP_LEN_def Let_def nth_append)
    then show ?thesis by auto
  next
    case frame
    have step: "tcp_frames (buf @ z) = rbind (tcp_frames (drop (6 + ?len) buf @ z))
        (\<lambda>(fs, rest). Ok (take (6 + ?len) buf # fs, rest))" for z
      using tcp_frames_step [of "buf @ z"] frame by (simp add: nth_append Let_def)
    have IH: "tcp_frames (drop (6 + ?len) buf @ y) =
        rbind (tcp_frames (drop (6 + ?len) buf))
          (\<lambda>(fs, rest). rbind (tcp_frames (rest @ y)) (\<lambda>(gs, rest). Ok (fs @ gs, rest)))"
      using frame by (intro "1.IH") (auto simp: MBAP_LEN_def)
    show ?thesis
      unfolding step [of y] IH using step [of "[]"]
      by (simp add: rbind_assoc case_prod_beta)
  qed
qed

interpretation tcp: framed_codec tcp_encode_key tcp_decode_key tcp_push
proof
  fix k :: "u16 \<times> byte" and pdu
  show "is_ok (tcp_encode_key k pdu) \<longleftrightarrow> 1 \<le> length pdu \<and> length pdu \<le> MAX_PDU_LEN"
    by (cases pdu) (auto simp: tcp_encode_def Let_def)
next
  fix k :: "u16 \<times> byte" and pdu frame
  assume "tcp_encode_key k pdu = Ok frame"
  then show "tcp_decode_key frame = Ok (k, pdu)"
    by (auto simp: tcp_decode_key_def dest: tcp_decode_encode)
next
  fix buf x y
  show "tcp_push buf (x @ y) = rbind (tcp_push buf x)
      (\<lambda>(fs, buf). rbind (tcp_push buf y) (\<lambda>(gs, buf). Ok (fs @ gs, buf)))"
    using tcp_frames_append [of "buf @ x" y] by (simp add: tcp_push_def)
next
  show "tcp_push [] [] = Ok ([], [])"
    by (simp add: tcp_push_def tcp_frames.simps MBAP_LEN_def)
next
  fix k :: "u16 \<times> byte" and pdu frame
  assume enc: "tcp_encode_key k pdu = Ok frame"
  then have p: "pdu \<noteq> []" "length pdu \<le> 253" and
    f: "frame = to_be_bytes (fst k) @ to_be_bytes 0 @ to_be_bytes (as_u16 (length pdu + 1)) @
      [snd k] @ pdu"
    by (auto simp: tcp_encode_def Let_def MAX_PDU_LEN_def split: if_splits)
  have l: "unat (as_u16 (length pdu + 1)) = length pdu + 1"
    using p by (intro unat_as_u16_small) simp
  have z: "from_be_bytes 0 0 = 0" by (simp add: from_be_bytes_def)
  have "tcp_frames [] = Ok ([], [])" by (simp add: tcp_frames.simps MBAP_LEN_def)
  with p l z show "tcp_push [] frame = Ok ([frame], [])"
    by (simp add: tcp_push_def tcp_frames_step f to_be_bytes_def Suc_le_eq Let_def)
qed (auto simp: tcp_decode_key_def result_simps tcp_decode_no_panic dest: tcp_decode_bounds)

lemma tcp_frames_no_panic: "tcp_frames buf \<noteq> Panic"
proof (induction buf rule: tcp_frames.induct)
  case (1 buf)
  show ?case
    by (subst tcp_frames.simps) (use 1 in \<open>auto simp: result_simps MBAP_LEN_def Let_def split: if_splits\<close>)
qed

section \<open>Properties\<close>

text \<open>C27. Frames written one after the other to a TCP stream are recovered
  by the framer however the stream is cut into chunks, nothing stays in its buffer, and each
  frame decodes to the transaction, the unit and the PDU it was made of.\<close>

theorem tcp_stream_recovered:
  assumes "list_all2 (\<lambda>((tid, u), p) f. tcp_encode tid u p = Ok f) msgs frames"
    "concat chunks = concat frames" "chunks \<noteq> []"
  shows "feed tcp_push [] chunks = Ok (frames, []) \<and>
    map tcp_decode frames = map (\<lambda>((tid, u), p). Ok (tid, u, p)) msgs"
proof -
  have "list_all2 (\<lambda>(k, p) f. tcp_encode_key k p = Ok f) msgs frames"
    using assms(1) by (rule list_all2_mono) auto
  moreover have "map tcp_decode frames = map (\<lambda>((tid, u), p). Ok (tid, u, p)) msgs"
    using assms(1) by (induction rule: list_all2_induct) (auto simp: tcp_decode_encode)
  ultimately show ?thesis using tcp.feed_frames assms(2,3) by blast
qed

theorem tcp_stream_recovered_witness:
  "feed tcp_push [] [[0, 1, 0], [0, 0, 2, 9, 7, 0, 2, 0, 0, 0, 3, 9], [11, 12]] =
     Ok ([[0, 1, 0, 0, 0, 2, 9, 7], [0, 2, 0, 0, 0, 3, 9, 11, 12]], [])"
proof -
  have "list_all2 (\<lambda>((tid, u), p) f. tcp_encode tid u p = Ok f)
      [((1, 9), [7]), ((2, 9), [11, 12])]
      [[0, 1, 0, 0, 0, 2, 9, 7], [0, 2, 0, 0, 0, 3, 9, 11, 12]]"
    by (simp add: tcp_encode_def MAX_PDU_LEN_def to_be_bytes_def as_u16_def)
  from tcp_stream_recovered [OF this] show ?thesis by (simp del: feed.simps)
qed

end
