(* ===== verification/Modbus_Ascii.thy ===== *)
theory Modbus_Ascii
  imports Modbus_Adu
begin

unbundle bit_operations_syntax

text \<open>
  The ASCII codec, \<open>plugins/modbus/codec/ascii.rs\<close>: hexadecimal frames between a colon
  and CR LF with a longitudinal redundancy check, and \<open>AsciiFramer\<close>, which finds frames
  in a stream and resynchronises on a new colon. Shown: the codec and the framer satisfy
  \<open>framed_codec\<close>; the framer's result does not depend on how the stream is chunked, its
  buffer stays bounded, and no emitted frame exceeds the longest ADU.
\<close>

definition MAX_ASCII_ADU_LEN :: nat where
  "MAX_ASCII_ADU_LEN = (MAX_PDU_LEN + 2) * 2 + 3"

definition lrc :: "byte list \<Rightarrow> byte" where
  "lrc data = NOT (foldl (+) 0 data) + 1"

text \<open>The two characters of \<open>format!("{byte:02X}")\<close>.\<close>

definition hex_digit :: "byte \<Rightarrow> byte" where
  "hex_digit n = (if n < 10 then 0x30 + n else 0x41 + (n - 10))"

definition hex_byte :: "byte \<Rightarrow> byte list" where
  "hex_byte b = [hex_digit (drop_bit 4 b), hex_digit (b AND 0x0F)]"

definition hex_nibble :: "byte \<Rightarrow> byte pdu_result" where
  "hex_nibble value =
     (if 0x30 \<le> value \<and> value \<le> 0x39 then Ok (value - 0x30)
      else if 0x61 \<le> value \<and> value \<le> 0x66 then Ok (value - 0x61 + 10)
      else if 0x41 \<le> value \<and> value \<le> 0x46 then Ok (value - 0x41 + 10)
      else Err (Fmt ''invalid ASCII hex character 0x{value:02X}'' [] [unat value]))"

definition ascii_encode :: "byte \<Rightarrow> byte list \<Rightarrow> byte list pdu_result" where
  "ascii_encode unit_id pdu =
     (if pdu = [] \<or> length pdu > MAX_PDU_LEN then Err (Msg ''invalid ASCII PDU length'')
      else let raw = unit_id # pdu; raw = raw @ [lrc raw] in
        Ok (0x3A # concat (map hex_byte raw) @ [0x0D, 0x0A]))"

definition hex_pair :: "byte list \<Rightarrow> byte pdu_result" where
  "hex_pair pair =
     rbind (idx pair 0) (\<lambda>p0. rbind (hex_nibble p0) (\<lambda>hi.
     rbind (idx pair 1) (\<lambda>p1. rbind (hex_nibble p1) (\<lambda>lo. Ok (push_bit 4 hi OR lo)))))"

definition ends_with :: "'a list \<Rightarrow> 'a list \<Rightarrow> bool" where
  "ends_with xs suf \<longleftrightarrow> length suf \<le> length xs \<and> drop (length xs - length suf) xs = suf"

definition ascii_decode :: "byte list \<Rightarrow> (byte \<times> byte list) pdu_result" where
  "ascii_decode frame =
     (if length frame < 9 \<or> length frame > MAX_ASCII_ADU_LEN
      then Err (Msg ''invalid ASCII frame length'')
      else if get_opt frame 0 \<noteq> Some 0x3A \<or> \<not> ends_with frame [0x0D, 0x0A]
      then Err (Msg ''invalid ASCII frame delimiters'')
      else rbind (slice frame 1 (length frame - 2)) (\<lambda>hex.
        if odd (length hex) then Err (Msg ''ASCII frame contains odd hex digit count'')
        else rbind (rmap hex_pair (as_chunks 2 hex)) (\<lambda>raw.
          if length raw < 3 then Err (Msg ''ASCII frame payload too short'')
          else let actual = last raw; raw = butlast raw; expected = lrc raw in
            if actual \<noteq> expected
            then Err (Fmt ''LRC mismatch: expected 0x{expected:02X}, got 0x{actual:02X}'' []
                   [unat expected, unat actual])
            else rbind (idx raw 0) (\<lambda>u. rbind (slice_from raw 1) (\<lambda>pdu.
              if pdu = [] \<or> length pdu > MAX_PDU_LEN then Err (Msg ''invalid ASCII PDU length'')
              else Ok (u, pdu))))))"

section \<open>The framer\<close>

text \<open>\<open>iter().position\<close>, and the position of CR LF among the windows of length two.\<close>

fun position :: "('a \<Rightarrow> bool) \<Rightarrow> 'a list \<Rightarrow> nat option" where
  "position p [] = None"
| "position p (x # xs) = (if p x then Some 0 else map_option Suc (position p xs))"

fun crlf_position :: "byte list \<Rightarrow> nat option" where
  "crlf_position (a # b # xs) =
     (if a = 0x0D \<and> b = 0x0A then Some 0 else map_option Suc (crlf_position (b # xs)))"
| "crlf_position _ = None"

abbreviation colon_position :: "byte list \<Rightarrow> nat option" where
  "colon_position xs \<equiv> position (\<lambda>b. b = 0x3A) xs"

text \<open>
  One iteration of the loop of \<open>AsciiFramer::push\<close>: leave with a buffer, drop a prefix
  and continue, or emit a frame and continue.
\<close>

datatype framer_action = Stop "byte list" | Skip "byte list" | Emit "byte list" "byte list"

definition resync_at :: "byte list \<Rightarrow> nat option" where
  "resync_at buffer =
     (case colon_position (drop 1 buffer) of None \<Rightarrow> None
      | Some p \<Rightarrow> let next_start = p + 1 in
          if crlf_position (take next_start buffer) = None then Some next_start else None)"

definition ascii_step_at :: "byte list \<Rightarrow> framer_action" where
  "ascii_step_at buffer =
     (case resync_at buffer of Some next_start \<Rightarrow> Skip (drop next_start buffer)
      | None \<Rightarrow>
          (case crlf_position buffer of
             None \<Rightarrow> Stop (if length buffer > MAX_ASCII_ADU_LEN then [] else buffer)
           | Some e \<Rightarrow> let frame_len = e + 2 in
               if frame_len > MAX_ASCII_ADU_LEN then Skip (drop frame_len buffer)
               else Emit (take frame_len buffer) (drop frame_len buffer)))"

definition ascii_step :: "byte list \<Rightarrow> framer_action" where
  "ascii_step buffer =
     (case colon_position buffer of None \<Rightarrow> Stop []
      | Some start \<Rightarrow> ascii_step_at (drop start buffer))"

lemma crlf_position_less: "crlf_position xs = Some e \<Longrightarrow> e + 2 \<le> length xs"
  by (induction xs arbitrary: e rule: crlf_position.induct) (auto split: if_splits)

lemma position_less: "position p xs = Some i \<Longrightarrow> i < length xs \<and> p (xs ! i)"
  by (induction xs arbitrary: i) (auto split: if_splits)

lemma resync_at_less: "resync_at b = Some n \<Longrightarrow> 0 < n \<and> n < length b"
  by (auto simp: resync_at_def Let_def split: option.splits if_splits dest!: position_less)

lemma ascii_step_at_shorter:
  "ascii_step_at b = Skip r \<Longrightarrow> length r < length b"
  "ascii_step_at b = Emit f r \<Longrightarrow> length r < length b \<and> length f \<le> MAX_ASCII_ADU_LEN"
  by (auto simp: ascii_step_at_def Let_def split: option.splits if_splits
      dest!: resync_at_less crlf_position_less)

lemma ascii_step_shorter:
  "ascii_step b = Skip r \<Longrightarrow> length r < length b"
  "ascii_step b = Emit f r \<Longrightarrow> length r < length b \<and> length f \<le> MAX_ASCII_ADU_LEN"
  by (fastforce simp: ascii_step_def split: option.splits dest!: ascii_step_at_shorter)+

function ascii_frames :: "byte list \<Rightarrow> byte list list \<times> byte list" where
  "ascii_frames buffer =
     (case ascii_step buffer of Stop rest \<Rightarrow> ([], rest)
      | Skip rest \<Rightarrow> ascii_frames rest
      | Emit frame rest \<Rightarrow> (let (fs, rest) = ascii_frames rest in (frame # fs, rest)))"
  by pat_completeness auto
termination
  by (relation "measure length") (auto dest: ascii_step_shorter)

declare ascii_frames.simps [simp del]

definition ascii_push :: "byte list \<Rightarrow> byte list \<Rightarrow> byte list list \<times> byte list" where
  "ascii_push buffer data = ascii_frames (buffer @ data)"

section \<open>The framer does not depend on chunking\<close>

lemma position_append: "position p (xs @ ys) =
    (case position p xs of Some i \<Rightarrow> Some i | None \<Rightarrow> map_option ((+) (length xs)) (position p ys))"
  by (induction xs; cases "position p ys") (auto split: option.splits)

lemma position_None: "position p xs = None \<longleftrightarrow> (\<forall>x\<in>set xs. \<not> p x)"
  by (induction xs) auto

lemma position_take: "position p xs = Some i \<Longrightarrow> position p (take i xs) = None"
  by (induction xs arbitrary: i) (auto split: if_splits)

lemma crlf_position_append:
  "crlf_position xs = Some e \<Longrightarrow> crlf_position (xs @ ys) = Some e"
  by (induction xs arbitrary: e rule: crlf_position.induct) (auto split: if_splits)

lemma crlf_position_take: "crlf_position (take n xs) = Some e \<Longrightarrow> crlf_position xs = Some e"
  using crlf_position_append [of "take n xs" e "drop n xs"] by simp

lemma crlf_position_late:
  "crlf_position xs = None \<Longrightarrow> crlf_position (xs @ ys) = Some e \<Longrightarrow> length xs \<le> e + 1"
proof (induction xs arbitrary: e rule: crlf_position.induct)
  case (1 a b xs)
  then show ?case by (auto split: if_splits)
qed (auto split: if_splits)

lemma resync_at_append_Some:
  assumes "resync_at b = Some n" "b \<noteq> []"
  shows "resync_at (b @ y) = Some n"
proof -
  from assms obtain p where p: "colon_position (drop 1 b) = Some p" "n = p + 1"
    "crlf_position (take (p + 1) b) = None"
    by (auto simp: resync_at_def Let_def split: option.splits if_splits)
  have "p + 1 \<le> length b" using position_less [OF p(1)] by auto
  moreover have "drop 1 (b @ y) = drop 1 b @ y" using assms(2) by (cases b) auto
  ultimately show ?thesis
    using p by (simp add: resync_at_def position_append)
qed

lemma resync_at_append_None:
  assumes "resync_at b = None" "crlf_position b = Some e" "b \<noteq> []"
  shows "resync_at (b @ y) = None"
proof -
  have d: "drop 1 (b @ y) = drop 1 b @ y" using assms(3) by (cases b) auto
  have "\<exists>e. crlf_position (take (p + 1) (b @ y)) = Some e"
    if p: "colon_position (drop 1 b @ y) = Some p" for p
  proof (cases "colon_position (drop 1 b)")
    case None
    then have "length b \<le> p + 1" using p by (auto simp: position_append)
    then have "take (p + 1) (b @ y) = b @ take (p + 1 - length b) y" by simp
    then show ?thesis using crlf_position_append [OF assms(2)] by simp
  next
    case (Some q)
    then have q: "q = p" "p + 1 \<le> length b" using p position_less [OF Some]
      by (auto simp: position_append)
    with Some assms(1) show ?thesis by (auto simp: resync_at_def split: if_splits)
  qed
  then show ?thesis unfolding resync_at_def d by (auto simp: Let_def split: option.splits)
qed

lemma ascii_step_at_append:
  assumes "b \<noteq> []"
  shows "ascii_step_at b = Skip r \<Longrightarrow> ascii_step_at (b @ y) = Skip (r @ y)"
    "ascii_step_at b = Emit f r \<Longrightarrow> ascii_step_at (b @ y) = Emit f (r @ y)"
  using assms
  by (auto simp: ascii_step_at_def Let_def resync_at_append_Some resync_at_append_None
      crlf_position_append split: option.splits if_splits dest: resync_at_less crlf_position_less)

lemma ascii_step_append:
  shows "ascii_step b = Skip r \<Longrightarrow> ascii_step (b @ y) = Skip (r @ y)"
    "ascii_step b = Emit f r \<Longrightarrow> ascii_step (b @ y) = Emit f (r @ y)"
  by (auto simp: ascii_step_def position_append ascii_step_at_append split: option.splits
      dest!: position_less)

lemma ascii_frames_step:
  "ascii_step b = Stop r \<Longrightarrow> ascii_frames b = ([], r)"
  "ascii_step b = Skip r \<Longrightarrow> ascii_frames b = ascii_frames r"
  "ascii_step b = Emit f r \<Longrightarrow> ascii_frames b = (f # fst (ascii_frames r), snd (ascii_frames r))"
  by (subst ascii_frames.simps, simp add: case_prod_beta)+

lemma ascii_frames_junk:
  assumes "colon_position junk = None"
  shows "ascii_frames (junk @ y) = ascii_frames y"
proof -
  have "ascii_step (junk @ y) = ascii_step y"
    using assms by (simp add: ascii_step_def position_append split: option.splits)
  then show ?thesis
    by (subst (1 2) ascii_frames.simps) simp
qed

lemma ascii_frames_drop:
  "colon_position (take n y) = None \<Longrightarrow> ascii_frames (drop n y) = ascii_frames y"
  using ascii_frames_junk [of "take n y" "drop n y"] by simp

lemma ascii_frames_overlong:
  assumes "b \<noteq> []" "b ! 0 = 0x3A" "colon_position (drop 1 b) = None" "crlf_position b = None"
    "length b > MAX_ASCII_ADU_LEN"
  shows "ascii_frames (b @ y) = ascii_frames y"
proof -
  obtain r where b: "b = 0x3A # r" using assms(1,2) by (cases b) auto
  have c: "ascii_step (b @ y) = ascii_step_at (b @ y)" by (simp add: ascii_step_def b)
  have d: "colon_position (drop 1 (b @ y)) = map_option ((+) (length r)) (colon_position y)"
    using assms(3) by (simp add: b position_append)
  have late: "MAX_ASCII_ADU_LEN < e + 2" "length b \<le> e + 2" "drop (e + 2) (b @ y) = drop (e + 2 - length b) y"
    if "crlf_position (b @ y) = Some e" for e
    using crlf_position_late [OF assms(4) that] assms(5) by auto
  show ?thesis
  proof (cases "colon_position y")
    case None
    then have y: "ascii_frames y = ([], [])" by (intro ascii_frames_step) (simp add: ascii_step_def)
    have none: "colon_position (drop n y) = None" for n
      using None by (auto simp: position_None dest: in_set_dropD)
    show ?thesis
    proof (cases "crlf_position (b @ y)")
      case N: None
      then have "ascii_step (b @ y) = Stop []"
        using assms(5) None d by (simp add: c ascii_step_at_def resync_at_def)
      then show ?thesis by (simp add: ascii_frames_step y)
    next
      case (Some e)
      then have "ascii_step (b @ y) = Skip (drop (e + 2 - length b) y)"
        using late [OF Some] None d by (simp add: c ascii_step_at_def resync_at_def)
      moreover have "ascii_frames (drop (e + 2 - length b) y) = ([], [])"
        by (intro ascii_frames_step) (simp add: ascii_step_def none)
      ultimately show ?thesis by (simp add: ascii_frames_step y)
    qed
  next
    case (Some p)
    let ?n = "length r + p + 1"
    have n: "drop ?n (b @ y) = drop p y" by (simp add: b)
    show ?thesis
    proof (cases "crlf_position (take ?n (b @ y))")
      case None
      then have "ascii_step (b @ y) = Skip (drop p y)"
        using d Some n by (simp add: c ascii_step_at_def resync_at_def)
      then show ?thesis
        using ascii_frames_drop [OF position_take [OF Some]] by (simp add: ascii_frames_step)
    next
      case e: (Some e)
      then have full: "crlf_position (b @ y) = Some e" by (rule crlf_position_take)
      then have step: "ascii_step (b @ y) = Skip (drop (e + 2 - length b) y)"
        using late [OF full] d Some e by (simp add: c ascii_step_at_def resync_at_def)
      have "e + 2 \<le> ?n" using crlf_position_less [OF e] by simp
      then have "e + 2 - length b \<le> p" by (simp add: b)
      then have "take (e + 2 - length b) y = take (e + 2 - length b) (take p y)" by simp
      then have "colon_position (take (e + 2 - length b) y) = None"
        using position_take [OF Some] by (metis in_set_takeD position_None)
      then show ?thesis using step ascii_frames_drop by (simp add: ascii_frames_step)
    qed
  qed
qed

lemma ascii_frames_append:
  "ascii_frames (b @ y) =
     (fst (ascii_frames b) @ fst (ascii_frames (snd (ascii_frames b) @ y)),
      snd (ascii_frames (snd (ascii_frames b) @ y)))"
proof (induction b rule: ascii_frames.induct)
  case (1 b)
  show ?case
  proof (cases "ascii_step b")
    case (Skip r)
    with 1 show ?thesis by (simp add: ascii_frames_step ascii_step_append)
  next
    case (Emit f r)
    with 1 show ?thesis by (simp add: ascii_frames_step ascii_step_append)
  next
    case (Stop r)
    have "ascii_frames (b @ y) = ascii_frames (r @ y)"
    proof (cases "colon_position b")
      case None
      then show ?thesis using Stop by (simp add: ascii_step_def ascii_frames_junk)
    next
      case (Some start)
      let ?c = "drop start b"
      have b: "ascii_frames (b @ y) = ascii_frames (?c @ y)"
        using ascii_frames_junk [OF position_take [OF Some], of "?c @ y"]
        by (simp flip: append_assoc)
      have c: "?c \<noteq> []" "?c ! 0 = 0x3A" using position_less [OF Some] by auto
      from Stop Some have s: "resync_at ?c = None" "crlf_position ?c = None"
        "r = (if length ?c > MAX_ASCII_ADU_LEN then [] else ?c)"
        by (auto simp: ascii_step_def ascii_step_at_def Let_def split: option.splits if_splits)
      have "colon_position (drop 1 ?c) = None"
      proof (rule ccontr)
        assume "colon_position (drop 1 ?c) \<noteq> None"
        then obtain p where "colon_position (drop 1 ?c) = Some p" by blast
        with s(1) obtain e where "crlf_position (take (p + 1) ?c) = Some e"
          by (auto simp: resync_at_def Let_def split: if_splits)
        from crlf_position_take [OF this] s(2) show False by simp
      qed
      with c s show ?thesis by (simp add: b ascii_frames_overlong)
    qed
    then show ?thesis using Stop by (simp add: ascii_frames_step)
  qed
qed

section \<open>Codec laws\<close>

lemma nibble_cases:
  "(n :: byte) < 16 \<Longrightarrow> n \<in> {0, 1, 2, 3, 4, 5, 6, 7, 8, 9, 10, 11, 12, 13, 14, 15}"
proof -
  assume "n < 16"
  then have "unat n \<in> set [0..<16]" by (simp add: word_less_nat_alt)
  then have "n \<in> word_of_nat ` set [0..<16]" by (rule rev_image_eqI) simp
  also have "word_of_nat ` set [0..<16] =
      {0, 1, 2, 3, 4, 5, 6, 7, 8, 9, 10, 11, 12, 13, 14, 15 :: byte}"
    by (simp add: upt_conv_Cons)
  finally show ?thesis .
qed

lemma hex_digit_facts:
  assumes "n < 16"
  shows "hex_nibble (hex_digit n) = Ok n" "hex_digit n \<noteq> 0x3A" "hex_digit n \<noteq> 0x0D"
  using nibble_cases [OF assms] unfolding insert_iff empty_iff
  by (elim disjE FalseE; simp add: hex_digit_def hex_nibble_def)+

lemma nibble_bounds: "drop_bit 4 (b :: byte) < 16" "b AND 0x0F < 16"
proof -
  have "unat (drop_bit 4 b) = drop_bit 4 (unat b)" by (rule unat_drop_bit_eq)
  also have "\<dots> = unat b div 16" by (simp add: drop_bit_eq_div)
  finally have "unat (drop_bit 4 b) = unat b div 16" .
  then show "drop_bit 4 b < 16" using u8_bound [of b] by (simp add: word_less_nat_alt)
  have "b AND 0x0F \<le> 0x0F" by (rule word_and_le1)
  then show "b AND 0x0F < 16" by (simp add: word_le_nat_alt word_less_nat_alt)
qed

lemma nibble_join: "push_bit 4 (drop_bit 4 (b :: byte)) OR (b AND 0x0F) = b"
proof (rule bit_word_eqI)
  fix n assume "n < LENGTH(8)"
  have m: "(0x0F :: byte) = mask 4" by (simp add: mask_eq_exp_minus_1)
  show "bit (push_bit 4 (drop_bit 4 b) OR (b AND 0x0F)) n = bit b n"
    unfolding m using \<open>n < LENGTH(8)\<close> by (auto simp: bit_simps)
qed

lemma hex_pair_hex_byte: "hex_pair (hex_byte b) = Ok b"
  by (simp add: hex_pair_def hex_byte_def hex_digit_facts nibble_bounds nibble_join)

lemma length_hex_byte [simp]: "length (hex_byte b) = 2"
  by (simp add: hex_byte_def)

lemma length_hex_bytes: "length (concat (map hex_byte bs)) = 2 * length bs"
  by (induction bs) auto

lemma hex_bytes_clean: "x \<in> set (concat (map hex_byte bs)) \<Longrightarrow> x \<noteq> 0x3A \<and> x \<noteq> 0x0D"
  by (auto simp: hex_byte_def hex_digit_facts nibble_bounds)

lemma rmap_hex_pairs: "rmap hex_pair (as_chunks 2 (concat (map hex_byte bs))) = Ok bs"
proof -
  have "as_chunks 2 (concat (map hex_byte bs)) = map hex_byte bs"
    by (rule as_chunks_concat) auto
  moreover have "rmap hex_pair (map hex_byte bs) = Ok bs"
    by (induction bs) (auto simp: hex_pair_hex_byte)
  ultimately show ?thesis by simp
qed

lemma ascii_encode_Ok:
  "ascii_encode u pdu = Ok frame \<longleftrightarrow> pdu \<noteq> [] \<and> length pdu \<le> MAX_PDU_LEN \<and>
     frame = 0x3A # concat (map hex_byte (u # pdu @ [lrc (u # pdu)])) @ [0x0D, 0x0A]"
  by (auto simp: ascii_encode_def Let_def)

lemma ascii_decode_encode:
  assumes "ascii_encode u pdu = Ok frame"
  shows "ascii_decode frame = Ok (u, pdu)"
proof -
  let ?raw = "u # pdu @ [lrc (u # pdu)]"
  let ?hex = "concat (map hex_byte ?raw)"
  from assms have p: "pdu \<noteq> []" "length pdu \<le> 253" and f: "frame = 0x3A # ?hex @ [0x0D, 0x0A]"
    by (auto simp: ascii_encode_Ok MAX_PDU_LEN_def)
  have l: "length ?hex = 2 * (length pdu + 2)" unfolding length_hex_bytes by simp
  have s: "slice frame 1 (length frame - 2) = (Ok ?hex :: byte list pdu_result)"
    unfolding f by (simp add: slice_def del: concat.simps map_append list.map)
  have e: "ends_with frame [0x0D, 0x0A]"
    unfolding f ends_with_def by (simp del: concat.simps map_append list.map)
  have b: "9 \<le> length frame" "length frame \<le> 513"
    using p l by (cases pdu; simp add: f del: concat.simps map_append list.map)+
  have r: "\<not> length ?raw < 3" "last ?raw = lrc (u # pdu)" "butlast ?raw = u # pdu"
    using p(1) by (cases pdu; simp)+
  have g: "get_opt frame 0 = Some 0x3A" by (simp add: f get_opt_def)
  show ?thesis
    unfolding ascii_decode_def s g rbind.simps rmap_hex_pairs Let_def r
    using b p l e by (simp add: MAX_ASCII_ADU_LEN_def MAX_PDU_LEN_def r idx_def slice_from_def
        del: concat.simps map_append list.map)
qed

lemma hex_pair_no_panic: "length c = 2 \<Longrightarrow> hex_pair c \<noteq> Panic"
  by (auto simp: hex_pair_def hex_nibble_def result_simps split: if_splits)

lemma ascii_decode_no_panic: "ascii_decode frame \<noteq> Panic"
proof -
  have "rmap hex_pair (as_chunks 2 hex) \<noteq> Panic" for hex
    by (intro rmap_no_panic hex_pair_no_panic as_chunks_all_length)
  then show ?thesis
    by (auto simp: ascii_decode_def result_simps Let_def split: if_splits)
qed

lemma ascii_decode_bounds:
  "ascii_decode frame = Ok (u, pdu) \<Longrightarrow> 1 \<le> length pdu \<and> length pdu \<le> MAX_PDU_LEN"
  by (auto simp: ascii_decode_def result_simps Let_def Suc_le_eq split: if_splits)

lemma crlf_position_end:
  "\<forall>x\<in>set xs. x \<noteq> 0x0D \<Longrightarrow> crlf_position (xs @ [0x0D, 0x0A]) = Some (length xs)"
proof (induction xs)
  case (Cons x xs)
  then show ?case by (cases xs) auto
qed simp

lemma ascii_frames_Nil: "ascii_frames [] = ([], [])"
  by (rule ascii_frames_step) (simp add: ascii_step_def)

lemma ascii_frames_frame:
  assumes "ascii_encode u pdu = Ok frame"
  shows "ascii_frames frame = ([frame], [])"
proof -
  let ?hex = "concat (map hex_byte (u # pdu @ [lrc (u # pdu)]))"
  from assms have p: "length pdu \<le> 253" and f: "frame = (0x3A # ?hex) @ [0x0D, 0x0A]"
    by (auto simp: ascii_encode_Ok MAX_PDU_LEN_def)
  have l: "length ?hex = 2 * (length pdu + 2)" unfolding length_hex_bytes by simp
  have "x \<noteq> 0x0D" if "x \<in> set (0x3A # ?hex)" for x
  proof -
    from that have "x = 0x3A \<or> x \<in> set ?hex" by (simp only: list.set insert_iff)
    then show ?thesis using hex_bytes_clean by (elim disjE) (simp, blast)
  qed
  then have cr: "crlf_position frame = Some (length (0x3A # ?hex))"
    unfolding f by (intro crlf_position_end ballI)
  have "drop 1 frame = ?hex @ [0x0D, 0x0A]" by (simp add: f)
  then have "colon_position (drop 1 frame) = None"
    using hex_bytes_clean by (auto simp only: position_None set_append list.set Un_iff insert_iff
        empty_iff) auto
  then have "resync_at frame = None" by (simp add: resync_at_def)
  moreover have "length frame \<le> MAX_ASCII_ADU_LEN" "length frame = length (0x3A # ?hex) + 2"
    using p l unfolding f by (simp_all add: MAX_ASCII_ADU_LEN_def MAX_PDU_LEN_def
        del: concat.simps map_append list.map)
  ultimately have "ascii_step_at frame = Emit frame []"
    using cr by (simp add: ascii_step_at_def Let_def del: concat.simps map_append list.map)
  moreover have "ascii_step frame = ascii_step_at frame" by (simp add: ascii_step_def f)
  ultimately show ?thesis by (simp add: ascii_frames_step ascii_frames_Nil)
qed

definition ascii_push_ok :: "byte list \<Rightarrow> byte list \<Rightarrow> framer_result" where
  "ascii_push_ok buffer data = Ok (ascii_push buffer data)"

interpretation asc: framed_codec ascii_encode ascii_decode ascii_push_ok
proof
  fix k pdu
  show "is_ok (ascii_encode k pdu) \<longleftrightarrow> 1 \<le> length pdu \<and> length pdu \<le> MAX_PDU_LEN"
    by (cases pdu) (auto simp: ascii_encode_def Let_def)
next
  fix buf x y
  show "ascii_push_ok buf (x @ y) = rbind (ascii_push_ok buf x)
      (\<lambda>(fs, buf). rbind (ascii_push_ok buf y) (\<lambda>(gs, buf). Ok (fs @ gs, buf)))"
    using ascii_frames_append [of "buf @ x" y]
    by (simp add: ascii_push_ok_def ascii_push_def case_prod_beta)
qed (auto simp: ascii_decode_encode ascii_decode_no_panic ascii_push_ok_def ascii_push_def
    ascii_frames_Nil ascii_frames_frame dest: ascii_decode_bounds)

section \<open>Bounds of the framer\<close>

lemma ascii_step_Stop_bound: "ascii_step b = Stop r \<Longrightarrow> length r \<le> MAX_ASCII_ADU_LEN"
  by (auto simp: ascii_step_def ascii_step_at_def Let_def split: option.splits if_splits)

lemma ascii_frames_bounds:
  "length (snd (ascii_frames b)) \<le> MAX_ASCII_ADU_LEN \<and>
   (\<forall>f\<in>set (fst (ascii_frames b)). length f \<le> MAX_ASCII_ADU_LEN)"
proof (induction b rule: ascii_frames.induct)
  case (1 b)
  then show ?case
    by (cases "ascii_step b")
      (auto simp: ascii_frames_step dest: ascii_step_Stop_bound ascii_step_shorter)
qed

lemma lrc_single_byte:
  assumes "i < length d" "d ! i \<noteq> b"
  shows "lrc (d[i := b]) \<noteq> lrc d"
proof
  assume eq: "lrc (d[i := b]) = lrc d"
  have s: "foldl (+) z xs = z + sum_list xs" for z :: byte and xs
    by (induction xs arbitrary: z) (auto simp: add.assoc)
  have "sum_list (d[i := b]) = sum_list d"
    using eq unfolding lrc_def s by (simp flip: minus_eq_not_plus_1)
  moreover have "d = take i d @ d ! i # drop (Suc i) d" "d[i := b] = take i d @ b # drop (Suc i) d"
    using assms(1) by (simp_all add: id_take_nth_drop upd_conv_take_nth_drop)
  ultimately have "sum_list (take i d @ b # drop (Suc i) d) =
      sum_list (take i d @ d ! i # drop (Suc i) d)" by metis
  then show False using assms(2) by simp
qed

section \<open>Properties\<close>

text \<open>C28. ASCII frames written one after the other are recovered by the
  framer however the stream is cut into chunks, and each decodes to the unit and the PDU it was
  made of.\<close>

theorem ascii_stream_recovered:
  assumes "list_all2 (\<lambda>(u, p) f. ascii_encode u p = Ok f) msgs frames"
    "concat chunks = concat frames" "chunks \<noteq> []"
  shows "feed ascii_push_ok [] chunks = Ok (frames, []) \<and> map ascii_decode frames = map Ok msgs"
  using assms by (rule asc.feed_frames)

theorem ascii_stream_recovered_witness:
  "feed ascii_push_ok [] [[0x3A, 0x30, 0x31, 0x30], [0x37, 0x46, 0x38, 0x0D], [0x0A]] =
     Ok ([[0x3A, 0x30, 0x31, 0x30, 0x37, 0x46, 0x38, 0x0D, 0x0A]], [])"
proof -
  have "ascii_encode 1 [7] = Ok [0x3A, 0x30, 0x31, 0x30, 0x37, 0x46, 0x38, 0x0D, 0x0A]" by code_simp
  then have "list_all2 (\<lambda>(u, p) f. ascii_encode u p = Ok f)
      [(1, [7])] [[0x3A, 0x30, 0x31, 0x30, 0x37, 0x46, 0x38, 0x0D, 0x0A]]"
    by simp
  from ascii_stream_recovered [OF this] show ?thesis by (simp del: feed.simps)
qed

lemma crlf_position_no_cr: "0x0D \<notin> set xs \<Longrightarrow> crlf_position xs = None"
  by (induction xs rule: crlf_position.induct) auto

lemma ascii_frames_cut:
  assumes "0x3A \<notin> set part" "0x0D \<notin> set part"
  shows "ascii_frames (0x3A # part @ 0x3A # y) = ascii_frames (0x3A # y)"
proof -
  have "colon_position part = None" using assms(1) by (auto simp: position_None)
  then have "colon_position (part @ 0x3A # y) = Some (length part)" by (simp add: position_append)
  moreover have "crlf_position (0x3A # part) = None" using assms(2) by (intro crlf_position_no_cr) simp
  ultimately have "ascii_step (0x3A # part @ 0x3A # y) = Skip (0x3A # y)"
    by (simp add: ascii_step_def ascii_step_at_def resync_at_def)
  then show ?thesis by (rule ascii_frames_step(2))
qed

text \<open>The framer is robust on a noisy line: bytes without a colon
  in front of a frame, and a frame cut off by the colon of the next one, do not keep the next
  frame from being delivered; whatever arrives, neither the buffer nor a delivered frame is
  longer than the longest ASCII frame.\<close>

theorem ascii_framer_resynchronises:
  assumes "ascii_encode u p = Ok frame" "0x3A \<notin> set junk" "0x3A \<notin> set part" "0x0D \<notin> set part"
  shows "ascii_push [] (junk @ frame) = ([frame], []) \<and>
    ascii_push [] (0x3A # part @ frame) = ([frame], []) \<and>
    length (snd (ascii_push buf data)) \<le> MAX_ASCII_ADU_LEN \<and>
    (\<forall>f\<in>set (fst (ascii_push buf data)). length f \<le> MAX_ASCII_ADU_LEN)"
proof -
  have "colon_position junk = None" using assms(2) by (auto simp: position_None)
  moreover obtain y where "frame = 0x3A # y" using assms(1) by (auto simp: ascii_encode_Ok)
  ultimately show ?thesis
    using ascii_frames_frame [OF assms(1)] ascii_frames_junk [of junk frame]
      ascii_frames_cut [OF assms(3,4), of y] ascii_frames_bounds [of "buf @ data"]
    by (simp add: ascii_push_def)
qed

theorem ascii_framer_resynchronises_witness:
  "ascii_push [] (0x3A # [0x30, 0x31, 0x46] @ [0x3A, 0x30, 0x31, 0x30, 0x37, 0x46, 0x38, 0x0D, 0x0A]) =
     ([[0x3A, 0x30, 0x31, 0x30, 0x37, 0x46, 0x38, 0x0D, 0x0A]], [])"
proof -
  have "ascii_encode 1 [7] = Ok [0x3A, 0x30, 0x31, 0x30, 0x37, 0x46, 0x38, 0x0D, 0x0A]" by code_simp
  from ascii_framer_resynchronises [OF this, of "[]" "[0x30, 0x31, 0x46]" "[]" "[]"] show ?thesis
    by simp
qed

end
