(* ===== verification/Modbus_Transaction.thy ===== *)
theory Modbus_Transaction
  imports Modbus_Config Modbus_Value Modbus_Rtu Modbus_Tcp Modbus_Ascii
begin

unbundle bit_operations_syntax

text \<open>
  What the client and the server share: the dispatch over the three codecs
  (\<open>plugins/modbus/codec/mod.rs\<close>), the transaction records of \<open>plugins/modbus/client.rs\<close>
  with the bounded, sequence-numbered history both keep, and the byte link they talk over.

  The link stands for a subscription to the data plane: the events that will arrive, each with
  its arrival time in microseconds, and a clock. \<open>recv_timeout\<close> delivers the next event if
  it arrives within the wait and otherwise lets the wait pass; computation takes no time. What
  \<open>write\<close> and \<open>subscribe\<close> of the data plane answer is part of the link, so every behaviour
  of the transport is some link.
\<close>

section \<open>Codec dispatch\<close>

datatype adu_mode = AduRtu | AduAscii | AduTcp

definition encode_adu :: "adu_mode \<Rightarrow> byte \<Rightarrow> u16 \<Rightarrow> byte list \<Rightarrow> byte list pdu_result" where
  "encode_adu mode unit_id transaction_id pdu =
     (case mode of AduRtu \<Rightarrow> rtu_encode unit_id pdu
      | AduAscii \<Rightarrow> ascii_encode unit_id pdu
      | AduTcp \<Rightarrow> tcp_encode transaction_id unit_id pdu)"

fun adu_mode_of :: "modbus_mode \<Rightarrow> adu_mode" where
  "adu_mode_of ModeRtu = AduRtu"
| "adu_mode_of ModeAscii = AduAscii"
| "adu_mode_of ModeTcp = AduTcp"

lemma encode_adu_ok_iff:
  "is_ok (encode_adu mode u tid pdu) \<longleftrightarrow> 1 \<le> length pdu \<and> length pdu \<le> MAX_PDU_LEN"
  using rtu.encode_ok_iff [of u pdu] asc.encode_ok_iff [of u pdu] tcp.encode_ok_iff [of "(tid, u)" pdu]
  by (simp add: encode_adu_def split: adu_mode.splits)

lemma encode_adu_no_panic: "encode_adu mode u tid pdu \<noteq> Panic"
  by (auto simp: encode_adu_def rtu_encode_def ascii_encode_def tcp_encode_def Let_def
      split: adu_mode.splits)

section \<open>Transactions and their history\<close>

datatype transaction_status =
    Success | Broadcast | ModbusException | ProtocolError | MalformedResponse | Timeout
  | TransportError | Cancelled | FaultInjected

record transaction_result =
  timestamp_ms :: nat
  status :: transaction_status
  tr_function :: byte
  transaction_id :: "u16 option"
  unit_id :: byte
  latency_ms :: nat
  exception_code :: "byte option"
  raw_tx :: "byte list"
  raw_rx :: "byte list"
  response_pdu :: "byte list"
  semantic :: "semantic_response option"
  tr_message :: "message option"
  write_outcome_unknown :: bool
  attempt :: byte

record transaction_record =
  sequence :: u64
  result_of :: transaction_result

record history_batch =
  batch_records :: "transaction_record list"
  latest_sequence :: u64

record history_log =
  next_history_sequence :: u64
  history :: "transaction_record list"

definition empty_log :: history_log where
  "empty_log = \<lparr>next_history_sequence = 1, history = []\<rparr>"

definition HISTORY_LIMIT :: nat where "HISTORY_LIMIT = 1000"
definition SERVER_HISTORY_LIMIT :: nat where "SERVER_HISTORY_LIMIT = 1000"
definition HISTORY_QUERY_LIMIT :: nat where "HISTORY_QUERY_LIMIT = 500"

definition client_record :: "history_log \<Rightarrow> transaction_result \<Rightarrow> history_log" where
  "client_record l r =
     (let seq = next_history_sequence l;
          h = (if length (history l) \<ge> HISTORY_LIMIT then tl (history l) else history l)
      in \<lparr>next_history_sequence = seq + 1, history = h @ [\<lparr>sequence = seq, result_of = r\<rparr>]\<rparr>)"

definition record_server :: "history_log \<Rightarrow> transaction_result \<Rightarrow> history_log" where
  "record_server l r =
     (let seq = next_history_sequence l;
          h = (if length (history l) \<ge> SERVER_HISTORY_LIMIT then tl (history l) else history l)
      in \<lparr>next_history_sequence = seq + 1, history = h @ [\<lparr>sequence = seq, result_of = r\<rparr>]\<rparr>)"

definition clamp :: "nat \<Rightarrow> nat \<Rightarrow> nat \<Rightarrow> nat" where
  "clamp x lo hi = (if x < lo then lo else if x > hi then hi else x)"

definition history_since :: "history_log \<Rightarrow> u64 \<Rightarrow> nat \<Rightarrow> history_batch" where
  "history_since l after_sequence lim =
     (let latest = (if history l = [] then after_sequence else sequence (last (history l)));
          lim = clamp lim 1 HISTORY_QUERY_LIMIT;
          records = (if after_sequence = 0 then rev (take lim (rev (history l)))
                     else take lim (filter (\<lambda>r. sequence r > after_sequence) (history l)))
      in \<lparr>batch_records = records, latest_sequence = latest\<rparr>)"

definition last_result :: "history_log \<Rightarrow> transaction_result option" where
  "last_result l = (if history l = [] then None else Some (result_of (last (history l))))"

text \<open>A well-formed history: the numbers are consecutive and end just below the next one.\<close>

definition wf_log :: "nat \<Rightarrow> history_log \<Rightarrow> bool" where
  "wf_log limit l \<longleftrightarrow> length (history l) \<le> limit \<and>
     (\<forall>i<length (history l).
        unat (sequence (history l ! i)) + (length (history l) - i) = unat (next_history_sequence l)) \<and>
     length (history l) < unat (next_history_sequence l)"

text \<open>
  The contract of a history: recording numbers the entry, puts it last and keeps the newest
  entries. The client and the server have an implementation each.
\<close>

locale sequence_log =
  fixes put :: "history_log \<Rightarrow> transaction_result \<Rightarrow> history_log"
    and limit :: nat
  assumes put_next: "next_history_sequence (put l r) = next_history_sequence l + 1"
    and put_history: "length (history l) \<le> limit \<Longrightarrow> history (put l r) =
        drop (length (history l) + 1 - limit)
          (history l @ [\<lparr>sequence = next_history_sequence l, result_of = r\<rparr>])"
    and limit_pos: "0 < limit"
begin

lemma wf_log_empty: "wf_log limit empty_log"
  by (simp add: wf_log_def empty_log_def)

lemma put_history_wf:
  assumes "wf_log limit l"
  shows "history (put l r) = drop (length (history l) + 1 - limit)
     (history l @ [\<lparr>sequence = next_history_sequence l, result_of = r\<rparr>])"
  using put_history [of l r] assms by (auto simp: wf_log_def)

lemma put_length:
  assumes "wf_log limit l"
  shows "length (history (put l r)) = min (length (history l) + 1) limit"
  using put_history_wf [OF assms, of r] limit_pos assms by (auto simp: wf_log_def)

lemma wf_log_put:
  assumes wf: "wf_log limit l" and room: "unat (next_history_sequence l) + 1 < 2 ^ 64"
  shows "wf_log limit (put l r)"
proof -
  let ?h = "history l" and ?n = "next_history_sequence l"
  let ?d = "length ?h + 1 - limit" and ?full = "?h @ [\<lparr>sequence = ?n, result_of = r\<rparr>]"
  have next1: "unat (next_history_sequence (put l r)) = unat ?n + 1"
    using room by (simp add: put_next unat_word_ariths)
  have seq: "unat (sequence (?full ! i)) + (length ?full - i) = unat ?n + 1" if "i < length ?full" for i
  proof (cases "i < length ?h")
    case True
    then have "unat (sequence (?h ! i)) + (length ?h - i) = unat ?n" using wf by (simp add: wf_log_def)
    with True show ?thesis by (simp add: nth_append)
  next
    case False
    with that have "i = length ?h" by simp
    then show ?thesis by simp
  qed
  have "unat (sequence (drop ?d ?full ! i)) + (length (drop ?d ?full) - i) = unat ?n + 1"
    if "i < length (drop ?d ?full)" for i
  proof -
    have "?d + i < length ?full" using that unfolding length_drop by linarith
    moreover from this have "drop ?d ?full ! i = ?full ! (?d + i)" by (intro nth_drop) simp
    moreover have "length (drop ?d ?full) - i = length ?full - (?d + i)" unfolding length_drop by simp
    ultimately show ?thesis using seq [of "?d + i"] by presburger
  qed
  moreover have "length (drop ?d ?full) \<le> limit" unfolding length_drop by simp
  moreover have "length (drop ?d ?full) < unat ?n + 1"
  proof -
    have "length ?h < unat ?n" using wf by (simp add: wf_log_def)
    then show ?thesis unfolding length_drop length_append list.size by arith
  qed
  ultimately show ?thesis
    unfolding wf_log_def put_history_wf [OF wf] next1 by blast
qed

lemma put_last: "wf_log limit l \<Longrightarrow> last_result (put l r) = Some r"
  using limit_pos by (auto simp: last_result_def put_history_wf wf_log_def last_drop)

lemma wf_log_sorted:
  assumes "wf_log limit l"
  shows "sorted_wrt (\<lambda>a b. sequence a < sequence b) (history l)"
proof (subst sorted_wrt_iff_nth_less, intro allI impI)
  fix i j assume ij: "i < j" "j < length (history l)"
  then have "unat (sequence (history l ! i)) + (length (history l) - i) =
      unat (sequence (history l ! j)) + (length (history l) - j)"
    using assms by (simp add: wf_log_def)
  with ij show "sequence (history l ! i) < sequence (history l ! j)"
    by (simp add: word_less_nat_alt)
qed

lemma filter_after_split:
  assumes "sorted_wrt (\<lambda>a b. sequence a < sequence b) h"
    and "page = take n (filter (\<lambda>r. sequence r > a) h)" "page \<noteq> []"
  shows "filter (\<lambda>r. sequence r > a) h = page @ filter (\<lambda>r. sequence r > sequence (last page)) h"
proof -
  let ?f = "filter (\<lambda>r. sequence r > a) h" and ?c = "sequence (last page)"
  have sf: "sorted_wrt (\<lambda>a b. sequence a < sequence b) ?f" using assms(1) by (rule sorted_wrt_filter)
  have split: "?f = page @ drop n ?f" using assms(2) by simp
  have cmp: "\<forall>x\<in>set page. \<forall>y\<in>set (drop n ?f). sequence x < sequence y"
    using sf split by (metis sorted_wrt_append)
  have sp: "sorted_wrt (\<lambda>a b. sequence a < sequence b) page" using sf split by (metis sorted_wrt_append)
  have pb: "page = butlast page @ [last page]" using assms(3) by simp
  have "\<forall>x\<in>set (butlast page). sequence x < ?c"
    using sp pb by (metis sorted_wrt_append list.set_intros(1))
  then have le: "sequence x \<le> ?c" if "x \<in> set page" for x
    using that pb by (metis Un_iff empty_iff empty_set insert_iff less_imp_le list.simps(15) order_refl set_append)
  have ca: "a < ?c" using assms(2,3) last_in_set [OF assms(3)] in_set_takeD by fastforce
  have "filter (\<lambda>r. sequence r > ?c) h = filter (\<lambda>r. sequence r > ?c) ?f"
    using ca by (auto simp: filter_filter intro!: filter_cong)
  also have "\<dots> = filter (\<lambda>r. sequence r > ?c) page @ filter (\<lambda>r. sequence r > ?c) (drop n ?f)"
    by (subst split) simp
  also have "filter (\<lambda>r. sequence r > ?c) page = []" using le by (auto simp: filter_empty_conv leD)
  also have "filter (\<lambda>r. sequence r > ?c) (drop n ?f) = drop n ?f"
    using cmp last_in_set [OF assms(3)] by (auto simp: filter_id_conv)
  finally show ?thesis using split by simp
qed

end

interpretation clog: sequence_log client_record HISTORY_LIMIT
  by unfold_locales (auto simp: client_record_def Let_def HISTORY_LIMIT_def drop_Suc)

interpretation slog: sequence_log record_server SERVER_HISTORY_LIMIT
  by unfold_locales (auto simp: record_server_def Let_def SERVER_HISTORY_LIMIT_def drop_Suc)

section \<open>The link\<close>

datatype data_plane_event = Data "byte list" | Closed message

datatype recv_outcome = Got data_plane_event | TimedOut | Disconnected

record link =
  clock :: nat
  epoch_ms :: nat
  queue :: "(nat \<times> data_plane_event) list"
  sender_gone :: bool
  subscribe_error :: "message option"
  write_errors :: "message option list"
  sent :: "byte list list"

definition recv_timeout :: "link \<Rightarrow> nat \<Rightarrow> recv_outcome \<times> link" where
  "recv_timeout lk wait =
     (case queue lk of
        [] \<Rightarrow> if sender_gone lk then (Disconnected, lk)
              else (TimedOut, lk\<lparr>clock := clock lk + wait\<rparr>)
      | (t, e) # q \<Rightarrow>
          if t \<le> clock lk + wait then (Got e, lk\<lparr>clock := max (clock lk) t, queue := q\<rparr>)
          else (TimedOut, lk\<lparr>clock := clock lk + wait\<rparr>))"

text \<open>\<open>DataPlaneHandle::write\<close>: the bytes are handed over, or the next error is returned.\<close>

definition link_write :: "link \<Rightarrow> byte list \<Rightarrow> message option \<times> link" where
  "link_write lk data =
     (let err = (case write_errors lk of [] \<Rightarrow> None | e # _ \<Rightarrow> e);
          lk = lk\<lparr>write_errors := tl (write_errors lk)\<rparr>
      in (err, if err = None then lk\<lparr>sent := sent lk @ [data]\<rparr> else lk))"

definition wall_ms :: "link \<Rightarrow> nat" where
  "wall_ms lk = epoch_ms lk + clock lk div 1000"

definition elapsed_ms :: "link \<Rightarrow> nat \<Rightarrow> nat" where
  "elapsed_ms lk started = (clock lk - started) div 1000"

lemma recv_timeout_facts:
  assumes "recv_timeout lk w = (out, lk')"
  shows "clock lk \<le> clock lk'" "clock lk' \<le> clock lk + w" "sent lk' = sent lk"
    "epoch_ms lk' = epoch_ms lk" "sender_gone lk' = sender_gone lk" "write_errors lk' = write_errors lk"
    "out = Got e \<Longrightarrow> length (queue lk') < length (queue lk)"
    "length (queue lk') \<le> length (queue lk)"
    "out = TimedOut \<Longrightarrow> queue lk' = queue lk \<and> clock lk' = clock lk + w"
  using assms by (auto simp: recv_timeout_def split: list.splits if_splits prod.splits)

lemma link_write_facts:
  assumes "link_write lk d = (err, lk')"
  shows "clock lk' = clock lk" "queue lk' = queue lk" "sender_gone lk' = sender_gone lk"
    "epoch_ms lk' = epoch_ms lk" "sent lk' = (if err = None then sent lk @ [d] else sent lk)"
  using assms by (auto simp: link_write_def Let_def split: if_splits)

section \<open>Properties\<close>

text \<open>The history of the client and that of the server keep at most
  their 1000 newest entries, numbered consecutively up to the last number given out, and the newest
  entry is the transaction just recorded, as long as the 64-bit counter has not wrapped.\<close>

theorem history_record_invariant:
  assumes "wf_log HISTORY_LIMIT l" "wf_log SERVER_HISTORY_LIMIT s"
    "unat (next_history_sequence l) + 1 < 2 ^ 64" "unat (next_history_sequence s) + 1 < 2 ^ 64"
  shows "wf_log HISTORY_LIMIT (client_record l r) \<and> last_result (client_record l r) = Some r \<and>
    length (history (client_record l r)) = min (length (history l) + 1) 1000 \<and>
    wf_log SERVER_HISTORY_LIMIT (record_server s r) \<and> last_result (record_server s r) = Some r \<and>
    length (history (record_server s r)) = min (length (history s) + 1) 1000"
  using clog.wf_log_put [OF assms(1,3)] clog.put_last [OF assms(1)] clog.put_length [OF assms(1)]
    slog.wf_log_put [OF assms(2,4)] slog.put_last [OF assms(2)] slog.put_length [OF assms(2)]
  by (simp add: HISTORY_LIMIT_def SERVER_HISTORY_LIMIT_def)

text \<open>A link and a finished transaction for the concrete instances.\<close>

definition demo_link :: "(nat \<times> data_plane_event) list \<Rightarrow> link" where
  "demo_link q = \<lparr>clock = 0, epoch_ms = 0, queue = q, sender_gone = False, subscribe_error = None,
     write_errors = [], sent = []\<rparr>"

definition demo_result :: transaction_result where
  "demo_result = \<lparr>timestamp_ms = 0, status = Success, tr_function = 3, transaction_id = None,
     unit_id = 1, latency_ms = 0, exception_code = None, raw_tx = [], raw_rx = [], response_pdu = [],
     semantic = None, tr_message = None, write_outcome_unknown = False, attempt = 0\<rparr>"

theorem history_record_invariant_witness:
  "wf_log HISTORY_LIMIT (client_record empty_log demo_result) \<and>
   last_result (client_record empty_log demo_result) = Some demo_result \<and>
   length (history (record_server empty_log demo_result)) = 1"
proof -
  have "wf_log HISTORY_LIMIT empty_log" "wf_log SERVER_HISTORY_LIMIT empty_log"
    "unat (next_history_sequence empty_log) + 1 < 2 ^ 64"
    by (simp_all add: wf_log_def empty_log_def)
  from history_record_invariant [OF this this(3), of demo_result] show ?thesis
    by (simp add: empty_log_def)
qed

text \<open>Reading the history page by page misses nothing and repeats nothing: the
  entries after a cursor are those of the page followed by the entries after the last number
  of the page, and a page has at most 500 entries.\<close>

theorem history_pages:
  assumes "wf_log HISTORY_LIMIT l" "after \<noteq> 0"
    "page = batch_records (history_since l after lim)" "page \<noteq> []"
  shows "filter (\<lambda>r. sequence r > after) (history l) =
      page @ filter (\<lambda>r. sequence r > sequence (last page)) (history l) \<and> length page \<le> 500"
proof -
  have page: "page = take (clamp lim 1 HISTORY_QUERY_LIMIT) (filter (\<lambda>r. sequence r > after) (history l))"
    using assms(2,3) by (simp add: history_since_def Let_def)
  then have "length page \<le> 500" by (auto simp: clamp_def HISTORY_QUERY_LIMIT_def min_def)
  with clog.filter_after_split [OF clog.wf_log_sorted [OF assms(1)] page assms(4)] show ?thesis by simp
qed

theorem history_pages_witness:
  "(let l = client_record (client_record (client_record empty_log demo_result) demo_result) demo_result;
        page = batch_records (history_since l 1 1)
    in map sequence page = [2] \<and>
       filter (\<lambda>r. sequence r > 1) (history l) = page @ filter (\<lambda>r. sequence r > 2) (history l))"
proof -
  let ?l = "client_record (client_record (client_record empty_log demo_result) demo_result) demo_result"
  let ?e = "\<lambda>n. \<lparr>sequence = n, result_of = demo_result\<rparr>"
  have l: "?l = \<lparr>next_history_sequence = 4, history = [?e 1, ?e 2, ?e 3]\<rparr>"
    by (simp add: client_record_def empty_log_def HISTORY_LIMIT_def Let_def)
  have page: "batch_records (history_since ?l 1 1) = [?e 2]"
    unfolding l by (simp add: history_since_def Let_def clamp_def HISTORY_QUERY_LIMIT_def)
  have wf: "wf_log HISTORY_LIMIT ?l"
    unfolding l by (auto simp: wf_log_def HISTORY_LIMIT_def less_Suc_eq)
  from history_pages [OF wf _ page [symmetric]] show ?thesis
    using page by (simp add: Let_def)
qed

end
