(* ===== verification/Modbus_Client.thy ===== *)
theory Modbus_Client
  imports Modbus_Transaction
begin

unbundle bit_operations_syntax

text \<open>
  The transaction engine of the client, \<open>plugins/modbus/client.rs\<close>: one request is checked,
  encoded, written to the link, and the response is received by the loop of the transport, decoded
  and validated; failed attempts are repeated by \<open>execute\<close>. The mutexes serialise transactions,
  so a client is a record and an operation returns the new client, the link after it and its
  result; \<open>Panic\<close> stands for a failed \<open>expect\<close>.
\<close>

section \<open>Receiving\<close>

datatype receive_error =
    RecvTimeout
  | RecvTransport message
  | RecvMalformed message "byte list"
  | RecvProtocol message "byte list"

type_synonym received = "(byte list \<times> byte list, receive_error) result \<times> link"

definition stream_closed :: message where
  "stream_closed = Msg ''transport event stream closed''"

definition recv_until :: "link \<Rightarrow> nat \<Rightarrow> (data_plane_event, receive_error) result \<times> link" where
  "recv_until lk deadline =
     (let remaining = deadline - clock lk in
      if remaining = 0 then (Err RecvTimeout, lk)
      else case recv_timeout lk remaining of
        (Got e, lk) \<Rightarrow> (Ok e, lk)
      | (TimedOut, lk) \<Rightarrow> (Err RecvTimeout, lk)
      | (Disconnected, lk) \<Rightarrow> (Err (RecvTransport stream_closed), lk))"

fun pick_tcp :: "u16 \<Rightarrow> byte \<Rightarrow> byte list list \<Rightarrow> ((byte list \<times> byte list) option, receive_error) result" where
  "pick_tcp tid unit [] = Ok None"
| "pick_tcp tid unit (frame # frames) =
     rbind (map_err (\<lambda>error. RecvMalformed error frame) (tcp_decode frame)) (\<lambda>(t, u, pdu).
       if t \<noteq> tid then pick_tcp tid unit frames
       else if u \<noteq> unit
       then Err (RecvProtocol (Fmt ''unit id mismatch: expected {unit_id}, got {unit}'' []
              [unat unit, unat u]) frame)
       else Ok (Some (frame, pdu)))"

fun pick_ascii :: "byte \<Rightarrow> byte list list \<Rightarrow> ((byte list \<times> byte list) option, receive_error) result" where
  "pick_ascii unit [] = Ok None"
| "pick_ascii unit (frame # frames) =
     rbind (map_err (\<lambda>error. RecvMalformed error frame) (ascii_decode frame)) (\<lambda>(u, pdu).
       if u \<noteq> unit then pick_ascii unit frames else Ok (Some (frame, pdu)))"

lemma recv_until_shorter: "recv_until lk d = (Ok e, lk') \<Longrightarrow> length (queue lk') < length (queue lk)"
  by (auto simp: recv_until_def Let_def split: if_splits prod.splits recv_outcome.splits
      dest: recv_timeout_facts(7))

function receive_tcp :: "link \<Rightarrow> nat \<Rightarrow> u16 \<Rightarrow> byte \<Rightarrow> byte list \<Rightarrow> received" where
  "receive_tcp lk deadline tid unit framer =
     (case recv_until lk deadline of
        (Err e, lk') \<Rightarrow> (Err e, lk')
      | (Panic, lk') \<Rightarrow> (Panic, lk')
      | (Ok (Closed reason), lk') \<Rightarrow> (Err (RecvTransport reason), lk')
      | (Ok (Data data), lk') \<Rightarrow>
          (case tcp_push framer data of
             Err error \<Rightarrow> (Err (RecvMalformed error data), lk')
           | Panic \<Rightarrow> (Panic, lk')
           | Ok (frames, framer') \<Rightarrow>
               (case pick_tcp tid unit frames of
                  Err e \<Rightarrow> (Err e, lk')
                | Panic \<Rightarrow> (Panic, lk')
                | Ok (Some r) \<Rightarrow> (Ok r, lk')
                | Ok None \<Rightarrow> receive_tcp lk' deadline tid unit framer')))"
  by pat_completeness auto
termination
  by (relation "measure (\<lambda>(lk, _). length (queue lk))") (auto dest: recv_until_shorter [OF sym])

function receive_ascii :: "link \<Rightarrow> nat \<Rightarrow> byte \<Rightarrow> byte list \<Rightarrow> received" where
  "receive_ascii lk deadline unit framer =
     (case recv_until lk deadline of
        (Err e, lk') \<Rightarrow> (Err e, lk')
      | (Panic, lk') \<Rightarrow> (Panic, lk')
      | (Ok (Closed reason), lk') \<Rightarrow> (Err (RecvTransport reason), lk')
      | (Ok (Data data), lk') \<Rightarrow>
          (let (frames, framer') = ascii_push framer data in
           case pick_ascii unit frames of
             Err e \<Rightarrow> (Err e, lk')
           | Panic \<Rightarrow> (Panic, lk')
           | Ok (Some r) \<Rightarrow> (Ok r, lk')
           | Ok None \<Rightarrow> receive_ascii lk' deadline unit framer'))"
  by pat_completeness auto
termination
  by (relation "measure (\<lambda>(lk, _). length (queue lk))") (auto dest: recv_until_shorter [OF sym])

text \<open>
  The RTU loop: after the character gap it waits for the rest of the frame gap. \<open>rtu_tail\<close> is
  what it does then: \<open>None\<close> is \<open>continue\<close>, with the collected bytes dropped.
\<close>

definition rtu_frame_result ::
    "byte list \<Rightarrow> byte \<Rightarrow> ((byte list \<times> byte list) option, receive_error) result" where
  "rtu_frame_result frame unit =
     rbind (map_err (\<lambda>error. RecvMalformed error frame) (rtu_decode frame)) (\<lambda>(u, pdu).
       if u \<noteq> unit then Ok None else Ok (Some (frame, pdu)))"

definition rtu_tail ::
    "link \<Rightarrow> nat \<Rightarrow> nat \<Rightarrow> nat \<Rightarrow> byte \<Rightarrow> byte list \<Rightarrow>
     ((byte list \<times> byte list) option, receive_error) result \<times> link" where
  "rtu_tail lk deadline inter_char_gap frame_gap unit raw =
     (let tail = frame_gap - inter_char_gap; remaining = deadline - clock lk in
      if remaining < tail
      then (Err (RecvMalformed
             (Msg ''RTU response did not reach the required t3.5 frame boundary before timeout'') raw), lk)
      else case recv_timeout lk tail of
        (Got (Data data), lk) \<Rightarrow>
          (Err (RecvMalformed
             (Msg ''RTU inter-character silence exceeded t1.5 before frame completion'') (raw @ data)), lk)
      | (Got (Closed reason), lk) \<Rightarrow> (Err (RecvTransport reason), lk)
      | (Disconnected, lk) \<Rightarrow> (Err (RecvTransport stream_closed), lk)
      | (TimedOut, lk) \<Rightarrow> (rtu_frame_result raw unit, lk))"

lemma rtu_tail_queue: "rtu_tail lk d i f u raw = (Ok None, lk') \<Longrightarrow> queue lk' = queue lk"
  by (auto simp: rtu_tail_def Let_def split: if_splits prod.splits recv_outcome.splits
      data_plane_event.splits dest: recv_timeout_facts(9))

function receive_rtu :: "link \<Rightarrow> nat \<Rightarrow> nat \<Rightarrow> nat \<Rightarrow> byte \<Rightarrow> byte list \<Rightarrow> received" where
  "receive_rtu lk deadline inter_char_gap frame_gap unit raw =
     (let remaining = deadline - clock lk in
      if remaining = 0 then (Err RecvTimeout, lk)
      else
        let wait = (if raw = [] then remaining else min remaining inter_char_gap) in
        case recv_timeout lk wait of
          (Got (Closed reason), lk') \<Rightarrow> (Err (RecvTransport reason), lk')
        | (Got (Data data), lk') \<Rightarrow>
            receive_rtu lk' deadline inter_char_gap frame_gap unit (raw @ data)
        | (Disconnected, lk') \<Rightarrow> (Err (RecvTransport stream_closed), lk')
        | (TimedOut, lk') \<Rightarrow>
            if raw = [] then (Err RecvTimeout, lk')
            else case rtu_tail lk' deadline inter_char_gap frame_gap unit raw of
              (Err e, lk'') \<Rightarrow> (Err e, lk'')
            | (Panic, lk'') \<Rightarrow> (Panic, lk'')
            | (Ok (Some r), lk'') \<Rightarrow> (Ok r, lk'')
            | (Ok None, lk'') \<Rightarrow> receive_rtu lk'' deadline inter_char_gap frame_gap unit [])"
  by pat_completeness auto
termination
proof (relation "measure (\<lambda>(lk, _, _, _, _, raw). 2 * length (queue lk) + (if raw = [] then 0 else 1))",
    goal_cases)
  case 2
  then show ?case by (force dest: recv_timeout_facts(7) [OF sym])
next
  case 3
  then show ?case by (auto dest!: rtu_tail_queue [OF sym] recv_timeout_facts(9) [OF sym])
qed simp

declare receive_tcp.simps [simp del] receive_ascii.simps [simp del] receive_rtu.simps [simp del]

section \<open>What a receive loop guarantees\<close>

text \<open>
  The contract the transaction engine relies on, whatever the transport: the loop ends without a
  panic and by the deadline, writes nothing, and what it returns is a frame from the addressed
  unit with the PDU it carries.
\<close>

locale receiver =
  fixes receive :: "link \<Rightarrow> nat \<Rightarrow> received"
    and carries :: "byte list \<Rightarrow> byte list \<Rightarrow> bool"
  assumes receive_no_panic: "fst (receive lk d) \<noteq> Panic"
    and receive_sent: "sent (snd (receive lk d)) = sent lk"
    and receive_clock: "clock lk \<le> clock (snd (receive lk d)) \<and>
        clock (snd (receive lk d)) \<le> max (clock lk) d"
    and receive_carries: "fst (receive lk d) = Ok (frame, pdu) \<Longrightarrow> carries frame pdu"
begin

lemma receive_in_time:
  "receive lk (clock lk + t) = (out, lk') \<Longrightarrow> clock lk' \<le> clock lk + t \<and> clock lk \<le> clock lk'"
  using receive_clock [of lk "clock lk + t"] by simp

end

lemma recv_until_facts:
  assumes "recv_until lk d = (out, lk')"
  shows "out \<noteq> Panic" "sent lk' = sent lk" "clock lk \<le> clock lk'" "clock lk' \<le> max (clock lk) d"
  using assms recv_timeout_facts(1,2,3) [of lk "d - clock lk"]
  by (fastforce simp: recv_until_def Let_def split: if_splits prod.splits recv_outcome.splits)+

lemma pick_tcp_facts:
  "pick_tcp tid u fs \<noteq> Panic"
  "pick_tcp tid u fs = Ok (Some (f, p)) \<Longrightarrow> tcp_decode f = Ok (tid, u, p)"
  by (induction tid u fs rule: pick_tcp.induct)
    (auto simp: result_simps tcp_decode_no_panic split: if_splits prod.splits)

lemma pick_ascii_facts:
  "pick_ascii u fs \<noteq> Panic"
  "pick_ascii u fs = Ok (Some (f, p)) \<Longrightarrow> ascii_decode f = Ok (u, p)"
  by (induction u fs rule: pick_ascii.induct)
    (auto simp: result_simps ascii_decode_no_panic split: if_splits prod.splits)

lemma rtu_frame_result_facts:
  "rtu_frame_result f u \<noteq> Panic"
  "rtu_frame_result f u = Ok (Some (g, p)) \<Longrightarrow> g = f \<and> rtu_decode f = Ok (u, p)"
  using rtu.decode_no_panic [of f]
  by (auto simp: rtu_frame_result_def result_simps split: if_splits prod.splits)

text \<open>One invariant for the three loops, in terms of the result and the link they return.\<close>

definition rx_ok :: "(byte list \<Rightarrow> byte list \<Rightarrow> bool) \<Rightarrow> link \<Rightarrow> nat \<Rightarrow> received \<Rightarrow> bool" where
  "rx_ok carries lk d r \<longleftrightarrow> fst r \<noteq> Panic \<and> sent (snd r) = sent lk \<and> clock lk \<le> clock (snd r) \<and>
     clock (snd r) \<le> max (clock lk) d \<and> (\<forall>f p. fst r = Ok (f, p) \<longrightarrow> carries f p)"

lemma rx_ok_step:
  assumes "rx_ok P lk1 d r" "sent lk1 = sent lk" "clock lk \<le> clock lk1" "clock lk1 \<le> max (clock lk) d"
  shows "rx_ok P lk d r"
  using assms by (auto simp: rx_ok_def max_def split: if_splits)

lemma rx_ok_here:
  assumes "sent lk1 = sent lk" "clock lk \<le> clock lk1" "clock lk1 \<le> max (clock lk) d"
    "out \<noteq> Panic" "\<And>f p. out = Ok (f, p) \<Longrightarrow> P f p"
  shows "rx_ok P lk d (out, lk1)"
  using assms by (simp add: rx_ok_def)

lemma receive_tcp_ok: "rx_ok (\<lambda>f p. tcp_decode f = Ok (tid, u, p)) lk d (receive_tcp lk d tid u framer)"
proof (induction lk d tid u framer rule: receive_tcp.induct)
  case (1 lk d tid u framer)
  let ?P = "\<lambda>f p. tcp_decode f = Ok (tid, u, p)"
  obtain out lk1 where r: "recv_until lk d = (out, lk1)" by fastforce
  note f = recv_until_facts [OF r]
  show ?case
  proof (cases out)
    case (Ok e)
    show ?thesis
    proof (cases e)
      case (Data data)
      show ?thesis
      proof (cases "tcp_push framer data")
        case p: (Ok ff)
        obtain frames framer' where ff: "ff = (frames, framer')" by fastforce
        show ?thesis
        proof (cases "pick_tcp tid u frames")
          case q: (Ok o')
          show ?thesis
          proof (cases o')
            case None
            have "rx_ok ?P lk1 d (receive_tcp lk1 d tid u framer')"
              using "1.IH" r Ok Data p ff q None by simp
            then show ?thesis
              using f Ok Data p ff q None r
              by (subst receive_tcp.simps) (simp add: rx_ok_step)
          next
            case (Some fp)
            then show ?thesis
              using f Ok Data p ff q r pick_tcp_facts(2) [of tid u frames]
              by (subst receive_tcp.simps) (auto intro!: rx_ok_here)
          qed
        qed (use f r Ok Data p ff pick_tcp_facts(1) [of tid u frames] in
            \<open>subst receive_tcp.simps, auto intro!: rx_ok_here\<close>)+
      qed (use f r Ok Data tcp_frames_no_panic [of "framer @ data"] in
          \<open>subst receive_tcp.simps, auto simp: tcp_push_def intro!: rx_ok_here\<close>)+
    qed (use f r Ok in \<open>subst receive_tcp.simps, auto intro!: rx_ok_here\<close>)
  qed (use f r in \<open>subst receive_tcp.simps, auto intro!: rx_ok_here\<close>)+
qed

lemma receive_ascii_ok: "rx_ok (\<lambda>f p. ascii_decode f = Ok (u, p)) lk d (receive_ascii lk d u framer)"
proof (induction lk d u framer rule: receive_ascii.induct)
  case (1 lk d u framer)
  let ?P = "\<lambda>f p. ascii_decode f = Ok (u, p)"
  obtain out lk1 where r: "recv_until lk d = (out, lk1)" by fastforce
  note f = recv_until_facts [OF r]
  show ?case
  proof (cases out)
    case (Ok e)
    show ?thesis
    proof (cases e)
      case (Data data)
      obtain frames framer' where ff: "ascii_push framer data = (frames, framer')" by fastforce
      show ?thesis
      proof (cases "pick_ascii u frames")
        case q: (Ok o')
        show ?thesis
        proof (cases o')
          case None
          have "rx_ok ?P lk1 d (receive_ascii lk1 d u framer')"
            using "1.IH" r Ok Data ff q None by simp
          then show ?thesis
            using f Ok Data ff q None r by (subst receive_ascii.simps) (simp add: rx_ok_step)
        next
          case (Some fp)
          then show ?thesis
            using f Ok Data ff q r pick_ascii_facts(2) [of u frames]
            by (subst receive_ascii.simps) (auto intro!: rx_ok_here)
        qed
      qed (use f r Ok Data ff pick_ascii_facts(1) [of u frames] in
          \<open>subst receive_ascii.simps, auto intro!: rx_ok_here\<close>)+
    qed (use f r Ok in \<open>subst receive_ascii.simps, auto intro!: rx_ok_here\<close>)
  qed (use f r in \<open>subst receive_ascii.simps, auto intro!: rx_ok_here\<close>)+
qed

lemma rtu_tail_facts:
  assumes "rtu_tail lk d i fg u raw = (out, lk')" "clock lk \<le> d"
  shows "out \<noteq> Panic" "sent lk' = sent lk" "clock lk \<le> clock lk'" "clock lk' \<le> d"
    "out = Ok (Some (f, p)) \<Longrightarrow> f = raw \<and> rtu_decode f = Ok (u, p)"
proof -
  have "out \<noteq> Panic \<and> sent lk' = sent lk \<and> clock lk \<le> clock lk' \<and> clock lk' \<le> d \<and>
      (out = Ok (Some (f, p)) \<longrightarrow> f = raw \<and> rtu_decode f = Ok (u, p))"
  proof (cases "d - clock lk < fg - i")
    case True
    with assms show ?thesis by (auto simp: rtu_tail_def Let_def)
  next
    case False
    obtain o1 lk1 where r: "recv_timeout lk (fg - i) = (o1, lk1)" by fastforce
    note fs = recv_timeout_facts(1,2,3) [OF r]
    have "clock lk1 \<le> d" using fs(2) False assms(2) by linarith
    then show ?thesis
      using assms(1) fs r False rtu_frame_result_facts [of raw u]
      by (auto simp: rtu_tail_def Let_def split: recv_outcome.splits data_plane_event.splits)
  qed
  then show "out \<noteq> Panic" "sent lk' = sent lk" "clock lk \<le> clock lk'" "clock lk' \<le> d"
    "out = Ok (Some (f, p)) \<Longrightarrow> f = raw \<and> rtu_decode f = Ok (u, p)"
    by blast+
qed

lemma receive_rtu_ok:
  "rx_ok (\<lambda>f p. rtu_decode f = Ok (u, p)) lk d (receive_rtu lk d i fg u raw)"
proof (induction lk d i fg u raw rule: receive_rtu.induct)
  case (1 lk d i fg u raw)
  let ?P = "\<lambda>f p. rtu_decode f = Ok (u, p)"
  let ?w = "if raw = [] then d - clock lk else min (d - clock lk) i"
  show ?case
  proof (cases "d - clock lk = 0")
    case True
    then show ?thesis by (subst receive_rtu.simps) (auto intro!: rx_ok_here)
  next
    case False
    obtain out lk1 where r: "recv_timeout lk ?w = (out, lk1)" by fastforce
    have f: "sent lk1 = sent lk" "clock lk \<le> clock lk1" "clock lk1 \<le> max (clock lk) d"
      using recv_timeout_facts(1,2,3) [OF r] False by (auto split: if_splits)
    show ?thesis
    proof (cases out)
      case (Got e)
      show ?thesis
      proof (cases e)
        case (Data data)
        have "rx_ok ?P lk1 d (receive_rtu lk1 d i fg u (raw @ data))"
          using "1.IH"(1) False r Got Data by simp
        then show ?thesis
          using f False r Got Data by (subst receive_rtu.simps) (simp add: Let_def rx_ok_step)
      qed (use f False r Got in \<open>subst receive_rtu.simps, auto simp: Let_def intro!: rx_ok_here\<close>)
    next
      case TimedOut
      show ?thesis
      proof (cases "raw = []")
        case raw: False
        have le: "clock lk1 \<le> d" using f False by simp
        obtain o2 lk2 where t: "rtu_tail lk1 d i fg u raw = (o2, lk2)" by fastforce
        note tf = rtu_tail_facts [OF t le]
        have g: "sent lk2 = sent lk" "clock lk \<le> clock lk2" "clock lk2 \<le> max (clock lk) d"
          using f tf(2,3,4) by auto
        show ?thesis
        proof (cases o2)
          case (Ok o3)
          show ?thesis
          proof (cases o3)
            case None
            have "rx_ok ?P lk2 d (receive_rtu lk2 d i fg u [])"
              using "1.IH"(2) False r TimedOut raw t Ok None by simp
            then show ?thesis
              using g False r TimedOut raw t Ok None
              by (subst receive_rtu.simps) (simp add: Let_def rx_ok_step)
          next
            case (Some fp)
            then show ?thesis
              using g tf(5) False r TimedOut raw t Ok
              by (subst receive_rtu.simps) (auto simp: Let_def intro!: rx_ok_here)
          qed
        qed (use g tf(1) False r TimedOut raw t in
            \<open>subst receive_rtu.simps, auto simp: Let_def intro!: rx_ok_here\<close>)+
      qed (use f False r TimedOut in \<open>subst receive_rtu.simps, auto simp: Let_def intro!: rx_ok_here\<close>)
    qed (use f False r in \<open>subst receive_rtu.simps, auto simp: Let_def intro!: rx_ok_here\<close>)
  qed
qed

lemma receiver_of_rx_ok: "(\<And>lk d. rx_ok P lk d (r lk d)) \<Longrightarrow> receiver r P"
  by unfold_locales (auto simp: rx_ok_def)

interpretation tcp_rx: receiver "\<lambda>lk d. receive_tcp lk d tid u []" "\<lambda>f p. tcp_decode f = Ok (tid, u, p)"
  for tid u
  by (rule receiver_of_rx_ok) (rule receive_tcp_ok)

interpretation ascii_rx: receiver "\<lambda>lk d. receive_ascii lk d u []" "\<lambda>f p. ascii_decode f = Ok (u, p)"
  for u
  by (rule receiver_of_rx_ok) (rule receive_ascii_ok)

interpretation rtu_rx: receiver "\<lambda>lk d. receive_rtu lk d i g u []" "\<lambda>f p. rtu_decode f = Ok (u, p)"
  for i g u
  by (rule receiver_of_rx_ok) (rule receive_rtu_ok)

section \<open>One attempt\<close>

record modbus_client =
  client_cfg :: validated_modbus_config
  runtime_open :: bool
  subscribed :: bool
  next_transaction_id :: u16
  client_log :: history_log

definition new_client :: "validated_modbus_config \<Rightarrow> modbus_client pdu_result" where
  "new_client cfg =
     (if config_client cfg = None then Err (Msg ''ModbusClient requires client runtime configuration'')
      else Ok \<lparr>client_cfg = cfg, runtime_open = True, subscribed = False, next_transaction_id = 1,
        client_log = empty_log\<rparr>)"

record transaction_failure =
  tf_status :: transaction_status
  tf_function :: byte
  tf_transaction_id :: "u16 option"
  tf_unit_id :: byte
  tf_started :: nat
  tf_raw_tx :: "byte list"
  tf_raw_rx :: "byte list"
  tf_message :: message
  tf_unknown :: bool
  tf_attempt :: byte

definition failure :: "link \<Rightarrow> transaction_failure \<Rightarrow> transaction_result" where
  "failure lk f =
     \<lparr>timestamp_ms = wall_ms lk, status = tf_status f, tr_function = tf_function f,
      transaction_id = tf_transaction_id f, unit_id = tf_unit_id f,
      latency_ms = elapsed_ms lk (tf_started f), exception_code = None, raw_tx = tf_raw_tx f,
      raw_rx = tf_raw_rx f, response_pdu = [], semantic = None, tr_message = Some (tf_message f),
      write_outcome_unknown = tf_unknown f, attempt = tf_attempt f\<rparr>"

type_synonym outcome = "(modbus_client \<times> link \<times> transaction_result, unit) result"

text \<open>
  The first part of \<open>execute_once\<close>, up to the frame to send; every early return of this part
  reports a \<open>ProtocolError\<close> with nothing sent.
\<close>

definition encode_transaction ::
    "modbus_mode \<Rightarrow> byte \<Rightarrow> u16 option \<Rightarrow> modbus_request \<Rightarrow> byte list pdu_result" where
  "encode_transaction mode unit tid request =
     rbind (validate_client_unit_id mode unit) (\<lambda>_.
       if \<not> request_supported_on_mode mode request
       then Err (Msg ''function is defined for Modbus serial line and is not available on Modbus TCP'')
       else rbind (encode_request request) (\<lambda>pdu.
         if unit = 0 \<and> mode \<noteq> ModeTcp \<and> \<not> is_write request
         then Err (Msg ''broadcast address 0 is write-only'')
         else encode_adu (adu_mode_of mode) unit (case tid of None \<Rightarrow> 0 | Some t \<Rightarrow> t) pdu))"

definition receive_response ::
    "validated_modbus_config \<Rightarrow> link \<Rightarrow> nat \<Rightarrow> u16 option \<Rightarrow> byte \<Rightarrow> received" where
  "receive_response cfg lk deadline tid unit =
     (case config_mode cfg of
        ModeTcp \<Rightarrow> receive_tcp lk deadline (case tid of None \<Rightarrow> 0 | Some t \<Rightarrow> t) unit []
      | ModeAscii \<Rightarrow> receive_ascii lk deadline unit []
      | ModeRtu \<Rightarrow> receive_rtu lk deadline (rtu_inter_char_gap cfg) (rtu_frame_gap cfg) unit [])"

text \<open>The common fields of a result of one attempt.\<close>

definition base_result ::
    "link \<Rightarrow> nat \<Rightarrow> modbus_request \<Rightarrow> u16 option \<Rightarrow> byte \<Rightarrow> byte \<Rightarrow> byte list \<Rightarrow> transaction_result" where
  "base_result lk started request tid unit att tx =
     \<lparr>timestamp_ms = wall_ms lk, status = Success, tr_function = request_function request,
      transaction_id = tid, unit_id = unit, latency_ms = elapsed_ms lk started, exception_code = None,
      raw_tx = tx, raw_rx = [], response_pdu = [], semantic = None, tr_message = None,
      write_outcome_unknown = False, attempt = att\<rparr>"

definition finish_transaction ::
    "link \<Rightarrow> nat \<Rightarrow> modbus_request \<Rightarrow> u16 option \<Rightarrow> byte \<Rightarrow> byte \<Rightarrow> byte list \<Rightarrow>
     (byte list \<times> byte list, receive_error) result \<Rightarrow> (transaction_result, unit) result" where
  "finish_transaction lk started request tid unit att tx received =
     (let fail = (\<lambda>st rx msg unknown. failure lk
            \<lparr>tf_status = st, tf_function = request_function request, tf_transaction_id = tid,
             tf_unit_id = unit, tf_started = started, tf_raw_tx = tx, tf_raw_rx = rx,
             tf_message = msg, tf_unknown = unknown, tf_attempt = att\<rparr>)
      in case received of
           Panic \<Rightarrow> Panic
         | Err RecvTimeout \<Rightarrow> Ok (fail Timeout [] (Msg ''response timeout'') (is_write request))
         | Err (RecvTransport msg) \<Rightarrow> Ok (fail TransportError [] msg (is_write request))
         | Err (RecvMalformed msg raw) \<Rightarrow> Ok (fail MalformedResponse raw msg False)
         | Err (RecvProtocol msg raw) \<Rightarrow> Ok (fail ProtocolError raw msg False)
         | Ok (rx, pdu) \<Rightarrow>
             (case validate_response request pdu of
                Panic \<Rightarrow> Panic
              | Err msg \<Rightarrow> Ok (fail ProtocolError rx msg False)
              | Ok response \<Rightarrow>
                  Ok ((base_result lk started request tid unit att tx)
                    \<lparr>status := (if resp_exception response \<noteq> None then ModbusException else Success),
                     exception_code := resp_exception response, raw_rx := rx, response_pdu := pdu,
                     semantic := decode_semantic_response request response\<rparr>)))"

definition execute_once ::
    "modbus_client \<Rightarrow> link \<Rightarrow> byte \<Rightarrow> modbus_request \<Rightarrow> byte \<Rightarrow> outcome" where
  "execute_once c lk unit request att =
     (let started = clock lk; mode = config_mode (client_cfg c);
          tid = (if mode = ModeTcp then Some (next_transaction_id c) else None);
          c = (if mode = ModeTcp then c\<lparr>next_transaction_id := next_transaction_id c + 1\<rparr> else c);
          fail = (\<lambda>lk st tx msg unknown. failure lk
            \<lparr>tf_status = st, tf_function = request_function request, tf_transaction_id = tid,
             tf_unit_id = unit, tf_started = started, tf_raw_tx = tx, tf_raw_rx = [],
             tf_message = msg, tf_unknown = unknown, tf_attempt = att\<rparr>)
      in case encode_transaction mode unit tid request of
           Panic \<Rightarrow> Panic
         | Err msg \<Rightarrow> Ok (c, lk, fail lk ProtocolError [] msg False)
         | Ok tx \<Rightarrow>
             if \<not> runtime_open c then Ok (c, lk, fail lk Cancelled tx (Msg ''client is closed'') False)
             else if \<not> subscribed c \<and> subscribe_error lk \<noteq> None
             then Ok (c, lk, fail lk TransportError tx (the (subscribe_error lk)) False)
             else let c = c\<lparr>subscribed := True\<rparr>; (err, lk) = link_write lk tx in
               if err \<noteq> None
               then Ok (c, lk, fail lk TransportError tx (the err) (is_write request))
               else if unit = 0 \<and> mode \<noteq> ModeTcp
               then Ok (c, lk, (base_result lk started request tid 0 att tx)\<lparr>status := Broadcast\<rparr>)
               else case config_client (client_cfg c) of
                 None \<Rightarrow> Panic
               | Some cc \<Rightarrow>
                   let deadline = clock lk + unat (response_timeout_ms cc) * 1000;
                       (received, lk) = receive_response (client_cfg c) lk deadline tid unit
                   in rbind (finish_transaction lk started request tid unit att tx received)
                        (\<lambda>r. Ok (c, lk, r)))"

section \<open>Retries, raw frames and the life of a client\<close>

definition saturating_succ :: "byte \<Rightarrow> byte" where
  "saturating_succ a = (if a = 255 then 255 else a + 1)"

definition retryable :: "transaction_status \<Rightarrow> bool" where
  "retryable st \<longleftrightarrow> st = Timeout \<or> st = TransportError"

lemma saturating_succ_less: "a < b \<Longrightarrow> unat (saturating_succ a) = Suc (unat a)"
proof -
  assume "a < b"
  then have "unat a < 255" using u8_bound [of b] by (simp add: word_less_nat_alt)
  then show ?thesis by (auto simp: saturating_succ_def unat_word_ariths)
qed

function execute_loop ::
    "modbus_client \<Rightarrow> link \<Rightarrow> byte \<Rightarrow> modbus_request \<Rightarrow> byte \<Rightarrow> byte \<Rightarrow> outcome" where
  "execute_loop c lk unit request max_retries att =
     rbind (execute_once c lk unit request att) (\<lambda>(c, lk, r).
       if retryable (status r) \<and> att < max_retries
       then execute_loop c lk unit request max_retries (saturating_succ att)
       else Ok (c, lk, r))"
  by pat_completeness auto
termination
  by (relation "measure (\<lambda>(_, _, _, _, m, a). unat m - unat a)")
    (auto simp: saturating_succ_less word_less_nat_alt)

declare execute_loop.simps [simp del]

definition max_retries :: "client_runtime_config \<Rightarrow> modbus_request \<Rightarrow> byte" where
  "max_retries cc request = (if is_write request \<and> \<not> retry_writes cc then 0 else read_retries cc)"

definition log_result :: "modbus_client \<Rightarrow> transaction_result \<Rightarrow> modbus_client" where
  "log_result c r = c\<lparr>client_log := client_record (client_log c) r\<rparr>"

definition execute_client :: "modbus_client \<Rightarrow> link \<Rightarrow> byte \<Rightarrow> modbus_request \<Rightarrow> outcome" where
  "execute_client c lk unit request =
     (case config_client (client_cfg c) of
        None \<Rightarrow> Panic
      | Some cc \<Rightarrow>
          rbind (execute_loop c lk unit request (max_retries cc request) 0) (\<lambda>(c, lk, r).
            Ok (log_result c r, lk, r)))"

definition shutdown_client :: "modbus_client \<Rightarrow> modbus_client" where
  "shutdown_client c = c\<lparr>subscribed := False, runtime_open := False\<rparr>"

definition raw_success :: "link \<Rightarrow> byte \<Rightarrow> nat \<Rightarrow> byte list \<Rightarrow> byte list \<Rightarrow> transaction_result" where
  "raw_success lk unit started tx rx =
     \<lparr>timestamp_ms = wall_ms lk, status = Success, tr_function = 0, transaction_id = None,
      unit_id = unit, latency_ms = elapsed_ms lk started, exception_code = None, raw_tx = tx,
      raw_rx = rx, response_pdu = [], semantic = None,
      tr_message = Some (Msg ''Raw ADU response is unvalidated''), write_outcome_unknown = False,
      attempt = 0\<rparr>"

definition raw_failure ::
    "link \<Rightarrow> byte \<Rightarrow> nat \<Rightarrow> byte list \<Rightarrow> byte list \<Rightarrow> transaction_status \<Rightarrow> message \<Rightarrow> transaction_result" where
  "raw_failure lk unit started tx rx st msg = failure lk
     \<lparr>tf_status = st, tf_function = 0, tf_transaction_id = None, tf_unit_id = unit,
      tf_started = started, tf_raw_tx = tx, tf_raw_rx = rx, tf_message = msg, tf_unknown = False,
      tf_attempt = 0\<rparr>"

function receive_raw ::
    "link \<Rightarrow> nat \<Rightarrow> nat \<Rightarrow> byte \<Rightarrow> nat \<Rightarrow> byte list \<Rightarrow> byte list \<Rightarrow> link \<times> transaction_result" where
  "receive_raw lk deadline quiet unit started tx rx =
     (let remaining = deadline - clock lk in
      if remaining = 0 then
        (lk, if rx = [] then raw_failure lk unit started tx rx Timeout (Msg ''Raw ADU response timeout'')
             else raw_success lk unit started tx rx)
      else
        let wait = (if rx = [] then remaining else min remaining quiet) in
        case recv_timeout lk wait of
          (Got (Data chunk), lk') \<Rightarrow> receive_raw lk' deadline quiet unit started tx (rx @ chunk)
        | (Got (Closed reason), lk') \<Rightarrow>
            (lk', if rx = [] then raw_failure lk' unit started tx rx TransportError reason
                  else (raw_success lk' unit started tx rx)\<lparr>tr_message := Some
                    (Fmt ''Raw ADU response is unvalidated; transport closed: {}'' [reason] [])\<rparr>)
        | (TimedOut, lk') \<Rightarrow>
            (lk', if rx = []
                  then raw_failure lk' unit started tx rx Timeout (Msg ''Raw ADU response timeout'')
                  else raw_success lk' unit started tx rx)
        | (Disconnected, lk') \<Rightarrow>
            (lk', raw_failure lk' unit started tx rx TransportError stream_closed))"
  by pat_completeness auto
termination
  by (relation "measure (\<lambda>(lk, _). length (queue lk))")
    (force dest: recv_timeout_facts(7) [OF sym])+

declare receive_raw.simps [simp del]

definition execute_raw_adu ::
    "modbus_client \<Rightarrow> link \<Rightarrow> byte list \<Rightarrow> bool \<Rightarrow> nat \<Rightarrow> outcome" where
  "execute_raw_adu c lk data wait_response quiet_period_ms =
     (let started = clock lk; unit = config_unit_id (client_cfg c);
          done = (\<lambda>c lk r. Ok (log_result c r, lk, r))
      in if \<not> runtime_open c
         then done c lk (raw_failure lk unit started data [] Cancelled (Msg ''client is closed''))
         else if \<not> subscribed c \<and> subscribe_error lk \<noteq> None
         then done c lk (raw_failure lk unit started data [] TransportError (the (subscribe_error lk)))
         else let c = c\<lparr>subscribed := True\<rparr>; (err, lk) = link_write lk data in
           if err \<noteq> None
           then done c lk (raw_failure lk unit started data [] TransportError (the err))
           else if \<not> wait_response
           then done c lk ((raw_success lk unit started data [])\<lparr>tr_message :=
                  Some (Msg ''exact Raw ADU sent without response validation'')\<rparr>)
           else case config_client (client_cfg c) of
             None \<Rightarrow> Panic
           | Some cc \<Rightarrow>
               let deadline = clock lk + unat (response_timeout_ms cc) * 1000;
                   quiet = clamp quiet_period_ms 1 1000 * 1000;
                   (lk, r) = receive_raw lk deadline quiet unit started data []
               in done c lk r)"

section \<open>What an attempt guarantees\<close>

text \<open>A frame of the transport that carries a PDU from a unit, for the transaction asked for.\<close>

definition frame_carries ::
    "modbus_mode \<Rightarrow> u16 option \<Rightarrow> byte \<Rightarrow> byte list \<Rightarrow> byte list \<Rightarrow> bool" where
  "frame_carries mode tid u frame pdu \<longleftrightarrow>
     (case mode of ModeTcp \<Rightarrow> tcp_decode frame = Ok (case tid of None \<Rightarrow> 0 | Some t \<Rightarrow> t, u, pdu)
      | ModeAscii \<Rightarrow> ascii_decode frame = Ok (u, pdu) | ModeRtu \<Rightarrow> rtu_decode frame = Ok (u, pdu))"

lemma receive_response_ok:
  "rx_ok (frame_carries (config_mode cfg) tid u) lk d (receive_response cfg lk d tid u)"
  by (cases "config_mode cfg")
    (simp_all add: receive_response_def frame_carries_def [abs_def] receive_tcp_ok receive_ascii_ok
      receive_rtu_ok)

lemma encode_transaction_no_panic: "encode_transaction mode u tid req \<noteq> Panic"
  by (auto simp: encode_transaction_def validate_client_unit_id_def result_simps
      encode_request_no_panic encode_adu_no_panic)

definition accepted :: "modbus_request \<Rightarrow> transaction_result \<Rightarrow> bool" where
  "accepted req r \<longleftrightarrow> (\<exists>resp. validate_response req (response_pdu r) = Ok resp \<and>
     exception_code r = resp_exception resp \<and> semantic r = decode_semantic_response req resp \<and>
     (status r = Success \<longleftrightarrow> resp_exception resp = None))"

text \<open>The facts of a finished receive, on the result of the attempt.\<close>

definition settled ::
    "modbus_mode \<Rightarrow> modbus_request \<Rightarrow> byte \<Rightarrow> transaction_result \<Rightarrow> bool" where
  "settled mode req u r \<longleftrightarrow>
     (status r = Success \<or> status r = ModbusException \<longrightarrow>
        accepted req r \<and> frame_carries mode (transaction_id r) u (raw_rx r) (response_pdu r) \<and>
        encode_transaction mode u (transaction_id r) req = Ok (raw_tx r)) \<and>
     (write_outcome_unknown r \<longrightarrow> is_write req \<and> retryable (status r))"

lemma finish_transaction_facts:
  assumes "received \<noteq> Panic" "\<And>f p. received = Ok (f, p) \<Longrightarrow> frame_carries mode tid u f p"
    "encode_transaction mode u tid req = Ok tx"
  shows "\<exists>r. finish_transaction lk started req tid u att tx received = Ok r \<and> settled mode req u r \<and>
    attempt r = att \<and> raw_tx r = tx \<and>
    (is_write req \<and> retryable (status r) \<longrightarrow> write_outcome_unknown r)"
proof (cases received)
  case (Ok fp)
  obtain rx pdu where fp: "fp = (rx, pdu)" by fastforce
  have fc: "frame_carries mode tid u rx pdu" using assms(2) Ok fp by simp
  show ?thesis
  proof (cases "validate_response req pdu")
    case v: (Ok resp)
    show ?thesis
      using fc assms(3) by (simp add: finish_transaction_def Ok fp v settled_def accepted_def
          base_result_def retryable_def Let_def)
  qed (use validate_response_no_panic [of req pdu] in \<open>simp_all add: finish_transaction_def Ok fp
      settled_def failure_def retryable_def Let_def\<close>)
next
  case (Err e)
  then show ?thesis
    by (cases e) (simp_all add: finish_transaction_def settled_def failure_def retryable_def Let_def)
qed (use assms(1) in simp)

definition same_client :: "modbus_client \<Rightarrow> modbus_client \<Rightarrow> bool" where
  "same_client c c' \<longleftrightarrow> client_cfg c' = client_cfg c \<and> runtime_open c' = runtime_open c \<and>
     client_log c' = client_log c"

definition attempt_ok ::
    "modbus_client \<Rightarrow> link \<Rightarrow> byte \<Rightarrow> modbus_request \<Rightarrow> nat \<Rightarrow> modbus_client \<Rightarrow> link \<Rightarrow>
     transaction_result \<Rightarrow> bool" where
  "attempt_ok c lk u req t c' lk' r \<longleftrightarrow> same_client c c' \<and> clock lk \<le> clock lk' \<and>
     clock lk' \<le> clock lk + t \<and> settled (config_mode (client_cfg c)) req u r \<and>
     (sent lk' = sent lk \<or> sent lk' = sent lk @ [raw_tx r]) \<and>
     (sent lk' \<noteq> sent lk \<and> is_write req \<and> retryable (status r) \<longrightarrow> write_outcome_unknown r)"

lemma execute_once_ok:
  assumes cc: "config_client (client_cfg c) = Some cc"
  shows "\<exists>c' lk' r. execute_once c lk u req att = Ok (c', lk', r) \<and> attempt r = att \<and>
    attempt_ok c lk u req (unat (response_timeout_ms cc) * 1000) c' lk' r"
proof -
  let ?mode = "config_mode (client_cfg c)"
  let ?tid = "if ?mode = ModeTcp then Some (next_transaction_id c) else None"
  show ?thesis
  proof (cases "encode_transaction ?mode u ?tid req")
    case (Err m)
    then show ?thesis
      by (simp add: execute_once_def Let_def failure_def attempt_ok_def same_client_def settled_def)
  next
    case Panic
    then show ?thesis using encode_transaction_no_panic by blast
  next
    case tx: (Ok tx)
    show ?thesis
    proof (cases "runtime_open c \<and> (subscribed c \<or> subscribe_error lk = None)")
      case False
      then show ?thesis using tx
        by (auto simp: execute_once_def Let_def failure_def attempt_ok_def same_client_def settled_def
            retryable_def)
    next
      case True
      obtain err lk1 where w: "link_write lk tx = (err, lk1)" by fastforce
      note wf = link_write_facts [OF w]
      show ?thesis
      proof (cases "err = None \<and> \<not> (u = 0 \<and> ?mode \<noteq> ModeTcp)")
        case False
        then show ?thesis using tx True w wf
          by (auto simp: execute_once_def Let_def failure_def attempt_ok_def same_client_def
              settled_def base_result_def retryable_def)
      next
        case rx: True
        let ?d = "clock lk1 + unat (response_timeout_ms cc) * 1000"
        obtain rcv lk2 where r: "receive_response (client_cfg c) lk1 ?d ?tid u = (rcv, lk2)" by fastforce
        have ok: "rx_ok (frame_carries ?mode ?tid u) lk1 ?d (rcv, lk2)"
          using receive_response_ok [of "client_cfg c" ?tid u lk1 ?d] r by simp
        have "\<exists>res. finish_transaction lk2 (clock lk) req ?tid u att tx rcv = Ok res \<and>
            settled ?mode req u res \<and> attempt res = att \<and> raw_tx res = tx \<and>
            (is_write req \<and> retryable (status res) \<longrightarrow> write_outcome_unknown res)"
          using ok tx by (intro finish_transaction_facts) (auto simp: rx_ok_def)
        then show ?thesis
          using tx True rx w wf ok cc r
          by (auto simp: execute_once_def Let_def attempt_ok_def same_client_def rx_ok_def)
      qed
    qed
  qed
qed
section \<open>What a transaction guarantees\<close>

definition transaction_ok ::
    "modbus_client \<Rightarrow> link \<Rightarrow> byte \<Rightarrow> modbus_request \<Rightarrow> nat \<Rightarrow> nat \<Rightarrow> modbus_client \<Rightarrow> link \<Rightarrow>
     transaction_result \<Rightarrow> bool" where
  "transaction_ok c lk u req t n c' lk' r \<longleftrightarrow> same_client c c' \<and> clock lk \<le> clock lk' \<and>
     clock lk' \<le> clock lk + n * t \<and> settled (config_mode (client_cfg c)) req u r \<and>
     (\<exists>fs. sent lk' = sent lk @ fs \<and> length fs \<le> n \<and> (fs = [] \<or> last fs = raw_tx r \<or> n > 1))"

lemma execute_loop_ok:
  assumes "config_client (client_cfg c) = Some cc" "att \<le> mx"
  shows "\<exists>c' lk' r. execute_loop c lk u req mx att = Ok (c', lk', r) \<and> attempt r \<le> mx \<and> att \<le> attempt r \<and>
    (retryable (status r) \<longrightarrow> attempt r = mx) \<and>
    transaction_ok c lk u req (unat (response_timeout_ms cc) * 1000) (unat mx - unat att + 1) c' lk' r"
  using assms
proof (induction c lk u req mx att rule: execute_loop.induct)
  case (1 c lk u req mx att)
  let ?t = "unat (response_timeout_ms cc) * 1000"
  obtain c1 lk1 r1 where e: "execute_once c lk u req att = Ok (c1, lk1, r1)" and a: "attempt r1 = att"
    and ok: "attempt_ok c lk u req ?t c1 lk1 r1"
    using execute_once_ok [OF "1.prems"(1)] by blast
  show ?case
  proof (cases "retryable (status r1) \<and> att < mx")
    case False
    then have "(retryable (status r1) \<longrightarrow> attempt r1 = mx)" using a "1.prems"(2) by auto
    moreover have "transaction_ok c lk u req ?t (unat mx - unat att + 1) c1 lk1 r1"
    proof -
      have "clock lk1 \<le> clock lk + (unat mx - unat att + 1) * ?t"
        using ok by (simp add: attempt_ok_def)
      then show ?thesis using ok by (auto simp: attempt_ok_def transaction_ok_def)
    qed
    ultimately show ?thesis
      using e a False "1.prems"(2) by (subst execute_loop.simps) auto
  next
    case True
    let ?a = "saturating_succ att"
    have s: "unat ?a = Suc (unat att)" using True by (auto intro: saturating_succ_less)
    have le: "?a \<le> mx" using True s by (simp add: word_le_nat_alt word_less_nat_alt)
    have n: "unat mx - unat att + 1 = Suc (unat mx - unat ?a + 1)"
      using True s by (simp add: word_less_nat_alt Suc_diff_Suc)
    have cfg: "client_cfg c1 = client_cfg c" using ok by (simp add: attempt_ok_def same_client_def)
    obtain c2 lk2 r2 where l: "execute_loop c1 lk1 u req mx ?a = Ok (c2, lk2, r2)" "attempt r2 \<le> mx"
      "?a \<le> attempt r2" "retryable (status r2) \<longrightarrow> attempt r2 = mx"
      "transaction_ok c1 lk1 u req ?t (unat mx - unat ?a + 1) c2 lk2 r2"
      using "1.IH" [OF True _ le, of c1 lk1] "1.prems"(1) cfg by auto
    have "transaction_ok c lk u req ?t (unat mx - unat att + 1) c2 lk2 r2"
      using l(5) ok unfolding n transaction_ok_def attempt_ok_def same_client_def
      by (auto simp: algebra_simps)
    moreover have "att \<le> attempt r2" using l(3) s by (simp add: word_le_nat_alt)
    ultimately show ?thesis
      using e l True by (subst execute_loop.simps) auto
  qed
qed

lemma execute_client_ok:
  assumes "config_client (client_cfg c) = Some cc"
  shows "\<exists>c' lk' r. execute_client c lk u req = Ok (log_result c' r, lk', r) \<and>
    attempt r \<le> max_retries cc req \<and> (retryable (status r) \<longrightarrow> attempt r = max_retries cc req) \<and>
    transaction_ok c lk u req (unat (response_timeout_ms cc) * 1000) (unat (max_retries cc req) + 1) c' lk' r"
  using execute_loop_ok [OF assms, of 0 "max_retries cc req" lk u req] assms
  by (auto simp: execute_client_def)

lemma execute_loop_zero:
  "execute_loop c lk u req 0 0 = execute_once c lk u req 0"
  by (subst execute_loop.simps) (cases "execute_once c lk u req 0"; auto)

section \<open>Properties\<close>

text \<open>C15. A transaction of a client always ends with a result, after at
  most one attempt more than the configured retries, within that many response timeouts, having
  written at most one frame per attempt; the result is the one entry it adds to the history.
  Only a timeout or a transport error is retried, and it is reported only when the retries are used up.\<close>

theorem client_transaction_returns:
  assumes "config_client (client_cfg c) = Some cc"
  shows "\<exists>c' lk' r fs. execute_client c lk u req = Ok (c', lk', r) \<and>
    client_log c' = client_record (client_log c) r \<and> client_cfg c' = client_cfg c \<and>
    clock lk' \<le> clock lk + (unat (max_retries cc req) + 1) * (unat (response_timeout_ms cc) * 1000) \<and>
    sent lk' = sent lk @ fs \<and> length fs \<le> unat (max_retries cc req) + 1 \<and>
    attempt r \<le> max_retries cc req \<and>
    (status r = Timeout \<or> status r = TransportError \<longrightarrow> attempt r = max_retries cc req)"
proof -
  obtain c' lk' r where e: "execute_client c lk u req = Ok (log_result c' r, lk', r)"
    "attempt r \<le> max_retries cc req" "retryable (status r) \<longrightarrow> attempt r = max_retries cc req"
    and ok: "transaction_ok c lk u req (unat (response_timeout_ms cc) * 1000)
      (unat (max_retries cc req) + 1) c' lk' r"
    using execute_client_ok [OF assms] by blast
  then obtain fs where "sent lk' = sent lk @ fs" "length fs \<le> unat (max_retries cc req) + 1"
    by (auto simp: transaction_ok_def)
  with e ok show ?thesis
    by (intro exI [of _ "log_result c' r"] exI [of _ lk'] exI [of _ r] exI [of _ fs])
      (auto simp: log_result_def transaction_ok_def same_client_def retryable_def)
qed

text \<open>C16. What a client reports as a success or a Modbus exception was
  received and checked: the frame sent is the encoding of the request, the frame received
  decodes, with its checksum, to the reported PDU from the addressed unit (over TCP with the
  transaction's own identifier), the PDU passed the validation of the request's function, and the
  reported exception code and values are those of the validated response.\<close>

theorem client_success_sound:
  assumes "config_client (client_cfg c) = Some cc" "execute_client c lk u req = Ok (c', lk', r)"
    "status r = Success \<or> status r = ModbusException"
  shows "encode_transaction (config_mode (client_cfg c)) u (transaction_id r) req = Ok (raw_tx r) \<and>
    frame_carries (config_mode (client_cfg c)) (transaction_id r) u (raw_rx r) (response_pdu r) \<and>
    (\<exists>resp. validate_response req (response_pdu r) = Ok resp \<and> exception_code r = resp_exception resp \<and>
       semantic r = decode_semantic_response req resp \<and>
       (status r = Success \<longleftrightarrow> resp_exception resp = None))"
proof -
  obtain c1 where "transaction_ok c lk u req (unat (response_timeout_ms cc) * 1000)
      (unat (max_retries cc req) + 1) c1 lk' r"
    using execute_client_ok [OF assms(1), of lk u req] assms(2) by auto
  with assms(3) show ?thesis by (auto simp: transaction_ok_def settled_def accepted_def)
qed

text \<open>Unless retrying writes is enabled, the frame of a write is handed to the
  transport at most once, and when it was and no response decided the matter (a timeout or a
  transport error), the result says that the outcome of the write is unknown. The flag is never set
  for a read.\<close>

theorem write_sent_once:
  assumes "config_client (client_cfg c) = Some cc" "execute_client c lk u req = Ok (c', lk', r)"
    "is_write req" "\<not> retry_writes cc"
  shows "(sent lk' = sent lk \<or> sent lk' = sent lk @ [raw_tx r]) \<and>
    (write_outcome_unknown r \<longrightarrow> status r = Timeout \<or> status r = TransportError) \<and>
    (sent lk' \<noteq> sent lk \<and> (status r = Timeout \<or> status r = TransportError) \<longrightarrow> write_outcome_unknown r)"
proof -
  obtain c1 where "execute_once c lk u req 0 = Ok (c1, lk', r)"
    using assms by (auto simp: execute_client_def max_retries_def execute_loop_zero result_simps)
  then have "attempt_ok c lk u req (unat (response_timeout_ms cc) * 1000) c1 lk' r"
    using execute_once_ok [OF assms(1), of lk u req 0] by auto
  with assms(3) show ?thesis by (auto simp: attempt_ok_def settled_def retryable_def)
qed

lemma receive_tcp_at_once:
  assumes "queue lk = (t, Data frame) # q" "t \<le> clock lk" "clock lk < d"
    "tcp_encode tid u pdu = Ok frame"
  shows "receive_tcp lk d tid u [] = (Ok (frame, pdu), lk\<lparr>queue := q\<rparr>)"
proof -
  have "recv_until lk d = (Ok (Data frame), lk\<lparr>queue := q\<rparr>)"
    using assms(1-3) by (simp add: recv_until_def recv_timeout_def)
  moreover have "tcp_push [] frame = Ok ([frame], [])"
    using tcp.push_frame [of "(tid, u)" pdu frame] assms(4) by simp
  ultimately show ?thesis
    using tcp_decode_encode [OF assms(4)] by (subst receive_tcp.simps) simp
qed

lemma receive_ascii_at_once:
  assumes "queue lk = (t, Data frame) # q" "t \<le> clock lk" "clock lk < d"
    "ascii_encode u pdu = Ok frame"
  shows "receive_ascii lk d u [] = (Ok (frame, pdu), lk\<lparr>queue := q\<rparr>)"
proof -
  have "recv_until lk d = (Ok (Data frame), lk\<lparr>queue := q\<rparr>)"
    using assms(1-3) by (simp add: recv_until_def recv_timeout_def)
  moreover have "ascii_push [] frame = ([frame], [])"
    using ascii_frames_frame [OF assms(4)] by (simp add: ascii_push_def)
  ultimately show ?thesis
    using ascii_decode_encode [OF assms(4)] by (subst receive_ascii.simps) simp
qed

text \<open>A client for the concrete instances.\<close>

definition demo_client_role :: client_runtime_config where
  "demo_client_role = \<lparr>response_timeout_ms = 1000, read_retries = 1, retry_writes = False\<rparr>"

definition demo_client :: "modbus_endpoint_config \<Rightarrow> modbus_client" where
  "demo_client e = \<lparr>client_cfg = \<lparr>endpoint = e, runtime_role = ClientRole demo_client_role,
       config_unit_id = 1\<rparr>,
     runtime_open = True, subscribed = True, next_transaction_id = 1, client_log = empty_log\<rparr>"

lemma demo_client_config [simp]:
  "config_client (client_cfg (demo_client e)) = Some demo_client_role"
  "config_mode (client_cfg (demo_client (TcpEndpoint h p t))) = ModeTcp"
  "config_mode (client_cfg (demo_client (SerialEndpoint SerialAscii s sc))) = ModeAscii"
  by (simp_all add: demo_client_def config_client_def config_mode_def)

theorem client_transaction_returns_witness:
  "\<exists>c' lk' r. execute_client (demo_client (TcpEndpoint ''h'' 502 default_tcp)) (demo_link []) 9
      (WriteSingleRegister 7 5) = Ok (c', lk', r) \<and> clock lk' \<le> 1000000 \<and> length (sent lk') \<le> 1"
proof -
  have "unat (max_retries demo_client_role (WriteSingleRegister 7 5)) = 0"
    "unat (response_timeout_ms demo_client_role) = 1000"
    by (simp_all add: max_retries_def demo_client_role_def)
  with client_transaction_returns [of "demo_client (TcpEndpoint ''h'' 502 default_tcp)"
      demo_client_role "demo_link []" 9 "WriteSingleRegister 7 5"]
  show ?thesis by (fastforce simp: demo_link_def)
qed

definition demo_response :: "byte list" where
  "demo_response = [0, 1, 0, 0, 0, 5, 9, 3, 2, 0, 5]"

lemma demo_exchange:
  "\<exists>c' lk' r. execute_client (demo_client (TcpEndpoint ''h'' 502 default_tcp))
      (demo_link [(0, Data demo_response)]) 9 (ReadRegisters HoldingRegisters 7 1) = Ok (c', lk', r) \<and>
    status r = Success \<and> response_pdu r = [3, 2, 0, 5]"
proof -
  let ?c = "demo_client (TcpEndpoint ''h'' 502 default_tcp)" and ?req = "ReadRegisters HoldingRegisters 7 1"
  have tx: "encode_transaction ModeTcp 9 (Some 1) ?req = Ok [0, 1, 0, 0, 0, 6, 9, 3, 0, 7, 0, 1]"
    by code_simp
  have enc: "tcp_encode 1 9 [3, 2, 0, 5] = Ok demo_response" unfolding demo_response_def by code_simp
  let ?lk = "(demo_link [(0, Data demo_response)])\<lparr>sent := [[0, 1, 0, 0, 0, 6, 9, 3, 0, 7, 0, 1]]\<rparr>"
  have rx: "receive_tcp ?lk 1000000 1 9 [] = (Ok (demo_response, [3, 2, 0, 5]), ?lk\<lparr>queue := []\<rparr>)"
    by (rule receive_tcp_at_once [OF _ _ _ enc]) (simp_all add: demo_link_def)
  have val: "validate_response ?req [3, 2, 0, 5] =
      Ok \<lparr>resp_function = 3, resp_data = [2, 0, 5], resp_exception = None\<rparr>"
    by code_simp
  have "\<exists>c' lk' r. execute_once ?c (demo_link [(0, Data demo_response)]) 9 ?req 0 = Ok (c', lk', r) \<and>
      status r = Success \<and> response_pdu r = [3, 2, 0, 5]"
    using tx rx val by (simp add: execute_once_def Let_def demo_client_def demo_link_def config_mode_def
        link_write_def config_client_def receive_response_def demo_client_role_def finish_transaction_def
        base_result_def)
  then show ?thesis
    by (subst execute_client_def) (subst execute_loop.simps, auto simp: retryable_def)
qed

theorem client_success_sound_witness:
  "\<exists>c' lk' r. execute_client (demo_client (TcpEndpoint ''h'' 502 default_tcp))
      (demo_link [(0, Data demo_response)]) 9 (ReadRegisters HoldingRegisters 7 1) = Ok (c', lk', r) \<and>
    frame_carries ModeTcp (transaction_id r) 9 (raw_rx r) [3, 2, 0, 5]"
proof -
  obtain c' lk' r where e: "execute_client (demo_client (TcpEndpoint ''h'' 502 default_tcp))
      (demo_link [(0, Data demo_response)]) 9 (ReadRegisters HoldingRegisters 7 1) = Ok (c', lk', r)"
    and r: "status r = Success" "response_pdu r = [3, 2, 0, 5]"
    using demo_exchange by blast
  from client_success_sound [OF demo_client_config(1) e] r have
    "frame_carries ModeTcp (transaction_id r) 9 (raw_rx r) [3, 2, 0, 5]" by simp
  with e show ?thesis by blast
qed

theorem write_sent_once_witness:
  "\<exists>c' lk' r. execute_client (demo_client (TcpEndpoint ''h'' 502 default_tcp)) (demo_link []) 9
      (WriteSingleRegister 7 5) = Ok (c', lk', r) \<and> (sent lk' = [] \<or> sent lk' = [raw_tx r])"
proof -
  let ?c = "demo_client (TcpEndpoint ''h'' 502 default_tcp)"
  obtain c' lk' r where e: "execute_client ?c (demo_link []) 9 (WriteSingleRegister 7 5) =
      Ok (log_result c' r, lk', r)"
    using execute_client_ok [OF demo_client_config(1)] by blast
  from write_sent_once [OF demo_client_config(1) e] have "sent lk' = [] \<or> sent lk' = [raw_tx r]"
    by (simp add: demo_client_role_def demo_link_def)
  with e show ?thesis by blast
qed

text \<open>Reads of the same kind and quantity, whatever their addresses; a valid answer to one is a valid answer to the other.\<close>

fun same_read :: "modbus_request \<Rightarrow> modbus_request \<Rightarrow> bool" where
  "same_read (ReadBits area _ q) (ReadBits area' _ q') \<longleftrightarrow> area = area' \<and> q = q'"
| "same_read (ReadRegisters area _ q) (ReadRegisters area' _ q') \<longleftrightarrow> area = area' \<and> q = q'"
| "same_read _ _ \<longleftrightarrow> False"

lemma validate_same_read: "same_read old req \<Longrightarrow> validate_response req pdu = validate_response old pdu"
proof -
  assume s: "same_read old req"
  have "request_function req = request_function old \<and> validate_data req = validate_data old"
    using s
  proof (cases "(old, req)" rule: same_read.cases)
    case (1 area a q area' a' q')
    with s show ?thesis by (cases area) (simp_all add: fun_eq_iff)
  next
    case (2 area a q area' a' q')
    with s show ?thesis by (cases area) (simp_all add: fun_eq_iff)
  qed simp_all
  then show ?thesis by (cases pdu) (simp_all add: validate_response_def Let_def)
qed

text \<open>
  C34. On an ASCII link the answer to a read is matched to its request by the unit, the kind of data and the quantity alone, and the link is not
  drained before a request is sent: if the valid answer to an earlier read of as many values of the same kind, at any address, comes late and is waiting when a new read is
  sent to the unit, it is reported as the successful response to the new one. The result then holds the values of the other address.
\<close>

theorem ascii_stale_frame_accepted:
  assumes "config_mode (client_cfg c) = ModeAscii" "config_client (client_cfg c) = Some cc"
    "0 < unat (response_timeout_ms cc)" "runtime_open c" "subscribed c" "write_errors lk = []"
    "queue lk = (t, Data frame) # q" "t \<le> clock lk" "ascii_encode u pdu = Ok frame" "u \<noteq> 0"
    "validate_response old pdu = Ok resp" "resp_exception resp = None"
    "same_read old req" "encode_transaction ModeAscii u None req = Ok tx"
  shows "\<exists>c' r. execute_client c lk u req = Ok (c', lk\<lparr>sent := sent lk @ [tx], queue := q\<rparr>, r) \<and>
    status r = Success \<and> raw_rx r = frame \<and> response_pdu r = pdu"
proof -
  let ?lk = "lk\<lparr>write_errors := [], sent := sent lk @ [tx]\<rparr>"
  have lk: "lk\<lparr>write_errors := []\<rparr> = lk" using assms(6) by (cases lk) simp
  have val: "validate_response req pdu = Ok resp" using validate_same_read [OF assms(13)] assms(11) by simp
  have "receive_ascii ?lk (clock ?lk + unat (response_timeout_ms cc) * 1000) u [] =
      (Ok (frame, pdu), ?lk\<lparr>queue := q\<rparr>)"
    by (rule receive_ascii_at_once [OF _ _ _ assms(9), where t = t]) (use assms in simp_all)
  then have "\<exists>c' r. execute_once c lk u req 0 = Ok (c', lk\<lparr>sent := sent lk @ [tx], queue := q\<rparr>, r) \<and>
      status r = Success \<and> raw_rx r = frame \<and> response_pdu r = pdu"
    using assms val by (simp add: execute_once_def Let_def link_write_def receive_response_def
        finish_transaction_def base_result_def lk)
  then show ?thesis
    by (subst execute_client_def) (subst execute_loop.simps, auto simp: retryable_def assms(2))
qed

theorem ascii_stale_frame_accepted_witness:
  "\<exists>c' lk' r. execute_client (demo_client (SerialEndpoint SerialAscii ''COM1'' default_serial))
      (demo_link [(0, Data [58, 48, 57, 48, 51, 48, 50, 48, 48, 48, 53, 69, 68, 13, 10])])
      9 (ReadRegisters HoldingRegisters 100 1) = Ok (c', lk', r) \<and>
    status r = Success \<and> response_pdu r = [3, 2, 0, 5]"
proof -
  let ?c = "demo_client (SerialEndpoint SerialAscii ''COM1'' default_serial)"
  let ?frame = "[58, 48, 57, 48, 51, 48, 50, 48, 48, 48, 53, 69, 68, 13, 10]"
  let ?old = "ReadRegisters HoldingRegisters 7 1" and ?req = "ReadRegisters HoldingRegisters 100 1"
  have enc: "ascii_encode 9 [3, 2, 0, 5] = Ok ?frame" by code_simp
  have val: "validate_response ?old [3, 2, 0, 5] =
      Ok \<lparr>resp_function = 3, resp_data = [2, 0, 5], resp_exception = None\<rparr>" by code_simp
  obtain tx where tx: "encode_transaction ModeAscii 9 None ?req = Ok tx"
    using encode_adu_ok_iff [of AduAscii 9 0 "[3, 0, 100, 0, 1]"]
    by (auto simp: is_ok_iff encode_transaction_def validate_client_unit_id_def
        request_supported_on_mode_def encode_request_def ensure_range_def push_u16_def to_be_bytes_def
        MAX_PDU_LEN_def)
  show ?thesis
    using ascii_stale_frame_accepted [of ?c demo_client_role "demo_link [(0, Data ?frame)]" 0 ?frame "[]"
        9 "[3, 2, 0, 5]" ?old _ ?req tx] enc val tx
    by (fastforce simp: demo_link_def demo_client_role_def demo_client_def config_mode_def config_client_def)
qed

lemma receive_raw_ok:
  "case receive_raw lk d quiet u started tx rx of (lk', r) \<Rightarrow>
     sent lk' = sent lk \<and> clock lk \<le> clock lk' \<and> clock lk' \<le> max (clock lk) d \<and> raw_tx r = tx \<and>
     response_pdu r = [] \<and> semantic r = None \<and> (status r = Success \<longrightarrow> raw_rx r \<noteq> []) \<and>
     (status r = Success \<or> retryable (status r))"
proof (induction lk d quiet u started tx rx rule: receive_raw.induct)
  case (1 lk d quiet u started tx rx)
  let ?w = "if rx = [] then d - clock lk else min (d - clock lk) quiet"
  show ?case
  proof (cases "d - clock lk = 0")
    case True
    then show ?thesis
      by (subst receive_raw.simps) (simp add: raw_success_def raw_failure_def failure_def retryable_def)
  next
    case False
    obtain out lk1 where r: "recv_timeout lk ?w = (out, lk1)" by fastforce
    have f: "sent lk1 = sent lk" "clock lk \<le> clock lk1" "clock lk1 \<le> max (clock lk) d"
      using recv_timeout_facts(1,2,3) [OF r] False by (auto split: if_splits)
    show ?thesis
    proof (cases "\<exists>chunk. out = Got (Data chunk)")
      case True
      then obtain chunk where out: "out = Got (Data chunk)" by blast
      have "case receive_raw lk1 d quiet u started tx (rx @ chunk) of (lk', r) \<Rightarrow>
          sent lk' = sent lk1 \<and> clock lk1 \<le> clock lk' \<and> clock lk' \<le> max (clock lk1) d \<and> raw_tx r = tx \<and>
          response_pdu r = [] \<and> semantic r = None \<and> (status r = Success \<longrightarrow> raw_rx r \<noteq> []) \<and>
          (status r = Success \<or> retryable (status r))"
        using "1.IH" False r out by simp
      then show ?thesis
        using f False r out by (subst receive_raw.simps) (auto simp: Let_def max_def split: if_splits)
    next
      case nd: False
      then show ?thesis
        using f False r
        by (subst receive_raw.simps) (auto simp: Let_def raw_success_def raw_failure_def failure_def
            retryable_def split: recv_outcome.splits data_plane_event.splits)
    qed
  qed
qed

text \<open>An exact raw frame is sent byte for byte as given and at most once, the wait for
  an answer ends by the response timeout, and the answer is never presented as a validated response:
  the result carries no response PDU and no values.\<close>

theorem raw_adu_exact:
  assumes "config_client (client_cfg c) = Some cc"
  shows "\<exists>c' lk' r. execute_raw_adu c lk data wait_response quiet = Ok (c', lk', r) \<and>
    client_log c' = client_record (client_log c) r \<and> raw_tx r = data \<and>
    (sent lk' = sent lk \<or> sent lk' = sent lk @ [data]) \<and>
    clock lk' \<le> clock lk + unat (response_timeout_ms cc) * 1000 \<and>
    response_pdu r = [] \<and> semantic r = None \<and>
    (status r = Success \<and> wait_response \<longrightarrow> raw_rx r \<noteq> [])"
proof -
  obtain err lk1 where w: "link_write lk data = (err, lk1)" by fastforce
  note wf = link_write_facts [OF w]
  let ?d = "clock lk1 + unat (response_timeout_ms cc) * 1000"
  obtain lk2 r where r: "receive_raw lk1 ?d (clamp quiet 1 1000 * 1000) (config_unit_id (client_cfg c))
      (clock lk) data [] = (lk2, r)" by fastforce
  have ok: "sent lk2 = sent lk1 \<and> clock lk2 \<le> ?d \<and> raw_tx r = data \<and> response_pdu r = [] \<and>
      semantic r = None \<and> (status r = Success \<longrightarrow> raw_rx r \<noteq> [])"
    using receive_raw_ok [of lk1 ?d data "clamp quiet 1 1000 * 1000" "config_unit_id (client_cfg c)"
        "clock lk" "[]"] r by simp
  show ?thesis
  proof (cases "runtime_open c \<and> (subscribed c \<or> subscribe_error lk = None) \<and> err = None \<and> wait_response")
    case True
    then show ?thesis
      using w wf ok r assms by (auto simp: execute_raw_adu_def Let_def log_result_def)
  next
    case False
    then show ?thesis
      using w wf by (auto simp: execute_raw_adu_def Let_def log_result_def raw_failure_def failure_def
          raw_success_def split: if_splits)
  qed
qed

theorem raw_adu_exact_witness:
  "\<exists>c' lk' r. execute_raw_adu (demo_client (TcpEndpoint ''h'' 502 default_tcp)) (demo_link []) [1, 2, 3]
      True 50 = Ok (c', lk', r) \<and> raw_tx r = [1, 2, 3] \<and> clock lk' \<le> 1000000"
proof -
  have "unat (response_timeout_ms demo_client_role) = 1000" by (simp add: demo_client_role_def)
  with raw_adu_exact [OF demo_client_config(1), of "TcpEndpoint ''h'' 502 default_tcp" "demo_link []"
      "[1, 2, 3]" True 50] show ?thesis
    by (fastforce simp: demo_link_def)
qed

end
