(* ===== verification/Modbus_Data_Model.thy ===== *)
theory Modbus_Data_Model
  imports Modbus_Pdu_Response
begin

unbundle bit_operations_syntax

text \<open>
  The simulated device, \<open>plugins/modbus/data_model.rs\<close>: four address blocks, file
  records, FIFO queues, device objects and the diagnostic counters, and \<open>execute\<close>, which
  runs one request and returns the response PDU or an exception code. A \<open>BTreeMap\<close> or
  \<open>HashMap\<close> is a partial function; the ordered iteration of a \<open>BTreeMap\<close> goes through its
  keys in increasing order. The lock around the model is not modelled: \<open>execute\<close> holds it
  for the whole request, so requests are atomic steps; a poisoned lock
  (\<open>EX_SERVER_DEVICE_FAILURE\<close>) needs a panic inside it.
\<close>

definition EX_ILLEGAL_FUNCTION :: byte where "EX_ILLEGAL_FUNCTION = 0x01"
definition EX_ILLEGAL_DATA_ADDRESS :: byte where "EX_ILLEGAL_DATA_ADDRESS = 0x02"
definition EX_ILLEGAL_DATA_VALUE :: byte where "EX_ILLEGAL_DATA_VALUE = 0x03"

type_synonym 'a exec_result = "('a, byte) result"
type_synonym 'a address_block = "u16 \<Rightarrow> 'a option"

record model_inner =
  coils :: "bool address_block"
  discrete_inputs :: "bool address_block"
  holding_registers :: "u16 address_block"
  input_registers :: "u16 address_block"
  file_records :: "u16 \<times> u16 \<Rightarrow> u16 option"
  fifo :: "u16 \<Rightarrow> u16 list option"
  device_objects :: "byte \<Rightarrow> byte list option"
  exception_status :: byte
  comm_event_count :: u16
  message_count :: u16

section \<open>Address blocks\<close>

definition ensure_span :: "u16 \<Rightarrow> nat \<Rightarrow> unit exec_result" where
  "ensure_span address len =
     (if len = 0 then Err EX_ILLEGAL_DATA_VALUE
      else let last_off = len - 1 in
        if last_off > 65535 \<or> checked_add_u16 address (as_u16 last_off) = None
        then Err EX_ILLEGAL_DATA_ADDRESS
        else Ok ())"

definition block_set :: "'a address_block \<Rightarrow> u16 \<Rightarrow> 'a \<Rightarrow> 'a address_block" where
  "block_set values address value = values(address \<mapsto> value)"

definition block_get :: "'a address_block \<Rightarrow> u16 \<Rightarrow> 'a exec_result" where
  "block_get values address = ok_or EX_ILLEGAL_DATA_ADDRESS (values address)"

definition ensure_defined :: "'a address_block \<Rightarrow> u16 \<Rightarrow> nat \<Rightarrow> unit exec_result" where
  "ensure_defined values address len =
     rbind (ensure_span address len) (\<lambda>_.
       if list_all (\<lambda>offset. values (address + as_u16 offset) \<noteq> None) [0..<len] then Ok ()
       else Err EX_ILLEGAL_DATA_ADDRESS)"

definition block_read :: "'a address_block \<Rightarrow> u16 \<Rightarrow> u16 \<Rightarrow> 'a list exec_result" where
  "block_read values address quantity =
     rbind (ensure_defined values address (unat quantity)) (\<lambda>_.
       rmap (\<lambda>offset. block_get values (address + as_u16 offset)) [0..<unat quantity])"

definition write_existing :: "'a address_block \<Rightarrow> u16 \<Rightarrow> 'a list \<Rightarrow> 'a address_block exec_result" where
  "write_existing values address news =
     rbind (ensure_defined values address (length news)) (\<lambda>_.
       Ok (fold (\<lambda>(index, value) m. m(address + as_u16 index \<mapsto> value)) (enumerate 0 news) values))"

definition block_snapshot :: "'a address_block \<Rightarrow> (u16 \<times> 'a) list" where
  "block_snapshot values =
     List.map_filter (\<lambda>n. map_option (\<lambda>v. (as_u16 n, v)) (values (as_u16 n))) [0..<65536]"

section \<open>Construction and administration\<close>

text \<open>\<open>version\<close> is the package version the build fills in (\<open>CARGO_PKG_VERSION\<close>).\<close>

definition ascii_bytes :: "string \<Rightarrow> byte list" where
  "ascii_bytes s = map of_char s"

definition default_model :: "byte list \<Rightarrow> model_inner" where
  "default_model version =
     \<lparr>coils = Map.empty, discrete_inputs = Map.empty, holding_registers = Map.empty,
      input_registers = Map.empty, file_records = Map.empty, fifo = Map.empty,
      device_objects = [0x00 \<mapsto> ascii_bytes ''TauTerm'', 0x01 \<mapsto> version,
        0x02 \<mapsto> ascii_bytes ''Modbus Simulator''],
      exception_status = 0, comm_event_count = 0, message_count = 0\<rparr>"

definition set_coil :: "model_inner \<Rightarrow> u16 \<Rightarrow> bool \<Rightarrow> model_inner" where
  "set_coil m address value = m\<lparr>coils := block_set (coils m) address value\<rparr>"

definition set_discrete_input :: "model_inner \<Rightarrow> u16 \<Rightarrow> bool \<Rightarrow> model_inner" where
  "set_discrete_input m address value =
     m\<lparr>discrete_inputs := block_set (discrete_inputs m) address value\<rparr>"

definition set_holding_register :: "model_inner \<Rightarrow> u16 \<Rightarrow> u16 \<Rightarrow> model_inner" where
  "set_holding_register m address value =
     m\<lparr>holding_registers := block_set (holding_registers m) address value\<rparr>"

definition set_input_register :: "model_inner \<Rightarrow> u16 \<Rightarrow> u16 \<Rightarrow> model_inner" where
  "set_input_register m address value =
     m\<lparr>input_registers := block_set (input_registers m) address value\<rparr>"

record data_model_snapshot =
  snap_coils :: "(u16 \<times> bool) list"
  snap_discrete_inputs :: "(u16 \<times> bool) list"
  snap_holding_registers :: "(u16 \<times> u16) list"
  snap_input_registers :: "(u16 \<times> u16) list"

definition snapshot :: "model_inner \<Rightarrow> data_model_snapshot" where
  "snapshot m =
     \<lparr>snap_coils = block_snapshot (coils m),
      snap_discrete_inputs = block_snapshot (discrete_inputs m),
      snap_holding_registers = block_snapshot (holding_registers m),
      snap_input_registers = block_snapshot (input_registers m)\<rparr>"

section \<open>Responses with structure of their own\<close>

definition objects_from :: "(byte \<Rightarrow> byte list option) \<Rightarrow> byte \<Rightarrow> (byte \<times> byte list) list" where
  "objects_from objects start =
     List.map_filter (\<lambda>n. map_option (\<lambda>v. (as_u8 n, v)) (objects (as_u8 n))) [unat start..<256]"

definition push_object :: "byte \<times> byte list \<Rightarrow> byte list \<Rightarrow> byte list" where
  "push_object obj out =
     (let (id, bytes) = obj; len = min (length bytes) 255
      in out @ [id, as_u8 len] @ take len bytes)"

definition select_objects ::
    "(byte \<Rightarrow> byte list option) \<Rightarrow> byte \<Rightarrow> byte \<Rightarrow> (byte \<times> byte list) list exec_result" where
  "select_objects objects read_code start =
     (if read_code = 0x04
      then rbind (ok_or EX_ILLEGAL_DATA_ADDRESS (objects start)) (\<lambda>v. Ok [(start, v)])
      else let first = (if objects start \<noteq> None then start else 0)
           in Ok (take 17 (objects_from objects first)))"

definition encode_mei_response ::
    "byte list \<Rightarrow> (byte \<Rightarrow> byte list option) \<Rightarrow> byte \<Rightarrow> byte list \<Rightarrow> byte list exec_result" where
  "encode_mei_response out objects mei_type data =
     (if mei_type \<noteq> 0x0E then Err EX_ILLEGAL_FUNCTION
      else if length data \<noteq> 2 then Err EX_ILLEGAL_DATA_VALUE
      else rbind (idx data 0) (\<lambda>read_code.
        if \<not> (1 \<le> read_code \<and> read_code \<le> 4) then Err EX_ILLEGAL_DATA_VALUE
        else rbind (idx data 1) (\<lambda>start.
             rbind (select_objects objects read_code start) (\<lambda>selected.
               let more_follows = length selected > 16; visible = take 16 selected in
               rbind (if more_follows then rbind (idx selected 16) (\<lambda>o17. Ok (fst o17)) else Ok 0)
                 (\<lambda>next_object.
                    Ok (fold push_object visible
                      (out @ [0x0E, read_code, 0x81, if more_follows then 0xFF else 0x00,
                        next_object, as_u8 (length visible)])))))))"

definition file_read_values ::
    "(u16 \<times> u16 \<Rightarrow> u16 option) \<Rightarrow> u16 \<Rightarrow> u16 \<Rightarrow> nat list \<Rightarrow> u16 list exec_result" where
  "file_read_values records file number offsets =
     rmap (\<lambda>offset.
       rbind (ok_or EX_ILLEGAL_DATA_ADDRESS (checked_add_u16 number (as_u16 offset))) (\<lambda>r.
         ok_or EX_ILLEGAL_DATA_ADDRESS (records (file, r)))) offsets"

fun file_read_payload ::
    "(u16 \<times> u16 \<Rightarrow> u16 option) \<Rightarrow> file_record_read list \<Rightarrow> byte list \<Rightarrow> byte list exec_result" where
  "file_read_payload records [] payload = Ok payload"
| "file_read_payload records (r # rs) payload =
     rbind (file_read_values records (frr_file_number r) (frr_record_number r)
              [0..<unat (frr_record_length r)]) (\<lambda>values.
       file_read_payload records rs
         (payload @ [as_u8 (1 + length values * 2), 0x06] @ be_bytes_of values))"

definition encode_file_read_response ::
    "byte list \<Rightarrow> (u16 \<times> u16 \<Rightarrow> u16 option) \<Rightarrow> file_record_read list \<Rightarrow> byte list exec_result" where
  "encode_file_read_response out records requests =
     rbind (file_read_payload records requests []) (\<lambda>payload.
       if length payload > 255 then Err EX_ILLEGAL_DATA_VALUE
       else Ok (out @ [as_u8 (length payload)] @ payload))"

definition push_file_echo :: "file_record_write \<Rightarrow> byte list \<Rightarrow> byte list" where
  "push_file_echo r payload =
     payload @ [0x06] @ to_be_bytes (frw_file_number r) @ to_be_bytes (frw_record_number r) @
       to_be_bytes (as_u16 (length (frw_values r))) @ be_bytes_of (frw_values r)"

definition encode_file_write_echo :: "byte list \<Rightarrow> file_record_write list \<Rightarrow> byte list exec_result" where
  "encode_file_write_echo out requests =
     (let payload = fold push_file_echo requests [] in
      if length payload > 255 then Err EX_ILLEGAL_DATA_VALUE
      else Ok (out @ [as_u8 (length payload)] @ payload))"

fun ensure_spans :: "file_record_write list \<Rightarrow> unit exec_result" where
  "ensure_spans [] = Ok ()"
| "ensure_spans (r # rs) =
     rbind (ensure_span (frw_record_number r) (length (frw_values r))) (\<lambda>_. ensure_spans rs)"

definition validate_file_writes :: "file_record_write list \<Rightarrow> unit exec_result" where
  "validate_file_writes requests =
     rbind (ensure_spans requests) (\<lambda>_.
     rbind (encode_file_write_echo [0x15] requests) (\<lambda>_. Ok ()))"

definition apply_file_write ::
    "file_record_write \<Rightarrow> (u16 \<times> u16 \<Rightarrow> u16 option) \<Rightarrow> (u16 \<times> u16 \<Rightarrow> u16 option)" where
  "apply_file_write r records =
     fold (\<lambda>(offset, value) m. m((frw_file_number r, frw_record_number r + as_u16 offset) \<mapsto> value))
       (enumerate 0 (frw_values r)) records"

definition apply_file_writes ::
    "(u16 \<times> u16 \<Rightarrow> u16 option) \<Rightarrow> file_record_write list \<Rightarrow> (u16 \<times> u16 \<Rightarrow> u16 option)" where
  "apply_file_writes records requests = fold apply_file_write requests records"

section \<open>Executing a request\<close>

text \<open>
  A result carries the model after the request: the code mutates it in place, also on the
  way to an error, so the model is returned with either outcome.
\<close>

definition bits_response :: "byte \<Rightarrow> bool list \<Rightarrow> byte list" where
  "bits_response fc values =
     (let packed = pack_bits values in [fc] @ [as_u8 (length packed)] @ packed)"

definition registers_response :: "byte \<Rightarrow> u16 list \<Rightarrow> byte list" where
  "registers_response fc values = [fc] @ [as_u8 (length values * 2)] @ be_bytes_of values"

definition pair_response :: "byte \<Rightarrow> u16 \<Rightarrow> u16 \<Rightarrow> byte list" where
  "pair_response fc a b = [fc] @ to_be_bytes a @ to_be_bytes b"

definition commit ::
    "model_inner \<Rightarrow> 'b exec_result \<Rightarrow> ('b \<Rightarrow> model_inner \<times> byte list) \<Rightarrow>
     model_inner \<times> byte list exec_result" where
  "commit m r f =
     (case r of Ok b \<Rightarrow> (let (m', out) = f b in (m', Ok out)) | Err e \<Rightarrow> (m, Err e) | Panic \<Rightarrow> (m, Panic))"

definition execute_diagnostics ::
    "model_inner \<Rightarrow> u16 \<Rightarrow> byte list \<Rightarrow> model_inner \<times> byte list exec_result" where
  "execute_diagnostics m sub_function data =
     (if sub_function = 0x0000 then (m, Ok ([0x08] @ to_be_bytes sub_function @ data))
      else if sub_function = 0x000A \<and> data = [0x00, 0x00]
      then (m\<lparr>comm_event_count := 0, message_count := 0, exception_status := 0\<rparr>,
            Ok ([0x08] @ to_be_bytes sub_function @ data))
      else (m, Err EX_ILLEGAL_DATA_VALUE))"

definition execute_mask_write ::
    "model_inner \<Rightarrow> u16 \<Rightarrow> u16 \<Rightarrow> u16 \<Rightarrow> model_inner \<times> byte list exec_result" where
  "execute_mask_write m address and_mask or_mask =
     commit m
       (rbind (block_get (holding_registers m) address) (\<lambda>current.
          let value = (current AND and_mask) OR (or_mask AND NOT and_mask) in
          write_existing (holding_registers m) address [value]))
       (\<lambda>block. (m\<lparr>holding_registers := block\<rparr>,
          [0x16] @ to_be_bytes address @ to_be_bytes and_mask @ to_be_bytes or_mask))"

definition execute_read_write ::
    "model_inner \<Rightarrow> u16 \<Rightarrow> u16 \<Rightarrow> u16 \<Rightarrow> u16 list \<Rightarrow> model_inner \<times> byte list exec_result" where
  "execute_read_write m read_address read_quantity write_address values =
     (case rbind (ensure_defined (holding_registers m) read_address (unat read_quantity)) (\<lambda>_.
           rbind (ensure_defined (holding_registers m) write_address (length values)) (\<lambda>_.
             write_existing (holding_registers m) write_address values)) of
        Err e \<Rightarrow> (m, Err e)
      | Panic \<Rightarrow> (m, Panic)
      | Ok block \<Rightarrow>
          let m' = m\<lparr>holding_registers := block\<rparr> in
          (m', rbind (block_read block read_address read_quantity) (\<lambda>read.
                 Ok (registers_response 0x17 read))))"

definition execute_fifo :: "model_inner \<Rightarrow> u16 \<Rightarrow> byte list exec_result" where
  "execute_fifo m address =
     rbind (ok_or EX_ILLEGAL_DATA_ADDRESS (fifo m address)) (\<lambda>values.
       if length values > 31 then Err EX_ILLEGAL_DATA_VALUE
       else let byte_count = 2 + length values * 2 in
         Ok ([0x18] @ to_be_bytes (as_u16 byte_count) @ to_be_bytes (as_u16 (length values)) @
           be_bytes_of values))"

definition execute_write_file ::
    "model_inner \<Rightarrow> file_record_write list \<Rightarrow> model_inner \<times> byte list exec_result" where
  "execute_write_file m records =
     commit m
       (rbind (validate_file_writes records) (\<lambda>_. encode_file_write_echo [0x15] records))
       (\<lambda>response. (m\<lparr>file_records := apply_file_writes (file_records m) records\<rparr>, response))"

fun execute_request :: "model_inner \<Rightarrow> modbus_request \<Rightarrow> model_inner \<times> byte list exec_result" where
  "execute_request m (ReadBits area address quantity) =
     (m, rbind (block_read (case area of Coils \<Rightarrow> coils m | DiscreteInputs \<Rightarrow> discrete_inputs m)
                  address quantity)
           (\<lambda>values. Ok (bits_response (bit_area_function area) values)))"
| "execute_request m (ReadRegisters area address quantity) =
     (m, rbind (block_read (case area of HoldingRegisters \<Rightarrow> holding_registers m
                            | InputRegisters \<Rightarrow> input_registers m) address quantity)
           (\<lambda>values. Ok (registers_response (register_area_function area) values)))"
| "execute_request m (WriteSingleCoil address value) =
     commit m (write_existing (coils m) address [value])
       (\<lambda>block. (m\<lparr>coils := block\<rparr>, pair_response 0x05 address (coil_word value)))"
| "execute_request m (WriteSingleRegister address value) =
     commit m (write_existing (holding_registers m) address [value])
       (\<lambda>block. (m\<lparr>holding_registers := block\<rparr>, pair_response 0x06 address value))"
| "execute_request m ReadExceptionStatus = (m, Ok [0x07, exception_status m])"
| "execute_request m (Diagnostics sub_function data) = execute_diagnostics m sub_function data"
| "execute_request m GetCommEventCounter = (m, Ok (pair_response 0x0B 0 (comm_event_count m)))"
| "execute_request m GetCommEventLog =
     (m, Ok ([0x0C, 6] @ to_be_bytes 0 @ to_be_bytes (comm_event_count m) @
       to_be_bytes (message_count m)))"
| "execute_request m (WriteMultipleCoils address values) =
     commit m (write_existing (coils m) address values)
       (\<lambda>block. (m\<lparr>coils := block\<rparr>, pair_response 0x0F address (as_u16 (length values))))"
| "execute_request m (WriteMultipleRegisters address values) =
     commit m (write_existing (holding_registers m) address values)
       (\<lambda>block. (m\<lparr>holding_registers := block\<rparr>,
          pair_response 0x10 address (as_u16 (length values))))"
| "execute_request m ReportServerId =
     (m, Ok ([0x11, as_u8 (length (ascii_bytes ''TauTerm'') + 2), 0x01, 0xFF] @ ascii_bytes ''TauTerm''))"
| "execute_request m (ReadFileRecord records) =
     (m, encode_file_read_response [0x14] (file_records m) records)"
| "execute_request m (WriteFileRecord records) = execute_write_file m records"
| "execute_request m (MaskWriteRegister address and_mask or_mask) =
     execute_mask_write m address and_mask or_mask"
| "execute_request m (ReadWriteMultipleRegisters read_address read_quantity write_address values) =
     execute_read_write m read_address read_quantity write_address values"
| "execute_request m (ReadFifoQueue address) = (m, execute_fifo m address)"
| "execute_request m (Mei mei_type data) =
     (m, encode_mei_response [0x2B] (device_objects m) mei_type data)"
| "execute_request m (Raw _ _) = (m, Err EX_ILLEGAL_FUNCTION)"

fun counts_comm_event :: "modbus_request \<Rightarrow> bool" where
  "counts_comm_event GetCommEventCounter = False"
| "counts_comm_event (Diagnostics sub_function _) = (sub_function \<noteq> 0x000A)"
| "counts_comm_event _ = True"

fun clear_counters :: "modbus_request \<Rightarrow> bool" where
  "clear_counters (Diagnostics sub_function data) = (sub_function = 0x000A \<and> data = [0x00, 0x00])"
| "clear_counters _ = False"

definition execute :: "model_inner \<Rightarrow> modbus_request \<Rightarrow> model_inner \<times> byte list exec_result" where
  "execute m request =
     (let (m, result) = execute_request m request;
          m = (if \<not> clear_counters request then m\<lparr>message_count := message_count m + 1\<rparr> else m);
          m = (if is_ok result \<and> counts_comm_event request
               then m\<lparr>comm_event_count := comm_event_count m + 1\<rparr> else m)
      in (m, result))"

section \<open>Address blocks: what a read and a write do\<close>

text \<open>A locale states what the execution relies on; the blocks of the model provide it.\<close>

locale point_store =
  fixes rd :: "'b \<Rightarrow> u16 \<Rightarrow> u16 \<Rightarrow> 'v list exec_result"
    and wr :: "'b \<Rightarrow> u16 \<Rightarrow> 'v list \<Rightarrow> 'b exec_result"
    and defined_at :: "'b \<Rightarrow> u16 set"
  assumes read_own_write: "wr b a vs = Ok b' \<Longrightarrow> unat q = length vs \<Longrightarrow> rd b' a q = Ok vs"
    and write_keeps_defined: "wr b a vs = Ok b' \<Longrightarrow> defined_at b' = defined_at b"
    and read_frame: "wr b a vs = Ok b' \<Longrightarrow>
        unat c + unat q \<le> unat a \<or> unat a + length vs \<le> unat c \<Longrightarrow> rd b' c q = rd b c q"
    and read_ok_iff: "is_ok (rd b a q) \<longleftrightarrow>
        0 < unat q \<and> unat a + unat q \<le> 65536 \<and> (\<forall>i<unat q. a + as_u16 i \<in> defined_at b)"
    and write_ok_iff: "is_ok (wr b a vs) \<longleftrightarrow>
        0 < length vs \<and> unat a + length vs \<le> 65536 \<and> (\<forall>i<length vs. a + as_u16 i \<in> defined_at b)"
begin

lemma readable_iff_writable: "unat q = length vs \<Longrightarrow> is_ok (wr b a vs) \<longleftrightarrow> is_ok (rd b a q)"
  by (simp add: read_ok_iff write_ok_iff)

lemma write_keeps_readable: "wr b a vs = Ok b' \<Longrightarrow> is_ok (rd b' c q) \<longleftrightarrow> is_ok (rd b c q)"
  by (simp add: read_ok_iff write_keeps_defined)

lemma last_write_wins:
  assumes "wr b a vs = Ok b1" "wr b1 a ws = Ok b2" "unat q = length ws"
  shows "rd b2 a q = Ok ws"
  using assms(2,3) by (rule read_own_write)

end

lemma ensure_span_eq [result_simps]:
  "ensure_span a n = Ok u \<longleftrightarrow> 0 < n \<and> unat a + n \<le> 65536" "ensure_span a n \<noteq> Panic"
proof -
  show "ensure_span a n = Ok u \<longleftrightarrow> 0 < n \<and> unat a + n \<le> 65536"
  proof (cases "n = 0 \<or> 65536 < n")
    case True
    then show ?thesis by (auto simp: ensure_span_def Let_def)
  next
    case False
    then have "checked_add_u16 a (as_u16 (n - 1)) = None \<longleftrightarrow> 65536 < unat a + n"
      by (auto simp: checked_add_u16_def unat_as_u16)
    with False show ?thesis by (auto simp: ensure_span_def not_less)
  qed
  show "ensure_span a n \<noteq> Panic" by (simp add: ensure_span_def Let_def)
qed

lemma unat_span: "unat a + i < 65536 \<Longrightarrow> unat (a + as_u16 i) = unat a + i"
  by (simp add: unat_word_ariths unat_as_u16)

lemma ensure_defined_eq [result_simps]:
  "ensure_defined b a n = Ok u \<longleftrightarrow>
     0 < n \<and> unat a + n \<le> 65536 \<and> (\<forall>i<n. a + as_u16 i \<in> dom b)"
  "ensure_defined b a n \<noteq> Panic"
  by (auto simp: ensure_defined_def result_simps list_all_iff split: if_splits)

lemma ensure_defined_Err: "ensure_defined b a n = Err e \<Longrightarrow> e = EX_ILLEGAL_DATA_ADDRESS \<or> n = 0"
  by (auto simp: ensure_defined_def ensure_span_def result_simps Let_def split: if_splits)

lemma block_read_eq:
  "block_read b a q =
     rbind (ensure_defined b a (unat q)) (\<lambda>_. Ok (map (\<lambda>i. the (b (a + as_u16 i))) [0..<unat q]))"
proof (cases "ensure_defined b a (unat q)")
  case (Ok u)
  then have "rmap (\<lambda>i. block_get b (a + as_u16 i)) [0..<unat q] =
      Ok (map (\<lambda>i. the (b (a + as_u16 i))) [0..<unat q])"
    by (intro rmap_Ok_map) (auto simp: result_simps block_get_def)
  with Ok show ?thesis by (simp add: block_read_def)
qed (auto simp: block_read_def)

lemma block_read_cong:
  assumes "\<And>i. i < unat q \<Longrightarrow> unat a + unat q \<le> 65536 \<Longrightarrow> b' (a + as_u16 i) = b (a + as_u16 i)"
  shows "block_read b' a q = block_read b a q"
proof (cases "ensure_span a (unat q)")
  case (Ok u)
  then have "b' (a + as_u16 i) = b (a + as_u16 i)" if "i < unat q" for i
    using assms that by (simp add: result_simps)
  then show ?thesis
    using Ok by (simp add: block_read_eq ensure_defined_def list_all_iff cong: map_cong)
qed (simp_all add: block_read_eq ensure_defined_def)

lemma fold_block_update:
  "unat a + n + length vs \<le> 65536 \<Longrightarrow>
   fold (\<lambda>(i, v) m. m(a + as_u16 i \<mapsto> v)) (enumerate n vs) m =
   (\<lambda>x. if unat a + n \<le> unat x \<and> unat x < unat a + n + length vs
        then Some (vs ! (unat x - unat a - n)) else m x)"
proof (induction vs arbitrary: n m)
  case (Cons v vs)
  have at: "x = a + as_u16 n \<longleftrightarrow> unat x = unat a + n" for x
    using Cons.prems unat_span [of a n] by (auto simp: word_unat_eq_iff)
  have "unat a + Suc n + length vs \<le> 65536" using Cons.prems by simp
  from Cons.IH [OF this] show ?case
    by (auto simp: fun_eq_iff at nth_Cons')
qed (auto simp: fun_eq_iff)

definition block_update :: "'a address_block \<Rightarrow> u16 \<Rightarrow> 'a list \<Rightarrow> 'a address_block" where
  "block_update m a vs = (\<lambda>x. if unat a \<le> unat x \<and> unat x < unat a + length vs
     then Some (vs ! (unat x - unat a)) else m x)"

lemma write_existing_eq:
  "write_existing b a vs = rbind (ensure_defined b a (length vs)) (\<lambda>_. Ok (block_update b a vs))"
proof (cases "ensure_defined b a (length vs)")
  case (Ok u)
  then have "unat a + 0 + length vs \<le> 65536" by (simp add: result_simps)
  from fold_block_update [OF this] Ok show ?thesis
    by (simp add: write_existing_def block_update_def fun_eq_iff)
qed (auto simp: write_existing_def)

lemma dom_block_update:
  assumes "unat a + length vs \<le> 65536" "\<forall>i<length vs. a + as_u16 i \<in> dom b"
  shows "dom (block_update b a vs) = dom b"
proof -
  have "x \<in> dom b" if "unat a \<le> unat x" "unat x < unat a + length vs" for x
  proof -
    have "a + as_u16 (unat x - unat a) = x"
      using that assms(1) unat_span [of a "unat x - unat a"] by (simp add: word_unat_eq_iff)
    moreover have "unat x - unat a < length vs" using that by simp
    ultimately show ?thesis using assms(2) by metis
  qed
  then show ?thesis unfolding block_update_def dom_def by auto
qed

lemma block_update_at:
  "unat a + i < 65536 \<Longrightarrow> i < length vs \<Longrightarrow> block_update b a vs (a + as_u16 i) = Some (vs ! i)"
  by (simp add: block_update_def unat_span)

lemma block_update_off:
  "unat x < unat a \<or> unat a + length vs \<le> unat x \<Longrightarrow> block_update b a vs x = b x"
  by (auto simp: block_update_def)

interpretation block: point_store block_read write_existing dom
proof
  fix b b' :: "'a address_block" and a q :: u16 and vs :: "'a list"
  assume w: "write_existing b a vs = Ok b'" and q: "unat q = length vs"
  then have b': "b' = block_update b a vs" and d: "0 < length vs" "unat a + length vs \<le> 65536"
    "\<forall>i<length vs. a + as_u16 i \<in> dom b"
    by (auto simp: write_existing_eq result_simps)
  have "map (\<lambda>i. the (b' (a + as_u16 i))) [0..<length vs] = vs"
    using d by (intro nth_equalityI) (auto simp: b' block_update_at)
  then show "block_read b' a q = Ok vs"
    using d q by (simp add: block_read_eq result_simps rbind_eq_Ok b' dom_block_update)
next
  fix b b' :: "'a address_block" and a :: u16 and vs :: "'a list"
  assume "write_existing b a vs = Ok b'"
  then have "b' = block_update b a vs" "unat a + length vs \<le> 65536"
    "\<forall>i<length vs. a + as_u16 i \<in> dom b"
    by (auto simp: write_existing_eq result_simps)
  then show "dom b' = dom b" using dom_block_update by blast
next
  fix b b' :: "'a address_block" and a c q :: u16 and vs :: "'a list"
  assume w: "write_existing b a vs = Ok b'"
    and o: "unat c + unat q \<le> unat a \<or> unat a + length vs \<le> unat c"
  then have b': "b' = block_update b a vs" by (auto simp: write_existing_eq result_simps)
  have "b' (c + as_u16 i) = b (c + as_u16 i)" if "i < unat q" "unat c + unat q \<le> 65536" for i
    using that o by (auto simp: b' unat_span intro!: block_update_off)
  then show "block_read b' c q = block_read b c q"
    by (rule block_read_cong)
next
  fix b :: "'a address_block" and a q :: u16
  show "is_ok (block_read b a q) \<longleftrightarrow>
      0 < unat q \<and> unat a + unat q \<le> 65536 \<and> (\<forall>i<unat q. a + as_u16 i \<in> dom b)"
    by (auto simp: is_ok_iff block_read_eq result_simps)
next
  fix b :: "'a address_block" and a :: u16 and vs :: "'a list"
  show "is_ok (write_existing b a vs) \<longleftrightarrow>
      0 < length vs \<and> unat a + length vs \<le> 65536 \<and> (\<forall>i<length vs. a + as_u16 i \<in> dom b)"
    by (auto simp: is_ok_iff write_existing_eq result_simps)
qed
end
