(* ===== verification/Modbus_Device.thy ===== *)
theory Modbus_Device
  imports Modbus_Data_Model
begin

unbundle bit_operations_syntax

text \<open>
  The behaviour of the simulated device of \<open>Modbus_Data_Model\<close>: \<open>execute\<close> never panics,
  a request that fails changes nothing but the message counter, no request creates or removes
  a point, a read returns what the last write stored, and every answer passes the client's
  \<open>validate_response\<close>.
\<close>

section \<open>Executing a request: panics, atomicity, frames\<close>

lemma block_read_outcome [result_simps]:
  "block_read b a q \<noteq> Panic"
  "block_read b a q = Ok vs \<Longrightarrow> length vs = unat q"
  by (auto simp: block_read_eq result_simps)

lemma write_existing_no_panic [result_simps]: "write_existing b a vs \<noteq> Panic"
  by (simp add: write_existing_eq result_simps)

lemma block_get_no_panic [result_simps]: "block_get b a \<noteq> Panic"
  by (simp add: block_get_def result_simps)

lemma file_read_values_no_panic: "file_read_values fr f n os \<noteq> Panic"
  unfolding file_read_values_def by (rule rmap_no_panic) (auto simp: result_simps)

lemma file_read_payload_no_panic: "file_read_payload fr rs p \<noteq> Panic"
  by (induction fr rs p rule: file_read_payload.induct)
    (auto simp: result_simps file_read_values_no_panic)

lemma ensure_spans_no_panic: "ensure_spans rs \<noteq> Panic"
  by (induction rs) (auto simp: result_simps)

lemma commit_simps [simp]:
  "commit m (Ok b) f = (fst (f b), Ok (snd (f b)))" "commit m (Err e) f = (m, Err e)"
  "commit m Panic f = (m, Panic)"
  by (simp_all add: commit_def split: prod.splits)

lemma commit_cases [result_simps]:
  "snd (commit m r f) = Panic \<longleftrightarrow> r = Panic"
  "commit m r f = (m', Err e) \<longleftrightarrow> m' = m \<and> r = Err e"
  "commit m r f = (m', Ok out) \<longleftrightarrow> (\<exists>b. r = Ok b \<and> f b = (m', out))"
  by (cases r; auto simp: prod_eq_iff)+

lemma encode_mei_response_no_panic: "encode_mei_response out objs t d \<noteq> Panic"
  by (auto simp: encode_mei_response_def select_objects_def result_simps Let_def split: if_splits)

text \<open>Reading after the write of a combined read/write cannot fail: both ranges were checked.\<close>

lemma execute_read_write_eq:
  "execute_read_write m ra rq wa vs =
     (case rbind (ensure_defined (holding_registers m) ra (unat rq)) (\<lambda>_.
             ensure_defined (holding_registers m) wa (length vs)) of
        Ok _ \<Rightarrow> let block = block_update (holding_registers m) wa vs in
          (m\<lparr>holding_registers := block\<rparr>,
           Ok (registers_response 0x17 (map (\<lambda>i. the (block (ra + as_u16 i))) [0..<unat rq])))
      | Err e \<Rightarrow> (m, Err e) | Panic \<Rightarrow> (m, Panic))"
proof (cases "ensure_defined (holding_registers m) ra (unat rq)")
  case r: (Ok u)
  show ?thesis
  proof (cases "ensure_defined (holding_registers m) wa (length vs)")
    case w: (Ok v)
    let ?b = "block_update (holding_registers m) wa vs"
    from w have "write_existing (holding_registers m) wa vs = Ok ?b" by (simp add: write_existing_eq)
    then have "is_ok (block_read ?b ra rq)"
      using r by (simp add: block.write_keeps_readable) (simp add: block_read_eq)
    then have "ensure_defined ?b ra (unat rq) = Ok ()"
      by (auto simp: is_ok_iff block_read_eq result_simps)
    with r w show ?thesis
      by (simp add: execute_read_write_def write_existing_eq block_read_eq Let_def)
  qed (use r in \<open>simp_all add: execute_read_write_def write_existing_eq\<close>)
qed (simp_all add: execute_read_write_def)

lemma encode_file_write_echo_no_panic [result_simps]: "encode_file_write_echo out rs \<noteq> Panic"
  by (simp add: encode_file_write_echo_def Let_def)

lemmas execute_arm_defs = execute_diagnostics_def execute_mask_write_def execute_read_write_eq
  execute_fifo_def execute_write_file_def encode_file_read_response_def validate_file_writes_def

lemma execute_request_no_panic: "snd (execute_request m r) \<noteq> Panic"
  by (cases r) (auto simp: execute_arm_defs result_simps file_read_payload_no_panic
      ensure_spans_no_panic encode_mei_response_no_panic Let_def split: result.splits)

lemma execute_request_error_atomic: "execute_request m r = (m', Err e) \<Longrightarrow> m' = m"
  by (cases r) (auto simp: execute_arm_defs result_simps Let_def split: result.splits if_splits)

lemma clear_counters_Ok: "clear_counters r \<Longrightarrow> is_ok (snd (execute_request m r))"
  by (cases r) (auto simp: execute_diagnostics_def)

text \<open>The counters \<open>execute\<close> updates after the request itself.\<close>

definition tally :: "modbus_request \<Rightarrow> bool \<Rightarrow> model_inner \<Rightarrow> model_inner" where
  "tally r ok m =
     (let m = (if \<not> clear_counters r then m\<lparr>message_count := message_count m + 1\<rparr> else m)
      in if ok \<and> counts_comm_event r then m\<lparr>comm_event_count := comm_event_count m + 1\<rparr> else m)"

lemma execute_eq:
  "execute m r = (tally r (is_ok (snd (execute_request m r))) (fst (execute_request m r)),
     snd (execute_request m r))"
  by (simp add: execute_def tally_def Let_def split: prod.splits)

lemma tally_fields [simp]:
  "coils (tally r ok m) = coils m" "discrete_inputs (tally r ok m) = discrete_inputs m"
  "holding_registers (tally r ok m) = holding_registers m"
  "input_registers (tally r ok m) = input_registers m" "file_records (tally r ok m) = file_records m"
  "fifo (tally r ok m) = fifo m" "device_objects (tally r ok m) = device_objects m"
  "exception_status (tally r ok m) = exception_status m"
  by (simp_all add: tally_def Let_def)

lemma execute_no_panic: "snd (execute m r) \<noteq> Panic"
  by (simp add: execute_eq execute_request_no_panic)

lemma execute_error_atomic:
  assumes "execute m r = (m', Err e)"
  shows "m' = m\<lparr>message_count := message_count m + 1\<rparr>"
proof -
  have e: "snd (execute_request m r) = Err e" using assms by (simp add: execute_eq)
  then have "fst (execute_request m r) = m" "\<not> clear_counters r"
    using execute_request_error_atomic [of m r] clear_counters_Ok [of r m]
    by (auto simp: prod_eq_iff)
  with assms e show ?thesis by (auto simp: execute_eq tally_def)
qed

section \<open>What a request leaves unchanged\<close>

text \<open>The layout of the device: which points exist, and everything no request can write.\<close>

definition same_layout :: "model_inner \<Rightarrow> model_inner \<Rightarrow> bool" where
  "same_layout m m' \<longleftrightarrow> dom (coils m') = dom (coils m) \<and>
     dom (holding_registers m') = dom (holding_registers m) \<and>
     discrete_inputs m' = discrete_inputs m \<and> input_registers m' = input_registers m \<and>
     fifo m' = fifo m \<and> device_objects m' = device_objects m \<and>
     dom (file_records m) \<subseteq> dom (file_records m')"

lemma same_layout_refl [simp]: "same_layout m m"
  by (simp add: same_layout_def)

lemma same_layout_trans: "same_layout a b \<Longrightarrow> same_layout b c \<Longrightarrow> same_layout a c"
  using subset_trans [of "dom (file_records a)" "dom (file_records b)"] by (simp add: same_layout_def)

lemma dom_fold_update: "dom m \<subseteq> dom (fold (\<lambda>(i, v) m. m(k i \<mapsto> v)) ivs m)"
proof (induction ivs arbitrary: m)
  case (Cons iv ivs)
  obtain i v where iv: "iv = (i, v)" by fastforce
  have "dom m \<subseteq> dom (m(k i \<mapsto> v))" by auto
  with Cons.IH [of "m(k i \<mapsto> v)"] show ?case unfolding iv by (simp only: fold_simps prod.case)
qed simp

lemma dom_apply_file_writes: "dom fr \<subseteq> dom (apply_file_writes fr rs)"
  unfolding apply_file_writes_def
proof (induction rs arbitrary: fr)
  case (Cons r rs)
  have "dom fr \<subseteq> dom (apply_file_write r fr)"
    unfolding apply_file_write_def by (rule dom_fold_update)
  also have "\<dots> \<subseteq> dom (fold apply_file_write rs (apply_file_write r fr))" by (rule Cons.IH)
  finally show ?case by simp
qed simp

lemma dom_write: "write_existing b a vs = Ok b' \<Longrightarrow> dom b' = dom b"
  by (rule block.write_keeps_defined)

lemma execute_request_layout: "same_layout m (fst (execute_request m r))"
proof (cases r)
  case (WriteSingleCoil a v)
  then show ?thesis
    by (cases "write_existing (coils m) a [v]") (simp_all add: same_layout_def dom_write)
next
  case (WriteSingleRegister a v)
  then show ?thesis
    by (cases "write_existing (holding_registers m) a [v]") (simp_all add: same_layout_def dom_write)
next
  case (WriteMultipleCoils a vs)
  then show ?thesis
    by (cases "write_existing (coils m) a vs") (simp_all add: same_layout_def dom_write)
next
  case (WriteMultipleRegisters a vs)
  then show ?thesis
    by (cases "write_existing (holding_registers m) a vs") (simp_all add: same_layout_def dom_write)
next
  case (MaskWriteRegister a am om)
  let ?w = "\<lambda>v. write_existing (holding_registers m) a [v]"
  have "same_layout m (m\<lparr>holding_registers := b\<rparr>)" if "?w v = Ok b" for v b
    using that by (simp_all add: same_layout_def dom_write)
  then show ?thesis
    using MaskWriteRegister
    by (auto simp: execute_mask_write_def commit_def result_simps Let_def split: result.splits)
next
  case (WriteFileRecord rs)
  have "same_layout m (m\<lparr>file_records := apply_file_writes (file_records m) rs\<rparr>)"
    using dom_apply_file_writes [of "file_records m" rs] by (simp add: same_layout_def)
  then show ?thesis
    using WriteFileRecord by (simp add: execute_write_file_def commit_def split: result.splits)
next
  case (ReadWriteMultipleRegisters ra rq wa vs)
  have "same_layout m (m\<lparr>holding_registers := block_update (holding_registers m) wa vs\<rparr>)"
    if "ensure_defined (holding_registers m) wa (length vs) = Ok u" for u
    using that by (simp add: same_layout_def result_simps dom_block_update)
  then show ?thesis
    using ReadWriteMultipleRegisters
    by (auto simp: execute_read_write_eq result_simps Let_def split: result.splits)
qed (simp_all add: same_layout_def execute_diagnostics_def)

lemma execute_layout: "same_layout m (fst (execute m r))"
  using execute_request_layout [of m r] by (simp add: execute_eq same_layout_def)

text \<open>A request that is not a write leaves all points and records as they are.\<close>

lemma execute_request_read_only:
  assumes "\<not> is_write r"
  shows "fst (execute_request m r) = m \<or> clear_counters r \<and>
    fst (execute_request m r) = m\<lparr>comm_event_count := 0, message_count := 0, exception_status := 0\<rparr>"
  using assms by (cases r) (auto simp: execute_diagnostics_def)

section \<open>The client accepts what the device answers\<close>

lemma function_not_exception:
  "request_function r \<noteq> request_function r OR 0x80" if "\<forall>f d. r \<noteq> Raw f d"
  using that by (cases r rule: request_function.cases) (auto elim: bit_area_function.elims register_area_function.elims)

lemma validate_normal:
  assumes "\<forall>f d. r \<noteq> Raw f d" "validate_data r data = Ok ()"
  shows "validate_response r (request_function r # data) =
    Ok \<lparr>resp_function = request_function r, resp_data = data, resp_exception = None\<rparr>"
  using assms function_not_exception [of r] by (simp add: validate_response_def Let_def)

lemma validate_bits_response:
  assumes "length vs = unat q" "q \<le> 2000"
  shows "validate_data (ReadBits area a q) (tl (bits_response fc vs)) = Ok ()"
  using assms by (auto simp: bits_response_def result_simps unat_as_u8 div_ceil_def word_le_nat_alt)

lemma validate_registers_response:
  assumes "length vs = unat q" "(q :: u16) \<le> 125"
  shows "validate_byte_count (tl (registers_response fc vs)) (unat (q :: u16) * 2) = Ok ()"
  using assms by (auto simp: registers_response_def result_simps unat_as_u8 word_le_nat_alt)

lemma validate_fifo:
  assumes "execute_fifo m a = Ok pdu"
  shows "pdu = 0x18 # tl pdu \<and> validate_fifo_response (tl pdu) = Ok ()"
  using assms
  by (auto simp: execute_fifo_def result_simps validate_fifo_response_def u16_bytes Let_def
      byte_simps split: if_splits)

lemma file_read_payload_acc:
  "file_read_payload fr rs acc = rbind (file_read_payload fr rs []) (\<lambda>p. Ok (acc @ p))"
proof (induction rs arbitrary: acc)
  case (Cons r rs)
  show ?case
    by (cases "file_read_values fr (frr_file_number r) (frr_record_number r) [0..<unat (frr_record_length r)]")
      (simp_all add: Cons.IH [of "acc @ _"] Cons.IH [of "_ # _"] rbind_assoc)
qed simp

lemma file_read_payload_valid:
  assumes "file_read_payload fr rs [] = Ok p"
    "\<forall>r\<in>set rs. 1 \<le> frr_record_length r \<and> frr_record_length r \<le> 125"
  shows "file_read_cursor (pre @ p) rs (length pre) = Ok (length pre + length p)"
  using assms
proof (induction rs arbitrary: pre p)
  case (Cons r rs)
  from Cons.prems(1) obtain vs where vs: "file_read_values fr (frr_file_number r) (frr_record_number r)
      [0..<unat (frr_record_length r)] = Ok vs"
    and "file_read_payload fr rs ([as_u8 (1 + length vs * 2), 0x06] @ be_bytes_of vs) = Ok p"
    by (auto simp: result_simps)
  then obtain q where q: "file_read_payload fr rs [] = Ok q"
    and p: "p = [as_u8 (1 + length vs * 2), 0x06] @ be_bytes_of vs @ q"
    by (subst (asm) file_read_payload_acc) (auto simp: result_simps)
  have len: "length vs = unat (frr_record_length r)"
    using rmap_length [OF vs [unfolded file_read_values_def]] by simp
  have "unat (frr_record_length r) \<le> 125" using Cons.prems(2) by (simp add: word_le_nat_alt)
  then have sub: "unat (as_u8 (1 + length vs * 2)) = 1 + length vs * 2"
    by (simp add: unat_as_u8 len)
  let ?pre = "pre @ [as_u8 (1 + length vs * 2), 0x06] @ be_bytes_of vs"
  have "file_read_cursor (?pre @ q) rs (length ?pre) = Ok (length ?pre + length q)"
    using Cons.IH [OF q, of ?pre] Cons.prems(2) by simp
  then show ?case
    using sub by (simp add: p len nth_append add_ac mult.commute)
qed simp

lemma validate_file_read:
  assumes "encode_file_read_response [0x14] fr rs = Ok pdu"
    "\<forall>r\<in>set rs. 1 \<le> frr_record_length r \<and> frr_record_length r \<le> 125"
  shows "pdu = 0x14 # tl pdu \<and> validate_file_read_response (tl pdu) rs = Ok ()"
proof -
  obtain p where p: "file_read_payload fr rs [] = Ok p" "length p \<le> 255"
    and pdu: "pdu = 0x14 # as_u8 (length p) # p"
    using assms(1) by (auto simp: encode_file_read_response_def result_simps split: if_splits)
  show ?thesis
    using file_read_payload_valid [OF p(1) assms(2), of "[as_u8 (length p)]"] p(2)
    by (simp add: pdu validate_file_read_response_def validate_count_prefixed_def unat_as_u8)
qed

lemma push_file_echo_eq: "push_file_echo r p = p @ file_write_bytes r"
  by (simp add: push_file_echo_def file_write_bytes_def)

lemma fold_push_file_echo: "fold push_file_echo rs p = p @ concat (map file_write_bytes rs)"
  by (induction rs arbitrary: p) (simp_all add: push_file_echo_eq)

lemma file_write_echo_is_request:
  assumes "encode_request (WriteFileRecord rs) = Ok req"
  shows "encode_file_write_echo [0x15] rs = Ok req"
  using assms
  by (auto simp: encode_request_Ok encode_write_file_Ok encode_file_write_echo_def fold_push_file_echo
      Let_def)

text \<open>Device identification: the objects come in increasing order of their ids.\<close>

lemma objects_from_ids:
  "map fst (objects_from objs s) = map as_u8 (filter (\<lambda>n. objs (as_u8 n) \<noteq> None) [unat s..<256])"
proof -
  have "map fst (List.map_filter (\<lambda>n. map_option (\<lambda>v. (as_u8 n, v)) (objs (as_u8 n))) ns) =
      map as_u8 (filter (\<lambda>n. objs (as_u8 n) \<noteq> None) ns)" for ns
    by (induction ns) (auto simp: List.map_filter_simps split: option.splits)
  then show ?thesis by (simp add: objects_from_def)
qed

lemma objects_from_sorted: "sorted_wrt (<) (map fst (objects_from objs s))"
proof -
  have "sorted_wrt (<) (filter (\<lambda>n. objs (as_u8 n) \<noteq> None) [unat s..<256])"
    by (simp add: sorted_wrt_filter)
  then show ?thesis
    unfolding objects_from_ids sorted_wrt_map
    by (rule sorted_wrt_mono_rel [rotated]) (auto simp: word_less_nat_alt unat_as_u8)
qed

lemma objects_from_nonempty:
  assumes "objs k \<noteq> None" "s \<le> k"
  shows "objects_from objs s \<noteq> []"
proof -
  have "unat k \<in> set (filter (\<lambda>n. objs (as_u8 n) \<noteq> None) [unat s..<256])"
    using assms u8_bound [of k] by (simp add: word_le_nat_alt)
  then have "map fst (objects_from objs s) \<noteq> []"
    unfolding objects_from_ids by (metis list.set(1) map_is_Nil_conv empty_iff)
  then show ?thesis by auto
qed

definition object_bytes :: "byte \<times> byte list \<Rightarrow> byte list" where
  "object_bytes o' = [fst o', as_u8 (min (length (snd o')) 255)] @ take (min (length (snd o')) 255) (snd o')"

lemma fold_push_object: "fold push_object os out = out @ concat (map object_bytes os)"
  by (induction os arbitrary: out) (simp_all add: push_object_def object_bytes_def Let_def split: prod.splits)

lemma mei_objects_step:
  assumes "unat l = length v" "\<forall>p. prev = Some p \<longrightarrow> p < i"
  shows "mei_objects (pre @ i # l # v @ rest) (Suc k) (length pre) prev =
    mei_objects (pre @ i # l # v @ rest) k (length pre + 2 + length v) (Some i)"
  using assms by (cases prev) (auto simp: nth_append Let_def dest: leD)

lemma mei_objects_valid:
  assumes "sorted_wrt (<) (map fst os)" "\<forall>p. prev = Some p \<longrightarrow> (\<forall>o'\<in>set os. p < fst o')"
  shows "mei_objects (pre @ concat (map object_bytes os)) (length os) (length pre) prev =
    Ok (length pre + length (concat (map object_bytes os)),
        if os = [] then prev else Some (fst (last os)))"
  using assms
proof (induction os arbitrary: pre prev)
  case (Cons o' os)
  let ?n = "min (length (snd o')) 255" and ?pre = "pre @ object_bytes o'"
  have "mei_objects (?pre @ concat (map object_bytes os)) (length os) (length ?pre) (Some (fst o')) =
    Ok (length ?pre + length (concat (map object_bytes os)),
        if os = [] then Some (fst o') else Some (fst (last os)))"
    using Cons.prems by (intro Cons.IH) auto
  moreover have "unat (as_u8 ?n) = length (take ?n (snd o'))" by (simp add: unat_as_u8)
  moreover have "\<forall>p. prev = Some p \<longrightarrow> p < fst o'" using Cons.prems(2) by auto
  ultimately show ?case
    using mei_objects_step [of "as_u8 ?n" "take ?n (snd o')" prev "fst o'" pre
        "concat (map object_bytes os)" "length os"]
    by (simp add: object_bytes_def [of o'] add_ac)
qed simp

lemma select_objects_facts:
  assumes "select_objects objs code s = Ok sel" "objs k \<noteq> None"
  shows "sorted_wrt (<) (map fst sel)" "sel \<noteq> []" "code = 0x04 \<Longrightarrow> \<exists>v. sel = [(s, v)]"
proof -
  have "sorted_wrt (<) (map fst (take 17 (objects_from objs x)))" for x
    using objects_from_sorted [of objs x] by (simp add: sorted_wrt_take flip: take_map)
  moreover have "objects_from objs (if objs s \<noteq> None then s else 0) \<noteq> []"
    using assms(2) objects_from_nonempty [of objs s s] objects_from_nonempty [of objs k 0] by simp
  ultimately show "sorted_wrt (<) (map fst sel)" "sel \<noteq> []" "code = 0x04 \<Longrightarrow> \<exists>v. sel = [(s, v)]"
    using assms(1) by (auto simp: select_objects_def result_simps Let_def split: if_splits)
qed

lemma encode_mei_response_Ok:
  assumes "encode_mei_response out objs t d = Ok pdu"
  obtains code s sel where "t = 0x0E" "d = [code, s]" "1 \<le> code" "code \<le> 4"
    "select_objects objs code s = Ok sel"
    "pdu = out @ [0x0E, code, 0x81, if length sel > 16 then 0xFF else 0x00,
        if length sel > 16 then fst (sel ! 16) else 0, as_u8 (length (take 16 sel))] @
        concat (map object_bytes (take 16 sel))"
  using assms
  by (auto simp: encode_mei_response_def result_simps Let_def length_two_conv fold_push_object
      split: if_splits)

lemma validate_mei:
  assumes "encode_mei_response [0x2B] objs t d = Ok pdu" "objs k \<noteq> None"
  shows "pdu = 0x2B # tl pdu \<and> validate_mei_response (tl pdu) t d = Ok ()"
proof -
  from assms(1) obtain code s sel where t: "t = 0x0E" and d: "d = [code, s]"
    and code: "1 \<le> code" "code \<le> 4" and sel: "select_objects objs code s = Ok sel"
    and pdu: "pdu = [0x2B] @ [0x0E, code, 0x81, if length sel > 16 then 0xFF else 0x00,
        if length sel > 16 then fst (sel ! 16) else 0, as_u8 (length (take 16 sel))] @
        concat (map object_bytes (take 16 sel))"
    by (rule encode_mei_response_Ok)
  note facts = select_objects_facts [OF sel assms(2)]
  have four: "code = 4 \<Longrightarrow> length sel = 1 \<and> fst (last (take 16 sel)) = s" using facts(3) by auto
  have adv: "fst (last (take 16 sel)) < fst (sel ! 16)" if "16 < length sel"
  proof -
    have "last (take 16 sel) = sel ! 15" using that by (subst last_conv_nth) auto
    moreover have "map fst sel ! 15 < map fst sel ! 16"
      using sorted_wrt_nth_less [OF facts(1), of 15 16] that by simp
    ultimately show ?thesis using that by simp
  qed
  have "object_bytes x \<noteq> []" for x by (simp add: object_bytes_def)
  then have "concat (map object_bytes (take 16 sel)) \<noteq> []"
    using facts(2) by (cases sel) auto
  then have len: "6 < length (tl pdu)" by (simp add: pdu)
  obtain h where h: "tl pdu = h @ concat (map object_bytes (take 16 sel))" "length h = 6"
    by (rule that [of "take 6 (tl pdu)"]) (simp_all add: pdu)
  define n where "n = length (take 16 sel)"
  define more where "more = (if length sel > 16 then 0xFF else 0x00 :: byte)"
  define nxt where "nxt = (if length sel > 16 then fst (sel ! 16) else 0)"
  note defs = n_def more_def nxt_def
  have "sorted_wrt (<) (map fst (take 16 sel))"
    using facts(1) by (simp add: sorted_wrt_take flip: take_map)
  then have objs: "mei_objects (tl pdu) n 6 None =
      Ok (length (tl pdu), Some (fst (last (take 16 sel))))"
    using mei_objects_valid [of "take 16 sel" None h] facts(2) by (simp add: h n_def)
  have hd: "tl pdu ! 0 = 0x0E" "tl pdu ! Suc 0 = code" "tl pdu ! 2 = 0x81" "tl pdu ! 3 = more"
    "tl pdu ! 4 = nxt" "unat (tl pdu ! 5) = n" and mf: "more = 0 \<or> more = 0xFF"
    by (simp_all add: pdu unat_as_u8 defs)
  have hdr: "mei_header_ok code 0x81 more nxt n = Ok ()"
    using four by (auto simp: mei_header_ok_def defs)
  have tail: "mei_tail_ok (tl pdu) [code, s] more nxt
      (length (tl pdu), Some (fst (last (take 16 sel)))) = Ok ()"
    using four adv by (auto simp: mei_tail_ok_def defs not_le)
  have "pdu = 0x2B # tl pdu" by (simp add: pdu)
  moreover have "validate_mei_response (tl pdu) t d = Ok ()"
    using len mf tail by (auto simp: t d validate_mei_response_def get_opt_def hd hdr objs)
  ultimately show ?thesis by blast
qed

lemma execute_write_valid:
  assumes req: "encode_request r = Ok req" and out: "snd (execute_request m r) = Ok pdu" and w: "is_write r"
  shows "pdu = request_function r # tl pdu \<and> validate_data r (tl pdu) = Ok ()"
proof (cases r)
  case (ReadWriteMultipleRegisters ra rq wa vs)
  with req have "rq \<le> 125" by (auto simp: encode_request_Ok encode_read_write_Ok(4))
  with ReadWriteMultipleRegisters out show ?thesis
    by (auto simp: execute_read_write_eq result_simps registers_response_def Let_def unat_as_u8
        word_le_nat_alt split: result.splits)
next
  case (WriteFileRecord rs)
  with req file_write_echo_is_request [of rs req] out have "pdu = req"
    by (auto simp: execute_write_file_def commit_def result_simps split: result.splits)
  moreover have "req = 0x15 # tl req"
    using WriteFileRecord req by (auto simp: encode_request_Ok encode_write_file_Ok)
  ultimately show ?thesis
    using WriteFileRecord req by (cases req) (auto simp: validate_write_file_def)
next
  case (MaskWriteRegister a am om)
  with out show ?thesis
    by (auto simp: execute_mask_write_def commit_def result_simps Let_def validate_mask_write_def
        u16_bytes require_len_def split: result.splits)
qed (use out w in \<open>auto simp: commit_def pair_response_def validate_pair_echo_def
      validate_write_multiple_echo_def u16_bytes require_len_def split: result.splits\<close>)

lemma execute_request_valid:
  assumes req: "encode_request r = Ok req" and out: "snd (execute_request m r) = Ok pdu"
    and obj: "device_objects m k \<noteq> None"
  shows "pdu = request_function r # tl pdu \<and> validate_data r (tl pdu) = Ok ()"
proof (cases r)
  case (ReadBits area a q)
  with req have "q \<le> 2000" by (auto simp: encode_request_Ok result_simps)
  with ReadBits out validate_bits_response [of _ q area a "bit_area_function area"] show ?thesis
    by (auto simp: result_simps bits_response_def Let_def dest!: block_read_outcome(2))
next
  case (ReadRegisters area a q)
  with req have "q \<le> 125" by (auto simp: encode_request_Ok result_simps)
  with ReadRegisters out validate_registers_response [of _ q "register_area_function area"]
  show ?thesis
    by (auto simp: result_simps registers_response_def dest!: block_read_outcome(2))
next
  case (ReadFileRecord rs)
  with req out validate_file_read [of "file_records m" rs pdu] show ?thesis
    by (simp add: encode_request_Ok encode_read_file_Ok)
next
  case (ReadFifoQueue a)
  with out validate_fifo [of m a pdu] show ?thesis by simp
next
  case (Mei t d)
  with out obj validate_mei [of "device_objects m" t d pdu k] show ?thesis by simp
next
  case (Diagnostics sf d)
  with out show ?thesis
    by (auto simp: execute_diagnostics_def validate_diagnostics_def u16_bytes from_be_bytes_def
        split: if_splits)
next
  case GetCommEventLog
  with out show ?thesis
    by (auto simp: validate_comm_event_log_def validate_count_prefixed_def u16_bytes
        validate_comm_status_def from_be_bytes_def)
next
  case ReportServerId
  with out show ?thesis
    by (auto simp: ascii_bytes_def validate_report_server_id_def validate_count_prefixed_def unat_as_u8
        as_u8_def)
qed (use execute_write_valid [OF req out] out in \<open>auto simp: pair_response_def u16_bytes
      validate_comm_event_counter_def require_len_def validate_comm_status_def from_be_bytes_def\<close>)

lemma encode_file_read_head: "encode_file_read_response out fr rs = Ok pdu \<Longrightarrow> \<exists>d. pdu = out @ d"
  by (auto simp: encode_file_read_response_def result_simps split: if_splits)

lemma encode_file_write_head: "encode_file_write_echo out rs = Ok pdu \<Longrightarrow> \<exists>d. pdu = out @ d"
  by (auto simp: encode_file_write_echo_def Let_def split: if_splits)

lemma execute_request_head:
  assumes "snd (execute_request m r) = Ok pdu"
  shows "\<exists>d. pdu = request_function r # d"
  using assms
proof (cases r)
  case (ReadFileRecord rs)
  then show ?thesis using assms by (auto dest: encode_file_read_head)
next
  case (WriteFileRecord rs)
  then show ?thesis
    using assms by (auto simp: execute_write_file_def commit_def result_simps split: result.splits
        dest: encode_file_write_head)
next
  case (Mei t d)
  then show ?thesis using assms by (auto elim: encode_mei_response_Ok)
qed (auto simp: result_simps execute_arm_defs bits_response_def registers_response_def pair_response_def
    commit_def Let_def split: result.splits if_splits)

text \<open>A server's exception reply.\<close>

lemma validate_exception:
  "validate_response r [request_function r OR 0x80, c] =
     Ok \<lparr>resp_function = request_function r, resp_data = [], resp_exception = Some c\<rparr>"
  by (simp add: validate_response_def Let_def)

section \<open>Properties\<close>

text \<open>C6. Whatever the simulated device answers to a request that can be
  sent, the client's validation accepts it as the normal response of that function with the
  device's payload. The device must have at least one identification object, as the default
  model has, for the function that lists them.\<close>

theorem device_answers_validate:
  assumes "encode_request r = Ok req" "snd (execute m r) = Ok pdu" "device_objects m k \<noteq> None"
  shows "validate_response r pdu =
    Ok \<lparr>resp_function = request_function r, resp_data = tl pdu, resp_exception = None\<rparr>"
proof -
  have ex: "snd (execute_request m r) = Ok pdu" using assms(2) by (simp add: execute_eq)
  have "\<forall>f d. r \<noteq> Raw f d" using ex by auto
  with validate_normal execute_request_valid [OF assms(1) ex assms(3)] show ?thesis by metis
qed

theorem device_answers_validate_witness:
  "validate_response (ReadRegisters HoldingRegisters 7 2) [0x03, 4, 0x12, 0x34, 0, 5] =
   Ok \<lparr>resp_function = 0x03, resp_data = [4, 0x12, 0x34, 0, 5], resp_exception = None\<rparr>"
proof -
  let ?m = "set_holding_register (set_holding_register (default_model [49]) 7 0x1234) 8 5"
  have req: "encode_request (ReadRegisters HoldingRegisters 7 2) = Ok [0x03, 0, 7, 0, 2]" by code_simp
  have ans: "snd (execute ?m (ReadRegisters HoldingRegisters 7 2)) = Ok [0x03, 4, 0x12, 0x34, 0, 5]"
    by (simp add: execute_eq block_read_def ensure_defined_def ensure_span_def checked_add_u16_def
        as_u16_def as_u8_def set_holding_register_def block_set_def default_model_def
        registers_response_def block_get_def to_be_bytes_def upt_rec)
  have obj: "device_objects ?m 0 \<noteq> None"
    by (simp add: default_model_def set_holding_register_def)
  from device_answers_validate [OF req ans obj] show ?thesis by simp
qed

text \<open>A small device for the concrete instances: two holding registers and a coil.\<close>

definition demo_device :: model_inner where
  "demo_device = set_coil (set_holding_register (set_holding_register (default_model [49]) 7 0x1234) 8 5) 3 False"

lemma demo_device_fields [simp]:
  "holding_registers demo_device = [7 \<mapsto> 0x1234, 8 \<mapsto> 5]" "coils demo_device = [3 \<mapsto> False]"
  "message_count demo_device = 0" "file_records demo_device = Map.empty"
  "device_objects demo_device 0 = Some (ascii_bytes ''TauTerm'')"
  by (simp_all add: demo_device_def set_coil_def set_holding_register_def block_set_def default_model_def)

lemmas demo_simps = execute_eq block_read_def write_existing_def ensure_defined_def ensure_span_def
  checked_add_u16_def as_u16_def as_u8_def registers_response_def pair_response_def block_get_def
  to_be_bytes_def upt_rec

lemma write_registers_Ok:
  "execute m (WriteMultipleRegisters a vs) = (m', Ok pdu) \<longleftrightarrow>
     (\<exists>b. write_existing (holding_registers m) a vs = Ok b \<and>
        pdu = pair_response 0x10 a (as_u16 (length vs)) \<and>
        m' = tally (WriteMultipleRegisters a vs) True (m\<lparr>holding_registers := b\<rparr>))"
  by (cases "write_existing (holding_registers m) a vs") (auto simp: execute_eq)

lemma read_registers_eq:
  "snd (execute m (ReadRegisters HoldingRegisters a q)) =
     rbind (block_read (holding_registers m) a q) (\<lambda>vs. Ok (registers_response 0x03 vs))"
  by (simp add: execute_eq)

text \<open>C30. The device answers every request with a PDU or an exception
  code. When it answers with an exception code, nothing of it has changed but the message
  counter: no write is applied in part. No request adds or removes a coil or a register, and none
  changes the read-only areas.\<close>

theorem device_total_atomic:
  "((\<exists>pdu. snd (execute m r) = Ok pdu) \<or>
    (\<exists>e. snd (execute m r) = Err e \<and>
       fst (execute m r) = m\<lparr>message_count := message_count m + 1\<rparr>)) \<and>
   same_layout m (fst (execute m r))"
  using execute_no_panic [of m r] execute_error_atomic [of m r "fst (execute m r)"]
    execute_layout [of m r]
  by (cases "snd (execute m r)") (auto simp: prod_eq_iff)

text \<open>After a successful write of several registers, reading the
  same range returns the written values, and reading a range that does not meet it returns what it
  returned before.\<close>

theorem write_registers_then_read:
  assumes "execute m (WriteMultipleRegisters a vs) = (m', Ok pdu)" "length vs < 65536"
  shows "snd (execute m' (ReadRegisters HoldingRegisters a (as_u16 (length vs)))) =
      Ok (registers_response 0x03 vs) \<and>
    (unat c + unat q \<le> unat a \<or> unat a + length vs \<le> unat c \<longrightarrow>
      snd (execute m' (ReadRegisters HoldingRegisters c q)) =
      snd (execute m (ReadRegisters HoldingRegisters c q)))"
proof -
  obtain b where w: "write_existing (holding_registers m) a vs = Ok b"
    and m': "holding_registers m' = b"
    using assms(1) by (auto simp: write_registers_Ok)
  have "block_read b a (as_u16 (length vs)) = Ok vs"
    using block.read_own_write [OF w] assms(2) by (simp add: byte_simps)
  then show ?thesis
    using block.read_frame [OF w] by (auto simp: read_registers_eq m')
qed

theorem write_registers_then_read_witness:
  "snd (execute (fst (execute demo_device (WriteMultipleRegisters 7 [1, 2])))
      (ReadRegisters HoldingRegisters 7 (as_u16 (length [1, 2 :: u16])))) =
     Ok (registers_response 0x03 [1, 2])"
proof -
  have "execute demo_device (WriteMultipleRegisters 7 [1, 2]) =
      (fst (execute demo_device (WriteMultipleRegisters 7 [1, 2])), Ok [0x10, 0, 7, 0, 2])"
    by (simp add: demo_simps)
  from write_registers_then_read [OF this] show ?thesis by simp
qed

text \<open>The combined function writes first: its answer carries
  the same registers as a write of the values followed by a read, also where the two ranges
  overlap, and it leaves the same registers behind.\<close>

theorem read_write_is_write_then_read:
  assumes "execute m (ReadWriteMultipleRegisters ra rq wa vs) = (m', Ok pdu)"
  shows "\<exists>m1 echo. execute m (WriteMultipleRegisters wa vs) = (m1, Ok echo) \<and>
    snd (execute m1 (ReadRegisters HoldingRegisters ra rq)) = Ok (0x03 # tl pdu) \<and>
    holding_registers m' = holding_registers m1 \<and> hd pdu = 0x17"
proof -
  let ?b = "block_update (holding_registers m) wa vs"
  from assms obtain u v where r: "ensure_defined (holding_registers m) ra (unat rq) = Ok u"
    and w: "ensure_defined (holding_registers m) wa (length vs) = Ok v"
    and m': "holding_registers m' = ?b"
    and pdu: "pdu = registers_response 0x17 (map (\<lambda>i. the (?b (ra + as_u16 i))) [0..<unat rq])"
    by (auto simp: execute_eq execute_read_write_eq rbind_eq_Ok Let_def split: result.splits)
  from w have wr: "write_existing (holding_registers m) wa vs = Ok ?b"
    by (simp add: write_existing_eq)
  then have "is_ok (block_read ?b ra rq)"
    using r by (simp add: block.write_keeps_readable) (simp add: block_read_eq)
  then have "block_read ?b ra rq = Ok (map (\<lambda>i. the (?b (ra + as_u16 i))) [0..<unat rq])"
    by (auto simp: is_ok_iff block_read_eq result_simps)
  then show ?thesis
    by (intro exI) (auto simp: write_registers_Ok wr read_registers_eq m' pdu registers_response_def)
qed

theorem read_write_is_write_then_read_witness:
  "\<exists>m1 echo. execute demo_device (WriteMultipleRegisters 8 [9]) = (m1, Ok echo) \<and>
     snd (execute m1 (ReadRegisters HoldingRegisters 7 2)) = Ok [0x03, 4, 0x12, 0x34, 0, 9]"
proof -
  have "execute demo_device (ReadWriteMultipleRegisters 7 2 8 [9]) =
      (fst (execute demo_device (ReadWriteMultipleRegisters 7 2 8 [9])),
       Ok [0x17, 4, 0x12, 0x34, 0, 9])"
    by (simp add: demo_simps execute_read_write_def)
  from read_write_is_write_then_read [OF this] show ?thesis by auto
qed

lemma block_update_single: "block_update b a [v] = b(a \<mapsto> v)"
  by (auto simp: block_update_def fun_eq_iff word_unat_eq_iff)

lemma ensure_defined_single: "b a = Some w \<Longrightarrow> ensure_defined b a (Suc 0) = Ok ()"
  using u16_bound [of a] by (auto simp: result_simps as_u16_def)

text \<open>A mask write of an existing register replaces exactly the bits the
  AND mask clears, by those of the OR mask, touches no other register and answers with the
  request's own PDU.\<close>

theorem mask_write_bits:
  assumes "holding_registers m a = Some w"
  shows "\<exists>w'. snd (execute m (MaskWriteRegister a am om)) =
      Ok (0x16 # to_be_bytes a @ to_be_bytes am @ to_be_bytes om) \<and>
    holding_registers (fst (execute m (MaskWriteRegister a am om))) =
      (holding_registers m)(a \<mapsto> w') \<and>
    (\<forall>n. bit w' n \<longleftrightarrow> n < 16 \<and> (if bit am n then bit w n else bit om n))"
proof -
  let ?w = "(w AND am) OR (om AND NOT am)"
  have "bit ?w n \<longleftrightarrow> n < 16 \<and> (if bit am n then bit w n else bit om n)" for n
    by (auto simp: bit_simps dest: bit_imp_le_length)
  moreover have "execute_mask_write m a am om =
      (m\<lparr>holding_registers := (holding_registers m)(a \<mapsto> ?w)\<rparr>,
       Ok (0x16 # to_be_bytes a @ to_be_bytes am @ to_be_bytes om))"
    using assms by (simp add: execute_mask_write_def block_get_def write_existing_eq
        ensure_defined_single block_update_single)
  ultimately show ?thesis by (intro exI [of _ ?w]) (simp add: execute_eq)
qed

theorem mask_write_bits_witness:
  "\<exists>w'. holding_registers (fst (execute demo_device (MaskWriteRegister 7 0x00F2 0x0025))) 7 = Some w' \<and>
     \<not> bit w' 1 \<and> bit w' 0 \<and> bit w' 4"
proof -
  have "holding_registers demo_device 7 = Some 0x1234" by simp
  from mask_write_bits [OF this, of "0x00F2" "0x0025"] show ?thesis
    by (auto simp: bit_numeral_word_iff)
qed

section \<open>File records\<close>

definition file_update ::
    "(u16 \<times> u16 \<Rightarrow> u16 option) \<Rightarrow> u16 \<Rightarrow> u16 \<Rightarrow> u16 list \<Rightarrow> (u16 \<times> u16 \<Rightarrow> u16 option)" where
  "file_update fr f a vs = (\<lambda>(g, x). if g = f then block_update (\<lambda>x. fr (f, x)) a vs x else fr (g, x))"

lemma apply_file_write_eq:
  assumes "unat (frw_record_number r) + length (frw_values r) \<le> 65536"
  shows "apply_file_write r fr = file_update fr (frw_file_number r) (frw_record_number r) (frw_values r)"
proof -
  let ?f = "frw_file_number r" and ?a = "frw_record_number r"
  have lift: "fold (\<lambda>(i, v) m. m((f, k i) \<mapsto> v)) ivs fr =
      (\<lambda>(g, x). if g = f then fold (\<lambda>(i, v) m. m(k i \<mapsto> v)) ivs (\<lambda>x. fr (f, x)) x else fr (g, x))"
    for f :: u16 and k :: "nat \<Rightarrow> u16" and ivs and fr :: "u16 \<times> u16 \<Rightarrow> u16 option"
  proof (induction ivs arbitrary: fr)
    case (Cons iv ivs)
    obtain i v where iv: "iv = (i, v)" by fastforce
    have "(\<lambda>x. (fr((f, k i) \<mapsto> v)) (f, x)) = (\<lambda>x. fr (f, x))(k i \<mapsto> v)" by (auto simp: fun_eq_iff)
    then show ?case unfolding iv fold_simps prod.case Cons.IH by (simp only:) auto
  qed auto
  show ?thesis
    using assms unfolding apply_file_write_def lift file_update_def
    by (simp add: fold_block_update [where n = 0] block_update_def fun_eq_iff)
qed

lemma ensure_spans_Ok:
  "ensure_spans rs = Ok u \<longleftrightarrow>
     (\<forall>r\<in>set rs. frw_values r \<noteq> [] \<and> unat (frw_record_number r) + length (frw_values r) \<le> 65536)"
  by (induction rs) (auto simp: result_simps)

lemma checked_add_in: "unat a + i < 65536 \<Longrightarrow> checked_add_u16 a (as_u16 i) = Some (a + as_u16 i)"
  by (simp add: checked_add_u16_def byte_simps)

lemma file_read_values_eq:
  assumes "unat n + k \<le> 65536" "\<And>i. i < k \<Longrightarrow> fr (f, n + as_u16 i) = Some (g i)"
  shows "file_read_values fr f n [0..<k] = Ok (map g [0..<k])"
  unfolding file_read_values_def
  by (rule rmap_Ok_map) (use assms in \<open>auto simp: checked_add_in\<close>)

lemma file_read_values_update:
  assumes "unat n + length vs \<le> 65536"
  shows "file_read_values (file_update fr f n vs) f n [0..<length vs] = Ok vs"
proof -
  have "file_read_values (file_update fr f n vs) f n [0..<length vs] =
      Ok (map ((!) vs) [0..<length vs])"
    using assms by (intro file_read_values_eq) (auto simp: file_update_def block_update_at)
  then show ?thesis by (simp add: map_nth)
qed

text \<open>Records written to a file are read back: the answer to the read
  carries one group with the written values.\<close>

theorem file_write_then_read:
  assumes "execute m (WriteFileRecord [\<lparr>frw_file_number = f, frw_record_number = n, frw_values = vs\<rparr>]) =
      (m', Ok pdu)"
  shows "snd (execute m' (ReadFileRecord [\<lparr>frr_file_number = f, frr_record_number = n,
      frr_record_length = as_u16 (length vs)\<rparr>])) =
    Ok ([0x14, as_u8 (2 + 2 * length vs), as_u8 (1 + length vs * 2), 0x06] @ be_bytes_of vs)"
proof -
  let ?r = "\<lparr>frw_file_number = f, frw_record_number = n, frw_values = vs\<rparr>"
  from assms have sp: "unat n + length vs \<le> 65536"
    and len: "7 + 2 * length vs \<le> 255"
    and m': "file_records m' = apply_file_write ?r (file_records m)"
    by (auto simp: execute_eq execute_write_file_def validate_file_writes_def commit_def result_simps
        encode_file_write_echo_def push_file_echo_eq apply_file_writes_def Let_def
        split: result.splits if_splits)
  have "file_records m' = file_update (file_records m) f n vs"
    using apply_file_write_eq [of ?r] sp by (simp add: m')
  then show ?thesis
    using sp len by (simp add: execute_eq encode_file_read_response_def file_read_values_update byte_simps)
qed

theorem file_write_then_read_witness:
  "snd (execute (fst (execute demo_device
        (WriteFileRecord [\<lparr>frw_file_number = 4, frw_record_number = 1, frw_values = [6, 7]\<rparr>])))
      (ReadFileRecord [\<lparr>frr_file_number = 4, frr_record_number = 1,
        frr_record_length = as_u16 (length [6, 7 :: u16])\<rparr>])) =
   Ok [0x14, 6, 5, 0x06, 0, 6, 0, 7]"
proof -
  let ?w = "WriteFileRecord [\<lparr>frw_file_number = 4, frw_record_number = 1, frw_values = [6, 7]\<rparr>]"
  have "execute demo_device ?w = (fst (execute demo_device ?w),
      Ok [0x15, 11, 0x06, 0, 4, 0, 1, 0, 2, 0, 6, 0, 7])"
    by (simp add: demo_simps execute_write_file_def validate_file_writes_def
        encode_file_write_echo_def push_file_echo_def Let_def)
  from file_write_then_read [OF this] show ?thesis by (simp add: as_u8_def to_be_bytes_def)
qed

end
