(* ===== verification/Modbus_Server.thy ===== *)
theory Modbus_Server
  imports Modbus_Transaction Modbus_Device
begin

unbundle bit_operations_syntax

text \<open>
  The server, \<open>plugins/modbus/server.rs\<close>: frames of a serial line or of TCP peers are decoded,
  executed on the data model, possibly under injected faults, answered and recorded. A handler
  takes the server and the link of the line or the peer and returns both; \<open>Panic\<close> is a panic of
  the thread. The loops are given as their body, one iteration, and a run of a number of
  iterations, since they go on until the server is stopped.

  The worker threads of TCP peers interleave. The system of peers is a step relation: a step is
  one event of one peer with all the frames it completes, the acceptance or the end of a peer, or
  an operation of the workbench. Handlers take the model and the history one after the other under
  their locks; the relation does not split a handler.
\<close>

section \<open>Executing with injected faults\<close>

definition exception_pdu :: "byte \<Rightarrow> byte \<Rightarrow> byte list" where
  "exception_pdu fc code = [fc OR 0x80, code]"

record server_execution =
  se_response :: "byte list option"
  se_status :: transaction_status
  se_exception_code :: "byte option"
  se_message :: "message option"

definition delay_link :: "link \<Rightarrow> u64 \<Rightarrow> link" where
  "delay_link lk ms = (if ms > 0 then lk\<lparr>clock := clock lk + unat ms * 1000\<rparr> else lk)"

definition execute_with_fault ::
    "server_fault_config \<Rightarrow> model_inner \<Rightarrow> modbus_request \<Rightarrow>
     (server_execution \<times> model_inner, unit) result" where
  "execute_with_fault f m request =
     (if no_response f then
        (case execute m request of
           (_, Panic) \<Rightarrow> Panic
         | (m', res) \<Rightarrow> Ok
             (\<lparr>se_response = None, se_status = FaultInjected,
               se_exception_code = (case res of Err code \<Rightarrow> Some code | _ \<Rightarrow> None),
               se_message = Some (Msg ''response suppressed by server fault injection'')\<rparr>, m'))
      else case fault_exception_code f of
        Some code \<Rightarrow> Ok
          (\<lparr>se_response = Some (exception_pdu (request_function request) code),
            se_status = ModbusException, se_exception_code = Some code,
            se_message = Some (Msg ''forced server exception'')\<rparr>, m)
      | None \<Rightarrow>
          (case execute m request of
             (m', Ok response) \<Rightarrow> Ok
               (\<lparr>se_response = Some response, se_status = Success, se_exception_code = None,
                 se_message = None\<rparr>, m')
           | (m', Err code) \<Rightarrow> Ok
               (\<lparr>se_response = Some (exception_pdu (request_function request) code),
                 se_status = ModbusException, se_exception_code = Some code, se_message = None\<rparr>, m')
           | (_, Panic) \<Rightarrow> Panic))"

section \<open>Answering and recording\<close>

record modbus_server =
  server_cfg :: validated_modbus_config
  model :: model_inner
  server_fault :: server_fault_config
  server_log :: history_log
  running :: bool

definition append_delivery_error :: "message \<Rightarrow> message option \<Rightarrow> message" where
  "append_delivery_error msg delivery_error =
     (case delivery_error of None \<Rightarrow> msg
      | Some e \<Rightarrow> Fmt ''{message}; response delivery failed: {error}'' [msg, e] [])"

type_synonym delivery = "((byte list \<times> message option) \<times> link, unit) result"

definition deliver :: "link \<Rightarrow> byte list pdu_result \<Rightarrow> delivery" where
  "deliver lk encoded =
     (case encoded of
        Ok frame \<Rightarrow> (case link_write lk frame of (err, lk) \<Rightarrow> Ok ((frame, err), lk))
      | Err error \<Rightarrow> Ok (([], Some error), lk)
      | Panic \<Rightarrow> Panic)"

definition send_serial_response ::
    "link \<Rightarrow> validated_modbus_config \<Rightarrow> byte \<Rightarrow> byte list \<Rightarrow> delivery" where
  "send_serial_response lk cfg unit pdu =
     (case config_mode cfg of
        ModeRtu \<Rightarrow> deliver lk (rtu_encode unit pdu)
      | ModeAscii \<Rightarrow> deliver lk (ascii_encode unit pdu)
      | ModeTcp \<Rightarrow> Ok (([], Some (Msg ''invalid serial response mode'')), lk))"

definition send_tcp_response :: "link \<Rightarrow> u16 \<Rightarrow> byte \<Rightarrow> byte list \<Rightarrow> delivery" where
  "send_tcp_response lk tid unit pdu = deliver lk (tcp_encode tid unit pdu)"

definition server_result ::
    "link \<Rightarrow> nat \<Rightarrow> transaction_status \<Rightarrow> byte \<Rightarrow> u16 option \<Rightarrow> byte \<Rightarrow> byte option \<Rightarrow> byte list \<Rightarrow>
     byte list \<Rightarrow> byte list \<Rightarrow> message option \<Rightarrow> transaction_result" where
  "server_result lk started st fc tid unit code tx rx pdu msg =
     \<lparr>timestamp_ms = wall_ms lk, status = st, tr_function = fc, transaction_id = tid, unit_id = unit,
      latency_ms = elapsed_ms lk started, exception_code = code, raw_tx = tx, raw_rx = rx,
      response_pdu = pdu, semantic = None, tr_message = msg, write_outcome_unknown = False,
      attempt = 0\<rparr>"

definition log_server :: "modbus_server \<Rightarrow> transaction_result \<Rightarrow> modbus_server" where
  "log_server s r = s\<lparr>server_log := record_server (server_log s) r\<rparr>"

type_synonym handled = "(modbus_server \<times> link, unit) result"

text \<open>A request that does not decode is answered with exception 3 and recorded.\<close>

definition reject_request ::
    "modbus_server \<Rightarrow> link \<Rightarrow> nat \<Rightarrow> (link \<Rightarrow> byte list \<Rightarrow> delivery) \<Rightarrow> u16 option \<Rightarrow> byte \<Rightarrow> byte list \<Rightarrow>
     byte list \<Rightarrow> message \<Rightarrow> handled" where
  "reject_request s lk started send tid unit frame pdu msg =
     (let fc = (case pdu of [] \<Rightarrow> 0 | b # _ \<Rightarrow> b); response = exception_pdu fc 0x03 in
      rbind (send lk response) (\<lambda>((tx, delivery_error), lk).
        Ok (log_server s (server_result lk started
              (if delivery_error \<noteq> None then TransportError else ProtocolError) fc tid unit (Some 0x03)
              tx frame response (Some (append_delivery_error msg delivery_error))), lk)))"

text \<open>A request that was executed is answered, unless the response is suppressed, and recorded.\<close>

definition answer_request ::
    "modbus_server \<Rightarrow> link \<Rightarrow> nat \<Rightarrow> (link \<Rightarrow> byte list \<Rightarrow> delivery) \<Rightarrow> u16 option \<Rightarrow> byte \<Rightarrow> byte list \<Rightarrow>
     modbus_request \<Rightarrow> server_execution \<Rightarrow> handled" where
  "answer_request s lk started send tid unit frame request execution =
     (case se_response execution of
        None \<Rightarrow> Ok (log_server s (server_result lk started (se_status execution)
                  (request_function request) tid unit (se_exception_code execution) [] frame []
                  (se_message execution)), lk)
      | Some response \<Rightarrow>
          rbind (send lk response) (\<lambda>((tx, delivery_error), lk).
            let st = (if delivery_error \<noteq> None then TransportError else se_status execution);
                msg = (if delivery_error \<noteq> None
                       then Some (append_delivery_error
                              (case se_message execution of Some m \<Rightarrow> m | None \<Rightarrow> Msg ''request processed'')
                              delivery_error)
                       else se_message execution)
            in Ok (log_server s (server_result lk started st (request_function request) tid unit
                     (se_exception_code execution) tx frame response msg), lk)))"

section \<open>Frames\<close>

definition run_request ::
    "modbus_server \<Rightarrow> link \<Rightarrow> modbus_request \<Rightarrow> (server_execution \<times> modbus_server \<times> link, unit) result" where
  "run_request s lk request =
     rbind (execute_with_fault (server_fault s) (model s) request) (\<lambda>(execution, m).
       Ok (execution, s\<lparr>model := m\<rparr>, delay_link lk (delay_ms (server_fault s))))"

definition serial_decode ::
    "modbus_mode \<Rightarrow> byte list \<Rightarrow> (byte \<times> byte list) pdu_result" where
  "serial_decode mode frame = (if mode = ModeRtu then rtu_decode frame else ascii_decode frame)"

definition process_serial_frame :: "modbus_server \<Rightarrow> link \<Rightarrow> byte list \<Rightarrow> handled" where
  "process_serial_frame s lk frame =
     (let started = clock lk; cfg = server_cfg s; mode = config_mode cfg in
      if mode = ModeTcp then Ok (s, lk)
      else case serial_decode mode frame of
        Panic \<Rightarrow> Panic
      | Err _ \<Rightarrow> Ok (s, lk)
      | Ok (unit, pdu) \<Rightarrow>
          let broadcast = (unit = 0); send = (\<lambda>lk. send_serial_response lk cfg unit) in
          if \<not> broadcast \<and> unit \<noteq> config_unit_id cfg then Ok (s, lk)
          else case decode_request pdu of
            Panic \<Rightarrow> Panic
          | Err msg \<Rightarrow>
              if broadcast then Ok (s, lk) else reject_request s lk started send None unit frame pdu msg
          | Ok d \<Rightarrow>
              let request = dec_request d in
              if broadcast \<and> \<not> is_write request then Ok (s, lk)
              else rbind (run_request s lk request) (\<lambda>(execution, s, lk).
                if broadcast
                then Ok (log_server s (server_result lk started Broadcast (request_function request)
                       None 0 (se_exception_code execution) [] frame [] (se_message execution)), lk)
                else answer_request s lk started send None unit frame request execution))"

definition unsupported_execution :: "modbus_request \<Rightarrow> server_execution" where
  "unsupported_execution request =
     \<lparr>se_response = Some (exception_pdu (request_function request) 0x01), se_status = ModbusException,
      se_exception_code = Some 0x01,
      se_message = Some (Msg ''serial-line-only function is unavailable on Modbus TCP'')\<rparr>"

definition process_tcp_frame :: "modbus_server \<Rightarrow> link \<Rightarrow> byte list \<Rightarrow> handled" where
  "process_tcp_frame s lk frame =
     (let started = clock lk in
      case tcp_decode frame of
        Panic \<Rightarrow> Panic
      | Err _ \<Rightarrow> Ok (s, lk)
      | Ok (tid, unit, pdu) \<Rightarrow>
          if unit \<noteq> config_unit_id (server_cfg s) then Ok (s, lk)
          else
            let send = (\<lambda>lk. send_tcp_response lk tid unit) in
            case decode_request pdu of
              Panic \<Rightarrow> Panic
            | Err msg \<Rightarrow> reject_request s lk started send (Some tid) unit frame pdu msg
            | Ok d \<Rightarrow>
                let request = dec_request d in
                if \<not> request_supported_on_mode ModeTcp request
                then answer_request s lk started send (Some tid) unit frame request
                       (unsupported_execution request)
                else rbind (run_request s lk request) (\<lambda>(execution, s, lk).
                       answer_request s lk started send (Some tid) unit frame request execution))"

fun process_frames ::
    "(modbus_server \<Rightarrow> link \<Rightarrow> byte list \<Rightarrow> handled) \<Rightarrow> modbus_server \<Rightarrow> link \<Rightarrow> byte list list \<Rightarrow> handled" where
  "process_frames handle s lk [] = Ok (s, lk)"
| "process_frames handle s lk (f # fs) =
     rbind (handle s lk f) (\<lambda>(s, lk). process_frames handle s lk fs)"

section \<open>Loops\<close>

text \<open>
  One iteration of a loop: \<open>Some\<close> goes on with the server, the link and the buffer, \<open>None\<close> is
  \<open>break\<close>.
\<close>

type_synonym iteration = "((modbus_server \<times> link \<times> byte list) option, unit) result"

definition ascii_iteration :: "modbus_server \<Rightarrow> link \<Rightarrow> byte list \<Rightarrow> iteration" where
  "ascii_iteration s lk framer =
     (case recv_timeout lk 50000 of
        (Got (Closed _), _) \<Rightarrow> Ok None
      | (Got (Data data), lk) \<Rightarrow>
          (let (frames, framer) = ascii_push framer data in
           rbind (process_frames process_serial_frame s lk frames) (\<lambda>(s, lk). Ok (Some (s, lk, framer))))
      | (TimedOut, lk) \<Rightarrow> Ok (Some (s, lk, framer))
      | (Disconnected, _) \<Rightarrow> Ok None)"

definition rtu_iteration :: "modbus_server \<Rightarrow> link \<Rightarrow> byte list \<Rightarrow> iteration" where
  "rtu_iteration s lk buffer =
     (let inter_char = rtu_inter_char_gap (server_cfg s); frame_gap = rtu_frame_gap (server_cfg s);
          frame_tail = frame_gap - inter_char; wait = (if buffer = [] then 50000 else inter_char) in
      case recv_timeout lk wait of
        (Got (Closed _), _) \<Rightarrow> Ok None
      | (Got (Data data), lk) \<Rightarrow> Ok (Some (s, lk, buffer @ data))
      | (Disconnected, _) \<Rightarrow> Ok None
      | (TimedOut, lk) \<Rightarrow>
          if buffer = [] then Ok (Some (s, lk, buffer))
          else case recv_timeout lk frame_tail of
            (Got (Data _), lk) \<Rightarrow> Ok (Some (s, lk, []))
          | (Got (Closed _), _) \<Rightarrow> Ok None
          | (Disconnected, _) \<Rightarrow> Ok None
          | (TimedOut, lk) \<Rightarrow>
              rbind (process_serial_frame s lk buffer) (\<lambda>(s, lk). Ok (Some (s, lk, []))))"

definition tcp_peer_iteration :: "modbus_server \<Rightarrow> link \<Rightarrow> byte list \<Rightarrow> iteration" where
  "tcp_peer_iteration s lk framer =
     (case recv_timeout lk 100000 of
        (Got (Closed _), _) \<Rightarrow> Ok None
      | (Got (Data data), lk) \<Rightarrow>
          (case tcp_push framer data of
             Panic \<Rightarrow> Panic
           | Err _ \<Rightarrow> Ok None
           | Ok (frames, framer) \<Rightarrow>
               rbind (process_frames process_tcp_frame s lk frames) (\<lambda>(s, lk). Ok (Some (s, lk, framer))))
      | (TimedOut, lk) \<Rightarrow> Ok (Some (s, lk, framer))
      | (Disconnected, _) \<Rightarrow> Ok None)"

text \<open>At most \<open>n\<close> iterations of a loop while the server runs.\<close>

fun run_loop ::
    "(modbus_server \<Rightarrow> link \<Rightarrow> byte list \<Rightarrow> iteration) \<Rightarrow> nat \<Rightarrow> modbus_server \<Rightarrow> link \<Rightarrow> byte list \<Rightarrow>
     (modbus_server \<times> link, unit) result" where
  "run_loop body 0 s lk buf = Ok (s, lk)"
| "run_loop body (Suc n) s lk buf =
     (if \<not> running s then Ok (s, lk)
      else case body s lk buf of
        Panic \<Rightarrow> Panic
      | Err e \<Rightarrow> Err e
      | Ok None \<Rightarrow> Ok (s, lk)
      | Ok (Some (s, lk, buf)) \<Rightarrow> run_loop body n s lk buf)"

definition run_ascii_server where "run_ascii_server = run_loop ascii_iteration"
definition run_rtu_server where "run_rtu_server = run_loop rtu_iteration"
definition run_tcp_peer where "run_tcp_peer = run_loop tcp_peer_iteration"

section \<open>Administration\<close>

definition new_server :: "validated_modbus_config \<Rightarrow> byte list \<Rightarrow> modbus_server pdu_result" where
  "new_server cfg version =
     rbind (ok_or (Msg ''ModbusServer requires server runtime configuration'') (config_server cfg)) (\<lambda>sc.
       Ok \<lparr>server_cfg = cfg, model = default_model version, server_fault = fault sc,
         server_log = empty_log, running = False\<rparr>)"

definition set_fault :: "modbus_server \<Rightarrow> server_fault_config \<Rightarrow> modbus_server pdu_result" where
  "set_fault s f = rbind (validate_fault f) (\<lambda>_. Ok (s\<lparr>server_fault := f\<rparr>))"

definition shutdown_server :: "modbus_server \<Rightarrow> modbus_server" where
  "shutdown_server s = s\<lparr>running := False\<rparr>"

text \<open>\<open>reap_finished_workers\<close> over a list of workers, each with its \<open>is_finished\<close>.\<close>

function reap_loop :: "('w \<Rightarrow> bool) \<Rightarrow> 'w list \<Rightarrow> nat \<Rightarrow> 'w list" where
  "reap_loop finished workers index =
     (if \<not> index < length workers then workers
      else if finished (workers ! index)
      then reap_loop finished (take index workers @ drop (Suc index) workers) index
      else reap_loop finished workers (index + 1))"
  by pat_completeness auto
termination
  by (relation "measure (\<lambda>(_, workers, index). length workers - index)") auto

definition reap_finished_workers :: "('w \<Rightarrow> bool) \<Rightarrow> 'w list \<Rightarrow> 'w list" where
  "reap_finished_workers finished workers = reap_loop finished workers 0"

declare reap_loop.simps [simp del]

section \<open>Lemmas: no panic, and what a handler changes\<close>

lemma execute_with_fault_Ok: "\<exists>e m'. execute_with_fault f m r = Ok (e, m') \<and> same_layout m m'"
proof -
  obtain m1 res where e: "execute m r = (m1, res)" by fastforce
  with execute_no_panic [of m r] execute_layout [of m r] have "res \<noteq> Panic" "same_layout m m1" by simp_all
  then show ?thesis
    by (cases res) (simp_all add: execute_with_fault_def e split: option.splits)
qed

lemma deliver_Ok:
  assumes "encoded \<noteq> Panic"
  shows "\<exists>tx err lk'. deliver lk encoded = Ok ((tx, err), lk') \<and> queue lk' = queue lk \<and>
    clock lk' = clock lk \<and> sender_gone lk' = sender_gone lk \<and>
    sent lk' = (if err = None then sent lk @ [tx] else sent lk) \<and> (err = None \<longrightarrow> encoded = Ok tx)"
proof (cases encoded)
  case (Ok frame)
  obtain err lk1 where w: "link_write lk frame = (err, lk1)" by fastforce
  show ?thesis using link_write_facts [OF w] by (auto simp: deliver_def Ok w)
qed (use assms in \<open>auto simp: deliver_def\<close>)

text \<open>What the handlers need of a send function; both of the server's are one.\<close>

locale sender =
  fixes send :: "link \<Rightarrow> byte list \<Rightarrow> delivery"
    and wire :: "byte list \<Rightarrow> byte list pdu_result"
  assumes send_Ok: "\<exists>tx err lk'. send lk pdu = Ok ((tx, err), lk') \<and> queue lk' = queue lk \<and>
      clock lk' = clock lk \<and> sender_gone lk' = sender_gone lk \<and>
      sent lk' = (if err = None then sent lk @ [tx] else sent lk) \<and> (err = None \<longrightarrow> wire pdu = Ok tx)"
begin

lemma answer_request_Ok:
  "\<exists>r lk' fs. answer_request s lk t send tid u frame req e = Ok (log_server s r, lk') \<and>
     queue lk' = queue lk \<and> clock lk' = clock lk \<and> sent lk' = sent lk @ fs \<and>
     raw_rx r = frame \<and> tr_function r = request_function req \<and> exception_code r = se_exception_code e \<and>
     (case se_response e of None \<Rightarrow> fs = [] \<and> status r = se_status e
      | Some pdu \<Rightarrow> fs = [] \<and> status r = TransportError \<or>
          (\<exists>tx. wire pdu = Ok tx \<and> fs = [tx] \<and> raw_tx r = tx \<and> response_pdu r = pdu \<and> status r = se_status e))"
proof (cases "se_response e")
  case None
  let ?r = "server_result lk t (se_status e) (request_function req) tid u (se_exception_code e) [] frame []
      (se_message e)"
  show ?thesis
    by (intro exI [of _ ?r] exI [of _ lk] exI [of _ "[]"])
      (simp add: answer_request_def server_result_def None)
next
  case (Some pdu)
  obtain tx err lk1 where "send lk pdu = Ok ((tx, err), lk1)" "queue lk1 = queue lk" "clock lk1 = clock lk"
    "sent lk1 = (if err = None then sent lk @ [tx] else sent lk)" "err = None \<longrightarrow> wire pdu = Ok tx"
    using send_Ok by blast
  then show ?thesis
    using Some by (cases err) (auto simp: answer_request_def server_result_def Let_def)
qed

lemma reject_request_Ok:
  "\<exists>r lk' fs. reject_request s lk t send tid u frame pdu msg = Ok (log_server s r, lk') \<and>
     queue lk' = queue lk \<and> clock lk' = clock lk \<and> sent lk' = sent lk @ fs \<and> raw_rx r = frame \<and>
     exception_code r = Some 3 \<and>
     (fs = [] \<and> status r = TransportError \<or>
      (\<exists>tx. wire (exception_pdu (case pdu of [] \<Rightarrow> 0 | b # _ \<Rightarrow> b) 3) = Ok tx \<and> fs = [tx] \<and>
         status r = ProtocolError))"
proof -
  let ?p = "exception_pdu (case pdu of [] \<Rightarrow> 0 | b # _ \<Rightarrow> b) 3"
  obtain tx err lk1 where "send lk ?p = Ok ((tx, err), lk1)" "queue lk1 = queue lk" "clock lk1 = clock lk"
    "sent lk1 = (if err = None then sent lk @ [tx] else sent lk)" "err = None \<longrightarrow> wire ?p = Ok tx"
    using send_Ok by blast
  then show ?thesis
    by (cases err) (auto simp: reject_request_def server_result_def Let_def)
qed

end

interpretation tcp_tx: sender "\<lambda>lk. send_tcp_response lk tid u" "tcp_encode tid u" for tid u
  by unfold_locales (unfold send_tcp_response_def, rule deliver_Ok,
      use encode_adu_no_panic [of AduTcp u tid] in \<open>simp add: encode_adu_def\<close>)

definition serial_wire :: "validated_modbus_config \<Rightarrow> byte \<Rightarrow> byte list \<Rightarrow> byte list pdu_result" where
  "serial_wire cfg u pdu = (if config_mode cfg = ModeTcp then Err (Msg ''invalid serial response mode'')
     else encode_adu (adu_mode_of (config_mode cfg)) u 0 pdu)"

interpretation serial_tx: sender "\<lambda>lk. send_serial_response lk cfg u" "serial_wire cfg u" for cfg u
proof
  fix lk pdu
  have "send_serial_response lk cfg u pdu = deliver lk (serial_wire cfg u pdu)"
    by (cases "config_mode cfg")
      (simp_all add: send_serial_response_def serial_wire_def encode_adu_def deliver_def)
  moreover have "serial_wire cfg u pdu \<noteq> Panic" by (simp add: serial_wire_def encode_adu_no_panic)
  ultimately show "\<exists>tx err lk'. send_serial_response lk cfg u pdu = Ok ((tx, err), lk') \<and>
      queue lk' = queue lk \<and> clock lk' = clock lk \<and> sender_gone lk' = sender_gone lk \<and>
      sent lk' = (if err = None then sent lk @ [tx] else sent lk) \<and>
      (err = None \<longrightarrow> serial_wire cfg u pdu = Ok tx)"
    using deliver_Ok [of "serial_wire cfg u pdu" lk] by simp
qed

lemma run_request_Ok:
  "\<exists>e m' lk'. run_request s lk req = Ok (e, s\<lparr>model := m'\<rparr>, lk') \<and>
     execute_with_fault (server_fault s) (model s) req = Ok (e, m') \<and> same_layout (model s) m' \<and>
     sent lk' = sent lk \<and> queue lk' = queue lk \<and> write_errors lk' = write_errors lk"
  using execute_with_fault_Ok [of "server_fault s" "model s" req]
  by (auto simp: run_request_def delay_link_def)

text \<open>What a frame may change of a server.\<close>

definition server_step_ok :: "modbus_server \<Rightarrow> modbus_server \<Rightarrow> bool" where
  "server_step_ok s s' \<longleftrightarrow> server_cfg s' = server_cfg s \<and> server_fault s' = server_fault s \<and>
     running s' = running s \<and> same_layout (model s) (model s') \<and>
     (server_log s' = server_log s \<or> (\<exists>r. server_log s' = record_server (server_log s) r))"

lemma server_step_refl [simp]: "server_step_ok s s"
  by (simp add: server_step_ok_def)

lemma server_step_log [simp]:
  "same_layout (model s) m \<Longrightarrow> server_step_ok s (log_server (s\<lparr>model := m\<rparr>) r)"
  "server_step_ok s (log_server s r)"
  by (auto simp: server_step_ok_def log_server_def)

lemma serial_decode_no_panic: "serial_decode mode f \<noteq> Panic"
  using rtu.decode_no_panic [of f] by (simp add: serial_decode_def ascii_decode_no_panic)

lemma process_tcp_frame_Ok:
  "\<exists>s' lk'. process_tcp_frame s lk f = Ok (s', lk') \<and> server_step_ok s s' \<and> queue lk' = queue lk \<and>
     (\<exists>fs. sent lk' = sent lk @ fs \<and> length fs \<le> 1)"
proof (cases "tcp_decode f")
  case (Ok d)
  obtain tid u pdu where d: "d = (tid, u, pdu)" by (cases d) auto
  show ?thesis
  proof (cases "u = config_unit_id (server_cfg s)")
    case True
    show ?thesis
    proof (cases "decode_request pdu")
      case q: (Ok dr)
      let ?req = "dec_request dr"
      show ?thesis
      proof (cases "request_supported_on_mode ModeTcp ?req")
        case sup: True
        obtain e m' lk1 where r: "run_request s lk ?req = Ok (e, s\<lparr>model := m'\<rparr>, lk1)"
          "same_layout (model s) m'" "sent lk1 = sent lk" "queue lk1 = queue lk"
          using run_request_Ok by blast
        obtain r' lk2 fs where a: "answer_request (s\<lparr>model := m'\<rparr>) lk1 (clock lk)
            (\<lambda>lk. send_tcp_response lk tid u) (Some tid) u f ?req e = Ok (log_server (s\<lparr>model := m'\<rparr>) r', lk2)"
          "queue lk2 = queue lk1" "sent lk2 = sent lk1 @ fs"
          "case se_response e of None \<Rightarrow> fs = [] \<and> status r' = se_status e
           | Some pdu \<Rightarrow> fs = [] \<and> status r' = TransportError \<or> (\<exists>tx. tcp_encode tid u pdu = Ok tx \<and>
               fs = [tx] \<and> raw_tx r' = tx \<and> response_pdu r' = pdu \<and> status r' = se_status e)"
          using tcp_tx.answer_request_Ok [of "s\<lparr>model := m'\<rparr>" lk1 "clock lk" tid u "Some tid" u f ?req e] by blast
        then have "length fs \<le> 1" by (auto split: option.splits)
        with a r show ?thesis
          using Ok d True q sup by (auto simp: process_tcp_frame_def)
      next
        case unsup: False
        show ?thesis
          using tcp_tx.answer_request_Ok [of s lk "clock lk" tid u "Some tid" u f ?req "unsupported_execution ?req"]
            Ok d True q unsup
          by (auto simp: process_tcp_frame_def unsupported_execution_def)
      qed
    next
      case (Err m)
      then show ?thesis
        using tcp_tx.reject_request_Ok [of s lk "clock lk" tid u "Some tid" u f pdu m] Ok d True
        by (auto simp: process_tcp_frame_def)
    qed (use decode_request_no_panic in simp)
  qed (use Ok d in \<open>simp add: process_tcp_frame_def\<close>)
qed (use tcp_decode_no_panic in \<open>simp_all add: process_tcp_frame_def\<close>)

lemma process_serial_frame_Ok:
  "\<exists>s' lk'. process_serial_frame s lk f = Ok (s', lk') \<and> server_step_ok s s' \<and> queue lk' = queue lk \<and>
     (\<exists>fs. sent lk' = sent lk @ fs \<and> length fs \<le> 1 \<and>
        (\<forall>pdu. serial_decode (config_mode (server_cfg s)) f = Ok (0, pdu) \<longrightarrow> fs = []))"
proof (cases "config_mode (server_cfg s) = ModeTcp")
  case tcp: False
  let ?cfg = "server_cfg s"
  show ?thesis
  proof (cases "serial_decode (config_mode ?cfg) f")
    case (Ok d)
    obtain u pdu where d: "d = (u, pdu)" by fastforce
    show ?thesis
    proof (cases "u \<noteq> 0 \<and> u \<noteq> config_unit_id ?cfg")
      case mine: False
      show ?thesis
      proof (cases "decode_request pdu")
        case q: (Ok dr)
        let ?req = "dec_request dr"
        show ?thesis
        proof (cases "u = 0 \<and> \<not> is_write ?req")
          case False
          obtain e m' lk1 where r: "run_request s lk ?req = Ok (e, s\<lparr>model := m'\<rparr>, lk1)"
            "same_layout (model s) m'" "sent lk1 = sent lk" "queue lk1 = queue lk"
            using run_request_Ok by blast
          obtain r' lk2 fs where a: "answer_request (s\<lparr>model := m'\<rparr>) lk1 (clock lk)
              (\<lambda>lk. send_serial_response lk ?cfg u) None u f ?req e = Ok (log_server (s\<lparr>model := m'\<rparr>) r', lk2)"
            "queue lk2 = queue lk1" "sent lk2 = sent lk1 @ fs"
            "case se_response e of None \<Rightarrow> fs = [] \<and> status r' = se_status e
             | Some pdu \<Rightarrow> fs = [] \<and> status r' = TransportError \<or> (\<exists>tx. serial_wire ?cfg u pdu = Ok tx \<and>
                 fs = [tx] \<and> raw_tx r' = tx \<and> response_pdu r' = pdu \<and> status r' = se_status e)"
            using serial_tx.answer_request_Ok [of "s\<lparr>model := m'\<rparr>" lk1 "clock lk" ?cfg u None u f ?req e]
            by blast
          then have "length fs \<le> 1" by (auto split: option.splits)
          with a r show ?thesis
            using Ok d mine q False tcp by (auto simp: process_serial_frame_def Let_def)
        qed (use Ok d mine q tcp in \<open>auto simp: process_serial_frame_def Let_def\<close>)
      next
        case (Err m)
        then show ?thesis
          using serial_tx.reject_request_Ok [of s lk "clock lk" ?cfg u None u f pdu m] Ok d mine tcp
          by (cases "u = 0") (auto simp: process_serial_frame_def Let_def)
      qed (use decode_request_no_panic in simp)
    qed (use Ok d tcp in \<open>simp add: process_serial_frame_def Let_def\<close>)
  qed (use serial_decode_no_panic tcp in \<open>simp_all add: process_serial_frame_def Let_def\<close>)
qed (simp add: process_serial_frame_def Let_def)

section \<open>Runs of a server\<close>

text \<open>Iterated frames: the log may grow by several entries.\<close>

definition server_run_ok :: "modbus_server \<Rightarrow> modbus_server \<Rightarrow> bool" where
  "server_run_ok s s' \<longleftrightarrow> server_cfg s' = server_cfg s \<and> server_fault s' = server_fault s \<and>
     running s' = running s \<and> same_layout (model s) (model s') \<and>
     (\<exists>rs. server_log s' = foldl record_server (server_log s) rs)"

lemma server_run_refl [simp]: "server_run_ok s s"
  unfolding server_run_ok_def by (auto intro: exI [of _ "[]"])

lemma server_step_run: "server_step_ok s s' \<Longrightarrow> server_run_ok s s'"
  unfolding server_step_ok_def server_run_ok_def
  by (auto intro: exI [of _ "[]"] exI [of _ "[_]"])

lemma server_run_trans: "server_run_ok a b \<Longrightarrow> server_run_ok b c \<Longrightarrow> server_run_ok a c"
  unfolding server_run_ok_def
  by (auto intro: same_layout_trans simp flip: foldl_append)

lemma process_frames_Ok:
  assumes "\<And>s lk f. \<exists>s' lk'. handle s lk f = Ok (s', lk') \<and> server_step_ok s s'"
  shows "\<exists>s' lk'. process_frames handle s lk fs = Ok (s', lk') \<and> server_run_ok s s'"
proof (induction fs arbitrary: s lk)
  case (Cons f fs)
  obtain s1 lk1 where h: "handle s lk f = Ok (s1, lk1)" "server_step_ok s s1" using assms by blast
  obtain s2 lk2 where "process_frames handle s1 lk1 fs = Ok (s2, lk2)" "server_run_ok s1 s2"
    using Cons.IH by blast
  with h show ?case using server_run_trans server_step_run by fastforce
qed simp

definition iteration_ok :: "modbus_server \<Rightarrow> iteration \<Rightarrow> bool" where
  "iteration_ok s it \<longleftrightarrow> it = Ok None \<or> (\<exists>s' lk' buf. it = Ok (Some (s', lk', buf)) \<and> server_run_ok s s')"

lemma serial_frames_Ok:
  "\<exists>s' lk'. process_frames process_serial_frame s lk fs = Ok (s', lk') \<and> server_run_ok s s'"
  by (rule process_frames_Ok) (use process_serial_frame_Ok in blast)

lemma tcp_frames_Ok:
  "\<exists>s' lk'. process_frames process_tcp_frame s lk fs = Ok (s', lk') \<and> server_run_ok s s'"
  by (rule process_frames_Ok) (use process_tcp_frame_Ok in blast)

lemma ascii_iteration_ok: "iteration_ok s (ascii_iteration s lk buf)"
  using serial_frames_Ok [of s]
  by (auto simp: ascii_iteration_def iteration_ok_def result_simps
      split: prod.splits recv_outcome.splits data_plane_event.splits)

lemma rtu_iteration_ok: "iteration_ok s (rtu_iteration s lk buf)"
proof -
  have fr: "\<exists>s' lk'. process_serial_frame s lk f = Ok (s', lk') \<and> server_run_ok s s'" for lk f
    using process_serial_frame_Ok [of s lk f] server_step_run by blast
  obtain out lk1 where r: "recv_timeout lk (if buf = [] then 50000 else rtu_inter_char_gap (server_cfg s)) =
      (out, lk1)" by fastforce
  obtain out2 lk2 where r2: "recv_timeout lk1 (rtu_frame_gap (server_cfg s) - rtu_inter_char_gap (server_cfg s)) =
      (out2, lk2)" by fastforce
  show ?thesis
    using r r2 fr [of lk2 buf]
    by (auto simp: rtu_iteration_def Let_def iteration_ok_def
        split: recv_outcome.splits data_plane_event.splits)
qed

lemma tcp_peer_iteration_ok: "iteration_ok s (tcp_peer_iteration s lk buf)"
proof -
  obtain out lk1 where r: "recv_timeout lk 100000 = (out, lk1)" by fastforce
  show ?thesis
  proof (cases "\<exists>data. out = Got (Data data)")
    case True
    then obtain data where out: "out = Got (Data data)" by blast
    show ?thesis
    proof (cases "tcp_push buf data")
      case (Ok fb)
      then show ?thesis
        using tcp_frames_Ok [of s lk1 "fst fb"] r out
        by (auto simp: tcp_peer_iteration_def iteration_ok_def split: prod.splits)
    qed (use r out tcp_frames_no_panic [of "buf @ data"] in
        \<open>auto simp: tcp_peer_iteration_def iteration_ok_def tcp_push_def\<close>)
  next
    case False
    with r show ?thesis
      by (auto simp: tcp_peer_iteration_def iteration_ok_def
          split: recv_outcome.splits data_plane_event.splits)
  qed
qed

lemma run_loop_Ok:
  assumes "\<And>s lk buf. iteration_ok s (body s lk buf)"
  shows "\<exists>s' lk'. run_loop body n s lk buf = Ok (s', lk') \<and> server_run_ok s s'"
proof (induction n arbitrary: s lk buf)
  case (Suc n)
  from assms [of s lk buf] show ?case
    unfolding iteration_ok_def
  proof
    assume "\<exists>s' lk' buf'. body s lk buf = Ok (Some (s', lk', buf')) \<and> server_run_ok s s'"
    then obtain s1 lk1 b1 where b: "body s lk buf = Ok (Some (s1, lk1, b1))" "server_run_ok s s1" by blast
    obtain s2 lk2 where "run_loop body n s1 lk1 b1 = Ok (s2, lk2)" "server_run_ok s1 s2"
      using Suc.IH by blast
    with b show ?thesis using server_run_trans by fastforce
  qed simp
qed simp

section \<open>The TCP server and its peers\<close>

text \<open>
  A state is the server with its open peers, each with its link and the buffer of its framer.
  The peer of a rule is the one at its position in the list.
\<close>

type_synonym tcp_system = "modbus_server \<times> (link \<times> byte list) list"

inductive tcp_step :: "tcp_system \<Rightarrow> tcp_system \<Rightarrow> bool" where
  accept: "running s \<Longrightarrow> config_server (server_cfg s) = Some sc \<Longrightarrow>
     \<not> (max_clients sc > 0 \<and> length ps \<ge> max_clients sc) \<Longrightarrow>
     tcp_step (s, ps) (s, ps @ [(lk, [])])"
| peer_event: "running s \<Longrightarrow> i < length ps \<Longrightarrow> ps ! i = (lk, buf) \<Longrightarrow>
     tcp_peer_iteration s lk buf = Ok (Some (s', lk', buf')) \<Longrightarrow>
     tcp_step (s, ps) (s', ps[i := (lk', buf')])"
| peer_end: "i < length ps \<Longrightarrow> ps ! i = (lk, buf) \<Longrightarrow>
     \<not> running s \<or> tcp_peer_iteration s lk buf = Ok None \<Longrightarrow>
     tcp_step (s, ps) (s, take i ps @ drop (Suc i) ps)"
| define_coil: "tcp_step (s, ps) (s\<lparr>model := set_coil (model s) a b\<rparr>, ps)"
| define_discrete: "tcp_step (s, ps) (s\<lparr>model := set_discrete_input (model s) a b\<rparr>, ps)"
| define_holding: "tcp_step (s, ps) (s\<lparr>model := set_holding_register (model s) a w\<rparr>, ps)"
| define_input: "tcp_step (s, ps) (s\<lparr>model := set_input_register (model s) a w\<rparr>, ps)"
| change_fault: "set_fault s f = Ok s' \<Longrightarrow> tcp_step (s, ps) (s', ps)"
| shutdown: "tcp_step (s, ps) (shutdown_server s, ps)"

inductive_cases tcp_stepE: "tcp_step (s, ps) (s', ps')"

text \<open>The invariant of the reachable states.\<close>

definition tcp_inv :: "tcp_system \<Rightarrow> bool" where
  "tcp_inv sys \<longleftrightarrow> (case sys of (s, ps) \<Rightarrow>
     (\<forall>sc. config_server (server_cfg s) = Some sc \<and> max_clients sc > 0 \<longrightarrow> length ps \<le> max_clients sc) \<and>
     validate_fault (server_fault s) = Ok () \<and> device_objects (model s) 0 \<noteq> None)"

lemma server_run_inv:
  "server_run_ok s s' \<Longrightarrow> tcp_inv (s, ps) \<Longrightarrow> length ps' = length ps \<Longrightarrow> tcp_inv (s', ps')"
  by (auto simp: server_run_ok_def tcp_inv_def same_layout_def)

lemma tcp_step_inv: "tcp_step sys sys' \<Longrightarrow> tcp_inv sys \<Longrightarrow> tcp_inv sys'"
proof (induction rule: tcp_step.induct)
  case (peer_event s i ps lk buf s' lk' buf')
  have "server_run_ok s s'"
    using tcp_peer_iteration_ok [of s lk buf] peer_event.hyps by (auto simp: iteration_ok_def)
  then show ?case by (rule server_run_inv [OF _ peer_event.prems]) simp
qed (auto simp: tcp_inv_def set_coil_def set_discrete_input_def set_holding_register_def
    set_input_register_def set_fault_def shutdown_server_def result_simps)

lemma reap_loop_eq:
  "index \<le> length ws \<Longrightarrow>
   reap_loop fin ws index = take index ws @ filter (\<lambda>w. \<not> fin w) (drop index ws)"
proof (induction fin ws index rule: reap_loop.induct)
  case (1 fin ws index)
  show ?case
  proof (cases "index < length ws")
    case True
    then have d: "drop index ws = ws ! index # drop (Suc index) ws" by (simp add: Cons_nth_drop_Suc)
    show ?thesis
    proof (cases "fin (ws ! index)")
      case f: True
      have "reap_loop fin (take index ws @ drop (Suc index) ws) index =
          take index ws @ filter (\<lambda>w. \<not> fin w) (drop (Suc index) ws)"
        using "1.IH"(1) True f by simp
      then show ?thesis using True f d by (subst reap_loop.simps) simp
    next
      case f: False
      have "reap_loop fin ws (index + 1) = take (Suc index) ws @ filter (\<lambda>w. \<not> fin w) (drop (Suc index) ws)"
        using "1.IH"(2) True f by simp
      then show ?thesis using True f d by (subst reap_loop.simps) (simp add: take_Suc_conv_app_nth)
    qed
  next
    case False
    then show ?thesis using "1.prems" by (subst reap_loop.simps) simp
  qed
qed

section \<open>Properties\<close>

text \<open>Whatever bytes a serial line or a TCP peer delivers as a frame, the server
  handles it without a panic, writes at most one response, adds at most one entry to the history, keeps
  its configuration and fault settings, and neither adds nor removes a point of the device. A broadcast
  frame is never answered.\<close>

theorem server_frames_safe:
  "(\<exists>s' lk' fs. process_tcp_frame s lk f = Ok (s', lk') \<and> server_step_ok s s' \<and>
      sent lk' = sent lk @ fs \<and> length fs \<le> 1) \<and>
   (\<exists>s' lk' fs. process_serial_frame s lk f = Ok (s', lk') \<and> server_step_ok s s' \<and>
      sent lk' = sent lk @ fs \<and> length fs \<le> 1 \<and>
      (\<forall>pdu. serial_decode (config_mode (server_cfg s)) f = Ok (0, pdu) \<longrightarrow> fs = []))"
  using process_tcp_frame_Ok [of s lk f] process_serial_frame_Ok [of s lk f] by blast

definition demo_ascii_server :: modbus_server where
  "demo_ascii_server = \<lparr>server_cfg =
       \<lparr>endpoint = SerialEndpoint SerialAscii ''COM1'' default_serial,
        runtime_role = ServerRole \<lparr>max_clients = 1, fault = default_fault\<rparr>, config_unit_id = 1\<rparr>,
     model = demo_device, server_fault = default_fault, server_log = empty_log, running = True\<rparr>"

theorem server_frames_safe_witness:
  "\<exists>s' lk'. process_serial_frame demo_ascii_server (demo_link []) [58, 48, 48, 48, 55, 70, 57, 13, 10] =
     Ok (s', lk') \<and> sent lk' = []"
proof -
  have "ascii_encode 0 [7] = Ok [58, 48, 48, 48, 55, 70, 57, 13, 10]" by code_simp
  then have "serial_decode (config_mode (server_cfg demo_ascii_server)) [58, 48, 48, 48, 55, 70, 57, 13, 10] =
      Ok (0, [7])"
    by (simp add: serial_decode_def demo_ascii_server_def config_mode_def ascii_decode_encode)
  then show ?thesis
    using server_frames_safe [THEN conjunct2, of demo_ascii_server "demo_link []"
        "[58, 48, 48, 48, 55, 70, 57, 13, 10]"]
    by (auto simp: demo_link_def)
qed

text \<open>The receive loops of the RTU server, the ASCII server and a TCP peer never
  panic, over any number of iterations and any events of the link, and a run only executes requests
  on the device and appends to the history.\<close>

theorem server_loops_total:
  "(\<exists>s' lk'. run_rtu_server n s lk buf = Ok (s', lk') \<and> server_run_ok s s') \<and>
   (\<exists>s' lk'. run_ascii_server n s lk buf = Ok (s', lk') \<and> server_run_ok s s') \<and>
   (\<exists>s' lk'. run_tcp_peer n s lk buf = Ok (s', lk') \<and> server_run_ok s s')"
  unfolding run_rtu_server_def run_ascii_server_def run_tcp_peer_def
  by (intro conjI run_loop_Ok rtu_iteration_ok ascii_iteration_ok tcp_peer_iteration_ok)

text \<open>In every state a TCP server reaches from its construction, with any
  interleaving of its peers, of connections coming and going and of operations of the workbench, there are
  no more peers than the configured maximum, the fault settings are valid ones and the
  device still has its identification objects.\<close>

theorem tcp_server_invariant:
  assumes "validated c = Ok cfg" "new_server cfg version = Ok s0" "tcp_step\<^sup>*\<^sup>* (s0, []) sys"
  shows "tcp_inv sys"
proof -
  obtain sc where sc: "config_server cfg = Some sc" and s0: "server_fault s0 = fault sc"
    "model s0 = default_model version" "server_cfg s0 = cfg"
    using assms(2) by (auto simp: new_server_def result_simps)
  have "validate_fault (fault sc) = Ok ()"
    using validated_wf [OF assms(1)] sc
    by (auto simp: wf_config_def config_server_def validate_fault_Ok split: modbus_runtime_role.splits)
  then have "tcp_inv (s0, [])" by (simp add: tcp_inv_def s0 default_model_def)
  with assms(3) show ?thesis
    by (induction rule: rtranclp_induct) (auto intro: tcp_step_inv)
qed

definition demo_server_config :: modbus_config where
  "demo_server_config = default_config\<lparr>cfg_mode := ModeTcp, cfg_role := RoleServer, cfg_server_max_clients := 1\<rparr>"

definition demo_server_cfg :: validated_modbus_config where
  "demo_server_cfg = \<lparr>endpoint = TcpEndpoint ''127.0.0.1'' 502 default_tcp,
     runtime_role = ServerRole \<lparr>max_clients = 1, fault = default_fault\<rparr>, config_unit_id = 1\<rparr>"

definition demo_server :: modbus_server where
  "demo_server = \<lparr>server_cfg = demo_server_cfg, model = default_model [49],
     server_fault = default_fault, server_log = empty_log, running = False\<rparr>"

lemma demo_server_valid:
  "validated demo_server_config = Ok demo_server_cfg" "new_server demo_server_cfg [49] = Ok demo_server"
proof -
  have "trim ''127.0.0.1'' = ''127.0.0.1''" by code_simp
  then show "validated demo_server_config = Ok demo_server_cfg"
    by (simp add: validated_def demo_server_config_def default_config_def validated_endpoint_def
        validated_role_def validate_fault_def default_fault_def demo_server_cfg_def)
  show "new_server demo_server_cfg [49] = Ok demo_server"
    by (simp add: new_server_def demo_server_cfg_def demo_server_def config_server_def)
qed

theorem tcp_server_invariant_witness:
  "tcp_inv (demo_server\<lparr>model := set_coil (model demo_server) 3 True\<rparr>, [])"
proof -
  have "tcp_step\<^sup>*\<^sup>* (demo_server, []) (demo_server\<lparr>model := set_coil (model demo_server) 3 True\<rparr>, [])"
    by (intro r_into_rtranclp define_coil)
  from tcp_server_invariant [OF demo_server_valid this] show ?thesis .
qed

text \<open>Suppressing responses still executes the request: the device changes as it
  would have, and nothing is sent. Forcing an exception never touches the device and answers
  with that exception. Without faults the answer is the device's own, or the exception it
  reports.\<close>

theorem fault_injection_effects:
  "\<exists>e m'. execute_with_fault f m r = Ok (e, m') \<and>
     (if no_response f then m' = fst (execute m r) \<and> se_response e = None \<and> se_status e = FaultInjected
      else case fault_exception_code f of
        Some code \<Rightarrow> m' = m \<and> se_response e = Some [request_function r OR 0x80, code] \<and>
          se_status e = ModbusException
      | None \<Rightarrow> m' = fst (execute m r) \<and>
          (case snd (execute m r) of
             Ok pdu \<Rightarrow> se_response e = Some pdu \<and> se_status e = Success
           | Err code \<Rightarrow> se_response e = Some [request_function r OR 0x80, code] \<and>
               se_status e = ModbusException \<and> se_exception_code e = Some code
           | Panic \<Rightarrow> False))"
proof -
  obtain m1 res where e: "execute m r = (m1, res)" by fastforce
  with execute_no_panic [of m r] have "res \<noteq> Panic" by simp
  then show ?thesis
    by (cases res) (simp_all add: execute_with_fault_def e exception_pdu_def split: option.splits)
qed

text \<open>Reaping finished workers removes exactly those, wherever they are in the list, and
  keeps the order of the others.\<close>

lemma reap_is_filter: "reap_finished_workers finished workers = filter (\<lambda>w. \<not> finished w) workers"
  by (simp add: reap_finished_workers_def reap_loop_eq)

lemma deliver_clean:
  "write_errors lk = [] \<Longrightarrow> deliver lk (Ok frame) = Ok ((frame, None), lk\<lparr>sent := sent lk @ [frame]\<rparr>)"
  by (cases lk) (simp add: deliver_def link_write_def Let_def)

text \<open>The PDU the server answers with when no fault is injected.\<close>

definition reply_pdu :: "model_inner \<Rightarrow> modbus_request \<Rightarrow> byte list" where
  "reply_pdu m r =
     (case snd (execute m r) of Ok pdu \<Rightarrow> pdu | Err code \<Rightarrow> exception_pdu (request_function r) code
      | Panic \<Rightarrow> [])"

lemma run_request_plain:
  assumes "\<not> no_response (server_fault s)" "fault_exception_code (server_fault s) = None"
  shows "\<exists>e. run_request s lk req =
      Ok (e, s\<lparr>model := fst (execute (model s) req)\<rparr>, delay_link lk (delay_ms (server_fault s))) \<and>
    se_response e = Some (reply_pdu (model s) req)"
proof -
  obtain m1 res where e: "execute (model s) req = (m1, res)" by fastforce
  with execute_no_panic [of "model s" req] have "res \<noteq> Panic" by simp
  with assms show ?thesis
    by (cases res) (simp_all add: run_request_def execute_with_fault_def e reply_pdu_def)
qed

lemma tcp_frame_request:
  assumes "tcp_encode tid u pdu = Ok frame" "u = config_unit_id (server_cfg s)"
    "decode_request pdu = Ok \<lparr>dec_function = request_function req, dec_request = req\<rparr>"
    "request_supported_on_mode ModeTcp req"
    "\<not> no_response (server_fault s)" "fault_exception_code (server_fault s) = None"
  shows "\<exists>e. process_tcp_frame s lk frame =
      answer_request (s\<lparr>model := fst (execute (model s) req)\<rparr>) (delay_link lk (delay_ms (server_fault s)))
        (clock lk) (\<lambda>lk. send_tcp_response lk tid u) (Some tid) u frame req e \<and>
    se_response e = Some (reply_pdu (model s) req)"
  using run_request_plain [OF assms(5,6), of lk req] tcp_decode_encode [OF assms(1)] assms(2-4)
  by (auto simp: process_tcp_frame_def Let_def)

lemma tcp_frame_reply:
  assumes "tcp_encode tid u pdu = Ok frame" "u = config_unit_id (server_cfg s)"
    "decode_request pdu = Ok \<lparr>dec_function = request_function req, dec_request = req\<rparr>"
    "request_supported_on_mode ModeTcp req"
    "\<not> no_response (server_fault s)" "fault_exception_code (server_fault s) = None"
    "write_errors lk = []" "tcp_encode tid u (reply_pdu (model s) req) = Ok tx"
  shows "\<exists>s' lk'. process_tcp_frame s lk frame = Ok (s', lk') \<and> sent lk' = sent lk @ [tx] \<and>
    model s' = fst (execute (model s) req)"
proof -
  let ?s = "s\<lparr>model := fst (execute (model s) req)\<rparr>" and ?lk = "delay_link lk (delay_ms (server_fault s))"
  obtain e where p: "process_tcp_frame s lk frame = answer_request ?s ?lk (clock lk)
      (\<lambda>lk. send_tcp_response lk tid u) (Some tid) u frame req e"
    and e: "se_response e = Some (reply_pdu (model s) req)"
    using tcp_frame_request [OF assms(1-6)] by blast
  have "write_errors ?lk = []" "sent ?lk = sent lk" using assms(7) by (simp_all add: delay_link_def)
  then show ?thesis
    unfolding p using e assms(8)
    by (simp add: answer_request_def send_tcp_response_def deliver_clean log_server_def Let_def)
qed

text \<open>A request that arrives in a TCP frame for the server's unit is executed on the
  device exactly once, and its answer, or the exception the device reports, is sent back under the
  identifier of the request.\<close>

theorem tcp_request_executed:
  assumes "encode_request req = Ok pdu" "canonical_request req" "request_supported_on_mode ModeTcp req"
    "tcp_encode tid (config_unit_id (server_cfg s)) pdu = Ok frame"
    "\<not> no_response (server_fault s)" "fault_exception_code (server_fault s) = None"
    "write_errors lk = []" "length (reply_pdu (model s) req) \<le> MAX_PDU_LEN"
  shows "\<exists>s' lk' tx. process_tcp_frame s lk frame = Ok (s', lk') \<and>
    model s' = fst (execute (model s) req) \<and> sent lk' = sent lk @ [tx] \<and>
    tcp_decode tx = Ok (tid, config_unit_id (server_cfg s), reply_pdu (model s) req)"
proof -
  have "snd (execute (model s) req) \<noteq> Ok []"
    using execute_request_head [of "model s" req "[]"] by (auto simp: execute_eq)
  then have "reply_pdu (model s) req \<noteq> []"
    using execute_no_panic [of "model s" req]
    by (auto simp: reply_pdu_def exception_pdu_def split: result.splits)
  then obtain tx where tx: "tcp_encode tid (config_unit_id (server_cfg s)) (reply_pdu (model s) req) = Ok tx"
    using assms(8) by (simp add: tcp_encode_def)
  show ?thesis
    using tcp_frame_reply [OF assms(4) refl request_round_trip [OF assms(1,2)] assms(3,5,6,7) tx]
      tcp_decode_encode [OF tx] by blast
qed

theorem tcp_request_executed_witness:
  "\<exists>s' lk' tx. process_tcp_frame demo_server (demo_link []) [0, 7, 0, 0, 0, 6, 1, 3, 0, 9, 0, 1] = Ok (s', lk') \<and>
     sent lk' = [tx] \<and> tcp_decode tx = Ok (7, 1, [0x83, 2])"
proof -
  let ?req = "ReadRegisters HoldingRegisters 9 1"
  have req: "encode_request ?req = Ok [3, 0, 9, 0, 1]" by code_simp
  have frame: "tcp_encode 7 (config_unit_id (server_cfg demo_server)) [3, 0, 9, 0, 1] =
      Ok [0, 7, 0, 0, 0, 6, 1, 3, 0, 9, 0, 1]"
    unfolding demo_server_def demo_server_cfg_def by code_simp
  have reply: "reply_pdu (model demo_server) ?req = [0x83, 2]"
    by (simp add: reply_pdu_def demo_server_def default_model_def demo_simps exception_pdu_def
        EX_ILLEGAL_DATA_ADDRESS_def)
  from tcp_request_executed [OF req _ _ frame, of "demo_link []"] reply show ?thesis
    by (auto simp: demo_server_def demo_server_cfg_def default_fault_def demo_link_def
        request_supported_on_mode_def MAX_PDU_LEN_def)
qed

text \<open>C36. A file read of 125 records is a valid request, and the device answers it
  with a PDU of 254 bytes, one more than a frame can carry: the encoding of the response fails,
  nothing is sent, and the client is left to its timeout although the request could be refused with an
  exception.\<close>

theorem long_file_read_unanswered:
  assumes "\<forall>i<125. file_records (model s) (f, n + as_u16 i) \<noteq> None" "unat n + 125 \<le> 65536"
    "req = ReadFileRecord [\<lparr>frr_file_number = f, frr_record_number = n, frr_record_length = 125\<rparr>]"
    "encode_request req = Ok pdu" "tcp_encode tid (config_unit_id (server_cfg s)) pdu = Ok frame"
    "\<not> no_response (server_fault s)" "fault_exception_code (server_fault s) = None"
  shows "length (reply_pdu (model s) req) = 254 \<and>
    (\<exists>s' lk'. process_tcp_frame s lk frame = Ok (s', lk') \<and> sent lk' = sent lk)"
proof -
  let ?vs = "map (\<lambda>i. the (file_records (model s) (f, n + as_u16 i))) [0..<125]"
  have "file_read_values (file_records (model s)) f n [0..<125] = Ok ?vs"
    using assms(1,2) by (intro file_read_values_eq) auto
  then have ex: "snd (execute (model s) req) = Ok (0x14 # as_u8 252 # as_u8 251 # 0x06 # be_bytes_of ?vs)"
    by (simp add: assms(3) execute_eq encode_file_read_response_def)
  then have len: "length (reply_pdu (model s) req) = 254" by (simp add: reply_pdu_def)
  have can: "canonical_request req" "request_supported_on_mode ModeTcp req"
    by (simp_all add: assms(3) request_supported_on_mode_def)
  obtain e where p: "process_tcp_frame s lk frame =
      answer_request (s\<lparr>model := fst (execute (model s) req)\<rparr>) (delay_link lk (delay_ms (server_fault s)))
        (clock lk) (\<lambda>lk. send_tcp_response lk tid (config_unit_id (server_cfg s))) (Some tid)
        (config_unit_id (server_cfg s)) frame req e"
    and e: "se_response e = Some (reply_pdu (model s) req)"
    using tcp_frame_request [OF assms(5) refl request_round_trip [OF assms(4) can(1)] can(2) assms(6,7)] by blast
  have "tcp_encode tid (config_unit_id (server_cfg s)) (reply_pdu (model s) req) =
      Err (Msg ''invalid TCP PDU length'')"
    using len by (simp add: tcp_encode_def MAX_PDU_LEN_def)
  then show ?thesis
    unfolding p using e len
    by (auto simp: answer_request_def send_tcp_response_def deliver_def Let_def delay_link_def)
qed

theorem long_file_read_unanswered_witness:
  "\<exists>s' lk'. process_tcp_frame (demo_server\<lparr>model := (default_model [49])\<lparr>file_records := \<lambda>_. Some 5\<rparr>\<rparr>)
      (demo_link []) [0, 7, 0, 0, 0, 10, 1, 20, 7, 6, 0, 4, 0, 0, 0, 125] = Ok (s', lk') \<and> sent lk' = []"
proof -
  let ?s = "demo_server\<lparr>model := (default_model [49])\<lparr>file_records := \<lambda>_. Some 5\<rparr>\<rparr>"
  let ?req = "ReadFileRecord [\<lparr>frr_file_number = 4, frr_record_number = 0, frr_record_length = 125\<rparr>]"
  have req: "encode_request ?req = Ok [20, 7, 6, 0, 4, 0, 0, 0, 125]" by code_simp
  have frame: "tcp_encode 7 (config_unit_id (server_cfg ?s)) [20, 7, 6, 0, 4, 0, 0, 0, 125] =
      Ok [0, 7, 0, 0, 0, 10, 1, 20, 7, 6, 0, 4, 0, 0, 0, 125]"
    by (simp add: demo_server_def demo_server_cfg_def tcp_encode_def MAX_PDU_LEN_def to_be_bytes_def as_u16_def)
  from long_file_read_unanswered [OF _ _ refl req frame, of "demo_link []"] show ?thesis
    by (auto simp: demo_server_def default_fault_def demo_link_def)
qed

end
