(* ===== verification/Modbus_Exchange.thy ===== *)
theory Modbus_Exchange
  imports Modbus_Client Modbus_Server
begin

text \<open>
  A whole exchange between the client and the server of the plugin: the lemmas that carry a
  request from \<open>execute_client\<close> through the TCP framing to \<open>process_tcp_frame\<close> and the device,
  and the answer back to the values the client reports.
\<close>

unbundle bit_operations_syntax

section \<open>The answer on its way back\<close>

lemma exception_pdu_validates:
  "validate_response r (exception_pdu (request_function r) code) =
     Ok \<lparr>resp_function = request_function r, resp_data = [], resp_exception = Some code\<rparr>"
  by (simp add: validate_response_Ok exception_pdu_def)

text \<open>The response the client should see for an outcome of the device.\<close>

definition expected_response :: "model_inner \<Rightarrow> modbus_request \<Rightarrow> modbus_response" where
  "expected_response m r =
     (case snd (execute m r) of
        Ok pdu \<Rightarrow> \<lparr>resp_function = request_function r, resp_data = tl pdu, resp_exception = None\<rparr>
      | Err code \<Rightarrow> \<lparr>resp_function = request_function r, resp_data = [], resp_exception = Some code\<rparr>
      | Panic \<Rightarrow> \<lparr>resp_function = 0, resp_data = [], resp_exception = None\<rparr>)"

lemma reply_validates:
  assumes "encode_request r = Ok req" "device_objects m k \<noteq> None"
  shows "validate_response r (reply_pdu m r) = Ok (expected_response m r)"
proof (cases "snd (execute m r)")
  case (Ok pdu)
  then have ex: "snd (execute_request m r) = Ok pdu" by (simp add: execute_eq)
  then have "\<forall>f d. r \<noteq> Raw f d" by auto
  with validate_normal execute_request_valid [OF assms(1) ex assms(2)]
  have "validate_response r pdu =
      Ok \<lparr>resp_function = request_function r, resp_data = tl pdu, resp_exception = None\<rparr>"
    by metis
  with Ok show ?thesis by (simp add: reply_pdu_def expected_response_def)
next
  case (Err code)
  then show ?thesis by (simp add: reply_pdu_def expected_response_def exception_pdu_validates)
next
  case Panic
  then show ?thesis using execute_no_panic by metis
qed

lemma reply_not_empty: "reply_pdu m r \<noteq> []"
proof -
  have "snd (execute m r) \<noteq> Ok []" using execute_request_head [of m r "[]"] by (auto simp: execute_eq)
  then show ?thesis
    using execute_no_panic [of m r] by (auto simp: reply_pdu_def exception_pdu_def split: result.splits)
qed

lemma reply_encodes:
  assumes "length (reply_pdu m r) \<le> MAX_PDU_LEN"
  obtains tx where "tcp_encode tid u (reply_pdu m r) = Ok tx"
  using assms reply_not_empty [of m r] by (simp add: tcp_encode_def)

section \<open>The client's side\<close>

lemma receive_tcp_in_time:
  assumes "queue lk = (t, Data frame) # q" "t \<le> d" "clock lk < d" "tcp_encode tid u pdu = Ok frame"
  shows "receive_tcp lk d tid u [] = (Ok (frame, pdu), lk\<lparr>clock := max (clock lk) t, queue := q\<rparr>)"
proof -
  have "recv_until lk d = (Ok (Data frame), lk\<lparr>clock := max (clock lk) t, queue := q\<rparr>)"
    using assms(1-3) by (simp add: recv_until_def recv_timeout_def)
  moreover have "tcp_push [] frame = Ok ([frame], [])"
    using tcp.push_frame [of "(tid, u)" pdu frame] assms(4) by simp
  ultimately show ?thesis
    using tcp_decode_encode [OF assms(4)] by (subst receive_tcp.simps) simp
qed

text \<open>What the client makes of a frame that answers the transaction it is about to start.\<close>

lemma execute_client_answered:
  assumes cfg: "config_mode (client_cfg c) = ModeTcp" "config_client (client_cfg c) = Some cc"
    and ready: "runtime_open c" "subscribed c \<or> subscribe_error lk = None"
    and tx: "encode_transaction ModeTcp u (Some (next_transaction_id c)) req = Ok tx" "write_errors lk = []"
    and rx: "tcp_encode (next_transaction_id c) u pdu = Ok rx" "queue lk = (t, Data rx) # q"
      "t \<le> clock lk + unat (response_timeout_ms cc) * 1000" "0 < response_timeout_ms cc"
    and val: "validate_response req pdu = Ok resp"
  shows "\<exists>c' lk' r. execute_client c lk u req = Ok (c', lk', r) \<and> sent lk' = sent lk @ [tx] \<and>
    response_pdu r = pdu \<and> exception_code r = resp_exception resp \<and>
    status r = (if resp_exception resp = None then Success else ModbusException) \<and>
    semantic r = decode_semantic_response req resp"
proof -
  let ?lk = "lk\<lparr>write_errors := [], sent := sent lk @ [tx]\<rparr>"
  have w: "link_write lk tx = (None, ?lk)" using tx(2) by (cases lk) (simp add: link_write_def Let_def)
  have "0 < unat (response_timeout_ms cc)" using rx(4) by (simp add: word_less_nat_alt)
  then have r: "receive_tcp ?lk (clock lk + unat (response_timeout_ms cc) * 1000) (next_transaction_id c) u [] =
      (Ok (rx, pdu), ?lk\<lparr>clock := max (clock lk) t, queue := q\<rparr>)"
    using receive_tcp_in_time [of ?lk t rx q _ "next_transaction_id c" u pdu] rx by simp
  obtain c' lk' res where e: "execute_once c lk u req 0 = Ok (c', lk', res)" "sent lk' = sent lk @ [tx]"
    "response_pdu res = pdu" "exception_code res = resp_exception resp"
    "status res = (if resp_exception resp = None then Success else ModbusException)"
    "semantic res = decode_semantic_response req resp"
    using ready tx(1) w r val cfg
    by (auto simp: execute_once_def Let_def receive_response_def finish_transaction_def base_result_def)
  then have "\<not> retryable (status res)" by (simp add: retryable_def)
  with e show ?thesis
    by (subst execute_client_def) (simp add: cfg(2) execute_loop.simps)
qed

section \<open>Values\<close>

lemma semantic_registers_response:
  "semantic_registers (tl (registers_response fc values)) = Some (SemRegisters values)"
proof -
  have "words (be_bytes_of values) = Ok values" by simp
  then show ?thesis
    by (auto simp: semantic_registers_def registers_response_def get_from_def result_simps)
qed

lemma expected_registers:
  assumes "block_read (case area of HoldingRegisters \<Rightarrow> holding_registers m
      | InputRegisters \<Rightarrow> input_registers m) a q = Ok values"
  shows "decode_semantic_response (ReadRegisters area a q) (expected_response m (ReadRegisters area a q)) =
    Some (SemRegisters values)"
  using assms semantic_registers_response
  by (simp add: expected_response_def execute_eq decode_semantic_response_def)

end
