(* ===== verification/Modbus_Polling.thy ===== *)
theory Modbus_Polling
  imports Modbus_Client
begin

text \<open>
  The watch scheduler, \<open>plugins/modbus/polling.rs\<close>: validation of the rows, replacing them, the
  conversion of a transaction result into a displayed value, and the body of the polling loop: one
  pass over a snapshot of the rows, each due row executed through the client, followed by a sleep.
  The map \<open>next\<close> of due times and the map of values are keyed by the row id.
\<close>

section \<open>Rows\<close>

record 'f watch_row =
  row_id :: string
  enabled :: bool
  row_name :: string
  row_unit_id :: byte
  row_request :: modbus_request
  period_ms :: u64
  row_format :: "'f value_format option"

record 'f WatchValue =
  wv_row_id :: string
  wv_status :: transaction_status
  wv_value :: "'f json_value option"
  wv_raw :: "byte list"
  wv_latency_ms :: nat
  wv_message :: "message option"
  wv_updated_at_ms :: nat

record 'f watch_scheduler =
  rows :: "'f watch_row list"
  watch_values :: "string \<Rightarrow> 'f WatchValue option"
  watch_running :: bool

definition validate_request_format :: "'f watch_row \<Rightarrow> unit pdu_result" where
  "validate_request_format row =
     (case row_request row of
        ReadBits _ _ _ \<Rightarrow>
          if row_format row \<noteq> None
          then Err (Fmt ''watch row {} bit area must not use register value format'' [Msg (row_id row)] [])
          else Ok ()
      | ReadRegisters _ _ quantity \<Rightarrow>
          rbind (ok_or (Fmt ''watch row {} register area requires a value format'' [Msg (row_id row)] [])
                  (row_format row)) (\<lambda>format.
            case required_registers format of
              None \<Rightarrow> Ok ()
            | Some required \<Rightarrow>
                if quantity \<noteq> required
                then Err (Fmt ''watch row {} value format requires exactly {required} register(s)''
                       [Msg (row_id row)] [unat required])
                else Ok ())
      | _ \<Rightarrow> Err (Fmt ''watch row {} must use a standard read area'' [Msg (row_id row)] []))"

definition validate_row :: "modbus_mode \<Rightarrow> 'f watch_row \<Rightarrow> unit pdu_result" where
  "validate_row mode row =
     rbind (map_err (\<lambda>e. Fmt ''watch row {} invalid target: {error}'' [Msg (row_id row), e] [])
             (validate_client_unit_id mode (row_unit_id row))) (\<lambda>_.
       if period_ms row < 20 \<or> period_ms row > 86400000
       then Err (Fmt ''watch row {} period must be 20..=86400000 ms'' [Msg (row_id row)] [])
       else rbind (map_err (\<lambda>e. Fmt ''watch row {} invalid request: {error}'' [Msg (row_id row), e] [])
                    (encode_request (row_request row))) (\<lambda>_.
              validate_request_format row))"

fun validate_rows_from :: "string set \<Rightarrow> 'f watch_row list \<Rightarrow> modbus_mode \<Rightarrow> unit pdu_result" where
  "validate_rows_from ids [] mode = Ok ()"
| "validate_rows_from ids (row # rest) mode =
     (if trim (row_id row) = [] then Err (Msg ''watch row id cannot be empty'')
      else if row_id row \<in> ids then Err (Fmt ''duplicate watch row id: {}'' [Msg (row_id row)] [])
      else rbind (validate_row mode row) (\<lambda>_.
        validate_rows_from (insert (row_id row) ids) rest mode))"

definition validate_rows :: "'f watch_row list \<Rightarrow> modbus_mode \<Rightarrow> unit pdu_result" where
  "validate_rows rs mode = validate_rows_from {} rs mode"

definition set_rows ::
    "'f watch_scheduler \<Rightarrow> modbus_mode \<Rightarrow> 'f watch_row list \<Rightarrow> 'f watch_scheduler pdu_result" where
  "set_rows w mode rs =
     rbind (validate_rows rs mode) (\<lambda>_.
       let retained = set (map row_id rs) in
       Ok (w\<lparr>watch_values := (\<lambda>id. if id \<in> retained then watch_values w id else None), rows := rs\<rparr>))"

definition counts :: "'f watch_scheduler \<Rightarrow> nat \<times> nat" where
  "counts w = (length (filter enabled (rows w)), length (rows w))"

section \<open>Values\<close>

definition watch_value ::
    "'f float_ops \<Rightarrow> 'f watch_row \<Rightarrow> transaction_result \<Rightarrow> nat \<Rightarrow> 'f WatchValue" where
  "watch_value fl row result updated =
     (let (raw, v) =
        (if status result \<noteq> Success then ([], None)
         else case semantic result of
           Some (SemBits values) \<Rightarrow>
             (map (\<lambda>b. if b then 1 else 0) values,
              if length values = 1 then Some (JBool (hd values)) else Some (JArray (map JBool values)))
         | Some (SemRegisters values) \<Rightarrow>
             (let raw = be_bytes_of values in
              (raw, Option.bind (row_format row) (\<lambda>format.
                 case decode_register_bytes fl raw format of Ok v \<Rightarrow> Some v | _ \<Rightarrow> None)))
         | _ \<Rightarrow> ([], None))
      in \<lparr>wv_row_id = row_id row, wv_status = status result, wv_value = v, wv_raw = raw,
          wv_latency_ms = latency_ms result, wv_message = tr_message result, wv_updated_at_ms = updated\<rparr>)"

section \<open>The polling pass\<close>

record 'f poll_state =
  poll_client :: modbus_client
  poll_link :: link
  poll_next :: "string \<Rightarrow> nat option"
  poll_values :: "string \<Rightarrow> 'f WatchValue option"

text \<open>The body of the \<open>for\<close> loop for one enabled row; \<open>now\<close> was read before the loop.\<close>

definition poll_row ::
    "'f float_ops \<Rightarrow> nat \<Rightarrow> 'f poll_state \<Rightarrow> 'f watch_row \<Rightarrow> ('f poll_state, unit) result" where
  "poll_row fl now p row =
     (let due = (case poll_next p (row_id row) of Some t \<Rightarrow> t | None \<Rightarrow> now) in
      if now < due then Ok p
      else rbind (execute_client (poll_client p) (poll_link p) (row_unit_id row) (row_request row))
        (\<lambda>(c, lk, result).
           Ok \<lparr>poll_client = c, poll_link = lk,
               poll_next = (poll_next p)(row_id row \<mapsto> clock lk + unat (period_ms row) * 1000),
               poll_values = (poll_values p)(row_id row \<mapsto> watch_value fl row result (wall_ms lk))\<rparr>))"

fun poll_rows ::
    "'f float_ops \<Rightarrow> nat \<Rightarrow> 'f poll_state \<Rightarrow> 'f watch_row list \<Rightarrow> ('f poll_state, unit) result" where
  "poll_rows fl now p [] = Ok p"
| "poll_rows fl now p (row # rs) = rbind (poll_row fl now p row) (\<lambda>p. poll_rows fl now p rs)"

definition poll_pass ::
    "'f float_ops \<Rightarrow> 'f poll_state \<Rightarrow> 'f watch_row list \<Rightarrow> ('f poll_state, unit) result" where
  "poll_pass fl p snapshot =
     (let live = set (map row_id snapshot);
          p = p\<lparr>poll_next := (\<lambda>id. if id \<in> live then poll_next p id else None)\<rparr>;
          now = clock (poll_link p)
      in rbind (poll_rows fl now p (filter enabled snapshot)) (\<lambda>p.
           Ok (p\<lparr>poll_link := (poll_link p)\<lparr>clock := clock (poll_link p) + 10000\<rparr>\<rparr>)))"

section \<open>Lemmas\<close>

lemma validate_row_Ok:
  assumes "validate_row mode row = Ok u"
  shows "validate_client_unit_id mode (row_unit_id row) = Ok ()" "20 \<le> period_ms row"
    "is_ok (encode_request (row_request row))" "\<not> is_write (row_request row)"
    "(\<exists>area a q. row_request row = ReadBits area a q) \<or>
     (\<exists>area a q f. row_request row = ReadRegisters area a q \<and> row_format row = Some f \<and>
        (\<forall>n. required_registers f = Some n \<longrightarrow> q = n))"
proof -
  from assms have "validate_client_unit_id mode (row_unit_id row) = Ok () \<and> 20 \<le> period_ms row \<and>
      is_ok (encode_request (row_request row)) \<and> validate_request_format row = Ok ()"
    by (auto simp: validate_row_def result_simps is_ok_iff not_less split: if_splits)
  then show "validate_client_unit_id mode (row_unit_id row) = Ok ()" "20 \<le> period_ms row"
    "is_ok (encode_request (row_request row))" "\<not> is_write (row_request row)"
    "(\<exists>area a q. row_request row = ReadBits area a q) \<or>
     (\<exists>area a q f. row_request row = ReadRegisters area a q \<and> row_format row = Some f \<and>
        (\<forall>n. required_registers f = Some n \<longrightarrow> q = n))"
    by (auto simp: validate_request_format_def result_simps
        split: modbus_request.splits if_splits option.splits)
qed

lemma validate_rows_from_Ok:
  "validate_rows_from ids rs mode = Ok u \<Longrightarrow>
   distinct (map row_id rs) \<and> set (map row_id rs) \<inter> ids = {} \<and>
   (\<forall>row\<in>set rs. trim (row_id row) \<noteq> [] \<and> validate_row mode row = Ok ())"
  by (induction rs arbitrary: ids) (auto simp: result_simps split: if_splits)

lemma validate_rows_no_panic: "validate_rows rs mode \<noteq> Panic"
proof -
  have "validate_request_format row \<noteq> Panic" for row :: "'f watch_row"
    by (auto simp: validate_request_format_def result_simps split: modbus_request.splits option.splits)
  then have "validate_row mode row \<noteq> Panic" for row :: "'f watch_row"
    by (auto simp: validate_row_def result_simps validate_client_unit_id_def encode_request_no_panic)
  then have "validate_rows_from ids rs mode \<noteq> Panic" for ids
    by (induction rs arbitrary: ids) (auto simp: result_simps)
  then show ?thesis by (simp add: validate_rows_def)
qed


text \<open>One row: the client keeps its configuration, a row that is not due is left alone, and a row that
  was executed gets a value and a due time one period after its completion.\<close>

definition row_polled :: "nat \<Rightarrow> 'f watch_row \<Rightarrow> 'f poll_state \<Rightarrow> 'f poll_state \<Rightarrow> bool" where
  "row_polled now row p p' \<longleftrightarrow>
     client_cfg (poll_client p') = client_cfg (poll_client p) \<and>
     clock (poll_link p) \<le> clock (poll_link p') \<and>
     (\<forall>id. id \<noteq> row_id row \<longrightarrow> poll_next p' id = poll_next p id \<and> poll_values p' id = poll_values p id) \<and>
     (case poll_next p (row_id row) of
        Some t \<Rightarrow> if now < t then p' = p
                  else poll_next p' (row_id row) = Some (clock (poll_link p') + unat (period_ms row) * 1000) \<and>
                       (\<exists>v. poll_values p' (row_id row) = Some v \<and> wv_row_id v = row_id row)
      | None \<Rightarrow> poll_next p' (row_id row) = Some (clock (poll_link p') + unat (period_ms row) * 1000) \<and>
                 (\<exists>v. poll_values p' (row_id row) = Some v \<and> wv_row_id v = row_id row))"

lemma watch_value_row [simp]: "wv_row_id (watch_value fl row r t) = row_id row"
  by (simp add: watch_value_def Let_def split: prod.splits)

lemma poll_row_ok:
  assumes "config_client (client_cfg (poll_client p)) = Some cc"
  shows "\<exists>p'. poll_row fl now p row = Ok p' \<and> row_polled now row p p'"
proof -
  obtain c' lk' r where e: "execute_client (poll_client p) (poll_link p) (row_unit_id row) (row_request row) =
      Ok (log_result c' r, lk', r)"
    and ok: "transaction_ok (poll_client p) (poll_link p) (row_unit_id row) (row_request row)
      (unat (response_timeout_ms cc) * 1000) (unat (max_retries cc (row_request row)) + 1) c' lk' r"
    using execute_client_ok [OF assms] by blast
  then have "client_cfg (log_result c' r) = client_cfg (poll_client p)" "clock (poll_link p) \<le> clock lk'"
    by (simp_all add: transaction_ok_def same_client_def log_result_def)
  with e show ?thesis
    by (cases "poll_next p (row_id row)") (auto simp: poll_row_def row_polled_def)
qed

text \<open>A pass over rows with different ids polls each of them once.\<close>

lemma poll_rows_ok:
  assumes "config_client (client_cfg (poll_client p)) = Some cc" "distinct (map row_id rs)"
  shows "\<exists>p'. poll_rows fl now p rs = Ok p' \<and> client_cfg (poll_client p') = client_cfg (poll_client p) \<and>
    clock (poll_link p) \<le> clock (poll_link p') \<and>
    (\<forall>id. id \<notin> row_id ` set rs \<longrightarrow> poll_next p' id = poll_next p id \<and> poll_values p' id = poll_values p id) \<and>
    (\<forall>row\<in>set rs. \<exists>q q'. row_polled now row q q' \<and> clock (poll_link p) \<le> clock (poll_link q) \<and>
       poll_next q (row_id row) = poll_next p (row_id row) \<and>
       poll_values q (row_id row) = poll_values p (row_id row) \<and>
       poll_next p' (row_id row) = poll_next q' (row_id row) \<and>
       poll_values p' (row_id row) = poll_values q' (row_id row))"
  using assms
proof (induction rs arbitrary: p)
  case Nil
  then show ?case by simp
next
  case (Cons row rs)
  obtain p1 where p1: "poll_row fl now p row = Ok p1" "row_polled now row p p1"
    using poll_row_ok [OF Cons.prems(1)] by blast
  then have cfg: "config_client (client_cfg (poll_client p1)) = Some cc"
    using Cons.prems(1) by (simp add: row_polled_def)
  obtain p' where p': "poll_rows fl now p1 rs = Ok p'" "client_cfg (poll_client p') = client_cfg (poll_client p1)"
    "clock (poll_link p1) \<le> clock (poll_link p')"
    and frame: "\<And>id. id \<notin> row_id ` set rs \<Longrightarrow> poll_next p' id = poll_next p1 id \<and> poll_values p' id = poll_values p1 id"
    and each: "\<And>r. r \<in> set rs \<Longrightarrow> \<exists>q q'. row_polled now r q q' \<and> clock (poll_link p1) \<le> clock (poll_link q) \<and>
       poll_next q (row_id r) = poll_next p1 (row_id r) \<and> poll_values q (row_id r) = poll_values p1 (row_id r) \<and>
       poll_next p' (row_id r) = poll_next q' (row_id r) \<and> poll_values p' (row_id r) = poll_values q' (row_id r)"
    using Cons.IH [OF cfg] Cons.prems(2) by auto
  have le: "clock (poll_link p) \<le> clock (poll_link p1)" using p1(2) by (simp add: row_polled_def)
  have new: "row_id row \<notin> row_id ` set rs" using Cons.prems(2) by auto
  have keep: "poll_next p1 id = poll_next p id \<and> poll_values p1 id = poll_values p id" if "id \<noteq> row_id row" for id
    using p1(2) that by (simp add: row_polled_def)
  have "\<exists>q q'. row_polled now r q q' \<and> clock (poll_link p) \<le> clock (poll_link q) \<and>
       poll_next q (row_id r) = poll_next p (row_id r) \<and> poll_values q (row_id r) = poll_values p (row_id r) \<and>
       poll_next p' (row_id r) = poll_next q' (row_id r) \<and> poll_values p' (row_id r) = poll_values q' (row_id r)"
    if r: "r \<in> set (row # rs)" for r
  proof (cases "r = row")
    case True
    then show ?thesis using p1(2) frame [OF new] by blast
  next
    case False
    with r have rs: "r \<in> set rs" by simp
    then have "row_id r \<noteq> row_id row" using new by (metis imageI)
    with each [OF rs] keep [of "row_id r"] le show ?thesis by (metis order_trans)
  qed
  moreover have "\<forall>id. id \<notin> row_id ` set (row # rs) \<longrightarrow>
      poll_next p' id = poll_next p id \<and> poll_values p' id = poll_values p id"
    using frame keep by auto
  ultimately show ?case
    using p1 p' le by (auto simp: row_polled_def)
qed

section \<open>Properties\<close>

text \<open>Watch rows are accepted only with non-blank ids that all differ, a period
  of at least 20 ms, a unit the transport can address, and a read request that can be encoded, a register
  read carrying a value format that takes exactly the registers read; polling therefore never writes. After
  the rows are replaced, only values of rows that are still there are kept, and a rejected list
  changes nothing. Validation never panics.\<close>

theorem watch_rows_validated:
  "validate_rows rs mode \<noteq> Panic \<and>
   (case set_rows w mode rs of
      Ok w' \<Rightarrow> rows w' = rs \<and> distinct (map row_id rs) \<and>
        (\<forall>id. watch_values w' id = (if id \<in> row_id ` set rs then watch_values w id else None)) \<and>
        (\<forall>row\<in>set rs. trim (row_id row) \<noteq> [] \<and> 20 \<le> period_ms row \<and>
           validate_client_unit_id mode (row_unit_id row) = Ok () \<and> is_ok (encode_request (row_request row)) \<and>
           \<not> is_write (row_request row) \<and>
           (\<forall>area a q. row_request row = ReadRegisters area a q \<longrightarrow>
              (\<exists>f. row_format row = Some f \<and> required_registers f \<in> {None, Some q})))
    | Err e \<Rightarrow> validate_rows rs mode = Err e
    | Panic \<Rightarrow> False)"
proof (cases "validate_rows rs mode")
  case (Ok u)
  then have v: "distinct (map row_id rs)"
    "\<And>row. row \<in> set rs \<Longrightarrow> trim (row_id row) \<noteq> [] \<and> validate_row mode row = Ok ()"
    using validate_rows_from_Ok [of "{}" rs mode u] by (auto simp: validate_rows_def)
  have "required_registers f \<in> {None, Some q}"
    if "row \<in> set rs" "row_request row = ReadRegisters area a q" "row_format row = Some f" for row area a q f
    using validate_row_Ok(5) [of mode row "()"] v(2) [OF that(1)] that(2,3)
    by (cases "required_registers f") auto
  moreover have "\<exists>f. row_format row = Some f"
    if "row \<in> set rs" "row_request row = ReadRegisters area a q" for row area a q
    using validate_row_Ok(5) [of mode row "()"] v(2) [OF that(1)] that(2) by auto
  ultimately show ?thesis
    using Ok v validate_row_Ok(1-4) [of mode _ "()"] by (fastforce simp: set_rows_def Let_def)
next
  case (Err e)
  then show ?thesis by (simp add: set_rows_def)
next
  case Panic
  then show ?thesis using validate_rows_no_panic by blast
qed

text \<open>A watch row for the concrete instance.\<close>

definition demo_row :: "string \<Rightarrow> int watch_row" where
  "demo_row rid = \<lparr>row_id = rid, enabled = True, row_name = rid, row_unit_id = 1,
     row_request = ReadBits Coils 0 1, period_ms = 500, row_format = None\<rparr>"

theorem watch_rows_validated_witness:
  "\<exists>w'. set_rows \<lparr>rows = [], watch_values = Map.empty, watch_running = False\<rparr> ModeTcp [demo_row ''a''] = Ok w' \<and>
     rows w' = [demo_row ''a''] \<and> watch_values w' ''a'' = None"
proof -
  have "validate_client_unit_id ModeTcp 1 = Ok ()" by code_simp
  moreover have "is_ok (encode_request (ReadBits Coils 0 1))" by code_simp
  ultimately have "validate_row ModeTcp (demo_row ''a'') = Ok ()"
    by (auto simp: validate_row_def demo_row_def validate_request_format_def is_ok_iff)
  moreover have "trim ''a'' \<noteq> []" by code_simp
  ultimately have "validate_rows [demo_row ''a''] ModeTcp = Ok ()"
    by (simp add: validate_rows_def) (simp add: demo_row_def)
  with watch_rows_validated [of "[demo_row ''a'']" ModeTcp
      "\<lparr>rows = [], watch_values = Map.empty, watch_running = False\<rparr>"]
  show ?thesis by (auto simp: set_rows_def Let_def)
qed

text \<open>A pass of the polling loop always ends. Every enabled row that was due has a
  value and is next due one full period after its transaction ended, so a slow device is never polled
  back to back; a row that was not due, a disabled row and a row that is gone are not executed, and due
  times of rows that are gone are dropped. The pass sleeps 10 ms at the end.\<close>

theorem poll_pass_schedule:
  assumes "config_client (client_cfg (poll_client p)) = Some cc" "distinct (map row_id snapshot)"
  shows "\<exists>p'. poll_pass fl p snapshot = Ok p' \<and> clock (poll_link p) + 10000 \<le> clock (poll_link p') \<and>
    client_cfg (poll_client p') = client_cfg (poll_client p) \<and>
    (\<forall>id. id \<notin> row_id ` set snapshot \<longrightarrow> poll_next p' id = None \<and> poll_values p' id = poll_values p id) \<and>
    (\<forall>row\<in>set snapshot.
       if enabled row \<and> (\<forall>t. poll_next p (row_id row) = Some t \<longrightarrow> t \<le> clock (poll_link p))
       then (\<exists>t. poll_next p' (row_id row) = Some t \<and> clock (poll_link p) + unat (period_ms row) * 1000 \<le> t) \<and>
            (\<exists>v. poll_values p' (row_id row) = Some v \<and> wv_row_id v = row_id row)
       else poll_next p' (row_id row) = poll_next p (row_id row) \<and>
            poll_values p' (row_id row) = poll_values p (row_id row))"
proof -
  let ?p = "p\<lparr>poll_next := (\<lambda>id. if id \<in> row_id ` set snapshot then poll_next p id else None)\<rparr>"
  let ?rs = "filter enabled snapshot" and ?now = "clock (poll_link p)"
  obtain q where q: "poll_rows fl ?now ?p ?rs = Ok q" "client_cfg (poll_client q) = client_cfg (poll_client p)"
    "clock (poll_link p) \<le> clock (poll_link q)"
    and frame: "\<And>id. id \<notin> row_id ` set ?rs \<Longrightarrow>
      poll_next q id = poll_next ?p id \<and> poll_values q id = poll_values p id"
    and each: "\<And>row. row \<in> set ?rs \<Longrightarrow> \<exists>s s'. row_polled ?now row s s' \<and>
       clock (poll_link ?p) \<le> clock (poll_link s) \<and>
       poll_next s (row_id row) = poll_next ?p (row_id row) \<and> poll_values s (row_id row) = poll_values ?p (row_id row) \<and>
       poll_next q (row_id row) = poll_next s' (row_id row) \<and> poll_values q (row_id row) = poll_values s' (row_id row)"
    using poll_rows_ok [of ?p cc ?rs fl ?now] assms distinct_map_filter [OF assms(2)] by auto
  have due: "(\<exists>t. poll_next q (row_id row) = Some t \<and> ?now + unat (period_ms row) * 1000 \<le> t) \<and>
      (\<exists>v. poll_values q (row_id row) = Some v \<and> wv_row_id v = row_id row)"
    if "row \<in> set snapshot" "enabled row" "\<forall>t. poll_next p (row_id row) = Some t \<longrightarrow> t \<le> ?now" for row
    using each [of row] that
    by (cases "poll_next p (row_id row)") (fastforce simp: row_polled_def)+
  have later: "poll_next q (row_id row) = poll_next p (row_id row) \<and> poll_values q (row_id row) = poll_values p (row_id row)"
    if "row \<in> set snapshot" "enabled row" "poll_next p (row_id row) = Some t" "?now < t" for row t
    using each [of row] that by (auto simp: row_polled_def)
  have disabled: "poll_next q (row_id row) = poll_next p (row_id row) \<and> poll_values q (row_id row) = poll_values p (row_id row)"
    if "row \<in> set snapshot" "\<not> enabled row" for row
  proof -
    have "row_id row \<notin> row_id ` set ?rs"
      using that assms(2) by (auto simp: distinct_map inj_on_def)
    from frame [OF this] that(1) show ?thesis by simp
  qed
  have gone: "poll_next q id = None \<and> poll_values q id = poll_values p id" if "id \<notin> row_id ` set snapshot" for id
  proof -
    have "id \<notin> row_id ` set ?rs" using that by auto
    from frame [OF this] that show ?thesis by simp
  qed
  have "poll_pass fl p snapshot = Ok (q\<lparr>poll_link := (poll_link q)\<lparr>clock := clock (poll_link q) + 10000\<rparr>\<rparr>)"
    using q(1) by (simp add: poll_pass_def Let_def)
  moreover have "if enabled row \<and> (\<forall>t. poll_next p (row_id row) = Some t \<longrightarrow> t \<le> ?now)
       then (\<exists>t. poll_next q (row_id row) = Some t \<and> ?now + unat (period_ms row) * 1000 \<le> t) \<and>
            (\<exists>v. poll_values q (row_id row) = Some v \<and> wv_row_id v = row_id row)
       else poll_next q (row_id row) = poll_next p (row_id row) \<and>
            poll_values q (row_id row) = poll_values p (row_id row)" if "row \<in> set snapshot" for row
    using due [OF that] later [OF that] disabled [OF that]
    by (cases "enabled row") (auto simp: not_le)
  ultimately show ?thesis using q(2,3) gone by auto
qed

theorem poll_pass_schedule_witness:
  "\<exists>p'. poll_pass integer_floats \<lparr>poll_client = demo_client (TcpEndpoint ''h'' 502 default_tcp),
       poll_link = demo_link [], poll_next = Map.empty, poll_values = Map.empty\<rparr> [demo_row ''a''] = Ok p' \<and>
     10000 \<le> clock (poll_link p') \<and> (\<exists>t. poll_next p' ''a'' = Some t \<and> 500000 \<le> t)"
proof -
  have "distinct (map row_id [demo_row ''a''])" by simp
  from poll_pass_schedule [OF _ this, of "\<lparr>poll_client = demo_client (TcpEndpoint ''h'' 502 default_tcp),
       poll_link = demo_link [], poll_next = Map.empty, poll_values = Map.empty\<rparr>" demo_client_role integer_floats]
  show ?thesis by (auto simp: demo_row_def demo_link_def)
qed

end
