(* ===== verification/Transfer_Crc.thy ===== *)
theory Transfer_Crc
  imports TauTerm_Prelude
begin

unbundle bit_operations_syntax

text \<open>
  The checksums of the serial file transfers, \<open>transfer/crc.rs\<close>: CRC-16/XMODEM in its two
  table-driven forms (the usual one and that of lrzsz), CRC-32 and the arithmetic sum. The tables
  are those of the source; they are proved to be the bitwise computation, which makes them linear,
  and on the linearity rests that the two forms of CRC-16 agree.
\<close>

section \<open>Tables\<close>

definition CRC16_TABLE :: "u16 list" where
  "CRC16_TABLE =
     [0x0000, 0x1021, 0x2042, 0x3063, 0x4084, 0x50a5, 0x60c6, 0x70e7, 0x8108, 0x9129, 0xa14a, 0xb16b,
      0xc18c, 0xd1ad, 0xe1ce, 0xf1ef, 0x1231, 0x0210, 0x3273, 0x2252, 0x52b5, 0x4294, 0x72f7, 0x62d6,
      0x9339, 0x8318, 0xb37b, 0xa35a, 0xd3bd, 0xc39c, 0xf3ff, 0xe3de, 0x2462, 0x3443, 0x0420, 0x1401,
      0x64e6, 0x74c7, 0x44a4, 0x5485, 0xa56a, 0xb54b, 0x8528, 0x9509, 0xe5ee, 0xf5cf, 0xc5ac, 0xd58d,
      0x3653, 0x2672, 0x1611, 0x0630, 0x76d7, 0x66f6, 0x5695, 0x46b4, 0xb75b, 0xa77a, 0x9719, 0x8738,
      0xf7df, 0xe7fe, 0xd79d, 0xc7bc, 0x48c4, 0x58e5, 0x6886, 0x78a7, 0x0840, 0x1861, 0x2802, 0x3823,
      0xc9cc, 0xd9ed, 0xe98e, 0xf9af, 0x8948, 0x9969, 0xa90a, 0xb92b, 0x5af5, 0x4ad4, 0x7ab7, 0x6a96,
      0x1a71, 0x0a50, 0x3a33, 0x2a12, 0xdbfd, 0xcbdc, 0xfbbf, 0xeb9e, 0x9b79, 0x8b58, 0xbb3b, 0xab1a,
      0x6ca6, 0x7c87, 0x4ce4, 0x5cc5, 0x2c22, 0x3c03, 0x0c60, 0x1c41, 0xedae, 0xfd8f, 0xcdec, 0xddcd,
      0xad2a, 0xbd0b, 0x8d68, 0x9d49, 0x7e97, 0x6eb6, 0x5ed5, 0x4ef4, 0x3e13, 0x2e32, 0x1e51, 0x0e70,
      0xff9f, 0xefbe, 0xdfdd, 0xcffc, 0xbf1b, 0xaf3a, 0x9f59, 0x8f78, 0x9188, 0x81a9, 0xb1ca, 0xa1eb,
      0xd10c, 0xc12d, 0xf14e, 0xe16f, 0x1080, 0x00a1, 0x30c2, 0x20e3, 0x5004, 0x4025, 0x7046, 0x6067,
      0x83b9, 0x9398, 0xa3fb, 0xb3da, 0xc33d, 0xd31c, 0xe37f, 0xf35e, 0x02b1, 0x1290, 0x22f3, 0x32d2,
      0x4235, 0x5214, 0x6277, 0x7256, 0xb5ea, 0xa5cb, 0x95a8, 0x8589, 0xf56e, 0xe54f, 0xd52c, 0xc50d,
      0x34e2, 0x24c3, 0x14a0, 0x0481, 0x7466, 0x6447, 0x5424, 0x4405, 0xa7db, 0xb7fa, 0x8799, 0x97b8,
      0xe75f, 0xf77e, 0xc71d, 0xd73c, 0x26d3, 0x36f2, 0x0691, 0x16b0, 0x6657, 0x7676, 0x4615, 0x5634,
      0xd94c, 0xc96d, 0xf90e, 0xe92f, 0x99c8, 0x89e9, 0xb98a, 0xa9ab, 0x5844, 0x4865, 0x7806, 0x6827,
      0x18c0, 0x08e1, 0x3882, 0x28a3, 0xcb7d, 0xdb5c, 0xeb3f, 0xfb1e, 0x8bf9, 0x9bd8, 0xabbb, 0xbb9a,
      0x4a75, 0x5a54, 0x6a37, 0x7a16, 0x0af1, 0x1ad0, 0x2ab3, 0x3a92, 0xfd2e, 0xed0f, 0xdd6c, 0xcd4d,
      0xbdaa, 0xad8b, 0x9de8, 0x8dc9, 0x7c26, 0x6c07, 0x5c64, 0x4c45, 0x3ca2, 0x2c83, 0x1ce0, 0x0cc1,
      0xef1f, 0xff3e, 0xcf5d, 0xdf7c, 0xaf9b, 0xbfba, 0x8fd9, 0x9ff8, 0x6e17, 0x7e36, 0x4e55, 0x5e74,
      0x2e93, 0x3eb2, 0x0ed1, 0x1ef0]"

definition CRC32_TABLE :: "u32 list" where
  "CRC32_TABLE =
     [0x00000000, 0x77073096, 0xee0e612c, 0x990951ba, 0x076dc419, 0x706af48f, 0xe963a535, 0x9e6495a3,
      0x0edb8832, 0x79dcb8a4, 0xe0d5e91e, 0x97d2d988, 0x09b64c2b, 0x7eb17cbd, 0xe7b82d07, 0x90bf1d91,
      0x1db71064, 0x6ab020f2, 0xf3b97148, 0x84be41de, 0x1adad47d, 0x6ddde4eb, 0xf4d4b551, 0x83d385c7,
      0x136c9856, 0x646ba8c0, 0xfd62f97a, 0x8a65c9ec, 0x14015c4f, 0x63066cd9, 0xfa0f3d63, 0x8d080df5,
      0x3b6e20c8, 0x4c69105e, 0xd56041e4, 0xa2677172, 0x3c03e4d1, 0x4b04d447, 0xd20d85fd, 0xa50ab56b,
      0x35b5a8fa, 0x42b2986c, 0xdbbbc9d6, 0xacbcf940, 0x32d86ce3, 0x45df5c75, 0xdcd60dcf, 0xabd13d59,
      0x26d930ac, 0x51de003a, 0xc8d75180, 0xbfd06116, 0x21b4f4b5, 0x56b3c423, 0xcfba9599, 0xb8bda50f,
      0x2802b89e, 0x5f058808, 0xc60cd9b2, 0xb10be924, 0x2f6f7c87, 0x58684c11, 0xc1611dab, 0xb6662d3d,
      0x76dc4190, 0x01db7106, 0x98d220bc, 0xefd5102a, 0x71b18589, 0x06b6b51f, 0x9fbfe4a5, 0xe8b8d433,
      0x7807c9a2, 0x0f00f934, 0x9609a88e, 0xe10e9818, 0x7f6a0dbb, 0x086d3d2d, 0x91646c97, 0xe6635c01,
      0x6b6b51f4, 0x1c6c6162, 0x856530d8, 0xf262004e, 0x6c0695ed, 0x1b01a57b, 0x8208f4c1, 0xf50fc457,
      0x65b0d9c6, 0x12b7e950, 0x8bbeb8ea, 0xfcb9887c, 0x62dd1ddf, 0x15da2d49, 0x8cd37cf3, 0xfbd44c65,
      0x4db26158, 0x3ab551ce, 0xa3bc0074, 0xd4bb30e2, 0x4adfa541, 0x3dd895d7, 0xa4d1c46d, 0xd3d6f4fb,
      0x4369e96a, 0x346ed9fc, 0xad678846, 0xda60b8d0, 0x44042d73, 0x33031de5, 0xaa0a4c5f, 0xdd0d7cc9,
      0x5005713c, 0x270241aa, 0xbe0b1010, 0xc90c2086, 0x5768b525, 0x206f85b3, 0xb966d409, 0xce61e49f,
      0x5edef90e, 0x29d9c998, 0xb0d09822, 0xc7d7a8b4, 0x59b33d17, 0x2eb40d81, 0xb7bd5c3b, 0xc0ba6cad,
      0xedb88320, 0x9abfb3b6, 0x03b6e20c, 0x74b1d29a, 0xead54739, 0x9dd277af, 0x04db2615, 0x73dc1683,
      0xe3630b12, 0x94643b84, 0x0d6d6a3e, 0x7a6a5aa8, 0xe40ecf0b, 0x9309ff9d, 0x0a00ae27, 0x7d079eb1,
      0xf00f9344, 0x8708a3d2, 0x1e01f268, 0x6906c2fe, 0xf762575d, 0x806567cb, 0x196c3671, 0x6e6b06e7,
      0xfed41b76, 0x89d32be0, 0x10da7a5a, 0x67dd4acc, 0xf9b9df6f, 0x8ebeeff9, 0x17b7be43, 0x60b08ed5,
      0xd6d6a3e8, 0xa1d1937e, 0x38d8c2c4, 0x4fdff252, 0xd1bb67f1, 0xa6bc5767, 0x3fb506dd, 0x48b2364b,
      0xd80d2bda, 0xaf0a1b4c, 0x36034af6, 0x41047a60, 0xdf60efc3, 0xa867df55, 0x316e8eef, 0x4669be79,
      0xcb61b38c, 0xbc66831a, 0x256fd2a0, 0x5268e236, 0xcc0c7795, 0xbb0b4703, 0x220216b9, 0x5505262f,
      0xc5ba3bbe, 0xb2bd0b28, 0x2bb45a92, 0x5cb36a04, 0xc2d7ffa7, 0xb5d0cf31, 0x2cd99e8b, 0x5bdeae1d,
      0x9b64c2b0, 0xec63f226, 0x756aa39c, 0x026d930a, 0x9c0906a9, 0xeb0e363f, 0x72076785, 0x05005713,
      0x95bf4a82, 0xe2b87a14, 0x7bb12bae, 0x0cb61b38, 0x92d28e9b, 0xe5d5be0d, 0x7cdcefb7, 0x0bdbdf21,
      0x86d3d2d4, 0xf1d4e242, 0x68ddb3f8, 0x1fda836e, 0x81be16cd, 0xf6b9265b, 0x6fb077e1, 0x18b74777,
      0x88085ae6, 0xff0f6a70, 0x66063bca, 0x11010b5c, 0x8f659eff, 0xf862ae69, 0x616bffd3, 0x166ccf45,
      0xa00ae278, 0xd70dd2ee, 0x4e048354, 0x3903b3c2, 0xa7672661, 0xd06016f7, 0x4969474d, 0x3e6e77db,
      0xaed16a4a, 0xd9d65adc, 0x40df0b66, 0x37d83bf0, 0xa9bcae53, 0xdebb9ec5, 0x47b2cf7f, 0x30b5ffe9,
      0xbdbdf21c, 0xcabac28a, 0x53b39330, 0x24b4a3a6, 0xbad03605, 0xcdd70693, 0x54de5729, 0x23d967bf,
      0xb3667a2e, 0xc4614ab8, 0x5d681b02, 0x2a6f2b94, 0xb40bbe37, 0xc30c8ea1, 0x5a05df1b, 0x2d02ef8d]"

section \<open>Checksums\<close>

text \<open>The tables have 256 entries and are indexed by bytes.\<close>

definition crc16_ccitt :: "byte list \<Rightarrow> u16" where
  "crc16_ccitt data =
     fold (\<lambda>b crc. push_bit 8 crc XOR CRC16_TABLE ! unat ((ucast (drop_bit 8 crc) :: byte) XOR b)) data 0"

definition updcrc :: "byte \<Rightarrow> u16 \<Rightarrow> u16" where
  "updcrc b crc = CRC16_TABLE ! unat (drop_bit 8 crc AND 0xFF) XOR push_bit 8 crc XOR ucast b"

definition crc16_updcrc :: "byte list \<Rightarrow> u16" where
  "crc16_updcrc data = fold updcrc data 0"

definition crc16_ccitt_zero_pad :: "byte list \<Rightarrow> u16" where
  "crc16_ccitt_zero_pad data = updcrc 0 (updcrc 0 (crc16_updcrc data))"

definition crc16_ccitt_feedthrough_verify :: "byte list \<Rightarrow> byte \<Rightarrow> byte \<Rightarrow> bool" where
  "crc16_ccitt_feedthrough_verify data crc_hi crc_lo \<longleftrightarrow>
     updcrc crc_lo (updcrc crc_hi (crc16_updcrc data)) = 0"

definition crc16_bit :: "u16 \<Rightarrow> u16" where
  "crc16_bit crc = (if crc AND 0x8000 \<noteq> 0 then push_bit 1 crc XOR 0x1021 else push_bit 1 crc)"

definition crc16_ccitt_bitwise :: "byte list \<Rightarrow> u16" where
  "crc16_ccitt_bitwise data = fold (\<lambda>b crc. (crc16_bit ^^ 8) (crc XOR push_bit 8 (ucast b))) data 0"

definition crc32_zmodem :: "byte list \<Rightarrow> u32" where
  "crc32_zmodem data =
     NOT (fold (\<lambda>b crc. CRC32_TABLE ! unat ((crc XOR ucast b) AND 0xFF) XOR drop_bit 8 crc) data 0xFFFFFFFF)"

definition checksum :: "byte list \<Rightarrow> byte" where
  "checksum data = fold (\<lambda>b acc. acc + b) data 0"

definition crc16_ccitt_verify :: "byte list \<Rightarrow> u16 \<Rightarrow> bool" where
  "crc16_ccitt_verify data expected \<longleftrightarrow> crc16_ccitt data = expected"

definition crc32_verify :: "byte list \<Rightarrow> u32 \<Rightarrow> bool" where
  "crc32_verify data expected \<longleftrightarrow> crc32_zmodem data = expected"

definition checksum_verify :: "byte list \<Rightarrow> byte \<Rightarrow> bool" where
  "checksum_verify data expected \<longleftrightarrow> checksum data = expected"

text \<open>The bitwise CRC-32, the reference for the table.\<close>

definition crc32_bit :: "u32 \<Rightarrow> u32" where
  "crc32_bit crc = (if bit crc 0 then drop_bit 1 crc XOR 0xEDB88320 else drop_bit 1 crc)"

definition crc32_bitwise :: "byte list \<Rightarrow> u32" where
  "crc32_bitwise data = NOT (fold (\<lambda>b crc. (crc32_bit ^^ 8) (crc XOR ucast b)) data 0xFFFFFFFF)"

section \<open>Additive functions and their tables\<close>

text \<open>
  The contract of a shift register: a step that respects XOR. Its iterates do, and the table of
  any such function doubles from one power of two to the next.
\<close>

locale xor_step =
  fixes step :: "'a::len word \<Rightarrow> 'a word"
  assumes step_xor: "step (a XOR b) = step a XOR step b"
begin

lemma iter_xor: "(step ^^ n) (a XOR b) = (step ^^ n) a XOR (step ^^ n) b"
  by (induction n) (simp_all add: step_xor)

lemma iter_zero: "(step ^^ n) 0 = 0"
  using iter_xor [of n 0 0] by simp

end

lemma crc16_bit_eq: "crc16_bit c = (if bit c 15 then push_bit 1 c XOR 0x1021 else push_bit 1 c)"
proof -
  have "(c AND 0x8000 \<noteq> 0) = bit c 15"
    using bit_iff_and_push_bit_not_eq_0 [of c 15] by (simp add: push_bit_eq_mult)
  then show ?thesis by (simp add: crc16_bit_def)
qed

interpretation step16: xor_step crc16_bit
  by unfold_locales (auto simp: crc16_bit_eq bit_xor_iff push_bit_xor ac_simps xor.left_commute)

interpretation step32: xor_step crc32_bit
  by unfold_locales (auto simp: crc32_bit_def bit_xor_iff drop_bit_xor ac_simps xor.left_commute)

definition doubled :: "'a::len word \<Rightarrow> 'a word list \<Rightarrow> 'a word list" where
  "doubled b xs = xs @ map ((XOR) b) xs"

lemma of_nat_high_bit:
  assumes "i < 2 ^ n" "n < LENGTH('a)"
  shows "(word_of_nat (2 ^ n + i) :: 'a::len word) = word_of_nat (2 ^ n) XOR word_of_nat i"
proof -
  have i: "\<not> bit i m" if "n \<le> m" for m
    using assms(1) that by (metis bit_take_bit_iff leD take_bit_nat_eq_self)
  have "(word_of_nat (2 ^ n) :: 'a word) AND word_of_nat i = 0"
    by (rule bit_word_eqI) (auto simp: bit_simps i)
  then show ?thesis by (simp add: disjunctive_add_eq_xor)
qed

lemma table_doubled:
  assumes "\<And>i. i < 2 ^ n \<Longrightarrow> f (2 ^ n + i) = f (2 ^ n) XOR f i"
  shows "map f [0..<2 ^ Suc n] = doubled (f (2 ^ n)) (map f [0..<2 ^ n])"
proof -
  have "map ((+) (2 ^ n)) [0..<2 ^ n] = [2 ^ n..<2 ^ n + 2 ^ n]"
    by (rule nth_equalityI) auto
  then have "[0..<2 ^ Suc n] = [0..<2 ^ n] @ map ((+) (2 ^ n)) [0..<2 ^ n]"
    using upt_add_eq_append [of 0 "2 ^ n" "2 ^ n"] by (simp only: power_Suc mult_2 zero_le)
  then show ?thesis using assms by (simp add: doubled_def)
qed

definition entry16 :: "nat \<Rightarrow> u16" where
  "entry16 i = (crc16_bit ^^ 8) (push_bit 8 (word_of_nat i))"

definition entry32 :: "nat \<Rightarrow> u32" where
  "entry32 i = (crc32_bit ^^ 8) (word_of_nat i)"

lemma entry16_high: "n < 8 \<Longrightarrow> i < 2 ^ n \<Longrightarrow> entry16 (2 ^ n + i) = entry16 (2 ^ n) XOR entry16 i"
  using of_nat_high_bit [of i n, where 'a = 16]
  by (simp add: entry16_def push_bit_xor step16.iter_xor)

lemma entry32_high: "n < 8 \<Longrightarrow> i < 2 ^ n \<Longrightarrow> entry32 (2 ^ n + i) = entry32 (2 ^ n) XOR entry32 i"
  using of_nat_high_bit [of i n, where 'a = 32] by (simp add: entry32_def step32.iter_xor)

lemma entry16_powers:
  "entry16 0 = 0" "entry16 (Suc 0) = 0x1021" "entry16 2 = 0x2042" "entry16 4 = 0x4084" "entry16 8 = 0x8108"
  "entry16 16 = 0x1231" "entry16 32 = 0x2462" "entry16 64 = 0x48c4" "entry16 128 = 0x9188"
  by (simp_all add: entry16_def funpow_8 crc16_bit_def)

lemma entry32_powers:
  "entry32 0 = 0" "entry32 (Suc 0) = 0x77073096" "entry32 2 = 0xee0e612c" "entry32 4 = 0x076dc419"
  "entry32 8 = 0x0edb8832" "entry32 16 = 0x1db71064" "entry32 32 = 0x3b6e20c8" "entry32 64 = 0x76dc4190"
  "entry32 128 = 0xedb88320"
  by (simp_all add: entry32_def funpow_8 crc32_bit_def bit_0)

lemma CRC16_TABLE_entries: "CRC16_TABLE = map entry16 [0..<256]"
proof -
  have d: "map entry16 [0..<2 ^ Suc n] = doubled (entry16 (2 ^ n)) (map entry16 [0..<2 ^ n])" if "n < 8" for n
    using entry16_high [OF that] by (rule table_doubled)
  have "map entry16 [0..<256] = doubled 0x9188 (doubled 0x48c4 (doubled 0x2462 (doubled 0x1231
      (doubled 0x8108 (doubled 0x4084 (doubled 0x2042 (doubled 0x1021 [0])))))))"
    using d [of 7] d [of 6] d [of 5] d [of 4] d [of 3] d [of 2] d [of 1] d [of 0] by (simp add: entry16_powers)
  also have "\<dots> = CRC16_TABLE" by (simp add: CRC16_TABLE_def doubled_def)
  finally show ?thesis by simp
qed

lemma CRC32_TABLE_entries: "CRC32_TABLE = map entry32 [0..<256]"
proof -
  have d: "map entry32 [0..<2 ^ Suc n] = doubled (entry32 (2 ^ n)) (map entry32 [0..<2 ^ n])" if "n < 8" for n
    using entry32_high [OF that] by (rule table_doubled)
  have "map entry32 [0..<256] = doubled 0xedb88320 (doubled 0x76dc4190 (doubled 0x3b6e20c8 (doubled 0x1db71064
      (doubled 0x0edb8832 (doubled 0x076dc419 (doubled 0xee0e612c (doubled 0x77073096 [0])))))))"
    using d [of 7] d [of 6] d [of 5] d [of 4] d [of 3] d [of 2] d [of 1] d [of 0] by (simp add: entry32_powers)
  also have "\<dots> = CRC32_TABLE" by (simp add: CRC32_TABLE_def doubled_def)
  finally show ?thesis by simp
qed

lemma table16: "CRC16_TABLE ! unat (b :: byte) = (crc16_bit ^^ 8) (push_bit 8 (ucast b))"
  using u8_bound [of b] by (simp add: CRC16_TABLE_entries entry16_def)

lemma table32: "CRC32_TABLE ! unat (b :: byte) = (crc32_bit ^^ 8) (ucast b)"
  using u8_bound [of b] by (simp add: CRC32_TABLE_entries entry32_def)


section \<open>Byte steps\<close>

lemma unat_low_byte:
  fixes w :: "'a::len word"
  assumes "8 \<le> LENGTH('a)"
  shows "unat (w AND 0xFF) = unat (ucast w :: byte)"
proof -
  have "w AND 0xFF = take_bit 8 w"
    using take_bit_eq_mask [of 8 w] by (simp add: mask_eq_exp_minus_1)
  then show ?thesis
    by (simp add: unsigned_take_bit_eq unsigned_ucast_eq)
qed

lemma bytes_of_u16: "c = push_bit 8 (ucast (ucast (drop_bit 8 c) :: byte)) XOR ucast (ucast c :: byte)" for c :: u16
  by (rule bit_word_eqI) (auto simp: bit_simps)

lemma iter16_low: "n \<le> 8 \<Longrightarrow> (crc16_bit ^^ n) (ucast (b :: byte)) = push_bit n (ucast b)"
proof (induction n)
  case (Suc n)
  have "\<not> bit (push_bit n (ucast b) :: u16) 15"
    using Suc.prems by (auto simp: bit_simps dest: bit_imp_le_length)
  with Suc show ?case by (simp add: crc16_bit_eq push_bit_push_bit)
qed simp

lemma crc16_byte_step:
  "(crc16_bit ^^ 8) (c XOR push_bit 8 (ucast b)) =
     push_bit 8 c XOR CRC16_TABLE ! unat ((ucast (drop_bit 8 c) :: byte) XOR b)"
proof -
  let ?hi = "ucast (drop_bit 8 c) :: byte" and ?lo = "ucast c :: byte"
  have "c XOR push_bit 8 (ucast b) = push_bit 8 (ucast (?hi XOR b)) XOR ucast ?lo"
    by (rule bit_word_eqI) (auto simp: bit_simps)
  moreover have "push_bit 8 (ucast ?lo) = push_bit 8 c"
    by (rule bit_word_eqI) (auto simp: bit_simps)
  ultimately show ?thesis
    by (simp add: step16.iter_xor table16 iter16_low xor.commute)
qed

lemma crc16_ccitt_eq_bitwise: "crc16_ccitt data = crc16_ccitt_bitwise data"
  by (simp add: crc16_ccitt_def crc16_ccitt_bitwise_def crc16_byte_step)

text \<open>The lrzsz form keeps the register two bytes behind the usual one.\<close>

lemma updcrc_eq: "updcrc b c = (crc16_bit ^^ 8) c XOR ucast b"
proof -
  have "unat (drop_bit 8 c AND 0xFF) = unat (ucast (drop_bit 8 c) :: byte)"
    by (rule unat_low_byte) simp
  then show ?thesis
    using crc16_byte_step [of c 0] by (simp add: updcrc_def ac_simps)
qed


lemma updcrc_low: "updcrc 0 (ucast (b :: byte)) = push_bit 8 (ucast b)"
  using iter16_low [of 8 b] by (simp add: updcrc_eq)

lemma crc16_updcrc_pad:
  "updcrc 0 (updcrc 0 (fold updcrc data c)) =
     fold (\<lambda>b crc. (crc16_bit ^^ 8) (crc XOR push_bit 8 (ucast b))) data (updcrc 0 (updcrc 0 c))"
proof (induction data arbitrary: c)
  case (Cons b data)
  have "updcrc 0 (updcrc 0 (updcrc b c)) = (crc16_bit ^^ 8) (updcrc 0 (updcrc 0 c) XOR push_bit 8 (ucast b))"
    using iter16_low [of 8 b] by (simp add: updcrc_eq step16.iter_xor)
  then show ?case by (simp add: Cons.IH)
qed simp

lemma zero_pad_eq: "crc16_ccitt_zero_pad data = crc16_ccitt data"
proof -
  have "updcrc 0 (updcrc 0 0) = 0" by (simp add: updcrc_eq step16.iter_zero)
  then show ?thesis
    using crc16_updcrc_pad [of data 0]
    by (simp add: crc16_ccitt_zero_pad_def crc16_updcrc_def crc16_ccitt_eq_bitwise crc16_ccitt_bitwise_def)
qed

lemma feedthrough_eq:
  "crc16_ccitt_feedthrough_verify data hi lo \<longleftrightarrow> crc16_ccitt data = from_be_bytes hi lo"
proof -
  have "from_be_bytes hi lo = push_bit 8 (ucast hi) XOR ucast lo"
    unfolding from_be_bytes_def by (rule bit_word_eqI) (auto simp: bit_simps dest: bit_imp_le_length)
  moreover have "updcrc lo (updcrc hi c) = updcrc 0 (updcrc 0 c) XOR (push_bit 8 (ucast hi) XOR ucast lo)" for c
    using iter16_low [of 8 hi] by (simp add: updcrc_eq step16.iter_xor xor.assoc)
  ultimately show ?thesis
    using zero_pad_eq [of data] xor_cancel(1) [of _ "from_be_bytes hi lo" "from_be_bytes hi lo"]
    by (simp add: crc16_ccitt_feedthrough_verify_def crc16_ccitt_zero_pad_def)
qed

lemma iter32_high: "n \<le> 8 \<Longrightarrow> (crc32_bit ^^ n) (push_bit 8 (drop_bit 8 c)) = drop_bit n (push_bit 8 (drop_bit 8 c))"
proof (induction n)
  case (Suc n)
  have "\<not> bit (drop_bit n (push_bit 8 (drop_bit 8 c))) 0"
    using Suc.prems by (auto simp: bit_simps)
  with Suc show ?case by (simp add: crc32_bit_def drop_bit_drop_bit)
qed simp

lemma crc32_byte_step:
  "(crc32_bit ^^ 8) (c XOR ucast (b :: byte)) = CRC32_TABLE ! unat ((c XOR ucast b) AND 0xFF) XOR drop_bit 8 c"
proof -
  let ?x = "c XOR ucast b"
  have "unat (?x AND 0xFF) = unat (ucast ?x :: byte)"
    by (rule unat_low_byte) simp
  moreover have "?x = ucast (ucast ?x :: byte) XOR push_bit 8 (drop_bit 8 ?x)"
    by (rule bit_word_eqI) (auto simp: bit_simps)
  moreover have "drop_bit 8 (push_bit 8 (drop_bit 8 ?x)) = drop_bit 8 c"
    by (rule bit_word_eqI) (auto simp: bit_simps dest: bit_imp_le_length)
  ultimately show ?thesis
    using iter32_high [of 8 ?x] step32.iter_xor [of 8 "ucast (ucast ?x :: byte)" "push_bit 8 (drop_bit 8 ?x)"]
    by (simp add: table32)
qed

lemma crc32_eq_bitwise: "crc32_zmodem data = crc32_bitwise data"
  by (simp add: crc32_zmodem_def crc32_bitwise_def crc32_byte_step)


section \<open>A changed byte\<close>

lemma crc16_bit_zero: "crc16_bit c = 0 \<Longrightarrow> c = 0"
proof -
  assume z: "crc16_bit c = 0"
  have "bit (push_bit 1 c XOR 0x1021 :: u16) 0" by (simp only: bit_xor_iff bit_push_bit_iff) (simp add: bit_0)
  with z have n: "\<not> bit c 15" by (auto simp: crc16_bit_eq)
  with z have p: "push_bit 1 c = 0" by (simp add: crc16_bit_eq)
  have "\<not> bit c i" for i
  proof (cases "i < 15")
    case True
    then show ?thesis using arg_cong [OF p, of "\<lambda>w. bit w (Suc i)"]
      by (simp only: bit_push_bit_iff) simp
  next
    case False
    then show ?thesis using n by (cases "i = 15") (auto dest: bit_imp_le_length)
  qed
  then show "c = 0" by (simp add: bit_eq_iff)
qed

lemma iter16_inj: "(crc16_bit ^^ n) a = (crc16_bit ^^ n) b \<Longrightarrow> a = b"
proof -
  have zero: "(crc16_bit ^^ n) c = 0 \<Longrightarrow> c = 0" for c
    by (induction n) (auto dest: crc16_bit_zero)
  assume "(crc16_bit ^^ n) a = (crc16_bit ^^ n) b"
  then have "(crc16_bit ^^ n) (a XOR b) = 0" by (simp add: step16.iter_xor)
  from zero [OF this] show "a = b" using xor_cancel(1) [of a b b] by simp
qed

lemma fold_crc16_inj:
  "fold (\<lambda>b crc. (crc16_bit ^^ 8) (crc XOR push_bit 8 (ucast (b :: byte)))) data a =
   fold (\<lambda>b crc. (crc16_bit ^^ 8) (crc XOR push_bit 8 (ucast b))) data c \<Longrightarrow> a = c"
proof (induction data arbitrary: a c)
  case (Cons b data)
  from Cons.IH [OF Cons.prems [unfolded fold_simps]] show ?case
    by (auto dest!: iter16_inj simp: xor_cancel)
qed simp

lemma push_ucast_inj: "(push_bit 8 (ucast (a :: byte)) :: u16) = push_bit 8 (ucast b) \<Longrightarrow> a = b"
proof -
  assume e: "(push_bit 8 (ucast a) :: u16) = push_bit 8 (ucast b)"
  show "a = b"
  proof (rule bit_word_eqI)
    fix n assume "n < LENGTH(8)"
    then show "bit a n = bit b n"
      using arg_cong [OF e, of "\<lambda>w. bit w (8 + n)"] by (simp add: bit_simps)
  qed
qed

lemma crc16_changed_byte:
  assumes "i < length data" "data ! i \<noteq> b"
  shows "crc16_ccitt (data[i := b]) \<noteq> crc16_ccitt data"
proof
  assume eq: "crc16_ccitt (data[i := b]) = crc16_ccitt data"
  have d: "data = take i data @ data ! i # drop (Suc i) data" using assms(1) by (rule id_take_nth_drop)
  have u: "data[i := b] = take i data @ b # drop (Suc i) data" using assms(1) by (rule upd_conv_take_nth_drop)
  show False
    using eq assms(2) unfolding crc16_ccitt_eq_bitwise crc16_ccitt_bitwise_def u
    by (subst (asm) (2) d) (auto dest!: fold_crc16_inj iter16_inj push_ucast_inj simp: xor_cancel)
qed

lemma checksum_changed_byte:
  assumes "i < length data" "data ! i \<noteq> b"
  shows "checksum (data[i := b]) \<noteq> checksum data"
proof
  have sum: "fold (\<lambda>b acc. acc + b) xs a = a + sum_list xs" for xs and a :: byte
    by (induction xs arbitrary: a) (auto simp: algebra_simps)
  have d: "data = take i data @ data ! i # drop (Suc i) data" using assms(1) by (rule id_take_nth_drop)
  have u: "data[i := b] = take i data @ b # drop (Suc i) data" using assms(1) by (rule upd_conv_take_nth_drop)
  assume "checksum (data[i := b]) = checksum data"
  then show False using assms(2) unfolding checksum_def sum u by (subst (asm) (2) d) auto
qed

section \<open>Properties\<close>

text \<open>C31. The table-driven CRC-16 and CRC-32 compute the bitwise CRCs of their
  polynomials; the value the sender transmits, the lrzsz register fed with two zero bytes, is that
  CRC-16, and feeding the two received bytes gives zero exactly when they are its big-endian bytes. The
  lrzsz register itself is not the CRC: for the single byte 1 the two differ, contrary to the comment on
  \<open>crc16_updcrc\<close>.\<close>

theorem transfer_checksums:
  "crc16_ccitt data = crc16_ccitt_bitwise data \<and> crc32_zmodem data = crc32_bitwise data \<and>
   crc16_ccitt_zero_pad data = crc16_ccitt data \<and>
   (crc16_ccitt_feedthrough_verify data hi lo \<longleftrightarrow> [hi, lo] = to_be_bytes (crc16_ccitt data)) \<and>
   crc16_updcrc [1] \<noteq> crc16_ccitt [1]"
proof -
  have "[hi, lo] = to_be_bytes w \<longleftrightarrow> w = from_be_bytes hi lo" for w
    by (metis from_be_bytes_split list.inject to_be_bytes_def to_be_from_be)
  moreover have "crc16_updcrc [1] = 1" by (simp add: crc16_updcrc_def updcrc_eq step16.iter_zero)
  moreover have "crc16_ccitt [1] = 0x1021"
    using entry16_powers(2) by (simp add: crc16_ccitt_eq_bitwise crc16_ccitt_bitwise_def entry16_def)
  ultimately show ?thesis
    by (simp add: crc16_ccitt_eq_bitwise [symmetric] crc32_eq_bitwise zero_pad_eq feedthrough_eq)
qed

end
