(* ===== verification/Transfer_Io.thy ===== *)
theory Transfer_Io
  imports TauTerm_Prelude
begin

text \<open>
  The serial port as the X/Y/ZMODEM code sees it, and the shared helpers of \<open>transfer/io.rs\<close>.

  The port is a script of what its successive reads return, each with the time it takes in
  milliseconds, followed by silence; of the errors of its writes and flushes; and of the answers of the
  caller's \<open>cancel\<close> closure. Every behaviour of a port over a finite time is such a script. What was
  written, the progress and file events and the files saved are recorded. Byte counts and times, 64-bit in
  the code, are naturals. The error texts of the
  code are in Chinese; an error is a constructor here, with the values the text shows.
\<close>

section \<open>Data of the transfers\<close>

datatype transfer_direction = SendFiles | ReceiveFiles

record transfer_progress =
  tp_file_name :: string
  tp_bytes_transferred :: nat
  tp_total_bytes :: nat
  tp_file_index :: nat
  tp_total_files :: nat
  tp_aggregate_bytes_transferred :: nat
  tp_aggregate_total_bytes :: nat
  tp_direction :: transfer_direction

datatype transfer_error =
    IoFailed message
  | TransferCancelled
  | CancelledByPeer
  | StartTimeout
  | BlockSizeUnsupported nat
  | BlockRetriesExhausted byte
  | BlockUnexpected byte byte
  | BlockFailed byte
  | EotTimeout
  | EotUnexpected byte
  | EotFailed
  | FirstBlockExhausted
  | NoConnection
  | HeaderTimeout
  | HeaderInvalid byte
  | StreamInterrupted
  | OpenFailed message
  | ReadFileFailed message
  | SaveFailed message
  | WrongRole
  | ReadyTimeout nat
  | CancelRetriesExhausted nat

datatype file_transfer_event =
    FileStart string nat nat nat
  | FileComplete string nat nat nat bool "transfer_error option"

datatype batch_file_status = Completed | Failed | Skipped

record batch_file_result =
  bf_file_name :: string
  bf_status :: batch_file_status
  bf_size :: nat
  bf_error :: "transfer_error option"

record file_info =
  fi_path :: string
  fi_name :: string
  fi_size :: nat
  fi_is_dir :: bool
  fi_mtime :: nat

section \<open>The port\<close>

datatype read_outcome = ReadData "byte list" | ReadTimedOut | ReadFailed message

datatype transfer_event = Progress transfer_progress | FileEvent file_transfer_event

record transfer_io =
  io_clock :: nat
  io_reads :: "(nat \<times> read_outcome) list"
  io_written :: "byte list list"
  io_write_errors :: "message option list"
  io_flush_errors :: "message option list"
  io_cancels :: "bool list"
  io_events :: "transfer_event list"
  io_files :: "(string \<times> byte list) list"

type_synonym 'a io = "transfer_io \<Rightarrow> ('a, transfer_error) result \<times> transfer_io"

definition io_return :: "'a \<Rightarrow> 'a io" where
  "io_return v = (\<lambda>w. (Ok v, w))"

definition io_fail :: "transfer_error \<Rightarrow> 'a io" where
  "io_fail e = (\<lambda>w. (Err e, w))"

definition io_bind :: "'a io \<Rightarrow> ('a \<Rightarrow> 'b io) \<Rightarrow> 'b io" where
  "io_bind m f = (\<lambda>w. case m w of (Ok v, w) \<Rightarrow> f v w | (Err e, w) \<Rightarrow> (Err e, w) | (Panic, w) \<Rightarrow> (Panic, w))"

text \<open>One call of \<open>read\<close> with a buffer of \<open>n\<close> bytes.\<close>

definition port_read :: "nat \<Rightarrow> transfer_io \<Rightarrow> read_outcome \<times> transfer_io" where
  "port_read n w =
     (case io_reads w of
        [] \<Rightarrow> (ReadTimedOut, w)
      | (d, ReadData bs) # rs \<Rightarrow>
          (ReadData (take n bs),
           w\<lparr>io_clock := io_clock w + d,
             io_reads := (if n < length bs then (0, ReadData (drop n bs)) # rs else rs)\<rparr>)
      | (d, other) # rs \<Rightarrow> (other, w\<lparr>io_clock := io_clock w + d, io_reads := rs\<rparr>))"

definition pop_error :: "message option list \<Rightarrow> message option" where
  "pop_error es = (case es of [] \<Rightarrow> None | e # _ \<Rightarrow> e)"

definition port_write_all :: "byte list \<Rightarrow> unit io" where
  "port_write_all bs w =
     (let w' = w\<lparr>io_write_errors := tl (io_write_errors w)\<rparr> in
      case pop_error (io_write_errors w) of
        Some e \<Rightarrow> (Err (IoFailed e), w')
      | None \<Rightarrow> (Ok (), w'\<lparr>io_written := io_written w @ [bs]\<rparr>))"

definition port_flush :: "unit io" where
  "port_flush w =
     (let w' = w\<lparr>io_flush_errors := tl (io_flush_errors w)\<rparr> in
      case pop_error (io_flush_errors w) of Some e \<Rightarrow> (Err (IoFailed e), w') | None \<Rightarrow> (Ok (), w'))"

text \<open>\<open>port.write_all(..)?; port.flush()?\<close>\<close>

definition port_send :: "byte list \<Rightarrow> unit io" where
  "port_send bs = io_bind (port_write_all bs) (\<lambda>_. port_flush)"

definition cancel :: "bool io" where
  "cancel w = (Ok (case io_cancels w of [] \<Rightarrow> False | c # _ \<Rightarrow> c), w\<lparr>io_cancels := tl (io_cancels w)\<rparr>)"

definition on_progress :: "transfer_progress \<Rightarrow> unit io" where
  "on_progress p w = (Ok (), w\<lparr>io_events := io_events w @ [Progress p]\<rparr>)"

definition on_file_event :: "file_transfer_event \<Rightarrow> unit io" where
  "on_file_event e w = (Ok (), w\<lparr>io_events := io_events w @ [FileEvent e]\<rparr>)"

section \<open>Shared helpers\<close>

definition CAN :: byte where "CAN = 0x18"
definition NAK :: byte where "NAK = 0x15"
definition WANTCRC :: byte where "WANTCRC = 0x43"
definition WANTG :: byte where "WANTG = 0x47"

lemma port_read_clock: "port_read n w = (out, w') \<Longrightarrow> io_clock w \<le> io_clock w'"
  by (auto simp: port_read_def split: list.splits prod.splits read_outcome.splits)

text \<open>The outcome of a poll for one byte: an error, a byte, or nothing yet.\<close>

fun polled :: "read_outcome \<Rightarrow> (byte option, transfer_error) result" where
  "polled (ReadFailed e) = Err (IoFailed e)"
| "polled (ReadData (b # _)) = Ok (Some b)"
| "polled _ = Ok None"

function read_byte_loop :: "nat \<Rightarrow> nat \<Rightarrow> byte option io" where
  "read_byte_loop start timeout_ms w =
     (let (out, w') = port_read 1 w in
      if polled out \<noteq> Ok None then (polled out, w')
      else if io_clock w' - start > timeout_ms then (Ok None, w')
      else read_byte_loop start timeout_ms (w'\<lparr>io_clock := io_clock w' + 10\<rparr>))"
  by pat_completeness auto
termination
  by (relation "measure (\<lambda>(start, t, w). start + t + 1 - io_clock w)")
    (auto dest!: port_read_clock [OF sym])

declare read_byte_loop.simps [simp del]

definition read_byte_with_timeout :: "nat \<Rightarrow> byte option io" where
  "read_byte_with_timeout timeout_ms w = read_byte_loop (io_clock w) timeout_ms w"

fun flush_loop :: "nat \<Rightarrow> nat \<Rightarrow> transfer_io \<Rightarrow> transfer_io" where
  "flush_loop 0 empty_count w = w"
| "flush_loop (Suc n) empty_count w =
     (case port_read 256 w of
        (ReadData (_ # _), w') \<Rightarrow> flush_loop n 0 w'
      | (_, w') \<Rightarrow> if empty_count + 1 \<ge> 3 then w' else flush_loop n (empty_count + 1) w')"

definition flush_port_buffer :: "transfer_io \<Rightarrow> transfer_io" where
  "flush_port_buffer w = flush_loop 20 0 w"

definition cancel_sequence :: "byte list" where
  "cancel_sequence = replicate 10 CAN @ replicate 8 0x08"

text \<open>Errors of the write and of the flush are logged and dropped.\<close>

definition send_cancel :: "unit io" where
  "send_cancel w =
     (let (_, w) = port_write_all cancel_sequence w; (_, w) = port_flush w
      in (Ok (), w\<lparr>io_clock := io_clock w + 100\<rparr>))"

definition detect_cancel :: "byte \<Rightarrow> bool \<Rightarrow> bool \<times> bool" where
  "detect_cancel b last_can =
     (if b = CAN then if last_can then (True, last_can) else (False, True) else (False, False))"

fun drain_loop :: "nat \<Rightarrow> transfer_io \<Rightarrow> transfer_io" where
  "drain_loop 0 w = w"
| "drain_loop (Suc n) w =
     (case read_byte_with_timeout 100 w of (Ok (Some _), w') \<Rightarrow> drain_loop n w' | (_, w') \<Rightarrow> w')"

definition drain_rx_buffer :: "transfer_io \<Rightarrow> transfer_io" where
  "drain_rx_buffer w = drain_loop 20 w"

datatype wait_result = WantCrc | WantChecksum | WantG | WaitCancel

text \<open>The bytes the port still delivers; every byte read is taken from them.\<close>

definition input_left :: "transfer_io \<Rightarrow> nat" where
  "input_left w = sum_list (map (\<lambda>(_, r). case r of ReadData bs \<Rightarrow> length bs | _ \<Rightarrow> 0) (io_reads w))"

definition same_but_reads :: "transfer_io \<Rightarrow> transfer_io \<Rightarrow> bool" where
  "same_but_reads w w' \<longleftrightarrow> io_written w' = io_written w \<and> io_write_errors w' = io_write_errors w \<and>
     io_flush_errors w' = io_flush_errors w \<and> io_cancels w' = io_cancels w \<and>
     io_events w' = io_events w \<and> io_files w' = io_files w"

lemma port_read_facts:
  assumes "port_read n w = (out, w')" "0 < n"
  shows "same_but_reads w w'" "input_left w' \<le> input_left w"
    "out = ReadData (b # bs) \<Longrightarrow> input_left w' < input_left w"
  using assms
  by (auto simp: port_read_def input_left_def same_but_reads_def
      split: list.splits prod.splits read_outcome.splits if_splits)

lemma same_but_reads_trans: "same_but_reads a b \<Longrightarrow> same_but_reads b c \<Longrightarrow> same_but_reads a c"
  by (simp add: same_but_reads_def)

lemma polled_Some: "polled out = Ok (Some b) \<longleftrightarrow> (\<exists>bs. out = ReadData (b # bs))"
  by (cases out rule: polled.cases) auto

lemma polled_no_panic: "polled out \<noteq> Panic"
  by (cases out rule: polled.cases) auto

lemma read_byte_loop_facts:
  assumes "read_byte_loop start t w = (r, w')"
  shows "same_but_reads w w' \<and> input_left w' \<le> input_left w \<and> io_clock w \<le> io_clock w' \<and> r \<noteq> Panic \<and>
    (\<forall>b. r = Ok (Some b) \<longrightarrow> input_left w' < input_left w) \<and>
    (r = Ok None \<longrightarrow> start + t < io_clock w')"
  using assms
proof (induction start t w arbitrary: r w' rule: read_byte_loop.induct)
  case (1 start t w)
  obtain out w1 where p: "port_read 1 w = (out, w1)" by fastforce
  note f = port_read_facts [OF p] port_read_clock [OF p]
  let ?w2 = "w1\<lparr>io_clock := io_clock w1 + 10\<rparr>"
  have w2: "same_but_reads w1 ?w2" "input_left ?w2 = input_left w1" "io_clock w1 \<le> io_clock ?w2"
    by (simp_all add: same_but_reads_def input_left_def)
  consider "polled out \<noteq> Ok None" | "polled out = Ok None" "io_clock w1 - start > t"
    | "polled out = Ok None" "\<not> io_clock w1 - start > t" by blast
  then show ?case
  proof cases
    case 1
    with "1.prems" p have "r = polled out" "w' = w1" by (auto simp: read_byte_loop.simps [of start t w])
    with f 1 show ?thesis by (auto simp: polled_Some polled_no_panic)
  next
    case 2
    with "1.prems" p have "r = Ok None" "w' = w1" by (auto simp: read_byte_loop.simps [of start t w])
    with f 2 show ?thesis by auto
  next
    case 3
    then have "read_byte_loop start t ?w2 = (r, w')"
      using "1.prems" p by (auto simp: read_byte_loop.simps [of start t w])
    from "1.IH" [OF p [symmetric] _ _ _ this] 3 f w2 show ?thesis
      by (auto intro: same_but_reads_trans)
  qed
qed

lemma read_byte_facts:
  assumes "read_byte_with_timeout t w = (r, w')"
  shows "same_but_reads w w'" "input_left w' \<le> input_left w" "io_clock w \<le> io_clock w'" "r \<noteq> Panic"
    "r = Ok (Some b) \<Longrightarrow> input_left w' < input_left w" "r = Ok None \<Longrightarrow> io_clock w + t < io_clock w'"
  using read_byte_loop_facts [OF assms [unfolded read_byte_with_timeout_def]] by auto

text \<open>A byte shortens the input, silence takes time: the two ways a reading loop makes progress.\<close>

lemma read_byte_steps:
  "(Ok None, w') = read_byte_with_timeout t w \<Longrightarrow> input_left w' \<le> input_left w \<and> io_clock w + t < io_clock w'"
  "(Ok (Some b), w') = read_byte_with_timeout t w \<Longrightarrow> input_left w' < input_left w \<and> io_clock w \<le> io_clock w'"
  by (simp_all add: read_byte_facts [OF sym])

section \<open>Waiting for the receiver\<close>

function wait_loop :: "nat \<Rightarrow> nat \<Rightarrow> nat \<Rightarrow> bool \<Rightarrow> nat \<Rightarrow> wait_result io" where
  "wait_loop start timeout_ms max_retries last_can retry_count w =
     (if io_clock w - start > timeout_ms then (Err (ReadyTimeout retry_count), w)
      else case read_byte_with_timeout 200 w of
        (Panic, w') \<Rightarrow> (Panic, w')
      | (Err e, w') \<Rightarrow> (Err e, w')
      | (Ok None, w') \<Rightarrow> wait_loop start timeout_ms max_retries False retry_count w'
      | (Ok (Some b), w') \<Rightarrow>
          if b = WANTCRC then (Ok WantCrc, w')
          else if b = WANTG then (Ok WantG, w')
          else if b = NAK then (Ok WantChecksum, w')
          else if b = CAN then
            (case detect_cancel CAN last_can of
               (True, _) \<Rightarrow> (Ok WaitCancel, w')
             | (False, last_can) \<Rightarrow>
                 if retry_count + 1 \<ge> max_retries then (Err (CancelRetriesExhausted (retry_count + 1)), w')
                 else wait_loop start timeout_ms max_retries last_can (retry_count + 1) w')
          else wait_loop start timeout_ms max_retries False retry_count w')"
  by pat_completeness auto
termination
  by (relation "measure (\<lambda>(start, t, _, _, _, w). input_left w + (start + t + 1 - io_clock w))")
    (auto dest!: read_byte_steps)

declare wait_loop.simps [simp del]

definition wait_for_nak_or_c :: "nat \<Rightarrow> nat \<Rightarrow> wait_result io" where
  "wait_for_nak_or_c timeout_ms max_retries w = wait_loop (io_clock w) timeout_ms max_retries False 0 w"

datatype eot_response = EotAck | EotNak | EotCan | EotWantCrc | EotTimedOut | EotOther byte

definition read_eot_response :: "nat \<Rightarrow> eot_response io" where
  "read_eot_response timeout_ms =
     io_bind (read_byte_with_timeout timeout_ms) (\<lambda>r. io_return
       (case r of None \<Rightarrow> EotTimedOut
        | Some b \<Rightarrow> if b = 0x06 then EotAck else if b = NAK then EotNak else if b = CAN then EotCan
            else if b = WANTCRC then EotWantCrc else EotOther b))"

end
