(* ===== verification/Transfer_Xmodem.thy ===== *)
theory Transfer_Xmodem
  imports Transfer_Crc Transfer_Io
begin

unbundle bit_operations_syntax

text \<open>
  The XMODEM sender and receiver, \<open>transfer/xmodem.rs\<close>, over the port of \<open>Transfer_Io\<close>. The file
  to send is what opening it gives: an error, or the results of its successive reads, an end of file
  after the last. The name of the received file, the errors of creating the directory and of saving
  the file are parameters, since the code takes them from the clock and the file system.
\<close>

section \<open>Constants and modes\<close>

definition SOH :: byte where "SOH = 0x01"
definition STX :: byte where "STX = 0x02"
definition EOT :: byte where "EOT = 0x04"
definition ACK :: byte where "ACK = 0x06"
definition BLOCK_SIZE_128 :: nat where "BLOCK_SIZE_128 = 128"
definition BLOCK_SIZE_1K :: nat where "BLOCK_SIZE_1K = 1024"
definition MAX_RETRIES :: nat where "MAX_RETRIES = 10"
definition INIT_TIMEOUT_SECS :: nat where "INIT_TIMEOUT_SECS = 30"

lemmas xmodem_bytes = SOH_def STX_def EOT_def ACK_def CAN_def NAK_def WANTCRC_def

datatype xmodem_check_mode = Checksum | Crc16

fun init_byte :: "xmodem_check_mode \<Rightarrow> byte" where
  "init_byte Checksum = NAK"
| "init_byte Crc16 = WANTCRC"

datatype xmodem_receive_mode = AutoMode | Crc16Mode | ChecksumMode

text \<open>The options of a transfer, \<open>transfer/config.rs\<close>, and their validation before a transfer starts.\<close>

datatype zmodem_crc_policy = ZAuto | ZCrc16 | ZCrc32Required

datatype zmodem_receive_crc_capability = ZReceiveAuto | ZCrc16Only

datatype send_protocol_options = SendYmodem nat | SendXmodem nat | SendZmodem zmodem_crc_policy nat | SendSftp

datatype receive_protocol_options =
  ReceiveYmodem | ReceiveXmodem xmodem_receive_mode | ReceiveZmodem zmodem_receive_crc_capability | ReceiveSftp

fun send_protocol :: "send_protocol_options \<Rightarrow> string" where
  "send_protocol (SendYmodem _) = ''ymodem''"
| "send_protocol (SendXmodem _) = ''xmodem''"
| "send_protocol (SendZmodem _ _) = ''zmodem''"
| "send_protocol SendSftp = ''sftp''"

fun receive_protocol :: "receive_protocol_options \<Rightarrow> string" where
  "receive_protocol ReceiveYmodem = ''ymodem''"
| "receive_protocol (ReceiveXmodem _) = ''xmodem''"
| "receive_protocol (ReceiveZmodem _) = ''zmodem''"
| "receive_protocol ReceiveSftp = ''sftp''"

definition small_block :: "send_protocol_options \<Rightarrow> nat \<Rightarrow> (unit, message) result" where
  "small_block opts block_size =
     (if block_size = 128 \<or> block_size = 1024 then Ok ()
      else Err (Fmt ''{} block size must be 128 or 1024, got {}'' [Msg (send_protocol opts)] [block_size]))"

fun validate_send_options :: "send_protocol_options \<Rightarrow> (unit, message) result" where
  "validate_send_options (SendYmodem block_size) = small_block (SendYmodem block_size) block_size"
| "validate_send_options (SendXmodem block_size) = small_block (SendXmodem block_size) block_size"
| "validate_send_options (SendZmodem _ max_block_size) =
     (if max_block_size \<in> {1024, 2048, 4096, 8192} then Ok ()
      else Err (Fmt ''ZModem block size must be 1024/2048/4096/8192, got {}'' [] [max_block_size]))"
| "validate_send_options SendSftp = Ok ()"

lemma validated_block_size:
  "validate_send_options (SendXmodem n) = Ok () \<longleftrightarrow> n = BLOCK_SIZE_128 \<or> n = BLOCK_SIZE_1K"
  by (simp add: small_block_def BLOCK_SIZE_128_def BLOCK_SIZE_1K_def)

datatype xmodem_role = XSender nat | XReceiver xmodem_receive_mode

section \<open>The sender\<close>

text \<open>\<open>if cancel() { send_cancel(port); return Err(..) }\<close>\<close>

definition unless_cancelled :: "'a io \<Rightarrow> 'a io" where
  "unless_cancelled k =
     io_bind cancel (\<lambda>c. if c then io_bind send_cancel (\<lambda>_. io_fail TransferCancelled) else k)"

primrec getnak_loop :: "nat \<Rightarrow> xmodem_check_mode io" where
  "getnak_loop 0 = io_fail StartTimeout"
| "getnak_loop (Suc n) =
     unless_cancelled (io_bind (read_byte_with_timeout 1000) (\<lambda>r.
       case r of
         None \<Rightarrow> getnak_loop n
       | Some b \<Rightarrow>
           if b = NAK then io_return Checksum
           else if b = WANTCRC then io_return Crc16
           else if b = CAN then io_fail CancelledByPeer
           else getnak_loop n))"

definition getnak :: "xmodem_check_mode io" where
  "getnak = getnak_loop INIT_TIMEOUT_SECS"

fun block_trailer :: "xmodem_check_mode \<Rightarrow> byte list \<Rightarrow> byte list" where
  "block_trailer Checksum data = [checksum data]"
| "block_trailer Crc16 data =
     (let crc = crc16_ccitt_zero_pad data in [ucast (drop_bit 8 crc), ucast (crc AND 0xFF)])"

definition block_packet :: "byte \<Rightarrow> byte \<Rightarrow> byte list \<Rightarrow> xmodem_check_mode \<Rightarrow> byte list" where
  "block_packet header block_num data check_mode =
     [header, block_num, NOT block_num] @ data @ block_trailer check_mode data"

text \<open>The attempts left count down; the last one reports why it gives up.\<close>

primrec send_block_loop :: "nat \<Rightarrow> byte \<Rightarrow> byte list \<Rightarrow> unit io" where
  "send_block_loop 0 block_num packet = io_fail (BlockFailed block_num)"
| "send_block_loop (Suc n) block_num packet =
     io_bind cancel (\<lambda>c.
       if c then io_fail TransferCancelled
       else io_bind (port_send packet) (\<lambda>_. io_bind (read_byte_with_timeout 3000) (\<lambda>r.
         case r of
           None \<Rightarrow> if n = 0 then io_fail (BlockRetriesExhausted block_num) else send_block_loop n block_num packet
         | Some b \<Rightarrow>
             if b = ACK then io_return ()
             else if b = CAN then io_fail CancelledByPeer
             else if b = NAK then
               if n = 0 then io_fail (BlockRetriesExhausted block_num) else send_block_loop n block_num packet
             else if n = 0 then io_fail (BlockUnexpected block_num b)
             else send_block_loop n block_num packet)))"

definition block_header :: "nat \<Rightarrow> byte option" where
  "block_header block_size =
     (if block_size = BLOCK_SIZE_128 then Some SOH else if block_size = BLOCK_SIZE_1K then Some STX else None)"

definition send_block :: "byte \<Rightarrow> byte list \<Rightarrow> nat \<Rightarrow> xmodem_check_mode \<Rightarrow> unit io" where
  "send_block block_num data block_size check_mode =
     (case block_header block_size of
        None \<Rightarrow> io_fail (BlockSizeUnsupported block_size)
      | Some header \<Rightarrow> send_block_loop MAX_RETRIES block_num (block_packet header block_num data check_mode))"

primrec send_eot_loop :: "nat \<Rightarrow> unit io" where
  "send_eot_loop 0 = io_fail EotFailed"
| "send_eot_loop (Suc n) =
     io_bind cancel (\<lambda>c.
       if c then io_fail TransferCancelled
       else io_bind (port_send [EOT]) (\<lambda>_. io_bind (read_byte_with_timeout 5000) (\<lambda>r.
         case r of
           None \<Rightarrow> if n = 0 then io_fail EotTimeout else send_eot_loop n
         | Some b \<Rightarrow>
             if b = ACK then io_return ()
             else if b = NAK then send_eot_loop n
             else if b = CAN then io_fail CancelledByPeer
             else if n = 0 then io_fail (EotUnexpected b)
             else send_eot_loop n)))"

definition send_eot :: "unit io" where
  "send_eot = send_eot_loop MAX_RETRIES"

datatype file_read = FileChunk "byte list" | FileError message

text \<open>\<open>match m { Ok(v) => .., Err(e) => .. }\<close>\<close>

definition io_match :: "'a io \<Rightarrow> ('a \<Rightarrow> 'b io) \<Rightarrow> (transfer_error \<Rightarrow> 'b io) \<Rightarrow> 'b io" where
  "io_match m f g = (\<lambda>w. case m w of (Ok v, w) \<Rightarrow> f v w | (Err e, w) \<Rightarrow> g e w | (Panic, w) \<Rightarrow> (Panic, w))"

definition file_result :: "file_info \<Rightarrow> nat \<Rightarrow> transfer_error option \<Rightarrow> batch_file_result" where
  "file_result fi sz err =
     \<lparr>bf_file_name = fi_name fi, bf_status = (if err = None then Completed else Failed), bf_size = sz, bf_error = err\<rparr>"

definition report_failure :: "file_info \<Rightarrow> nat \<Rightarrow> nat \<Rightarrow> transfer_error \<Rightarrow> batch_file_result list io" where
  "report_failure fi sent sz e =
     io_bind (on_file_event (FileComplete (fi_name fi) 0 1 sent False (Some e))) (\<lambda>_.
       io_return [file_result fi sz (Some e)])"

definition send_progress :: "file_info \<Rightarrow> nat \<Rightarrow> transfer_progress" where
  "send_progress fi sent =
     \<lparr>tp_file_name = fi_name fi, tp_bytes_transferred = sent, tp_total_bytes = fi_size fi, tp_file_index = 0,
      tp_total_files = 1, tp_aggregate_bytes_transferred = sent, tp_aggregate_total_bytes = fi_size fi,
      tp_direction = SendFiles\<rparr>"

text \<open>A chunk read from the file, filled up with \<open>0x1A\<close>.\<close>

definition pad_block :: "nat \<Rightarrow> byte list \<Rightarrow> byte list" where
  "pad_block block_size chunk = chunk @ replicate (block_size - length chunk) 0x1A"

text \<open>
  The block loop: \<open>Inl\<close> is the end of the file with the bytes sent, \<open>Inr\<close> an early return. The
  slice \<open>buf_read[..block_size]\<close> panics beyond 1024.
\<close>

fun send_chunks :: "file_info \<Rightarrow> nat \<Rightarrow> xmodem_check_mode \<Rightarrow> byte \<Rightarrow> nat \<Rightarrow> file_read list \<Rightarrow>
    (nat + batch_file_result list) io" where
  "send_chunks fi block_size check_mode block_num total_sent [] =
     unless_cancelled (if block_size > BLOCK_SIZE_1K then (\<lambda>w. (Panic, w)) else io_return (Inl total_sent))"
| "send_chunks fi block_size check_mode block_num total_sent (FileError e # rest) =
     unless_cancelled (if block_size > BLOCK_SIZE_1K then (\<lambda>w. (Panic, w))
       else io_bind (report_failure fi total_sent (fi_size fi) (ReadFileFailed e)) (\<lambda>results.
              io_bind send_cancel (\<lambda>_. io_return (Inr results))))"
| "send_chunks fi block_size check_mode block_num total_sent (FileChunk chunk # rest) =
     unless_cancelled (if block_size > BLOCK_SIZE_1K then (\<lambda>w. (Panic, w))
       else if chunk = [] then io_return (Inl total_sent)
       else io_match (send_block block_num (pad_block block_size chunk) block_size check_mode)
              (\<lambda>_. io_bind (on_progress (send_progress fi (total_sent + length chunk))) (\<lambda>_.
                 send_chunks fi block_size check_mode (block_num + 1) (total_sent + length chunk) rest))
              (\<lambda>e. io_bind (report_failure fi total_sent (fi_size fi) e) (\<lambda>results.
                 io_bind send_cancel (\<lambda>_. io_return (Inr results)))))"

definition finish_send :: "file_info \<Rightarrow> nat \<Rightarrow> batch_file_result list io" where
  "finish_send fi total_sent =
     io_match send_eot
       (\<lambda>_. io_bind (on_file_event (FileComplete (fi_name fi) 0 1 total_sent True None)) (\<lambda>_.
          io_return [file_result fi (fi_size fi) None]))
       (report_failure fi total_sent (fi_size fi))"

definition xmodem_send ::
    "file_info list \<Rightarrow> (file_info \<Rightarrow> (file_read list, message) result) \<Rightarrow> nat \<Rightarrow> batch_file_result list io" where
  "xmodem_send files open_file block_size =
     (case files of
        [] \<Rightarrow> io_return []
      | fi # _ \<Rightarrow>
          io_bind getnak (\<lambda>check_mode.
            io_bind (on_file_event (FileStart (fi_name fi) 0 1 (fi_size fi))) (\<lambda>_.
              case open_file fi of
                Panic \<Rightarrow> (\<lambda>w. (Panic, w))
              | Err e \<Rightarrow> report_failure fi 0 0 (OpenFailed e)
              | Ok reads \<Rightarrow>
                  io_bind (send_chunks fi block_size check_mode 1 0 reads) (\<lambda>outcome.
                    case outcome of Inr results \<Rightarrow> io_return results | Inl total_sent \<Rightarrow> finish_send fi total_sent))))"

section \<open>The receiver\<close>

record received_block =
  rb_number :: byte
  rb_number_complement :: byte
  rb_data :: "byte list"
  rb_valid :: bool

definition read_or_fail :: "byte io" where
  "read_or_fail =
     io_bind (read_byte_with_timeout 3000) (\<lambda>r.
       case r of Some b \<Rightarrow> io_return b | None \<Rightarrow> io_fail StreamInterrupted)"

primrec read_bytes :: "nat \<Rightarrow> byte list io" where
  "read_bytes 0 = io_return []"
| "read_bytes (Suc n) = io_bind read_or_fail (\<lambda>b. io_bind (read_bytes n) (\<lambda>bs. io_return (b # bs)))"

fun verify_block :: "byte list \<Rightarrow> xmodem_check_mode \<Rightarrow> bool io" where
  "verify_block data Checksum = io_bind read_or_fail (\<lambda>check. io_return (checksum_verify data check))"
| "verify_block data Crc16 =
     io_bind read_or_fail (\<lambda>crc_hi. io_bind read_or_fail (\<lambda>crc_lo.
       io_return (crc16_ccitt_feedthrough_verify data crc_hi crc_lo)))"

definition read_data_block :: "byte \<Rightarrow> xmodem_check_mode \<Rightarrow> received_block io" where
  "read_data_block header check_mode =
     (let read = (\<lambda>block_size.
        io_bind read_or_fail (\<lambda>bnum. io_bind read_or_fail (\<lambda>bnum_neg.
          io_bind (read_bytes block_size) (\<lambda>data. io_bind (verify_block data check_mode) (\<lambda>valid.
            io_return \<lparr>rb_number = bnum, rb_number_complement = bnum_neg, rb_data = data, rb_valid = valid\<rparr>)))))
      in if header = SOH then read BLOCK_SIZE_128
         else if header = STX then read BLOCK_SIZE_1K
         else io_fail (HeaderInvalid header))"

text \<open>The attempts in one check mode: the first block if it came, and whether a frame was ever begun.\<close>

primrec init_attempts :: "nat \<Rightarrow> xmodem_check_mode \<Rightarrow> bool \<Rightarrow> ((byte \<times> byte list) option \<times> bool) io" where
  "init_attempts 0 check_mode frame_started = io_return (None, frame_started)"
| "init_attempts (Suc n) check_mode frame_started =
     unless_cancelled (io_bind (port_send [if frame_started then NAK else init_byte check_mode]) (\<lambda>_.
       io_bind (read_byte_with_timeout 1000) (\<lambda>r.
         case r of
           None \<Rightarrow> init_attempts n check_mode frame_started
         | Some header \<Rightarrow>
             if header = SOH \<or> header = STX then
               io_bind (read_data_block header check_mode) (\<lambda>blk.
                 if rb_number blk \<noteq> NOT (rb_number_complement blk) \<or> rb_number blk \<noteq> 1
                 then init_attempts n check_mode True
                 else if rb_valid blk
                 then io_bind (port_send [ACK]) (\<lambda>_. io_return (Some (rb_number blk, rb_data blk), True))
                 else init_attempts n check_mode True)
             else if header = CAN then io_fail CancelledByPeer
             else init_attempts n check_mode frame_started)))"

primrec init_modes :: "nat \<Rightarrow> xmodem_check_mode list \<Rightarrow> (xmodem_check_mode \<times> byte \<times> byte list) io" where
  "init_modes attempts [] = io_fail NoConnection"
| "init_modes attempts (m # ms) =
     io_bind (init_attempts attempts m False) (\<lambda>(first, frame_started).
       case first of
         Some (bnum, data) \<Rightarrow> io_return (m, bnum, data)
       | None \<Rightarrow>
           if frame_started then io_bind send_cancel (\<lambda>_. io_fail FirstBlockExhausted)
           else init_modes attempts ms)"

fun check_modes :: "xmodem_receive_mode \<Rightarrow> xmodem_check_mode list" where
  "check_modes AutoMode = [Crc16, Checksum]"
| "check_modes Crc16Mode = [Crc16]"
| "check_modes ChecksumMode = [Checksum]"

definition attempts_per_mode :: "xmodem_check_mode list \<Rightarrow> nat" where
  "attempts_per_mode modes =
     (if length modes > 1 then div_ceil INIT_TIMEOUT_SECS (length modes) else INIT_TIMEOUT_SECS)"

definition next_block_num :: "byte \<Rightarrow> byte" where
  "next_block_num current = current + 1"


section \<open>Reading only takes from the input\<close>

text \<open>A relation between the ports before and after that composes; it is then kept by composed operations.\<close>

definition keeps :: "(transfer_io \<Rightarrow> transfer_io \<Rightarrow> bool) \<Rightarrow> 'a io \<Rightarrow> bool" where
  "keeps R m \<longleftrightarrow> (\<forall>w r w'. m w = (r, w') \<longrightarrow> R w w')"

locale io_relation =
  fixes R :: "transfer_io \<Rightarrow> transfer_io \<Rightarrow> bool"
  assumes R_refl: "R w w"
    and R_trans: "R a b \<Longrightarrow> R b c \<Longrightarrow> R a c"
    and R_read: "read_byte_with_timeout t w = (r, w') \<Longrightarrow> R w w'"
    and R_write: "port_write_all bs w = (u, w') \<Longrightarrow> R w w'"
    and R_flush: "port_flush w = (u, w') \<Longrightarrow> R w w'"
    and R_cancel: "cancel w = (stop, w') \<Longrightarrow> R w w'"
    and R_sleep: "R w (w\<lparr>io_clock := io_clock w + d\<rparr>)"
    and R_event: "R w (w\<lparr>io_events := es\<rparr>)"
begin

lemma keeps_return: "keeps R (io_return v)" "keeps R (io_fail e)"
  by (auto simp: keeps_def io_return_def io_fail_def R_refl)

lemma keeps_bind: "keeps R m \<Longrightarrow> (\<And>v. keeps R (f v)) \<Longrightarrow> keeps R (io_bind m f)"
  unfolding keeps_def io_bind_def by (fastforce split: prod.splits result.splits intro: R_trans)

lemma keeps_basic:
  "keeps R (read_byte_with_timeout t)" "keeps R (port_send bs)" "keeps R cancel" "keeps R send_cancel"
  "keeps R (on_progress p)" "keeps R (on_file_event ev)"
proof -
  show "keeps R (on_progress p)" "keeps R (on_file_event ev)"
    by (auto simp: keeps_def on_progress_def on_file_event_def R_event)
  have w: "keeps R (port_write_all bs)" for bs by (auto simp: keeps_def dest: R_write)
  have f: "keeps R port_flush" by (auto simp: keeps_def dest: R_flush)
  show "keeps R (read_byte_with_timeout t)" by (auto simp: keeps_def dest: R_read)
  show "keeps R (port_send bs)" unfolding port_send_def by (intro keeps_bind w f)
  show "keeps R cancel" by (auto simp: keeps_def dest: R_cancel)
  show "keeps R send_cancel"
  proof -
    have "R w (snd (port_flush (snd (port_write_all cancel_sequence w))))" for w
      using R_write [of _ w] R_flush R_trans by (metis prod.collapse)
    then have "R w (snd (send_cancel w))" for w
      using R_sleep R_trans by (fastforce simp: send_cancel_def Let_def split_beta)
    then show ?thesis unfolding keeps_def by (metis snd_conv)
  qed
qed

lemma keeps_unless_cancelled: "keeps R k \<Longrightarrow> keeps R (unless_cancelled k)"
  unfolding unless_cancelled_def by (auto intro!: keeps_bind keeps_basic keeps_return split: if_split)

lemma keeps_read_bytes: "keeps R read_or_fail" "keeps R (read_bytes n)" "keeps R (verify_block d m)"
proof -
  show r: "keeps R read_or_fail"
    unfolding read_or_fail_def by (auto intro!: keeps_bind keeps_basic keeps_return split: option.split)
  show "keeps R (read_bytes n)" by (induction n) (auto intro!: keeps_bind keeps_return r)
  show "keeps R (verify_block d m)" by (cases m) (auto intro!: keeps_bind keeps_return r)
qed

lemma keeps_read_data_block: "keeps R (read_data_block h m)"
  unfolding read_data_block_def Let_def by (auto intro!: keeps_bind keeps_return keeps_read_bytes)

end

lemma input_left_upd [simp]:
  "input_left (w\<lparr>io_clock := a\<rparr>) = input_left w" "input_left (w\<lparr>io_written := b\<rparr>) = input_left w"
  "input_left (w\<lparr>io_write_errors := c\<rparr>) = input_left w" "input_left (w\<lparr>io_flush_errors := c\<rparr>) = input_left w"
  "input_left (w\<lparr>io_cancels := d\<rparr>) = input_left w" "input_left (w\<lparr>io_events := e\<rparr>) = input_left w"
  "input_left (w\<lparr>io_files := f\<rparr>) = input_left w"
  by (simp_all add: input_left_def)

interpretation input: io_relation "\<lambda>w w'. input_left w' \<le> input_left w"
  by unfold_locales
    (auto simp: port_write_all_def port_flush_def cancel_def Let_def dest: read_byte_facts(2) split: option.splits)

interpretation clockwise: io_relation "\<lambda>w w'. io_clock w \<le> io_clock w'"
  by unfold_locales
    (auto simp: port_write_all_def port_flush_def cancel_def Let_def dest: read_byte_facts(3) split: option.splits)

lemma keepsD: "keeps R m \<Longrightarrow> m w = (r, w') \<Longrightarrow> R w w'"
  by (auto simp: keeps_def)

section \<open>The receive loop\<close>

function read_header :: "nat \<Rightarrow> byte io" where
  "read_header timeout_count w =
     (case read_byte_with_timeout 10000 w of
        (Panic, w1) \<Rightarrow> (Panic, w1)
      | (Err e, w1) \<Rightarrow> (Err e, w1)
      | (Ok (Some b), w1) \<Rightarrow>
          if b = SOH \<or> b = STX \<or> b = EOT then (Ok b, w1)
          else if b = CAN then (Err CancelledByPeer, w1)
          else read_header timeout_count w1
      | (Ok None, w1) \<Rightarrow>
          if timeout_count + 1 > MAX_RETRIES then (Err HeaderTimeout, w1)
          else case port_send [NAK] w1 of
            (Ok _, w2) \<Rightarrow> read_header (timeout_count + 1) w2
          | (Err e, w2) \<Rightarrow> (Err e, w2)
          | (Panic, w2) \<Rightarrow> (Panic, w2))"
  by pat_completeness auto
termination
  by (relation "measure (\<lambda>(n, w). input_left w + (MAX_RETRIES + 1 - n))")
    (auto dest!: read_byte_steps keepsD [OF input.keeps_basic(2) sym])

declare read_header.simps [simp del]

record receive_state =
  rs_data :: "byte list"
  rs_expected :: byte
  rs_last :: "byte option"

definition receive_progress :: "string \<Rightarrow> nat \<Rightarrow> nat \<Rightarrow> transfer_progress" where
  "receive_progress name n tot =
     \<lparr>tp_file_name = name, tp_bytes_transferred = n, tp_total_bytes = tot, tp_file_index = 0, tp_total_files = 1,
      tp_aggregate_bytes_transferred = n, tp_aggregate_total_bytes = tot, tp_direction = ReceiveFiles\<rparr>"

definition save_file :: "message option \<Rightarrow> string \<Rightarrow> byte list \<Rightarrow> unit io" where
  "save_file err name data w =
     (case err of Some e \<Rightarrow> (Err (SaveFailed e), w) | None \<Rightarrow> (Ok (), w\<lparr>io_files := io_files w @ [(name, data)]\<rparr>))"

text \<open>The end of the transmission: the file is written and the result reported.\<close>

definition finish_receive :: "message option \<Rightarrow> string \<Rightarrow> byte list \<Rightarrow> batch_file_result list io" where
  "finish_receive save_error name data =
     (let fsize = length data in
      io_match (save_file save_error name data)
        (\<lambda>_. io_bind (on_file_event (FileComplete name 0 1 fsize True None)) (\<lambda>_.
           io_bind (on_progress (receive_progress name fsize fsize)) (\<lambda>_.
             io_return [\<lparr>bf_file_name = name, bf_status = Completed, bf_size = fsize, bf_error = None\<rparr>])))
        (\<lambda>e. io_bind (on_file_event (FileComplete name 0 1 fsize False (Some e))) (\<lambda>_.
           io_return [\<lparr>bf_file_name = name, bf_status = Failed, bf_size = fsize, bf_error = Some e\<rparr>])))"

text \<open>A complete frame: \<open>Inl\<close> goes on with the loop.\<close>

definition accept_block :: "string \<Rightarrow> receive_state \<Rightarrow> received_block \<Rightarrow> receive_state io" where
  "accept_block name st blk =
     (if rb_number blk \<noteq> NOT (rb_number_complement blk) \<or> \<not> rb_valid blk
      then io_bind (port_send [NAK]) (\<lambda>_. io_return st)
      else if Some (rb_number blk) = rs_last st then io_bind (port_send [ACK]) (\<lambda>_. io_return st)
      else if rb_number blk \<noteq> rs_expected st then io_bind (port_send [NAK]) (\<lambda>_. io_return st)
      else
        let data = rs_data st @ rb_data blk in
        io_bind (port_send [ACK]) (\<lambda>_.
          io_bind (on_progress (receive_progress name (length data) 0)) (\<lambda>_.
            io_return \<lparr>rs_data = data, rs_expected = next_block_num (rb_number blk), rs_last = Some (rb_number blk)\<rparr>)))"

definition receive_step ::
    "message option \<Rightarrow> string \<Rightarrow> xmodem_check_mode \<Rightarrow> receive_state \<Rightarrow> (receive_state + batch_file_result list) io" where
  "receive_step save_error name check_mode st =
     unless_cancelled (io_bind (read_header 0) (\<lambda>header.
       if header = EOT
       then io_bind (port_send [ACK]) (\<lambda>_.
              io_bind (finish_receive save_error name (rs_data st)) (\<lambda>results. io_return (Inr results)))
       else io_bind (read_data_block header check_mode) (\<lambda>blk.
              io_bind (accept_block name st blk) (\<lambda>st'. io_return (Inl st')))))"

lemma read_header_input: "read_header n w = (Ok b, w') \<Longrightarrow> input_left w' < input_left w"
proof (induction n w rule: read_header.induct)
  case (1 n w)
  obtain r w1 where p: "read_byte_with_timeout 10000 w = (r, w1)" by fastforce
  note f = read_byte_facts [OF p]
  show ?case
  proof (cases r)
    case (Ok o1)
    show ?thesis
    proof (cases o1)
      case (Some c)
      then show ?thesis
        using 1 p Ok f(5) [of c] by (fastforce simp: read_header.simps [of n w] split: if_splits)
    next
      case None
      obtain u w2 where s: "port_send [NAK] w1 = (u, w2)" by fastforce
      have le: "input_left w2 \<le> input_left w1" using keepsD [OF input.keeps_basic(2) s] .
      show ?thesis
        using 1 p Ok None s f(2) le
        by (cases u) (fastforce simp: read_header.simps [of n w] split: if_splits)+
    qed
  qed (use 1 p in \<open>auto simp: read_header.simps [of n w]\<close>)
qed


lemma io_bind_Ok: "io_bind m f w = (Ok v, w') \<longleftrightarrow> (\<exists>x w1. m w = (Ok x, w1) \<and> f x w1 = (Ok v, w'))"
  by (auto simp: io_bind_def split: prod.splits result.splits)

lemma keeps_accept: "keeps (\<lambda>w w'. input_left w' \<le> input_left w) (accept_block name st blk)"
  unfolding accept_block_def Let_def
  by (auto intro!: input.keeps_bind input.keeps_basic input.keeps_return)

lemma receive_step_input:
  assumes "receive_step err name mode st w = (Ok (Inl st'), w')"
  shows "input_left w' < input_left w"
proof -
  obtain c w1 h w2 blk w3 where s: "cancel w = (Ok c, w1)" "read_header 0 w1 = (Ok h, w2)"
    "read_data_block h mode w2 = (Ok blk, w3)" "accept_block name st blk w3 = (Ok st', w')"
    using assms
    by (auto simp: receive_step_def unless_cancelled_def io_bind_Ok io_fail_def io_return_def split: if_splits)
  have "input_left w1 = input_left w" using s(1) by (auto simp: cancel_def)
  with read_header_input [OF s(2)] keepsD [OF input.keeps_read_data_block s(3)] keepsD [OF keeps_accept s(4)]
  show ?thesis by simp
qed

function receive_loop ::
    "message option \<Rightarrow> string \<Rightarrow> xmodem_check_mode \<Rightarrow> receive_state \<Rightarrow> batch_file_result list io" where
  "receive_loop save_error name check_mode st w =
     (case receive_step save_error name check_mode st w of
        (Ok (Inl st'), w') \<Rightarrow> receive_loop save_error name check_mode st' w'
      | (Ok (Inr results), w') \<Rightarrow> (Ok results, w')
      | (Err e, w') \<Rightarrow> (Err e, w')
      | (Panic, w') \<Rightarrow> (Panic, w'))"
  by pat_completeness auto
termination
  by (relation "measure (\<lambda>(_, _, _, _, w). input_left w)") (auto dest: receive_step_input [OF sym])

declare receive_loop.simps [simp del]

definition xmodem_receive ::
    "message option \<Rightarrow> message option \<Rightarrow> string \<Rightarrow> xmodem_receive_mode \<Rightarrow> batch_file_result list io" where
  "xmodem_receive create_dir_error save_error name configured =
     (case create_dir_error of
        Some e \<Rightarrow> io_fail (IoFailed e)
      | None \<Rightarrow>
          io_bind (on_file_event (FileStart name 0 1 0)) (\<lambda>_.
            let modes = check_modes configured in
            io_bind (init_modes (attempts_per_mode modes) modes) (\<lambda>(check_mode, bnum, data).
              io_bind (on_progress (receive_progress name (length data) 0)) (\<lambda>_.
                receive_loop save_error name check_mode
                  \<lparr>rs_data = data, rs_expected = next_block_num bnum, rs_last = Some bnum\<rparr>))))"

section \<open>The protocol object\<close>

definition send_files ::
    "xmodem_role \<Rightarrow> file_info list \<Rightarrow> (file_info \<Rightarrow> (file_read list, message) result) \<Rightarrow> batch_file_result list io" where
  "send_files role files open_file =
     (case role of XSender block_size \<Rightarrow> xmodem_send files open_file block_size | XReceiver _ \<Rightarrow> io_fail WrongRole)"

definition receive_files ::
    "xmodem_role \<Rightarrow> message option \<Rightarrow> message option \<Rightarrow> string \<Rightarrow> batch_file_result list io" where
  "receive_files role create_dir_error save_error name =
     (case role of XReceiver m \<Rightarrow> xmodem_receive create_dir_error save_error name m | XSender _ \<Rightarrow> io_fail WrongRole)"

end
