(* ===== verification/Transfer_Xmodem_Link.thy ===== *)
theory Transfer_Xmodem_Link
  imports Transfer_Xmodem
begin

text \<open>
  What the XMODEM sender and receiver do over a line. The receiver is refined from an abstract
  machine that takes whole frames, valid, repeated or damaged, and keeps the blocks in order; the sender
  is shown to emit every block, repeated at most ten times, in order. Together: whatever a completed
  sender wrote, the receiver turns back into the padded file.
\<close>

unbundle bit_operations_syntax

section \<open>A line that delivers bytes\<close>

definition stream :: "byte list \<Rightarrow> (nat \<times> read_outcome) list" where
  "stream bs = (if bs = [] then [] else [(0, ReadData bs)])"

definition quiet :: "transfer_io \<Rightarrow> bool" where
  "quiet w \<longleftrightarrow> io_write_errors w = [] \<and> io_flush_errors w = [] \<and> io_cancels w = []"

named_theorems line_simps \<open>the operations of a port on a quiet line\<close>

lemma read_stream [line_simps]:
  assumes "io_reads w = stream (b # bs)"
  shows "read_byte_with_timeout t w = (Ok (Some b), w\<lparr>io_reads := stream bs\<rparr>)"
proof -
  have "port_read 1 w = (ReadData [b], w\<lparr>io_reads := stream bs\<rparr>)"
    using assms by (cases w) (simp add: port_read_def stream_def neq_Nil_conv)
  then show ?thesis by (simp add: read_byte_with_timeout_def read_byte_loop.simps)
qed

lemma quiet_upd [line_simps]:
  "quiet (w\<lparr>io_reads := a\<rparr>) = quiet w" "quiet (w\<lparr>io_written := b\<rparr>) = quiet w"
  "quiet (w\<lparr>io_events := c\<rparr>) = quiet w" "quiet (w\<lparr>io_files := d\<rparr>) = quiet w"
  "quiet (w\<lparr>io_clock := e\<rparr>) = quiet w"
  by (simp_all add: quiet_def)

lemma port_send_quiet [line_simps]:
  "quiet w \<Longrightarrow> port_send bs w = (Ok (), w\<lparr>io_written := io_written w @ [bs]\<rparr>)"
  by (cases w) (simp add: port_send_def io_bind_def port_write_all_def port_flush_def quiet_def pop_error_def)

lemma cancel_quiet [line_simps]: "quiet w \<Longrightarrow> cancel w = (Ok False, w)"
  by (cases w) (simp add: cancel_def quiet_def)

lemma io_apply [line_simps]:
  "io_bind m f w = (case m w of (Ok v, w) \<Rightarrow> f v w | (Err e, w) \<Rightarrow> (Err e, w) | (Panic, w) \<Rightarrow> (Panic, w))"
  "io_match m f g w = (case m w of (Ok v, w) \<Rightarrow> f v w | (Err e, w) \<Rightarrow> g e w | (Panic, w) \<Rightarrow> (Panic, w))"
  "io_return v w = (Ok v, w)" "io_fail e w = (Err e, w)"
  by (simp_all add: io_bind_def io_match_def io_return_def io_fail_def)

lemma unless_cancelled_quiet [line_simps]: "quiet w \<Longrightarrow> unless_cancelled k w = k w"
  by (simp add: unless_cancelled_def line_simps)

lemma read_or_fail_stream [line_simps]:
  "io_reads w = stream (b # bs) \<Longrightarrow> read_or_fail w = (Ok b, w\<lparr>io_reads := stream bs\<rparr>)"
  by (simp add: read_or_fail_def line_simps)

lemma read_bytes_stream:
  "io_reads w = stream (xs @ bs) \<Longrightarrow> read_bytes (length xs) w = (Ok xs, w\<lparr>io_reads := stream bs\<rparr>)"
proof (induction xs arbitrary: w)
  case Nil
  then show ?case by (cases w) (simp add: line_simps)
next
  case (Cons x xs)
  then show ?case by (simp add: line_simps)
qed

section \<open>Frames\<close>

record line_frame =
  lf_header :: byte
  lf_number :: byte
  lf_complement :: byte
  lf_data :: "byte list"
  lf_trailer :: "byte list"

definition frame_bytes :: "line_frame \<Rightarrow> byte list" where
  "frame_bytes f = [lf_header f, lf_number f, lf_complement f] @ lf_data f @ lf_trailer f"

definition trailer_size :: "xmodem_check_mode \<Rightarrow> nat" where
  "trailer_size m = (case m of Checksum \<Rightarrow> 1 | Crc16 \<Rightarrow> 2)"

definition wf_frame :: "xmodem_check_mode \<Rightarrow> line_frame \<Rightarrow> bool" where
  "wf_frame m f \<longleftrightarrow> block_header (length (lf_data f)) = Some (lf_header f) \<and> length (lf_trailer f) = trailer_size m"

definition frame_intact :: "xmodem_check_mode \<Rightarrow> line_frame \<Rightarrow> bool" where
  "frame_intact m f \<longleftrightarrow> lf_number f = NOT (lf_complement f) \<and> lf_trailer f = block_trailer m (lf_data f)"

lemma block_trailer_crc: "block_trailer Crc16 data = to_be_bytes (crc16_ccitt data)"
proof -
  have "(ucast (crc AND 0xFF) :: byte) = ucast crc" for crc :: u16
  proof -
    have "unat (crc AND 0xFF) = unat (ucast crc :: byte)" by (rule unat_low_byte) simp
    then have "as_u8 (unat (crc AND 0xFF)) = ucast crc" by simp
    then show ?thesis by (simp add: as_u8_def)
  qed
  then show ?thesis by (simp add: to_be_bytes_def zero_pad_eq Let_def)
qed

lemma header_size:
  "block_header n = Some h \<longleftrightarrow> n = BLOCK_SIZE_128 \<and> h = SOH \<or> n = BLOCK_SIZE_1K \<and> h = STX"
  by (auto simp: block_header_def BLOCK_SIZE_128_def BLOCK_SIZE_1K_def)

lemma verify_block_stream:
  assumes "io_reads w = stream (t @ bs)" "length t = trailer_size m"
  shows "verify_block data m w = (Ok (t = block_trailer m data), w\<lparr>io_reads := stream bs\<rparr>)"
proof (cases m)
  case Checksum
  with assms obtain c where "t = [c]" by (auto simp: trailer_size_def length_Suc_conv)
  with Checksum assms show ?thesis
    by (auto simp: line_simps checksum_verify_def)
next
  case Crc16
  with assms obtain hi lo where t: "t = [hi, lo]" by (auto simp: trailer_size_def length_two_conv)
  have "crc16_ccitt_feedthrough_verify data hi lo \<longleftrightarrow> [hi, lo] = to_be_bytes (crc16_ccitt data)"
    unfolding feedthrough_eq by (metis from_be_bytes_split list.inject to_be_bytes_def to_be_from_be)
  with Crc16 assms t show ?thesis
    by (simp add: line_simps block_trailer_crc del: block_trailer.simps)
qed

lemma read_data_block_stream:
  assumes "io_reads w = stream (tl (frame_bytes f) @ bs)" "wf_frame m f"
  shows "read_data_block (lf_header f) m w =
    (Ok \<lparr>rb_number = lf_number f, rb_number_complement = lf_complement f, rb_data = lf_data f,
         rb_valid = (lf_trailer f = block_trailer m (lf_data f))\<rparr>, w\<lparr>io_reads := stream bs\<rparr>)"
proof -
  let ?read = "\<lambda>n. io_bind read_or_fail (\<lambda>bnum. io_bind read_or_fail (\<lambda>bnum_neg.
          io_bind (read_bytes n) (\<lambda>data. io_bind (verify_block data m) (\<lambda>valid.
            io_return \<lparr>rb_number = bnum, rb_number_complement = bnum_neg, rb_data = data, rb_valid = valid\<rparr>))))"
  have s: "io_reads w = stream (lf_number f # lf_complement f # lf_data f @ lf_trailer f @ bs)"
    using assms(1) by (simp add: frame_bytes_def)
  have "?read (length (lf_data f)) w = (Ok \<lparr>rb_number = lf_number f, rb_number_complement = lf_complement f,
      rb_data = lf_data f, rb_valid = (lf_trailer f = block_trailer m (lf_data f))\<rparr>, w\<lparr>io_reads := stream bs\<rparr>)"
    using s assms(2)
    by (simp add: line_simps read_bytes_stream [of _ "lf_data f"] verify_block_stream [of _ "lf_trailer f"]
        wf_frame_def line_simps)
  moreover have "lf_header f = SOH \<and> length (lf_data f) = BLOCK_SIZE_128 \<or>
      lf_header f \<noteq> SOH \<and> lf_header f = STX \<and> length (lf_data f) = BLOCK_SIZE_1K"
    using assms(2) by (auto simp: wf_frame_def header_size SOH_def STX_def)
  ultimately show ?thesis by (auto simp: read_data_block_def Let_def)
qed


section \<open>The receiver as a machine on frames\<close>

text \<open>
  The abstract receiver keeps the blocks accepted so far. The next block has the number of blocks plus
  one, modulo 256; the number of the last block marks a repetition. The reply is \<open>ACK\<close> or \<open>NAK\<close>.
\<close>

definition take_frame :: "xmodem_check_mode \<Rightarrow> byte list list \<Rightarrow> line_frame \<Rightarrow> byte list list \<times> byte" where
  "take_frame m blocks f =
     (if \<not> frame_intact m f then (blocks, NAK)
      else if lf_number f = as_u8 (length blocks) then (blocks, ACK)
      else if lf_number f = as_u8 (length blocks + 1) then (blocks @ [lf_data f], ACK)
      else (blocks, NAK))"

fun take_frames :: "xmodem_check_mode \<Rightarrow> byte list list \<Rightarrow> line_frame list \<Rightarrow> byte list list \<times> byte list" where
  "take_frames m blocks [] = (blocks, [])"
| "take_frames m blocks (f # fs) =
     (let (blocks, r) = take_frame m blocks f; (blocks, rs) = take_frames m blocks fs in (blocks, r # rs))"

definition receiver_of :: "byte list list \<Rightarrow> receive_state" where
  "receiver_of blocks =
     \<lparr>rs_data = concat blocks, rs_expected = as_u8 (length blocks + 1), rs_last = Some (as_u8 (length blocks))\<rparr>"

lemma read_header_stream:
  "io_reads w = stream (h # bs) \<Longrightarrow> h = SOH \<or> h = STX \<or> h = EOT \<Longrightarrow>
   read_header n w = (Ok h, w\<lparr>io_reads := stream bs\<rparr>)"
  by (subst read_header.simps) (simp add: line_simps)

lemma accept_block_frame:
  assumes "quiet w"
  shows "\<exists>evs. accept_block name (receiver_of blocks)
      \<lparr>rb_number = lf_number f, rb_number_complement = lf_complement f, rb_data = lf_data f,
       rb_valid = (lf_trailer f = block_trailer m (lf_data f))\<rparr> w =
    (Ok (receiver_of (fst (take_frame m blocks f))),
     w\<lparr>io_written := io_written w @ [[snd (take_frame m blocks f)]], io_events := io_events w @ evs\<rparr>)"
proof -
  have next1: "next_block_num (as_u8 (length blocks + 1)) = as_u8 (length blocks + 2)"
    by (simp add: next_block_num_def as_u8_def)
  have neq: "as_u8 (length blocks + 1) \<noteq> as_u8 (length blocks)" by (simp add: as_u8_def)
  have same: "w\<lparr>io_written := x\<rparr> = w\<lparr>io_written := x, io_events := io_events w @ []\<rparr>" for x
    by (cases w) simp
  consider "\<not> frame_intact m f" | "frame_intact m f" "lf_number f = as_u8 (length blocks)"
    | "frame_intact m f" "lf_number f = as_u8 (length blocks + 1)"
    | "frame_intact m f" "lf_number f \<noteq> as_u8 (length blocks)" "lf_number f \<noteq> as_u8 (length blocks + 1)"
    by blast
  then show ?thesis
  proof cases
    case 3
    with assms neq next1 show ?thesis
      by (auto simp: accept_block_def take_frame_def frame_intact_def receiver_of_def line_simps Let_def
          on_progress_def intro!: exI [of _ "[Progress (receive_progress name (length (concat blocks @ lf_data f)) 0)]"])
  qed (use assms in \<open>auto simp: accept_block_def take_frame_def frame_intact_def receiver_of_def line_simps
      intro: exI [of _ "[]"] same\<close>)
qed

lemma receive_step_frame:
  assumes "quiet w" "io_reads w = stream (frame_bytes f @ bs)" "wf_frame m f"
  shows "\<exists>evs. receive_step err name m (receiver_of blocks) w =
    (Ok (Inl (receiver_of (fst (take_frame m blocks f)))),
     w\<lparr>io_reads := stream bs, io_written := io_written w @ [[snd (take_frame m blocks f)]],
       io_events := io_events w @ evs\<rparr>)"
proof -
  have fb: "frame_bytes f = lf_header f # tl (frame_bytes f)" by (simp add: frame_bytes_def)
  have h: "lf_header f = SOH \<or> lf_header f = STX" "lf_header f \<noteq> EOT"
    using assms(3) by (auto simp: wf_frame_def header_size xmodem_bytes)
  let ?w1 = "w\<lparr>io_reads := stream (tl (frame_bytes f) @ bs)\<rparr>"
  have hd: "read_header 0 w = (Ok (lf_header f), ?w1)"
    using assms(2) h by (intro read_header_stream) (auto simp: frame_bytes_def)
  have blk: "read_data_block (lf_header f) m ?w1 =
      (Ok \<lparr>rb_number = lf_number f, rb_number_complement = lf_complement f, rb_data = lf_data f,
           rb_valid = (lf_trailer f = block_trailer m (lf_data f))\<rparr>, w\<lparr>io_reads := stream bs\<rparr>)"
    using read_data_block_stream [OF _ assms(3), of ?w1 bs] by simp
  show ?thesis
    using accept_block_frame [of "w\<lparr>io_reads := stream bs\<rparr>" name blocks f m] assms(1) hd blk h(2)
    by (auto simp: receive_step_def line_simps)
qed

lemma receive_step_eot:
  assumes "quiet w" "io_reads w = stream (EOT # bs)"
  shows "\<exists>w'. receive_step None name m st w =
      (Ok (Inr [\<lparr>bf_file_name = name, bf_status = Completed, bf_size = length (rs_data st), bf_error = None\<rparr>]), w') \<and>
    io_files w' = io_files w @ [(name, rs_data st)] \<and> io_written w' = io_written w @ [[ACK]]"
  using assms
  by (simp add: receive_step_def line_simps read_header_stream finish_receive_def save_file_def
      on_file_event_def on_progress_def Let_def)

lemma receive_loop_frames:
  assumes "quiet w" "io_reads w = stream (concat (map frame_bytes fs) @ EOT # bs)"
    "\<And>f. f \<in> set fs \<Longrightarrow> wf_frame m f"
  shows "\<exists>w'. receive_loop None name m (receiver_of blocks) w =
      (Ok [\<lparr>bf_file_name = name, bf_status = Completed,
            bf_size = length (concat (fst (take_frames m blocks fs))), bf_error = None\<rparr>], w') \<and>
    io_files w' = io_files w @ [(name, concat (fst (take_frames m blocks fs)))] \<and>
    io_written w' = io_written w @ map (\<lambda>r. [r]) (snd (take_frames m blocks fs) @ [ACK])"
  using assms
proof (induction fs arbitrary: w blocks)
  case Nil
  then show ?case
    using receive_step_eot [of w bs name m "receiver_of blocks"]
    by (subst receive_loop.simps) (auto simp: receiver_of_def)
next
  case (Cons f fs)
  obtain blocks1 r where t: "take_frame m blocks f = (blocks1, r)" by fastforce
  obtain evs where step: "receive_step None name m (receiver_of blocks) w =
      (Ok (Inl (receiver_of blocks1)), w\<lparr>io_reads := stream (concat (map frame_bytes fs) @ EOT # bs),
        io_written := io_written w @ [[r]], io_events := io_events w @ evs\<rparr>)"
    using receive_step_frame [OF Cons.prems(1), of f "concat (map frame_bytes fs) @ EOT # bs" m None name blocks]
      Cons.prems(2,3) t by auto
  let ?w1 = "w\<lparr>io_reads := stream (concat (map frame_bytes fs) @ EOT # bs),
        io_written := io_written w @ [[r]], io_events := io_events w @ evs\<rparr>"
  have "quiet ?w1" using Cons.prems(1) by (simp add: line_simps)
  from Cons.IH [OF this, of blocks1] Cons.prems(3) step t show ?case
    by (subst receive_loop.simps) (auto split: prod.splits)
qed


lemma init_attempts_frame:
  assumes "quiet w" "io_reads w = stream (frame_bytes f @ bs)" "wf_frame m f" "frame_intact m f" "lf_number f = 1"
  shows "init_attempts (Suc n) m False w =
    (Ok (Some (1, lf_data f), True),
     w\<lparr>io_reads := stream bs, io_written := io_written w @ [[init_byte m], [ACK]]\<rparr>)"
proof -
  have fb: "frame_bytes f = lf_header f # tl (frame_bytes f)" by (simp add: frame_bytes_def)
  have h: "lf_header f = SOH \<or> lf_header f = STX"
    using assms(3) by (auto simp: wf_frame_def header_size)
  let ?w1 = "w\<lparr>io_written := io_written w @ [[init_byte m]]\<rparr>"
  have rd: "read_byte_with_timeout 1000 ?w1 = (Ok (Some (lf_header f)), ?w1\<lparr>io_reads := stream (tl (frame_bytes f) @ bs)\<rparr>)"
    using assms(2) by (intro read_stream) (simp add: frame_bytes_def)
  have blk: "read_data_block (lf_header f) m (?w1\<lparr>io_reads := stream (tl (frame_bytes f) @ bs)\<rparr>) =
      (Ok \<lparr>rb_number = 1, rb_number_complement = lf_complement f, rb_data = lf_data f, rb_valid = True\<rparr>,
       ?w1\<lparr>io_reads := stream bs\<rparr>)"
    using read_data_block_stream [OF _ assms(3), of "?w1\<lparr>io_reads := stream (tl (frame_bytes f) @ bs)\<rparr>" bs] assms(4,5)
    by (simp add: frame_intact_def)
  have num: "1 = NOT (lf_complement f)" using assms(4,5) by (simp add: frame_intact_def)
  show ?thesis
    using assms(1) rd blk h num by (simp add: line_simps)
qed

lemma xmodem_receive_frames:
  assumes "quiet w" "io_reads w = stream (frame_bytes f @ concat (map frame_bytes fs) @ EOT # bs)"
    "frame_intact m f" "lf_number f = 1" "m = hd (check_modes configured)"
    "\<And>g. g \<in> set (f # fs) \<Longrightarrow> wf_frame m g"
  shows "\<exists>w'. xmodem_receive None None name configured w =
      (Ok [\<lparr>bf_file_name = name, bf_status = Completed,
            bf_size = length (concat (fst (take_frames m [lf_data f] fs))), bf_error = None\<rparr>], w') \<and>
    io_files w' = io_files w @ [(name, concat (fst (take_frames m [lf_data f] fs)))] \<and>
    io_written w' = io_written w @ [[init_byte m], [ACK]] @ map (\<lambda>r. [r]) (snd (take_frames m [lf_data f] fs) @ [ACK])"
proof -
  let ?w1 = "w\<lparr>io_events := io_events w @ [FileEvent (FileStart name 0 1 0)]\<rparr>"
  let ?w2 = "?w1\<lparr>io_reads := stream (concat (map frame_bytes fs) @ EOT # bs),
      io_written := io_written w @ [[init_byte m], [ACK]]\<rparr>"
  let ?w3 = "?w2\<lparr>io_events := io_events ?w1 @ [Progress (receive_progress name (length (lf_data f)) 0)]\<rparr>"
  have "0 < attempts_per_mode (check_modes configured)"
    by (cases configured) (simp_all add: attempts_per_mode_def INIT_TIMEOUT_SECS_def div_ceil_def div_greater_zero_iff)
  then obtain n where n: "attempts_per_mode (check_modes configured) = Suc n" unfolding gr0_conv_Suc by blast
  obtain ms where ms: "check_modes configured = m # ms" using assms(5) by (cases configured) auto
  have "init_attempts (Suc n) m False ?w1 = (Ok (Some (1, lf_data f), True), ?w2)"
    using init_attempts_frame [of ?w1 f "concat (map frame_bytes fs) @ EOT # bs" m n] assms
    by (simp add: line_simps)
  then have init: "init_modes (Suc n) (m # ms) ?w1 = (Ok (m, 1, lf_data f), ?w2)"
    by (simp add: line_simps)
  have st: "\<lparr>rs_data = lf_data f, rs_expected = next_block_num 1, rs_last = Some 1\<rparr> = receiver_of [lf_data f]"
    by (simp add: receiver_of_def next_block_num_def as_u8_def)
  have run: "xmodem_receive None None name configured w = receive_loop None name m (receiver_of [lf_data f]) ?w3"
    using init n ms st
    by (simp add: xmodem_receive_def line_simps on_file_event_def on_progress_def Let_def
        del: init_modes.simps init_attempts.simps)
  have "quiet ?w3" "io_reads ?w3 = stream (concat (map frame_bytes fs) @ EOT # bs)"
    using assms(1) by (simp_all add: line_simps)
  from receive_loop_frames [OF this, of m name "[lf_data f]"] assms(6)
  show ?thesis
    unfolding run by auto
qed

section \<open>Blocks transmitted one or more times\<close>

definition block_frame :: "byte \<Rightarrow> xmodem_check_mode \<Rightarrow> byte \<Rightarrow> byte list \<Rightarrow> line_frame" where
  "block_frame h m n data = \<lparr>lf_header = h, lf_number = n, lf_complement = NOT n, lf_data = data,
     lf_trailer = block_trailer m data\<rparr>"

fun transmit :: "byte \<Rightarrow> xmodem_check_mode \<Rightarrow> nat \<Rightarrow> (byte list \<times> nat) list \<Rightarrow> line_frame list" where
  "transmit h m n [] = []"
| "transmit h m n ((data, k) # rest) = replicate k (block_frame h m (as_u8 n) data) @ transmit h m (n + 1) rest"

lemma block_frame_bytes: "frame_bytes (block_frame h m n data) = block_packet h n data m"
  by (simp add: frame_bytes_def block_frame_def block_packet_def)

lemma block_frame_wf: "block_header (length data) = Some h \<Longrightarrow> wf_frame m (block_frame h m n data)"
  by (cases m) (simp_all add: wf_frame_def block_frame_def trailer_size_def Let_def)

lemma block_frame_intact: "frame_intact m (block_frame h m n data)"
  by (simp add: frame_intact_def block_frame_def)

lemma take_frames_append:
  "fst (take_frames m blocks (xs @ ys)) = fst (take_frames m (fst (take_frames m blocks xs)) ys)"
  by (induction xs arbitrary: blocks) (auto simp: split_beta)

lemma take_frames_repeat:
  "fst (take_frames m (blocks @ [d]) (replicate k (block_frame h m (as_u8 (length blocks + 1)) d'))) = blocks @ [d]"
proof (induction k)
  case (Suc k)
  have "take_frame m (blocks @ [d]) (block_frame h m (as_u8 (length blocks + 1)) d') = (blocks @ [d], ACK)"
    using block_frame_intact by (simp add: take_frame_def) (simp add: block_frame_def)
  with Suc show ?case by (simp add: split_beta)
qed simp

lemma take_frames_block:
  assumes "1 \<le> k"
  shows "fst (take_frames m blocks (replicate k (block_frame h m (as_u8 (length blocks + 1)) d))) = blocks @ [d]"
proof -
  obtain j where k: "k = Suc j" using assms by (cases k) auto
  have "as_u8 (length blocks + 1) \<noteq> as_u8 (length blocks)" by (simp add: as_u8_def)
  then have "take_frame m blocks (block_frame h m (as_u8 (length blocks + 1)) d) = (blocks @ [d], ACK)"
    using block_frame_intact by (simp add: take_frame_def) (simp add: block_frame_def)
  with take_frames_repeat [of m blocks d j h d] show ?thesis by (simp add: k split_beta)
qed

lemma take_frames_transmit:
  "(\<And>d k. (d, k) \<in> set dks \<Longrightarrow> 1 \<le> k) \<Longrightarrow>
   fst (take_frames m blocks (transmit h m (length blocks + 1) dks)) = blocks @ map fst dks"
proof (induction dks arbitrary: blocks)
  case (Cons dk dks)
  obtain d k where dk: "dk = (d, k)" by fastforce
  have k: "1 \<le> k" using Cons.prems [of d k] dk by simp
  have "fst (take_frames m (blocks @ [d]) (transmit h m (length (blocks @ [d]) + 1) dks)) = (blocks @ [d]) @ map fst dks"
    using Cons.prems by (intro Cons.IH) auto
  with take_frames_block [OF k, of m blocks h d] show ?case by (simp add: dk take_frames_append)
qed simp


section \<open>What the sender writes\<close>

lemma cancel_facts: "cancel w = (r, w1) \<Longrightarrow> \<exists>c. r = Ok c \<and> io_written w1 = io_written w"
  by (auto simp: cancel_def)

lemma port_send_facts:
  assumes "port_send p w = (r, w1)"
  shows "\<exists>j\<le>1. io_written w1 = io_written w @ replicate j p \<and> (r = Ok () \<longrightarrow> j = 1)"
proof (cases "pop_error (io_write_errors w)")
  case None
  with assms have "io_written w1 = io_written w @ replicate 1 p"
    by (auto simp: port_send_def line_simps port_write_all_def port_flush_def Let_def split: option.splits)
  then show ?thesis by (intro exI [of _ 1]) simp
next
  case (Some e)
  with assms have "io_written w1 = io_written w @ replicate 0 p" "r \<noteq> Ok ()"
    by (auto simp: port_send_def line_simps port_write_all_def Let_def)
  then show ?thesis by (intro exI [of _ 0]) simp
qed

lemma read_written: "read_byte_with_timeout t w = (r, w1) \<Longrightarrow> io_written w1 = io_written w"
  using read_byte_facts(1) by (auto simp: same_but_reads_def)

text \<open>One attempt of a retry loop: cancel, send, read, and go on as the answer says.\<close>

lemma attempt_written:
  assumes run: "io_bind cancel (\<lambda>c. if c then io_fail e else io_bind (port_send p) (\<lambda>_.
      io_bind (read_byte_with_timeout t) k)) w = (r, w')"
    and go: "\<And>b w1. k b w1 = (r, w') \<Longrightarrow> \<exists>j\<le>n. io_written w' = io_written w1 @ replicate j p"
  shows "\<exists>j\<le>Suc n. io_written w' = io_written w @ replicate j p \<and> (r = Ok () \<longrightarrow> 1 \<le> j)"
proof -
  obtain c w1 where c: "cancel w = (Ok c, w1)" "io_written w1 = io_written w"
    by (metis cancel_facts surj_pair)
  obtain s w2 where s: "port_send p w1 = (s, w2)" by fastforce
  obtain j where j: "j \<le> 1" "io_written w2 = io_written w1 @ replicate j p" "s = Ok () \<longrightarrow> j = 1"
    using port_send_facts [OF s] by blast
  obtain b w3 where b: "read_byte_with_timeout t w2 = (b, w3)" by fastforce
  show ?thesis
  proof (cases "c \<or> s \<noteq> Ok () \<or> (\<forall>v. b \<noteq> Ok v)")
    case True
    then have "r \<noteq> Ok ()" "io_written w' = io_written w1 \<or> io_written w' = io_written w2"
      using run c s b read_written [OF b] by (auto simp: line_simps split: if_splits result.splits)
    then show ?thesis using c(2) j by (metis append_Nil2 le_SucI le_trans One_nat_def Suc_le_mono replicate_0 zero_le)
  next
    case False
    then obtain v where v: "b = Ok v" "s = Ok ()" "\<not> c" by blast
    with run c s b have "k v w3 = (r, w')" by (simp add: line_simps)
    from go [OF this] obtain i where "i \<le> n" "io_written w' = io_written w3 @ replicate i p" by blast
    then have "Suc i \<le> Suc n" "io_written w' = io_written w @ replicate (Suc i) p"
      using c(2) j v(2) read_written [OF b] by (simp_all add: replicate_append_same)
    then show ?thesis by (intro exI [of _ "Suc i"]) simp
  qed
qed

lemma send_block_loop_written:
  "send_block_loop n bn p w = (r, w') \<Longrightarrow>
   \<exists>j\<le>n. io_written w' = io_written w @ replicate j p \<and> (r = Ok () \<longrightarrow> 1 \<le> j)"
proof (induction n arbitrary: w)
  case 0
  then show ?case by (auto simp: line_simps)
next
  case (Suc n)
  have none: "\<exists>j\<le>n. io_written w1 = io_written w1 @ replicate j p" for w1 by (intro exI [of _ 0]) simp
  show ?case
  proof (rule attempt_written [OF Suc.prems [unfolded send_block_loop.simps]])
    fix b w1
    assume "(case b of None \<Rightarrow> if n = 0 then io_fail (BlockRetriesExhausted bn) else send_block_loop n bn p
         | Some b \<Rightarrow> if b = ACK then io_return () else if b = CAN then io_fail CancelledByPeer
             else if b = NAK then if n = 0 then io_fail (BlockRetriesExhausted bn) else send_block_loop n bn p
             else if n = 0 then io_fail (BlockUnexpected bn b) else send_block_loop n bn p) w1 = (r, w')"
    then have "w' = w1 \<or> send_block_loop n bn p w1 = (r, w')"
      by (auto simp: line_simps split: option.splits if_splits)
    then show "\<exists>j\<le>n. io_written w' = io_written w1 @ replicate j p" using Suc.IH none by blast
  qed
qed

lemma send_eot_loop_written:
  "send_eot_loop n w = (r, w') \<Longrightarrow>
   \<exists>j\<le>n. io_written w' = io_written w @ replicate j [EOT] \<and> (r = Ok () \<longrightarrow> 1 \<le> j)"
proof (induction n arbitrary: w)
  case 0
  then show ?case by (auto simp: line_simps)
next
  case (Suc n)
  have none: "\<exists>j\<le>n. io_written w1 = io_written w1 @ replicate j [EOT]" for w1 by (intro exI [of _ 0]) simp
  show ?case
  proof (rule attempt_written [OF Suc.prems [unfolded send_eot_loop.simps]])
    fix b w1
    assume "(case b of None \<Rightarrow> if n = 0 then io_fail EotTimeout else send_eot_loop n
         | Some b \<Rightarrow> if b = ACK then io_return () else if b = NAK then send_eot_loop n
             else if b = CAN then io_fail CancelledByPeer
             else if n = 0 then io_fail (EotUnexpected b) else send_eot_loop n) w1 = (r, w')"
    then have "w' = w1 \<or> send_eot_loop n w1 = (r, w')"
      by (auto simp: line_simps split: option.splits if_splits)
    then show "\<exists>j\<le>n. io_written w' = io_written w1 @ replicate j [EOT]" using Suc.IH none by blast
  qed
qed


lemma unless_cancelled_Ok:
  "unless_cancelled k w = (Ok v, w') \<Longrightarrow> \<exists>w1. k w1 = (Ok v, w') \<and> io_written w1 = io_written w"
  by (auto simp: unless_cancelled_def line_simps cancel_def split: if_splits prod.splits result.splits)

lemma getnak_written: "getnak_loop n w = (Ok m, w') \<Longrightarrow> io_written w' = io_written w"
proof (induction n arbitrary: w)
  case (Suc n)
  then obtain w1 where w1: "io_bind (read_byte_with_timeout 1000) (\<lambda>r. case r of None \<Rightarrow> getnak_loop n
       | Some b \<Rightarrow> if b = NAK then io_return Checksum else if b = WANTCRC then io_return Crc16
           else if b = CAN then io_fail CancelledByPeer else getnak_loop n) w1 = (Ok m, w')"
    and eq: "io_written w1 = io_written w"
    using unless_cancelled_Ok by (metis (no_types, lifting) getnak_loop.simps(2))
  obtain r w2 where r: "read_byte_with_timeout 1000 w1 = (r, w2)" by fastforce
  have "w' = w2 \<or> getnak_loop n w2 = (Ok m, w')"
    using w1 r by (auto simp: line_simps split: result.splits option.splits if_splits)
  then show ?case using Suc.IH read_written [OF r] eq by metis
qed (simp add: line_simps)

lemma send_chunks_written:
  assumes "block_header bs = Some h" "\<And>c. c \<in> set chunks \<Longrightarrow> c \<noteq> []"
    "send_chunks fi bs m (as_u8 n) sent (map FileChunk chunks) w = (Ok (Inl t), w')"
  shows "\<exists>ks. length ks = length chunks \<and> (\<forall>k\<in>set ks. 1 \<le> k \<and> k \<le> MAX_RETRIES) \<and>
    t = sent + length (concat chunks) \<and>
    io_written w' = io_written w @ map frame_bytes (transmit h m n (zip (map (pad_block bs) chunks) ks))"
  using assms(2,3)
proof (induction chunks arbitrary: n sent w)
  case Nil
  then show ?case by (auto simp: line_simps dest!: unless_cancelled_Ok split: if_splits)
next
  case (Cons c chunks)
  have ne: "c \<noteq> []" using Cons.prems(1) by simp
  let ?fr = "block_frame h m (as_u8 n) (pad_block bs c)"
  let ?p = "frame_bytes ?fr"
  obtain w1 where w1: "io_written w1 = io_written w"
    and run: "io_match (send_block (as_u8 n) (pad_block bs c) bs m)
        (\<lambda>_. io_bind (on_progress (send_progress fi (sent + length c))) (\<lambda>_.
           send_chunks fi bs m (as_u8 n + 1) (sent + length c) (map FileChunk chunks)))
        (\<lambda>e. io_bind (report_failure fi sent (fi_size fi) e) (\<lambda>results.
           io_bind send_cancel (\<lambda>_. io_return (Inr results)))) w1 = (Ok (Inl t), w')"
    using unless_cancelled_Ok [OF Cons.prems(2) [unfolded list.map send_chunks.simps]] ne
    by (auto split: if_splits)
  obtain r w2 where r: "send_block_loop MAX_RETRIES (as_u8 n) ?p w1 = (r, w2)" by fastforce
  have sb: "send_block (as_u8 n) (pad_block bs c) bs m w1 = (r, w2)"
    using r assms(1) by (simp add: send_block_def block_frame_bytes)
  obtain k where k: "k \<le> MAX_RETRIES" "io_written w2 = io_written w1 @ replicate k ?p" "r = Ok () \<longrightarrow> 1 \<le> k"
    using send_block_loop_written [OF r] by blast
  have num: "as_u8 n + 1 = as_u8 (n + 1)" by (simp add: as_u8_def)
  let ?w3 = "w2\<lparr>io_events := io_events w2 @ [Progress (send_progress fi (sent + length c))]\<rparr>"
  have rOk: "r = Ok ()" and w3: "send_chunks fi bs m (as_u8 (n + 1)) (sent + length c) (map FileChunk chunks) ?w3 =
      (Ok (Inl t), w')"
    using run sb
    by (auto simp: line_simps on_progress_def report_failure_def on_file_event_def send_cancel_def Let_def num
        split: result.splits prod.splits)
  from Cons.IH [OF _ w3] Cons.prems(1) obtain ks where ks: "length ks = length chunks"
    "\<forall>k\<in>set ks. 1 \<le> k \<and> k \<le> MAX_RETRIES" "t = sent + length c + length (concat chunks)"
    "io_written w' = io_written ?w3 @ map frame_bytes (transmit h m (n + 1) (zip (map (pad_block bs) chunks) ks))"
    by auto
  with k rOk w1 show ?case
    by (intro exI [of _ "k # ks"]) simp
qed

lemma failed_early:
  "io_bind (report_failure fi sent sz e) (\<lambda>results. io_bind send_cancel (\<lambda>_. io_return (Inr results))) w = (Ok v, w') \<Longrightarrow>
   v = Inr [file_result fi sz (Some e)]"
  by (auto simp: line_simps report_failure_def on_file_event_def send_cancel_def Let_def split_beta)

lemma send_chunks_early:
  "send_chunks fi bs m bn sent reads w = (Ok (Inr results), w') \<Longrightarrow> \<exists>x. results = [x] \<and> bf_status x = Failed"
proof (induction reads arbitrary: bn sent w)
  case Nil
  then show ?case by (auto simp: line_simps dest!: unless_cancelled_Ok split: if_splits)
next
  case (Cons rd reads)
  show ?case
  proof (cases rd)
    case (FileError e)
    from unless_cancelled_Ok [OF Cons.prems [unfolded FileError send_chunks.simps]] show ?thesis
      by (auto simp: file_result_def dest!: failed_early split: if_splits)
  next
    case (FileChunk c)
    from unless_cancelled_Ok [OF Cons.prems [unfolded FileChunk send_chunks.simps]]
    obtain w1 where run: "io_match (send_block bn (pad_block bs c) bs m)
        (\<lambda>_. io_bind (on_progress (send_progress fi (sent + length c))) (\<lambda>_.
           send_chunks fi bs m (bn + 1) (sent + length c) reads))
        (\<lambda>e. io_bind (report_failure fi sent (fi_size fi) e) (\<lambda>results.
           io_bind send_cancel (\<lambda>_. io_return (Inr results)))) w1 = (Ok (Inr results), w')"
      by (auto simp: io_return_def split: if_splits)
    obtain r w2 where r: "send_block bn (pad_block bs c) bs m w1 = (r, w2)" by fastforce
    show ?thesis
    proof (cases r)
      case (Ok u)
      with run r show ?thesis by (auto simp: io_match_def on_progress_def line_simps intro: Cons.IH)
    next
      case (Err e)
      with run r have "io_bind (report_failure fi sent (fi_size fi) e) (\<lambda>results.
           io_bind send_cancel (\<lambda>_. io_return (Inr results :: nat + batch_file_result list))) w2 = (Ok (Inr results), w')"
        by (simp add: io_match_def)
      from failed_early [OF this] show ?thesis by (simp add: file_result_def)
    qed (use run r in \<open>simp add: io_match_def\<close>)
  qed
qed

lemma finish_send_written:
  assumes "finish_send fi t w = (Ok [r], w')" "bf_status r = Completed"
  shows "\<exists>j. 1 \<le> j \<and> j \<le> MAX_RETRIES \<and> io_written w' = io_written w @ replicate j [EOT]"
proof -
  obtain e w1 where e: "send_eot_loop MAX_RETRIES w = (e, w1)" by fastforce
  from send_eot_loop_written [OF e] obtain j where j: "j \<le> MAX_RETRIES" "io_written w1 = io_written w @ replicate j [EOT]"
    "e = Ok () \<longrightarrow> 1 \<le> j" by blast
  have "e = Ok ()" "io_written w' = io_written w1"
    using assms e by (auto simp: finish_send_def send_eot_def line_simps on_file_event_def report_failure_def
        file_result_def split: result.splits)
  with j show ?thesis by auto
qed

lemma xmodem_send_written:
  assumes "block_header bs = Some h" "\<And>c. c \<in> set chunks \<Longrightarrow> c \<noteq> []"
    "xmodem_send [fi] (\<lambda>_. Ok (map FileChunk chunks)) bs w = (Ok [r], w')" "bf_status r = Completed"
  shows "\<exists>m ks j. length ks = length chunks \<and> (\<forall>k\<in>set ks. 1 \<le> k \<and> k \<le> MAX_RETRIES) \<and>
    1 \<le> j \<and> j \<le> MAX_RETRIES \<and>
    io_written w' = io_written w @ map frame_bytes (transmit h m 1 (zip (map (pad_block bs) chunks) ks)) @
      replicate j [EOT]"
proof -
  obtain g w1 where g: "getnak w = (g, w1)" by fastforce
  let ?w2 = "\<lambda>w1. w1\<lparr>io_events := io_events w1 @ [FileEvent (FileStart (fi_name fi) 0 1 (fi_size fi))]\<rparr>"
  obtain m where m: "g = Ok m"
    using assms(3) g by (cases g) (auto simp: xmodem_send_def line_simps)
  obtain out w3 where c: "send_chunks fi bs m 1 0 (map FileChunk chunks) (?w2 w1) = (out, w3)" by fastforce
  obtain v where v: "out = Ok v"
    using assms(3) g m c by (cases out) (auto simp: xmodem_send_def line_simps on_file_event_def)
  have f: "(case v of Inr results \<Rightarrow> io_return results | Inl n \<Rightarrow> finish_send fi n) w3 = (Ok [r], w')"
    using assms(3) g m c v by (auto simp: xmodem_send_def line_simps on_file_event_def)
  have "v \<noteq> Inr [r]" using send_chunks_early [of fi bs m 1 0 "map FileChunk chunks" "?w2 w1" "[r]" w3] c v assms(4) by auto
  then obtain t where t: "v = Inl t" "finish_send fi t w3 = (Ok [r], w')"
    using f by (cases v) (auto simp: line_simps)
  have one: "(1 :: byte) = as_u8 1" by (simp add: as_u8_def)
  obtain ks where ks: "length ks = length chunks" "\<forall>k\<in>set ks. 1 \<le> k \<and> k \<le> MAX_RETRIES"
    "io_written w3 = io_written (?w2 w1) @ map frame_bytes (transmit h m 1 (zip (map (pad_block bs) chunks) ks))"
    using send_chunks_written [OF assms(1,2) c [unfolded v t one]] by blast
  obtain j where j: "1 \<le> j" "j \<le> MAX_RETRIES" "io_written w' = io_written w3 @ replicate j [EOT]"
    using finish_send_written [OF t(2) assms(4)] by blast
  have "io_written w1 = io_written w" using getnak_written g m by (auto simp: getnak_def)
  with ks j show ?thesis by (intro exI [of _ m] exI [of _ ks] exI [of _ j]) simp
qed


section \<open>Properties\<close>

text \<open>C17. From its first intact block on, the receiver implements the machine on
  frames: whatever complete frames follow, damaged ones, repetitions and blocks out of order
  included, at the end of the transmission the file holds exactly the blocks the machine accepted, in
  order, and every frame got the machine's reply, so a block is acknowledged only when it is
  stored or already was.\<close>

theorem xmodem_receiver_refines:
  assumes "quiet w" "io_reads w = stream (concat (map frame_bytes (f # fs)) @ EOT # bs)"
    "frame_intact m f" "lf_number f = 1" "m = hd (check_modes configured)" "\<forall>g\<in>set (f # fs). wf_frame m g"
  shows "\<exists>w'. xmodem_receive None None name configured w =
      (Ok [\<lparr>bf_file_name = name, bf_status = Completed,
            bf_size = length (concat (fst (take_frames m [] (f # fs)))), bf_error = None\<rparr>], w') \<and>
    io_files w' = io_files w @ [(name, concat (fst (take_frames m [] (f # fs))))] \<and>
    io_written w' = io_written w @ [init_byte m] # map (\<lambda>r. [r]) (snd (take_frames m [] (f # fs)) @ [ACK])"
proof -
  have "take_frame m [] f = ([lf_data f], ACK)"
    using assms(3,4) by (simp add: take_frame_def as_u8_def)
  then have first: "take_frames m [] (f # fs) =
      (fst (take_frames m [lf_data f] fs), ACK # snd (take_frames m [lf_data f] fs))"
    by (simp add: split_beta)
  have "io_reads w = stream (frame_bytes f @ concat (map frame_bytes fs) @ EOT # bs)"
    using assms(2) by simp
  from xmodem_receive_frames [OF assms(1) this assms(3,4,5)] assms(6) show ?thesis
    unfolding first by simp
qed

text \<open>A port and blocks for the concrete instances.\<close>

definition demo_port :: "(nat \<times> read_outcome) list \<Rightarrow> transfer_io" where
  "demo_port rs = \<lparr>io_clock = 0, io_reads = rs, io_written = [], io_write_errors = [], io_flush_errors = [],
     io_cancels = [], io_events = [], io_files = []\<rparr>"

definition demo_file :: "nat \<Rightarrow> file_info" where
  "demo_file n = \<lparr>fi_path = ''/f'', fi_name = ''f'', fi_size = n, fi_is_dir = False, fi_mtime = 0\<rparr>"

definition demo_block :: "byte list" where
  "demo_block = replicate 128 0x41"

lemma demo_port_simps [simp]:
  "quiet (demo_port rs)" "io_reads (demo_port rs) = rs" "io_files (demo_port rs) = []" "io_written (demo_port rs) = []"
  by (simp_all add: demo_port_def quiet_def)

lemma demo_block_header: "block_header (length demo_block) = Some SOH"
  by (simp add: demo_block_def block_header_def BLOCK_SIZE_128_def)

theorem xmodem_receiver_refines_witness:
  "\<exists>w'. xmodem_receive None None ''f'' ChecksumMode
      (demo_port (stream (concat (map frame_bytes [block_frame SOH Checksum 1 demo_block,
         block_frame SOH Checksum 7 demo_block, block_frame SOH Checksum 1 demo_block]) @ [EOT]))) =
      (Ok [\<lparr>bf_file_name = ''f'', bf_status = Completed, bf_size = 128, bf_error = None\<rparr>], w') \<and>
    io_files w' = [(''f'', demo_block)] \<and> io_written w' = [[NAK], [ACK], [NAK], [ACK], [ACK]]"
proof -
  let ?f = "\<lambda>n. block_frame SOH Checksum n demo_block"
  have take: "take_frames Checksum [] [?f 1, ?f 7, ?f 1] = ([demo_block], [ACK, NAK, ACK])"
    using block_frame_intact
    by (simp add: take_frame_def as_u8_def Let_def) (simp add: block_frame_def)
  have "\<forall>g\<in>set [?f 1, ?f 7, ?f 1]. wf_frame Checksum g"
    using block_frame_wf [OF demo_block_header] by simp
  from xmodem_receiver_refines [OF demo_port_simps(1,2) block_frame_intact _ _ this,
    where configured = ChecksumMode and bs = "[]" and name = "''f''"]
  show ?thesis unfolding take by (simp add: block_frame_def demo_block_def)
qed

lemma transmit_wf:
  "g \<in> set (transmit h m n dks) \<Longrightarrow> (\<And>d k. (d, k) \<in> set dks \<Longrightarrow> block_header (length d) = Some h) \<Longrightarrow> wf_frame m g"
proof (induction h m n dks rule: transmit.induct)
  case (2 h m n data k rest)
  then show ?case using "2.prems"(2) [of data k] by (auto intro!: block_frame_wf)
qed simp

text \<open>The receiver on blocks that are each transmitted one or more times.\<close>

lemma xmodem_receive_transmit:
  assumes "quiet v" "io_reads v = stream (concat (map frame_bytes (transmit h m 1 dks)) @ EOT # bs)"
    "m = hd (check_modes configured)" "dks \<noteq> []" "\<And>d k. (d, k) \<in> set dks \<Longrightarrow> 1 \<le> k \<and> block_header (length d) = Some h"
  shows "\<exists>v' r'. xmodem_receive None None name configured v = (Ok [r'], v') \<and> bf_status r' = Completed \<and>
     io_files v' = io_files v @ [(name, concat (map fst dks))]"
proof -
  obtain d k rest where dks: "dks = (d, k) # rest" using assms(4) by (cases dks) auto
  obtain j where k: "k = Suc j" using assms(5) [of d k] dks by (cases k) auto
  let ?f = "block_frame h m 1 d"
  obtain fs where fs: "transmit h m 1 dks = ?f # fs" by (simp add: dks k as_u8_def)
  have first: "frame_intact m ?f" "lf_number ?f = 1" by (rule block_frame_intact) (simp add: block_frame_def)
  have "take_frame m [] ?f = ([lf_data ?f], ACK)" using first by (simp add: take_frame_def as_u8_def)
  then have "fst (take_frames m [] (?f # fs)) = fst (take_frames m [lf_data ?f] fs)" by (simp add: split_beta)
  moreover have "fst (take_frames m [] (transmit h m (length ([] :: byte list list) + 1) dks)) = [] @ map fst dks"
    using assms(5) by (intro take_frames_transmit) blast
  ultimately have blocks: "fst (take_frames m [lf_data ?f] fs) = map fst dks"
    using fs by simp
  have wf: "wf_frame m g" if "g \<in> set (?f # fs)" for g
    using transmit_wf [of g h m 1 dks] that assms(5) unfolding fs by blast
  have "io_reads v = stream (frame_bytes ?f @ concat (map frame_bytes fs) @ EOT # bs)"
    using assms(2) unfolding fs by simp
  from xmodem_receive_frames [OF assms(1) this first assms(3) wf, of name]
  obtain v' where "xmodem_receive None None name configured v = (Ok [\<lparr>bf_file_name = name, bf_status = Completed,
        bf_size = length (concat (map fst dks)), bf_error = None\<rparr>], v')"
    "io_files v' = io_files v @ [(name, concat (map fst dks))]"
    unfolding blocks by blast
  then show ?thesis by (intro exI [of _ v'] exI) (rule conjI, assumption, simp)
qed

lemma concat_padded:
  assumes "chunks \<noteq> []" "\<forall>c\<in>set (butlast chunks). length c = bs"
  shows "concat (map (pad_block bs) chunks) = concat chunks @ replicate (bs - length (last chunks)) 0x1A"
proof -
  have split: "chunks = butlast chunks @ [last chunks]" using assms(1) by simp
  have "map (pad_block bs) (butlast chunks) = butlast chunks"
    using assms(2) by (intro map_idI) (simp add: pad_block_def)
  moreover have "concat (map (pad_block bs) chunks) =
      concat (map (pad_block bs) (butlast chunks)) @ pad_block bs (last chunks)" by (subst split) simp
  moreover have "concat chunks = concat (butlast chunks) @ last chunks" by (subst split) simp
  ultimately show ?thesis by (simp add: pad_block_def)
qed

text \<open>C2. A file is transferred intact: when the sender reports completion, whatever the
  port answered and however often blocks were repeated, everything it wrote, delivered to the receiver
  in the same check mode, makes the receiver report completion with a file that is the
  sender's file filled up with \<open>0x1A\<close> to whole blocks, also beyond 256 blocks, where the 8-bit
  block numbers wrap. The reads of the file are full blocks except for the last, as for a regular file.\<close>

theorem xmodem_end_to_end:
  assumes block_size: "bs = BLOCK_SIZE_128 \<or> bs = BLOCK_SIZE_1K"
    and regular: "chunks \<noteq> []" "last chunks \<noteq> []" "length (last chunks) \<le> bs" "\<forall>c\<in>set (butlast chunks). length c = bs"
    and sender: "xmodem_send [fi] (\<lambda>_. Ok (map FileChunk chunks)) bs w = (Ok [r], w')" "bf_status r = Completed"
      "io_written w = []"
  shows "\<exists>mode. \<forall>v configured name. quiet v \<and> io_reads v = stream (concat (io_written w')) \<and>
      hd (check_modes configured) = mode \<longrightarrow>
    (\<exists>v' r'. xmodem_receive None None name configured v = (Ok [r'], v') \<and> bf_status r' = Completed \<and>
       io_files v' = io_files v @ [(name, concat chunks @ replicate (bs - length (last chunks)) 0x1A)])"
proof -
  obtain h where h: "block_header bs = Some h" using block_size by (metis header_size)
  have pos: "0 < bs" using block_size by (auto simp: BLOCK_SIZE_128_def BLOCK_SIZE_1K_def)
  have "c \<in> set (butlast chunks) \<or> c = last chunks" if "c \<in> set chunks" for c
    using that regular(1) by (metis append_butlast_last_id rotate1.simps(2) set_ConsD set_rotate1)
  then have ne: "c \<noteq> []" and le: "length c \<le> bs" if "c \<in> set chunks" for c
    using that regular pos by fastforce+
  obtain m ks j where ks: "length ks = length chunks" "\<forall>k\<in>set ks. 1 \<le> k \<and> k \<le> MAX_RETRIES" and j: "1 \<le> j"
    and w': "io_written w' = map frame_bytes (transmit h m 1 (zip (map (pad_block bs) chunks) ks)) @ replicate j [EOT]"
    using xmodem_send_written [OF h ne sender(1,2)] sender(3) by auto
  let ?dks = "zip (map (pad_block bs) chunks) ks"
  obtain i where i: "j = Suc i" using j by (cases j) auto
  have bytes: "concat (io_written w') =
      concat (map frame_bytes (transmit h m 1 ?dks)) @ EOT # concat (replicate i [EOT])"
    unfolding w' i by simp
  have "?dks \<noteq> []" using ks(1) regular(1) by (cases chunks; cases ks) auto
  moreover have "1 \<le> k \<and> block_header (length d) = Some h" if "(d, k) \<in> set ?dks" for d k
  proof -
    have "d \<in> set (map (pad_block bs) chunks)" "k \<in> set ks"
      using that by (auto dest: set_zip_leftD set_zip_rightD)
    with ks(2) le h show ?thesis by (auto simp: pad_block_def)
  qed
  moreover have "concat (map fst ?dks) = concat chunks @ replicate (bs - length (last chunks)) 0x1A"
    using ks(1) concat_padded [OF regular(1,4)] by simp
  ultimately show ?thesis
    using xmodem_receive_transmit [of _ h m ?dks "concat (replicate i [EOT])"] unfolding bytes by metis
qed

text \<open>A sender whose receiver asks for the checksum and acknowledges at once.\<close>

lemma demo_send:
  "\<exists>w'. xmodem_send [demo_file 1] (\<lambda>_. Ok (map FileChunk [[0x41]])) BLOCK_SIZE_128
      (demo_port (stream [NAK, ACK, ACK])) =
    (Ok [\<lparr>bf_file_name = ''f'', bf_status = Completed, bf_size = 1, bf_error = None\<rparr>], w')"
proof -
  obtain i n where n: "INIT_TIMEOUT_SECS = Suc i" "MAX_RETRIES = Suc n"
    by (simp add: INIT_TIMEOUT_SECS_def MAX_RETRIES_def numeral_eq_Suc)
  have b: "block_header BLOCK_SIZE_128 = Some SOH" "\<not> BLOCK_SIZE_128 > BLOCK_SIZE_1K"
    by (simp_all add: block_header_def BLOCK_SIZE_128_def BLOCK_SIZE_1K_def)
  show ?thesis
    by (simp add: xmodem_send_def getnak_def n line_simps on_file_event_def on_progress_def send_block_def b
        finish_send_def send_eot_def file_result_def demo_file_def)
qed

theorem xmodem_end_to_end_witness:
  "\<exists>w' mode. (\<exists>r. xmodem_send [demo_file 1] (\<lambda>_. Ok (map FileChunk [[0x41]])) BLOCK_SIZE_128
      (demo_port (stream [NAK, ACK, ACK])) = (Ok [r], w')) \<and>
    (\<forall>configured. hd (check_modes configured) = mode \<longrightarrow>
      (\<exists>v' r'. xmodem_receive None None ''g'' configured (demo_port (stream (concat (io_written w')))) = (Ok [r'], v') \<and>
        bf_status r' = Completed \<and> io_files v' = [(''g'', 0x41 # replicate 127 0x1A)]))"
proof -
  obtain w' where s: "xmodem_send [demo_file 1] (\<lambda>_. Ok (map FileChunk [[0x41]])) BLOCK_SIZE_128
      (demo_port (stream [NAK, ACK, ACK])) =
    (Ok [\<lparr>bf_file_name = ''f'', bf_status = Completed, bf_size = 1, bf_error = None\<rparr>], w')"
    using demo_send by blast
  have content: "concat [[0x41]] @ replicate (BLOCK_SIZE_128 - length (last [[0x41 :: byte]])) 0x1A = 0x41 # replicate 127 0x1A"
    by (simp add: BLOCK_SIZE_128_def)
  have "\<exists>mode. \<forall>v configured name. quiet v \<and> io_reads v = stream (concat (io_written w')) \<and>
      hd (check_modes configured) = mode \<longrightarrow>
    (\<exists>v' r'. xmodem_receive None None name configured v = (Ok [r'], v') \<and> bf_status r' = Completed \<and>
       io_files v' = io_files v @ [(name, concat [[0x41]] @ replicate (BLOCK_SIZE_128 - length (last [[0x41 :: byte]])) 0x1A)])"
    by (rule xmodem_end_to_end [OF _ _ _ _ _ s]) (simp_all add: BLOCK_SIZE_128_def)
  then obtain mode where m: "\<And>v configured name. quiet v \<and> io_reads v = stream (concat (io_written w')) \<and>
      hd (check_modes configured) = mode \<Longrightarrow>
    \<exists>v' r'. xmodem_receive None None name configured v = (Ok [r'], v') \<and> bf_status r' = Completed \<and>
       io_files v' = io_files v @ [(name, 0x41 # replicate 127 0x1A)]"
    unfolding content by blast
  have "\<exists>v' r'. xmodem_receive None None ''g'' configured (demo_port (stream (concat (io_written w')))) = (Ok [r'], v') \<and>
      bf_status r' = Completed \<and> io_files v' = [(''g'', 0x41 # replicate 127 0x1A)]"
    if "hd (check_modes configured) = mode" for configured
    using m [of "demo_port (stream (concat (io_written w')))" configured "''g''"] that by simp
  with s show ?thesis by blast
qed


section \<open>An empty file\<close>

lemma read_silence:
  "io_reads w = [] \<Longrightarrow> \<exists>c. read_byte_loop start t w = (Ok None, w\<lparr>io_clock := c\<rparr>)"
proof (induction start t w rule: read_byte_loop.induct)
  case (1 start t w)
  have p: "port_read 1 w = (ReadTimedOut, w)" using "1.prems" by (simp add: port_read_def)
  show ?case
  proof (cases "io_clock w - start > t")
    case True
    then have "read_byte_loop start t w = (Ok None, w\<lparr>io_clock := io_clock w\<rparr>)"
      using p by (cases w) (simp add: read_byte_loop.simps [of start t])
    then show ?thesis by blast
  next
    case False
    then have "read_byte_loop start t w = read_byte_loop start t (w\<lparr>io_clock := io_clock w + 10\<rparr>)"
      using p by (simp add: read_byte_loop.simps [of start t w])
    moreover obtain c where "read_byte_loop start t (w\<lparr>io_clock := io_clock w + 10\<rparr>) = (Ok None, w\<lparr>io_clock := c\<rparr>)"
      using "1.IH" [OF p [symmetric] refl _ False] "1.prems" by auto
    ultimately show ?thesis by auto
  qed
qed

lemma init_attempts_eot:
  "quiet w \<Longrightarrow> io_reads w = stream (replicate k EOT) \<Longrightarrow>
   \<exists>w' k'. init_attempts n m False w = (Ok (None, False), w') \<and> quiet w' \<and> io_reads w' = stream (replicate k' EOT) \<and>
     io_files w' = io_files w \<and> io_written w' = io_written w @ replicate n [init_byte m]"
proof (induction n arbitrary: w k)
  case 0
  then show ?case by (auto simp: line_simps)
next
  case (Suc n)
  let ?w1 = "w\<lparr>io_written := io_written w @ [[init_byte m]]\<rparr>"
  have eot: "EOT \<noteq> SOH" "EOT \<noteq> STX" "EOT \<noteq> CAN" by (simp_all add: xmodem_bytes)
  obtain w2 k2 where w2: "init_attempts (Suc n) m False w = init_attempts n m False w2"
    "quiet w2" "io_reads w2 = stream (replicate k2 EOT)" "io_files w2 = io_files w"
    "io_written w2 = io_written w @ [[init_byte m]]"
  proof (cases k)
    case 0
    then have "io_reads ?w1 = []" using Suc.prems(2) by (simp add: stream_def)
    from read_silence [OF this] obtain c where "read_byte_with_timeout 1000 ?w1 = (Ok None, ?w1\<lparr>io_clock := c\<rparr>)"
      unfolding read_byte_with_timeout_def by blast
    with Suc.prems 0 show thesis
      by (intro that [of "?w1\<lparr>io_clock := c\<rparr>" 0]) (simp_all add: line_simps)
  next
    case (Suc i)
    have "read_byte_with_timeout 1000 ?w1 = (Ok (Some EOT), ?w1\<lparr>io_reads := stream (replicate i EOT)\<rparr>)"
      using Suc.prems(2) Suc by (intro read_stream) simp
    with Suc.prems eot show thesis
      by (intro that [of "?w1\<lparr>io_reads := stream (replicate i EOT)\<rparr>" i]) (simp_all add: line_simps)
  qed
  from Suc.IH [OF w2(2,3)] w2 show ?case by auto
qed

lemma init_modes_eot:
  "quiet w \<Longrightarrow> io_reads w = stream (replicate k EOT) \<Longrightarrow>
   \<exists>w'. init_modes n ms w = (Err NoConnection, w') \<and> io_files w' = io_files w \<and>
     io_written w' = io_written w @ concat (map (\<lambda>m. replicate n [init_byte m]) ms)"
proof (induction ms arbitrary: w k)
  case Nil
  then show ?case by (simp add: line_simps)
next
  case (Cons m ms)
  from init_attempts_eot [OF Cons.prems, of n m] obtain w1 k1 where w1:
    "init_attempts n m False w = (Ok (None, False), w1)" "quiet w1" "io_reads w1 = stream (replicate k1 EOT)"
    "io_files w1 = io_files w" "io_written w1 = io_written w @ replicate n [init_byte m]" by blast
  from Cons.IH [OF w1(2,3)] w1 show ?case by (auto simp: line_simps)
qed

text \<open>The sender opposite such a receiver: what it hears is start bytes, or nothing.\<close>

definition hears_starts :: "transfer_io \<Rightarrow> bool" where
  "hears_starts w \<longleftrightarrow> quiet w \<and> (\<exists>rs. io_reads w = stream rs \<and> set rs \<subseteq> {NAK, WANTCRC})"

lemma read_starts:
  assumes "hears_starts w"
  shows "\<exists>r w'. read_byte_with_timeout t w = (Ok r, w') \<and> hears_starts w' \<and> io_written w' = io_written w \<and>
    (r = None \<or> r = Some NAK \<or> r = Some WANTCRC)"
proof -
  obtain rs where rs: "quiet w" "io_reads w = stream rs" "set rs \<subseteq> {NAK, WANTCRC}" using assms by (auto simp: hears_starts_def)
  show ?thesis
  proof (cases rs)
    case Nil
    then have none: "io_reads w = []" using rs(2) by (simp add: stream_def)
    obtain c where c: "read_byte_with_timeout t w = (Ok None, w\<lparr>io_clock := c\<rparr>)"
      using read_silence [OF none] unfolding read_byte_with_timeout_def by blast
    have "hears_starts (w\<lparr>io_clock := c\<rparr>)" unfolding hears_starts_def using rs Nil by (intro conjI exI [of _ "[]"]) (simp_all add: line_simps)
    with c show ?thesis by auto
  next
    case (Cons b bs)
    then have r: "read_byte_with_timeout t w = (Ok (Some b), w\<lparr>io_reads := stream bs\<rparr>)" using rs(2) by (intro read_stream) simp
    have "hears_starts (w\<lparr>io_reads := stream bs\<rparr>)" unfolding hears_starts_def using rs Cons by (intro conjI exI [of _ bs]) (auto simp: line_simps)
    with r rs(3) Cons show ?thesis by auto
  qed
qed

lemma start_bytes: "NAK \<noteq> ACK" "WANTCRC \<noteq> ACK" "NAK \<noteq> CAN" "WANTCRC \<noteq> CAN" "WANTCRC \<noteq> NAK"
  by (simp_all add: xmodem_bytes)

lemma getnak_starts:
  "hears_starts w \<Longrightarrow> \<exists>r w'. getnak_loop n w = (r, w') \<and> hears_starts w' \<and> io_written w' = io_written w \<and>
    (r = Err StartTimeout \<or> (\<exists>m. r = Ok m))"
proof (induction n arbitrary: w)
  case (Suc n)
  obtain r w1 where r: "read_byte_with_timeout 1000 w = (Ok r, w1)" "hears_starts w1" "io_written w1 = io_written w"
    "r = None \<or> r = Some NAK \<or> r = Some WANTCRC" using read_starts [OF Suc.prems] by blast
  have q: "quiet w" using Suc.prems by (simp add: hears_starts_def)
  show ?case using r(4) Suc.IH [OF r(2)] q r(1-3) start_bytes by (elim disjE) (auto simp: line_simps)
qed (simp add: line_simps)

lemma send_eot_starts:
  "hears_starts w \<Longrightarrow> \<exists>e w' j. send_eot_loop n w = (Err e, w') \<and> io_written w' = io_written w @ replicate j [EOT]"
proof (induction n arbitrary: w)
  case 0
  show ?case by (rule exI [of _ EotFailed], rule exI [of _ w], rule exI [of _ 0]) (simp add: line_simps)
next
  case (Suc n)
  let ?w = "w\<lparr>io_written := io_written w @ [[EOT]]\<rparr>"
  have q: "quiet w" and h: "hears_starts ?w" using Suc.prems by (simp_all add: hears_starts_def line_simps)
  obtain r w1 where r: "read_byte_with_timeout 5000 ?w = (Ok r, w1)" "hears_starts w1" "io_written w1 = io_written w @ [[EOT]]"
    "r = None \<or> r = Some NAK \<or> r = Some WANTCRC" using read_starts [OF h, of 5000] by fastforce
  obtain e w' j where e: "send_eot_loop n w1 = (Err e, w')" "io_written w' = io_written w @ replicate (Suc j) [EOT]"
    using Suc.IH [OF r(2)] r(3) by auto
  have one: "io_written w1 = io_written w @ replicate 1 [EOT]" using r(3) by simp
  have "send_eot_loop (Suc n) w = (Err e, w') \<or> (\<exists>e. send_eot_loop (Suc n) w = (Err e, w1))"
    using r(4) e(1) q r(1) start_bytes by (elim disjE) (auto simp: line_simps)
  with e(2) one show ?case by blast
qed

text \<open>
  C35. An empty file cannot be transferred between these two ends, on a line without errors or pauses. The receiver, opposite a sender that writes nothing but \<open>EOT\<close>, ignores it
  while it waits for the first block, writes nothing but its start bytes, saves nothing, and reports that there is no connection, in every check mode. The sender of
  an empty file, opposite a receiver that writes nothing but start bytes, whatever they are and however many, writes nothing but \<open>EOT\<close>, and never completes: it times
  out before it starts, or reports the file as failed.
\<close>

theorem xmodem_empty_file_lost:
  assumes "quiet w" "io_reads w = stream (replicate k EOT)"
    and "quiet v" "io_reads v = stream rs" "set rs \<subseteq> {NAK, WANTCRC}" "bs = BLOCK_SIZE_128 \<or> bs = BLOCK_SIZE_1K"
  shows "(\<exists>w'. xmodem_receive None None name configured w = (Err NoConnection, w') \<and> io_files w' = io_files w \<and>
      set (io_written w') \<subseteq> set (io_written w) \<union> {[NAK], [WANTCRC]}) \<and>
    (\<exists>out v' j. xmodem_send [fi] (\<lambda>_. Ok []) bs v = (out, v') \<and> io_written v' = io_written v @ replicate j [EOT] \<and>
      (out = Err StartTimeout \<or> (\<exists>r. out = Ok [r] \<and> bf_status r = Failed)))"
proof -
  let ?w1 = "w\<lparr>io_events := io_events w @ [FileEvent (FileStart name 0 1 0)]\<rparr>"
  let ?ms = "check_modes configured"
  have "quiet ?w1" "io_reads ?w1 = stream (replicate k EOT)" using assms(1,2) by (simp_all add: line_simps)
  from init_modes_eot [OF this, of "attempts_per_mode ?ms" ?ms] obtain w' where
    init: "init_modes (attempts_per_mode ?ms) ?ms ?w1 = (Err NoConnection, w')" "io_files w' = io_files w"
    "io_written w' = io_written w @ concat (map (\<lambda>m. replicate (attempts_per_mode ?ms) [init_byte m]) ?ms)" by auto
  have "init_byte m = NAK \<or> init_byte m = WANTCRC" for m by (cases m) auto
  then have "set (io_written w') \<subseteq> set (io_written w) \<union> {[NAK], [WANTCRC]}"
    unfolding init(3) by force
  with init(1,2) have "\<exists>w'. xmodem_receive None None name configured w = (Err NoConnection, w') \<and>
      io_files w' = io_files w \<and> set (io_written w') \<subseteq> set (io_written w) \<union> {[NAK], [WANTCRC]}"
    by (auto simp: xmodem_receive_def line_simps on_file_event_def Let_def)
  moreover have "hears_starts v" using assms(3-5) by (auto simp: hears_starts_def)
  then obtain g v1 where g: "getnak v = (g, v1)" "hears_starts v1" "io_written v1 = io_written v" "g = Err StartTimeout \<or> (\<exists>m. g = Ok m)"
    using getnak_starts unfolding getnak_def by blast
  let ?v2 = "v1\<lparr>io_events := io_events v1 @ [FileEvent (FileStart (fi_name fi) 0 1 (fi_size fi))]\<rparr>"
  have h2: "hears_starts ?v2" and q2: "quiet ?v2" using g(2) by (simp_all add: hears_starts_def line_simps)
  obtain e v3 j where e: "send_eot_loop MAX_RETRIES ?v2 = (Err e, v3)" "io_written v3 = io_written v @ replicate j [EOT]"
    using send_eot_starts [OF h2, of MAX_RETRIES] g(3) by auto
  have size: "\<not> bs > BLOCK_SIZE_1K" using assms(6) by (auto simp: BLOCK_SIZE_128_def BLOCK_SIZE_1K_def)
  have "\<exists>out v' j. xmodem_send [fi] (\<lambda>_. Ok []) bs v = (out, v') \<and> io_written v' = io_written v @ replicate j [EOT] \<and>
      (out = Err StartTimeout \<or> (\<exists>r. out = Ok [r] \<and> bf_status r = Failed))"
    using g(4)
  proof
    assume "g = Err StartTimeout"
    then have "xmodem_send [fi] (\<lambda>_. Ok []) bs v = (Err StartTimeout, v1)" using g(1) by (simp add: xmodem_send_def line_simps)
    then show ?thesis using g(3) by (intro exI [of _ "Err StartTimeout"] exI [of _ v1] exI [of _ 0]) simp
  next
    assume "\<exists>m. g = Ok m"
    then obtain m where m: "g = Ok m" by blast
    obtain v4 where "xmodem_send [fi] (\<lambda>_. Ok []) bs v = (Ok [file_result fi (fi_size fi) (Some e)], v4)" "io_written v4 = io_written v3"
      using g(1) m e(1) q2 size
      by (simp add: xmodem_send_def line_simps on_file_event_def finish_send_def send_eot_def report_failure_def)
    with e(2) show ?thesis by (intro exI [of _ "Ok [file_result fi (fi_size fi) (Some e)]"] exI [of _ v4] exI [of _ j]) (simp add: file_result_def)
  qed
  ultimately show ?thesis by blast
qed

theorem xmodem_empty_file_lost_witness:
  "\<exists>w' v' out. xmodem_send [demo_file 0] (\<lambda>_. Ok []) BLOCK_SIZE_128 (demo_port (stream [NAK, NAK, NAK])) = (out, v') \<and>
     (out = Err StartTimeout \<or> (\<exists>r. out = Ok [r] \<and> bf_status r = Failed)) \<and>
    xmodem_receive None None ''g'' AutoMode (demo_port (stream [EOT, EOT])) = (Err NoConnection, w') \<and> io_files w' = []"
proof -
  have "io_reads (demo_port (stream [EOT, EOT])) = stream (replicate 2 EOT)" by (simp add: numeral_2_eq_2)
  from xmodem_empty_file_lost [OF demo_port_simps(1) this demo_port_simps(1), of "stream [NAK, NAK, NAK]" "[NAK, NAK, NAK]" BLOCK_SIZE_128 "''g''" AutoMode
      "demo_file 0"] show ?thesis by auto
qed

end
