(* ===== verification/Session_Identity.thy ===== *)
theory Session_Identity
  imports TauTerm_Prelude
begin

text \<open>
  The identity of a running connection: \<open>session/identity.rs\<close>. It travels to the front end as a decimal string, because a
  JavaScript number cannot hold 64 bits; \<open>to_string\<close> and \<open>parse\<close> are those of the standard library for \<open>u64\<close>.
\<close>

record runtime_identity =
  session_id :: string
  runtime_id :: u64

definition for_session :: "runtime_identity \<Rightarrow> string \<Rightarrow> runtime_identity" where
  "for_session identity sid = \<lparr>session_id = sid, runtime_id = runtime_id identity\<rparr>"

definition digit_char :: "nat \<Rightarrow> char" where
  "digit_char d = char_of (48 + d)"

definition char_digit :: "char \<Rightarrow> nat option" where
  "char_digit c = (if 48 \<le> (of_char c :: nat) \<and> of_char c \<le> (57 :: nat) then Some (of_char c - 48) else None)"

fun nat_to_string :: "nat \<Rightarrow> string" where
  "nat_to_string n = (if n < 10 then [digit_char n] else nat_to_string (n div 10) @ [digit_char (n mod 10)])"

declare nat_to_string.simps [simp del]

fun parse_digits :: "nat \<Rightarrow> string \<Rightarrow> nat option" where
  "parse_digits n [] = Some n"
| "parse_digits n (c # cs) =
     (case char_digit c of
        None \<Rightarrow> None
      | Some d \<Rightarrow> if 10 * n + d < 2 ^ 64 then parse_digits (10 * n + d) cs else None)"

text \<open>A leading plus is accepted, the empty string and a sign alone are not.\<close>

definition parse_u64 :: "string \<Rightarrow> u64 option" where
  "parse_u64 s =
     (let t = (case s of c # cs \<Rightarrow> if c = CHR ''+'' \<and> cs \<noteq> [] then cs else s | _ \<Rightarrow> s) in
      if t = [] then None else map_option of_nat (parse_digits 0 t))"

definition serialize_runtime_id :: "u64 \<Rightarrow> string" where
  "serialize_runtime_id i = nat_to_string (unat i)"

definition deserialize_runtime_id :: "string \<Rightarrow> (u64, message) result" where
  "deserialize_runtime_id s =
     (case parse_u64 s of
        None \<Rightarrow> Err (Msg ''invalid digit or out of range'')
      | Some v \<Rightarrow> if v = 0 then Err (Msg ''runtime identity must be positive'') else Ok v)"

lemma char_digit_char [simp]: "d < 10 \<Longrightarrow> char_digit (digit_char d) = Some d"
  by (simp add: char_digit_def digit_char_def)

lemma parse_digits_append:
  "parse_digits n (s @ t) = (case parse_digits n s of None \<Rightarrow> None | Some m \<Rightarrow> parse_digits m t)"
  by (induction s arbitrary: n) (auto split: option.split)

lemma parse_nat_to_string: "n < 2 ^ 64 \<Longrightarrow> parse_digits 0 (nat_to_string n) = Some n"
proof (induction n rule: nat_to_string.induct)
  case (1 n)
  show ?case
  proof (cases "n < 10")
    case True
    then show ?thesis by (simp add: nat_to_string.simps [of n])
  next
    case False
    have "n div 10 < 2 ^ 64" using "1.prems" by (meson div_le_dividend le_less_trans)
    with 1 False show ?thesis by (simp add: nat_to_string.simps [of n] parse_digits_append)
  qed
qed

lemma nat_to_string_digits: "nat_to_string n \<noteq> [] \<and> (\<forall>c\<in>set (nat_to_string n). char_digit c \<noteq> None)"
proof (induction n rule: nat_to_string.induct)
  case (1 n)
  then show ?case by (cases "n < 10") (auto simp: nat_to_string.simps [of n])
qed

lemma parse_digits_bound: "n < 2 ^ 64 \<Longrightarrow> parse_digits n s = Some m \<Longrightarrow> m < 2 ^ 64"
  by (induction s arbitrary: n) (auto split: option.splits if_splits)

text \<open>A runtime identity survives the trip to the front end and back exactly, up to the largest 64-bit number, and
  no other number is read from its text; zero is refused.\<close>

theorem runtime_id_roundtrip:
  "deserialize_runtime_id (serialize_runtime_id i) = (if i = 0 then Err (Msg ''runtime identity must be positive'') else Ok i)"
proof -
  let ?s = "nat_to_string (unat i)"
  have lt: "unat i < 2 ^ 64" using unsigned_less [of i, where ?'a = nat] by simp
  obtain c cs where s: "?s = c # cs" using nat_to_string_digits [of "unat i"] by (cases ?s) auto
  with nat_to_string_digits [of "unat i"] have "char_digit c \<noteq> None" by auto
  then have "c \<noteq> CHR ''+''" by (auto simp: char_digit_def)
  then have "parse_u64 ?s = Some i" using parse_nat_to_string [OF lt] s by (simp add: parse_u64_def)
  then show ?thesis by (simp add: serialize_runtime_id_def deserialize_runtime_id_def)
qed

end
