(* ===== verification/Data_Batcher.thy ===== *)
theory Data_Batcher
  imports Session_Identity "HOL-Library.AList" "HOL-Library.Multiset"
begin

unbundle bit_operations_syntax

text \<open>
  The display batcher of \<open>kernel/data_batcher.rs\<close>: session output is queued, merged per session
  over a window of 16 ms or up to 32 KiB, encoded in Base64 and emitted.

  The handle (\<open>push\<close>, \<open>shutdown\<close>) and the thread (\<open>run\<close>) share a bounded queue; the relation \<open>batcher_step\<close>
  interleaves their operations with the passing of time, one rule for each outcome of \<open>recv_timeout\<close>.
  Times are microseconds. The pending sessions, a hash map in the code, are an association list with distinct
  keys; the order in which a hash map is traversed is unspecified and the parameter \<open>order\<close>
  of the operations that traverse it. The field \<open>accepted_data\<close> is a ghost: it records what \<open>push\<close>
  queued. It is shown that no accepted byte is lost, repeated or reordered within its session, and that an idle
  thread has emitted everything one window later.
\<close>

section \<open>Base64\<close>

definition B64_ALPHABET :: string where
  "B64_ALPHABET = ''ABCDEFGHIJKLMNOPQRSTUVWXYZabcdefghijklmnopqrstuvwxyz0123456789+/''"

definition b64_char :: "u32 \<Rightarrow> char" where
  "b64_char n = B64_ALPHABET ! unat (n AND 0x3F)"

definition b64_chunk :: "byte list \<Rightarrow> string" where
  "b64_chunk chunk =
     (let n = push_bit 16 (ucast (chunk ! 0)) OR push_bit 8 (ucast (chunk ! 1)) OR ucast (chunk ! 2) :: u32
      in [b64_char (drop_bit 18 n), b64_char (drop_bit 12 n), b64_char (drop_bit 6 n), b64_char n])"

definition b64_rest :: "byte list \<Rightarrow> string" where
  "b64_rest rest =
     (if length rest = 1 then
        let n = push_bit 16 (ucast (rest ! 0)) :: u32
        in [b64_char (drop_bit 18 n), b64_char (drop_bit 12 n), CHR ''='', CHR ''='']
      else if length rest = 2 then
        let n = push_bit 16 (ucast (rest ! 0)) OR push_bit 8 (ucast (rest ! 1)) :: u32
        in [b64_char (drop_bit 18 n), b64_char (drop_bit 12 n), b64_char (drop_bit 6 n), CHR ''='']
      else [])"

definition base64_encode :: "byte list \<Rightarrow> string" where
  "base64_encode input =
     concat (map b64_chunk (as_chunks 3 input)) @ b64_rest (drop (3 * (length input div 3)) input)"

text \<open>The decoding of RFC 4648, the reference the encoder is compared with.\<close>

definition b64_value :: "char \<Rightarrow> u32 option" where
  "b64_value c = map_option word_of_nat (List.find (\<lambda>i. B64_ALPHABET ! i = c) [0..<64])"

definition b64_group :: "u32 list \<Rightarrow> byte list" where
  "b64_group v = (let n = push_bit 18 (v ! 0) OR push_bit 12 (v ! 1) OR push_bit 6 (v ! 2) OR v ! 3
     in [ucast (drop_bit 16 n), ucast (drop_bit 8 n), ucast n])"

definition b64_values :: "string \<Rightarrow> u32 list option" where
  "b64_values cs = those (map b64_value cs)"

fun base64_decode :: "string \<Rightarrow> byte list option" where
  "base64_decode [] = Some []"
| "base64_decode (a # b # c # d # rest) =
     (if c = CHR ''='' \<and> d = CHR ''='' \<and> rest = [] then
        map_option (\<lambda>v. take 1 (b64_group (v @ [0, 0]))) (b64_values [a, b])
      else if d = CHR ''='' \<and> rest = [] then
        map_option (\<lambda>v. take 2 (b64_group (v @ [0]))) (b64_values [a, b, c])
      else Option.bind (b64_values [a, b, c, d]) (\<lambda>v.
        map_option ((@) (b64_group v)) (base64_decode rest)))"
| "base64_decode _ = None"

lemma b64_table: "list_all (\<lambda>i. b64_value (B64_ALPHABET ! i) = Some (word_of_nat i) \<and> B64_ALPHABET ! i \<noteq> CHR ''='') [0..<64]"
  by code_simp

lemma sextet_mask: "(0x3F :: u32) = mask 6"
  by (simp add: mask_eq_exp_minus_1)

lemma b64_char_value: "b64_value (b64_char n) = Some (n AND 0x3F)" "b64_char n \<noteq> CHR ''=''"
proof -
  have "n AND 0x3F = take_bit 6 n" by (simp add: take_bit_eq_mask sextet_mask)
  then have "unat (n AND 0x3F) < 64" using take_bit_nat_less_exp [of 6 "unat n"] by (simp add: unsigned_take_bit_eq)
  then have "unat (n AND 0x3F) \<in> set [0..<64]" by simp
  with b64_table show "b64_value (b64_char n) = Some (n AND 0x3F)" "b64_char n \<noteq> CHR ''=''"
    unfolding list_all_iff b64_char_def by (auto simp del: set_upt)
qed

lemma b64_group_of:
  "b64_group [drop_bit 18 n AND 0x3F, drop_bit 12 n AND 0x3F, drop_bit 6 n AND 0x3F, n AND 0x3F] =
   [ucast (drop_bit 16 n), ucast (drop_bit 8 n), ucast (n :: u32)]"
  unfolding b64_group_def Let_def sextet_mask
  by (auto intro!: bit_word_eqI simp: bit_simps)

lemma no_high_bits: "\<not> bit (w :: byte) (8 + n)" "\<not> bit w (16 + n)"
  using bit_imp_le_length [of w] by fastforce+

lemma b64_group_bytes:
  fixes a b c :: byte
  defines "n \<equiv> push_bit 16 (ucast a) OR push_bit 8 (ucast b) OR ucast c :: u32"
  shows "b64_group [drop_bit 18 n AND 0x3F, drop_bit 12 n AND 0x3F, drop_bit 6 n AND 0x3F, n AND 0x3F] = [a, b, c]"
  unfolding b64_group_of n_def
  by (auto intro!: bit_word_eqI simp: bit_simps no_high_bits)

lemma b64_chunk_decode:
  assumes "length c = 3"
  shows "base64_decode (b64_chunk c @ rest) = map_option ((@) c) (base64_decode rest)"
proof -
  obtain x y z where c: "c = [x, y, z]" using assms by (auto simp: numeral_3_eq_3 length_Suc_conv)
  show ?thesis
    using b64_group_bytes [of x y z]
    by (simp add: c b64_chunk_def Let_def b64_char_value b64_values_def)
qed

lemma b64_rest_decode:
  assumes "length r < 3"
  shows "base64_decode (b64_rest r) = Some r"
proof -
  consider "r = []" | x where "r = [x]" | x y where "r = [x, y]"
    using assms by (auto simp: less_Suc_eq numeral_3_eq_3 length_Suc_conv)
  then show ?thesis
  proof cases
    case 2
    have z: "drop_bit 6 (push_bit 16 (ucast x)) AND 0x3F = (0 :: u32)" "push_bit 16 (ucast x) AND 0x3F = (0 :: u32)"
      unfolding sextet_mask by (auto intro!: bit_word_eqI simp: bit_simps)
    from 2 show ?thesis
      using b64_group_bytes [of x 0 0]
      by (simp add: b64_rest_def Let_def b64_char_value b64_values_def z)
  next
    case 3
    have z: "(push_bit 16 (ucast x) OR push_bit 8 (ucast y)) AND 0x3F = (0 :: u32)"
      unfolding sextet_mask by (auto intro!: bit_word_eqI simp: bit_simps)
    from 3 show ?thesis
      using b64_group_bytes [of x y 0]
      by (simp add: b64_rest_def Let_def b64_char_value b64_values_def z)
  qed (simp add: b64_rest_def)
qed

theorem base64_round_trip [simp]: "base64_decode (base64_encode bs) = Some bs"
proof (induction "length bs" arbitrary: bs rule: less_induct)
  case less
  show ?case
  proof (cases "length bs < 3")
    case True
    then show ?thesis by (simp add: base64_encode_def as_chunks_short b64_rest_decode)
  next
    case False
    then have "base64_encode bs = b64_chunk (take 3 bs) @ base64_encode (drop 3 bs)"
      by (subst base64_encode_def, subst as_chunks.simps) (simp add: base64_encode_def le_div_geq add.commute)
    with False less [of "drop 3 bs"] show ?thesis by (simp add: b64_chunk_decode)
  qed
qed

section \<open>Data\<close>

record batched_data =
  identity :: runtime_identity
  data_b64 :: string

datatype batch_cmd = Push runtime_identity "byte list" | Shutdown

record pending =
  pend_buf :: "byte list"
  window_start :: "nat option"

record batcher =
  queued :: "batch_cmd list"
  dropped :: u64
  drop_reports :: "u64 list"
  pending_map :: "(runtime_identity \<times> pending) list"
  emitted :: "batched_data list"
  now_us :: nat
  running :: bool
  accepted_data :: "(runtime_identity \<times> byte list) list"
  discarded_data :: "(runtime_identity \<times> byte list) list"

type_synonym traversal = "(runtime_identity \<times> pending) list \<Rightarrow> (runtime_identity \<times> pending) list"

definition BATCH_WINDOW :: nat where "BATCH_WINDOW = 16000"
definition BATCH_FLUSH_THRESHOLD :: nat where "BATCH_FLUSH_THRESHOLD = 32 * 1024"
definition BATCH_QUEUE :: nat where "BATCH_QUEUE = 512"
definition CHECK_INTERVAL :: nat where "CHECK_INTERVAL = 2000"

definition new_batcher :: "nat \<Rightarrow> batcher" where
  "new_batcher t = \<lparr>queued = [], dropped = 0, drop_reports = [], pending_map = [], emitted = [], now_us = t,
     running = True, accepted_data = [], discarded_data = []\<rparr>"

section \<open>The handle\<close>

text \<open>A power of two has exactly one bit set.\<close>

definition should_report_drop :: "u64 \<Rightarrow> bool" where
  "should_report_drop n \<longleftrightarrow> n = 1 \<or> (n \<noteq> 0 \<and> n AND (n - 1) = 0)"

text \<open>\<open>try_send\<close> fails when the queue is full and when the thread has ended.\<close>

definition push :: "runtime_identity \<Rightarrow> byte list \<Rightarrow> batcher \<Rightarrow> u64 option \<times> batcher" where
  "push sid data b =
     (if running b \<and> length (queued b) < BATCH_QUEUE then
        (None, b\<lparr>queued := queued b @ [Push sid data], accepted_data := accepted_data b @ [(sid, data)]\<rparr>)
      else
        let n = dropped b + 1
        in (Some n, b\<lparr>dropped := n,
             drop_reports := drop_reports b @ (if should_report_drop n then [n] else [])\<rparr>))"

text \<open>\<open>send\<close> waits for room in the queue; the step relation calls this only then.\<close>

definition shutdown_batcher :: "batcher \<Rightarrow> batcher" where
  "shutdown_batcher b = (if running b then b\<lparr>queued := queued b @ [Shutdown]\<rparr> else b)"

section \<open>The thread\<close>

definition emit :: "runtime_identity \<Rightarrow> byte list \<Rightarrow> batcher \<Rightarrow> batcher" where
  "emit sid buf b = b\<lparr>emitted := emitted b @ [\<lparr>identity = sid, data_b64 = base64_encode buf\<rparr>]\<rparr>"

definition emit_entry :: "runtime_identity \<times> pending \<Rightarrow> batcher \<Rightarrow> batcher" where
  "emit_entry e b = (if pend_buf (snd e) = [] then b else emit (fst e) (pend_buf (snd e)) b)"

definition on_push :: "runtime_identity \<Rightarrow> byte list \<Rightarrow> batcher \<Rightarrow> batcher" where
  "on_push sid data b =
     (let entry = (case map_of (pending_map b) sid of Some p \<Rightarrow> p | None \<Rightarrow> \<lparr>pend_buf = [], window_start = None\<rparr>);
          entry = (if window_start entry = None then entry\<lparr>window_start := Some (now_us b)\<rparr> else entry);
          entry = entry\<lparr>pend_buf := pend_buf entry @ data\<rparr>
      in if length (pend_buf entry) \<ge> BATCH_FLUSH_THRESHOLD
         then (emit sid (pend_buf entry) b)\<lparr>pending_map := AList.delete sid (pending_map b)\<rparr>
         else b\<lparr>pending_map := AList.update sid entry (pending_map b)\<rparr>)"

fun queued_push :: "batch_cmd \<Rightarrow> (runtime_identity \<times> byte list) option" where
  "queued_push (Push sid data) = Some (sid, data)"
| "queued_push Shutdown = None"

text \<open>Leaving the loop drops the receiver, and with it whatever is still queued.\<close>

definition drain_all :: "traversal \<Rightarrow> batcher \<Rightarrow> batcher" where
  "drain_all order b =
     (fold emit_entry (order (pending_map b)) b)\<lparr>pending_map := [], running := False, queued := [],
        discarded_data := List.map_filter queued_push (queued b)\<rparr>"

definition expired_keys :: "traversal \<Rightarrow> batcher \<Rightarrow> runtime_identity list" where
  "expired_keys order b =
     map fst (filter (\<lambda>e. case window_start (snd e) of None \<Rightarrow> False | Some s \<Rightarrow> s + BATCH_WINDOW \<le> now_us b)
       (order (pending_map b)))"

definition flush_key :: "runtime_identity \<Rightarrow> batcher \<Rightarrow> batcher" where
  "flush_key sid b =
     (case map_of (pending_map b) sid of
        None \<Rightarrow> b
      | Some p \<Rightarrow> emit_entry (sid, p) (b\<lparr>pending_map := AList.delete sid (pending_map b)\<rparr>))"

definition flush_expired :: "traversal \<Rightarrow> batcher \<Rightarrow> batcher" where
  "flush_expired order b = fold flush_key (expired_keys order b) b"

fun handle_cmd :: "traversal \<Rightarrow> batch_cmd \<Rightarrow> batcher \<Rightarrow> batcher" where
  "handle_cmd order (Push sid data) b = on_push sid data b"
| "handle_cmd order Shutdown b = drain_all order b"

definition deadlines :: "batcher \<Rightarrow> nat list" where
  "deadlines b = List.map_filter (\<lambda>e. map_option (\<lambda>s. s + BATCH_WINDOW) (window_start (snd e))) (pending_map b)"

definition next_deadline :: "batcher \<Rightarrow> nat" where
  "next_deadline b = (case deadlines b of [] \<Rightarrow> now_us b + CHECK_INTERVAL | d # ds \<Rightarrow> fold min ds d)"

definition recv_wait :: "batcher \<Rightarrow> nat" where
  "recv_wait b = (if next_deadline b > now_us b then next_deadline b - now_us b else 0)"

text \<open>
  The handle and the thread, interleaved. A timeout comes after at least the time the thread waits
  for; commands may arrive at any time before it.
\<close>

inductive batcher_step :: "traversal \<Rightarrow> batcher \<Rightarrow> batcher \<Rightarrow> bool" for order where
  pushes: "batcher_step order b (snd (push sid data b))"
| shuts_down: "\<not> running b \<or> length (queued b) < BATCH_QUEUE \<Longrightarrow> batcher_step order b (shutdown_batcher b)"
| receives: "running b \<Longrightarrow> queued b = c # cs \<Longrightarrow> batcher_step order b (handle_cmd order c (b\<lparr>queued := cs\<rparr>))"
| times_out: "running b \<Longrightarrow> queued b = [] \<Longrightarrow> recv_wait b \<le> w \<Longrightarrow>
    batcher_step order b (flush_expired order (b\<lparr>now_us := now_us b + w\<rparr>))"
| disconnects: "running b \<Longrightarrow> queued b = [] \<Longrightarrow> batcher_step order b (drain_all order b)"
| ticks: "batcher_step order b (b\<lparr>now_us := now_us b + w\<rparr>)"

inductive batcher_reach :: "traversal \<Rightarrow> batcher \<Rightarrow> bool" for order where
  start: "batcher_reach order (new_batcher t)"
| step: "batcher_reach order b \<Longrightarrow> batcher_step order b b' \<Longrightarrow> batcher_reach order b'"

section \<open>What is emitted\<close>

definition bytes_of :: "runtime_identity \<Rightarrow> (runtime_identity \<times> byte list) list \<Rightarrow> byte list" where
  "bytes_of sid xs = concat (map snd (filter (\<lambda>x. fst x = sid) xs))"

definition emitted_bytes :: "runtime_identity \<Rightarrow> batcher \<Rightarrow> byte list" where
  "emitted_bytes sid b =
     bytes_of sid (map (\<lambda>d. (identity d, the (base64_decode (data_b64 d)))) (emitted b))"

definition entry_bytes :: "runtime_identity \<Rightarrow> (runtime_identity \<times> pending) list \<Rightarrow> byte list" where
  "entry_bytes sid m = (case map_of m sid of None \<Rightarrow> [] | Some p \<Rightarrow> pend_buf p)"

definition queued_data :: "batcher \<Rightarrow> (runtime_identity \<times> byte list) list" where
  "queued_data b = List.map_filter queued_push (queued b)"

definition pending_ok :: "nat \<Rightarrow> (runtime_identity \<times> pending) list \<Rightarrow> bool" where
  "pending_ok t m \<longleftrightarrow> distinct (map fst m) \<and>
     (\<forall>e\<in>set m. length (pend_buf (snd e)) < BATCH_FLUSH_THRESHOLD \<and>
        (\<exists>s. window_start (snd e) = Some s \<and> s \<le> t))"

definition batcher_ok :: "batcher \<Rightarrow> bool" where
  "batcher_ok b \<longleftrightarrow> pending_ok (now_us b) (pending_map b) \<and>
     length (queued b) \<le> BATCH_QUEUE \<and>
     (\<not> running b \<longrightarrow> pending_map b = [] \<and> queued b = []) \<and> (running b \<longrightarrow> discarded_data b = []) \<and>
     (\<forall>sid. emitted_bytes sid b @ entry_bytes sid (pending_map b) @ bytes_of sid (queued_data b) @
        bytes_of sid (discarded_data b) = bytes_of sid (accepted_data b))"

lemma fold_keeps: "(\<And>x s. f (g x s) = f s) \<Longrightarrow> f (fold g xs s) = f s"
  by (induction xs arbitrary: s) auto

lemma bytes_of_simps [simp]:
  "bytes_of sid [] = []" "bytes_of sid (x # xs) = (if fst x = sid then snd x else []) @ bytes_of sid xs"
  "bytes_of sid (xs @ ys) = bytes_of sid xs @ bytes_of sid ys"
  by (simp_all add: bytes_of_def)

lemma emit_fields [simp]:
  "queued (emit_entry e b) = queued b" "pending_map (emit_entry e b) = pending_map b"
  "now_us (emit_entry e b) = now_us b" "running (emit_entry e b) = running b"
  "accepted_data (emit_entry e b) = accepted_data b" "discarded_data (emit_entry e b) = discarded_data b"
  by (simp_all add: emit_entry_def emit_def)

lemma flush_fields [simp]:
  "queued (flush_key k b) = queued b" "pending_map (flush_key k b) = AList.delete k (pending_map b)"
  "now_us (flush_key k b) = now_us b" "running (flush_key k b) = running b"
  "accepted_data (flush_key k b) = accepted_data b" "discarded_data (flush_key k b) = discarded_data b"
  by (auto simp: flush_key_def map_of_eq_None_iff split: option.splits)

lemma flushes_keep [simp]:
  "queued (fold flush_key ks b) = queued b" "now_us (fold flush_key ks b) = now_us b"
  "running (fold flush_key ks b) = running b" "accepted_data (fold flush_key ks b) = accepted_data b"
  "discarded_data (fold flush_key ks b) = discarded_data b"
  by (intro fold_keeps; simp)+

lemma emits_keep [simp]:
  "accepted_data (fold emit_entry es b) = accepted_data b"
  by (intro fold_keeps; simp)

lemma emitted_bytes_emit:
  "emitted_bytes sid (emit_entry e b) = emitted_bytes sid b @ (if fst e = sid then pend_buf (snd e) else [])"
  by (simp add: emitted_bytes_def emit_entry_def emit_def)

lemma emitted_bytes_only [simp]: "emitted_bytes sid (b\<lparr>pending_map := m\<rparr>) = emitted_bytes sid b"
  "emitted_bytes sid (b\<lparr>queued := q\<rparr>) = emitted_bytes sid b" "emitted_bytes sid (b\<lparr>now_us := t\<rparr>) = emitted_bytes sid b"
  by (simp_all add: emitted_bytes_def)

lemma entry_bytes_Cons:
  "entry_bytes sid (e # m) = (if fst e = sid then pend_buf (snd e) else entry_bytes sid m)"
  by (cases e) (simp add: entry_bytes_def)

lemma entry_bytes_absent: "sid \<notin> fst ` set m \<Longrightarrow> entry_bytes sid m = []"
  by (simp add: entry_bytes_def map_of_eq_None_iff [symmetric])

lemma emitted_bytes_fold:
  "distinct (map fst es) \<Longrightarrow> emitted_bytes sid (fold emit_entry es b) = emitted_bytes sid b @ entry_bytes sid es"
  by (induction es arbitrary: b) (auto simp: entry_bytes_Cons entry_bytes_absent emitted_bytes_emit)

lemma flush_key_bytes:
  "emitted_bytes sid (flush_key k b) @ entry_bytes sid (pending_map (flush_key k b)) =
   emitted_bytes sid b @ entry_bytes sid (pending_map b)"
  by (cases "k = sid")
    (auto simp: flush_key_def emitted_bytes_emit entry_bytes_def delete_conv' split: option.splits)

lemma flush_keys_bytes:
  "emitted_bytes sid (fold flush_key ks b) @ entry_bytes sid (pending_map (fold flush_key ks b)) =
   emitted_bytes sid b @ entry_bytes sid (pending_map b)"
  by (rule fold_keeps [where f = "\<lambda>b. emitted_bytes sid b @ entry_bytes sid (pending_map b)"])
    (rule flush_key_bytes)

lemma pending_flushed: "pending_map (fold flush_key ks b) = fold AList.delete ks (pending_map b)"
  by (induction ks arbitrary: b) auto

lemma deletes_filter: "fold AList.delete ks m = filter (\<lambda>e. fst e \<notin> set ks) m"
  by (induction ks arbitrary: m) (auto simp: AList.delete_eq filter_filter intro!: filter_cong)

section \<open>The invariant\<close>

lemma batcher_okI_same:
  assumes "batcher_ok b" "now_us b \<le> now_us b'" "running b' = running b" "queued b' = queued b"
    "accepted_data b' = accepted_data b" "discarded_data b' = discarded_data b"
    "distinct (map fst (pending_map b'))" "set (pending_map b') \<subseteq> set (pending_map b)"
    "\<And>sid. emitted_bytes sid b' @ entry_bytes sid (pending_map b') =
       emitted_bytes sid b @ entry_bytes sid (pending_map b)"
  shows "batcher_ok b'"
proof -
  have "emitted_bytes sid b' @ entry_bytes sid (pending_map b') @ bytes_of sid (queued_data b') @
        bytes_of sid (discarded_data b') = bytes_of sid (accepted_data b')" for sid
  proof -
    have "bytes_of sid (accepted_data b') = (emitted_bytes sid b @ entry_bytes sid (pending_map b)) @
        bytes_of sid (queued_data b) @ bytes_of sid (discarded_data b)"
      using assms(1,5) by (simp add: batcher_ok_def)
    then show ?thesis using assms(4,6) by (simp add: assms(9) [symmetric] queued_data_def)
  qed
  with assms show ?thesis by (fastforce simp: batcher_ok_def pending_ok_def)
qed

lemma flush_expired_ok:
  assumes "batcher_ok b"
  shows "batcher_ok (flush_expired order b)"
proof (rule batcher_okI_same [OF assms])
  show "distinct (map fst (pending_map (flush_expired order b)))"
    "set (pending_map (flush_expired order b)) \<subseteq> set (pending_map b)"
    using assms
    by (auto simp: batcher_ok_def pending_ok_def flush_expired_def pending_flushed deletes_filter distinct_map_filter)
  show "emitted_bytes sid (flush_expired order b) @ entry_bytes sid (pending_map (flush_expired order b)) =
     emitted_bytes sid b @ entry_bytes sid (pending_map b)" for sid
    unfolding flush_expired_def by (rule flush_keys_bytes)
qed (simp_all add: flush_expired_def)

lemma map_of_order:
  assumes "mset (xs :: ('k \<times> 'v) list) = mset ys" "distinct (map fst ys)"
  shows "distinct (map fst xs)" "map_of xs = map_of ys"
proof -
  have "mset (map fst xs) = mset (map fst ys)" using assms(1) by simp
  then show "distinct (map fst xs)" using assms(2) mset_eq_imp_distinct_iff by blast
  then show "map_of xs = map_of ys"
    using assms mset_eq_setD [OF assms(1)] by (metis map_of_eqI map_of_inject_set)
qed

lemma drain_all_ok:
  assumes "batcher_ok b" "\<And>m. mset (order m) = mset m" "running b"
  shows "batcher_ok (drain_all order b)"
proof -
  have d: "distinct (map fst (pending_map b))" using assms(1) by (simp add: batcher_ok_def pending_ok_def)
  have "emitted_bytes sid (fold emit_entry (order (pending_map b)) b) =
      emitted_bytes sid b @ entry_bytes sid (pending_map b)" for sid
    using map_of_order [OF assms(2) d] by (simp add: emitted_bytes_fold entry_bytes_def)
  then have "emitted_bytes sid (drain_all order b) = emitted_bytes sid b @ entry_bytes sid (pending_map b)" for sid
    by (simp add: drain_all_def emitted_bytes_def)
  with assms(1,3) show ?thesis
    by (auto simp: batcher_ok_def pending_ok_def drain_all_def entry_bytes_def queued_data_def)
qed

lemma on_push_bytes:
  "emitted_bytes k (on_push sid data b) @ entry_bytes k (pending_map (on_push sid data b)) =
   emitted_bytes k b @ entry_bytes k (pending_map b) @ (if k = sid then data else [])"
  by (cases "k = sid")
    (auto simp: on_push_def Let_def emit_def emitted_bytes_def entry_bytes_def update_conv' delete_conv'
      split: option.splits)

lemma on_push_fields:
  "queued (on_push sid data b) = queued b" "now_us (on_push sid data b) = now_us b"
  "running (on_push sid data b) = running b" "accepted_data (on_push sid data b) = accepted_data b"
  "discarded_data (on_push sid data b) = discarded_data b"
  by (simp_all add: on_push_def Let_def emit_def)

lemma on_push_pending:
  assumes "pending_ok (now_us b) (pending_map b)"
  shows "pending_ok (now_us b) (pending_map (on_push sid data b))"
proof -
  have d: "distinct (map fst (pending_map (on_push sid data b)))"
    using assms by (simp add: pending_ok_def on_push_def Let_def emit_def distinct_update distinct_delete)
  have "length (pend_buf p) < BATCH_FLUSH_THRESHOLD \<and> (\<exists>s. window_start p = Some s \<and> s \<le> now_us b)"
    if "map_of (pending_map (on_push sid data b)) k = Some p" for k p
    using that assms
    by (cases "map_of (pending_map b) sid")
      (fastforce simp: pending_ok_def on_push_def Let_def emit_def update_conv' delete_conv'
        split: if_splits dest: map_of_SomeD)+
  with d show ?thesis unfolding pending_ok_def by (metis map_of_is_SomeI prod.collapse)
qed

lemma on_push_ok:
  assumes "batcher_ok b" "running b" "queued b = Push sid data # cs"
  shows "batcher_ok (on_push sid data (b\<lparr>queued := cs\<rparr>))"
proof -
  let ?b = "b\<lparr>queued := cs\<rparr>"
  let ?b' = "on_push sid data ?b"
  have "emitted_bytes k ?b' @ entry_bytes k (pending_map ?b') @ bytes_of k (queued_data ?b') @ [] =
      bytes_of k (accepted_data b)" for k
  proof -
    have "bytes_of k (accepted_data b) =
        (emitted_bytes k ?b @ entry_bytes k (pending_map ?b) @ (if k = sid then data else [])) @ bytes_of k (queued_data ?b')"
      using assms by (auto simp: batcher_ok_def queued_data_def map_filter_simps on_push_fields dest!: spec [of _ k])
    then show ?thesis by (simp only: on_push_bytes [of k sid data ?b, symmetric] append.assoc append_Nil2)
  qed
  with assms on_push_pending [of ?b sid data] show ?thesis
    by (auto simp: batcher_ok_def on_push_fields)
qed

lemma push_ok: "batcher_ok b \<Longrightarrow> batcher_ok (snd (push sid data b))"
  by (auto simp: batcher_ok_def push_def Let_def queued_data_def map_filter_def emitted_bytes_def)

lemma shutdown_ok:
  "batcher_ok b \<Longrightarrow> \<not> running b \<or> length (queued b) < BATCH_QUEUE \<Longrightarrow> batcher_ok (shutdown_batcher b)"
  by (auto simp: batcher_ok_def shutdown_batcher_def queued_data_def map_filter_def emitted_bytes_def)

lemma tick_ok: "batcher_ok b \<Longrightarrow> batcher_ok (b\<lparr>now_us := now_us b + w\<rparr>)"
  by (auto simp: batcher_ok_def pending_ok_def queued_data_def intro: trans_le_add1)

lemma unqueue_shutdown_ok: "batcher_ok b \<Longrightarrow> queued b = Shutdown # cs \<Longrightarrow> batcher_ok (b\<lparr>queued := cs\<rparr>)"
  by (auto simp: batcher_ok_def queued_data_def map_filter_simps)

lemma batcher_step_ok:
  assumes "batcher_step order b b'" "batcher_ok b" "\<And>m. mset (order m) = mset m"
  shows "batcher_ok b'"
  using assms
proof (induction rule: batcher_step.induct)
  case (receives b c cs)
  then show ?case
    by (cases c) (simp_all add: on_push_ok drain_all_ok unqueue_shutdown_ok)
qed (simp_all add: push_ok shutdown_ok flush_expired_ok drain_all_ok tick_ok)

lemma batcher_reach_ok:
  assumes "batcher_reach order b" "\<And>m. mset (order m) = mset m"
  shows "batcher_ok b"
  using assms(1)
proof induction
  case (start t)
  show ?case
    by (simp add: batcher_ok_def pending_ok_def new_batcher_def emitted_bytes_def entry_bytes_def queued_data_def
        map_filter_simps)
qed (rule batcher_step_ok [OF _ _ assms(2)])

text \<open>C32. Whatever the interleaving of pushes, time and the thread, and whatever the order in which the pending
  sessions are traversed: for every session, decoding what has been emitted and appending what is
  still pending and queued gives exactly what was accepted for it, in order. Only what is queued behind a
  shutdown is discarded. The queue never exceeds its 512 places and a pending buffer stays below
  32 KiB; when the thread has ended nothing is pending.\<close>

theorem batcher_lossless:
  assumes "batcher_reach order b" "\<And>m. mset (order m) = mset m"
  shows "emitted_bytes sid b @ entry_bytes sid (pending_map b) @ bytes_of sid (queued_data b) @
      bytes_of sid (discarded_data b) = bytes_of sid (accepted_data b) \<and>
    (running b \<longrightarrow> discarded_data b = []) \<and> (\<not> running b \<longrightarrow> pending_map b = [] \<and> queued b = []) \<and>
    length (queued b) \<le> 512 \<and> length (entry_bytes sid (pending_map b)) < 32768"
proof -
  note ok = batcher_reach_ok [OF assms]
  have "length (entry_bytes sid (pending_map b)) < 32768"
    using ok
    by (auto simp: batcher_ok_def pending_ok_def entry_bytes_def BATCH_FLUSH_THRESHOLD_def split: option.splits
        dest!: map_of_SomeD)
  with ok show ?thesis by (simp add: batcher_ok_def BATCH_QUEUE_def)
qed

definition demo_identity :: runtime_identity where
  "demo_identity = \<lparr>session_id = ''s1'', runtime_id = 1\<rparr>"

definition demo_batcher :: batcher where
  "demo_batcher = snd (push demo_identity [0x68, 0x69] (on_push demo_identity [0x6F]
     ((snd (push demo_identity [0x6F] (new_batcher 0)))\<lparr>queued := []\<rparr>)))"

lemma demo_batcher_reach: "batcher_reach order demo_batcher"
proof -
  let ?b = "snd (push demo_identity [0x6F] (new_batcher 0))"
  have "running ?b" "queued ?b = [Push demo_identity [0x6F]]"
    by (simp_all add: push_def new_batcher_def BATCH_QUEUE_def)
  then have "batcher_step order ?b (on_push demo_identity [0x6F] (?b\<lparr>queued := []\<rparr>))"
    using receives [of ?b "Push demo_identity [0x6F]" "[]"] by simp
  then show ?thesis
    unfolding demo_batcher_def by (blast intro: batcher_reach.intros pushes)
qed

theorem batcher_lossless_witness:
  "emitted_bytes demo_identity demo_batcher @ entry_bytes demo_identity (pending_map demo_batcher) @
     bytes_of demo_identity (queued_data demo_batcher) = [0x6F, 0x68, 0x69] \<and>
   emitted_bytes demo_identity demo_batcher = []"
proof -
  have "running demo_batcher" "accepted_data demo_batcher = [(demo_identity, [0x6F]), (demo_identity, [0x68, 0x69])]"
    "emitted demo_batcher = []"
    by (simp_all add: demo_batcher_def push_def new_batcher_def on_push_def Let_def BATCH_QUEUE_def BATCH_FLUSH_THRESHOLD_def)
  with batcher_lossless [OF demo_batcher_reach [of rev], of demo_identity] show ?thesis
    by (auto simp: emitted_bytes_def)
qed

section \<open>The window\<close>

lemma deadlines_bound: "pending_ok (now_us b) (pending_map b) \<Longrightarrow> d \<in> set (deadlines b) \<Longrightarrow> d \<le> now_us b + BATCH_WINDOW"
  by (auto simp: pending_ok_def deadlines_def map_filter_def)

lemma fold_min_le: "fold min ds (d :: nat) \<le> d"
  by (induction ds arbitrary: d) (simp, metis fold_simps(2) min.bounded_iff)

lemma recv_wait_bound: "batcher_ok b \<Longrightarrow> recv_wait b \<le> BATCH_WINDOW"
  using deadlines_bound [of b "hd (deadlines b)"] fold_min_le [of "tl (deadlines b)" "hd (deadlines b)"]
  by (cases "deadlines b")
    (auto simp: recv_wait_def next_deadline_def batcher_ok_def BATCH_WINDOW_def CHECK_INTERVAL_def)

lemma window_expires:
  assumes "batcher_ok b" "\<And>m. mset (order m) = mset m" "now_us b + BATCH_WINDOW \<le> t"
  shows "pending_map (flush_expired order (b\<lparr>now_us := t\<rparr>)) = []"
proof -
  have "\<exists>s. window_start (snd e) = Some s \<and> s + BATCH_WINDOW \<le> t" if "e \<in> set (pending_map b)" for e
    using assms(1,3) that by (force simp: batcher_ok_def pending_ok_def)
  moreover have "set (order (pending_map b)) = set (pending_map b)" using assms(2) mset_eq_setD by blast
  ultimately have "expired_keys order (b\<lparr>now_us := t\<rparr>) = map fst (order (pending_map b))"
    unfolding expired_keys_def by (subst filter_True) (fastforce split: option.split)+
  moreover note \<open>set (order (pending_map b)) = set (pending_map b)\<close>
  ultimately show ?thesis by (simp add: flush_expired_def pending_flushed deletes_filter)
qed

text \<open>Output does not linger: when nothing is queued, the thread's wait is at most one window of 16 ms, and
  after it everything accepted from any session has been emitted.\<close>

theorem batcher_latency:
  assumes "batcher_reach order b" "\<And>m. mset (order m) = mset m" "running b" "queued b = []"
  shows "\<exists>b'. batcher_step order b b' \<and> now_us b' = now_us b + 16000 \<and> running b' \<and> pending_map b' = [] \<and>
    (\<forall>sid. emitted_bytes sid b' = bytes_of sid (accepted_data b))"
proof -
  let ?t = "now_us b + BATCH_WINDOW"
  let ?b' = "flush_expired order (b\<lparr>now_us := ?t\<rparr>)"
  note ok = batcher_reach_ok [OF assms(1,2)]
  have step: "batcher_step order b ?b'" using times_out assms(3,4) recv_wait_bound [OF ok] by blast
  have f: "running ?b'" "queued ?b' = []" "accepted_data ?b' = accepted_data b" "now_us ?b' = ?t" "discarded_data ?b' = []"
    using assms(3,4) ok by (simp_all add: flush_expired_def batcher_ok_def)
  have "pending_map ?b' = []" using window_expires [OF ok assms(2)] by simp
  moreover have "batcher_ok ?b'" using batcher_step_ok [OF step ok assms(2)] .
  ultimately have "emitted_bytes sid ?b' = bytes_of sid (accepted_data b)" for sid
    using f by (auto simp: batcher_ok_def entry_bytes_def queued_data_def map_filter_simps)
  with step f \<open>pending_map ?b' = []\<close> show ?thesis unfolding BATCH_WINDOW_def by blast
qed

theorem batcher_latency_witness:
  "\<exists>b'. batcher_step rev (demo_batcher\<lparr>queued := [], accepted_data := [(demo_identity, [0x6F])]\<rparr>) b' \<and> pending_map b' = [] \<and>
     emitted_bytes demo_identity b' = [0x6F]"
proof -
  let ?p = "snd (push demo_identity [0x6F] (new_batcher 0))"
  let ?b = "on_push demo_identity [0x6F] (?p\<lparr>queued := []\<rparr>)"
  have "running ?p" "queued ?p = [Push demo_identity [0x6F]]"
    by (simp_all add: push_def new_batcher_def BATCH_QUEUE_def)
  then have "batcher_step rev ?p ?b" using receives [of ?p "Push demo_identity [0x6F]" "[]"] by simp
  then have r: "batcher_reach rev ?b" by (blast intro: batcher_reach.intros pushes)
  have b: "?b = demo_batcher\<lparr>queued := [], accepted_data := [(demo_identity, [0x6F])]\<rparr>" "running ?b" "queued ?b = []"
    "accepted_data ?b = [(demo_identity, [0x6F])]"
    by (simp_all add: demo_batcher_def push_def new_batcher_def on_push_def Let_def BATCH_QUEUE_def BATCH_FLUSH_THRESHOLD_def)
  from batcher_latency [OF r _ b(2,3)] show ?thesis unfolding b(1) [symmetric] b(4) by auto
qed

end
