(* ===== verification/Transport_Stream.thy ===== *)
theory Transport_Stream
  imports TauTerm_Prelude
begin

text \<open>
  The contract between a transport driver and the runtime that owns it: \<open>transport/stream.rs\<close> and
  \<open>transport/error.rs\<close>, with the TCP and the serial driver (\<open>transport/tcp.rs\<close>, \<open>transport/serial.rs\<close>) as
  providers.

  The trait \<open>BlockingByteStream\<close> is the record \<open>stream_ops\<close> of its operations over the state of a driver, as a trait
  object is a table of methods. A socket or a serial port of the operating system is a script of what its
  operations will return, followed by silence; nothing is assumed about it.

  The locale \<open>byte_stream\<close> is the reading half of the contract: a read delivers a prefix of the input and nothing
  else changes it. What holds of any number of reads is proved there once. The locale \<open>stream_driver\<close> adds that the other
  operations leave the input alone; every driver of the development interprets it.
\<close>

section \<open>The transport contract\<close>

datatype error_kind =
    EkTimedOut | EkWouldBlock | EkPermissionDenied | EkNotFound | EkConnectionReset | EkBrokenPipe
  | EkNotConnected | EkUnexpectedEof | EkInterrupted | EkWriteZero | EkOther

record io_error =
  io_kind :: error_kind
  io_message :: message

datatype transport_error_kind =
    TkResolve | TkConnect | TkBind | TkTimeout | TkPermissionDenied | TkDeviceNotFound | TkDeviceBusy
  | TkRemoteClosed | TkConnectionReset | TkCancelled | TkBusy | TkUnsupported | TkInvalidConfiguration | TkIo

record transport_error =
  te_kind :: transport_error_kind
  te_operation :: string
  te_message :: message

definition transport_error_io :: "string \<Rightarrow> io_error \<Rightarrow> transport_error" where
  "transport_error_io operation error =
     \<lparr>te_kind = (case io_kind error of
          EkTimedOut \<Rightarrow> TkTimeout | EkWouldBlock \<Rightarrow> TkTimeout
        | EkPermissionDenied \<Rightarrow> TkPermissionDenied
        | EkNotFound \<Rightarrow> TkDeviceNotFound
        | EkConnectionReset \<Rightarrow> TkConnectionReset | EkBrokenPipe \<Rightarrow> TkConnectionReset
        | EkUnexpectedEof \<Rightarrow> TkRemoteClosed
        | _ \<Rightarrow> TkIo),
      te_operation = operation, te_message = io_message error\<rparr>"

text \<open>\<open>ReadStatus\<close>; the bytes are those the read left at the front of the caller's buffer.\<close>

datatype read_status = StreamData "byte list" | StreamIdle | StreamEof

fun delivered :: "(read_status, transport_error) result \<Rightarrow> byte list" where
  "delivered (Ok (StreamData bs)) = bs"
| "delivered _ = []"

text \<open>A sequence of reads with buffers of the given sizes.\<close>

fun run_reads :: "(nat \<Rightarrow> 's \<Rightarrow> 'r \<times> 's) \<Rightarrow> nat list \<Rightarrow> 's \<Rightarrow> 'r list \<times> 's" where
  "run_reads read [] s = ([], s)"
| "run_reads read (n # ns) s =
     (let (r, s') = read n s; (rs, s'') = run_reads read ns s' in (r # rs, s''))"

locale byte_stream =
  fixes stream_read :: "nat \<Rightarrow> 's \<Rightarrow> (read_status, transport_error) result \<times> 's"
    and stream_input :: "'s \<Rightarrow> byte list"
  assumes read_delivers: "stream_read n s = (r, s') \<Longrightarrow> delivered r @ stream_input s' = stream_input s"
    and read_fits: "stream_read n s = (r, s') \<Longrightarrow> length (delivered r) \<le> n"
begin

lemma run_reads_deliver:
  "run_reads stream_read ns s = (rs, s') \<Longrightarrow> concat (map delivered rs) @ stream_input s' = stream_input s \<and>
     list_all2 (\<lambda>r n. length (delivered r) \<le> n) rs ns"
proof (induction ns arbitrary: s rs)
  case (Cons n ns)
  obtain r t where r: "stream_read n s = (r, t)" by fastforce
  obtain qs where qs: "run_reads stream_read ns t = (qs, s')" "rs = r # qs"
    using Cons.prems r by (auto split: prod.splits)
  from Cons.IH [OF qs(1)] read_delivers [OF r] read_fits [OF r] show ?case
    by (simp add: qs(2) flip: \<open>delivered r @ _ = _\<close>)
qed simp

end

section \<open>The trait\<close>

record close_metadata =
  cm_exit_code :: "u32 option"
  cm_signal :: "string option"

definition no_metadata :: close_metadata where
  "no_metadata = \<lparr>cm_exit_code = None, cm_signal = None\<rparr>"

definition transport_error_new :: "transport_error_kind \<Rightarrow> string \<Rightarrow> message \<Rightarrow> transport_error" where
  "transport_error_new kind operation m = \<lparr>te_kind = kind, te_operation = operation, te_message = m\<rparr>"

definition transport_busy :: "string \<Rightarrow> message \<Rightarrow> transport_error" where
  "transport_busy operation m = transport_error_new TkBusy operation m"

definition transport_unsupported :: "string \<Rightarrow> message \<Rightarrow> transport_error" where
  "transport_unsupported operation m = transport_error_new TkUnsupported operation m"

text \<open>\<open>Display\<close> of an error: the operation and the message.\<close>

definition transport_error_text :: "transport_error \<Rightarrow> message" where
  "transport_error_text e = Fmt ''{}: {}'' [Msg (te_operation e), te_message e] []"

record 's stream_ops =
  ops_read :: "nat \<Rightarrow> 's \<Rightarrow> (read_status, transport_error) result \<times> 's"
  ops_write_all :: "byte list \<Rightarrow> 's \<Rightarrow> (unit, transport_error) result \<times> 's"
  ops_flush :: "'s \<Rightarrow> (unit, transport_error) result \<times> 's"
  ops_shutdown :: "'s \<Rightarrow> (unit, transport_error) result \<times> 's"
  ops_resize_terminal :: "u32 \<Rightarrow> u32 \<Rightarrow> 's \<Rightarrow> (unit, transport_error) result \<times> 's"
  ops_terminal_control :: bool
  ops_close_metadata :: "'s \<Rightarrow> close_metadata"

text \<open>The default methods of the trait.\<close>

definition default_resize :: "u32 \<Rightarrow> u32 \<Rightarrow> 's \<Rightarrow> (unit, transport_error) result \<times> 's" where
  "default_resize cols rows s =
     (Err (transport_unsupported ''resize_terminal'' (Msg ''transport has no terminal-control capability'')), s)"

locale stream_driver = byte_stream "ops_read ops" stream_input
  for ops :: "'s stream_ops" and stream_input :: "'s \<Rightarrow> byte list" +
  assumes write_keeps: "stream_input (snd (ops_write_all ops data s)) = stream_input s"
    and flush_keeps: "stream_input (snd (ops_flush ops s)) = stream_input s"
    and shutdown_keeps: "stream_input (snd (ops_shutdown ops s)) = stream_input s"
    and resize_keeps: "stream_input (snd (ops_resize_terminal ops cols rows s)) = stream_input s"

section \<open>Operating system streams\<close>

text \<open>
  A TCP socket or a serial port: what its reads return, the failures of its writes with what got through before
  them, and those of its flushes and of its shutdown. A read takes at most the buffer's size.
\<close>

record os_stream =
  os_reads :: "(io_error + byte list) list"
  os_write_errors :: "(io_error \<times> nat) option list"
  os_flush_errors :: "io_error option list"
  os_shutdown_error :: "io_error option"
  os_written :: "byte list"

definition os_read :: "nat \<Rightarrow> os_stream \<Rightarrow> (io_error + byte list) \<times> os_stream" where
  "os_read n s =
     (case os_reads s of
        [] \<Rightarrow> (Inl \<lparr>io_kind = EkTimedOut, io_message = Msg ''timed out''\<rparr>, s)
      | Inl e # rs \<Rightarrow> (Inl e, s\<lparr>os_reads := rs\<rparr>)
      | Inr bs # rs \<Rightarrow>
          (Inr (take n bs), s\<lparr>os_reads := (if length bs \<le> n then rs else Inr (drop n bs) # rs)\<rparr>))"

definition os_write_all :: "byte list \<Rightarrow> os_stream \<Rightarrow> (unit, io_error) result \<times> os_stream" where
  "os_write_all data s =
     (let s1 = s\<lparr>os_write_errors := tl (os_write_errors s)\<rparr> in
      case os_write_errors s of
        Some (e, k) # _ \<Rightarrow> (Err e, s1\<lparr>os_written := os_written s @ take k data\<rparr>)
      | _ \<Rightarrow> (Ok (), s1\<lparr>os_written := os_written s @ data\<rparr>))"

definition os_flush :: "os_stream \<Rightarrow> (unit, io_error) result \<times> os_stream" where
  "os_flush s =
     (case os_flush_errors s of
        Some e # es \<Rightarrow> (Err e, s\<lparr>os_flush_errors := es\<rparr>)
      | es \<Rightarrow> (Ok (), s\<lparr>os_flush_errors := tl es\<rparr>))"

definition os_input :: "os_stream \<Rightarrow> byte list" where
  "os_input s = concat (map (\<lambda>r. case r of Inl _ \<Rightarrow> [] | Inr bs \<Rightarrow> bs) (os_reads s))"

section \<open>The TCP driver\<close>

definition tcp_driver_read :: "nat \<Rightarrow> os_stream \<Rightarrow> (read_status, transport_error) result \<times> os_stream" where
  "tcp_driver_read n s =
     (case os_read n s of
        (Inr bs, s1) \<Rightarrow> (Ok (if bs = [] then StreamEof else StreamData bs), s1)
      | (Inl e, s1) \<Rightarrow>
          (if io_kind e = EkTimedOut \<or> io_kind e = EkWouldBlock then Ok StreamIdle
           else Err (transport_error_io ''tcp_read'' e), s1))"

definition tcp_driver_write_all :: "byte list \<Rightarrow> os_stream \<Rightarrow> (unit, transport_error) result \<times> os_stream" where
  "tcp_driver_write_all data s = (let (r, s1) = os_write_all data s in (map_err (transport_error_io ''tcp_write'') r, s1))"

definition tcp_driver_flush :: "os_stream \<Rightarrow> (unit, transport_error) result \<times> os_stream" where
  "tcp_driver_flush s = (let (r, s1) = os_flush s in (map_err (transport_error_io ''tcp_flush'') r, s1))"

definition tcp_driver_shutdown :: "os_stream \<Rightarrow> (unit, transport_error) result \<times> os_stream" where
  "tcp_driver_shutdown s =
     (case os_shutdown_error s of
        None \<Rightarrow> Ok ()
      | Some e \<Rightarrow> if io_kind e = EkNotConnected then Ok () else Err (transport_error_io ''tcp_shutdown'' e), s)"

definition tcp_ops :: "os_stream stream_ops" where
  "tcp_ops = \<lparr>ops_read = tcp_driver_read, ops_write_all = tcp_driver_write_all, ops_flush = tcp_driver_flush,
     ops_shutdown = tcp_driver_shutdown, ops_resize_terminal = default_resize, ops_terminal_control = False,
     ops_close_metadata = (\<lambda>_. no_metadata)\<rparr>"

section \<open>The serial driver\<close>

definition serial_driver_read :: "nat \<Rightarrow> os_stream \<Rightarrow> (read_status, transport_error) result \<times> os_stream" where
  "serial_driver_read n s =
     (case os_read n s of
        (Inr bs, s1) \<Rightarrow> (Ok (if bs = [] then StreamIdle else StreamData bs), s1)
      | (Inl e, s1) \<Rightarrow>
          (if io_kind e = EkTimedOut \<or> io_kind e = EkWouldBlock then Ok StreamIdle
           else Err (transport_error_io ''serial_read'' e), s1))"

definition serial_driver_write_all :: "byte list \<Rightarrow> os_stream \<Rightarrow> (unit, transport_error) result \<times> os_stream" where
  "serial_driver_write_all data s =
     (let (r, s1) = os_write_all data s in (map_err (transport_error_io ''serial_write'') r, s1))"

definition serial_driver_flush :: "os_stream \<Rightarrow> (unit, transport_error) result \<times> os_stream" where
  "serial_driver_flush s = (let (r, s1) = os_flush s in (map_err (transport_error_io ''serial_flush'') r, s1))"

definition serial_driver_shutdown :: "os_stream \<Rightarrow> (unit, transport_error) result \<times> os_stream" where
  "serial_driver_shutdown s = (Ok (), s)"

definition serial_ops :: "os_stream stream_ops" where
  "serial_ops = \<lparr>ops_read = serial_driver_read, ops_write_all = serial_driver_write_all, ops_flush = serial_driver_flush,
     ops_shutdown = serial_driver_shutdown, ops_resize_terminal = default_resize, ops_terminal_control = False,
     ops_close_metadata = (\<lambda>_. no_metadata)\<rparr>"

lemma os_read_delivers:
  "os_read n s = (r, s') \<Longrightarrow> (case r of Inl _ \<Rightarrow> [] | Inr bs \<Rightarrow> bs) @ os_input s' = os_input s \<and>
     (\<forall>bs. r = Inr bs \<longrightarrow> length bs \<le> n)"
  by (auto simp: os_read_def os_input_def split: list.splits sum.splits if_splits)

lemma os_keeps [simp]:
  "os_input (snd (os_write_all data s)) = os_input s" "os_input (snd (os_flush s)) = os_input s"
  by (auto simp: os_write_all_def os_flush_def os_input_def Let_def split: list.split option.split)

interpretation tcp: stream_driver tcp_ops os_input
proof
  fix n s r s'
  assume "ops_read tcp_ops n s = (r, s')"
  then show "delivered r @ os_input s' = os_input s" "length (delivered r) \<le> n"
    using os_read_delivers [of n s "fst (os_read n s)" "snd (os_read n s)"]
    by (auto simp: tcp_ops_def tcp_driver_read_def split: prod.splits sum.splits if_splits)
qed (simp_all add: tcp_ops_def tcp_driver_write_all_def tcp_driver_flush_def tcp_driver_shutdown_def default_resize_def
    split_beta Let_def)

interpretation serial: stream_driver serial_ops os_input
proof
  fix n s r s'
  assume "ops_read serial_ops n s = (r, s')"
  then show "delivered r @ os_input s' = os_input s" "length (delivered r) \<le> n"
    using os_read_delivers [of n s "fst (os_read n s)" "snd (os_read n s)"]
    by (auto simp: serial_ops_def serial_driver_read_def split: prod.splits sum.splits if_splits)
qed (simp_all add: serial_ops_def serial_driver_write_all_def serial_driver_flush_def serial_driver_shutdown_def
    default_resize_def split_beta Let_def)

end
