(* ===== verification/Telnet_Driver.thy ===== *)
theory Telnet_Driver
  imports Transport_Stream
begin

text \<open>
  The Telnet terminal: \<open>plugins/telnet/channel.rs\<close> with the negotiation and the echo callback of
  \<open>plugins/telnet/mod.rs\<close>, over the transport contract of \<open>transport/stream.rs\<close> and \<open>transport/error.rs\<close>.

  The \<open>telnet\<close> crate, which parses and escapes the protocol, is a parameter: the driver's fields
  \<open>peeks\<close>, \<open>telnet_events\<close>, \<open>write_results\<close> and \<open>subneg_errors\<close> are scripts of what the socket
  probe and the crate will return, followed by silence on the reading side and success on the writing
  side; what is handed to the crate is recorded. Nothing is assumed about the scripts.
\<close>

section \<open>The driver\<close>

datatype telnet_action = Will | Wont | Do | Dont

text \<open>The options the driver names; \<open>OtherOption\<close> stands for every other one of the crate.\<close>

datatype telnet_option = Echo | SuppressGoAhead | TransmitBinary | NAWS | OtherOption byte

datatype telnet_event =
    EvData "byte list" | EvNegotiation telnet_action telnet_option
  | EvSubnegotiation telnet_option "byte list" | EvUnknownIAC byte
  | EvTimedOut | EvNoData | EvError message

record telnet_driver =
  peeks :: "(io_error + nat) list"
  telnet_events :: "(io_error + telnet_event) list"
  write_results :: "(io_error + nat) list"
  subneg_errors :: "message option list"
  negotiated :: "(telnet_action \<times> telnet_option) list"
  subnegotiated :: "(telnet_option \<times> byte list) list"
  written :: "byte list"
  poll_timeouts :: "nat list"
  session_slot :: "string option"
  echo_events :: "(string \<times> bool) list"
  clean_buffer :: "byte list"
  local_echo :: bool
  connected :: bool

definition READ_TIMEOUT :: nat where "READ_TIMEOUT = 50"

definition negotiate :: "telnet_action \<Rightarrow> telnet_option \<Rightarrow> telnet_driver \<Rightarrow> telnet_driver" where
  "negotiate action opt d = d\<lparr>negotiated := negotiated d @ [(action, opt)]\<rparr>"

text \<open>The callback the adapter injects: it reports to the session that is attached, if there is one.\<close>

definition on_echo_change :: "bool \<Rightarrow> telnet_driver \<Rightarrow> telnet_driver" where
  "on_echo_change echo d =
     (case session_slot d of
        Some sid \<Rightarrow> d\<lparr>echo_events := echo_events d @ [(sid, echo)]\<rparr>
      | None \<Rightarrow> d)"

definition on_attached :: "string \<Rightarrow> telnet_driver \<Rightarrow> telnet_driver" where
  "on_attached sid d = d\<lparr>session_slot := Some sid\<rparr>"

fun negotiation_arm :: "telnet_action \<Rightarrow> telnet_option \<Rightarrow> telnet_driver \<Rightarrow> telnet_driver" where
  "negotiation_arm Will Echo d = negotiate Do Echo (d\<lparr>local_echo := False\<rparr>)"
| "negotiation_arm Wont Echo d = negotiate Dont Echo (d\<lparr>local_echo := True\<rparr>)"
| "negotiation_arm Do Echo d = negotiate Wont Echo d"
| "negotiation_arm Will SuppressGoAhead d = negotiate Do SuppressGoAhead d"
| "negotiation_arm Do SuppressGoAhead d = negotiate Will SuppressGoAhead d"
| "negotiation_arm Will TransmitBinary d = negotiate Do TransmitBinary d"
| "negotiation_arm Do TransmitBinary d = negotiate Will TransmitBinary d"
| "negotiation_arm Do NAWS d = negotiate Will NAWS d"
| "negotiation_arm Will NAWS d = negotiate Dont NAWS d"
| "negotiation_arm Will opt d = negotiate Dont opt d"
| "negotiation_arm Do opt d = negotiate Wont opt d"
| "negotiation_arm Wont opt d = d"
| "negotiation_arm Dont opt d = d"

definition handle_negotiation :: "telnet_action \<Rightarrow> telnet_option \<Rightarrow> telnet_driver \<Rightarrow> telnet_driver" where
  "handle_negotiation action opt d =
     (let prev_echo = local_echo d; d = negotiation_arm action opt d
      in if local_echo d \<noteq> prev_echo then on_echo_change (local_echo d) d else d)"

definition telnet_new :: "telnet_driver \<Rightarrow> telnet_driver" where
  "telnet_new crate = crate\<lparr>session_slot := None, echo_events := [], clean_buffer := [], local_echo := False, connected := True\<rparr>"

text \<open>What \<open>open_connection\<close> announces once the socket is connected.\<close>

definition initial_negotiation :: "telnet_driver \<Rightarrow> telnet_driver" where
  "initial_negotiation d =
     negotiate Do TransmitBinary (negotiate Will TransmitBinary (negotiate Do SuppressGoAhead (negotiate Will NAWS d)))"

definition serve_clean :: "nat \<Rightarrow> telnet_driver \<Rightarrow> (byte list, io_error) result \<times> telnet_driver" where
  "serve_clean len d =
     (let n = min (length (clean_buffer d)) len
      in (Ok (take n (clean_buffer d)), d\<lparr>clean_buffer := drop n (clean_buffer d)\<rparr>))"

section \<open>Reading\<close>

lemma negotiation_keeps [simp]:
  "telnet_events (negotiation_arm a opt d) = telnet_events d" "clean_buffer (negotiation_arm a opt d) = clean_buffer d"
  "session_slot (negotiation_arm a opt d) = session_slot d" "echo_events (negotiation_arm a opt d) = echo_events d"
  by (cases "(a, opt, d)" rule: negotiation_arm.cases; simp add: negotiate_def)+

lemma handle_negotiation_keeps [simp]:
  "telnet_events (handle_negotiation a opt d) = telnet_events d"
  "clean_buffer (handle_negotiation a opt d) = clean_buffer d"
  "session_slot (handle_negotiation a opt d) = session_slot d"
  by (simp_all add: handle_negotiation_def on_echo_change_def Let_def split: option.splits)

text \<open>
  The draining loop of \<open>read\<close>, polling with \<open>timeout\<close> milliseconds: it ends quietly, or with the error
  that the read reports unless data is waiting.
\<close>

function drain_events :: "nat \<Rightarrow> telnet_driver \<Rightarrow> io_error option \<times> telnet_driver" where
  "drain_events timeout d =
     (let d1 = d\<lparr>telnet_events := tl (telnet_events d), poll_timeouts := poll_timeouts d @ [timeout]\<rparr> in
      case telnet_events d of
        [] \<Rightarrow> (None, d1)
      | Inr (EvData bs) # _ \<Rightarrow> drain_events 1 (d1\<lparr>clean_buffer := clean_buffer d1 @ bs\<rparr>)
      | Inr (EvNegotiation action opt) # _ \<Rightarrow> drain_events 1 (handle_negotiation action opt d1)
      | Inr (EvSubnegotiation _ _) # _ \<Rightarrow> drain_events 1 d1
      | Inr (EvUnknownIAC _) # _ \<Rightarrow> drain_events 1 d1
      | Inr EvTimedOut # _ \<Rightarrow> (None, d1)
      | Inr EvNoData # _ \<Rightarrow> (None, d1)
      | Inr (EvError e) # _ \<Rightarrow>
          (Some \<lparr>io_kind = EkOther, io_message = Fmt ''Telnet protocol error: {}'' [e] []\<rparr>, d1\<lparr>connected := False\<rparr>)
      | Inl e # _ \<Rightarrow>
          if io_kind e = EkTimedOut \<or> io_kind e = EkWouldBlock then (None, d1)
          else (Some e, d1\<lparr>connected := False\<rparr>))"
  by pat_completeness auto
termination
  by (relation "measure (\<lambda>(t, d). length (telnet_events d))") auto

declare drain_events.simps [simp del]

definition next_peek :: "telnet_driver \<Rightarrow> io_error + nat" where
  "next_peek d = (case peeks d of [] \<Rightarrow> Inl \<lparr>io_kind = EkWouldBlock, io_message = Msg ''would block''\<rparr> | p # _ \<Rightarrow> p)"

definition telnet_read :: "nat \<Rightarrow> telnet_driver \<Rightarrow> (byte list, io_error) result \<times> telnet_driver" where
  "telnet_read len d =
     (if clean_buffer d \<noteq> [] then serve_clean len d
      else let d1 = d\<lparr>peeks := tl (peeks d)\<rparr> in
        case next_peek d of
          Inl e \<Rightarrow>
            if io_kind e = EkWouldBlock \<or> io_kind e = EkTimedOut then (Ok [], d1)
            else (Err e, d1\<lparr>connected := False\<rparr>)
        | Inr n \<Rightarrow>
            if n = 0 then
              (Err \<lparr>io_kind = EkUnexpectedEof, io_message = Msg ''Telnet server disconnected''\<rparr>, d1\<lparr>connected := False\<rparr>)
            else
              (case drain_events READ_TIMEOUT d1 of
                 (None, d2) \<Rightarrow> serve_clean len d2
               | (Some e, d2) \<Rightarrow> if clean_buffer d2 \<noteq> [] then serve_clean len d2 else (Err e, d2)))"

definition telnet_stream_read :: "nat \<Rightarrow> telnet_driver \<Rightarrow> (read_status, transport_error) result \<times> telnet_driver" where
  "telnet_stream_read len d =
     (case telnet_read len d of
        (Ok bs, d1) \<Rightarrow> (Ok (if bs = [] then StreamIdle else StreamData bs), d1)
      | (Err e, d1) \<Rightarrow>
          (if io_kind e = EkUnexpectedEof then Ok StreamEof
           else if io_kind e = EkTimedOut \<or> io_kind e = EkWouldBlock then Ok StreamIdle
           else Err (transport_error_io ''telnet_read'' e), d1)
      | (Panic, d1) \<Rightarrow> (Panic, d1))"

section \<open>Writing and control\<close>

text \<open>The crate's \<open>write\<close> reports how many bytes of the caller's it has taken.\<close>

definition telnet_write :: "byte list \<Rightarrow> telnet_driver \<Rightarrow> (io_error + nat) \<times> telnet_driver" where
  "telnet_write buf d =
     (case write_results d of
        [] \<Rightarrow> (Inr (length buf), d\<lparr>written := written d @ buf\<rparr>)
      | Inr n # ws \<Rightarrow> (Inr n, d\<lparr>write_results := ws, written := written d @ take n buf\<rparr>)
      | Inl e # ws \<Rightarrow> (Inl e, d\<lparr>write_results := ws\<rparr>))"

text \<open>\<open>Write::write_all\<close>: repeat until nothing is left, again after an interruption.\<close>

function write_all :: "byte list \<Rightarrow> telnet_driver \<Rightarrow> (unit, io_error) result \<times> telnet_driver" where
  "write_all buf d =
     (if buf = [] then (Ok (), d)
      else case telnet_write buf d of
        (Inr n, d1) \<Rightarrow>
          if n = 0 then (Err \<lparr>io_kind = EkWriteZero, io_message = Msg ''failed to write whole buffer''\<rparr>, d1)
          else if length buf < n then (Panic, d1)
          else write_all (drop n buf) d1
      | (Inl e, d1) \<Rightarrow> if io_kind e = EkInterrupted then write_all buf d1 else (Err e, d1))"
  by pat_completeness auto
termination
  by (relation "measure (\<lambda>(buf, d). length buf + length (write_results d))")
    (auto simp: telnet_write_def split: list.splits sum.splits)

declare write_all.simps [simp del]

definition telnet_stream_write_all :: "byte list \<Rightarrow> telnet_driver \<Rightarrow> (unit, transport_error) result \<times> telnet_driver" where
  "telnet_stream_write_all data d =
     (let (r, d1) = write_all data d in (map_err (transport_error_io ''telnet_write'') r, d1))"

text \<open>Flushing a TCP socket does nothing and succeeds.\<close>

definition telnet_stream_flush :: "telnet_driver \<Rightarrow> (unit, transport_error) result \<times> telnet_driver" where
  "telnet_stream_flush d = (Ok (), d)"

definition telnet_shutdown :: "telnet_driver \<Rightarrow> (unit, transport_error) result \<times> telnet_driver" where
  "telnet_shutdown d = (Ok (), d\<lparr>connected := False\<rparr>)"

definition clamp_u16 :: "u32 \<Rightarrow> u16" where
  "clamp_u16 n = ucast (if n < 1 then 1 else if 65535 < n then 65535 else n)"

definition resize_terminal :: "u32 \<Rightarrow> u32 \<Rightarrow> telnet_driver \<Rightarrow> (unit, transport_error) result \<times> telnet_driver" where
  "resize_terminal cols rows d =
     (let w = clamp_u16 cols; h = clamp_u16 rows;
          payload = [ucast (drop_bit 8 w), ucast (w AND 0xFF), ucast (drop_bit 8 h), ucast (h AND 0xFF)];
          d1 = d\<lparr>subnegotiated := subnegotiated d @ [(NAWS, payload)], subneg_errors := tl (subneg_errors d)\<rparr>
      in (case subneg_errors d of
            Some m # _ \<Rightarrow> Err \<lparr>te_kind = TkIo, te_operation = ''telnet_naws'', te_message = m\<rparr>
          | _ \<Rightarrow> Ok (), d1))"

section \<open>What the driver makes of the events\<close>

definition payload :: "(io_error + telnet_event) list \<Rightarrow> byte list" where
  "payload es = concat (map (\<lambda>e. case e of Inr (EvData bs) \<Rightarrow> bs | _ \<Rightarrow> []) es)"

definition requests :: "(io_error + telnet_event) list \<Rightarrow> (telnet_action \<times> telnet_option) list" where
  "requests es = List.map_filter (\<lambda>e. case e of Inr (EvNegotiation a opt) \<Rightarrow> Some (a, opt) | _ \<Rightarrow> None) es"

text \<open>The policy as the comment of \<open>handle_negotiation\<close> states it, option by option.\<close>

fun telnet_reply :: "telnet_action \<times> telnet_option \<Rightarrow> (telnet_action \<times> telnet_option) option" where
  "telnet_reply (Will, opt) = Some (if opt \<in> {Echo, SuppressGoAhead, TransmitBinary} then Do else Dont, opt)"
| "telnet_reply (Do, opt) = Some (if opt \<in> {SuppressGoAhead, TransmitBinary, NAWS} then Will else Wont, opt)"
| "telnet_reply (Wont, opt) = (if opt = Echo then Some (Dont, Echo) else None)"
| "telnet_reply (Dont, opt) = None"

definition echo_after :: "telnet_action \<times> telnet_option \<Rightarrow> bool \<Rightarrow> bool" where
  "echo_after r echo = (if r = (Will, Echo) then False else if r = (Wont, Echo) then True else echo)"

fun echo_changes :: "bool \<Rightarrow> (telnet_action \<times> telnet_option) list \<Rightarrow> bool list" where
  "echo_changes echo [] = []"
| "echo_changes echo (r # rs) =
     (if echo_after r echo = echo then [] else [echo_after r echo]) @ echo_changes (echo_after r echo) rs"

definition tracked :: "telnet_driver \<Rightarrow> (io_error + telnet_event) list \<Rightarrow> telnet_driver \<Rightarrow> bool" where
  "tracked d es d' \<longleftrightarrow> telnet_events d = es @ telnet_events d' \<and> session_slot d' = session_slot d \<and>
     negotiated d' = negotiated d @ List.map_filter telnet_reply (requests es) \<and>
     local_echo d' = fold echo_after (requests es) (local_echo d) \<and>
     echo_events d' = echo_events d @
       (case session_slot d of None \<Rightarrow> [] | Some sid \<Rightarrow> map (Pair sid) (echo_changes (local_echo d) (requests es)))"

lemma handle_negotiation_effect:
  "negotiated (handle_negotiation a opt d) = negotiated d @ (case telnet_reply (a, opt) of None \<Rightarrow> [] | Some r \<Rightarrow> [r])"
  "local_echo (handle_negotiation a opt d) = echo_after (a, opt) (local_echo d)"
  "echo_events (handle_negotiation a opt d) = echo_events d @
     (case session_slot d of None \<Rightarrow> [] | Some sid \<Rightarrow>
        if echo_after (a, opt) (local_echo d) = local_echo d then [] else [(sid, echo_after (a, opt) (local_echo d))])"
  by (cases a; cases opt; auto simp: handle_negotiation_def negotiate_def on_echo_change_def echo_after_def Let_def
      split: option.splits)+

lemma requests_simps [simp]:
  "requests [] = []" "requests (es @ fs) = requests es @ requests fs"
  "requests (Inr (EvNegotiation a opt) # es) = (a, opt) # requests es"
  "requests (Inr (EvData bs) # es) = requests es" "requests (Inr (EvSubnegotiation opt bs) # es) = requests es"
  "requests (Inr (EvUnknownIAC c) # es) = requests es" "requests (Inr EvTimedOut # es) = requests es"
  "requests (Inr EvNoData # es) = requests es" "requests (Inr (EvError m) # es) = requests es"
  "requests (Inl e # es) = requests es"
  by (simp_all add: requests_def map_filter_def)

lemma echo_changes_append:
  "echo_changes e (rs @ qs) = echo_changes e rs @ echo_changes (fold echo_after rs e) qs"
  by (induction rs arbitrary: e) auto

lemma echo_changes_alternate:
  "successively (\<noteq>) (e # echo_changes e rs) \<and> last (e # echo_changes e rs) = fold echo_after rs e"
proof (induction rs arbitrary: e)
  case (Cons r rs)
  obtain e' where "echo_after r e = e'" by simp
  with Cons [of e'] show ?case by (cases "e' = e") (auto split: if_splits)
qed simp

lemma tracked_refl: "tracked d [] d"
  by (simp add: tracked_def map_filter_simps split: option.splits)

lemma tracked_trans: "tracked d es d1 \<Longrightarrow> tracked d1 fs d2 \<Longrightarrow> tracked d (es @ fs) d2"
  by (auto simp: tracked_def map_filter_def echo_changes_append split: option.splits)

lemma tracked_fields:
  assumes "tracked d es d'"
    "telnet_events d'' = telnet_events d'" "session_slot d'' = session_slot d'" "negotiated d'' = negotiated d'"
    "local_echo d'' = local_echo d'" "echo_events d'' = echo_events d'"
  shows "tracked d es d''"
  using assms by (simp add: tracked_def)

lemma payload_simps [simp]:
  "payload [] = []" "payload (es @ fs) = payload es @ payload fs"
  "payload (e # es) = (case e of Inr (EvData bs) \<Rightarrow> bs | _ \<Rightarrow> []) @ payload es"
  by (simp_all add: payload_def)

definition drained :: "telnet_driver \<Rightarrow> telnet_driver \<Rightarrow> bool" where
  "drained d d' \<longleftrightarrow> (\<exists>es. tracked d es d' \<and> clean_buffer d' = clean_buffer d @ payload es)"

lemma drained_trans: "drained d d1 \<Longrightarrow> drained d1 d2 \<Longrightarrow> drained d d2"
  unfolding drained_def by (metis append.assoc payload_simps(2) tracked_trans)

lemma drained_quiet:
  "requests (take 1 (telnet_events d)) = [] \<Longrightarrow> telnet_events d' = drop 1 (telnet_events d) \<Longrightarrow> session_slot d' = session_slot d \<Longrightarrow> negotiated d' = negotiated d \<Longrightarrow>
   local_echo d' = local_echo d \<Longrightarrow> echo_events d' = echo_events d \<Longrightarrow>
   clean_buffer d' = clean_buffer d @ payload (take 1 (telnet_events d)) \<Longrightarrow> drained d d'"
  unfolding drained_def tracked_def
  by (intro exI [of _ "take 1 (telnet_events d)"]) (simp add: map_filter_simps split: option.split)

lemma drained_negotiation:
  "telnet_events d = Inr (EvNegotiation a opt) # telnet_events d' \<Longrightarrow> session_slot d' = session_slot d \<Longrightarrow>
   negotiated d' = negotiated d \<Longrightarrow> local_echo d' = local_echo d \<Longrightarrow> echo_events d' = echo_events d \<Longrightarrow>
   clean_buffer d' = clean_buffer d \<Longrightarrow> drained d (handle_negotiation a opt d')"
  unfolding drained_def tracked_def
  by (intro exI [of _ "[Inr (EvNegotiation a opt)]"])
    (auto simp: handle_negotiation_effect map_filter_simps split: option.split)

lemma drain_events_spec:
  "drain_events timeout d = (r, d') \<Longrightarrow> drained d d' \<and> (r \<noteq> None \<longrightarrow> \<not> connected d')"
proof (induction timeout d arbitrary: r d' rule: drain_events.induct)
  case (1 timeout d)
  let ?d = "d\<lparr>telnet_events := tl (telnet_events d), poll_timeouts := poll_timeouts d @ [timeout]\<rparr>"
  note run = "1.prems" [unfolded drain_events.simps [of timeout d] Let_def]
  show ?case
  proof (cases "telnet_events d")
    case Nil
    with run show ?thesis by (auto intro!: drained_quiet)
  next
    case (Cons e es)
    show ?thesis
    proof (cases e)
      case (Inl err)
      with run Cons show ?thesis by (auto intro!: drained_quiet split: if_splits)
    next
      case (Inr ev)
      note IH = "1.IH" [OF refl Cons Inr]
      show ?thesis
      proof (cases ev)
        case (EvData bs)
        have "drained d (?d\<lparr>clean_buffer := clean_buffer ?d @ bs\<rparr>)"
          using Cons Inr EvData by (intro drained_quiet) auto
        with run Cons Inr EvData IH(1) [OF EvData] show ?thesis by (auto intro: drained_trans)
      next
        case (EvNegotiation a opt)
        have "drained d (handle_negotiation a opt ?d)"
          using Cons Inr EvNegotiation by (intro drained_negotiation) auto
        with run Cons Inr EvNegotiation IH(2) [OF EvNegotiation] show ?thesis by (auto intro: drained_trans)
      next
        case (EvSubnegotiation opt bs)
        have "drained d ?d" using Cons Inr EvSubnegotiation by (intro drained_quiet) auto
        with run Cons Inr EvSubnegotiation IH(3) [OF EvSubnegotiation] show ?thesis by (auto intro: drained_trans)
      next
        case (EvUnknownIAC c)
        have "drained d ?d" using Cons Inr EvUnknownIAC by (intro drained_quiet) auto
        with run Cons Inr EvUnknownIAC IH(4) [OF EvUnknownIAC] show ?thesis by (auto intro: drained_trans)
      qed (use run Cons Inr in \<open>auto intro!: drained_quiet\<close>)
    qed
  qed
qed

lemma drained_same:
  "telnet_events d' = telnet_events d \<Longrightarrow> session_slot d' = session_slot d \<Longrightarrow> negotiated d' = negotiated d \<Longrightarrow>
   local_echo d' = local_echo d \<Longrightarrow> echo_events d' = echo_events d \<Longrightarrow> clean_buffer d' = clean_buffer d \<Longrightarrow> drained d d'"
  unfolding drained_def by (auto intro!: exI [of _ "[]"] tracked_fields [OF tracked_refl])

text \<open>A read drains into some driver \<open>d1\<close> and serves its buffer, or fails with nothing buffered.\<close>

lemma telnet_read_spec:
  assumes "telnet_read n d = (r, d')"
  shows "(\<exists>d1. drained d d1 \<and> (r, d') = serve_clean n d1 \<and> (clean_buffer d \<noteq> [] \<longrightarrow> d1 = d)) \<or>
    (\<exists>e. r = Err e \<and> drained d d' \<and> clean_buffer d' = [] \<and> \<not> connected d') \<or>
    (r = Ok [] \<and> drained d d' \<and> clean_buffer d' = [])"
proof (cases "clean_buffer d = []")
  case True
  let ?d = "d\<lparr>peeks := tl (peeks d)\<rparr>"
  obtain x d2 where dr: "drain_events READ_TIMEOUT ?d = (x, d2)" by fastforce
  have "drained d ?d" "drained d (?d\<lparr>connected := False\<rparr>)" by (simp_all add: drained_same)
  moreover from this(1) have "drained d d2" "x \<noteq> None \<longrightarrow> \<not> connected d2"
    using drain_events_spec [OF dr] drained_trans by blast+
  ultimately show ?thesis
    using assms True dr
    by (auto simp: telnet_read_def Let_def split: sum.splits if_splits option.splits)
next
  case False
  then show ?thesis
    using assms drained_same [of d d] by (auto simp: telnet_read_def)
qed

lemma serve_clean_delivers:
  "serve_clean n d = (r, d') \<Longrightarrow>
   \<exists>bs. r = Ok bs \<and> length bs \<le> n \<and> bs @ clean_buffer d' = clean_buffer d \<and>
     tracked d [] d' \<and> connected d' = connected d"
  by (auto simp: serve_clean_def Let_def intro!: tracked_fields [OF tracked_refl])

definition telnet_input :: "telnet_driver \<Rightarrow> byte list" where
  "telnet_input d = clean_buffer d @ payload (telnet_events d)"

lemma drained_input: "drained d d' \<Longrightarrow> telnet_input d' = telnet_input d"
  by (auto simp: drained_def tracked_def telnet_input_def)

text \<open>The outcome of a transport read: nothing is lost and the events are tracked.\<close>

definition read_outcome_ok ::
  "nat \<Rightarrow> telnet_driver \<Rightarrow> (read_status, transport_error) result \<Rightarrow> telnet_driver \<Rightarrow> bool" where
  "read_outcome_ok n d r d' \<longleftrightarrow> delivered r @ telnet_input d' = telnet_input d \<and> length (delivered r) \<le> n \<and>
     (\<exists>es. tracked d es d') \<and>
     (clean_buffer d \<noteq> [] \<and> 0 < n \<longrightarrow> r = Ok (StreamData (take n (clean_buffer d)))) \<and>
     ((\<exists>e. r = Err e) \<or> r = Ok StreamEof \<longrightarrow> clean_buffer d' = [] \<and> \<not> connected d') \<and> r \<noteq> Panic"

lemma read_outcome_served:
  assumes "drained d d1" "serve_clean n d1 = (Ok bs, d')" "clean_buffer d \<noteq> [] \<longrightarrow> d1 = d"
  shows "read_outcome_ok n d (Ok (if bs = [] then StreamIdle else StreamData bs)) d'"
proof -
  have s: "length bs \<le> n" "bs @ clean_buffer d' = clean_buffer d1" "tracked d1 [] d'"
    using serve_clean_delivers [OF assms(2)] by auto
  from s(3) assms(1) have "\<exists>es. tracked d es d'" unfolding drained_def using tracked_trans by blast
  moreover have "bs @ telnet_input d' = telnet_input d"
    using s(3) drained_input [OF assms(1)] by (simp add: telnet_input_def tracked_def flip: s(2))
  moreover have "clean_buffer d \<noteq> [] \<and> 0 < n \<longrightarrow> bs = take n (clean_buffer d) \<and> bs \<noteq> []"
    using assms(2,3) by (auto simp: serve_clean_def Let_def min_def split: if_splits)
  ultimately show ?thesis using s(1) by (auto simp: read_outcome_ok_def)
qed

lemma telnet_stream_read_ok:
  assumes "telnet_stream_read n d = (r, d')"
  shows "read_outcome_ok n d r d'"
proof -
  obtain q where q: "telnet_read n d = (q, d')" using assms
    by (auto simp: telnet_stream_read_def split: prod.splits result.splits if_splits)
  consider d1 bs where "drained d d1" "q = Ok bs" "serve_clean n d1 = (Ok bs, d')" "clean_buffer d \<noteq> [] \<longrightarrow> d1 = d"
    | e where "q = Err e" "drained d d'" "clean_buffer d' = []" "\<not> connected d'"
    | "q = Ok []" "drained d d'" "clean_buffer d' = []"
    using telnet_read_spec [OF q] serve_clean_delivers by metis
  then show ?thesis
  proof cases
    case 1
    with assms q read_outcome_served [OF 1(1,3,4)] show ?thesis by (simp add: telnet_stream_read_def)
  next
    case 2
    then have "clean_buffer d = []" by (auto simp: drained_def)
    with 2 assms q drained_input [OF 2(2)] show ?thesis
      by (auto simp: telnet_stream_read_def read_outcome_ok_def drained_def split: if_splits)
  next
    case 3
    then have "clean_buffer d = []" by (auto simp: drained_def)
    with 3 assms q drained_input [OF 3(2)] show ?thesis
      by (auto simp: telnet_stream_read_def read_outcome_ok_def drained_def)
  qed
qed

definition telnet_ops :: "telnet_driver stream_ops" where
  "telnet_ops = \<lparr>ops_read = telnet_stream_read, ops_write_all = telnet_stream_write_all, ops_flush = telnet_stream_flush,
     ops_shutdown = telnet_shutdown, ops_resize_terminal = resize_terminal, ops_terminal_control = True,
     ops_close_metadata = (\<lambda>_. no_metadata)\<rparr>"

lemma write_all_keeps: "write_all buf d = (r, d') \<Longrightarrow> telnet_input d' = telnet_input d"
proof (induction buf d arbitrary: r d' rule: write_all.induct)
  case (1 buf d)
  obtain w d1 where w: "telnet_write buf d = (w, d1)" by fastforce
  then have "telnet_input d1 = telnet_input d"
    by (auto simp: telnet_write_def telnet_input_def split: list.splits sum.splits)
  with "1.prems" "1.IH" w show ?case
    by (subst (asm) write_all.simps) (force split: if_splits sum.splits)
qed

interpretation telnet: stream_driver telnet_ops telnet_input
proof
  fix n d r d'
  assume "ops_read telnet_ops n d = (r, d')"
  then have "read_outcome_ok n d r d'" by (simp add: telnet_ops_def telnet_stream_read_ok)
  then show "delivered r @ telnet_input d' = telnet_input d" "length (delivered r) \<le> n"
    by (simp_all add: read_outcome_ok_def)
next
  fix data d
  show "telnet_input (snd (ops_write_all telnet_ops data d)) = telnet_input d"
    using write_all_keeps [of data d "fst (write_all data d)" "snd (write_all data d)"]
    by (simp add: telnet_ops_def telnet_stream_write_all_def split_beta Let_def)
qed (simp_all add: telnet_ops_def telnet_stream_flush_def telnet_shutdown_def resize_terminal_def telnet_input_def Let_def)

lemma run_reads_tracked: "run_reads telnet_stream_read ns d = (rs, d') \<Longrightarrow> \<exists>es. tracked d es d'"
proof (induction ns arbitrary: d rs)
  case Nil
  then show ?case using tracked_refl by auto
next
  case (Cons n ns)
  obtain r d1 where r: "telnet_stream_read n d = (r, d1)" by fastforce
  then obtain qs where "run_reads telnet_stream_read ns d1 = (qs, d')" using Cons.prems by (auto split: prod.splits)
  from Cons.IH [OF this] telnet_stream_read_ok [OF r] show ?case
    unfolding read_outcome_ok_def using tracked_trans by blast
qed

section \<open>Writing\<close>

text \<open>What reaches the crate is a prefix of the data, and all of it when the write succeeds.\<close>

lemma write_all_prefix:
  "write_all buf d = (r, d') \<Longrightarrow> \<exists>k. written d' = written d @ take k buf \<and> (r = Ok () \<longrightarrow> length buf \<le> k)"
proof (induction buf d arbitrary: r d' rule: write_all.induct)
  case (1 buf d)
  note run = "1.prems" [unfolded write_all.simps [of buf d]]
  obtain w d1 where w: "telnet_write buf d = (w, d1)" by fastforce
  have d1: "written d1 = written d @ (case w of Inr n \<Rightarrow> take n buf | Inl e \<Rightarrow> [])"
    using w by (auto simp: telnet_write_def split: list.splits sum.splits)
  show ?case
  proof (cases "buf = []")
    case True
    with run show ?thesis by (auto intro: exI [of _ 0])
  next
    case ne: False
    show ?thesis
    proof (cases w)
      case (Inl e)
      with run w d1 ne "1.IH"(1) [OF ne w [symmetric] Inl] show ?thesis
        by (auto split: if_splits intro: exI [of _ 0])
    next
      case (Inr n)
      show ?thesis
      proof (cases "n = 0 \<or> length buf < n")
        case True
        with run w d1 ne Inr show ?thesis by (auto split: if_splits intro: exI [of _ n])
      next
        case False
        with run w ne Inr "1.IH"(2) [OF ne w [symmetric] Inr] obtain k where
          "written d' = written d1 @ take k (drop n buf)" "r = Ok () \<longrightarrow> length (drop n buf) \<le> k"
          by auto
        with d1 Inr show ?thesis by (intro exI [of _ "n + k"]) (auto simp: take_add)
      qed
    qed
  qed
qed

text \<open>The window size is sent big-endian and kept within 1 and 65535.\<close>

lemma resize_payload:
  "subnegotiated (snd (resize_terminal cols rows d)) =
     subnegotiated d @ [(NAWS, to_be_bytes (clamp_u16 cols) @ to_be_bytes (clamp_u16 rows))]"
  "unat (clamp_u16 n) = max 1 (min 65535 (unat n))"
proof -
  have "ucast (w AND 0xFF) = (ucast w :: byte)" for w :: u16
  proof -
    have m: "(0xFF :: u16) = mask 8" by (simp add: mask_eq_exp_minus_1)
    show ?thesis unfolding m by (auto intro!: bit_word_eqI simp: bit_simps)
  qed
  then show "subnegotiated (snd (resize_terminal cols rows d)) =
     subnegotiated d @ [(NAWS, to_be_bytes (clamp_u16 cols) @ to_be_bytes (clamp_u16 rows))]"
    by (simp add: resize_terminal_def Let_def to_be_bytes_def)
  show "unat (clamp_u16 n) = max 1 (min 65535 (unat n))"
  proof -
    have "unat (ucast m :: u16) = unat m" if "m \<le> 65535" for m :: u32
      using that by (simp add: unsigned_ucast_eq take_bit_eq_mod word_le_nat_alt)
    then show ?thesis
      by (auto simp: clamp_u16_def word_less_nat_alt word_le_nat_alt unsigned_1 max_def min_def)
  qed
qed

section \<open>Properties\<close>

text \<open>The terminal loses nothing: whatever the socket and the protocol parser do and however small the
  buffers of the reads, what the reads deliver, followed by what is still buffered and still to be parsed, is the payload
  of the stream in order, and no read exceeds its buffer. Buffered data is delivered by the very next read, and
  end of stream or an error is reported only once nothing is buffered.\<close>

theorem telnet_stream_preserved:
  assumes "run_reads telnet_stream_read ns d = (rs, d')" "telnet_stream_read n d' = (r, d'')"
  shows "concat (map delivered rs) @ clean_buffer d' @ payload (telnet_events d') =
      clean_buffer d @ payload (telnet_events d) \<and>
    list_all2 (\<lambda>r n. length (delivered r) \<le> n) rs ns \<and>
    (clean_buffer d' \<noteq> [] \<and> 0 < n \<longrightarrow> r = Ok (StreamData (take n (clean_buffer d')))) \<and>
    ((\<exists>e. r = Err e) \<or> r = Ok StreamEof \<longrightarrow> clean_buffer d'' = [] \<and> \<not> connected d'')"
  using telnet.run_reads_deliver [unfolded telnet_ops_def, simplified, OF assms(1)] telnet_stream_read_ok [OF assms(2)]
  by (simp add: telnet_input_def read_outcome_ok_def)

definition demo_telnet :: "(io_error + telnet_event) list \<Rightarrow> telnet_driver" where
  "demo_telnet es = telnet_new \<lparr>peeks = [Inr 1, Inr 1], telnet_events = es, write_results = [], subneg_errors = [],
     negotiated = [], subnegotiated = [], written = [], poll_timeouts = [], session_slot = None, echo_events = [],
     clean_buffer = [], local_echo = False, connected = True\<rparr>"

lemmas demo_telnet_run = demo_telnet_def telnet_new_def telnet_stream_read_def telnet_read_def next_peek_def
  serve_clean_def drain_events.simps handle_negotiation_def negotiate_def on_echo_change_def on_attached_def

theorem telnet_stream_preserved_witness:
  "\<exists>rs d'. run_reads telnet_stream_read [2, 2] (demo_telnet [Inr (EvData [1, 2]), Inr (EvUnknownIAC 7), Inr (EvData [3])]) = (rs, d') \<and>
     concat (map delivered rs) = [1, 2, 3]"
proof -
  let ?d = "demo_telnet [Inr (EvData [1, 2]), Inr (EvUnknownIAC 7), Inr (EvData [3])]"
  obtain rs d' where run: "run_reads telnet_stream_read [2, 2] ?d = (rs, d')" by fastforce
  obtain r d'' where last: "telnet_stream_read 2 d' = (r, d'')" by fastforce
  have "clean_buffer d' = []" "telnet_events d' = []" "clean_buffer ?d = []"
    "payload (telnet_events ?d) = [1, 2, 3]"
    using run by (auto simp: demo_telnet_run Let_def)
  with telnet_stream_preserved [OF run last] run show ?thesis by auto
qed

text \<open>Every option request that is read is answered by the policy, in order: offers and demands are
  always answered, the supported options accepted and all others refused; of the refusals only that of
  the echo is acknowledged. The echo state is that of the last echo offer or refusal, and an attached session is told
  exactly its changes: the reported states alternate and the last one is current.\<close>

theorem telnet_negotiation_tracked:
  assumes "run_reads telnet_stream_read ns d = (rs, d')" "session_slot d = Some sid"
  shows "\<exists>es cs. telnet_events d = es @ telnet_events d' \<and>
    negotiated d' = negotiated d @ List.map_filter telnet_reply (requests es) \<and>
    local_echo d' = fold echo_after (requests es) (local_echo d) \<and>
    echo_events d' = echo_events d @ map (Pair sid) cs \<and>
    successively (\<noteq>) (local_echo d # cs) \<and> last (local_echo d # cs) = local_echo d'"
proof -
  obtain es where "tracked d es d'" using run_reads_tracked [OF assms(1)] ..
  with assms(2) echo_changes_alternate [of "local_echo d" "requests es"] show ?thesis
    unfolding tracked_def by (intro exI [of _ es] exI [of _ "echo_changes (local_echo d) (requests es)"]) auto
qed

theorem telnet_negotiation_tracked_witness:
  "\<exists>rs d'. run_reads telnet_stream_read [8] (on_attached ''s'' (demo_telnet
       [Inr (EvNegotiation Wont Echo), Inr (EvNegotiation Do NAWS)])) = (rs, d') \<and>
     echo_events d' = [(''s'', True)] \<and> local_echo d'"
proof -
  let ?d = "on_attached ''s'' (demo_telnet [Inr (EvNegotiation Wont Echo), Inr (EvNegotiation Do NAWS)])"
  obtain rs d' where run: "run_reads telnet_stream_read [8] ?d = (rs, d')" by fastforce
  have d: "session_slot ?d = Some ''s''" "\<not> local_echo ?d" "echo_events ?d = []" "local_echo d'" "length (echo_events d') = 1"
    using run by (auto simp: demo_telnet_run Let_def)
  from telnet_negotiation_tracked [OF run d(1)] d obtain cs where
    "echo_events d' = map (Pair ''s'') cs" "last (False # cs)" "length cs = 1"
    by auto
  with run d show ?thesis by (auto simp: length_Suc_conv)
qed

text \<open>C37. The driver starts reading before a session is attached. When the server refuses to echo in that time, the
  state becomes local echo and nobody is told; and because only changes are reported, repeating the refusal after the
  session is attached does not make up for it: unless the server offers to echo first, the
  session never learns that it has to echo.\<close>

theorem telnet_echo_event_lost:
  assumes "session_slot d = None" "run_reads telnet_stream_read ns d = (rs, d1)" "local_echo d1"
    "run_reads telnet_stream_read ms (on_attached sid d1) = (qs, d2)"
    "(Will, Echo) \<notin> set (requests (telnet_events d1))"
  shows "local_echo d2 \<and> echo_events d2 = echo_events d"
proof -
  obtain es where es: "tracked d es d1" using run_reads_tracked [OF assms(2)] ..
  obtain fs where fs: "tracked (on_attached sid d1) fs d2" using run_reads_tracked [OF assms(4)] ..
  have quiet: "echo_changes True qs = [] \<and> fold echo_after qs True" if "(Will, Echo) \<notin> set qs" for qs
    using that by (induction qs) (auto simp: echo_after_def)
  have "(Will, Echo) \<notin> set (requests fs)" using fs assms(5) by (auto simp: tracked_def on_attached_def)
  with quiet es fs assms(1,3) show ?thesis by (auto simp: tracked_def on_attached_def)
qed

theorem telnet_echo_event_lost_witness:
  "\<exists>rs d1 qs d2. run_reads telnet_stream_read [8] (demo_telnet [Inr (EvNegotiation Wont Echo), Inr EvTimedOut, Inr (EvNegotiation Wont Echo)]) = (rs, d1) \<and>
     run_reads telnet_stream_read [8] (on_attached ''s'' d1) = (qs, d2) \<and> local_echo d2 \<and> echo_events d2 = []"
proof -
  let ?d = "demo_telnet [Inr (EvNegotiation Wont Echo), Inr EvTimedOut, Inr (EvNegotiation Wont Echo)]"
  obtain rs d1 where run: "run_reads telnet_stream_read [8] ?d = (rs, d1)" by fastforce
  obtain qs d2 where again: "run_reads telnet_stream_read [8] (on_attached ''s'' d1) = (qs, d2)" by fastforce
  have d: "session_slot ?d = None" "echo_events ?d = []" "local_echo d1" "(Will, Echo) \<notin> set (requests (telnet_events d1))"
    using run by (auto simp: demo_telnet_run Let_def)
  from telnet_echo_event_lost [OF d(1) run d(3) again d(4)] run again d(2) show ?thesis by auto
qed

end
