(* ===== verification/Data_Plane.thy ===== *)
theory Data_Plane
  imports Transport_Stream
begin

text \<open>
  The data plane: \<open>transport/runtime.rs\<close>. One actor thread owns the driver of a session, reads it, publishes what it
  reads to the subscribers and executes the commands of the handles; a transfer protocol can lease the driver and
  work on it directly until it gives it back.

  The model interleaves the actor and any number of clients (threads that hold a handle, a subscription or a lease) at
  the granularity of their accesses to shared state: the command queue, the channels, and the flags
  \<open>exclusive_active\<close> and \<open>connected\<close>. The position of the actor in its loop is \<open>actor\<close>, that of each client in an operation
  is its entry in \<open>clients\<close>. \<open>actor_step\<close> is the next step of the actor, a function; the relation \<open>plane_step\<close> adds
  the steps of the clients. The driver is a parameter: a state and the table of its operations.

  Two ghosts make the properties expressible: \<open>routed\<close> records in order where every byte that left the
  driver went, and \<open>sub_from\<close> the length of that record when a subscriber was attached. Subscription and owner
  numbers, 64-bit counters in the code, are naturals; the byte counters keep their width.
\<close>

section \<open>Data\<close>

record close_info =
  ci_kind :: transport_error_kind
  ci_reason :: message
  ci_exit_code :: "u32 option"
  ci_signal :: "string option"

definition close_from_driver :: "transport_error_kind \<Rightarrow> message \<Rightarrow> close_metadata \<Rightarrow> close_info" where
  "close_from_driver kind reason m =
     \<lparr>ci_kind = kind, ci_reason = reason, ci_exit_code = cm_exit_code m, ci_signal = cm_signal m\<rparr>"

datatype plane_event = PlaneData "byte list" | PlaneClosed close_info

datatype subscription_end = BacklogExceeded nat | RuntimeStopped

record subscriber =
  sub_id :: nat
  sub_consumer :: string
  sub_capacity :: nat

text \<open>
  A subscription is the channel between the actor and a consumer: what is queued, what the consumer has taken, whether
  it still listens, and why it was cut off.
\<close>

record subscription =
  chan_queue :: "plane_event list"
  chan_taken :: "plane_event list"
  chan_open :: bool
  disconnect_reason :: "subscription_end option"
  sub_from :: "nat option"

text \<open>Requests of the clients; each names the client that waits for the answer.\<close>

datatype 's runtime_command =
    CmdWrite "byte list" nat
  | CmdSubscribe nat string nat
  | CmdUnsubscribe nat
  | CmdAcquire nat string nat
  | CmdReturn nat 's "byte list" nat
  | CmdResize u32 u32 nat
  | CmdShutdown nat

datatype plane_operation = OpWrite | OpResize | OpShutdown | OpAcquire | OpReturn

record 's lease =
  lease_owner :: nat
  lease_driver :: "'s option"
  lease_prefetched :: "byte list"

text \<open>
  Where a client is in an operation: about to send its command (waiting for room in the queue, or not), waiting for the
  answer, refused an acquisition and about to lower the flag, holding a lease, told the result of returning it and about
  to lower the flag, or done.
\<close>

datatype 's client =
    Sending bool "'s runtime_command"
  | Awaiting plane_operation
  | Refused transport_error
  | Leasing "'s lease"
  | ReturnAcked "(unit, transport_error) result"
  | Finished "(unit, transport_error) result"

datatype actor_position = LoopHead | DrainCommands | CheckFlag | ReadDriver | GotData "byte list" | Stopped

datatype route = Shared "nat list" "byte list" | Overflow "byte list" | LeaseRead nat "byte list"

record 's plane =
  plane_driver :: "'s option"
  subscribers :: "subscriber list"
  startup_buffer :: "byte list list"
  startup_buffer_bytes :: nat
  handoff_buffer :: "byte list"
  exclusive :: "(nat \<times> string) option"
  shutdown_pending :: bool
  tx_bytes :: u64
  rx_bytes :: u64
  exclusive_active :: bool
  plane_connected :: bool
  actor :: actor_position
  plane_commands :: "'s runtime_command list"
  next_owner_id :: nat
  next_subscription_id :: nat
  subscriptions :: "nat \<Rightarrow> subscription option"
  clients :: "nat \<Rightarrow> 's client option"
  routed :: "route list"

definition COMMAND_CAPACITY :: nat where "COMMAND_CAPACITY = 256"
definition READ_BUFFER_SIZE :: nat where "READ_BUFFER_SIZE = 16 * 1024"
definition STARTUP_BUFFER_LIMIT :: nat where "STARTUP_BUFFER_LIMIT = 64 * 1024"
definition SUBSCRIPTION_CAPACITY :: nat where "SUBSCRIPTION_CAPACITY = 256"

definition new_plane :: "'s \<Rightarrow> 's plane" where
  "new_plane driver = \<lparr>plane_driver = Some driver, subscribers = [], startup_buffer = [], startup_buffer_bytes = 0,
     handoff_buffer = [], exclusive = None, shutdown_pending = False, tx_bytes = 0, rx_bytes = 0,
     exclusive_active = False, plane_connected = True, actor = LoopHead, plane_commands = [], next_owner_id = 1,
     next_subscription_id = 1, subscriptions = Map.empty, clients = Map.empty, routed = []\<rparr>"

definition runtime_closed :: "string \<Rightarrow> transport_error" where
  "runtime_closed operation = transport_error_new TkRemoteClosed operation (Msg ''transport runtime is closed'')"

definition runtime_closed_before_ack :: "string \<Rightarrow> transport_error" where
  "runtime_closed_before_ack operation =
     transport_error_new TkRemoteClosed operation (Msg ''transport runtime closed before acknowledging command'')"

section \<open>Publishing\<close>

definition set_subscription_end :: "subscription_end \<Rightarrow> subscription \<Rightarrow> subscription" where
  "set_subscription_end reason c =
     (if disconnect_reason c = None then c\<lparr>disconnect_reason := Some reason\<rparr> else c)"

datatype send_outcome = Accepted | Full | Disconnected

text \<open>\<open>try_send\<close> on the bounded channel of a subscription.\<close>

definition try_send :: "nat \<Rightarrow> subscription \<Rightarrow> send_outcome" where
  "try_send capacity c =
     (if \<not> chan_open c then Disconnected
      else if length (chan_queue c) < capacity then Accepted else Full)"

definition enqueue_event :: "plane_event \<Rightarrow> subscription \<Rightarrow> subscription" where
  "enqueue_event ev c = c\<lparr>chan_queue := chan_queue c @ [ev]\<rparr>"

text \<open>The \<open>retain\<close> over the subscribers: who accepts the event stays, a full one is told why it goes.\<close>

fun offer :: "plane_event \<Rightarrow> subscriber list \<Rightarrow> (nat \<Rightarrow> subscription option) \<Rightarrow>
    subscriber list \<times> (nat \<Rightarrow> subscription option)" where
  "offer ev [] chans = ([], chans)"
| "offer ev (s # ss) chans =
     (case chans (sub_id s) of
        None \<Rightarrow> offer ev ss chans
      | Some c \<Rightarrow>
          (case try_send (sub_capacity s) c of
             Accepted \<Rightarrow>
               (let (kept, chans1) = offer ev ss (chans(sub_id s \<mapsto> enqueue_event ev c)) in (s # kept, chans1))
           | Full \<Rightarrow> offer ev ss (chans(sub_id s \<mapsto> set_subscription_end (BacklogExceeded (sub_capacity s)) c))
           | Disconnected \<Rightarrow> offer ev ss chans))"

text \<open>The startup buffer drops its oldest chunks until it is within its limit; what it drops is recorded.\<close>

fun trim_startup :: "byte list list \<Rightarrow> nat \<Rightarrow> byte list list \<times> nat \<times> route list" where
  "trim_startup [] n = ([], n, [])"
| "trim_startup (c # cs) n =
     (if n > STARTUP_BUFFER_LIMIT
      then (let (kept, n', rs) = trim_startup cs (n - length c) in (kept, n', Overflow c # rs))
      else (c # cs, n, []))"

definition publish_shared_data :: "byte list \<Rightarrow> 's plane \<Rightarrow> 's plane" where
  "publish_shared_data data p =
     (if data = [] then p
      else if subscribers p = [] then
        (let (kept, n, rs) = trim_startup (startup_buffer p @ [data]) (startup_buffer_bytes p + length data)
         in p\<lparr>startup_buffer := kept, startup_buffer_bytes := n, routed := routed p @ rs\<rparr>)
      else
        (let (kept, chans) = offer (PlaneData data) (subscribers p) (subscriptions p)
         in p\<lparr>subscribers := kept, subscriptions := chans, routed := routed p @ [Shared (map sub_id kept) data]\<rparr>))"

definition publish_handoff_buffer :: "'s plane \<Rightarrow> 's plane" where
  "publish_handoff_buffer p =
     (if handoff_buffer p = [] then p
      else publish_shared_data (handoff_buffer p) (p\<lparr>handoff_buffer := []\<rparr>))"

definition broadcast_close :: "close_info \<Rightarrow> 's plane \<Rightarrow> 's plane" where
  "broadcast_close info p =
     (let (kept, chans) = offer (PlaneClosed info) (subscribers p) (subscriptions p)
      in p\<lparr>subscribers := kept, subscriptions := chans\<rparr>)"

definition take_unconsumed_bytes :: "'s plane \<Rightarrow> byte list \<times> 's plane" where
  "take_unconsumed_bytes p =
     (concat (startup_buffer p) @ handoff_buffer p,
      p\<lparr>startup_buffer := [], startup_buffer_bytes := 0, handoff_buffer := []\<rparr>)"

definition restore_unconsumed_bytes :: "byte list \<Rightarrow> 's plane \<Rightarrow> 's plane" where
  "restore_unconsumed_bytes prefetched p = p\<lparr>handoff_buffer := prefetched @ handoff_buffer p\<rparr>"

section \<open>Commands\<close>

datatype command_outcome = Continue | ShutDown | Close close_info

definition answer :: "nat \<Rightarrow> 's client \<Rightarrow> 's plane \<Rightarrow> 's plane" where
  "answer tid c p = p\<lparr>clients := (clients p)(tid \<mapsto> c)\<rparr>"

text \<open>A failing driver operation closes the plane.\<close>

definition close_on_error :: "'s stream_ops \<Rightarrow> 's \<Rightarrow> (unit, transport_error) result \<Rightarrow> command_outcome" where
  "close_on_error ops s r =
     (case r of Err e \<Rightarrow> Close (close_from_driver (te_kind e) (transport_error_text e) (ops_close_metadata ops s)) | _ \<Rightarrow> Continue)"

definition owned_by :: "string \<Rightarrow> message" where
  "owned_by name = Fmt ''data plane is exclusively owned by {}'' [Msg name] []"

definition handle_write :: "'s stream_ops \<Rightarrow> byte list \<Rightarrow> nat \<Rightarrow> 's plane \<Rightarrow> (command_outcome \<times> 's plane, unit) result" where
  "handle_write ops data tid p =
     (case exclusive p of
        Some (_, name) \<Rightarrow> Ok (Continue, answer tid (Finished (Err (transport_busy ''write'' (owned_by name)))) p)
      | None \<Rightarrow>
        (case plane_driver p of
           None \<Rightarrow> Ok (Continue, answer tid (Finished (Err (transport_error_new TkIo ''write''
                      (Msg ''transport actor has no active driver'')))) p)
         | Some s \<Rightarrow>
             (let (w, s1) = ops_write_all ops data s;
                  (r, s2) = (case w of Ok _ \<Rightarrow> ops_flush ops s1 | _ \<Rightarrow> (w, s1));
                  p1 = p\<lparr>plane_driver := Some s2, tx_bytes := (if is_ok r then tx_bytes p + of_nat (length data) else tx_bytes p)\<rparr>
              in if r = Panic then Panic else Ok (close_on_error ops s2 r, answer tid (Finished r) p1))))"

text \<open>
  A new subscriber takes over the startup buffer as one event. If its receiver is already gone the
  bytes are gone with it.
\<close>

definition handle_subscribe :: "nat \<Rightarrow> string \<Rightarrow> nat \<Rightarrow> 's plane \<Rightarrow> command_outcome \<times> 's plane" where
  "handle_subscribe i consumer capacity p =
     (let data = concat (startup_buffer p);
          from_here = (\<lambda>c. c\<lparr>sub_from := Some (length (routed p))\<rparr>);
          s = \<lparr>sub_id = i, sub_consumer = consumer, sub_capacity = capacity\<rparr>;
          p1 = p\<lparr>startup_buffer := [], startup_buffer_bytes := 0\<rparr> in
      case subscriptions p i of
        None \<Rightarrow> (Continue, p)
      | Some c \<Rightarrow>
          if startup_buffer p = [] then
            (Continue, p1\<lparr>subscribers := subscribers p @ [s], subscriptions := (subscriptions p)(i \<mapsto> from_here c)\<rparr>)
          else
            (case try_send capacity c of
               Accepted \<Rightarrow>
                 (Continue, p1\<lparr>subscribers := subscribers p @ [s],
                    subscriptions := (subscriptions p)(i \<mapsto> enqueue_event (PlaneData data) (from_here c)),
                    routed := routed p @ [Shared [i] data]\<rparr>)
             | Full \<Rightarrow>
                 (Continue, p1\<lparr>subscriptions := (subscriptions p)(i \<mapsto> set_subscription_end (BacklogExceeded capacity) c),
                    routed := routed p @ [Shared [] data]\<rparr>)
             | Disconnected \<Rightarrow> (Continue, p1\<lparr>routed := routed p @ [Shared [] data]\<rparr>)))"

definition handle_unsubscribe :: "nat \<Rightarrow> 's plane \<Rightarrow> command_outcome \<times> 's plane" where
  "handle_unsubscribe i p = (Continue, p\<lparr>subscribers := filter (\<lambda>s. sub_id s \<noteq> i) (subscribers p)\<rparr>)"

text \<open>
  The client that asks for a lease waits for the answer, so sending it cannot fail and the
  branch of the code that takes the driver back is not entered.
\<close>

definition handle_acquire :: "nat \<Rightarrow> string \<Rightarrow> nat \<Rightarrow> 's plane \<Rightarrow> command_outcome \<times> 's plane" where
  "handle_acquire owner name tid p =
     (case exclusive p of
        Some (_, other) \<Rightarrow>
          (Continue, answer tid (Refused (transport_busy ''acquire_exclusive''
             (Fmt ''data plane is already owned by {}'' [Msg other] []))) (p\<lparr>exclusive_active := False\<rparr>))
      | None \<Rightarrow>
        (case plane_driver p of
           None \<Rightarrow>
             (Continue, answer tid (Refused (transport_error_new TkIo ''acquire_exclusive''
                (Msg ''transport actor has no driver to lease''))) (p\<lparr>exclusive_active := False\<rparr>))
         | Some s \<Rightarrow>
             (let (prefetched, p1) = take_unconsumed_bytes p in
              (Continue, answer tid (Leasing \<lparr>lease_owner = owner, lease_driver = Some s, lease_prefetched = prefetched\<rparr>)
                 (p1\<lparr>plane_driver := None, exclusive := Some (owner, name)\<rparr>)))))"

definition handle_return ::
  "'s stream_ops \<Rightarrow> nat \<Rightarrow> 's \<Rightarrow> byte list \<Rightarrow> nat \<Rightarrow> 's plane \<Rightarrow> (command_outcome \<times> 's plane, unit) result" where
  "handle_return ops owner s prefetched tid p =
     (if map_option fst (exclusive p) \<noteq> Some owner then
        (if fst (ops_shutdown ops s) = Panic then Panic
         else Ok (Continue, answer tid (ReturnAcked (Err (transport_busy ''return_exclusive'' (Msg ''exclusive driver owner mismatch'')))) p))
      else if plane_driver p \<noteq> None then
        (if fst (ops_shutdown ops s) = Panic then Panic
         else Ok (Continue, answer tid (ReturnAcked (Err (transport_error_new TkIo ''return_exclusive''
                (Msg ''transport actor already owns a driver'')))) p))
      else
        (let p1 = (restore_unconsumed_bytes prefetched p)\<lparr>plane_driver := Some s, exclusive := None, exclusive_active := False\<rparr> in
         if shutdown_pending p then
           (let (r, s1) = ops_shutdown ops s in
            if r = Panic then Panic else Ok (ShutDown, answer tid (ReturnAcked r) (p1\<lparr>plane_driver := Some s1\<rparr>)))
         else Ok (Continue, answer tid (ReturnAcked (Ok ())) p1)))"

definition handle_resize :: "'s stream_ops \<Rightarrow> u32 \<Rightarrow> u32 \<Rightarrow> nat \<Rightarrow> 's plane \<Rightarrow> (command_outcome \<times> 's plane, unit) result" where
  "handle_resize ops cols rows tid p =
     (case exclusive p of
        Some (_, name) \<Rightarrow> Ok (Continue, answer tid (Finished (Err (transport_busy ''resize_terminal'' (owned_by name)))) p)
      | None \<Rightarrow>
        (case plane_driver p of
           None \<Rightarrow> Ok (Continue, answer tid (Finished (Err (transport_error_new TkIo ''resize_terminal''
                      (Msg ''transport actor has no active driver'')))) p)
         | Some s \<Rightarrow>
             (let (r, s1) = ops_resize_terminal ops cols rows s in
              if r = Panic then Panic
              else Ok (close_on_error ops s1 r, answer tid (Finished r) (p\<lparr>plane_driver := Some s1\<rparr>)))))"

definition handle_shutdown :: "'s stream_ops \<Rightarrow> nat \<Rightarrow> 's plane \<Rightarrow> (command_outcome \<times> 's plane, unit) result" where
  "handle_shutdown ops tid p =
     (if exclusive p \<noteq> None then Ok (Continue, answer tid (Finished (Ok ())) (p\<lparr>shutdown_pending := True\<rparr>))
      else
        (case plane_driver p of
           None \<Rightarrow> Ok (ShutDown, answer tid (Finished (Ok ())) p)
         | Some s \<Rightarrow>
             (let (r, s1) = ops_shutdown ops s in
              if r = Panic then Panic else Ok (ShutDown, answer tid (Finished r) (p\<lparr>plane_driver := Some s1\<rparr>)))))"

fun handle_command :: "'s stream_ops \<Rightarrow> 's runtime_command \<Rightarrow> 's plane \<Rightarrow> (command_outcome \<times> 's plane, unit) result" where
  "handle_command ops (CmdWrite data tid) p = handle_write ops data tid p"
| "handle_command ops (CmdSubscribe i consumer capacity) p = Ok (handle_subscribe i consumer capacity p)"
| "handle_command ops (CmdUnsubscribe i) p = Ok (handle_unsubscribe i p)"
| "handle_command ops (CmdAcquire owner name tid) p = Ok (handle_acquire owner name tid p)"
| "handle_command ops (CmdReturn owner s prefetched tid) p = handle_return ops owner s prefetched tid p"
| "handle_command ops (CmdResize cols rows tid) p = handle_resize ops cols rows tid p"
| "handle_command ops (CmdShutdown tid) p = handle_shutdown ops tid p"

section \<open>The actor\<close>

text \<open>
  The end of the actor: subscribers that are still attached are told, the flags are lowered, the driver is shut down
  unless a command did so, and the queue and the actor's own state are dropped. A panic of a driver unwinds past all but
  the flags.
\<close>

definition end_subscriptions :: "'s plane \<Rightarrow> 's plane" where
  "end_subscriptions p =
     p\<lparr>subscriptions := (\<lambda>i. map_option
         (\<lambda>c. if i \<in> set (map sub_id (subscribers p)) then set_subscription_end RuntimeStopped c else c) (subscriptions p i))\<rparr>"

definition lower_flags :: "'s plane \<Rightarrow> 's plane" where
  "lower_flags p = p\<lparr>exclusive_active := False, plane_connected := False, actor := Stopped, plane_commands := [],
     subscribers := [], exclusive := None\<rparr>"

definition stop_actor :: "'s stream_ops \<Rightarrow> bool \<Rightarrow> 's plane \<Rightarrow> 's plane" where
  "stop_actor ops driver_shutdown p =
     (let p1 = end_subscriptions p in
      lower_flags (if driver_shutdown then p1
        else p1\<lparr>plane_driver := map_option (\<lambda>s. snd (ops_shutdown ops s)) (plane_driver p)\<rparr>))"

definition receive_command :: "'s stream_ops \<Rightarrow> 's runtime_command \<Rightarrow> 's runtime_command list \<Rightarrow> 's plane \<Rightarrow> 's plane" where
  "receive_command ops c cs p =
     (case handle_command ops c (p\<lparr>plane_commands := cs\<rparr>) of
        Ok (Continue, p1) \<Rightarrow> (if exclusive p1 \<noteq> None then p1\<lparr>actor := LoopHead\<rparr> else p1)
      | Ok (ShutDown, p1) \<Rightarrow> stop_actor ops True p1
      | Ok (Close info, p1) \<Rightarrow> stop_actor ops False (broadcast_close info p1)
      | _ \<Rightarrow> lower_flags (p\<lparr>plane_commands := cs\<rparr>))"

definition close_actor :: "'s stream_ops \<Rightarrow> transport_error_kind \<Rightarrow> message \<Rightarrow> close_metadata \<Rightarrow> 's plane \<Rightarrow> 's plane" where
  "close_actor ops kind reason m p = stop_actor ops False (broadcast_close (close_from_driver kind reason m) p)"

definition read_driver :: "'s stream_ops \<Rightarrow> 's plane \<Rightarrow> 's plane" where
  "read_driver ops p =
     (case plane_driver p of
        None \<Rightarrow> close_actor ops TkIo
          (Msg ''transport actor lost its driver without an active exclusive lease'') no_metadata p
      | Some s \<Rightarrow>
          (let (r, s1) = ops_read ops READ_BUFFER_SIZE s; p1 = p\<lparr>plane_driver := Some s1\<rparr> in
           case r of
             Ok (StreamData bs) \<Rightarrow>
               if bs = [] then p1\<lparr>actor := LoopHead\<rparr>
               else p1\<lparr>rx_bytes := rx_bytes p + of_nat (length bs), actor := GotData bs\<rparr>
           | Ok StreamIdle \<Rightarrow> p1\<lparr>actor := LoopHead\<rparr>
           | Ok StreamEof \<Rightarrow> close_actor ops TkRemoteClosed (Msg ''remote endpoint closed the stream'') (ops_close_metadata ops s1) p1
           | Err e \<Rightarrow> close_actor ops (te_kind e) (transport_error_text e) (ops_close_metadata ops s1) p1
           | Panic \<Rightarrow> lower_flags p1))"

text \<open>The next step of the actor, if it is not waiting for a command and has not ended.\<close>

definition actor_step :: "'s stream_ops \<Rightarrow> 's plane \<Rightarrow> 's plane option" where
  "actor_step ops p =
     (case actor p of
        LoopHead \<Rightarrow>
          if exclusive p \<noteq> None \<or> exclusive_active p then
            (case plane_commands p of [] \<Rightarrow> None | c # cs \<Rightarrow> Some (receive_command ops c cs p))
          else Some ((publish_handoff_buffer p)\<lparr>actor := DrainCommands\<rparr>)
      | DrainCommands \<Rightarrow>
          (case plane_commands p of [] \<Rightarrow> Some (p\<lparr>actor := CheckFlag\<rparr>) | c # cs \<Rightarrow> Some (receive_command ops c cs p))
      | CheckFlag \<Rightarrow> Some (p\<lparr>actor := (if exclusive p \<noteq> None \<or> exclusive_active p then LoopHead else ReadDriver)\<rparr>)
      | ReadDriver \<Rightarrow> Some (read_driver ops p)
      | GotData bs \<Rightarrow>
          Some ((if exclusive_active p then p\<lparr>handoff_buffer := handoff_buffer p @ bs\<rparr> else publish_shared_data bs p)
            \<lparr>actor := LoopHead\<rparr>)
      | Stopped \<Rightarrow> None)"

section \<open>The lease\<close>

definition transport_error_to_io :: "transport_error \<Rightarrow> io_error" where
  "transport_error_to_io e =
     \<lparr>io_kind = (case te_kind e of
          TkTimeout \<Rightarrow> EkTimedOut | TkPermissionDenied \<Rightarrow> EkPermissionDenied | TkDeviceNotFound \<Rightarrow> EkNotFound
        | TkRemoteClosed \<Rightarrow> EkUnexpectedEof | TkConnectionReset \<Rightarrow> EkConnectionReset | TkBusy \<Rightarrow> EkWouldBlock | _ \<Rightarrow> EkOther),
      io_message = transport_error_text e\<rparr>"

definition lease_released :: io_error where
  "lease_released = \<lparr>io_kind = EkBrokenPipe, io_message = Msg ''exclusive transport driver already released''\<rparr>"

text \<open>Reading the lease: what the actor had read first, then the driver; the latter is counted here.\<close>

definition exclusive_read :: "'s stream_ops \<Rightarrow> nat \<Rightarrow> 's lease \<Rightarrow> (byte list, io_error) result \<times> 's lease \<times> nat" where
  "exclusive_read ops n l =
     (if n = 0 then (Ok [], l, 0)
      else if lease_prefetched l \<noteq> [] then
        (Ok (take n (lease_prefetched l)), l\<lparr>lease_prefetched := drop n (lease_prefetched l)\<rparr>, 0)
      else
        (case lease_driver l of
           None \<Rightarrow> (Err lease_released, l, 0)
         | Some s \<Rightarrow>
             (let (r, s1) = ops_read ops n s; l1 = l\<lparr>lease_driver := Some s1\<rparr>;
                  idle = \<lparr>io_kind = EkTimedOut, io_message = Msg ''exclusive data-plane read timed out''\<rparr> in
              case r of
                Ok (StreamData bs) \<Rightarrow>
                  if bs = [] then (Err idle, l1, 0) else (Ok (take n bs), l1, min n (length bs))
              | Ok StreamIdle \<Rightarrow> (Err idle, l1, 0)
              | Ok StreamEof \<Rightarrow>
                  (Err \<lparr>io_kind = EkUnexpectedEof, io_message = Msg ''transport closed while exclusive lease was active''\<rparr>, l1, 0)
              | Err e \<Rightarrow> (Err (transport_error_to_io e), l1, 0)
              | Panic \<Rightarrow> (Panic, l1, 0))))"

definition exclusive_write :: "'s stream_ops \<Rightarrow> byte list \<Rightarrow> 's lease \<Rightarrow> (nat, io_error) result \<times> 's lease \<times> nat" where
  "exclusive_write ops data l =
     (case lease_driver l of
        None \<Rightarrow> (Err lease_released, l, 0)
      | Some s \<Rightarrow>
          (let (r, s1) = ops_write_all ops data s; l1 = l\<lparr>lease_driver := Some s1\<rparr> in
           case r of
             Ok _ \<Rightarrow> (Ok (length data), l1, length data)
           | Err e \<Rightarrow> (Err (transport_error_to_io e), l1, 0)
           | Panic \<Rightarrow> (Panic, l1, 0)))"

definition exclusive_flush :: "'s stream_ops \<Rightarrow> 's lease \<Rightarrow> (unit, io_error) result \<times> 's lease" where
  "exclusive_flush ops l =
     (case lease_driver l of
        None \<Rightarrow> (Err lease_released, l)
      | Some s \<Rightarrow> (let (r, s1) = ops_flush ops s in (map_err transport_error_to_io r, l\<lparr>lease_driver := Some s1\<rparr>)))"

section \<open>The clients\<close>

text \<open>A client begins an operation when it is not in one.\<close>

definition idle_client :: "nat \<Rightarrow> 's plane \<Rightarrow> bool" where
  "idle_client tid p = (case clients p tid of None \<Rightarrow> True | Some (Finished _) \<Rightarrow> True | _ \<Rightarrow> False)"

definition data_plane_owned :: "string \<Rightarrow> transport_error" where
  "data_plane_owned operation = transport_busy operation (Msg ''data plane is exclusively owned'')"

definition start_write :: "bool \<Rightarrow> byte list \<Rightarrow> nat \<Rightarrow> 's plane \<Rightarrow> 's plane" where
  "start_write async data tid p =
     (if exclusive_active p then answer tid (Finished (Err (data_plane_owned ''write''))) p
      else answer tid (Sending async (CmdWrite data tid)) p)"

definition start_resize :: "'s stream_ops \<Rightarrow> bool \<Rightarrow> u32 \<Rightarrow> u32 \<Rightarrow> nat \<Rightarrow> 's plane \<Rightarrow> 's plane" where
  "start_resize ops async cols rows tid p =
     (if \<not> ops_terminal_control ops then
        answer tid (Finished (Err (transport_unsupported ''resize_terminal'' (Msg ''session has no terminal-control capability'')))) p
      else if exclusive_active p then answer tid (Finished (Err (data_plane_owned ''resize_terminal''))) p
      else answer tid (Sending async (CmdResize cols rows tid)) p)"

definition start_shutdown :: "nat \<Rightarrow> 's plane \<Rightarrow> 's plane" where
  "start_shutdown tid p = answer tid (Sending False (CmdShutdown tid)) p"

definition new_subscription :: subscription where
  "new_subscription = \<lparr>chan_queue = [], chan_taken = [], chan_open = True, disconnect_reason = None, sub_from = None\<rparr>"

definition start_subscribe :: "string \<Rightarrow> nat \<Rightarrow> nat \<Rightarrow> 's plane \<Rightarrow> 's plane" where
  "start_subscribe consumer capacity tid p =
     (if capacity = 0 then
        answer tid (Finished (Err (transport_error_new TkInvalidConfiguration ''subscribe''
          (Msg ''subscription capacity must be greater than zero'')))) p
      else
        (let i = next_subscription_id p in
         answer tid (Sending False (CmdSubscribe i consumer capacity))
           (p\<lparr>next_subscription_id := i + 1, subscriptions := (subscriptions p)(i \<mapsto> new_subscription)\<rparr>)))"

text \<open>The \<open>compare_exchange\<close> that claims the plane.\<close>

definition start_acquire :: "string \<Rightarrow> nat \<Rightarrow> 's plane \<Rightarrow> 's plane" where
  "start_acquire name tid p =
     (if exclusive_active p then
        answer tid (Finished (Err (transport_busy ''acquire_exclusive'' (Msg ''data plane is already exclusively owned'')))) p
      else
        (let owner = next_owner_id p in
         answer tid (Sending False (CmdAcquire owner name tid)) (p\<lparr>exclusive_active := True, next_owner_id := owner + 1\<rparr>)))"

definition release :: "nat \<Rightarrow> 's lease \<Rightarrow> 's plane \<Rightarrow> 's plane" where
  "release tid l p =
     (case lease_driver l of
        None \<Rightarrow> answer tid (Finished (Ok ())) (p\<lparr>exclusive_active := False\<rparr>)
      | Some s \<Rightarrow> answer tid (Sending False (CmdReturn (lease_owner l) s (lease_prefetched l) tid)) p)"

fun awaits :: "'s runtime_command \<Rightarrow> plane_operation option" where
  "awaits (CmdWrite _ _) = Some OpWrite"
| "awaits (CmdSubscribe _ _ _) = None"
| "awaits (CmdUnsubscribe _) = None"
| "awaits (CmdAcquire _ _ _) = Some OpAcquire"
| "awaits (CmdReturn _ _ _ _) = Some OpReturn"
| "awaits (CmdResize _ _ _) = Some OpResize"
| "awaits (CmdShutdown _) = Some OpShutdown"

text \<open>Sending to an actor that has ended.\<close>

fun send_failed :: "'s runtime_command \<Rightarrow> nat \<Rightarrow> 's plane \<Rightarrow> 's plane" where
  "send_failed (CmdWrite _ _) tid p = answer tid (Finished (Err (runtime_closed ''write''))) p"
| "send_failed (CmdSubscribe i _ _) tid p =
     answer tid (Finished (Err (runtime_closed ''subscribe'')))
       (p\<lparr>subscriptions := (subscriptions p)(i := map_option (\<lambda>c. c\<lparr>chan_open := False\<rparr>) (subscriptions p i))\<rparr>)"
| "send_failed (CmdUnsubscribe _) tid p = p"
| "send_failed (CmdAcquire _ _ _) tid p =
     answer tid (Finished (Err (runtime_closed ''acquire_exclusive''))) (p\<lparr>exclusive_active := False\<rparr>)"
| "send_failed (CmdReturn _ _ _ _) tid p =
     answer tid (Finished (Err (runtime_closed ''return_exclusive''))) (p\<lparr>exclusive_active := False\<rparr>)"
| "send_failed (CmdResize _ _ _) tid p = answer tid (Finished (Err (runtime_closed ''resize_terminal''))) p"
| "send_failed (CmdShutdown _) tid p = answer tid (Finished (Ok ())) p"

definition after_send :: "'s runtime_command \<Rightarrow> 's client" where
  "after_send c = (case awaits c of None \<Rightarrow> Finished (Ok ()) | Some operation \<Rightarrow> Awaiting operation)"

definition operation_name :: "'s runtime_command \<Rightarrow> string" where
  "operation_name c = (case c of CmdWrite _ _ \<Rightarrow> ''write'' | _ \<Rightarrow> ''resize_terminal'')"

text \<open>A blocking send waits for room and has no step while the queue is full.\<close>

definition send_command :: "bool \<Rightarrow> 's runtime_command \<Rightarrow> nat \<Rightarrow> 's plane \<Rightarrow> 's plane option" where
  "send_command async c tid p =
     (if actor p = Stopped then Some (send_failed c tid p)
      else if length (plane_commands p) < COMMAND_CAPACITY then
        Some (answer tid (after_send c) (p\<lparr>plane_commands := plane_commands p @ [c]\<rparr>))
      else if async then
        Some (answer tid (Finished (Err (transport_busy (operation_name c) (Msg ''transport command queue is full'')))) p)
      else None)"

text \<open>The actor ended before it answered.\<close>

fun answer_lost :: "plane_operation \<Rightarrow> nat \<Rightarrow> 's plane \<Rightarrow> 's plane" where
  "answer_lost OpWrite tid p = answer tid (Finished (Err (runtime_closed_before_ack ''write''))) p"
| "answer_lost OpResize tid p = answer tid (Finished (Err (runtime_closed_before_ack ''resize_terminal''))) p"
| "answer_lost OpShutdown tid p = answer tid (Finished (Ok ())) p"
| "answer_lost OpAcquire tid p =
     answer tid (Finished (Err (runtime_closed_before_ack ''acquire_exclusive''))) (p\<lparr>exclusive_active := False\<rparr>)"
| "answer_lost OpReturn tid p = answer tid (Finished (Err (runtime_closed_before_ack ''return_exclusive''))) p"

definition lower_exclusive :: "nat \<Rightarrow> (unit, transport_error) result \<Rightarrow> 's plane \<Rightarrow> 's plane" where
  "lower_exclusive tid r p = answer tid (Finished r) (p\<lparr>exclusive_active := False\<rparr>)"

definition lease_reads :: "'s stream_ops \<Rightarrow> nat \<Rightarrow> nat \<Rightarrow> 's lease \<Rightarrow> 's plane \<Rightarrow> 's plane" where
  "lease_reads ops n tid l p =
     (let (r, l1, k) = exclusive_read ops n l in
      answer tid (Leasing l1) (p\<lparr>rx_bytes := rx_bytes p + of_nat k,
        routed := routed p @ (case r of Ok bs \<Rightarrow> [LeaseRead (lease_owner l) bs] | _ \<Rightarrow> [])\<rparr>))"

definition lease_writes :: "'s stream_ops \<Rightarrow> byte list \<Rightarrow> nat \<Rightarrow> 's lease \<Rightarrow> 's plane \<Rightarrow> 's plane" where
  "lease_writes ops data tid l p =
     (let (r, l1, k) = exclusive_write ops data l in answer tid (Leasing l1) (p\<lparr>tx_bytes := tx_bytes p + of_nat k\<rparr>))"

definition lease_flushes :: "'s stream_ops \<Rightarrow> nat \<Rightarrow> 's lease \<Rightarrow> 's plane \<Rightarrow> 's plane" where
  "lease_flushes ops tid l p = answer tid (Leasing (snd (exclusive_flush ops l))) p"

definition take_event :: "nat \<Rightarrow> plane_event \<Rightarrow> plane_event list \<Rightarrow> subscription \<Rightarrow> 's plane \<Rightarrow> 's plane" where
  "take_event i ev evs c p =
     p\<lparr>subscriptions := (subscriptions p)(i \<mapsto> c\<lparr>chan_queue := evs, chan_taken := chan_taken c @ [ev]\<rparr>)\<rparr>"

text \<open>A consumer has its subscription once the request for it is sent.\<close>

definition handed_out :: "nat \<Rightarrow> 's plane \<Rightarrow> bool" where
  "handed_out i p \<longleftrightarrow> (\<forall>tid a consumer capacity. clients p tid \<noteq> Some (Sending a (CmdSubscribe i consumer capacity)))"

text \<open>Dropping a subscription: the receiver goes, and the actor is told if there is room in its queue.\<close>

definition drop_subscription :: "nat \<Rightarrow> subscription \<Rightarrow> 's plane \<Rightarrow> 's plane" where
  "drop_subscription i c p =
     p\<lparr>subscriptions := (subscriptions p)(i \<mapsto> c\<lparr>chan_open := False\<rparr>),
       plane_commands := (if actor p \<noteq> Stopped \<and> length (plane_commands p) < COMMAND_CAPACITY
         then plane_commands p @ [CmdUnsubscribe i] else plane_commands p)\<rparr>"

inductive plane_step :: "'s stream_ops \<Rightarrow> 's plane \<Rightarrow> 's plane \<Rightarrow> bool" for ops where
  actor: "actor_step ops p = Some p' \<Longrightarrow> plane_step ops p p'"
| writes: "idle_client tid p \<Longrightarrow> plane_step ops p (start_write async data tid p)"
| resizes: "idle_client tid p \<Longrightarrow> plane_step ops p (start_resize ops async cols rows tid p)"
| shuts_down: "idle_client tid p \<Longrightarrow> plane_step ops p (start_shutdown tid p)"
| subscribes: "idle_client tid p \<Longrightarrow> plane_step ops p (start_subscribe consumer capacity tid p)"
| acquires: "idle_client tid p \<Longrightarrow> plane_step ops p (start_acquire name tid p)"
| sends: "clients p tid = Some (Sending async c) \<Longrightarrow> send_command async c tid p = Some p' \<Longrightarrow> plane_step ops p p'"
| unanswered: "clients p tid = Some (Awaiting operation) \<Longrightarrow> actor p = Stopped \<Longrightarrow> plane_step ops p (answer_lost operation tid p)"
| refused: "clients p tid = Some (Refused e) \<Longrightarrow> plane_step ops p (lower_exclusive tid (Err e) p)"
| returned: "clients p tid = Some (ReturnAcked r) \<Longrightarrow> plane_step ops p (lower_exclusive tid r p)"
| lease_read: "clients p tid = Some (Leasing l) \<Longrightarrow> plane_step ops p (lease_reads ops n tid l p)"
| lease_write: "clients p tid = Some (Leasing l) \<Longrightarrow> plane_step ops p (lease_writes ops data tid l p)"
| lease_flush: "clients p tid = Some (Leasing l) \<Longrightarrow> plane_step ops p (lease_flushes ops tid l p)"
| releases: "clients p tid = Some (Leasing l) \<Longrightarrow> plane_step ops p (release tid l p)"
| consumes: "subscriptions p i = Some c \<Longrightarrow> chan_queue c = ev # evs \<Longrightarrow> plane_step ops p (take_event i ev evs c p)"
| unsubscribes: "subscriptions p i = Some c \<Longrightarrow> chan_open c \<Longrightarrow> handed_out i p \<Longrightarrow> plane_step ops p (drop_subscription i c p)"

inductive plane_reach :: "'s stream_ops \<Rightarrow> 's \<Rightarrow> 's plane \<Rightarrow> bool" for ops driver where
  start: "plane_reach ops driver (new_plane driver)"
| step: "plane_reach ops driver p \<Longrightarrow> plane_step ops p p' \<Longrightarrow> plane_reach ops driver p'"

end
