(* ===== verification/Data_Plane_Lease.thy ===== *)
theory Data_Plane_Lease
  imports Data_Plane
begin

text \<open>
  Who owns the driver of a data plane. In every reachable state it is in exactly one place: with the actor, in a lease, or on
  its way back from one; and while it is out, the actor waits for commands only. A returned driver is therefore
  always accepted.
\<close>

section \<open>Where the driver is\<close>

fun cmd_client :: "'s runtime_command \<Rightarrow> nat option" where
  "cmd_client (CmdWrite _ tid) = Some tid"
| "cmd_client (CmdSubscribe _ _ _) = None"
| "cmd_client (CmdUnsubscribe _) = None"
| "cmd_client (CmdAcquire _ _ tid) = Some tid"
| "cmd_client (CmdReturn _ _ _ tid) = Some tid"
| "cmd_client (CmdResize _ _ tid) = Some tid"
| "cmd_client (CmdShutdown tid) = Some tid"

text \<open>Only requests without a driver are sent without waiting for room.\<close>

definition sendable :: "nat \<Rightarrow> bool \<Rightarrow> 's runtime_command \<Rightarrow> bool" where
  "sendable tid a c \<longleftrightarrow> (cmd_client c = None \<or> cmd_client c = Some tid) \<and> (a \<longrightarrow> (\<forall>own s pre t. c \<noteq> CmdReturn own s pre t))"

definition queue_ok :: "'s plane \<Rightarrow> bool" where
  "queue_ok p \<longleftrightarrow> distinct (List.map_filter cmd_client (plane_commands p)) \<and>
     (\<forall>c\<in>set (plane_commands p). \<forall>tid. cmd_client c = Some tid \<longrightarrow> clients p tid = map_option Awaiting (awaits c)) \<and>
     (\<forall>tid a c. clients p tid = Some (Sending a c) \<longrightarrow> sendable tid a c) \<and>
     (\<forall>tid l. clients p tid = Some (Leasing l) \<longrightarrow> lease_driver l \<noteq> None)"

definition holders :: "'s plane \<Rightarrow> (nat \<times> nat \<times> 's \<times> byte list) set" where
  "holders p = {(tid, o', s, pre).
     clients p tid = Some (Leasing \<lparr>lease_owner = o', lease_driver = Some s, lease_prefetched = pre\<rparr>) \<or>
     (\<exists>a. clients p tid = Some (Sending a (CmdReturn o' s pre tid))) \<or> CmdReturn o' s pre tid \<in> set (plane_commands p)}"

definition driver_place :: "'s plane \<Rightarrow> bool" where
  "driver_place p \<longleftrightarrow>
     (case exclusive p of
        None \<Rightarrow> holders p = {} \<and> (actor p \<noteq> Stopped \<longrightarrow> plane_driver p \<noteq> None)
      | Some (o', _) \<Rightarrow> plane_driver p = None \<and> actor p \<noteq> Stopped \<and> (\<exists>tid s pre. holders p = {(tid, o', s, pre)}))"

definition lease_ok :: "'s plane \<Rightarrow> bool" where
  "lease_ok p \<longleftrightarrow> queue_ok p \<and> driver_place p \<and> (exclusive p \<noteq> None \<longrightarrow> actor p = LoopHead) \<and>
     (actor p = Stopped \<longrightarrow> plane_commands p = [])"

text \<open>Clients that neither have nor carry a driver.\<close>

fun driverless :: "'s client \<Rightarrow> bool" where
  "driverless (Leasing l) = False"
| "driverless (Sending a (CmdReturn _ _ _ _)) = False"
| "driverless _ = True"

lemma awaits_client: "cmd_client c = Some tid \<Longrightarrow> \<exists>operation. awaits c = Some operation"
  by (cases c) auto

lemma holders_answer:
  assumes "driverless c" "clients p tid = None \<or> (\<exists>c0. clients p tid = Some c0 \<and> driverless c0)"
  shows "holders (answer tid c p) = holders p"
  using assms unfolding holders_def answer_def by (auto split: if_splits)

lemma holders_frame:
  "clients p' = clients p \<Longrightarrow> plane_commands p' = plane_commands p \<Longrightarrow> holders p' = holders p"
  by (simp add: holders_def)

text \<open>A client that waits has at most one command in the queue, the one it waits for.\<close>

lemma queue_ok_fresh:
  assumes "queue_ok p" "plane_commands p = c # cs" "cmd_client c = Some tid" "c' \<in> set cs"
  shows "cmd_client c' \<noteq> Some tid"
proof -
  have "distinct (List.map_filter cmd_client (c # cs))" using assms by (simp add: queue_ok_def)
  then have "tid \<notin> set (List.map_filter cmd_client cs)" using assms(3) by (simp add: map_filter_simps)
  then show ?thesis using assms(4) by (force simp: map_filter_def)
qed

lemma queue_ok_pop:
  assumes ok: "queue_ok p" and q: "plane_commands p = c # cs" "cmd_client c = Some tid"
    and d: "\<And>a c. d = Sending a c \<Longrightarrow> sendable tid a c"
      "\<And>l. d = Leasing l \<Longrightarrow> lease_driver l \<noteq> None"
  shows "queue_ok (answer tid d (p\<lparr>plane_commands := cs\<rparr>))"
proof -
  have dist: "distinct (List.map_filter cmd_client (c # cs))" using ok q by (simp add: queue_ok_def)
  have fresh: "cmd_client c' \<noteq> Some tid" if "c' \<in> set cs" for c'
    using queue_ok_fresh [OF ok q that] .
  have "distinct (List.map_filter cmd_client cs)" using dist by (simp add: map_filter_simps split: option.splits)
  moreover have "((clients p)(tid \<mapsto> d)) t = map_option Awaiting (awaits c')" if "c' \<in> set cs" "cmd_client c' = Some t" for c' t
    using that fresh [OF that(1)] ok q by (auto simp: queue_ok_def)
  moreover have "sendable t a c'" if "((clients p)(tid \<mapsto> d)) t = Some (Sending a c')" for t a c'
    using that ok d(1) unfolding queue_ok_def by (auto split: if_splits)
  moreover have "lease_driver l \<noteq> None" if "((clients p)(tid \<mapsto> d)) t = Some (Leasing l)" for t l
    using that ok d(2) unfolding queue_ok_def by (auto split: if_splits)
  ultimately show ?thesis unfolding queue_ok_def answer_def by simp
qed

text \<open>Changing what a client does that has no command in the queue.\<close>

lemma queue_ok_answer:
  assumes ok: "queue_ok p" and idle: "\<And>operation. clients p tid \<noteq> Some (Awaiting operation)"
    and d: "\<And>a c. d = Sending a c \<Longrightarrow> sendable tid a c"
      "\<And>l. d = Leasing l \<Longrightarrow> lease_driver l \<noteq> None"
  shows "queue_ok (answer tid d p)"
proof -
  have "cmd_client c \<noteq> Some tid" if "c \<in> set (plane_commands p)" for c
    using ok idle that awaits_client [of c tid] unfolding queue_ok_def by (metis option.simps(9))
  then have "((clients p)(tid \<mapsto> d)) t = map_option Awaiting (awaits c)"
    if "c \<in> set (plane_commands p)" "cmd_client c = Some t" for c t
    using that ok unfolding queue_ok_def by auto
  moreover have "sendable t a c'" if "((clients p)(tid \<mapsto> d)) t = Some (Sending a c')" for t a c'
    using that ok d(1) unfolding queue_ok_def by (auto split: if_splits)
  moreover have "lease_driver l \<noteq> None" if "((clients p)(tid \<mapsto> d)) t = Some (Leasing l)" for t l
    using that ok d(2) unfolding queue_ok_def by (auto split: if_splits)
  ultimately show ?thesis using ok unfolding queue_ok_def answer_def by simp
qed

lemma queue_ok_drop:
  "queue_ok p \<Longrightarrow> plane_commands p = c # cs \<Longrightarrow> queue_ok (p\<lparr>plane_commands := cs\<rparr>)"
  unfolding queue_ok_def by (simp add: map_filter_simps split: option.splits)

lemma queue_ok_clear: "queue_ok p \<Longrightarrow> queue_ok (p\<lparr>plane_commands := []\<rparr>)"
  unfolding queue_ok_def by (simp add: map_filter_simps)

lemma queue_ok_frame:
  "queue_ok p \<Longrightarrow> clients p' = clients p \<Longrightarrow> plane_commands p' = plane_commands p \<Longrightarrow> queue_ok p'"
  by (simp add: queue_ok_def)

section \<open>What the operations leave alone\<close>

lemma publish_keeps [simp]:
  "plane_driver (publish_shared_data bs p) = plane_driver p" "handoff_buffer (publish_shared_data bs p) = handoff_buffer p"
  "exclusive (publish_shared_data bs p) = exclusive p" "actor (publish_shared_data bs p) = actor p"
  "plane_commands (publish_shared_data bs p) = plane_commands p" "clients (publish_shared_data bs p) = clients p"
  "next_subscription_id (publish_shared_data bs p) = next_subscription_id p"
  by (simp_all add: publish_shared_data_def split_beta Let_def)

lemma handoff_keeps [simp]:
  "plane_driver (publish_handoff_buffer p) = plane_driver p" "exclusive (publish_handoff_buffer p) = exclusive p"
  "plane_commands (publish_handoff_buffer p) = plane_commands p" "clients (publish_handoff_buffer p) = clients p"
  "next_subscription_id (publish_handoff_buffer p) = next_subscription_id p"
  "actor (publish_handoff_buffer p) = actor p" "handoff_buffer (publish_handoff_buffer p) = []"
  by (simp_all add: publish_handoff_buffer_def)

lemma broadcast_keeps [simp]:
  "plane_driver (broadcast_close i p) = plane_driver p" "exclusive (broadcast_close i p) = exclusive p"
  "plane_commands (broadcast_close i p) = plane_commands p" "clients (broadcast_close i p) = clients p"
  "routed (broadcast_close i p) = routed p" "startup_buffer (broadcast_close i p) = startup_buffer p"
  "handoff_buffer (broadcast_close i p) = handoff_buffer p" "next_subscription_id (broadcast_close i p) = next_subscription_id p"
  "startup_buffer_bytes (broadcast_close i p) = startup_buffer_bytes p"
  by (simp_all add: broadcast_close_def split_beta Let_def)

lemma stop_fields [simp]:
  "exclusive (stop_actor ops b p) = None" "actor (stop_actor ops b p) = Stopped" "plane_commands (stop_actor ops b p) = []"
  "clients (stop_actor ops b p) = clients p" "routed (stop_actor ops b p) = routed p" "subscribers (stop_actor ops b p) = []"
  "startup_buffer (stop_actor ops b p) = startup_buffer p" "handoff_buffer (stop_actor ops b p) = handoff_buffer p"
  "next_subscription_id (stop_actor ops b p) = next_subscription_id p"
  "startup_buffer_bytes (stop_actor ops b p) = startup_buffer_bytes p"
  by (simp_all add: stop_actor_def lower_flags_def end_subscriptions_def Let_def)

lemma answer_fields [simp]:
  "exclusive (answer tid c p) = exclusive p" "actor (answer tid c p) = actor p" "plane_driver (answer tid c p) = plane_driver p"
  "plane_commands (answer tid c p) = plane_commands p" "routed (answer tid c p) = routed p"
  "startup_buffer (answer tid c p) = startup_buffer p" "handoff_buffer (answer tid c p) = handoff_buffer p"
  "subscribers (answer tid c p) = subscribers p" "subscriptions (answer tid c p) = subscriptions p"
  "next_subscription_id (answer tid c p) = next_subscription_id p"
  "startup_buffer_bytes (answer tid c p) = startup_buffer_bytes p" "exclusive_active (answer tid c p) = exclusive_active p"
  by (simp_all add: answer_def)

section \<open>The actor keeps the invariant\<close>

lemma stopped_lease_ok:
  "queue_ok p \<Longrightarrow> holders p = {} \<Longrightarrow> clients p' = clients p \<Longrightarrow> plane_commands p' = [] \<Longrightarrow> exclusive p' = None \<Longrightarrow>
   actor p' = Stopped \<Longrightarrow> lease_ok p'"
  unfolding lease_ok_def driver_place_def queue_ok_def by (auto simp: holders_def map_filter_simps)

lemma pop_holders:
  assumes "queue_ok p" "plane_commands p = c # cs"
  shows "holders (p\<lparr>plane_commands := cs\<rparr>) =
    holders p - (case c of CmdReturn o' s pre tid \<Rightarrow> {(tid, o', s, pre)} | _ \<Rightarrow> {})"
proof (cases c)
  case (CmdReturn o' s pre tid)
  have "CmdReturn o' s pre tid \<notin> set cs"
    using queue_ok_fresh [OF assms] CmdReturn by fastforce
  moreover have "clients p tid = Some (Awaiting OpReturn)"
    using assms CmdReturn by (simp add: queue_ok_def)
  ultimately show ?thesis using assms(2) CmdReturn by (auto simp: holders_def)
qed (use assms(2) in \<open>auto simp: holders_def\<close>)

lemma handle_acquire_lease:
  assumes ok: "lease_ok p" and q: "plane_commands p = CmdAcquire own name tid # cs"
    and h: "handle_acquire own name tid (p\<lparr>plane_commands := cs\<rparr>) = (out, p1)" and run: "actor p \<noteq> Stopped"
  shows "queue_ok p1 \<and> driver_place p1 \<and> out = Continue \<and> actor p1 = actor p"
proof -
  let ?p = "p\<lparr>plane_commands := cs\<rparr>"
  have aw: "clients p tid = Some (Awaiting OpAcquire)" and qo: "queue_ok p" and dp: "driver_place p"
    using ok q by (auto simp: lease_ok_def queue_ok_def)
  have hs: "holders ?p = holders p" using pop_holders [OF qo q] by simp
  have keep: "holders (answer tid (Refused e) (?p\<lparr>exclusive_active := False\<rparr>)) = holders p" for e
    using hs aw by (subst holders_answer) (auto simp: holders_def)
  have qr: "queue_ok (answer tid d (?p\<lparr>exclusive_active := False\<rparr>))" if "\<And>a c. d \<noteq> Sending a c" "\<And>l. d \<noteq> Leasing l" for d
    using queue_ok_pop [OF qo q, of tid d] that by (auto intro: queue_ok_frame simp: answer_def)
  show ?thesis
  proof (cases "exclusive p")
    case (Some e)
    obtain o' n where e: "e = (o', n)" by fastforce
    from h Some e have "p1 = answer tid (Refused (transport_busy ''acquire_exclusive''
             (Fmt ''data plane is already owned by {}'' [Msg n] []))) (?p\<lparr>exclusive_active := False\<rparr>)" "out = Continue"
      by (simp_all add: handle_acquire_def)
    with Some e dp keep qr show ?thesis by (simp add: driver_place_def)
  next
    case None
    then obtain s where s: "plane_driver p = Some s" and no: "holders p = {}"
      using dp run by (auto simp: driver_place_def)
    let ?l = "\<lparr>lease_owner = own, lease_driver = Some s, lease_prefetched = concat (startup_buffer p) @ handoff_buffer p\<rparr>"
    let ?q = "?p\<lparr>startup_buffer := [], startup_buffer_bytes := 0, handoff_buffer := [], plane_driver := None, exclusive := Some (own, name)\<rparr>"
    from h None s have p1: "p1 = answer tid (Leasing ?l) ?q" "out = Continue"
      by (simp_all add: handle_acquire_def take_unconsumed_bytes_def)
    have "queue_ok (answer tid (Leasing ?l) ?p)" using queue_ok_pop [OF qo q, of tid "Leasing ?l"] by simp
    then have "queue_ok p1" unfolding p1 by (rule queue_ok_frame) (simp_all add: answer_def)
    moreover have "holders p1 = {(tid, own, s, concat (startup_buffer p) @ handoff_buffer p)}"
      using hs no unfolding p1 holders_def answer_def by (auto split: if_splits)
    ultimately show ?thesis using p1 run by (simp add: driver_place_def)
  qed
qed

text \<open>Answering a client that holds no driver, with the driver staying where it is.\<close>

lemma finish_lease:
  assumes ok: "lease_ok p" and q: "plane_commands p = c # cs" "cmd_client c = Some tid" "\<And>o' s pre t. c \<noteq> CmdReturn o' s pre t"
    and p1: "clients p1 = (clients p)(tid \<mapsto> Finished r)" "plane_commands p1 = cs" "exclusive p1 = exclusive p"
      "actor p1 = actor p" "plane_driver p1 = None \<longleftrightarrow> plane_driver p = None"
  shows "queue_ok p1 \<and> driver_place p1"
proof -
  have qo: "queue_ok p" and dp: "driver_place p" and "clients p tid = map_option Awaiting (awaits c)"
    using ok q by (auto simp: lease_ok_def queue_ok_def)
  then obtain w where aw: "clients p tid = Some (Awaiting w)" using awaits_client [OF q(2)] by auto
  have "queue_ok (answer tid (Finished r) (p\<lparr>plane_commands := cs\<rparr>))" by (rule queue_ok_pop [OF qo q(1,2)]) simp_all
  then have "queue_ok p1" by (rule queue_ok_frame) (simp_all add: p1 answer_def)
  moreover have "holders p1 = holders (answer tid (Finished r) (p\<lparr>plane_commands := cs\<rparr>))"
    by (rule holders_frame) (simp_all add: p1 answer_def)
  moreover have "holders (answer tid (Finished r) (p\<lparr>plane_commands := cs\<rparr>)) = holders p"
    using pop_holders [OF qo q(1)] q(3) aw by (subst holders_answer) (auto split: runtime_command.splits)
  ultimately show ?thesis using dp p1 by (auto simp: driver_place_def split: option.splits)
qed

lemma unanswered_lease:
  assumes ok: "lease_ok p" and q: "plane_commands p = c # cs" "cmd_client c = None"
    and p1: "clients p1 = clients p" "plane_commands p1 = cs" "exclusive p1 = exclusive p"
      "actor p1 = actor p" "plane_driver p1 = plane_driver p"
  shows "queue_ok p1 \<and> driver_place p1"
proof -
  have "queue_ok p1" using queue_ok_drop [OF _ q(1)] ok by (auto intro: queue_ok_frame simp: p1 lease_ok_def)
  moreover have "holders p1 = holders p"
    using q(2) unfolding holders_def p1 q(1) by (cases c) auto
  ultimately show ?thesis using ok p1 by (auto simp: lease_ok_def driver_place_def split: option.splits)
qed

lemma handle_return_lease:
  assumes ok: "lease_ok p" and q: "plane_commands p = CmdReturn own s pre tid # cs"
  shows "map_option fst (exclusive p) = Some own" "plane_driver p = None" "holders (p\<lparr>plane_commands := cs\<rparr>) = {}"
    "handle_return ops own s pre tid (p\<lparr>plane_commands := cs\<rparr>) = Ok (out, p1) \<Longrightarrow>
       queue_ok p1 \<and> holders p1 = {} \<and> plane_driver p1 \<noteq> None \<and> exclusive p1 = None \<and> actor p1 = actor p"
proof -
  let ?p = "p\<lparr>plane_commands := cs\<rparr>"
  have aw: "clients p tid = Some (Awaiting OpReturn)" and qo: "queue_ok p" and dp: "driver_place p"
    using ok q by (auto simp: lease_ok_def queue_ok_def)
  have mem: "(tid, own, s, pre) \<in> holders p" using q by (auto simp: holders_def)
  with dp obtain n where ex: "exclusive p = Some (own, n)" "plane_driver p = None" "holders p = {(tid, own, s, pre)}"
    by (auto simp: driver_place_def split: option.splits prod.splits)
  then show "map_option fst (exclusive p) = Some own" "plane_driver p = None" by simp_all
  show no: "holders ?p = {}" using pop_holders [OF qo q] ex(3) by simp
  assume h: "handle_return ops own s pre tid ?p = Ok (out, p1)"
  from h ex obtain r d where p1: "clients p1 = (clients p)(tid \<mapsto> ReturnAcked r)" "plane_commands p1 = cs"
    "plane_driver p1 = Some d" "exclusive p1 = None" "actor p1 = actor p"
    by (auto simp: handle_return_def restore_unconsumed_bytes_def answer_def Let_def split: if_splits prod.splits)
  have "queue_ok (answer tid (ReturnAcked r) ?p)" by (rule queue_ok_pop [OF qo q]) simp_all
  then have "queue_ok p1" by (rule queue_ok_frame) (simp_all add: p1 answer_def)
  moreover have "holders p1 = holders (answer tid (ReturnAcked r) ?p)"
    by (rule holders_frame) (simp_all add: p1 answer_def)
  moreover have "holders (answer tid (ReturnAcked r) ?p) = {}"
    using no aw by (subst holders_answer) auto
  ultimately show "queue_ok p1 \<and> holders p1 = {} \<and> plane_driver p1 \<noteq> None \<and> exclusive p1 = None \<and> actor p1 = actor p"
    using p1 by simp
qed

lemma handle_command_lease:
  assumes ok: "lease_ok p" and q: "plane_commands p = c # cs" and run: "actor p \<noteq> Stopped"
    and h: "handle_command ops c (p\<lparr>plane_commands := cs\<rparr>) = Ok (out, p1)"
  shows "queue_ok p1 \<and> driver_place p1 \<and> actor p1 = actor p \<and> (out \<noteq> Continue \<longrightarrow> exclusive p1 = None)"
proof (cases c)
  case (CmdWrite data tid)
  with h obtain r where "clients p1 = (clients p)(tid \<mapsto> Finished r)" "plane_commands p1 = cs" "exclusive p1 = exclusive p"
    "actor p1 = actor p" "plane_driver p1 = None \<longleftrightarrow> plane_driver p = None" "out \<noteq> Continue \<longrightarrow> exclusive p1 = None"
    by (auto simp: handle_write_def answer_def Let_def split: option.splits prod.splits if_splits)
  with finish_lease [OF ok q] CmdWrite show ?thesis by simp
next
  case (CmdResize cols rows tid)
  with h obtain r where "clients p1 = (clients p)(tid \<mapsto> Finished r)" "plane_commands p1 = cs" "exclusive p1 = exclusive p"
    "actor p1 = actor p" "plane_driver p1 = None \<longleftrightarrow> plane_driver p = None" "out \<noteq> Continue \<longrightarrow> exclusive p1 = None"
    by (auto simp: handle_resize_def answer_def Let_def split: option.splits prod.splits if_splits)
  with finish_lease [OF ok q] CmdResize show ?thesis by simp
next
  case (CmdShutdown tid)
  with h obtain r where "clients p1 = (clients p)(tid \<mapsto> Finished r)" "plane_commands p1 = cs" "exclusive p1 = exclusive p"
    "actor p1 = actor p" "plane_driver p1 = None \<longleftrightarrow> plane_driver p = None" "out \<noteq> Continue \<longrightarrow> exclusive p1 = None"
    by (auto simp: handle_shutdown_def answer_def Let_def simp del: not_None_eq split: option.splits prod.splits if_splits)
  with finish_lease [OF ok q] CmdShutdown show ?thesis by simp
next
  case (CmdAcquire own name tid)
  with h handle_acquire_lease [OF ok q [unfolded CmdAcquire] _ run, of out p1] show ?thesis by simp
next
  case (CmdReturn own s pre tid)
  with h handle_return_lease(4) [OF ok q [unfolded CmdReturn], of ops out p1] run show ?thesis
    by (simp add: driver_place_def)
next
  case (CmdSubscribe i consumer capacity)
  with h unanswered_lease [OF ok q, of p1] show ?thesis
    by (auto simp: handle_subscribe_def Let_def split: option.splits if_splits send_outcome.splits)
next
  case (CmdUnsubscribe i)
  with h unanswered_lease [OF ok q, of p1] show ?thesis by (auto simp: handle_unsubscribe_def)
qed

lemma receive_command_lease:
  assumes ok: "lease_ok p" and q: "plane_commands p = c # cs" and run: "actor p \<noteq> Stopped"
  shows "lease_ok (receive_command ops c cs p)"
proof (cases "handle_command ops c (p\<lparr>plane_commands := cs\<rparr>)")
  case (Ok op)
  obtain out p1 where op: "op = (out, p1)" by fastforce
  note h = handle_command_lease [OF ok q run Ok [unfolded op]]
  have stop: "lease_ok (stop_actor ops b p2)" if "out \<noteq> Continue" "clients p2 = clients p1" for b p2
    using h that by (intro stopped_lease_ok [of p1]) (auto simp: driver_place_def)
  show ?thesis
  proof (cases out)
    case Continue
    with h run have "lease_ok (if exclusive p1 \<noteq> None then p1\<lparr>actor := LoopHead\<rparr> else p1)"
      by (auto simp: lease_ok_def driver_place_def queue_ok_def holders_def)
    with Ok op Continue show ?thesis by (simp add: receive_command_def)
  qed (use Ok op stop in \<open>auto simp: receive_command_def\<close>)
next
  case Panic
  have "holders (p\<lparr>plane_commands := cs\<rparr>) = {}"
  proof (cases "\<exists>own s pre tid. c = CmdReturn own s pre tid")
    case True
    with handle_return_lease(3) [OF ok] q show ?thesis by auto
  next
    case False
    have "exclusive p = None"
      using Panic False by (cases c) (auto simp: handle_write_def handle_resize_def handle_shutdown_def simp del: not_None_eq
        split: option.splits if_splits)
    with ok have "holders p = {}" by (simp add: lease_ok_def driver_place_def)
    with pop_holders [OF _ q] ok show ?thesis by (auto simp: lease_ok_def)
  qed
  moreover have "queue_ok (p\<lparr>plane_commands := cs\<rparr>)" using ok queue_ok_drop [OF _ q] by (simp add: lease_ok_def)
  ultimately show ?thesis
    using Panic by (intro stopped_lease_ok [of "p\<lparr>plane_commands := cs\<rparr>"]) (simp_all add: receive_command_def lower_flags_def)
next
  case (Err e)
  then have False
    by (cases c) (auto simp: handle_write_def handle_resize_def handle_shutdown_def handle_return_def Let_def
        split: option.splits if_splits prod.splits)
  then show ?thesis ..
qed

lemma lease_ok_frame:
  "lease_ok p \<Longrightarrow> clients p' = clients p \<Longrightarrow> plane_commands p' = plane_commands p \<Longrightarrow> exclusive p' = exclusive p \<Longrightarrow>
   plane_driver p' = plane_driver p \<Longrightarrow> actor p' = actor p \<or> (actor p \<noteq> Stopped \<and> actor p' \<noteq> Stopped \<and> (exclusive p \<noteq> None \<longrightarrow> actor p' = LoopHead)) \<Longrightarrow>
   lease_ok p'"
  using holders_frame [of p' p] queue_ok_frame [of p p']
  by (auto simp: lease_ok_def driver_place_def split: option.splits)

lemma close_lease: "lease_ok p \<Longrightarrow> exclusive p = None \<Longrightarrow> clients p1 = clients p \<Longrightarrow> lease_ok (stop_actor ops b p1)"
  by (intro stopped_lease_ok [of p]) (auto simp: lease_ok_def driver_place_def)

lemma actor_step_lease:
  assumes ok: "lease_ok p" and s: "actor_step ops p = Some p'"
  shows "lease_ok p'"
proof (cases "actor p")
  case LoopHead
  show ?thesis
  proof (cases "exclusive p \<noteq> None \<or> exclusive_active p")
    case True
    with s LoopHead obtain c cs where "plane_commands p = c # cs" "p' = receive_command ops c cs p"
      by (auto simp: actor_step_def simp del: not_None_eq split: list.splits)
    with receive_command_lease [OF ok] LoopHead show ?thesis by simp
  next
    case False
    with s LoopHead have "p' = (publish_handoff_buffer p)\<lparr>actor := DrainCommands\<rparr>" "exclusive p = None"
      by (auto simp: actor_step_def simp del: not_None_eq)
    with ok LoopHead show ?thesis by (auto intro: lease_ok_frame)
  qed
next
  case DrainCommands
  then have none: "exclusive p = None" using ok by (cases "exclusive p") (auto simp: lease_ok_def)
  show ?thesis
  proof (cases "plane_commands p")
    case Nil
    with s DrainCommands have "p' = p\<lparr>actor := CheckFlag\<rparr>" by (simp add: actor_step_def)
    with ok DrainCommands none show ?thesis by (auto intro: lease_ok_frame)
  next
    case (Cons c cs)
    with s DrainCommands have "p' = receive_command ops c cs p" by (simp add: actor_step_def)
    with receive_command_lease [OF ok Cons] DrainCommands show ?thesis by simp
  qed
next
  case CheckFlag
  then have "exclusive p = None" using ok by (cases "exclusive p") (auto simp: lease_ok_def)
  with s CheckFlag ok show ?thesis by (auto simp: actor_step_def split: if_splits intro!: lease_ok_frame [OF ok])
next
  case ReadDriver
  then have none: "exclusive p = None" using ok by (cases "exclusive p") (auto simp: lease_ok_def)
  with ok ReadDriver obtain d where d: "plane_driver p = Some d" by (auto simp: lease_ok_def driver_place_def)
  obtain r d1 where r: "ops_read ops READ_BUFFER_SIZE d = (r, d1)" by fastforce
  have go: "lease_ok p2" if "clients p2 = clients p" "plane_commands p2 = plane_commands p" "exclusive p2 = None"
    "plane_driver p2 \<noteq> None" "actor p2 \<noteq> Stopped" for p2
    using that ok none holders_frame [of p2 p] queue_ok_frame [of p p2] by (simp add: lease_ok_def driver_place_def)
  have panic: "lease_ok (lower_flags (p\<lparr>plane_driver := Some d1\<rparr>))"
    using ok none by (intro stopped_lease_ok [of p]) (auto simp: lease_ok_def driver_place_def lower_flags_def)
  from s ReadDriver d r have "p' = read_driver ops p" by (simp add: actor_step_def)
  with d r show ?thesis
    using close_lease [OF ok none] panic
    by (auto simp: read_driver_def close_actor_def none Let_def intro!: go split: result.splits read_status.splits)
next
  case (GotData bs)
  then have "exclusive p = None" using ok by (cases "exclusive p") (auto simp: lease_ok_def)
  with s GotData ok show ?thesis by (auto simp: actor_step_def intro!: lease_ok_frame [OF ok])
next
  case Stopped
  with s show ?thesis by (simp add: actor_step_def)
qed

section \<open>The clients keep the invariant\<close>

lemma answer_lease:
  assumes ok: "lease_ok p" and old: "clients p tid = None \<or> (\<exists>c0. clients p tid = Some c0 \<and> driverless c0 \<and> (\<forall>w. c0 \<noteq> Awaiting w))"
    and d: "driverless d" "\<And>a c. d = Sending a c \<Longrightarrow> sendable tid a c"
    and p': "clients p' = (clients p)(tid \<mapsto> d)" "plane_commands p' = plane_commands p" "exclusive p' = exclusive p"
      "plane_driver p' = plane_driver p" "actor p' = actor p"
  shows "lease_ok p'"
proof -
  have "queue_ok (answer tid d p)"
    using ok old d by (intro queue_ok_answer) (auto simp: lease_ok_def)
  moreover have "holders (answer tid d p) = holders p" using old d(1) by (intro holders_answer) auto
  ultimately have "lease_ok (answer tid d p)" using ok by (auto simp: lease_ok_def driver_place_def split: option.splits)
  then show ?thesis by (rule lease_ok_frame) (simp_all add: p' answer_def)
qed

text \<open>The client that has the driver goes on with it.\<close>

lemma holder_lease:
  assumes ok: "lease_ok p" and l: "clients p tid = Some (Leasing l)"
  shows "\<exists>s name. lease_driver l = Some s \<and> exclusive p = Some (lease_owner l, name) \<and> plane_driver p = None \<and> actor p = LoopHead \<and>
    holders p = {(tid, lease_owner l, s, lease_prefetched l)}"
proof -
  have "lease_driver l \<noteq> None" using ok l unfolding lease_ok_def queue_ok_def by blast
  then obtain s where s: "lease_driver l = Some s" by blast
  then have "(tid, lease_owner l, s, lease_prefetched l) \<in> holders p" using l by (auto simp: holders_def)
  with ok s show ?thesis by (auto simp: lease_ok_def driver_place_def split: option.splits)
qed

lemma holder_goes_on:
  assumes ok: "lease_ok p" and l: "clients p tid = Some (Leasing l)"
    and d: "d = Leasing l' \<and> l' = \<lparr>lease_owner = lease_owner l, lease_driver = Some s', lease_prefetched = pre'\<rparr> \<or>
      d = Sending False (CmdReturn (lease_owner l) s' pre' tid)"
    and p': "clients p' = (clients p)(tid \<mapsto> d)" "plane_commands p' = plane_commands p" "exclusive p' = exclusive p"
      "plane_driver p' = plane_driver p" "actor p' = actor p"
  shows "lease_ok p'"
proof -
  obtain s name where h: "exclusive p = Some (lease_owner l, name)" "plane_driver p = None" "actor p = LoopHead"
    "holders p = {(tid, lease_owner l, s, lease_prefetched l)}"
    using holder_lease [OF ok l] by blast
  have "queue_ok (answer tid d p)" using ok l d by (intro queue_ok_answer) (auto simp: lease_ok_def sendable_def)
  then have "queue_ok p'" by (rule queue_ok_frame) (simp_all add: p' answer_def)
  moreover have "holders p' = {(tid, lease_owner l, s', pre')}"
  proof -
    have "CmdReturn o' s pre tid \<notin> set (plane_commands p)" for o' s pre
      using ok l by (fastforce simp: lease_ok_def queue_ok_def)
    then have "(t, o', r, pre) \<in> holders p' \<longleftrightarrow>
        (if t = tid then (o', r, pre) = (lease_owner l, s', pre') else (t, o', r, pre) \<in> holders p)" for t o' r pre
      using d by (auto simp: holders_def p')
    then show ?thesis using h(4) by (auto split: if_splits)
  qed
  ultimately show ?thesis using h p' by (simp add: lease_ok_def driver_place_def)
qed

lemma exclusive_read_keeps:
  "exclusive_read ops n l = (r, l', k) \<Longrightarrow> lease_owner l' = lease_owner l \<and> (lease_driver l' = None \<longleftrightarrow> lease_driver l = None)"
  by (auto simp: exclusive_read_def Let_def split: if_splits option.splits prod.splits result.splits read_status.splits)

lemma exclusive_write_keeps:
  "exclusive_write ops data l = (r, l', k) \<Longrightarrow>
   lease_owner l' = lease_owner l \<and> lease_prefetched l' = lease_prefetched l \<and> (lease_driver l' = None \<longleftrightarrow> lease_driver l = None)"
  by (auto simp: exclusive_write_def Let_def split: option.splits prod.splits result.splits)

lemma leasing_again:
  assumes "lease_ok p" "clients p tid = Some (Leasing l)" "lease_owner l' = lease_owner l"
    "lease_driver l' = None \<longleftrightarrow> lease_driver l = None"
    "clients p' = (clients p)(tid \<mapsto> Leasing l')" "plane_commands p' = plane_commands p" "exclusive p' = exclusive p"
    "plane_driver p' = plane_driver p" "actor p' = actor p"
  shows "lease_ok p'"
proof -
  from holder_lease [OF assms(1,2)] assms(4) obtain s' where "lease_driver l' = Some s'" by auto
  with assms(3) show ?thesis
    by (intro holder_goes_on [OF assms(1,2) _ assms(5-9), of l' s' "lease_prefetched l'"]) simp
qed

lemma queue_ok_send:
  assumes ok: "queue_ok p" and c: "clients p tid = Some (Sending async c)"
  shows "queue_ok (answer tid (after_send c) (p\<lparr>plane_commands := plane_commands p @ [c]\<rparr>))"
proof -
  have fresh: "cmd_client c' \<noteq> Some tid" if "c' \<in> set (plane_commands p)" for c'
    using ok c that awaits_client [of c' tid] unfolding queue_ok_def
    by (metis client.distinct(1) option.inject option.simps(9))
  have "sendable tid async c" using ok c unfolding queue_ok_def by blast
  then have cc: "cmd_client c = None \<or> cmd_client c = Some tid" by (simp add: sendable_def)
  let ?cl = "(clients p)(tid \<mapsto> after_send c)"
  have no: "\<And>t a c'. ?cl t = Some (Sending a c') \<Longrightarrow> sendable t a c'" "\<And>t l. ?cl t = Some (Leasing l) \<Longrightarrow> lease_driver l \<noteq> None"
    using ok unfolding queue_ok_def by (auto simp: after_send_def split: if_splits option.splits)
  have "distinct (List.map_filter cmd_client (plane_commands p @ [c]))"
    using ok cc fresh unfolding queue_ok_def by (fastforce simp: map_filter_def)
  moreover have "?cl t = map_option Awaiting (awaits c')" if "c' \<in> set (plane_commands p @ [c])" "cmd_client c' = Some t" for c' t
  proof (cases "t = tid")
    case True
    then have "c' = c" using that fresh by auto
    with that(2) True awaits_client [of c tid] show ?thesis by (auto simp: after_send_def)
  next
    case False
    then have "c' \<in> set (plane_commands p)" using that cc by auto
    with False that(2) ok show ?thesis unfolding queue_ok_def by simp
  qed
  ultimately show ?thesis unfolding queue_ok_def answer_def using no by simp
qed

lemma send_command_lease:
  assumes ok: "lease_ok p" and c: "clients p tid = Some (Sending async c)" and s: "send_command async c tid p = Some p'"
  shows "lease_ok p'"
proof (cases "\<exists>own d pre t. c = CmdReturn own d pre t")
  case True
  then obtain own d pre t where cr: "c = CmdReturn own d pre t" by blast
  have "sendable tid async c" using ok c unfolding lease_ok_def queue_ok_def by blast
  then have t: "t = tid" "\<not> async" using cr by (auto simp: sendable_def)
  have mem: "(tid, own, d, pre) \<in> holders p" using c cr t by (auto simp: holders_def)
  with ok obtain name where h: "exclusive p = Some (own, name)" "plane_driver p = None" "actor p = LoopHead"
    "holders p = {(tid, own, d, pre)}"
    by (auto simp: lease_ok_def driver_place_def split: option.splits)
  have new: "CmdReturn o' r x tid \<notin> set (plane_commands p)" for o' r x
    using ok c by (fastforce simp: lease_ok_def queue_ok_def)
  show ?thesis
  proof (cases "length (plane_commands p) < COMMAND_CAPACITY")
    case True
    with s h cr t have p': "p' = answer tid (Awaiting OpReturn) (p\<lparr>plane_commands := plane_commands p @ [c]\<rparr>)"
      by (auto simp: send_command_def after_send_def)
    have "queue_ok p'" using ok queue_ok_send [OF _ c] unfolding p' cr after_send_def lease_ok_def by simp
    moreover have "holders p' = holders p"
    proof -
      have "(t', o', r, x) \<in> holders p' \<longleftrightarrow> (t', o', r, x) \<in> holders p" for t' o' r x
        using new c unfolding p' cr t(1) holders_def answer_def by (cases "t' = tid") auto
      then show ?thesis by auto
    qed
    ultimately show ?thesis using h p' by (simp add: lease_ok_def driver_place_def)
  next
    case False
    with s h t show ?thesis by (simp add: send_command_def)
  qed
next
  case False
  then have old: "driverless (Sending async c)" by (cases c) auto
  have cc: "sendable tid async c" using ok c unfolding lease_ok_def queue_ok_def by blast
  consider (stopped) "actor p = Stopped" "p' = send_failed c tid p"
    | (room) "actor p \<noteq> Stopped" "p' = answer tid (after_send c) (p\<lparr>plane_commands := plane_commands p @ [c]\<rparr>)"
    | (full) e where "p' = answer tid (Finished (Err e)) p"
    using s by (auto simp: send_command_def split: if_splits)
  then show ?thesis
  proof cases
    case stopped
    have same: "plane_commands p' = plane_commands p" "exclusive p' = exclusive p" "plane_driver p' = plane_driver p"
      "actor p' = actor p"
      unfolding stopped(2) by (cases c; simp)+
    show ?thesis
    proof (cases "\<exists>i. c = CmdUnsubscribe i")
      case True
      with stopped(2) ok show ?thesis by auto
    next
      case nu: False
      obtain r where "clients p' = (clients p)(tid \<mapsto> Finished r)"
        using nu False unfolding stopped(2) by (cases c) (auto simp: answer_def)
      then show ?thesis using old c same by (intro answer_lease [OF ok]) auto
    qed
  next
    case room
    have "queue_ok p'" using ok queue_ok_send [OF _ c] unfolding room(2) lease_ok_def by simp
    moreover have "holders p' = holders p"
    proof -
      have d: "driverless (after_send c)" by (cases c) (auto simp: after_send_def)
      have "holders p' = holders (p\<lparr>plane_commands := plane_commands p @ [c]\<rparr>)"
        using d old c unfolding room(2) by (intro holders_answer) auto
      also have "\<dots> = holders p" using False by (auto simp: holders_def)
      finally show ?thesis .
    qed
    ultimately show ?thesis using ok room(1) unfolding room(2)
      by (auto simp: lease_ok_def driver_place_def split: option.splits)
  next
    case full
    then show ?thesis using old c by (intro answer_lease [OF ok]) (auto simp: answer_def)
  qed
qed

lemma start_lease:
  assumes "lease_ok p" "idle_client tid p" "driverless d" "\<And>a c. d = Sending a c \<Longrightarrow> sendable tid a c"
    and "clients q = clients p" "plane_commands q = plane_commands p" "exclusive q = exclusive p" "plane_driver q = plane_driver p"
      "actor q = actor p"
  shows "lease_ok (answer tid d q)"
proof -
  have "clients p tid = None \<or> (\<exists>c0. clients p tid = Some c0 \<and> driverless c0 \<and> (\<forall>w. c0 \<noteq> Awaiting w))"
    using assms(2) by (auto simp: idle_client_def split: option.splits client.splits)
  then show ?thesis using assms by (intro answer_lease [OF assms(1), of tid d]) (auto simp: answer_def)
qed

lemma unsubscribe_lease:
  assumes "lease_ok p" "clients p' = clients p" "exclusive p' = exclusive p" "plane_driver p' = plane_driver p" "actor p' = actor p"
    "plane_commands p' = plane_commands p \<or> (actor p \<noteq> Stopped \<and> plane_commands p' = plane_commands p @ [CmdUnsubscribe i])"
  shows "lease_ok p'"
proof -
  have "holders p' = holders p" using assms(2,6) by (auto simp: holders_def)
  moreover have "queue_ok p'" using assms unfolding lease_ok_def queue_ok_def by (auto simp: map_filter_def)
  ultimately show ?thesis using assms by (auto simp: lease_ok_def driver_place_def split: option.splits)
qed

lemma plane_step_lease:
  assumes "plane_step ops p p'" "lease_ok p"
  shows "lease_ok p'"
  using assms
proof (induction rule: plane_step.induct)
  case (actor p p')
  then show ?case by (rule actor_step_lease [rotated])
next
  case (writes tid p async data)
  then show ?case by (auto simp: start_write_def sendable_def intro!: start_lease [of p])
next
  case (resizes tid p async cols rows)
  then show ?case by (auto simp: start_resize_def sendable_def intro!: start_lease [of p])
next
  case (shuts_down tid p)
  then show ?case by (auto simp: start_shutdown_def sendable_def intro!: start_lease [of p])
next
  case (subscribes tid p consumer capacity)
  then show ?case by (auto simp: start_subscribe_def sendable_def Let_def intro!: start_lease [of p])
next
  case (acquires tid p name)
  then show ?case by (auto simp: start_acquire_def sendable_def Let_def intro!: start_lease [of p])
next
  case (sends p tid async c p')
  from sends(3,1,2) show ?case by (rule send_command_lease)
next
  case (unanswered p tid operation)
  have stopped: "plane_commands p = []" "exclusive p = None" "holders p = {}"
    using unanswered(2,3) by (auto simp: lease_ok_def driver_place_def split: option.splits)
  have "lease_ok p1" if p1: "clients p1 = (clients p)(tid \<mapsto> Finished r)" "plane_commands p1 = plane_commands p"
      "exclusive p1 = exclusive p" "plane_driver p1 = plane_driver p" "actor p1 = actor p" for p1 r
  proof -
    have "queue_ok p1" using unanswered(3) stopped(1) p1 by (auto simp: lease_ok_def queue_ok_def)
    moreover have "holders p1 = {}" using stopped p1(1,2) by (auto simp: holders_def split: if_splits)
    ultimately show ?thesis using p1 stopped unanswered(2) by (simp add: lease_ok_def driver_place_def)
  qed
  then show ?case by (cases operation) (simp_all add: answer_def)
next
  case (refused p tid e)
  then show ?case by (intro answer_lease [OF refused(2), of tid "Finished (Err e)"]) (auto simp: lower_exclusive_def answer_def)
next
  case (returned p tid r)
  then show ?case by (intro answer_lease [OF returned(2), of tid "Finished r"]) (auto simp: lower_exclusive_def answer_def)
next
  case (lease_read p tid l n)
  obtain r l' k where r: "exclusive_read ops n l = (r, l', k)" by (metis surj_pair)
  with lease_read exclusive_read_keeps [OF r] show ?case
    by (intro leasing_again [OF lease_read(2,1), of l']) (auto simp: lease_reads_def answer_def)
next
  case (lease_write p tid l data)
  obtain r l' k where r: "exclusive_write ops data l = (r, l', k)" by (metis surj_pair)
  with lease_write exclusive_write_keeps [OF r] show ?case
    by (intro leasing_again [OF lease_write(2,1), of l']) (auto simp: lease_writes_def answer_def)
next
  case (lease_flush p tid l)
  then show ?case
    by (intro leasing_again [OF lease_flush(2,1), of "snd (exclusive_flush ops l)"])
      (auto simp: lease_flushes_def answer_def exclusive_flush_def Let_def split: option.splits prod.splits)
next
  case (releases p tid l)
  obtain s where "lease_driver l = Some s" using holder_lease [OF releases(2,1)] by blast
  with releases show ?case
    by (intro holder_goes_on [OF releases(2,1), of "Sending False (CmdReturn (lease_owner l) s (lease_prefetched l) tid)" l s "lease_prefetched l"])
      (auto simp: release_def answer_def)
next
  case (consumes p i c ev evs)
  then show ?case by (auto simp: take_event_def intro: lease_ok_frame [OF consumes(3)])
next
  case (unsubscribes p i c)
  then show ?case by (intro unsubscribe_lease [OF unsubscribes(4), of _ i]) (auto simp: drop_subscription_def)
qed

lemma plane_reach_lease: "plane_reach ops driver p \<Longrightarrow> lease_ok p"
proof (induction rule: plane_reach.induct)
  case start
  then show ?case
    by (simp add: new_plane_def lease_ok_def queue_ok_def driver_place_def holders_def map_filter_simps)
qed (rule plane_step_lease)

section \<open>Properties\<close>

text \<open>The driver is never shared: in every reachable state with a lease there is exactly one client that has the
  driver or is giving it back, the actor has none and does nothing but wait for commands; without a lease no
  client has it and a running actor does. A returned driver always matches the lease.\<close>

theorem driver_in_one_place:
  assumes "plane_reach ops driver p"
  shows "(case exclusive p of
      Some (own, _) \<Rightarrow> plane_driver p = None \<and> actor p = LoopHead \<and> (\<exists>tid s pre. holders p = {(tid, own, s, pre)})
    | None \<Rightarrow> holders p = {} \<and> (actor p \<noteq> Stopped \<longrightarrow> plane_driver p \<noteq> None)) \<and>
    (\<forall>own s pre tid. CmdReturn own s pre tid \<in> set (plane_commands p) \<longrightarrow>
       map_option fst (exclusive p) = Some own \<and> plane_driver p = None)"
proof -
  note ok = plane_reach_lease [OF assms]
  have "map_option fst (exclusive p) = Some own \<and> plane_driver p = None"
    if "CmdReturn own s pre tid \<in> set (plane_commands p)" for own s pre tid
  proof -
    have "(tid, own, s, pre) \<in> holders p" using that by (auto simp: holders_def)
    with ok show ?thesis by (auto simp: lease_ok_def driver_place_def split: option.splits)
  qed
  with ok show ?thesis by (auto simp: lease_ok_def driver_place_def split: option.splits)
qed

definition demo_stream :: "(io_error + byte list) list \<Rightarrow> os_stream" where
  "demo_stream reads = \<lparr>os_reads = reads, os_write_errors = [], os_flush_errors = [], os_shutdown_error = None, os_written = []\<rparr>"

text \<open>Schedules: a list of moves, for examples of reachable states.\<close>

datatype plane_move = ActorMoves | Acquires string nat | Subscribes nat nat | Sends nat | Reads nat nat | Releases nat | Lowers nat

fun move :: "'s stream_ops \<Rightarrow> plane_move \<Rightarrow> 's plane \<Rightarrow> 's plane option" where
  "move ops ActorMoves p = actor_step ops p"
| "move ops (Acquires name tid) p = (if idle_client tid p then Some (start_acquire name tid p) else None)"
| "move ops (Subscribes capacity tid) p = (if idle_client tid p then Some (start_subscribe ''consumer'' capacity tid p) else None)"
| "move ops (Sends tid) p = (case clients p tid of Some (Sending async c) \<Rightarrow> send_command async c tid p | _ \<Rightarrow> None)"
| "move ops (Reads n tid) p = (case clients p tid of Some (Leasing l) \<Rightarrow> Some (lease_reads ops n tid l p) | _ \<Rightarrow> None)"
| "move ops (Releases tid) p = (case clients p tid of Some (Leasing l) \<Rightarrow> Some (release tid l p) | _ \<Rightarrow> None)"
| "move ops (Lowers tid) p =
     (case clients p tid of Some (ReturnAcked r) \<Rightarrow> Some (lower_exclusive tid r p)
      | Some (Refused e) \<Rightarrow> Some (lower_exclusive tid (Err e) p) | _ \<Rightarrow> None)"

fun moves :: "'s stream_ops \<Rightarrow> plane_move list \<Rightarrow> 's plane \<Rightarrow> 's plane option" where
  "moves ops [] p = Some p"
| "moves ops (m # ms) p = (case move ops m p of None \<Rightarrow> None | Some p' \<Rightarrow> moves ops ms p')"

lemma move_step: "move ops m p = Some p' \<Longrightarrow> plane_step ops p p'"
  by (cases m) (auto split: if_splits option.splits client.splits intro: plane_step.intros)

lemma moves_reach: "plane_reach ops driver p \<Longrightarrow> moves ops ms p = Some p' \<Longrightarrow> plane_reach ops driver p'"
  by (induction ms arbitrary: p) (auto split: option.splits dest!: move_step intro: plane_reach.step)

lemmas plane_run = new_plane_def actor_step_def receive_command_def handle_acquire_def handle_return_def
  take_unconsumed_bytes_def restore_unconsumed_bytes_def start_acquire_def release_def send_command_def after_send_def
  lower_exclusive_def answer_def idle_client_def Let_def COMMAND_CAPACITY_def publish_handoff_buffer_def

theorem driver_in_one_place_witness:
  "\<exists>p. moves tcp_ops [Acquires ''a'' 1, Sends 1, ActorMoves] (new_plane (demo_stream [])) = Some p \<and>
     plane_driver p = None \<and> holders p = {(1, 1, demo_stream [], [])}"
proof -
  obtain p where p: "moves tcp_ops [Acquires ''a'' 1, Sends 1, ActorMoves] (new_plane (demo_stream [])) = Some p"
    "exclusive p = Some (1, ''a'')"
    "clients p 1 = Some (Leasing \<lparr>lease_owner = 1, lease_driver = Some (demo_stream []), lease_prefetched = []\<rparr>)"
    by (simp add: plane_run)
  have "plane_reach tcp_ops (demo_stream []) p" using moves_reach [OF plane_reach.start p(1)] .
  from driver_in_one_place [OF this] p(2) obtain tid s pre where "plane_driver p = None" "holders p = {(tid, 1, s, pre)}"
    by auto
  moreover have "(1, 1, demo_stream [], []) \<in> holders p" using p(3) by (simp add: holders_def)
  ultimately show ?thesis using p(1) by auto
qed

text \<open>C38. The flag that keeps other users off a leased driver can be down during a lease, for any driver: who gives a
  lease back lowers the flag once more after the actor has done so and has acknowledged it, and in between
  another client may have raised it and have got the driver.\<close>

theorem lease_flag_lost:
  "\<exists>p l. plane_reach ops driver p \<and> clients p 2 = Some (Leasing l) \<and> lease_driver l = Some driver \<and>
     exclusive p \<noteq> None \<and> \<not> exclusive_active p"
proof -
  obtain p where p: "moves ops [Acquires ''a'' 1, Sends 1, ActorMoves, Releases 1, Sends 1, ActorMoves] (new_plane driver) = Some p"
    "clients p 1 = Some (ReturnAcked (Ok ()))" "clients p 2 = None" "exclusive p = None" "\<not> exclusive_active p"
    "plane_driver p = Some driver" "actor p = LoopHead" "plane_commands p = []"
    by (simp add: plane_run)
  then obtain q l where "moves ops [Acquires ''b'' 2, Sends 2, ActorMoves, Lowers 1] p = Some q"
    "clients q 2 = Some (Leasing l)" "lease_driver l = Some driver" "exclusive q \<noteq> None" "\<not> exclusive_active q"
    by (simp add: plane_run)
  then show ?thesis using moves_reach [OF moves_reach [OF plane_reach.start p(1)]] by blast
qed

end
