(* ===== verification/Data_Plane_Routing.thy ===== *)
theory Data_Plane_Routing
  imports Data_Plane_Lease Telnet_Driver
begin

text \<open>
  Where the bytes of a data plane go. Every byte that the driver delivers is routed once and in order: to
  the subscribers of the moment, to the lease, or, when the backlog of a plane without subscribers is full, nowhere. What has not
  been routed waits in the startup buffer, the handoff buffer, the actor's hands or the prefetched bytes
  of the lease. Each subscriber receives all that is shared while it is attached, without gaps.

  The lemmas hold for any driver that keeps the contract \<open>stream_driver\<close>; the properties instantiate it.
\<close>

section \<open>Accounting for bytes\<close>

fun route_bytes :: "route \<Rightarrow> byte list" where
  "route_bytes (Shared _ bs) = bs"
| "route_bytes (Overflow bs) = bs"
| "route_bytes (LeaseRead _ bs) = bs"

definition routed_bytes :: "'s plane \<Rightarrow> byte list" where
  "routed_bytes p = concat (map route_bytes (routed p))"

definition in_flight :: "'s plane \<Rightarrow> byte list" where
  "in_flight p = (case actor p of GotData bs \<Rightarrow> bs | _ \<Rightarrow> [])"

definition remaining :: "('s \<Rightarrow> byte list) \<Rightarrow> 's plane \<Rightarrow> byte list \<Rightarrow> bool" where
  "remaining input p z \<longleftrightarrow>
     (if exclusive p = None then \<exists>s. plane_driver p = Some s \<and> z = input s
      else \<exists>tid own s pre. (tid, own, s, pre) \<in> holders p \<and> z = pre @ input s)"

definition accounted :: "'s plane \<Rightarrow> byte list" where
  "accounted p = routed_bytes p @ concat (startup_buffer p) @ handoff_buffer p @ in_flight p"

definition buffers_ok :: "'s plane \<Rightarrow> bool" where
  "buffers_ok p \<longleftrightarrow> startup_buffer_bytes p = length (concat (startup_buffer p)) \<and>
     startup_buffer_bytes p \<le> STARTUP_BUFFER_LIMIT \<and> (subscribers p \<noteq> [] \<longrightarrow> startup_buffer p = [])"

definition order_ok :: "('s \<Rightarrow> byte list) \<Rightarrow> byte list \<Rightarrow> 's plane \<Rightarrow> bool" where
  "order_ok input bytes p \<longleftrightarrow> buffers_ok p \<and>
     (handoff_buffer p \<noteq> [] \<longrightarrow> actor p = LoopHead \<or> actor p = Stopped) \<and>
     (exclusive p \<noteq> None \<longrightarrow> startup_buffer p = [] \<and> handoff_buffer p = []) \<and>
     (\<exists>z. accounted p @ z = bytes \<and> (actor p \<noteq> Stopped \<longrightarrow> remaining input p z))"

lemma trim_startup_spec:
  "trim_startup cs n = (kept, n', rs) \<Longrightarrow> n = length (concat cs) \<Longrightarrow>
   concat (map route_bytes rs) @ concat kept = concat cs \<and> n' = length (concat kept) \<and> n' \<le> STARTUP_BUFFER_LIMIT"
proof (induction cs arbitrary: n kept n' rs)
  case (Cons c cs)
  obtain k m qs where t: "trim_startup cs (n - length c) = (k, m, qs)" by (metis surj_pair)
  show ?case
  proof (cases "n > STARTUP_BUFFER_LIMIT")
    case True
    with Cons.prems t have "kept = k" "n' = m" "rs = Overflow c # qs" by auto
    with Cons.IH [OF t] Cons.prems(2) show ?thesis by simp
  next
    case False
    with Cons.prems show ?thesis by auto
  qed
qed simp

lemma publish_order:
  assumes "buffers_ok p"
  shows "buffers_ok (publish_shared_data bs p)"
    "routed_bytes (publish_shared_data bs p) @ concat (startup_buffer (publish_shared_data bs p)) =
     routed_bytes p @ concat (startup_buffer p) @ bs"
proof -
  obtain kept n rs where t: "trim_startup (startup_buffer p @ [bs]) (startup_buffer_bytes p + length bs) = (kept, n, rs)"
    by (metis surj_pair)
  note ts = trim_startup_spec [OF t]
  show "buffers_ok (publish_shared_data bs p)"
    "routed_bytes (publish_shared_data bs p) @ concat (startup_buffer (publish_shared_data bs p)) =
     routed_bytes p @ concat (startup_buffer p) @ bs"
    using assms t ts
    by (auto simp: publish_shared_data_def buffers_ok_def routed_bytes_def Let_def split: prod.splits)
qed

lemma publish_handoff_order:
  assumes "buffers_ok p"
  shows "buffers_ok (publish_handoff_buffer p)"
    "routed_bytes (publish_handoff_buffer p) @ concat (startup_buffer (publish_handoff_buffer p)) =
     routed_bytes p @ concat (startup_buffer p) @ handoff_buffer p"
  using publish_order [of "p\<lparr>handoff_buffer := []\<rparr>" "handoff_buffer p"] assms
  by (simp_all add: publish_handoff_buffer_def buffers_ok_def routed_bytes_def)

text \<open>States that agree on what the accounting looks at.\<close>

lemma order_ok_frame:
  assumes "order_ok input bytes p" "buffers_ok p'" "routed_bytes p' = routed_bytes p" "startup_buffer p' = startup_buffer p"
    "handoff_buffer p' = handoff_buffer p" "in_flight p' = in_flight p" "exclusive p' = exclusive p"
    "handoff_buffer p \<noteq> [] \<longrightarrow> actor p' = LoopHead \<or> actor p' = Stopped"
    "actor p' \<noteq> Stopped \<Longrightarrow> actor p \<noteq> Stopped" "\<And>z. actor p' \<noteq> Stopped \<Longrightarrow> remaining input p z \<Longrightarrow> remaining input p' z"
  shows "order_ok input bytes p'"
  using assms by (auto simp: order_ok_def accounted_def)

lemma order_ok_stop:
  assumes "order_ok input bytes p" "clients p' = clients p" "routed p' = routed p" "startup_buffer p' = startup_buffer p"
    "startup_buffer_bytes p' = startup_buffer_bytes p" "handoff_buffer p' = handoff_buffer p" "in_flight p = []"
    "exclusive p' = None" "actor p' = Stopped" "subscribers p' = []"
  shows "order_ok input bytes p'"
  using assms by (auto simp: order_ok_def accounted_def buffers_ok_def routed_bytes_def in_flight_def)

lemma holders_mono:
  assumes "\<And>own s pre t. CmdReturn own s pre t \<in> set (plane_commands p) \<Longrightarrow> CmdReturn own s pre t \<in> set (plane_commands p')"
    and "clients p' = clients p \<or> clients p' = (clients p)(tid \<mapsto> d)"
    and "clients p' \<noteq> clients p \<Longrightarrow> clients p tid = None \<or> (\<exists>c0. clients p tid = Some c0 \<and> driverless c0)"
  shows "holders p \<subseteq> holders p'"
proof -
  have "clients p' t = Some c" if "clients p t = Some c" "\<not> driverless c" for t c
    using that assms(2,3) by (cases "clients p' = clients p"; cases "t = tid") auto
  then show ?thesis using assms(1) unfolding holders_def by fastforce
qed

lemma remaining_mono:
  "exclusive p' = exclusive p \<Longrightarrow> (exclusive p = None \<Longrightarrow> map_option input (plane_driver p') = map_option input (plane_driver p)) \<Longrightarrow>
   (exclusive p \<noteq> None \<Longrightarrow> holders p \<subseteq> holders p') \<Longrightarrow> remaining input p z \<Longrightarrow> remaining input p' z"
  unfolding remaining_def by (cases "exclusive p = None") (auto, blast)

section \<open>The actor\<close>

text \<open>A command that answers a client and changes nothing else but the state of the driver, not its input.\<close>

definition answers_only :: "('s \<Rightarrow> byte list) \<Rightarrow> nat \<Rightarrow> 's plane \<Rightarrow> 's plane \<Rightarrow> bool" where
  "answers_only input tid p p1 \<longleftrightarrow>
     (\<exists>d. clients p1 = (clients p)(tid \<mapsto> d)) \<and> plane_commands p1 = plane_commands p \<and> exclusive p1 = exclusive p \<and>
     actor p1 = actor p \<and> routed p1 = routed p \<and> startup_buffer p1 = startup_buffer p \<and>
     startup_buffer_bytes p1 = startup_buffer_bytes p \<and> handoff_buffer p1 = handoff_buffer p \<and>
     subscribers p1 = subscribers p \<and> subscriptions p1 = subscriptions p \<and>
     next_subscription_id p1 = next_subscription_id p \<and>
     map_option input (plane_driver p1) = map_option input (plane_driver p)"

context stream_driver
begin

lemma handle_write_answers: "handle_write ops data tid p = Ok (out, p1) \<Longrightarrow> answers_only stream_input tid p p1"
  using write_keeps [of data] flush_keeps
  by (auto simp: handle_write_def answers_only_def answer_def Let_def split_beta split: option.splits result.splits if_splits)

lemma handle_resize_answers: "handle_resize ops cols rows tid p = Ok (out, p1) \<Longrightarrow> answers_only stream_input tid p p1"
  using resize_keeps
  by (auto simp: handle_resize_def answers_only_def answer_def Let_def split_beta split: option.splits if_splits)

lemma handle_shutdown_answers: "handle_shutdown ops tid p = Ok (out, p1) \<Longrightarrow> answers_only stream_input tid p p1"
  using shutdown_keeps
  by (auto simp: handle_shutdown_def answers_only_def answer_def Let_def split_beta simp del: not_None_eq
      split: option.splits if_splits)

lemma answered_order:
  assumes ok: "lease_ok p" "order_ok stream_input bytes p" and q: "plane_commands p = c # cs" "cmd_client c = Some tid"
      "\<And>own s pre t. c \<noteq> CmdReturn own s pre t"
    and p1: "answers_only stream_input tid (p\<lparr>plane_commands := cs\<rparr>) p1"
  shows "order_ok stream_input bytes p1"
proof -
  have "clients p tid = map_option Awaiting (awaits c)"
    using ok(1) q by (auto simp: lease_ok_def queue_ok_def)
  then have "\<exists>c0. clients p tid = Some c0 \<and> driverless c0" using awaits_client [OF q(2)] by auto
  moreover obtain d where "clients p1 = (clients p)(tid \<mapsto> d)" using p1 by (auto simp: answers_only_def)
  ultimately have "holders p \<subseteq> holders p1"
    using p1 q by (intro holders_mono [of p p1 tid d]) (auto simp: answers_only_def)
  then have "remaining stream_input p z \<Longrightarrow> remaining stream_input p1 z" for z
    using p1 by (auto simp: answers_only_def intro: remaining_mono)
  moreover have "handoff_buffer p \<noteq> [] \<longrightarrow> actor p = LoopHead \<or> actor p = Stopped" using ok(2) by (simp add: order_ok_def)
  ultimately show ?thesis
    using ok(2) p1
    by (intro order_ok_frame [OF ok(2)]) (auto simp: answers_only_def buffers_ok_def routed_bytes_def in_flight_def order_ok_def)
qed

lemma handle_subscribe_order:
  assumes ok: "lease_ok p" "order_ok stream_input bytes p" and q: "plane_commands p = CmdSubscribe i consumer capacity # cs"
    and h: "handle_subscribe i consumer capacity (p\<lparr>plane_commands := cs\<rparr>) = (out, p1)" and pc: "in_flight p = []"
  shows "order_ok stream_input bytes p1"
proof (cases "subscriptions p i")
  case None
  with h have "p1 = p\<lparr>plane_commands := cs\<rparr>" by (simp add: handle_subscribe_def Let_def)
  moreover have "holders p \<subseteq> holders p1" using calculation q by (intro holders_mono) auto
  ultimately show ?thesis using ok(2)
    by (intro order_ok_frame [OF ok(2)]) (auto simp: buffers_ok_def routed_bytes_def in_flight_def order_ok_def intro: remaining_mono)
next
  case (Some c)
  have p1: "clients p1 = clients p" "plane_commands p1 = cs" "plane_driver p1 = plane_driver p" "exclusive p1 = exclusive p"
    "actor p1 = actor p" "handoff_buffer p1 = handoff_buffer p" "startup_buffer p1 = []" "startup_buffer_bytes p1 = 0"
    "routed_bytes p1 = routed_bytes p @ concat (startup_buffer p)"
    using h Some by (auto simp: handle_subscribe_def Let_def routed_bytes_def split: if_splits send_outcome.splits)
  have "holders p \<subseteq> holders p1" using p1(1,2) q by (intro holders_mono) auto
  then have rem: "remaining stream_input p z \<Longrightarrow> remaining stream_input p1 z" for z
    using p1(3,4) by (auto intro: remaining_mono)
  have "in_flight p1 = []" using pc p1(5) by (simp add: in_flight_def)
  then have "accounted p1 = accounted p" using p1 pc by (simp add: accounted_def)
  with ok(2) p1 rem show ?thesis by (auto simp: order_ok_def buffers_ok_def)
qed

lemma handle_unsubscribe_order:
  assumes ok: "order_ok stream_input bytes p" and q: "plane_commands p = CmdUnsubscribe i # cs"
    and h: "handle_unsubscribe i (p\<lparr>plane_commands := cs\<rparr>) = (out, p1)"
  shows "order_ok stream_input bytes p1"
proof -
  have p1: "p1 = p\<lparr>plane_commands := cs, subscribers := filter (\<lambda>s. sub_id s \<noteq> i) (subscribers p)\<rparr>"
    using h by (simp add: handle_unsubscribe_def)
  have "buffers_ok p" "handoff_buffer p \<noteq> [] \<longrightarrow> actor p = LoopHead \<or> actor p = Stopped"
    using ok by (simp_all add: order_ok_def)
  moreover have "buffers_ok p1" using \<open>buffers_ok p\<close> by (cases "subscribers p") (simp_all add: p1 buffers_ok_def)
  moreover have "holders p \<subseteq> holders p1" unfolding p1 using q by (intro holders_mono) auto
  then have "remaining stream_input p z \<Longrightarrow> remaining stream_input p1 z" for z
    by (intro remaining_mono [of p1 p]) (simp_all add: p1)
  ultimately show ?thesis
    by (intro order_ok_frame [OF ok]) (simp_all add: p1 routed_bytes_def in_flight_def)
qed

lemma handle_acquire_order:
  assumes ok: "lease_ok p" "order_ok stream_input bytes p" and q: "plane_commands p = CmdAcquire own name tid # cs"
    and h: "handle_acquire own name tid (p\<lparr>plane_commands := cs\<rparr>) = (out, p1)" and pc: "in_flight p = []"
      "actor p \<noteq> Stopped"
  shows "order_ok stream_input bytes p1"
proof (cases "exclusive p")
  case (Some e)
  with h have "answers_only stream_input tid (p\<lparr>plane_commands := cs\<rparr>) p1"
    by (auto simp: handle_acquire_def answers_only_def answer_def split: prod.splits)
  with answered_order [OF ok q] show ?thesis by simp
next
  case None
  obtain z s where z: "accounted p @ z = bytes" "plane_driver p = Some s" "z = stream_input s"
    using ok(2) None pc(2) by (auto simp: order_ok_def remaining_def)
  let ?pre = "concat (startup_buffer p) @ handoff_buffer p"
  from h None z(2) have p1: "clients p1 tid = Some (Leasing \<lparr>lease_owner = own, lease_driver = Some s, lease_prefetched = ?pre\<rparr>)"
    "exclusive p1 = Some (own, name)" "startup_buffer p1 = []" "handoff_buffer p1 = []" "startup_buffer_bytes p1 = 0"
    "routed_bytes p1 = routed_bytes p" "actor p1 = actor p"
    by (auto simp: handle_acquire_def take_unconsumed_bytes_def answer_def routed_bytes_def)
  have "(tid, own, s, ?pre) \<in> holders p1" using p1(1) by (simp add: holders_def)
  then have "remaining stream_input p1 (?pre @ stream_input s)" using p1(2) unfolding remaining_def by (simp del: append_assoc) blast
  moreover have "accounted p1 @ ?pre @ stream_input s = bytes"
    using z p1 pc(1) by (simp add: accounted_def in_flight_def)
  ultimately show ?thesis using p1 by (auto simp: order_ok_def buffers_ok_def)
qed

lemma handle_return_order:
  assumes ok: "lease_ok p" "order_ok stream_input bytes p" and q: "plane_commands p = CmdReturn own s pre tid # cs"
    and h: "handle_return ops own s pre tid (p\<lparr>plane_commands := cs\<rparr>) = Ok (out, p1)" and run: "actor p \<noteq> Stopped"
  shows "order_ok stream_input bytes p1"
proof -
  have ex: "map_option fst (exclusive p) = Some own" "plane_driver p = None" using handle_return_lease [OF ok(1) q] by auto
  have "(tid, own, s, pre) \<in> holders p" using q by (auto simp: holders_def)
  with ok(1) ex have hs: "holders p = {(tid, own, s, pre)}" and head: "actor p = LoopHead"
    by (auto simp: lease_ok_def driver_place_def split: option.splits)
  have "startup_buffer p = []" "handoff_buffer p = []" and z: "accounted p @ pre @ stream_input s = bytes"
    using ok(2) ex hs run by (auto simp: order_ok_def remaining_def)
  moreover obtain d where d: "plane_driver p1 = Some d" "stream_input d = stream_input s" "exclusive p1 = None" "actor p1 = LoopHead"
    "startup_buffer p1 = startup_buffer p" "startup_buffer_bytes p1 = startup_buffer_bytes p" "handoff_buffer p1 = pre @ handoff_buffer p"
    "subscribers p1 = subscribers p" "routed_bytes p1 = routed_bytes p"
    using h ex head shutdown_keeps [of s]
    by (auto simp: handle_return_def restore_unconsumed_bytes_def answer_def Let_def routed_bytes_def split: if_splits prod.splits)
  ultimately have "accounted p1 @ stream_input d = bytes" "remaining stream_input p1 (stream_input d)"
    using head by (simp_all add: accounted_def in_flight_def remaining_def)
  with ok(2) d show ?thesis by (auto simp: order_ok_def buffers_ok_def)
qed

lemma receive_command_order:
  assumes ok: "lease_ok p" "order_ok stream_input bytes p" and q: "plane_commands p = c # cs"
    and pc: "actor p = LoopHead \<or> actor p = DrainCommands"
  shows "order_ok stream_input bytes (receive_command ops c cs p)"
proof -
  have fl: "in_flight p = []" and run: "actor p \<noteq> Stopped" using pc by (auto simp: in_flight_def)
  have order: "order_ok stream_input bytes p1" if "handle_command ops c (p\<lparr>plane_commands := cs\<rparr>) = Ok (out, p1)" for out p1
    using that handle_write_answers handle_resize_answers handle_shutdown_answers answered_order [OF ok q]
      handle_subscribe_order [OF ok _ _ fl] handle_unsubscribe_order [OF ok(2)] handle_acquire_order [OF ok _ _ fl run]
      handle_return_order [OF ok _ _ run] q
    by (cases c) (fastforce)+
  have loop: "order_ok stream_input bytes (p1\<lparr>actor := LoopHead\<rparr>)"
    if "order_ok stream_input bytes p1" "in_flight p1 = []" "actor p1 \<noteq> Stopped" for p1
    using that by (intro order_ok_frame [OF that(1)]) (auto simp: order_ok_def buffers_ok_def routed_bytes_def in_flight_def remaining_def holders_def)
  show ?thesis
  proof (cases "handle_command ops c (p\<lparr>plane_commands := cs\<rparr>)")
    case (Ok op)
    obtain out p1 where op: "op = (out, p1)" by fastforce
    note o1 = order [OF Ok [unfolded op]] and l1 = handle_command_lease [OF ok(1) q run Ok [unfolded op]]
    have fl1: "in_flight p1 = []" using fl l1 by (simp add: in_flight_def)
    have "order_ok stream_input bytes (stop_actor ops b p1)"
      "order_ok stream_input bytes (stop_actor ops b (broadcast_close info p1))" for b info
      using fl1 by (auto intro!: order_ok_stop [OF o1])
    with o1 fl1 l1 run show ?thesis
      by (auto simp: receive_command_def Ok op intro!: loop split: command_outcome.split)
  qed (use ok(2) fl in \<open>auto simp: receive_command_def lower_flags_def intro!: order_ok_stop [OF ok(2)]\<close>)
qed

lemma actor_moves_order:
  assumes "order_ok stream_input bytes p" "in_flight p = []" "handoff_buffer p = []" "actor p \<noteq> Stopped" "in_flight (p\<lparr>actor := a\<rparr>) = []"
  shows "order_ok stream_input bytes (p\<lparr>actor := a\<rparr>)"
  using assms by (intro order_ok_frame [OF assms(1)]) (auto simp: order_ok_def buffers_ok_def routed_bytes_def remaining_def holders_def)

lemma handoff_published_order:
  assumes "order_ok stream_input bytes p" "actor p = LoopHead" "exclusive p = None"
  shows "order_ok stream_input bytes ((publish_handoff_buffer p)\<lparr>actor := DrainCommands\<rparr>)"
proof -
  have b: "buffers_ok p" using assms(1) by (simp add: order_ok_def)
  let ?p = "(publish_handoff_buffer p)\<lparr>actor := DrainCommands\<rparr>"
  have "buffers_ok ?p" using publish_handoff_order(1) [OF b] by (simp add: buffers_ok_def)
  moreover have "accounted ?p = accounted p"
    using publish_handoff_order(2) [OF b] assms(2) by (simp add: accounted_def routed_bytes_def in_flight_def flip: append_assoc)
  moreover have "remaining stream_input p z \<Longrightarrow> remaining stream_input ?p z" for z
    using assms(3) by (simp add: remaining_def)
  ultimately show ?thesis using assms by (auto simp: order_ok_def)
qed

lemma published_order:
  assumes ok: "order_ok stream_input bytes p" and a: "actor p = GotData bs" "exclusive p = None"
  shows "order_ok stream_input bytes
    ((if exclusive_active p then p\<lparr>handoff_buffer := handoff_buffer p @ bs\<rparr> else publish_shared_data bs p)\<lparr>actor := LoopHead\<rparr>)"
    (is "order_ok _ _ ?p")
proof -
  have b: "buffers_ok p" and h: "handoff_buffer p = []" using ok a by (auto simp: order_ok_def)
  have "buffers_ok ?p" using publish_order(1) [OF b, of bs] b by (simp add: buffers_ok_def)
  moreover have "accounted ?p = accounted p"
    using publish_order(2) [OF b, of bs] a(1) h by (simp add: accounted_def routed_bytes_def in_flight_def flip: append_assoc)
  moreover have "remaining stream_input p z \<Longrightarrow> remaining stream_input ?p z" for z
    using a(2) by (simp add: remaining_def)
  ultimately show ?thesis using ok a by (auto simp: order_ok_def)
qed

lemma read_driver_order:
  assumes ok: "lease_ok p" "order_ok stream_input bytes p" and a: "actor p = ReadDriver"
  shows "order_ok stream_input bytes (read_driver ops p)"
proof -
  have none: "exclusive p = None" using ok(1) a by (cases "exclusive p") (auto simp: lease_ok_def)
  with ok(1) a obtain s where s: "plane_driver p = Some s" by (auto simp: lease_ok_def driver_place_def)
  obtain r s1 where r: "ops_read ops READ_BUFFER_SIZE s = (r, s1)" by fastforce
  have fl: "in_flight p = []" "handoff_buffer p = []" and z: "accounted p @ stream_input s = bytes" and b: "buffers_ok p"
    using ok(2) a none s by (auto simp: order_ok_def in_flight_def remaining_def)
  let ?p = "p\<lparr>plane_driver := Some s1\<rparr>"
  have idle: "order_ok stream_input bytes (?p\<lparr>actor := LoopHead\<rparr>)" if "delivered r = []"
    using read_delivers [OF r] that ok(2) z s none fl b
    by (auto simp: order_ok_def accounted_def routed_bytes_def in_flight_def remaining_def buffers_ok_def)
  have stop: "order_ok stream_input bytes p'" if "delivered r = []" "clients p' = clients p" "routed p' = routed p"
      "startup_buffer p' = startup_buffer p" "startup_buffer_bytes p' = startup_buffer_bytes p"
      "handoff_buffer p' = handoff_buffer p" "exclusive p' = None" "actor p' = Stopped" "subscribers p' = []" for p'
    using order_ok_stop [OF ok(2) that(2-6) fl(1) that(7-9)] .
  have data: "order_ok stream_input bytes (?p\<lparr>rx_bytes := n, actor := GotData bs\<rparr>)" if "r = Ok (StreamData bs)" for bs n
    using read_delivers [OF r] that ok(2) z s none fl b
    by (auto simp: order_ok_def accounted_def routed_bytes_def in_flight_def remaining_def buffers_ok_def)
  have d: "delivered r = []" if "\<And>bs. r \<noteq> Ok (StreamData bs)" using that by (cases r rule: delivered.cases) auto
  show ?thesis
  proof (cases "\<exists>bs. r = Ok (StreamData bs)")
    case True
    then show ?thesis using data idle s r by (auto simp: read_driver_def Let_def)
  next
    case False
    with d have "delivered r = []" by blast
    with False show ?thesis using stop idle s r
      by (auto simp: read_driver_def close_actor_def lower_flags_def Let_def none split: result.splits read_status.splits)
  qed
qed

lemma actor_step_order:
  assumes ok: "lease_ok p" "order_ok stream_input bytes p" and s: "actor_step ops p = Some p'"
  shows "order_ok stream_input bytes p'"
proof -
  have none: "exclusive p = None" if "actor p \<noteq> LoopHead" using ok(1) that by (cases "exclusive p") (auto simp: lease_ok_def)
  have h: "handoff_buffer p = []" if "actor p \<noteq> LoopHead" "actor p \<noteq> Stopped" using ok(2) that by (auto simp: order_ok_def)
  show ?thesis
  proof (cases "actor p")
    case LoopHead
    show ?thesis
    proof (cases "exclusive p \<noteq> None \<or> exclusive_active p")
      case True
      with s LoopHead obtain c cs where "plane_commands p = c # cs" "p' = receive_command ops c cs p"
        by (auto simp: actor_step_def simp del: not_None_eq split: list.splits)
      with receive_command_order [OF ok] LoopHead show ?thesis by simp
    next
      case False
      with s LoopHead handoff_published_order [OF ok(2) LoopHead] show ?thesis
        by (auto simp: actor_step_def simp del: not_None_eq)
    qed
  next
    case DrainCommands
    with s receive_command_order [OF ok] h show ?thesis
      by (auto simp: actor_step_def in_flight_def split: list.splits intro!: actor_moves_order [OF ok(2)])
  next
    case CheckFlag
    with s h show ?thesis
      by (auto simp: actor_step_def in_flight_def split: if_splits intro!: actor_moves_order [OF ok(2)])
  next
    case ReadDriver
    with s read_driver_order [OF ok] show ?thesis by (simp add: actor_step_def)
  next
    case (GotData bs)
    with s published_order [OF ok(2) GotData] none show ?thesis by (simp add: actor_step_def)
  qed (use s in \<open>simp add: actor_step_def\<close>)
qed

subsection \<open>The clients\<close>

lemma client_order:
  assumes ok: "order_ok stream_input bytes p"
    and "routed p' = routed p" "startup_buffer p' = startup_buffer p" "startup_buffer_bytes p' = startup_buffer_bytes p"
      "handoff_buffer p' = handoff_buffer p" "subscribers p' = subscribers p" "exclusive p' = exclusive p"
      "plane_driver p' = plane_driver p" "actor p' = actor p" "actor p \<noteq> Stopped \<Longrightarrow> holders p \<subseteq> holders p'"
  shows "order_ok stream_input bytes p'"
proof -
  have "remaining stream_input p z \<Longrightarrow> remaining stream_input p' z" if "actor p' \<noteq> Stopped" for z
    using assms that by (auto intro: remaining_mono)
  then show ?thesis using assms
    by (intro order_ok_frame [OF ok]) (auto simp: order_ok_def buffers_ok_def routed_bytes_def in_flight_def)
qed

lemma started_order:
  assumes "order_ok stream_input bytes p" "idle_client tid p" "driverless d"
    and "clients q = clients p" "plane_commands q = plane_commands p" "exclusive q = exclusive p" "plane_driver q = plane_driver p"
      "actor q = actor p" "routed q = routed p" "startup_buffer q = startup_buffer p"
      "startup_buffer_bytes q = startup_buffer_bytes p" "handoff_buffer q = handoff_buffer p" "subscribers q = subscribers p"
  shows "order_ok stream_input bytes (answer tid d q)"
proof -
  have "clients q tid = None \<or> (\<exists>c0. clients q tid = Some c0 \<and> driverless c0)"
    using assms(2,4) by (auto simp: idle_client_def split: option.splits client.splits)
  then have "holders (answer tid d q) = holders q" using assms(3) by (intro holders_answer) auto
  moreover have "holders q = holders p" using assms(4,5) by (intro holders_frame)
  ultimately show ?thesis using assms by (intro client_order [OF assms(1)]) (auto simp: answer_def)
qed

lemma send_command_order:
  assumes ok: "order_ok stream_input bytes p" and c: "clients p tid = Some (Sending async c)"
    and a: "async \<Longrightarrow> driverless (Sending async c)" and s: "send_command async c tid p = Some p'"
  shows "order_ok stream_input bytes p'"
proof -
  have same: "routed p' = routed p" "startup_buffer p' = startup_buffer p" "startup_buffer_bytes p' = startup_buffer_bytes p"
    "handoff_buffer p' = handoff_buffer p" "subscribers p' = subscribers p" "exclusive p' = exclusive p"
    "plane_driver p' = plane_driver p" "actor p' = actor p"
    using s by (cases c; auto simp: send_command_def split: if_splits)+
  have "holders p \<subseteq> holders p'" if run: "actor p \<noteq> Stopped"
  proof (cases "length (plane_commands p) < COMMAND_CAPACITY")
    case True
    with s run have p': "p' = answer tid (after_send c) (p\<lparr>plane_commands := plane_commands p @ [c]\<rparr>)"
      by (simp add: send_command_def)
    have "(t, h) \<in> holders p'" if "(t, h) \<in> holders p" for t h
      using that c unfolding p' holders_def answer_def by (cases "t = tid") auto
    then show ?thesis by auto
  next
    case False
    with s run obtain e where p': "p' = answer tid (Finished (Err e)) p" and "async" by (auto simp: send_command_def split: if_splits)
    then have "holders p' = holders p" using a c unfolding p' by (intro holders_answer) auto
    then show ?thesis by simp
  qed
  with same show ?thesis by (intro client_order [OF ok])
qed

text \<open>The client that has the driver reads on, or begins to give it back.\<close>

lemma holder_order:
  assumes ok: "lease_ok p" "order_ok stream_input bytes p" and l: "clients p tid = Some (Leasing l)" "lease_driver l = Some s"
    and d: "clients p' = (clients p)(tid \<mapsto> d)"
      "d = Leasing \<lparr>lease_owner = lease_owner l, lease_driver = Some s', lease_prefetched = pre'\<rparr> \<or>
       d = Sending False (CmdReturn (lease_owner l) s' pre' tid)"
    and bytes: "concat (map route_bytes rs) @ pre' @ stream_input s' = lease_prefetched l @ stream_input s"
    and p': "routed p' = routed p @ rs" "plane_commands p' = plane_commands p" "exclusive p' = exclusive p"
      "startup_buffer p' = startup_buffer p" "startup_buffer_bytes p' = startup_buffer_bytes p"
      "handoff_buffer p' = handoff_buffer p" "subscribers p' = subscribers p" "actor p' = actor p"
  shows "order_ok stream_input bytes p'"
proof -
  obtain name where h: "exclusive p = Some (lease_owner l, name)" "actor p = LoopHead"
    "holders p = {(tid, lease_owner l, s, lease_prefetched l)}"
    using holder_lease [OF ok(1) l(1)] l(2) by auto
  then have z: "accounted p @ lease_prefetched l @ stream_input s = bytes" "startup_buffer p = []" "handoff_buffer p = []"
    using ok(2) by (auto simp: order_ok_def remaining_def)
  have "(tid, lease_owner l, s', pre') \<in> holders p'" using d by (auto simp: holders_def)
  then have "remaining stream_input p' (pre' @ stream_input s')" using h(1) p'(3) unfolding remaining_def by auto
  moreover have "accounted p' @ pre' @ stream_input s' = bytes"
    using z bytes h(2) p' by (simp add: accounted_def routed_bytes_def in_flight_def)
  moreover have "buffers_ok p'" using ok(2) p' by (simp add: order_ok_def buffers_ok_def)
  ultimately show ?thesis using z p' h by (auto simp: order_ok_def)
qed

lemma exclusive_read_delivers:
  assumes "exclusive_read ops n l = (r, l', k)" "lease_driver l = Some s"
  obtains s' where "l' = \<lparr>lease_owner = lease_owner l, lease_driver = Some s', lease_prefetched = lease_prefetched l'\<rparr>"
    "(case r of Ok bs \<Rightarrow> bs | _ \<Rightarrow> []) @ lease_prefetched l' @ stream_input s' = lease_prefetched l @ stream_input s"
proof -
  obtain x s1 where x: "ops_read ops n s = (x, s1)" by fastforce
  show ?thesis
  proof (cases "n = 0 \<or> lease_prefetched l \<noteq> []")
    case True
    with assms show ?thesis by (intro that [of s]) (auto simp: exclusive_read_def split: if_splits)
  next
    case False
    with assms x read_delivers [OF x] read_fits [OF x] show ?thesis
      by (intro that [of s1]) (auto simp: exclusive_read_def Let_def split: if_splits result.splits read_status.splits)
  qed
qed

lemma plane_step_order:
  assumes "plane_step ops p p'" "lease_ok p" "order_ok stream_input bytes p"
  shows "order_ok stream_input bytes p'"
  using assms
proof (induction rule: plane_step.induct)
  case (actor p p')
  then show ?case by (blast intro: actor_step_order)
next
  case (writes tid p async data)
  then show ?case by (auto simp: start_write_def intro!: started_order [of bytes p])
next
  case (resizes tid p async cols rows)
  then show ?case by (auto simp: start_resize_def intro!: started_order [of bytes p])
next
  case (shuts_down tid p)
  then show ?case by (auto simp: start_shutdown_def intro!: started_order [of bytes p])
next
  case (subscribes tid p consumer capacity)
  then show ?case by (auto simp: start_subscribe_def Let_def intro!: started_order [of bytes p])
next
  case (acquires tid p name)
  then show ?case by (auto simp: start_acquire_def Let_def intro!: started_order [of bytes p])
next
  case (sends p tid async c p')
  have "sendable tid async c" using sends(1,3) unfolding lease_ok_def queue_ok_def by blast
  then have "async \<Longrightarrow> driverless (Sending async c)" by (cases c) (auto simp: sendable_def)
  with sends show ?case by (intro send_command_order [of bytes p tid async c p'])
next
  case (unanswered p tid operation)
  then show ?case by (cases operation) (auto intro!: client_order [OF unanswered(4)])
next
  case (refused p tid e)
  then have "holders (lower_exclusive tid (Err e) p) = holders p"
    unfolding lower_exclusive_def by (subst holders_answer) (auto simp: holders_def)
  with refused show ?case by (intro client_order [OF refused(3)]) (auto simp: lower_exclusive_def)
next
  case (returned p tid r)
  then have "holders (lower_exclusive tid r p) = holders p"
    unfolding lower_exclusive_def by (subst holders_answer) (auto simp: holders_def)
  with returned show ?case by (intro client_order [OF returned(3)]) (auto simp: lower_exclusive_def)
next
  case (lease_read p tid l n)
  obtain s where s: "lease_driver l = Some s" using holder_lease [OF lease_read(2,1)] by blast
  obtain r l' k where r: "exclusive_read ops n l = (r, l', k)" by (metis surj_pair)
  from exclusive_read_delivers [OF r s] obtain s' where
    "l' = \<lparr>lease_owner = lease_owner l, lease_driver = Some s', lease_prefetched = lease_prefetched l'\<rparr>"
    "(case r of Ok bs \<Rightarrow> bs | _ \<Rightarrow> []) @ lease_prefetched l' @ stream_input s' = lease_prefetched l @ stream_input s" .
  then show ?case using r
    by (intro holder_order [OF lease_read(2,3,1) s, where d = "Leasing l'" and s' = s' and pre' = "lease_prefetched l'"
          and rs = "case r of Ok bs \<Rightarrow> [LeaseRead (lease_owner l) bs] | _ \<Rightarrow> []"])
      (auto simp: lease_reads_def answer_def split: result.splits)
next
  case (lease_write p tid l data)
  obtain s where s: "lease_driver l = Some s" using holder_lease [OF lease_write(2,1)] by blast
  obtain x s' where x: "ops_write_all ops data s = (x, s')" by fastforce
  then have "stream_input s' = stream_input s" using write_keeps [of data s] by simp
  then show ?case using s x
    by (intro holder_order [OF lease_write(2,3,1) s, where d = "Leasing (l\<lparr>lease_driver := Some s'\<rparr>)" and s' = s' and rs = "[]"
          and pre' = "lease_prefetched l"])
      (auto simp: lease_writes_def exclusive_write_def answer_def Let_def split: result.splits)
next
  case (lease_flush p tid l)
  obtain s where s: "lease_driver l = Some s" using holder_lease [OF lease_flush(2,1)] by blast
  obtain x s' where x: "ops_flush ops s = (x, s')" by fastforce
  then have "stream_input s' = stream_input s" using flush_keeps [of s] by simp
  then show ?case using s x
    by (intro holder_order [OF lease_flush(2,3,1) s, where d = "Leasing (l\<lparr>lease_driver := Some s'\<rparr>)" and s' = s' and rs = "[]"
          and pre' = "lease_prefetched l"])
      (auto simp: lease_flushes_def exclusive_flush_def answer_def Let_def)
next
  case (releases p tid l)
  obtain s where s: "lease_driver l = Some s" using holder_lease [OF releases(2,1)] by blast
  then show ?case
    by (intro holder_order [OF releases(2,3,1) s, where s' = s and rs = "[]" and pre' = "lease_prefetched l"
          and d = "Sending False (CmdReturn (lease_owner l) s (lease_prefetched l) tid)"])
      (auto simp: release_def answer_def)
next
  case (consumes p i c ev evs)
  then show ?case by (intro client_order [OF consumes(4)]) (auto simp: take_event_def holders_def)
next
  case (unsubscribes p i c)
  then show ?case by (intro client_order [OF unsubscribes(5)]) (auto simp: drop_subscription_def holders_def)
qed

theorem plane_reach_order: "plane_reach ops driver p \<Longrightarrow> order_ok stream_input (stream_input driver) p"
proof (induction rule: plane_reach.induct)
  case start
  show ?case
    by (simp add: new_plane_def order_ok_def buffers_ok_def accounted_def routed_bytes_def in_flight_def remaining_def)
next
  case (step p p')
  show ?case by (rule plane_step_order [OF step(2) plane_reach_lease [OF step(1)] step(3)])
qed

end

section \<open>When bytes are given up\<close>

definition turned_away :: "'s plane \<Rightarrow> nat \<Rightarrow> nat \<Rightarrow> bool" where
  "turned_away p i capacity \<longleftrightarrow>
     (case subscriptions p i of None \<Rightarrow> True | Some c \<Rightarrow> \<not> chan_open c \<or> capacity \<le> length (chan_queue c))"

text \<open>
  What allows a step from \<open>p\<close> to route bytes. Nobody is given them only if nobody takes them: the subscribers, or the new one that takes over the
  startup buffer, are gone or have their queues full; or there is no subscriber and more than the startup buffer may hold.
\<close>

fun route_allowed :: "'s plane \<Rightarrow> route \<Rightarrow> bool" where
  "route_allowed p (Shared ids bs) \<longleftrightarrow>
     ids \<noteq> [] \<or> (subscribers p \<noteq> [] \<and> (\<forall>s\<in>set (subscribers p). turned_away p (sub_id s) (sub_capacity s))) \<or>
     (\<exists>i consumer capacity cs. plane_commands p = CmdSubscribe i consumer capacity # cs \<and> turned_away p i capacity \<and> bs = concat (startup_buffer p))"
| "route_allowed p (Overflow bs) \<longleftrightarrow>
     subscribers p = [] \<and> STARTUP_BUFFER_LIMIT < length (concat (startup_buffer p) @ handoff_buffer p @ in_flight p)"
| "route_allowed p (LeaseRead own bs) \<longleftrightarrow> (\<exists>tid l. clients p tid = Some (Leasing l) \<and> lease_owner l = own)"

text \<open>A step routes what it may, and of a startup buffer that is too long no more than it has to.\<close>

definition routes_ok :: "'s plane \<Rightarrow> 's plane \<Rightarrow> bool" where
  "routes_ok p p' \<longleftrightarrow>
     (\<exists>rs. routed p' = routed p @ rs \<and> (\<forall>r\<in>set rs. route_allowed p r) \<and>
       (\<forall>bs. rs \<noteq> [] \<and> last rs = Overflow bs \<longrightarrow> STARTUP_BUFFER_LIMIT < length bs + length (concat (startup_buffer p'))))"

lemma routes_ok_same: "routed p' = routed p \<Longrightarrow> routes_ok p p'"
  by (simp add: routes_ok_def)

lemma routes_ok_frame: "routes_ok p q \<Longrightarrow> routed q' = routed q \<Longrightarrow> startup_buffer q' = startup_buffer q \<Longrightarrow> routes_ok p q'"
  by (simp add: routes_ok_def)

lemma trim_startup_needed:
  "trim_startup cs n = (kept, n', rs) \<Longrightarrow> n = length (concat cs) \<Longrightarrow>
   (\<forall>r\<in>set rs. \<exists>bs. r = Overflow bs) \<and> (rs \<noteq> [] \<longrightarrow> STARTUP_BUFFER_LIMIT < length (concat cs)) \<and>
   (\<forall>bs. rs \<noteq> [] \<and> last rs = Overflow bs \<longrightarrow> STARTUP_BUFFER_LIMIT < length bs + length (concat kept))"
proof (induction cs arbitrary: n kept n' rs)
  case (Cons c cs)
  obtain k m qs where t: "trim_startup cs (n - length c) = (k, m, qs)" by (metis surj_pair)
  show ?case
  proof (cases "n > STARTUP_BUFFER_LIMIT")
    case True
    with Cons.prems t have e: "kept = k" "n' = m" "rs = Overflow c # qs" by auto
    have "k = cs" if "qs = []"
    proof -
      have "n - length c \<le> STARTUP_BUFFER_LIMIT \<or> cs = []" using t that by (cases cs) (auto split: if_splits prod.splits)
      then show ?thesis using t by (cases cs) auto
    qed
    with Cons.IH [OF t] Cons.prems(2) True e show ?thesis by auto
  next
    case False
    with Cons.prems show ?thesis by auto
  qed
qed simp

lemma offer_nobody:
  "offer ev ss chans = ([], chans') \<Longrightarrow> s \<in> set ss \<Longrightarrow>
   (case chans (sub_id s) of None \<Rightarrow> True | Some c \<Rightarrow> \<not> chan_open c \<or> sub_capacity s \<le> length (chan_queue c))"
proof (induction ss arbitrary: chans)
  case (Cons t ss)
  show ?case
  proof (cases "chans (sub_id t)")
    case None
    with Cons show ?thesis by auto
  next
    case (Some c)
    then have away: "\<not> chan_open c \<or> sub_capacity t \<le> length (chan_queue c)"
      using Cons.prems(1) by (auto simp: try_send_def split: if_splits prod.splits)
    show ?thesis
    proof (cases "s = t")
      case True
      with Some away show ?thesis by simp
    next
      case False
      then have s: "s \<in> set ss" using Cons.prems(2) by simp
      obtain chans1 where c1: "offer ev ss chans1 = ([], chans')"
        "chans1 = chans \<or> (\<exists>r. chans1 = chans(sub_id t \<mapsto> set_subscription_end r c))"
        using Cons.prems(1) Some away by (auto simp: try_send_def split: if_splits prod.splits)
      from Cons.IH [OF c1(1) s] c1(2) Some show ?thesis
        by (auto simp: set_subscription_end_def split: option.splits if_splits)
    qed
  qed
qed simp

lemma publish_routes:
  assumes b: "buffers_ok p" and q: "q = p \<or> q = p\<lparr>handoff_buffer := []\<rparr>"
    and room: "length bs \<le> length (handoff_buffer p @ in_flight p)"
  shows "routes_ok p (publish_shared_data bs q)"
proof (cases "bs = []")
  case True
  then show ?thesis using q by (auto simp: publish_shared_data_def intro!: routes_ok_same)
next
  case False
  have same: "subscribers q = subscribers p" "startup_buffer q = startup_buffer p" "startup_buffer_bytes q = startup_buffer_bytes p"
    "routed q = routed p" "subscriptions q = subscriptions p" using q by auto
  show ?thesis
  proof (cases "subscribers p = []")
    case True
    obtain kept n rs where t: "trim_startup (startup_buffer p @ [bs]) (startup_buffer_bytes p + length bs) = (kept, n, rs)"
      by (metis surj_pair)
    have "startup_buffer_bytes p + length bs = length (concat (startup_buffer p @ [bs]))" using b by (simp add: buffers_ok_def)
    note needed = trim_startup_needed [OF t this]
    have "route_allowed p r" if "r \<in> set rs" for r
      using that needed room True by (cases rs) force+
    with needed t True False show ?thesis unfolding routes_ok_def by (auto simp: publish_shared_data_def same intro!: exI [of _ rs])
  next
    case nonempty: False
    obtain kept chans where o: "offer (PlaneData bs) (subscribers p) (subscriptions p) = (kept, chans)" by fastforce
    have "route_allowed p (Shared (map sub_id kept) bs)"
      using offer_nobody [of "PlaneData bs" "subscribers p" "subscriptions p" chans] o nonempty by (cases kept) (auto simp: turned_away_def)
    with o nonempty False show ?thesis
      unfolding routes_ok_def by (auto simp: publish_shared_data_def same intro!: exI [of _ "[Shared (map sub_id kept) bs]"])
  qed
qed

lemma subscribe_routes:
  assumes "plane_commands p = CmdSubscribe i consumer capacity # cs"
    "handle_subscribe i consumer capacity (p\<lparr>plane_commands := cs\<rparr>) = (out, p1)"
  shows "routes_ok p p1"
proof -
  have "routed p1 = routed p \<or> (\<exists>ids. routed p1 = routed p @ [Shared ids (concat (startup_buffer p))] \<and> (ids = [] \<longrightarrow> turned_away p i capacity))"
    using assms(2) by (auto simp: handle_subscribe_def Let_def turned_away_def try_send_def split: option.splits if_splits)
  then show ?thesis
  proof (elim disjE exE conjE)
    fix ids
    assume r: "routed p1 = routed p @ [Shared ids (concat (startup_buffer p))]" "ids = [] \<longrightarrow> turned_away p i capacity"
    then have "route_allowed p (Shared ids (concat (startup_buffer p)))" using assms(1) by auto
    then show ?thesis unfolding routes_ok_def using r(1) by (intro exI [of _ "[Shared ids (concat (startup_buffer p))]"]) simp
  qed (rule routes_ok_same)
qed

lemma receive_command_routes:
  assumes q: "plane_commands p = c # cs"
  shows "routes_ok p (receive_command ops c cs p)"
proof (cases "handle_command ops c (p\<lparr>plane_commands := cs\<rparr>)")
  case (Ok op)
  obtain out p1 where op: "op = (out, p1)" by fastforce
  have "routes_ok p p1"
  proof (cases c)
    case (CmdSubscribe i consumer capacity)
    with subscribe_routes [of p i consumer capacity cs out p1] q Ok op show ?thesis by simp
  qed (use Ok op in \<open>auto simp: handle_write_def handle_unsubscribe_def handle_acquire_def handle_return_def handle_resize_def handle_shutdown_def
      take_unconsumed_bytes_def restore_unconsumed_bytes_def answer_def Let_def split_beta intro!: routes_ok_same split: option.splits if_splits result.splits\<close>)
  moreover have "startup_buffer (stop_actor ops b u) = startup_buffer u" "startup_buffer (broadcast_close info u) = startup_buffer u" for b info u
    by (simp_all add: stop_actor_def lower_flags_def end_subscriptions_def broadcast_close_def Let_def split_beta)
  ultimately show ?thesis
    by (auto simp: receive_command_def Ok op intro: routes_ok_frame split: command_outcome.split)
qed (auto simp: receive_command_def lower_flags_def intro!: routes_ok_same)

lemma plane_step_routes:
  assumes "plane_step ops p p'" and b: "buffers_ok p"
  shows "routes_ok p p'"
  using assms
proof (induction rule: plane_step.induct)
  case (actor p p')
  have head: "routes_ok p ((publish_handoff_buffer p)\<lparr>actor := a\<rparr>)" for a
    using publish_routes [OF actor(2), of "p\<lparr>handoff_buffer := []\<rparr>" "handoff_buffer p"]
    by (auto simp: publish_handoff_buffer_def intro: routes_ok_frame routes_ok_same)
  have got: "routes_ok p ((publish_shared_data bs p)\<lparr>actor := a\<rparr>)" if "actor p = GotData bs" for a bs
    using publish_routes [OF actor(2), of p bs] that by (auto simp: in_flight_def intro: routes_ok_frame)
  have read: "routed (read_driver ops p) = routed p"
    by (auto simp: read_driver_def close_actor_def lower_flags_def Let_def split_beta split: option.splits result.splits read_status.splits)
  show ?case
    using actor(1) head got read receive_command_routes [of p]
    by (auto simp: actor_step_def simp del: not_None_eq split: actor_position.splits if_splits list.splits intro: routes_ok_same)
next
  case (sends p tid async c p')
  then show ?case by (cases c; auto simp: send_command_def split: if_splits intro!: routes_ok_same)
next
  case (unanswered p tid operation)
  then show ?case by (cases operation) (auto intro!: routes_ok_same)
next
  case (lease_read p tid l n)
  obtain r l' k where r: "exclusive_read ops n l = (r, l', k)" by (metis surj_pair)
  show ?case
  proof (cases r)
    case (Ok bs)
    then show ?thesis unfolding routes_ok_def using lease_read(1) r by (intro exI [of _ "[LeaseRead (lease_owner l) bs]"]) (auto simp: lease_reads_def answer_def)
  qed (use r in \<open>auto simp: lease_reads_def answer_def intro!: routes_ok_same\<close>)
qed (auto simp: start_write_def start_resize_def start_shutdown_def start_subscribe_def start_acquire_def lower_exclusive_def lease_writes_def
    lease_flushes_def release_def take_event_def drop_subscription_def answer_def Let_def split_beta intro!: routes_ok_same split: option.split)

section \<open>Properties\<close>

text \<open>
  C4. A TCP or serial data plane duplicates and reorders nothing, under every interleaving of the actor with any number of clients: the input is, in
  order, what has been routed, then the startup buffer, the handoff buffer and the bytes in the actor's hands, then, as long as the actor runs, what the driver (and a
  lease that has it) still has to deliver. Routed are the bytes that subscribers were given, those read through a lease, and those given up; and bytes are given up
  in two cases only. With no subscriber, when the startup buffer and the new bytes exceed 64 KiB, the oldest chunks go, and no more of them than must. And
  when every subscriber has its queue full or its receiver gone, the new bytes go, or the startup buffer if it is a new subscriber that takes it over and cannot.
\<close>

theorem plane_bytes_in_order:
  assumes "plane_reach ops driver p" "ops \<in> {tcp_ops, serial_ops}"
  shows "(\<exists>z. routed_bytes p @ concat (startup_buffer p) @ handoff_buffer p @ in_flight p @ z = os_input driver \<and>
      (actor p \<noteq> Stopped \<longrightarrow> remaining os_input p z)) \<and>
    length (concat (startup_buffer p)) \<le> STARTUP_BUFFER_LIMIT \<and>
    (\<forall>p'. plane_step ops p p' \<longrightarrow> routes_ok p p')"
proof -
  have ok: "order_ok os_input (os_input driver) p"
    using tcp.plane_reach_order serial.plane_reach_order assms by blast
  then have "buffers_ok p" by (simp add: order_ok_def)
  with ok plane_step_routes show ?thesis by (auto simp: order_ok_def buffers_ok_def accounted_def)
qed

lemmas tcp_run = tcp_ops_def tcp_driver_read_def os_read_def READ_BUFFER_SIZE_def demo_stream_def

text \<open>A client raises the flag while the actor reads: the bytes wait for it in the handoff buffer.\<close>

theorem plane_bytes_in_order_witness:
  "\<exists>p z. moves tcp_ops [ActorMoves, ActorMoves, ActorMoves, Acquires ''a'' 1, ActorMoves, ActorMoves]
       (new_plane (demo_stream [Inr [1, 2], Inr [3]])) = Some p \<and>
     handoff_buffer p = [1, 2] \<and> routed_bytes p @ concat (startup_buffer p) @ [1, 2] @ in_flight p @ z = [1, 2, 3] \<and>
     remaining os_input p z"
proof -
  obtain p where p: "moves tcp_ops [ActorMoves, ActorMoves, ActorMoves, Acquires ''a'' 1, ActorMoves, ActorMoves]
       (new_plane (demo_stream [Inr [1, 2], Inr [3]])) = Some p" "handoff_buffer p = [1, 2]" "actor p = LoopHead"
    by (simp add: plane_run tcp_run read_driver_def)
  have "os_input (demo_stream [Inr [1, 2], Inr [3]]) = [1, 2, 3]" by (simp add: os_input_def demo_stream_def)
  with plane_bytes_in_order [OF moves_reach [OF plane_reach.start p(1)], simplified] p show ?thesis by auto
qed

end
