(* ===== verification/Data_Plane_Subscribers.thy ===== *)
theory Data_Plane_Subscribers
  imports "HOL-Library.Sublist" Data_Plane_Lease
begin

text \<open>
  What a subscriber of a data plane receives: from the moment it is attached everything that is shared, in order and
  without gaps, until it is detached; a detached one keeps a prefix of it. Subscription numbers are never reused and
  a request to subscribe is pending at most once. None of this depends on the driver.
\<close>

section \<open>What was sent to a subscriber\<close>

fun event_bytes :: "plane_event \<Rightarrow> byte list" where
  "event_bytes (PlaneData bs) = bs"
| "event_bytes (PlaneClosed _) = []"

definition chan_bytes :: "subscription \<Rightarrow> byte list" where
  "chan_bytes c = concat (map event_bytes (chan_taken c @ chan_queue c))"

fun shared_bytes :: "route \<Rightarrow> byte list" where
  "shared_bytes (Shared _ bs) = bs"
| "shared_bytes (Overflow _) = []"
| "shared_bytes (LeaseRead _ _) = []"

definition shared_since :: "nat \<Rightarrow> 's plane \<Rightarrow> byte list" where
  "shared_since k p = concat (map shared_bytes (drop k (routed p)))"

definition chan_ok :: "'s plane \<Rightarrow> subscription \<Rightarrow> bool" where
  "chan_ok p c \<longleftrightarrow>
     (case sub_from c of
        None \<Rightarrow> chan_queue c = [] \<and> chan_taken c = []
      | Some k \<Rightarrow> k \<le> length (routed p) \<and> prefix (chan_bytes c) (shared_since k p))"

definition attached_ok :: "'s plane \<Rightarrow> subscriber \<Rightarrow> bool" where
  "attached_ok p s \<longleftrightarrow>
     (\<exists>c k. subscriptions p (sub_id s) = Some c \<and> sub_from c = Some k \<and> chan_bytes c = shared_since k p \<and>
        length (chan_queue c) \<le> sub_capacity s)"

definition chans_ok :: "'s plane \<Rightarrow> bool" where
  "chans_ok p \<longleftrightarrow> (\<forall>i c. subscriptions p i = Some c \<longrightarrow> i < next_subscription_id p \<and> chan_ok p c) \<and>
     distinct (map sub_id (subscribers p)) \<and> (\<forall>s\<in>set (subscribers p). attached_ok p s)"

fun subscribe_id :: "'s runtime_command \<Rightarrow> nat option" where
  "subscribe_id (CmdSubscribe i _ _) = Some i"
| "subscribe_id _ = None"

definition queued_ids :: "'s plane \<Rightarrow> nat list" where
  "queued_ids p = List.map_filter subscribe_id (plane_commands p)"

definition sends_id :: "'s plane \<Rightarrow> nat \<Rightarrow> nat option" where
  "sends_id p tid = (case clients p tid of Some (Sending _ c) \<Rightarrow> subscribe_id c | _ \<Rightarrow> None)"

definition fresh_id :: "'s plane \<Rightarrow> nat \<Rightarrow> bool" where
  "fresh_id p i \<longleftrightarrow> (\<exists>c. subscriptions p i = Some c \<and> sub_from c = None)"

definition pending_ok :: "'s plane \<Rightarrow> bool" where
  "pending_ok p \<longleftrightarrow> distinct (queued_ids p) \<and> (\<forall>i\<in>set (queued_ids p). fresh_id p i) \<and>
     (\<forall>tid i. sends_id p tid = Some i \<longrightarrow> fresh_id p i \<and> i \<notin> set (queued_ids p)) \<and>
     (\<forall>tid tid' i. sends_id p tid = Some i \<longrightarrow> sends_id p tid' = Some i \<longrightarrow> tid = tid')"

section \<open>Channels\<close>

definition offered :: "plane_event \<Rightarrow> subscriber \<Rightarrow> subscription \<Rightarrow> subscription" where
  "offered ev s c = (case try_send (sub_capacity s) c of
     Accepted \<Rightarrow> enqueue_event ev c | Full \<Rightarrow> set_subscription_end (BacklogExceeded (sub_capacity s)) c | Disconnected \<Rightarrow> c)"

definition accepts :: "(nat \<Rightarrow> subscription option) \<Rightarrow> subscriber \<Rightarrow> bool" where
  "accepts chans s \<longleftrightarrow> (case chans (sub_id s) of None \<Rightarrow> False | Some c \<Rightarrow> try_send (sub_capacity s) c = Accepted)"

text \<open>Offering an event: who accepts it stays, and only the channels of the subscribers change.\<close>

lemma offer_other: "offer ev ss chans = (kept, chans') \<Longrightarrow> i \<notin> sub_id ` set ss \<Longrightarrow> chans' i = chans i"
  by (induction ss arbitrary: chans kept) (auto simp: Let_def split: option.splits send_outcome.splits prod.splits)

lemma offer_kept:
  "offer ev ss chans = (kept, chans') \<Longrightarrow> distinct (map sub_id ss) \<Longrightarrow> kept = filter (accepts chans) ss"
proof (induction ss arbitrary: chans kept)
  case (Cons s ss)
  have "sub_id t \<noteq> sub_id s" if "t \<in> set ss" for t using Cons.prems(2) that by (metis distinct.simps(2) image_eqI list.simps(9) set_map)
  then have "filter (accepts (chans(sub_id s := x))) ss = filter (accepts chans) ss" for x
    by (intro filter_cong) (auto simp: accepts_def)
  with Cons show ?case
    by (auto simp: accepts_def [of chans s] Let_def split: option.splits send_outcome.splits prod.splits)
qed simp

lemma offer_channel:
  "offer ev ss chans = (kept, chans') \<Longrightarrow> distinct (map sub_id ss) \<Longrightarrow> s \<in> set ss \<Longrightarrow>
   chans' (sub_id s) = map_option (offered ev s) (chans (sub_id s))"
proof (induction ss arbitrary: chans kept)
  case (Cons t ss)
  show ?case
  proof (cases "s = t")
    case True
    obtain x k ks where x: "offer ev ss x = (k, chans')" "x (sub_id t) = map_option (offered ev t) (chans (sub_id t))"
      using Cons.prems(1) by (auto simp: offered_def Let_def split: option.splits send_outcome.splits prod.splits)
    have "sub_id t \<notin> sub_id ` set ss" using Cons.prems(2) by auto
    from offer_other [OF x(1) this] x(2) True show ?thesis by simp
  next
    case False
    then have "s \<in> set ss" using Cons.prems(3) by simp
    then have "sub_id s \<noteq> sub_id t" using Cons.prems(2) by (metis distinct.simps(2) image_eqI list.simps(9) set_map)
    obtain x k where "offer ev ss x = (k, chans')" "x (sub_id s) = chans (sub_id s)"
      using Cons.prems(1) \<open>sub_id s \<noteq> sub_id t\<close> by (auto simp: Let_def split: option.splits send_outcome.splits prod.splits)
    with Cons.IH [of x k] Cons.prems(2) \<open>s \<in> set ss\<close> show ?thesis by simp
  qed
qed simp

lemma offered_from [simp]: "sub_from (offered ev s c) = sub_from c"
  by (simp add: offered_def enqueue_event_def set_subscription_end_def split: send_outcome.split)

lemma offered_accepts:
  "try_send (sub_capacity s) c = Accepted \<Longrightarrow>
   chan_bytes (offered ev s c) = chan_bytes c @ event_bytes ev \<and> length (chan_queue (offered ev s c)) \<le> sub_capacity s"
  by (auto simp: offered_def enqueue_event_def chan_bytes_def try_send_def split: if_splits)

lemma offered_refused:
  "try_send (sub_capacity s) c \<noteq> Accepted \<Longrightarrow>
   chan_queue (offered ev s c) = chan_queue c \<and> chan_taken (offered ev s c) = chan_taken c"
  by (auto simp: offered_def set_subscription_end_def split: send_outcome.split)

lemma attachedE:
  assumes "chans_ok p" "s \<in> set (subscribers p)"
  obtains c k where "subscriptions p (sub_id s) = Some c" "sub_from c = Some k" "k \<le> length (routed p)"
    "chan_bytes c = shared_since k p" "length (chan_queue c) \<le> sub_capacity s" "sub_id s < next_subscription_id p"
proof -
  have "attached_ok p s" using assms by (simp add: chans_ok_def)
  then obtain c k where c: "subscriptions p (sub_id s) = Some c" "sub_from c = Some k" "chan_bytes c = shared_since k p"
    "length (chan_queue c) \<le> sub_capacity s" by (auto simp: attached_ok_def)
  have "chan_ok p c" "sub_id s < next_subscription_id p" using assms(1) c(1) by (auto simp: chans_ok_def)
  with c that show ?thesis by (auto simp: chan_ok_def)
qed

text \<open>An event that is offered to all subscribers and recorded as shared.\<close>

lemma offer_chans:
  assumes ok: "chans_ok p" and o: "offer ev (subscribers p) (subscriptions p) = (kept, chans')"
    and p': "subscribers p' = kept" "subscriptions p' = chans'" "routed p' = routed p @ rs"
      "concat (map shared_bytes rs) = event_bytes ev" "next_subscription_id p' = next_subscription_id p"
  shows "chans_ok p'"
proof -
  have dist: "distinct (map sub_id (subscribers p))" using ok by (simp add: chans_ok_def)
  note kept = offer_kept [OF o dist] and chan = offer_channel [OF o dist]
  have since: "shared_since k p' = shared_since k p @ event_bytes ev" if "k \<le> length (routed p)" for k
    using that p'(3,4) by (simp add: shared_since_def)
  have "i < next_subscription_id p' \<and> chan_ok p' c'" if c': "subscriptions p' i = Some c'" for i c'
  proof (cases "i \<in> sub_id ` set (subscribers p)")
    case False
    then have "subscriptions p i = Some c'" using offer_other [OF o False] c' p'(2) by simp
    with ok have "chan_ok p c'" "i < next_subscription_id p" by (simp_all add: chans_ok_def)
    with p'(3,5) since show ?thesis by (auto simp: chan_ok_def intro: prefix_prefix split: option.splits)
  next
    case True
    then obtain s where s: "s \<in> set (subscribers p)" "i = sub_id s" by blast
    with attachedE [OF ok s(1)] obtain c k where c: "subscriptions p i = Some c" "sub_from c = Some k"
      "chan_bytes c = shared_since k p" and "i < next_subscription_id p" "k \<le> length (routed p)" by metis
    moreover have "c' = offered ev s c" using chan [OF s(1)] c c' s(2) p'(2) by simp
    moreover have "prefix (chan_bytes (offered ev s c)) (shared_since k p')"
      using c(3) \<open>k \<le> _\<close> since offered_accepts [of s c ev] offered_refused [of s c ev]
      by (cases "try_send (sub_capacity s) c = Accepted") (auto simp: chan_bytes_def)
    ultimately show ?thesis using c(2) p'(3,5) by (simp add: chan_ok_def)
  qed
  moreover have "distinct (map sub_id (subscribers p'))" using kept dist p'(1) by (simp add: distinct_map_filter)
  moreover have "attached_ok p' s" if s: "s \<in> set (subscribers p')" for s
  proof -
    from s kept p'(1) have m: "s \<in> set (subscribers p)" "accepts (subscriptions p) s" by auto
    from attachedE [OF ok m(1)] obtain c k where c: "subscriptions p (sub_id s) = Some c" "sub_from c = Some k"
      "chan_bytes c = shared_since k p" "k \<le> length (routed p)" by metis
    with m(2) have "try_send (sub_capacity s) c = Accepted" by (simp add: accepts_def)
    with c chan [OF m(1)] offered_accepts [of s c ev] since p'(2) show ?thesis by (simp add: attached_ok_def)
  qed
  ultimately show ?thesis by (simp add: chans_ok_def)
qed

text \<open>Steps that share nothing.\<close>

lemma chans_ok_frame:
  assumes "chans_ok p" "subscriptions p' = subscriptions p" "routed p' = routed p @ rs" "concat (map shared_bytes rs) = []"
    "next_subscription_id p' = next_subscription_id p" "distinct (map sub_id (subscribers p'))" "set (subscribers p') \<subseteq> set (subscribers p)"
  shows "chans_ok p'"
proof -
  have since: "shared_since k p' = shared_since k p" if "k \<le> length (routed p)" for k
    using that assms(3,4) by (simp add: shared_since_def)
  have "chan_ok p c \<Longrightarrow> chan_ok p' c" for c using since assms(3) by (auto simp: chan_ok_def split: option.splits)
  moreover have "attached_ok p' s" if "s \<in> set (subscribers p')" for s
  proof -
    have "s \<in> set (subscribers p)" using that assms(7) by blast
    from attachedE [OF assms(1) this] obtain c k where c: "subscriptions p (sub_id s) = Some c" "sub_from c = Some k"
      "k \<le> length (routed p)" "chan_bytes c = shared_since k p" "length (chan_queue c) \<le> sub_capacity s" by metis
    with c since assms(2) show ?thesis by (simp add: attached_ok_def)
  qed
  ultimately show ?thesis using assms by (simp add: chans_ok_def)
qed

text \<open>A channel whose bytes stay and whose queue does not grow.\<close>

lemma chans_ok_channel:
  assumes "chans_ok p" "subscriptions p i = Some c" "subscriptions p' = (subscriptions p)(i \<mapsto> c')" "sub_from c' = sub_from c"
    "chan_bytes c' = chan_bytes c" "length (chan_queue c') \<le> length (chan_queue c)" "chan_taken c = [] \<and> chan_queue c = [] \<Longrightarrow> chan_taken c' = []"
    "routed p' = routed p" "next_subscription_id p' = next_subscription_id p" "subscribers p' = subscribers p"
  shows "chans_ok p'"
proof -
  have since: "shared_since k p' = shared_since k p" for k using assms(8) by (simp add: shared_since_def)
  have "chan_ok p c" using assms(1,2) by (simp add: chans_ok_def)
  then have "chan_ok p' c'" using assms(4-8) since by (auto simp: chan_ok_def split: option.splits)
  moreover have "chan_ok p d \<Longrightarrow> chan_ok p' d" for d using since assms(8) by (simp add: chan_ok_def split: option.splits)
  moreover have "attached_ok p' s" if "attached_ok p s" for s
    using that assms(2-6) since unfolding attached_ok_def by (cases "sub_id s = i") auto
  ultimately show ?thesis using assms(1,2,3,9,10) unfolding chans_ok_def by (auto split: if_splits)
qed

text \<open>Bytes that are shared while nobody is attached.\<close>

lemma chans_ok_unheard:
  assumes "chans_ok p" "subscriptions p' = subscriptions p" "routed p' = routed p @ rs"
    "next_subscription_id p' = next_subscription_id p" "subscribers p' = []"
  shows "chans_ok p'"
proof -
  have "prefix (shared_since k p) (shared_since k p')" if "k \<le> length (routed p)" for k
    using that assms(3) by (simp add: shared_since_def)
  then have "chan_ok p c \<Longrightarrow> chan_ok p' c" for c
    using assms(3) prefix_order.trans unfolding chan_ok_def by (fastforce split: option.splits)
  then show ?thesis using assms by (simp add: chans_ok_def)
qed

text \<open>A new subscriber takes over what nobody has heard.\<close>

lemma chans_ok_attach:
  assumes ok: "chans_ok p" and i: "fresh_id p (sub_id s)" and p': "subscribers p' = subscribers p @ [s]"
    "subscriptions p' = (subscriptions p)(sub_id s \<mapsto> c')" "sub_from c' = Some (length (routed p))" "routed p' = routed p @ rs"
    "chan_bytes c' = concat (map shared_bytes rs)" "length (chan_queue c') \<le> sub_capacity s"
    "rs = [] \<or> subscribers p = []" "next_subscription_id p' = next_subscription_id p"
  shows "chans_ok p'"
proof -
  have since: "shared_since (length (routed p)) p' = concat (map shared_bytes rs)"
    "k \<le> length (routed p) \<Longrightarrow> shared_since k p' = shared_since k p @ concat (map shared_bytes rs)" for k
    using p'(4) by (simp_all add: shared_since_def)
  have lt: "sub_id s < next_subscription_id p" using ok i by (auto simp: chans_ok_def fresh_id_def)
  have new: "sub_id t \<noteq> sub_id s" if "t \<in> set (subscribers p)" for t
  proof -
    from attachedE [OF ok that] obtain c k where "subscriptions p (sub_id t) = Some c" "sub_from c = Some k" by metis
    with i show ?thesis by (auto simp: fresh_id_def)
  qed
  have "chan_ok p' c'" using p'(3-5) since by (simp add: chan_ok_def)
  moreover have "chan_ok p c \<Longrightarrow> chan_ok p' c" for c
    using since(2) p'(4) by (auto simp: chan_ok_def split: option.splits)
  moreover have "attached_ok p' t" if t: "t \<in> set (subscribers p)" for t
  proof -
    from attachedE [OF ok t] obtain c k where c: "subscriptions p (sub_id t) = Some c" "sub_from c = Some k"
      "k \<le> length (routed p)" "chan_bytes c = shared_since k p" "length (chan_queue c) \<le> sub_capacity t" by metis
    moreover have "rs = []" using t p'(7) by auto
    ultimately show ?thesis using new [OF t] since(2) p'(2) by (simp add: attached_ok_def)
  qed
  moreover have "attached_ok p' s" using p'(2,3,5,6) since(1) by (simp add: attached_ok_def)
  moreover have "sub_id s \<notin> sub_id ` set (subscribers p)" using new by force
  then have "distinct (map sub_id (subscribers p'))" using ok p'(1) by (simp add: chans_ok_def)
  ultimately show ?thesis using ok lt p'(1,2,8) unfolding chans_ok_def by (auto split: if_splits)
qed

section \<open>Pending requests\<close>

definition keeps_from :: "'s plane \<Rightarrow> 's plane \<Rightarrow> bool" where
  "keeps_from p p' \<longleftrightarrow> (\<forall>i. map_option sub_from (subscriptions p' i) = map_option sub_from (subscriptions p i))"

lemma keeps_from_same [simp]: "subscriptions p' = subscriptions p \<Longrightarrow> keeps_from p p'"
  by (simp add: keeps_from_def)

lemma keeps_fresh: "keeps_from p p' \<Longrightarrow> fresh_id p' i \<longleftrightarrow> fresh_id p i"
  unfolding keeps_from_def fresh_id_def by (metis (no_types, lifting) map_option_eq_Some option.simps(9))

text \<open>Fewer requests; those that are left have not been served.\<close>

lemma pending_mono:
  assumes "pending_ok p" "distinct (queued_ids p')" "set (queued_ids p') \<subseteq> set (queued_ids p)"
    "\<And>tid i. sends_id p' tid = Some i \<Longrightarrow> sends_id p tid = Some i"
    "\<And>i. fresh_id p i \<Longrightarrow> i \<in> set (queued_ids p') \<or> (\<exists>tid. sends_id p' tid = Some i) \<Longrightarrow> fresh_id p' i"
  shows "pending_ok p'"
  using assms unfolding pending_ok_def by (meson subsetD)

lemma queued_pop: "plane_commands p = c # cs \<Longrightarrow> plane_commands p' = cs \<Longrightarrow> queued_ids p =
    (case subscribe_id c of None \<Rightarrow> queued_ids p' | Some i \<Rightarrow> i # queued_ids p')"
  by (simp add: queued_ids_def map_filter_simps split: option.split)

definition quiet :: "'s client \<Rightarrow> bool" where
  "quiet d \<longleftrightarrow> (case d of Sending _ c \<Rightarrow> subscribe_id c = None | _ \<Rightarrow> True)"

lemma quiet_simps [simp]:
  "quiet (Sending a c) \<longleftrightarrow> subscribe_id c = None" "quiet (Awaiting w)" "quiet (Refused e)" "quiet (Leasing l)"
  "quiet (ReturnAcked r)" "quiet (Finished r)"
  by (simp_all add: quiet_def)

lemma sends_answer:
  "clients p' = (clients p)(tid \<mapsto> d) \<Longrightarrow> quiet d \<Longrightarrow> sends_id p' t = Some i \<Longrightarrow> sends_id p t = Some i"
  by (auto simp: sends_id_def quiet_def split: if_splits client.splits)

definition subs_ok :: "'s plane \<Rightarrow> bool" where
  "subs_ok p \<longleftrightarrow> chans_ok p \<and> pending_ok p \<and> (subscribers p \<noteq> [] \<longrightarrow> startup_buffer p = [])"

text \<open>Steps that only change clients and take commands off the queue.\<close>

lemma subs_ok_frame:
  fixes p p' :: "'s plane"
  assumes "subs_ok p" "subscriptions p' = subscriptions p" "subscribers p' = subscribers p" "routed p' = routed p @ rs"
    "concat (map shared_bytes rs) = []" "next_subscription_id p' = next_subscription_id p"
    "startup_buffer p' = startup_buffer p \<or> startup_buffer p' = []"
    "distinct (queued_ids p')" "set (queued_ids p') \<subseteq> set (queued_ids p)"
    "\<And>tid i. sends_id p' tid = Some i \<Longrightarrow> sends_id p tid = Some i"
  shows "subs_ok p'"
proof -
  have "chans_ok p'" using assms(1-6) by (intro chans_ok_frame [of p p' rs]) (auto simp: subs_ok_def chans_ok_def)
  moreover have "fresh_id p' i \<longleftrightarrow> fresh_id p i" for i using keeps_fresh [of p p'] assms(2) by simp
  then have "pending_ok p'" using assms(1) pending_mono [OF _ assms(8-10)] by (simp add: subs_ok_def)
  ultimately show ?thesis using assms(1,3,7) by (auto simp: subs_ok_def)
qed

section \<open>The actor\<close>

lemma stop_subs:
  assumes "chans_ok p" "clients p' = clients p0" "pending_ok p0" "subscribers p' = []" "plane_commands p' = []" "routed p' = routed p"
    "next_subscription_id p' = next_subscription_id p" "keeps_from p0 p'"
    "\<And>i. map_option (\<lambda>c. (sub_from c, chan_queue c, chan_taken c)) (subscriptions p' i) =
         map_option (\<lambda>c. (sub_from c, chan_queue c, chan_taken c)) (subscriptions p i)"
  shows "subs_ok p'"
proof -
  have "chan_ok p' c' \<and> i < next_subscription_id p'" if c': "subscriptions p' i = Some c'" for i c'
  proof -
    obtain c where c: "subscriptions p i = Some c" "sub_from c' = sub_from c" "chan_queue c' = chan_queue c" "chan_taken c' = chan_taken c"
      using assms(9) [of i] c' by (auto simp: map_option_case split: option.splits)
    have "chan_ok p c" "i < next_subscription_id p" using assms(1) c(1) by (simp_all add: chans_ok_def)
    then show ?thesis using c assms(6,7) by (simp add: chan_ok_def chan_bytes_def shared_since_def split: option.splits)
  qed
  then have "chans_ok p'" using assms(4) by (simp add: chans_ok_def)
  moreover have "sends_id p' tid = sends_id p0 tid" for tid using assms(2) by (simp add: sends_id_def)
  then have "pending_ok p'"
    using assms(5,8) by (intro pending_mono [OF assms(3)]) (auto simp: queued_ids_def map_filter_simps keeps_fresh)
  ultimately show ?thesis using assms(4) by (simp add: subs_ok_def)
qed

lemma offer_keeps_from:
  "offer ev ss chans = (kept, chans') \<Longrightarrow> map_option sub_from (chans' i) = map_option sub_from (chans i)"
  by (induction ss arbitrary: chans kept)
    (auto simp: Let_def enqueue_event_def set_subscription_end_def split: option.splits send_outcome.splits prod.splits if_splits)

lemma trim_startup_overflow: "trim_startup cs n = (kept, n', rs) \<Longrightarrow> concat (map shared_bytes rs) = []"
  by (induction cs arbitrary: n kept n' rs) (auto simp: Let_def split: if_splits prod.splits)

lemma publish_subs:
  assumes ok: "subs_ok p"
  shows "subs_ok (publish_shared_data bs p)"
proof (cases "bs = []")
  case False
  have ch: "chans_ok p" using ok by (simp add: subs_ok_def)
  show ?thesis
  proof (cases "subscribers p = []")
    case True
    obtain kept n rs where t: "trim_startup (startup_buffer p @ [bs]) (startup_buffer_bytes p + length bs) = (kept, n, rs)"
      by (metis surj_pair)
    have p': "publish_shared_data bs p = p\<lparr>startup_buffer := kept, startup_buffer_bytes := n, routed := routed p @ rs\<rparr>"
      using True False t by (simp add: publish_shared_data_def)
    have "chans_ok (publish_shared_data bs p)"
      using trim_startup_overflow [OF t] ch unfolding p'
      by (intro chans_ok_frame [OF ch, of _ rs]) (simp_all add: True)
    moreover have "pending_ok (publish_shared_data bs p)"
      using ok unfolding p' by (simp add: subs_ok_def pending_ok_def queued_ids_def sends_id_def fresh_id_def)
    ultimately show ?thesis using True unfolding p' by (simp add: subs_ok_def)
  next
    case some: False
    obtain kept chans where o: "offer (PlaneData bs) (subscribers p) (subscriptions p) = (kept, chans)" by fastforce
    have p': "publish_shared_data bs p =
        p\<lparr>subscribers := kept, subscriptions := chans, routed := routed p @ [Shared (map sub_id kept) bs]\<rparr>"
      using some False o by (simp add: publish_shared_data_def)
    have "chans_ok (publish_shared_data bs p)"
      unfolding p' by (intro offer_chans [OF ch o, where rs = "[Shared (map sub_id kept) bs]"]) simp_all
    moreover have "fresh_id (publish_shared_data bs p) i \<longleftrightarrow> fresh_id p i" for i
      using offer_keeps_from [OF o] unfolding p' by (intro keeps_fresh) (simp add: keeps_from_def)
    then have "pending_ok (publish_shared_data bs p)"
      using ok unfolding p' by (simp add: subs_ok_def pending_ok_def queued_ids_def sends_id_def)
    ultimately show ?thesis using ok some unfolding p' by (simp add: subs_ok_def)
  qed
qed (use ok in \<open>simp add: publish_shared_data_def\<close>)

lemma subs_ok_irrelevant:
  assumes "subs_ok p" "subscriptions p' = subscriptions p" "subscribers p' = subscribers p" "routed p' = routed p"
    "next_subscription_id p' = next_subscription_id p" "startup_buffer p' = startup_buffer p"
    "plane_commands p' = plane_commands p" "clients p' = clients p"
  shows "subs_ok p'"
  using assms by (intro subs_ok_frame [of p p' "[]"]) (auto simp: subs_ok_def pending_ok_def queued_ids_def sends_id_def)

lemma handoff_subs: "subs_ok p \<Longrightarrow> subs_ok (publish_handoff_buffer p)"
  using publish_subs [of "p\<lparr>handoff_buffer := []\<rparr>"] subs_ok_irrelevant [of p "p\<lparr>handoff_buffer := []\<rparr>"]
  by (simp add: publish_handoff_buffer_def)

lemma stopped_subs:
  assumes "chans_ok p" "pending_ok p"
  shows "subs_ok (stop_actor ops b p)" "subs_ok (stop_actor ops b (broadcast_close info p))"
proof -
  show "subs_ok (stop_actor ops b p)"
    using assms by (intro stop_subs [of p _ p])
      (auto simp: stop_actor_def lower_flags_def end_subscriptions_def Let_def keeps_from_def option.map_comp o_def set_subscription_end_def
        intro!: map_option_cong)
  obtain kept chans where o: "offer (PlaneClosed info) (subscribers p) (subscriptions p) = (kept, chans)" by fastforce
  have q: "broadcast_close info p = p\<lparr>subscribers := kept, subscriptions := chans\<rparr>" using o by (simp add: broadcast_close_def)
  have "chans_ok (broadcast_close info p)"
    unfolding q by (intro offer_chans [OF assms(1) o, where rs = "[]"]) simp_all
  then show "subs_ok (stop_actor ops b (broadcast_close info p))"
    using assms(2) offer_keeps_from [OF o] unfolding q
    by (intro stop_subs [of "p\<lparr>subscribers := kept, subscriptions := chans\<rparr>" _ p])
      (auto simp: stop_actor_def lower_flags_def end_subscriptions_def Let_def keeps_from_def option.map_comp o_def set_subscription_end_def
        simp flip: offer_keeps_from [OF o] intro!: map_option_cong)
qed

lemma handle_subscribe_subs:
  assumes ok: "subs_ok p" and q: "plane_commands p = CmdSubscribe i consumer capacity # cs"
    and h: "handle_subscribe i consumer capacity (p\<lparr>plane_commands := cs\<rparr>) = (out, p1)"
  shows "subs_ok p1"
proof -
  have ids: "queued_ids p = i # queued_ids p1"
    using q h by (subst queued_pop [OF q, of p1])
      (auto simp: handle_subscribe_def Let_def split: option.splits if_splits send_outcome.splits)
  then have fresh: "fresh_id p i" and dist: "i \<notin> set (queued_ids p1)" "distinct (queued_ids p1)"
    using ok by (auto simp: subs_ok_def pending_ok_def)
  then obtain c where c: "subscriptions p i = Some c" "sub_from c = None" by (auto simp: fresh_id_def)
  have "chan_ok p c" using ok c(1) by (simp add: subs_ok_def chans_ok_def)
  with c(2) have empty: "chan_queue c = []" "chan_taken c = []" by (simp_all add: chan_ok_def)
  have cl: "clients p1 = clients p" and other: "\<And>j. j \<noteq> i \<Longrightarrow> subscriptions p1 j = subscriptions p j" and su: "startup_buffer p1 = []"
    using h c by (auto simp: handle_subscribe_def Let_def split: if_splits send_outcome.splits)
  have "pending_ok p1"
  proof (rule pending_mono)
    show "sends_id p1 tid = Some j \<Longrightarrow> sends_id p tid = Some j" for tid j using cl by (simp add: sends_id_def)
    show "fresh_id p1 j" if "fresh_id p j" "j \<in> set (queued_ids p1) \<or> (\<exists>tid. sends_id p1 tid = Some j)" for j
    proof -
      have "j \<noteq> i"
        using that(2) dist(1) ok ids cl by (auto simp: subs_ok_def pending_ok_def sends_id_def)
      with that(1) other show ?thesis by (simp add: fresh_id_def)
    qed
  qed (use ok ids dist(2) in \<open>auto simp: subs_ok_def\<close>)
  moreover have "chans_ok p1"
  proof -
    have ch: "chans_ok p" and none: "startup_buffer p \<noteq> [] \<Longrightarrow> subscribers p = []" using ok by (auto simp: subs_ok_def)
    consider (attach) c' rs where "subscribers p1 = subscribers p @ [\<lparr>sub_id = i, sub_consumer = consumer, sub_capacity = capacity\<rparr>]"
        "subscriptions p1 = (subscriptions p)(i \<mapsto> c')" "sub_from c' = Some (length (routed p))" "routed p1 = routed p @ rs"
        "chan_bytes c' = concat (map shared_bytes rs)" "length (chan_queue c') \<le> capacity"
        "rs = [] \<or> subscribers p = []" "next_subscription_id p1 = next_subscription_id p"
      | (unheard) c' rs where "subscribers p1 = []" "subscribers p = []" "subscriptions p1 = (subscriptions p)(i \<mapsto> c')"
        "sub_from c' = None" "chan_queue c' = []" "chan_taken c' = []" "routed p1 = routed p @ rs"
        "next_subscription_id p1 = next_subscription_id p"
    proof (cases "startup_buffer p = [] \<or> try_send capacity c = Accepted")
      case True
      then show ?thesis
        using h c empty none that(1) [of "(if startup_buffer p = [] then id else enqueue_event (PlaneData (concat (startup_buffer p))))
              (c\<lparr>sub_from := Some (length (routed p))\<rparr>)"
            "if startup_buffer p = [] then [] else [Shared [i] (concat (startup_buffer p))]"]
        by (auto simp: handle_subscribe_def Let_def enqueue_event_def chan_bytes_def try_send_def split: if_splits)
    next
      case False
      then show ?thesis
        using h c empty none that(2) [of "if try_send capacity c = Full then set_subscription_end (BacklogExceeded capacity) c else c"
            "[Shared [] (concat (startup_buffer p))]"]
        by (auto simp: handle_subscribe_def Let_def set_subscription_end_def map_upd_triv split: send_outcome.splits)
    qed
    then show ?thesis
    proof cases
      case attach
      then show ?thesis using fresh by (intro chans_ok_attach [OF ch _ attach(1)]) simp_all
    next
      case unheard
      have "chans_ok (p\<lparr>subscriptions := (subscriptions p)(i \<mapsto> c')\<rparr>)"
        using unheard empty c by (intro chans_ok_channel [OF ch c(1)]) (simp_all add: chan_bytes_def)
      then show ?thesis using unheard by (elim chans_ok_unheard) simp_all
    qed
  qed
  ultimately show ?thesis using su by (simp add: subs_ok_def)
qed

text \<open>The other commands.\<close>

lemma popped_subs:
  assumes "subs_ok p" "plane_commands p = c # cs" "plane_commands p1 = cs" "subscriptions p1 = subscriptions p"
    "subscribers p1 = filter P (subscribers p)" "routed p1 = routed p" "next_subscription_id p1 = next_subscription_id p"
    "startup_buffer p1 = startup_buffer p \<or> startup_buffer p1 = []" "\<And>tid i. sends_id p1 tid = Some i \<Longrightarrow> sends_id p tid = Some i"
  shows "subs_ok p1"
proof -
  have ch: "chans_ok p" and "pending_ok p" using assms(1) by (simp_all add: subs_ok_def)
  have "chans_ok p1"
    using assms(4-7) ch by (intro chans_ok_frame [OF ch, of _ "[]"]) (simp_all add: chans_ok_def distinct_map_filter)
  moreover have "pending_ok p1"
    using assms(2-4,9) \<open>pending_ok p\<close> queued_pop [OF assms(2,3)]
    by (intro pending_mono [OF \<open>pending_ok p\<close>]) (auto simp: pending_ok_def fresh_id_def split: option.splits)
  ultimately show ?thesis using assms(1,5,8) by (auto simp: subs_ok_def)
qed

lemma handle_command_subs:
  assumes ok: "subs_ok p" and q: "plane_commands p = c # cs"
    and h: "handle_command ops c (p\<lparr>plane_commands := cs\<rparr>) = Ok (out, p1)"
  shows "subs_ok p1"
proof (cases c)
  case (CmdSubscribe i consumer capacity)
  with h handle_subscribe_subs [OF ok] q show ?thesis by simp
next
  case (CmdUnsubscribe i)
  with h show ?thesis
    by (intro popped_subs [OF ok q, where P = "\<lambda>s. sub_id s \<noteq> i"]) (auto simp: handle_unsubscribe_def sends_id_def)
next
  case (CmdWrite data tid)
  with h show ?thesis
    by (intro popped_subs [OF ok q, where P = "\<lambda>_. True"])
      (auto simp: handle_write_def answer_def sends_id_def Let_def split_beta split: option.splits result.splits if_splits)
next
  case (CmdResize cols rows tid)
  with h show ?thesis
    by (intro popped_subs [OF ok q, where P = "\<lambda>_. True"])
      (auto simp: handle_resize_def answer_def sends_id_def Let_def split_beta split: option.splits result.splits if_splits)
next
  case (CmdShutdown tid)
  with h show ?thesis
    by (intro popped_subs [OF ok q, where P = "\<lambda>_. True"])
      (auto simp: handle_shutdown_def answer_def sends_id_def Let_def split_beta simp del: not_None_eq split: option.splits result.splits if_splits)
next
  case (CmdAcquire own name tid)
  with h show ?thesis
    by (intro popped_subs [OF ok q, where P = "\<lambda>_. True"])
      (auto simp: handle_acquire_def take_unconsumed_bytes_def answer_def Let_def sends_id_def split: option.splits prod.splits if_splits)
next
  case (CmdReturn own s pre tid)
  with h show ?thesis
    by (intro popped_subs [OF ok q, where P = "\<lambda>_. True"])
      (auto simp: handle_return_def restore_unconsumed_bytes_def answer_def sends_id_def Let_def split_beta split: if_splits)
qed

lemma lowered_subs:
  "subs_ok p \<Longrightarrow> clients p' = clients p \<Longrightarrow> subscriptions p' = subscriptions p \<Longrightarrow> routed p' = routed p \<Longrightarrow>
   next_subscription_id p' = next_subscription_id p \<Longrightarrow> subs_ok (lower_flags p')"
  by (rule stop_subs [of p _ p]) (simp_all add: subs_ok_def lower_flags_def)

lemma receive_command_subs:
  assumes ok: "subs_ok p" and q: "plane_commands p = c # cs"
  shows "subs_ok (receive_command ops c cs p)"
proof (cases "handle_command ops c (p\<lparr>plane_commands := cs\<rparr>)")
  case (Ok op)
  obtain out p1 where op: "op = (out, p1)" by fastforce
  have p1: "subs_ok p1" using handle_command_subs [OF ok q Ok [unfolded op]] .
  then have "chans_ok p1" "pending_ok p1" by (simp_all add: subs_ok_def)
  note stop = stopped_subs [OF this]
  have "subs_ok (p1\<lparr>actor := LoopHead\<rparr>)" using p1 by (rule subs_ok_irrelevant) simp_all
  with p1 stop Ok op show ?thesis by (auto simp: receive_command_def split: command_outcome.split)
qed (simp_all add: receive_command_def lowered_subs [OF ok])

lemma actor_step_subs:
  assumes ok: "subs_ok p" and s: "actor_step ops p = Some p'"
  shows "subs_ok p'"
proof (cases "actor p")
  case LoopHead
  have "subs_ok ((publish_handoff_buffer p)\<lparr>actor := DrainCommands\<rparr>)"
    using handoff_subs [OF ok] by (rule subs_ok_irrelevant) simp_all
  with s LoopHead receive_command_subs [OF ok] show ?thesis
    by (auto simp: actor_step_def simp del: not_None_eq split: if_splits list.splits)
next
  case DrainCommands
  have "subs_ok (p\<lparr>actor := CheckFlag\<rparr>)" using ok by (rule subs_ok_irrelevant) simp_all
  with s DrainCommands receive_command_subs [OF ok] show ?thesis by (auto simp: actor_step_def split: list.splits)
next
  case CheckFlag
  have "subs_ok (p\<lparr>actor := a\<rparr>)" for a using ok by (rule subs_ok_irrelevant) simp_all
  with s CheckFlag show ?thesis by (auto simp: actor_step_def)
next
  case ReadDriver
  have same: "subs_ok (p\<lparr>plane_driver := d, actor := a\<rparr>)" "subs_ok (p\<lparr>plane_driver := d, rx_bytes := n, actor := a\<rparr>)" for d n a
    by (rule subs_ok_irrelevant [OF ok]; simp)+
  have "subs_ok (p\<lparr>plane_driver := d\<rparr>)" for d by (rule subs_ok_irrelevant [OF ok]) simp_all
  then have "chans_ok (p\<lparr>plane_driver := d\<rparr>)" "pending_ok (p\<lparr>plane_driver := d\<rparr>)" "chans_ok p" "pending_ok p" for d
    using ok by (simp_all add: subs_ok_def)
  then have close: "subs_ok (close_actor ops kind reason m (p\<lparr>plane_driver := d\<rparr>))" "subs_ok (close_actor ops kind reason m p)"
    for kind reason m d by (simp_all add: close_actor_def stopped_subs(2))
  have "subs_ok (lower_flags (p\<lparr>plane_driver := d\<rparr>))" for d by (rule lowered_subs [OF ok]) simp_all
  with s ReadDriver close same show ?thesis
    by (auto simp: actor_step_def read_driver_def Let_def split: option.splits prod.splits result.splits read_status.splits if_splits)
next
  case (GotData bs)
  have "subs_ok ((publish_shared_data bs p)\<lparr>actor := LoopHead\<rparr>)"
    using publish_subs [OF ok] by (rule subs_ok_irrelevant) simp_all
  moreover have "subs_ok (p\<lparr>handoff_buffer := x, actor := LoopHead\<rparr>)" for x
    using ok by (rule subs_ok_irrelevant) simp_all
  ultimately show ?thesis using s GotData by (auto simp: actor_step_def)
qed (use s in \<open>simp add: actor_step_def\<close>)

section \<open>The clients\<close>

lemma client_subs:
  assumes "subs_ok p" "subscriptions p' = subscriptions p" "subscribers p' = subscribers p" "routed p' = routed p @ rs"
    "concat (map shared_bytes rs) = []" "next_subscription_id p' = next_subscription_id p" "startup_buffer p' = startup_buffer p"
    "plane_commands p' = plane_commands p" "clients p' = (clients p)(tid \<mapsto> d)" "quiet d"
  shows "subs_ok p'"
proof (rule subs_ok_frame [of p p' rs])
  show "distinct (queued_ids p')" "set (queued_ids p') \<subseteq> set (queued_ids p)"
    using assms(1,8) by (simp_all add: queued_ids_def subs_ok_def pending_ok_def)
qed (use assms sends_answer [OF assms(9,10)] in simp_all)

lemma answer_subs: "subs_ok p \<Longrightarrow> quiet d \<Longrightarrow> subs_ok (answer tid d p)"
  by (rule client_subs [where p = p and rs = "[]" and tid = tid and d = d]) (simp_all add: answer_def)

lemma start_subscribe_subs:
  assumes ok: "subs_ok p" and idle: "idle_client tid p"
  shows "subs_ok (start_subscribe consumer capacity tid p)"
proof (cases "capacity = 0")
  case True
  with ok show ?thesis
    by (simp add: start_subscribe_def answer_subs)
next
  case False
  let ?i = "next_subscription_id p"
  let ?p = "start_subscribe consumer capacity tid p"
  have p': "?p = p\<lparr>next_subscription_id := ?i + 1, subscriptions := (subscriptions p)(?i \<mapsto> new_subscription),
      clients := (clients p)(tid \<mapsto> Sending False (CmdSubscribe ?i consumer capacity))\<rparr>"
    using False by (simp add: start_subscribe_def answer_def Let_def)
  have ch: "chans_ok p" and pe: "pending_ok p" using ok by (simp_all add: subs_ok_def)
  have none: "subscriptions p ?i = None"
    using ch by (cases "subscriptions p ?i") (auto simp: chans_ok_def)
  then have unused: "\<not> fresh_id p ?i" and fresh: "fresh_id ?p i \<longleftrightarrow> fresh_id p i \<or> i = ?i" for i
    by (auto simp: fresh_id_def p' new_subscription_def)
  have q: "queued_ids ?p = queued_ids p" by (simp add: p' queued_ids_def)
  have s: "sends_id ?p t = (if t = tid then Some ?i else sends_id p t)" for t by (simp add: p' sends_id_def)
  have "pending_ok ?p" using pe unused fresh unfolding pending_ok_def q s by (metis option.inject)
  moreover have "chans_ok ?p"
  proof -
    have "chan_ok ?p c" if "chan_ok p c" for c using that by (simp add: p' chan_ok_def shared_since_def split: option.splits)
    moreover have "chan_ok ?p new_subscription" by (simp add: chan_ok_def new_subscription_def)
    moreover have "attached_ok ?p s" if s: "s \<in> set (subscribers p)" for s
    proof -
      from attachedE [OF ch s] have "sub_id s \<noteq> ?i" by (metis less_irrefl)
      moreover have "attached_ok p s" using ch s by (simp add: chans_ok_def)
      ultimately show ?thesis by (simp add: p' attached_ok_def shared_since_def)
    qed
    ultimately show ?thesis using ch unfolding chans_ok_def by (auto simp: p' split: if_splits intro: less_SucI)
  qed
  ultimately show ?thesis using ok by (simp add: subs_ok_def p')
qed

lemma send_failed_subs:
  assumes ok: "subs_ok p"
  shows "subs_ok (send_failed c tid p)"
proof (cases "\<exists>i consumer capacity. c = CmdSubscribe i consumer capacity")
  case False
  with ok show ?thesis
    by (cases c) (auto intro!: answer_subs subs_ok_irrelevant [OF ok])
next
  case True
  then obtain i consumer capacity where c: "c = CmdSubscribe i consumer capacity" by blast
  let ?q = "p\<lparr>subscriptions := (subscriptions p)(i := map_option (\<lambda>c. c\<lparr>chan_open := False\<rparr>) (subscriptions p i))\<rparr>"
  have "subs_ok ?q"
  proof (cases "subscriptions p i")
    case None
    then have "?q = p" by (simp add: fun_upd_idem)
    with ok show ?thesis by simp
  next
    case (Some x)
    have ch: "chans_ok p" using ok by (simp add: subs_ok_def)
    have "chans_ok ?q" using Some
      by (intro chans_ok_channel [OF ch Some, where c' = "x\<lparr>chan_open := False\<rparr>"]) (simp_all add: chan_bytes_def)
    moreover have "fresh_id ?q j \<longleftrightarrow> fresh_id p j" for j using Some by (intro keeps_fresh) (simp add: keeps_from_def)
    then have "pending_ok ?q" using ok by (simp add: subs_ok_def pending_ok_def queued_ids_def sends_id_def)
    ultimately show ?thesis using ok by (simp add: subs_ok_def)
  qed
  then show ?thesis unfolding c by (simp add: answer_subs)
qed

lemma send_command_subs:
  assumes ok: "subs_ok p" and c: "clients p tid = Some (Sending async c)" and s: "send_command async c tid p = Some p'"
  shows "subs_ok p'"
proof -
  have quiet: "quiet (after_send c)" by (cases c) (simp_all add: after_send_def)
  consider (stopped) "p' = send_failed c tid p"
    | (room) "p' = answer tid (after_send c) (p\<lparr>plane_commands := plane_commands p @ [c]\<rparr>)"
    | (full) e where "p' = answer tid (Finished (Err e)) p"
    using s by (auto simp: send_command_def split: if_splits)
  then show ?thesis
  proof cases
    case stopped
    then show ?thesis using send_failed_subs [OF ok] by simp
  next
    case full
    with ok show ?thesis by (simp add: answer_subs)
  next
    case room
    have q: "queued_ids p' = queued_ids p @ (case subscribe_id c of None \<Rightarrow> [] | Some i \<Rightarrow> [i])"
      by (simp add: room queued_ids_def map_filter_def split: option.split)
    have sub: "sends_id p tid = subscribe_id c" using c by (simp add: sends_id_def)
    have st: "sends_id p' t = (if t = tid then None else sends_id p t)" for t
      using quiet by (auto simp: room answer_def sends_id_def quiet_def split: client.splits)
    have fresh: "fresh_id p' i \<longleftrightarrow> fresh_id p i" for i by (simp add: room fresh_id_def)
    have pe: "pending_ok p" using ok by (simp add: subs_ok_def)
    have "pending_ok p'"
    proof (cases "subscribe_id c")
      case None
      with pe q st fresh show ?thesis unfolding pending_ok_def by auto
    next
      case (Some i)
      with pe sub have "fresh_id p i" "i \<notin> set (queued_ids p)" "\<And>t. sends_id p t = Some i \<Longrightarrow> t = tid"
        unfolding pending_ok_def by auto
      with pe q st fresh Some show ?thesis unfolding pending_ok_def by auto
    qed
    moreover have "chans_ok p" using ok by (simp add: subs_ok_def)
    then have "chans_ok p'"
      by (intro chans_ok_frame [of p p' "[]"]) (simp_all add: room chans_ok_def)
    ultimately show ?thesis using ok by (simp add: subs_ok_def room)
  qed
qed

lemma take_event_subs:
  assumes ok: "subs_ok p" and c: "subscriptions p i = Some c" "chan_queue c = ev # evs"
  shows "subs_ok (take_event i ev evs c p)"
proof -
  let ?q = "take_event i ev evs c p"
  have ch: "chans_ok p" using ok by (simp add: subs_ok_def)
  have "chans_ok ?q"
    by (rule chans_ok_channel [OF ch c(1), where c' = "c\<lparr>chan_queue := evs, chan_taken := chan_taken c @ [ev]\<rparr>"])
      (simp_all add: take_event_def chan_bytes_def c(2))
  moreover have "fresh_id ?q j \<longleftrightarrow> fresh_id p j" for j
    using c(1) by (intro keeps_fresh) (simp add: keeps_from_def take_event_def)
  then have "pending_ok ?q" using ok by (simp add: subs_ok_def pending_ok_def queued_ids_def sends_id_def take_event_def)
  ultimately show ?thesis using ok by (simp add: subs_ok_def take_event_def)
qed

lemma drop_subscription_subs:
  assumes ok: "subs_ok p" and c: "subscriptions p i = Some c"
  shows "subs_ok (drop_subscription i c p)"
proof -
  let ?q = "drop_subscription i c p"
  have ch: "chans_ok p" using ok by (simp add: subs_ok_def)
  have "chans_ok ?q"
    by (rule chans_ok_channel [OF ch c, where c' = "c\<lparr>chan_open := False\<rparr>"])
      (simp_all add: drop_subscription_def chan_bytes_def)
  moreover have "fresh_id ?q j \<longleftrightarrow> fresh_id p j" for j
    using c by (intro keeps_fresh) (simp add: keeps_from_def drop_subscription_def)
  moreover have "queued_ids ?q = queued_ids p" by (simp add: queued_ids_def drop_subscription_def map_filter_def)
  ultimately have "pending_ok ?q" using ok by (simp add: subs_ok_def pending_ok_def sends_id_def drop_subscription_def)
  then show ?thesis using \<open>chans_ok ?q\<close> ok by (simp add: subs_ok_def drop_subscription_def)
qed

lemma plane_step_subs:
  assumes "plane_step ops p p'" "subs_ok p"
  shows "subs_ok p'"
  using assms
proof (induction rule: plane_step.induct)
  case (actor p p')
  then show ?case by (blast intro: actor_step_subs)
next
  case (writes tid p async data)
  then show ?case by (simp add: start_write_def answer_subs)
next
  case (resizes tid p async cols rows)
  then show ?case by (simp add: start_resize_def answer_subs)
next
  case (shuts_down tid p)
  then show ?case by (simp add: start_shutdown_def answer_subs)
next
  case (subscribes tid p consumer capacity)
  then show ?case by (blast intro: start_subscribe_subs)
next
  case (acquires tid p name)
  have "subs_ok (p\<lparr>exclusive_active := True, next_owner_id := n\<rparr>)" for n
    using acquires(2) by (rule subs_ok_irrelevant) simp_all
  then show ?case using acquires by (simp add: start_acquire_def answer_subs Let_def)
next
  case (sends p tid async c p')
  from sends(3,1,2) show ?case by (rule send_command_subs)
next
  case (unanswered p tid operation)
  have "subs_ok (p\<lparr>exclusive_active := False\<rparr>)" using unanswered(3) by (rule subs_ok_irrelevant) simp_all
  with unanswered show ?case by (cases operation) (simp_all add: answer_subs)
next
  case (refused p tid e)
  have "subs_ok (p\<lparr>exclusive_active := False\<rparr>)" using refused(2) by (rule subs_ok_irrelevant) simp_all
  then show ?case by (simp add: lower_exclusive_def answer_subs)
next
  case (returned p tid r)
  have "subs_ok (p\<lparr>exclusive_active := False\<rparr>)" using returned(2) by (rule subs_ok_irrelevant) simp_all
  then show ?case by (simp add: lower_exclusive_def answer_subs)
next
  case (lease_read p tid l n)
  obtain r l' k where r: "exclusive_read ops n l = (r, l', k)" by (metis surj_pair)
  show ?case
    by (rule client_subs [OF lease_read(2), where tid = tid and d = "Leasing l'"
          and rs = "case r of Ok bs \<Rightarrow> [LeaseRead (lease_owner l) bs] | _ \<Rightarrow> []"])
      (auto simp: lease_reads_def answer_def r split: result.splits)
next
  case (lease_write p tid l data)
  obtain r l' k where r: "exclusive_write ops data l = (r, l', k)" by (metis surj_pair)
  have "subs_ok (p\<lparr>tx_bytes := n\<rparr>)" for n using lease_write(2) by (rule subs_ok_irrelevant) simp_all
  then show ?case by (simp add: lease_writes_def r answer_subs)
next
  case (lease_flush p tid l)
  then show ?case by (simp add: lease_flushes_def answer_subs)
next
  case (releases p tid l)
  have "subs_ok (p\<lparr>exclusive_active := False\<rparr>)" using releases(2) by (rule subs_ok_irrelevant) simp_all
  with releases show ?case by (simp add: release_def answer_subs split: option.split)
next
  case (consumes p i c ev evs)
  then show ?case by (blast intro: take_event_subs)
next
  case (unsubscribes p i c)
  then show ?case by (blast intro: drop_subscription_subs)
qed

lemma plane_reach_subs: "plane_reach ops driver p \<Longrightarrow> subs_ok p"
proof (induction rule: plane_reach.induct)
  case start
  show ?case
    by (simp add: new_plane_def subs_ok_def chans_ok_def pending_ok_def queued_ids_def sends_id_def map_filter_simps)
qed (rule plane_step_subs)

section \<open>Properties\<close>

text \<open>C5. Subscribers hear without gaps, whatever the driver, the other users and the interleaving: what an attached
  subscriber has taken and what waits for it is exactly what was shared since it was attached, in order, and no
  more events wait than its capacity; one that was detached keeps a prefix of it.\<close>

theorem subscriber_gapless:
  assumes "plane_reach ops driver p"
  shows "(\<forall>s\<in>set (subscribers p). \<exists>c k. subscriptions p (sub_id s) = Some c \<and> sub_from c = Some k \<and>
      chan_bytes c = shared_since k p \<and> length (chan_queue c) \<le> sub_capacity s) \<and>
    (\<forall>i c k. subscriptions p i = Some c \<longrightarrow> sub_from c = Some k \<longrightarrow> prefix (chan_bytes c) (shared_since k p))"
  using plane_reach_subs [OF assms] unfolding subs_ok_def chans_ok_def attached_ok_def chan_ok_def by fastforce

definition heard :: "byte list" where "heard = [104, 105]"

lemmas serial_run = serial_ops_def serial_driver_read_def os_read_def READ_BUFFER_SIZE_def demo_stream_def

theorem subscriber_gapless_witness:
  "\<exists>p c. moves serial_ops [Subscribes 4 7, Sends 7, ActorMoves, ActorMoves, ActorMoves, ActorMoves, ActorMoves, ActorMoves]
       (new_plane (demo_stream [Inr heard])) = Some p \<and>
     subscriptions p 1 = Some c \<and> chan_queue c = [PlaneData heard] \<and> chan_bytes c = shared_since 0 p"
proof -
  let ?s = "\<lparr>sub_id = 1, sub_consumer = ''consumer'', sub_capacity = 4\<rparr>"
  obtain p where p: "moves serial_ops [Subscribes 4 7, Sends 7, ActorMoves, ActorMoves, ActorMoves, ActorMoves, ActorMoves, ActorMoves]
       (new_plane (demo_stream [Inr heard])) = Some p" "?s \<in> set (subscribers p)"
    "\<exists>c. subscriptions p 1 = Some c \<and> chan_queue c = [PlaneData heard] \<and> sub_from c = Some 0"
    by (simp add: plane_run serial_run start_subscribe_def new_subscription_def handle_subscribe_def read_driver_def heard_def
        publish_shared_data_def try_send_def enqueue_event_def)
  from subscriber_gapless [OF moves_reach [OF plane_reach.start p(1)]] p(2,3)
  obtain c where "subscriptions p 1 = Some c" "chan_queue c = [PlaneData heard]" "chan_bytes c = shared_since 0 p"
    by fastforce
  with p(1) show ?thesis by blast
qed

end
