(* ===== verification/Data_Plane_Progress.thy ===== *)
theory Data_Plane_Progress
  imports Data_Plane_Lease
begin

text \<open>
  Nobody waits for ever: a client that waits for an answer has its request in the queue, the queue is served in
  every position of the actor, during a lease as well, and each request is answered when it is served.
\<close>

section \<open>Waiting clients have a request in the queue\<close>

definition wait_ok :: "'s plane \<Rightarrow> bool" where
  "wait_ok p \<longleftrightarrow> (\<forall>tid w. clients p tid = Some (Awaiting w) \<longrightarrow>
     actor p = Stopped \<or> (\<exists>c\<in>set (plane_commands p). cmd_client c = Some tid))"

lemma handle_command_answers:
  assumes h: "handle_command ops c p = Ok (out, p1)"
  shows "plane_commands p1 = plane_commands p" "cmd_client c \<noteq> Some t \<Longrightarrow> clients p1 t = clients p t"
    "cmd_client c = Some t \<Longrightarrow> clients p1 t \<noteq> Some (Awaiting w)" "actor p1 = actor p"
proof -
  consider (unanswered) "clients p1 = clients p" "cmd_client c = None" "plane_commands p1 = plane_commands p" "actor p1 = actor p"
    | (answered) tid d where "clients p1 = (clients p)(tid \<mapsto> d)" "cmd_client c = Some tid" "\<And>w. d \<noteq> Awaiting w"
        "plane_commands p1 = plane_commands p" "actor p1 = actor p"
  proof (cases c)
    case (CmdWrite data tid)
    with h that(2) [of tid] show ?thesis
      by (auto simp: handle_write_def answer_def Let_def split_beta split: option.splits result.splits if_splits)
  next
    case (CmdResize cols rows tid)
    with h that(2) [of tid] show ?thesis
      by (auto simp: handle_resize_def answer_def Let_def split_beta split: option.splits result.splits if_splits)
  next
    case (CmdShutdown tid)
    with h that(2) [of tid] show ?thesis
      by (auto simp: handle_shutdown_def answer_def Let_def split_beta simp del: not_None_eq split: option.splits if_splits)
  next
    case (CmdAcquire own name tid)
    with h that(2) [of tid] show ?thesis
      by (auto simp: handle_acquire_def take_unconsumed_bytes_def answer_def Let_def split: option.splits prod.splits)
  next
    case (CmdReturn own s pre tid)
    with h that(2) [of tid] show ?thesis
      by (auto simp: handle_return_def restore_unconsumed_bytes_def answer_def Let_def split_beta split: if_splits)
  next
    case (CmdSubscribe i consumer capacity)
    with h that(1) show ?thesis
      by (auto simp: handle_subscribe_def Let_def split: option.splits if_splits send_outcome.splits)
  next
    case (CmdUnsubscribe i)
    with h that(1) show ?thesis by (auto simp: handle_unsubscribe_def)
  qed
  note cs = this
  show "plane_commands p1 = plane_commands p" "cmd_client c \<noteq> Some t \<Longrightarrow> clients p1 t = clients p t"
    "cmd_client c = Some t \<Longrightarrow> clients p1 t \<noteq> Some (Awaiting w)" "actor p1 = actor p"
    by (cases rule: cs; simp)+
qed

lemma receive_command_waits:
  assumes ok: "wait_ok p" and q: "plane_commands p = c # cs" and run: "actor p \<noteq> Stopped"
  shows "wait_ok (receive_command ops c cs p)"
    "actor (receive_command ops c cs p) = Stopped \<or> plane_commands (receive_command ops c cs p) = cs"
proof -
  consider (stopped) "actor (receive_command ops c cs p) = Stopped"
    | (goes_on) p1 out where "handle_command ops c (p\<lparr>plane_commands := cs\<rparr>) = Ok (out, p1)"
        "clients (receive_command ops c cs p) = clients p1" "plane_commands (receive_command ops c cs p) = plane_commands p1"
  proof (cases "handle_command ops c (p\<lparr>plane_commands := cs\<rparr>)")
    case (Ok op)
    obtain out p1 where op: "op = (out, p1)" by fastforce
    show ?thesis
    proof (cases out)
      case Continue
      with that(2) [of out p1] Ok op show ?thesis by (simp add: receive_command_def)
    qed (use that(1) Ok op in \<open>simp_all add: receive_command_def\<close>)
  qed (use that(1) in \<open>simp_all add: receive_command_def lower_flags_def\<close>)
  note cs = this
  show "actor (receive_command ops c cs p) = Stopped \<or> plane_commands (receive_command ops c cs p) = cs"
    by (cases rule: cs) (simp_all add: handle_command_answers(1))
  show "wait_ok (receive_command ops c cs p)"
  proof (cases rule: cs)
    case stopped
    then show ?thesis by (simp add: wait_ok_def)
  next
    case goes_on
    note a = handle_command_answers [OF goes_on(1)]
    have "\<exists>c'\<in>set cs. cmd_client c' = Some t" if t: "clients p1 t = Some (Awaiting w)" for t w
    proof -
      have "cmd_client c \<noteq> Some t" using a(3) t by blast
      then have "clients p t = Some (Awaiting w)" using a(2) [of t] t by simp
      with ok run q \<open>cmd_client c \<noteq> Some t\<close> show ?thesis unfolding wait_ok_def by fastforce
    qed
    then show ?thesis using goes_on(2,3) a(1) unfolding wait_ok_def by auto
  qed
qed

lemma actor_step_waits:
  assumes ok: "wait_ok p" and s: "actor_step ops p = Some p'"
  shows "wait_ok p'"
proof -
  have keep: "wait_ok q" if "clients q = clients p" "plane_commands q = plane_commands p \<or> actor q = Stopped" "actor p \<noteq> Stopped" for q
    using ok that unfolding wait_ok_def by auto
  have run: "actor p \<noteq> Stopped" using s by (auto simp: actor_step_def)
  show ?thesis
  proof (cases "\<exists>c cs. plane_commands p = c # cs \<and> p' = receive_command ops c cs p")
    case True
    then show ?thesis using receive_command_waits(1) [OF ok _ run] by blast
  next
    case False
    have "clients (read_driver ops p) = clients p \<and>
        (plane_commands (read_driver ops p) = plane_commands p \<or> actor (read_driver ops p) = Stopped)"
      by (simp add: read_driver_def close_actor_def lower_flags_def Let_def split: option.split prod.split result.split read_status.split)
    with False s run show ?thesis
      by (intro keep) (auto simp: actor_step_def simp del: not_None_eq split: actor_position.splits list.splits if_splits)
  qed
qed

text \<open>A client changes what it does; it waits only when its request is in the queue.\<close>

lemma client_waits:
  assumes "wait_ok p" "clients p' = (clients p)(tid := d)" "set (plane_commands p) \<subseteq> set (plane_commands p')" "actor p' = actor p"
    "\<And>w. d = Some (Awaiting w) \<Longrightarrow> \<exists>c\<in>set (plane_commands p'). cmd_client c = Some tid"
  shows "wait_ok p'"
  using assms unfolding wait_ok_def by (metis fun_upd_apply subsetD)

lemma answer_waits: "wait_ok p \<Longrightarrow> (\<And>w. d \<noteq> Awaiting w) \<Longrightarrow> wait_ok (answer tid d p)"
  by (rule client_waits [of p _ tid "Some d"]) (simp_all add: answer_def)

lemma waits_irrelevant:
  "wait_ok p \<Longrightarrow> clients p' = clients p \<Longrightarrow> set (plane_commands p) \<subseteq> set (plane_commands p') \<Longrightarrow> actor p' = actor p \<Longrightarrow> wait_ok p'"
  unfolding wait_ok_def by (metis subsetD)

lemma send_command_waits:
  assumes ok: "wait_ok p" and c: "sendable tid async c" and s: "send_command async c tid p = Some p'"
  shows "wait_ok p'"
proof -
  consider (stopped) "p' = send_failed c tid p" "actor p = Stopped"
    | (room) "p' = answer tid (after_send c) (p\<lparr>plane_commands := plane_commands p @ [c]\<rparr>)"
    | (full) e where "p' = answer tid (Finished (Err e)) p"
    using s by (auto simp: send_command_def split: if_splits)
  then show ?thesis
  proof cases
    case stopped
    then have "actor p' = Stopped" by (cases c) simp_all
    then show ?thesis by (simp add: wait_ok_def)
  next
    case full
    then show ?thesis using answer_waits [OF ok] by simp
  next
    case room
    have "\<exists>c'\<in>set (plane_commands p'). cmd_client c' = Some tid" if "Some (after_send c) = Some (Awaiting w)" for w
    proof -
      have "cmd_client c = Some tid" using that c by (cases c) (auto simp: after_send_def sendable_def)
      then show ?thesis by (simp add: room)
    qed
    then show ?thesis by (intro client_waits [OF ok, of _ tid "Some (after_send c)"]) (auto simp: room answer_def)
  qed
qed

lemma plane_step_waits:
  assumes "plane_step ops p p'" "lease_ok p" "wait_ok p"
  shows "wait_ok p'"
  using assms
proof (induction rule: plane_step.induct)
  case (actor p p')
  then show ?case by (blast intro: actor_step_waits)
next
  case (sends p tid async c p')
  have "sendable tid async c" using sends(1,3) unfolding lease_ok_def queue_ok_def by blast
  with sends show ?case by (blast intro: send_command_waits)
next
  case (unanswered p tid operation)
  then have "actor (answer_lost operation tid p) = Stopped" by (cases operation) simp_all
  then show ?case by (simp add: wait_ok_def)
next
  case (subscribes tid p consumer capacity)
  then show ?case
    by (auto simp: start_subscribe_def Let_def intro!: answer_waits waits_irrelevant [OF subscribes(3)])
next
  case (acquires tid p name)
  then show ?case
    by (auto simp: start_acquire_def Let_def intro!: answer_waits waits_irrelevant [OF acquires(3)])
next
  case (lease_read p tid l n)
  obtain r l' k where "exclusive_read ops n l = (r, l', k)" by (metis surj_pair)
  then show ?case
    by (auto simp: lease_reads_def intro!: answer_waits waits_irrelevant [OF lease_read(3)])
next
  case (lease_write p tid l data)
  obtain r l' k where "exclusive_write ops data l = (r, l', k)" by (metis surj_pair)
  then show ?case
    by (auto simp: lease_writes_def intro!: answer_waits waits_irrelevant [OF lease_write(3)])
next
  case (writes tid p async data)
  then show ?case by (simp add: start_write_def answer_waits)
next
  case (resizes tid p async cols rows)
  then show ?case by (simp add: start_resize_def answer_waits)
next
  case (shuts_down tid p)
  then show ?case by (simp add: start_shutdown_def answer_waits)
next
  case (refused p tid e)
  then show ?case by (auto simp: lower_exclusive_def intro!: answer_waits waits_irrelevant [OF refused(3)])
next
  case (returned p tid r)
  then show ?case by (auto simp: lower_exclusive_def intro!: answer_waits waits_irrelevant [OF returned(3)])
next
  case (lease_flush p tid l)
  then show ?case by (simp add: lease_flushes_def answer_waits)
next
  case (releases p tid l)
  then show ?case
    by (auto simp: release_def intro!: answer_waits waits_irrelevant [OF releases(3)] split: option.split)
next
  case (consumes p i c ev evs)
  then show ?case by (auto simp: take_event_def intro: waits_irrelevant [OF consumes(4)])
next
  case (unsubscribes p i c)
  then show ?case by (auto simp: drop_subscription_def intro: waits_irrelevant [OF unsubscribes(5)])
qed

lemma plane_reach_waits: "plane_reach ops driver p \<Longrightarrow> wait_ok p"
proof (induction rule: plane_reach.induct)
  case (step p p')
  show ?case by (rule plane_step_waits [OF step(2) plane_reach_lease [OF step(1)] step(3)])
qed (simp add: new_plane_def wait_ok_def)

section \<open>The queue is served\<close>

fun actor_steps :: "'s stream_ops \<Rightarrow> nat \<Rightarrow> 's plane \<Rightarrow> 's plane option" where
  "actor_steps ops 0 p = Some p"
| "actor_steps ops (Suc n) p = (case actor_step ops p of None \<Rightarrow> None | Some p' \<Rightarrow> actor_steps ops n p')"

lemma actor_steps_add:
  "actor_steps ops m p = Some q \<Longrightarrow> actor_steps ops n q = Some r \<Longrightarrow> actor_steps ops (m + n) p = Some r"
  by (induction m arbitrary: p) (auto split: option.splits)

lemma actor_steps_reach: "actor_steps ops n p = Some q \<Longrightarrow> plane_reach ops driver p \<Longrightarrow> plane_reach ops driver q"
  by (induction n arbitrary: p) (auto split: option.splits intro: plane_reach.step plane_step.actor)

definition served_within :: "'s stream_ops \<Rightarrow> nat \<Rightarrow> 's plane \<Rightarrow> 's runtime_command list \<Rightarrow> bool" where
  "served_within ops n p cs \<longleftrightarrow>
     (\<exists>m\<le>n. \<exists>p'. actor_steps ops m p = Some p' \<and> (actor p' = Stopped \<or> plane_commands p' = cs))"

lemma served_step:
  "actor_step ops p = Some p1 \<Longrightarrow> served_within ops n p1 cs \<Longrightarrow> served_within ops (Suc n) p cs"
  unfolding served_within_def by (metis Suc_le_mono actor_steps.simps(2) option.simps(5))

lemma served_now: "actor p = Stopped \<or> plane_commands p = cs \<Longrightarrow> served_within ops n p cs"
  unfolding served_within_def by (metis actor_steps.simps(1) le0)

lemma served_mono: "served_within ops m p cs \<Longrightarrow> m \<le> n \<Longrightarrow> served_within ops n p cs"
  unfolding served_within_def using order.trans by blast

text \<open>From one position of the actor's loop to the next.\<close>

lemma served_loop_head:
  assumes ok: "wait_ok p" and q: "plane_commands p = c # cs" and a: "actor p = LoopHead"
  shows "served_within ops 2 p cs"
proof (cases "exclusive p \<noteq> None \<or> exclusive_active p")
  case True
  with a q have "actor_step ops p = Some (receive_command ops c cs p)" by (auto simp: actor_step_def)
  moreover have "served_within ops 1 (receive_command ops c cs p) cs"
    using receive_command_waits(2) [OF ok q] a by (intro served_now) simp
  ultimately show ?thesis using served_step [of ops p _ 1] by (simp add: numeral_2_eq_2)
next
  case False
  let ?p = "(publish_handoff_buffer p)\<lparr>actor := DrainCommands\<rparr>"
  have s: "actor_step ops p = Some ?p" using False a by (auto simp: actor_step_def)
  have ok1: "wait_ok ?p" using actor_step_waits [OF ok s] .
  have "actor_step ops ?p = Some (receive_command ops c cs ?p)" using q by (simp add: actor_step_def)
  moreover have "served_within ops 0 (receive_command ops c cs ?p) cs"
    using receive_command_waits(2) [OF ok1, of c cs] q by (intro served_now) simp
  ultimately show ?thesis using served_step [OF s served_step] by (simp add: numeral_2_eq_2)
qed

lemma read_driver_positions:
  "actor (read_driver ops p) = Stopped \<or> plane_commands (read_driver ops p) = plane_commands p \<and>
     (actor (read_driver ops p) = LoopHead \<or> (\<exists>bs. actor (read_driver ops p) = GotData bs))"
  by (simp add: read_driver_def close_actor_def lower_flags_def Let_def split: option.split prod.split result.split read_status.split)

lemma head_served:
  assumes ok: "wait_ok p" and q: "plane_commands p = c # cs"
  shows "served_within ops 5 p cs"
proof -
  have three: "served_within ops 3 p' cs" if g: "actor p' = GotData bs" "wait_ok p'" "plane_commands p' = c # cs" for p' bs
  proof -
    obtain p1 where s: "actor_step ops p' = Some p1" "actor p1 = LoopHead" "plane_commands p1 = c # cs"
      using g(1,3) by (auto simp: actor_step_def)
    from served_step [OF s(1) served_loop_head [OF actor_step_waits [OF g(2) s(1)] s(3,2)]] show ?thesis by (simp add: eval_nat_numeral)
  qed
  have four: "served_within ops 4 p' cs" if "actor p' = ReadDriver" "wait_ok p'" and q1: "plane_commands p' = c # cs" for p'
  proof -
    have s: "actor_step ops p' = Some (read_driver ops p')" using that(1) by (simp add: actor_step_def)
    note ok1 = actor_step_waits [OF that(2) s]
    consider "actor (read_driver ops p') = Stopped" | "actor (read_driver ops p') = LoopHead" "plane_commands (read_driver ops p') = c # cs"
      | bs where "actor (read_driver ops p') = GotData bs" "plane_commands (read_driver ops p') = c # cs"
      using read_driver_positions [of ops p'] q1 by auto
    then have "served_within ops 3 (read_driver ops p') cs"
    proof cases
      case 2
      show ?thesis by (rule served_mono [OF served_loop_head [OF ok1 2(2,1)]]) simp
    qed (use three ok1 in \<open>simp_all add: served_now\<close>)
    from served_step [OF s this] show ?thesis by (simp add: eval_nat_numeral)
  qed
  show ?thesis
  proof (cases "actor p")
    case LoopHead
    show ?thesis by (rule served_mono [OF served_loop_head [OF ok q LoopHead]]) simp
  next
    case DrainCommands
    with q have "actor_step ops p = Some (receive_command ops c cs p)" by (simp add: actor_step_def)
    moreover have "served_within ops 4 (receive_command ops c cs p) cs"
      using receive_command_waits(2) [OF ok q] DrainCommands by (intro served_now) simp
    ultimately show ?thesis using served_step [of ops p _ 4] by (simp add: eval_nat_numeral)
  next
    case CheckFlag
    let ?p = "p\<lparr>actor := (if exclusive p \<noteq> None \<or> exclusive_active p then LoopHead else ReadDriver)\<rparr>"
    have s: "actor_step ops p = Some ?p" using CheckFlag by (simp add: actor_step_def)
    note ok1 = actor_step_waits [OF ok s]
    have "served_within ops 4 ?p cs"
    proof (cases "actor ?p = LoopHead")
      case True
      show ?thesis by (rule served_mono [OF served_loop_head [OF ok1 _ True]]) (simp_all add: q)
    next
      case False
      then have "actor ?p = ReadDriver" by (auto split: if_splits)
      with four [OF _ ok1] q show ?thesis by simp
    qed
    from served_step [OF s this] show ?thesis by (simp add: eval_nat_numeral)
  next
    case ReadDriver
    show ?thesis by (rule served_mono [OF four [OF ReadDriver ok q]]) simp
  next
    case (GotData bs)
    show ?thesis by (rule served_mono [OF three [OF GotData ok q]]) simp
  next
    case Stopped
    then show ?thesis by (simp add: served_now)
  qed
qed

section \<open>Properties\<close>

lemma waiting_clients_answered_aux:
  "plane_reach ops driver p \<Longrightarrow> length (plane_commands p) = k \<Longrightarrow>
   \<exists>n\<le>5 * k. \<exists>p'. actor_steps ops n p = Some p' \<and> (actor p' = Stopped \<or> (\<forall>w. clients p' tid \<noteq> Some (Awaiting w)))"
proof (induction k arbitrary: p)
  case 0
  then have "actor p = Stopped \<or> (\<forall>w. clients p tid \<noteq> Some (Awaiting w))"
    using plane_reach_waits [OF 0(1)] by (auto simp: wait_ok_def)
  then show ?case by (intro exI [of _ 0]) simp
next
  case (Suc k)
  then obtain c cs where q: "plane_commands p = c # cs" by (cases "plane_commands p") auto
  obtain m p1 where m: "m \<le> 5" "actor_steps ops m p = Some p1" "actor p1 = Stopped \<or> plane_commands p1 = cs"
    using head_served [OF plane_reach_waits [OF Suc.prems(1)] q, of ops] unfolding served_within_def by blast
  show ?case
  proof (cases "actor p1 = Stopped")
    case True
    with m show ?thesis by (intro exI [of _ m]) simp
  next
    case False
    have "plane_reach ops driver p1" using actor_steps_reach [OF m(2) Suc.prems(1)] .
    moreover have "length (plane_commands p1) = k" using m(3) False Suc.prems(2) q by simp
    ultimately obtain n p' where n: "n \<le> 5 * k" "actor_steps ops n p1 = Some p'"
      "actor p' = Stopped \<or> (\<forall>w. clients p' tid \<noteq> Some (Awaiting w))"
      using Suc.IH by blast
    then show ?thesis using m(1) actor_steps_add [OF m(2) n(2)] by (intro exI [of _ "m + n"]) simp
  qed
qed

text \<open>C25. A client that waits for the answer to a request always gets one, with or without a lease and
  whatever the driver does: the actor alone, without any step of another client, answers it or ends after at
  most five of its own steps for each request in the queue. (An ended actor is an answer: the channel is closed.)\<close>

theorem waiting_client_answered:
  assumes "plane_reach ops driver p" "clients p tid = Some (Awaiting w)"
  shows "\<exists>n\<le>5 * length (plane_commands p). \<exists>p'. actor_steps ops n p = Some p' \<and>
    (actor p' = Stopped \<or> (\<forall>w. clients p' tid \<noteq> Some (Awaiting w)))"
  by (rule waiting_clients_answered_aux [OF assms(1) refl])

theorem waiting_client_answered_witness:
  "\<exists>p n p'. moves tcp_ops [Acquires ''a'' 1, Sends 1] (new_plane (demo_stream [])) = Some p \<and> n \<le> 5 \<and>
     clients p 1 = Some (Awaiting OpAcquire) \<and> actor_steps tcp_ops n p = Some p' \<and>
     (actor p' = Stopped \<or> (\<forall>w. clients p' 1 \<noteq> Some (Awaiting w)))"
proof -
  obtain p where p: "moves tcp_ops [Acquires ''a'' 1, Sends 1] (new_plane (demo_stream [])) = Some p"
    "clients p 1 = Some (Awaiting OpAcquire)" "length (plane_commands p) = 1"
    by (simp add: plane_run)
  from waiting_client_answered [OF moves_reach [OF plane_reach.start p(1)] p(2)] p show ?thesis by auto
qed

end
