(* ===== verification/Transfer_Scheduler.thy ===== *)
theory Transfer_Scheduler
  imports TauTerm_Prelude "HOL-Library.AList"
begin

text \<open>
  The transfer scheduler of a session: \<open>transfer/scheduler.rs\<close>. A session runs one inline transfer, which takes over its
  stream, or up to a limit of auxiliary ones, never both. Each has a cancellation token, an atomic flag that the
  transfer loop shares with the scheduler; flags live in the store \<open>cancel_flags\<close> and a token is the number of one.

  A hash map is an association list; its order is used by the code only where it has one entry. Error texts, which are
  in Chinese, are constructors.
\<close>

section \<open>Cancellation flags\<close>

record cancel_flags =
  next_flag :: nat
  raised :: "nat \<Rightarrow> bool"

definition no_flags :: cancel_flags where
  "no_flags = \<lparr>next_flag = 0, raised = (\<lambda>_. False)\<rparr>"

definition new_flag :: "cancel_flags \<Rightarrow> nat \<times> cancel_flags" where
  "new_flag fl = (next_flag fl, fl\<lparr>next_flag := next_flag fl + 1, raised := (raised fl)(next_flag fl := False)\<rparr>)"

definition raise_flag :: "nat \<Rightarrow> cancel_flags \<Rightarrow> cancel_flags" where
  "raise_flag f fl = fl\<lparr>raised := (raised fl)(f := True)\<rparr>"

definition raise_flags :: "nat list \<Rightarrow> cancel_flags \<Rightarrow> cancel_flags" where
  "raise_flags fs fl = fold raise_flag fs fl"

lemma raise_flags_simps [simp]:
  "next_flag (raise_flags fs fl) = next_flag fl" "raised (raise_flags fs fl) g \<longleftrightarrow> g \<in> set fs \<or> raised fl g"
  unfolding raise_flags_def by (induction fs arbitrary: fl) (auto simp: raise_flag_def)

section \<open>The scheduler\<close>

definition DEFAULT_MAX_ACTIVE_PER_SESSION :: nat where "DEFAULT_MAX_ACTIVE_PER_SESSION = 1"

datatype transfer_task_kind = Inline | Auxiliary

record scheduled_transfer =
  task_kind :: transfer_task_kind
  task_cancel :: nat

record transfer_scheduler =
  max_active :: nat
  active_transfers :: "(string \<times> scheduled_transfer) list"

datatype scheduler_error =
    TransferIdExists | InlineRunning | LimitReached nat | TransfersDisabled | NeedsExclusive | NoTransfer
  | AmbiguousTransfer | TransferChanged

definition with_max_active :: "nat \<Rightarrow> transfer_scheduler" where
  "with_max_active n = \<lparr>max_active = n, active_transfers = []\<rparr>"

definition default_scheduler :: transfer_scheduler where
  "default_scheduler = with_max_active DEFAULT_MAX_ACTIVE_PER_SESSION"

definition is_busy :: "transfer_scheduler \<Rightarrow> bool" where
  "is_busy t = (active_transfers t \<noteq> [])"

definition active_transfer_id :: "transfer_scheduler \<Rightarrow> string option" where
  "active_transfer_id t = (case active_transfers t of [(k, _)] \<Rightarrow> Some k | _ \<Rightarrow> None)"

definition ensure_new_id :: "transfer_scheduler \<Rightarrow> string \<Rightarrow> (unit, scheduler_error) result" where
  "ensure_new_id t k = require (map_of (active_transfers t) k = None) TransferIdExists"

definition has_inline_transfer :: "transfer_scheduler \<Rightarrow> bool" where
  "has_inline_transfer t = list_ex (\<lambda>(_, x). task_kind x = Inline) (active_transfers t)"

definition ensure_auxiliary_capacity :: "transfer_scheduler \<Rightarrow> (unit, scheduler_error) result" where
  "ensure_auxiliary_capacity t =
     (if has_inline_transfer t then Err InlineRunning
      else if max_active t = 0 \<or> length (active_transfers t) \<ge> max_active t then Err (LimitReached (max_active t))
      else Ok ())"

definition insert_transfer :: "string \<Rightarrow> transfer_task_kind \<Rightarrow> transfer_scheduler \<Rightarrow> cancel_flags \<Rightarrow>
    (nat \<times> transfer_scheduler \<times> cancel_flags, scheduler_error) result" where
  "insert_transfer k kind t fl =
     (let (f, fl1) = new_flag fl in
      Ok (f, t\<lparr>active_transfers := AList.update k \<lparr>task_kind = kind, task_cancel = f\<rparr> (active_transfers t)\<rparr>, fl1))"

definition reserve_inline :: "string \<Rightarrow> transfer_scheduler \<Rightarrow> cancel_flags \<Rightarrow>
    (nat \<times> transfer_scheduler \<times> cancel_flags, scheduler_error) result" where
  "reserve_inline k t fl =
     rbind (ensure_new_id t k) (\<lambda>_.
       if max_active t = 0 then Err TransfersDisabled
       else if active_transfers t \<noteq> [] then Err NeedsExclusive
       else insert_transfer k Inline t fl)"

definition reserve_auxiliary :: "string \<Rightarrow> transfer_scheduler \<Rightarrow> cancel_flags \<Rightarrow>
    (nat \<times> transfer_scheduler \<times> cancel_flags, scheduler_error) result" where
  "reserve_auxiliary k t fl =
     rbind (ensure_new_id t k) (\<lambda>_. rbind (ensure_auxiliary_capacity t) (\<lambda>_. insert_transfer k Auxiliary t fl))"

definition cancel_transfer :: "string option \<Rightarrow> transfer_scheduler \<Rightarrow> cancel_flags \<Rightarrow> (cancel_flags, scheduler_error) result" where
  "cancel_transfer expected t fl =
     rbind (case expected of
         Some k \<Rightarrow> Ok k
       | None \<Rightarrow>
           (case active_transfers t of [] \<Rightarrow> Err NoTransfer | [(k, _)] \<Rightarrow> Ok k | _ \<Rightarrow> Err AmbiguousTransfer))
       (\<lambda>k. case map_of (active_transfers t) k of
          None \<Rightarrow> Err TransferChanged
        | Some x \<Rightarrow> Ok (raise_flag (task_cancel x) fl))"

definition finish_transfer :: "string option \<Rightarrow> transfer_scheduler \<Rightarrow> bool \<times> transfer_scheduler" where
  "finish_transfer expected t =
     (case (case expected of Some k \<Rightarrow> Some k | None \<Rightarrow> active_transfer_id t) of
        None \<Rightarrow> (False, t)
      | Some k \<Rightarrow> (map_of (active_transfers t) k \<noteq> None, t\<lparr>active_transfers := AList.delete k (active_transfers t)\<rparr>))"

definition transfer_tokens :: "transfer_scheduler \<Rightarrow> nat list" where
  "transfer_tokens t = map (task_cancel \<circ> snd) (active_transfers t)"

definition cancel_for_shutdown :: "transfer_scheduler \<Rightarrow> cancel_flags \<Rightarrow> cancel_flags" where
  "cancel_for_shutdown t fl = raise_flags (transfer_tokens t) fl"

section \<open>The invariant\<close>

definition scheduler_ok :: "transfer_scheduler \<Rightarrow> cancel_flags \<Rightarrow> bool" where
  "scheduler_ok t fl \<longleftrightarrow> distinct (map fst (active_transfers t)) \<and> length (active_transfers t) \<le> max_active t \<and>
     (has_inline_transfer t \<longrightarrow> length (active_transfers t) = 1) \<and>
     distinct (transfer_tokens t) \<and> (\<forall>f\<in>set (transfer_tokens t). f < next_flag fl)"

lemma update_new: "map_of xs k = None \<Longrightarrow> AList.update k v xs = xs @ [(k, v)]"
  by (induction xs) (auto split: if_splits)

lemma token_of: "map_of (active_transfers t) k = Some x \<Longrightarrow> task_cancel x \<in> set (transfer_tokens t)"
  unfolding transfer_tokens_def by (force dest: map_of_SomeD)

lemma scheduler_ok_new: "scheduler_ok (with_max_active n) fl"
  by (simp add: scheduler_ok_def with_max_active_def has_inline_transfer_def transfer_tokens_def)

lemma scheduler_ok_flags: "scheduler_ok t fl \<Longrightarrow> next_flag fl \<le> next_flag fl' \<Longrightarrow> scheduler_ok t fl'"
  by (auto simp: scheduler_ok_def)

lemma reserve_inline_iff:
  "reserve_inline k t fl = Ok (f, t', fl') \<longleftrightarrow> max_active t \<noteq> 0 \<and> active_transfers t = [] \<and> f = next_flag fl \<and>
     t' = t\<lparr>active_transfers := [(k, \<lparr>task_kind = Inline, task_cancel = f\<rparr>)]\<rparr> \<and> fl' = snd (new_flag fl)"
  by (cases "map_of (active_transfers t) k = None")
    (auto simp: reserve_inline_def ensure_new_id_def insert_transfer_def new_flag_def)

lemma reserve_auxiliary_iff:
  "reserve_auxiliary k t fl = Ok (f, t', fl') \<longleftrightarrow> map_of (active_transfers t) k = None \<and> \<not> has_inline_transfer t \<and>
     length (active_transfers t) < max_active t \<and> f = next_flag fl \<and>
     t' = t\<lparr>active_transfers := active_transfers t @ [(k, \<lparr>task_kind = Auxiliary, task_cancel = f\<rparr>)]\<rparr> \<and> fl' = snd (new_flag fl)"
  by (cases "map_of (active_transfers t) k = None")
    (auto simp: reserve_auxiliary_def ensure_new_id_def ensure_auxiliary_capacity_def insert_transfer_def new_flag_def update_new)

lemma reserve_inline_ok:
  "reserve_inline k t fl = Ok (f, t', fl') \<Longrightarrow> scheduler_ok t' fl' \<and> next_flag fl' = next_flag fl + 1"
  by (auto simp: reserve_inline_iff scheduler_ok_def transfer_tokens_def new_flag_def has_inline_transfer_def)

lemma reserve_auxiliary_ok:
  assumes "scheduler_ok t fl" "reserve_auxiliary k t fl = Ok (f, t', fl')"
  shows "scheduler_ok t' fl' \<and> next_flag fl' = next_flag fl + 1"
proof -
  have "k \<notin> fst ` set (active_transfers t)" using assms(2) by (auto simp: reserve_auxiliary_iff map_of_eq_None_iff)
  with assms show ?thesis
    by (auto simp: reserve_auxiliary_iff scheduler_ok_def transfer_tokens_def new_flag_def has_inline_transfer_def less_Suc_eq)
qed

lemma finish_transfer_ok:
  assumes "scheduler_ok t fl" "finish_transfer e t = (b, t')"
  shows "scheduler_ok t' fl"
proof -
  have "scheduler_ok (t\<lparr>active_transfers := AList.delete k (active_transfers t)\<rparr>) fl" for k
  proof -
    have sub: "AList.delete k (active_transfers t) = filter (\<lambda>(k', _). k' \<noteq> k) (active_transfers t)"
      unfolding AList.delete_eq by (rule filter_cong) auto
    have "length (AList.delete k (active_transfers t)) \<le> length (active_transfers t)" by (rule AList.length_delete_le)
    with assms(1) show ?thesis
      unfolding scheduler_ok_def sub transfer_tokens_def has_inline_transfer_def
      by (auto simp: distinct_map_filter list_ex_iff distinct_map inj_on_def filter_empty_conv length_Suc_conv
          split: if_splits intro: order_trans [OF length_filter_le])
  qed
  with assms show ?thesis by (auto simp: finish_transfer_def split: option.splits)
qed

section \<open>Properties\<close>

inductive scheduler_reach :: "nat \<Rightarrow> transfer_scheduler \<Rightarrow> cancel_flags \<Rightarrow> bool" for n where
  start: "scheduler_reach n (with_max_active n) no_flags"
| inline: "scheduler_reach n t fl \<Longrightarrow> reserve_inline k t fl = Ok (f, t', fl') \<Longrightarrow> scheduler_reach n t' fl'"
| auxiliary: "scheduler_reach n t fl \<Longrightarrow> reserve_auxiliary k t fl = Ok (f, t', fl') \<Longrightarrow> scheduler_reach n t' fl'"
| cancel: "scheduler_reach n t fl \<Longrightarrow> cancel_transfer e t fl = Ok fl' \<Longrightarrow> scheduler_reach n t fl'"
| finish: "scheduler_reach n t fl \<Longrightarrow> finish_transfer e t = (b, t') \<Longrightarrow> scheduler_reach n t' fl"
| shutdown: "scheduler_reach n t fl \<Longrightarrow> scheduler_reach n t (cancel_for_shutdown t fl)"

lemma cancel_transfer_flags: "cancel_transfer e t fl = Ok fl' \<Longrightarrow> next_flag fl' = next_flag fl"
  by (auto simp: cancel_transfer_def raise_flag_def result_simps split: option.splits)

lemma scheduler_reach_ok: "scheduler_reach n t fl \<Longrightarrow> scheduler_ok t fl \<and> max_active t = n"
proof (induction rule: scheduler_reach.induct)
  case start
  then show ?case using scheduler_ok_new by (simp add: with_max_active_def)
next
  case (inline t fl k f t' fl')
  then show ?case using reserve_inline_ok [OF inline.hyps(2)] unfolding reserve_inline_iff by simp
next
  case (auxiliary t fl k f t' fl')
  then show ?case using reserve_auxiliary_ok [OF _ auxiliary.hyps(2)] unfolding reserve_auxiliary_iff by simp
next
  case (cancel t fl e fl')
  then show ?case using cancel_transfer_flags scheduler_ok_flags by (metis order_refl)
next
  case (finish t fl e b t')
  then have "max_active t' = n" by (auto simp: finish_transfer_def split: option.splits)
  with finish show ?case using finish_transfer_ok by blast
next
  case (shutdown t fl)
  then show ?case using scheduler_ok_flags [of t fl] by (simp add: cancel_for_shutdown_def)
qed

lemma token_inj:
  assumes "scheduler_ok t fl" "map_of (active_transfers t) k = Some x" "map_of (active_transfers t) j = Some y"
    "task_cancel x = task_cancel y"
  shows "k = j"
proof -
  have "inj_on (task_cancel \<circ> snd) (set (active_transfers t))" using assms(1) by (simp add: scheduler_ok_def transfer_tokens_def distinct_map)
  moreover have "(k, x) \<in> set (active_transfers t)" "(j, y) \<in> set (active_transfers t)" using assms(2,3) by (simp_all add: map_of_SomeD)
  moreover have "(task_cancel \<circ> snd) (k, x) = (task_cancel \<circ> snd) (j, y)" using assms(4) by simp
  ultimately have "(k, x) = (j, y)" by (meson inj_onD)
  then show ?thesis by simp
qed

text \<open>In every history of a session's scheduler an inline transfer runs alone, no more
  transfers run than the limit, and cancelling one by its number raises its own token and that of no other
  running transfer.\<close>

theorem transfer_scheduler_exclusive:
  assumes "scheduler_reach n t fl"
  shows "length (active_transfers t) \<le> n \<and> (has_inline_transfer t \<longrightarrow> length (active_transfers t) = 1) \<and>
    (\<forall>k x. map_of (active_transfers t) k = Some x \<longrightarrow>
       (\<exists>fl'. cancel_transfer (Some k) t fl = Ok fl' \<and> raised fl' (task_cancel x) \<and>
          (\<forall>j y. j \<noteq> k \<and> map_of (active_transfers t) j = Some y \<longrightarrow> raised fl' (task_cancel y) = raised fl (task_cancel y))))"
proof -
  have ok: "scheduler_ok t fl" "max_active t = n" using scheduler_reach_ok [OF assms] by simp_all
  have "\<exists>fl'. cancel_transfer (Some k) t fl = Ok fl' \<and> raised fl' (task_cancel x) \<and>
      (\<forall>j y. j \<noteq> k \<and> map_of (active_transfers t) j = Some y \<longrightarrow> raised fl' (task_cancel y) = raised fl (task_cancel y))"
    if x: "map_of (active_transfers t) k = Some x" for k x
  proof -
    have "cancel_transfer (Some k) t fl = Ok (raise_flag (task_cancel x) fl)" using x by (simp add: cancel_transfer_def)
    moreover have "raised (raise_flag (task_cancel x) fl) (task_cancel y) = raised fl (task_cancel y)"
      if "j \<noteq> k" "map_of (active_transfers t) j = Some y" for j y
      using that token_inj [OF ok(1) x that(2)] by (auto simp: raise_flag_def)
    moreover have "raised (raise_flag (task_cancel x) fl) (task_cancel x)" by (simp add: raise_flag_def)
    ultimately show ?thesis by blast
  qed
  with ok show ?thesis by (auto simp: scheduler_ok_def)
qed

theorem transfer_scheduler_exclusive_witness:
  "\<exists>t fl fl'. reserve_auxiliary ''a'' (with_max_active 2) no_flags = Ok (0, t, fl) \<and> has_inline_transfer t = False \<and>
     cancel_transfer (Some ''a'') t fl = Ok fl' \<and> raised fl' 0"
proof -
  obtain t fl where r: "reserve_auxiliary ''a'' (with_max_active 2) no_flags = Ok (0, t, fl)"
    "map_of (active_transfers t) ''a'' = Some \<lparr>task_kind = Auxiliary, task_cancel = 0\<rparr>" "has_inline_transfer t = False"
    by (simp add: reserve_auxiliary_iff with_max_active_def has_inline_transfer_def no_flags_def)
  have "scheduler_reach 2 t fl" by (rule scheduler_reach.auxiliary [OF scheduler_reach.start r(1)])
  from transfer_scheduler_exclusive [OF this] r show ?thesis by fastforce
qed

end
