(* ===== verification/Session_Store.thy ===== *)
theory Session_Store
  imports Session_Identity Transfer_Scheduler
begin

text \<open>
  The session store: \<open>kernel/session_store.rs\<close>, with the owner of a data plane from \<open>session/runtime.rs\<close> and that of a script
  from \<open>kernel/script_engine/runtime.rs\<close>. It keeps the sessions with their child connections, hands out
  runtime identities, and moves the resources of a closed session into a cleanup that the caller runs after it has released
  the lock.

  Resources of other components (a data plane's thread, services, attachments, factories, I/O capabilities) are
  numbers; what is done to them is an entry of the log \<open>effects\<close>. The clock, a fresh UUID and the
  outcome of starting a thread are arguments of the operations that use them. Every method of the store runs under its
  lock, so the methods are the steps of the model.
\<close>

section \<open>Resources\<close>

datatype session_effect =
    Attached nat string | Detached nat string | ServiceShutdown nat | PlaneActivated nat | PlaneShutdown nat
  | StatsStarted runtime_identity nat | ScriptLoaded nat string | ScriptJoined nat | TeardownSlept nat | TransferJoined nat

record world =
  flags :: cancel_flags
  effects :: "session_effect list"

definition emit_effect :: "session_effect \<Rightarrow> world \<Rightarrow> world" where
  "emit_effect e w = w\<lparr>effects := effects w @ [e]\<rparr>"

definition emit_opt :: "('a \<Rightarrow> session_effect) \<Rightarrow> 'a option \<Rightarrow> world \<Rightarrow> world" where
  "emit_opt f x w = (case x of None \<Rightarrow> w | Some v \<Rightarrow> emit_effect (f v) w)"

definition raise_world :: "nat list \<Rightarrow> world \<Rightarrow> world" where
  "raise_world fs w = w\<lparr>flags := raise_flags fs (flags w)\<rparr>"

definition alloc_flag :: "world \<Rightarrow> nat \<times> world" where
  "alloc_flag w = (let (f, fl) = new_flag (flags w) in (f, w\<lparr>flags := fl\<rparr>))"

abbreviation opt_list :: "'a option \<Rightarrow> 'a list" where
  "opt_list x \<equiv> (case x of None \<Rightarrow> [] | Some v \<Rightarrow> [v])"

text \<open>\<open>SessionDataPlane\<close>: the pump waits for its activation, and both requests are made at most once.\<close>

record session_data_plane =
  dp_runtime :: nat
  dp_identity :: runtime_identity
  dp_activated :: bool
  dp_shutdown_requested :: bool

definition attach_paused :: "nat \<Rightarrow> runtime_identity \<Rightarrow> session_data_plane" where
  "attach_paused runtime identity =
     \<lparr>dp_runtime = runtime, dp_identity = identity, dp_activated = False, dp_shutdown_requested = False\<rparr>"

definition activate_plane :: "session_data_plane \<Rightarrow> world \<Rightarrow> session_data_plane \<times> world" where
  "activate_plane d w =
     (if dp_activated d then (d, w) else (d\<lparr>dp_activated := True\<rparr>, emit_effect (PlaneActivated (dp_runtime d)) w))"

definition request_shutdown :: "session_data_plane \<Rightarrow> world \<Rightarrow> session_data_plane \<times> world" where
  "request_shutdown d w =
     (if dp_shutdown_requested d then (d, w)
      else (let (d1, w1) = activate_plane (d\<lparr>dp_shutdown_requested := True\<rparr>) w in
            (d1, emit_effect (PlaneShutdown (dp_runtime d)) w1)))"

text \<open>\<open>ScriptRuntime\<close>: its cancellation flag and its worker. Loading fails once it was told to stop; whether its queue takes the script is an
  argument.\<close>

record script_runtime =
  script_shutdown :: nat
  script_worker :: nat

datatype store_error =
    InvalidSessionId string | SessionStillActive string | SessionLimit nat | NeedsDataPlane | RuntimeIdExhausted
  | AttachFailed message | SessionNotFound string | ChildNotFound string string | NotWritable string | RuntimeChanged
  | NoIo | NoAutomation | ScriptStopping | ScriptFailed message | TransferRefused scheduler_error | TransferRuntimeGone

definition script_load :: "message option \<Rightarrow> string \<Rightarrow> script_runtime \<Rightarrow> world \<Rightarrow> (world, store_error) result" where
  "script_load full code r w =
     (if raised (flags w) (script_shutdown r) then Err ScriptStopping
      else (case full of Some e \<Rightarrow> Err (ScriptFailed e) | None \<Rightarrow> Ok (emit_effect (ScriptLoaded (script_worker r) code) w)))"

definition script_start :: "message option \<Rightarrow> string \<Rightarrow> nat \<Rightarrow> world \<Rightarrow> (script_runtime \<times> world, store_error) result" where
  "script_start failure code worker w =
     (case failure of
        Some e \<Rightarrow> Err (ScriptFailed e)
      | None \<Rightarrow>
          (let (f, w1) = alloc_flag w in
           Ok (\<lparr>script_shutdown = f, script_worker = worker\<rparr>, emit_effect (ScriptLoaded worker code) w1)))"

text \<open>\<open>into_cleanup\<close> cancels; what is left is the worker to join.\<close>

definition script_into_cleanup :: "script_runtime \<Rightarrow> world \<Rightarrow> nat \<times> world" where
  "script_into_cleanup r w = (script_worker r, raise_world [script_shutdown r] w)"

definition take_script :: "script_runtime option \<Rightarrow> world \<Rightarrow> nat option \<times> world" where
  "take_script r w =
     (case r of None \<Rightarrow> (None, w) | Some s \<Rightarrow> (let (k, w1) = script_into_cleanup s w in (Some k, w1)))"

section \<open>Sessions\<close>

datatype session_state = SessDisconnected | SessConnecting | SessConnected

record sub_connection =
  sc_published :: bool
  sc_runtime_id :: u64
  sc_id :: string
  sc_name :: string
  sc_data_plane :: "session_data_plane option"
  sc_io :: nat
  sc_state :: session_state
  sc_connected_at :: "u64 option"
  sc_stats_flag :: "nat option"
  sc_channel_index :: u32
  sc_elevated :: bool
  sc_retain_terminal :: bool
  sc_script :: "script_runtime option"
  sc_visible :: bool

definition sub_connection_new ::
  "string \<Rightarrow> string \<Rightarrow> session_data_plane \<Rightarrow> nat \<Rightarrow> u32 \<Rightarrow> bool \<Rightarrow> sub_connection" where
  "sub_connection_new cid name d io index elevated =
     \<lparr>sc_published = False, sc_runtime_id = runtime_id (dp_identity d), sc_id = cid, sc_name = name, sc_data_plane = Some d,
      sc_io = io, sc_state = SessConnected, sc_connected_at = None, sc_stats_flag = None, sc_channel_index = index,
      sc_elevated = elevated, sc_retain_terminal = False, sc_script = None, sc_visible = True\<rparr>"

definition sub_connection_background :: "string \<Rightarrow> string \<Rightarrow> session_data_plane \<Rightarrow> nat \<Rightarrow> u32 \<Rightarrow> sub_connection" where
  "sub_connection_background cid name d io index = (sub_connection_new cid name d io index False)\<lparr>sc_visible := False\<rparr>"

record session_handle =
  sh_published :: bool
  sh_runtime_id :: u64
  sh_id :: string
  sh_name :: string
  sh_data_plane :: "session_data_plane option"
  sh_io :: "nat option"
  sh_automation_io :: "nat option"
  sh_state :: session_state
  sh_plugin_id :: string
  sh_endpoint :: string
  sh_connected_at :: "u64 option"
  sh_stats_flag :: "nat option"
  sh_transfer_enabled :: bool
  sh_transfer_protocol :: "string option"
  sh_send_bar_enabled :: bool
  sh_script :: "script_runtime option"
  sh_service :: "nat option"
  sh_file_transfer :: "nat option"
  sh_attachment :: "nat option"
  sh_channel_factory :: "nat option"
  sh_scheduler :: transfer_scheduler
  sh_transfer_tasks :: "nat list"
  sh_teardown_delay :: nat
  sh_children :: "sub_connection list"
  sh_next_child_index :: u32

record sub_cleanup =
  sk_channel_id :: string
  sk_data_plane :: "session_data_plane option"
  sk_script :: "nat option"

record session_cleanup =
  ck_identity :: runtime_identity
  ck_children :: "sub_cleanup list"
  ck_data_plane :: "session_data_plane option"
  ck_script :: "nat option"
  ck_transfers :: "nat list"
  ck_service :: "nat option"
  ck_attachment :: "nat option"
  ck_teardown_delay :: nat

record session_store =
  next_runtime_id :: u64
  sessions :: "(string \<times> session_handle) list"
  store_active_id :: "string option"
  tab_order :: "string list"
  max_active_root_sessions :: nat
  session_names :: "(string \<times> string) list"
  removed_order :: "string list"

definition DEFAULT_MAX_ACTIVE_ROOT_SESSIONS :: nat where "DEFAULT_MAX_ACTIVE_ROOT_SESSIONS = 64"
definition MAX_REMOVED_SESSION_NAMES :: nat where "MAX_REMOVED_SESSION_NAMES = 50"

definition new_store :: session_store where
  "new_store = \<lparr>next_runtime_id = 1, sessions = [], store_active_id = None, tab_order = [],
     max_active_root_sessions = DEFAULT_MAX_ACTIVE_ROOT_SESSIONS, session_names = [], removed_order = []\<rparr>"

section \<open>Cleanup\<close>

definition sub_cleanup_join :: "sub_cleanup \<Rightarrow> world \<Rightarrow> world" where
  "sub_cleanup_join k w =
     emit_opt ScriptJoined (sk_script k)
       (case sk_data_plane k of None \<Rightarrow> w | Some d \<Rightarrow> snd (request_shutdown d w))"

definition join_resources :: "session_cleanup \<Rightarrow> world \<Rightarrow> world" where
  "join_resources c w =
     (let w1 = fold sub_cleanup_join (ck_children c) w;
          w2 = (case ck_data_plane c of None \<Rightarrow> w1 | Some d \<Rightarrow> snd (request_shutdown d w1));
          w3 = emit_opt ScriptJoined (ck_script c) w2;
          w4 = (if ck_teardown_delay c = 0 then w3 else emit_effect (TeardownSlept (ck_teardown_delay c)) w3);
          w5 = emit_opt ServiceShutdown (ck_service c) w4 in
      emit_opt (\<lambda>a. Detached a (session_id (ck_identity c))) (ck_attachment c) w5)"

definition finish_cleanup :: "session_cleanup \<Rightarrow> world \<Rightarrow> world" where
  "finish_cleanup c w = fold (\<lambda>t. emit_effect (TransferJoined t)) (ck_transfers c) (join_resources c w)"

text \<open>Dropping a handle that was never closed.\<close>

definition drop_child :: "sub_connection \<Rightarrow> world \<Rightarrow> world" where
  "drop_child c w =
     (let w1 = raise_world (opt_list (sc_stats_flag c)) w;
          w2 = (case sc_data_plane c of None \<Rightarrow> w1 | Some d \<Rightarrow> snd (request_shutdown d w1)) in
      raise_world (map script_shutdown (opt_list (sc_script c))) w2)"

definition drop_handle :: "session_handle \<Rightarrow> world \<Rightarrow> world" where
  "drop_handle h w =
     (let w1 = emit_opt (\<lambda>a. Detached a (sh_id h)) (sh_attachment h) w;
          w2 = emit_opt ServiceShutdown (sh_service h) w1;
          w3 = w2\<lparr>flags := cancel_for_shutdown (sh_scheduler h) (flags w2)\<rparr>;
          w4 = raise_world (opt_list (sh_stats_flag h) @ map script_shutdown (opt_list (sh_script h))) w3;
          w5 = (case sh_data_plane h of None \<Rightarrow> w4 | Some d \<Rightarrow> snd (request_shutdown d w4)) in
      fold drop_child (sh_children h) w5)"

section \<open>Looking things up\<close>

definition session_not_found :: "session_store \<Rightarrow> string \<Rightarrow> store_error" where
  "session_not_found s sid = SessionNotFound (case map_of (session_names s) sid of None \<Rightarrow> sid | Some n \<Rightarrow> n)"

fun index_of_child :: "string \<Rightarrow> sub_connection list \<Rightarrow> nat option" where
  "index_of_child cid [] = None"
| "index_of_child cid (c # cs) = (if sc_id c = cid then Some 0 else map_option Suc (index_of_child cid cs))"

text \<open>The first session in the map's order with such a child, and the child's index.\<close>

fun find_in_sessions :: "string \<Rightarrow> (string \<times> session_handle) list \<Rightarrow> (string \<times> nat) option" where
  "find_in_sessions cid [] = None"
| "find_in_sessions cid ((k, h) # hs) =
     (case index_of_child cid (sh_children h) of Some i \<Rightarrow> Some (k, i) | None \<Rightarrow> find_in_sessions cid hs)"

definition find_sub_connection_index :: "session_store \<Rightarrow> string \<Rightarrow> (string \<times> nat) option" where
  "find_sub_connection_index s cid = find_in_sessions cid (sessions s)"

definition find_parent_of_channel :: "session_store \<Rightarrow> string \<Rightarrow> string option" where
  "find_parent_of_channel s cid = map_option fst (find_sub_connection_index s cid)"

definition resolve_parent_id :: "session_store \<Rightarrow> string \<Rightarrow> string option" where
  "resolve_parent_id s sid =
     (if map_of (sessions s) sid \<noteq> None then Some sid else find_parent_of_channel s sid)"

definition find_child :: "session_store \<Rightarrow> string \<Rightarrow> (session_handle \<times> sub_connection) option" where
  "find_child s cid =
     (case find_sub_connection_index s cid of
        None \<Rightarrow> None
      | Some (pid, i) \<Rightarrow>
          (case map_of (sessions s) pid of
             None \<Rightarrow> None
           | Some h \<Rightarrow> if i < length (sh_children h) then Some (h, sh_children h ! i) else None))"

definition get_io_for :: "session_store \<Rightarrow> string \<Rightarrow> nat option" where
  "get_io_for s sid =
     (case map_of (sessions s) sid of
        Some h \<Rightarrow> sh_io h
      | None \<Rightarrow> map_option (sc_io \<circ> snd) (find_child s sid))"

definition runtime_identity_of :: "session_store \<Rightarrow> string \<Rightarrow> runtime_identity option" where
  "runtime_identity_of s sid =
     (case map_of (sessions s) sid of
        Some h \<Rightarrow> Some \<lparr>session_id = sh_id h, runtime_id = sh_runtime_id h\<rparr>
      | None \<Rightarrow> map_option (\<lambda>(_, c). \<lparr>session_id = sc_id c, runtime_id = sc_runtime_id c\<rparr>) (find_child s sid))"

definition matches_runtime :: "session_store \<Rightarrow> runtime_identity \<Rightarrow> bool" where
  "matches_runtime s identity = (runtime_identity_of s (session_id identity) = Some identity)"

definition runtime_is_connected :: "session_store \<Rightarrow> runtime_identity \<Rightarrow> bool" where
  "runtime_is_connected s identity =
     (case map_of (sessions s) (session_id identity) of
        Some h \<Rightarrow> sh_runtime_id h = runtime_id identity \<and> sh_state h = SessConnected
      | None \<Rightarrow>
          (case find_child s (session_id identity) of
             None \<Rightarrow> False
           | Some (h, c) \<Rightarrow> sh_runtime_id h = runtime_id identity \<and> sh_state h = SessConnected \<and> sc_state c = SessConnected))"

definition io_for_runtime :: "session_store \<Rightarrow> runtime_identity \<Rightarrow> (nat, store_error) result" where
  "io_for_runtime s identity =
     (if \<not> runtime_is_connected s identity then Err RuntimeChanged
      else ok_or NoIo (get_io_for s (session_id identity)))"

definition write_session :: "session_store \<Rightarrow> string \<Rightarrow> (nat, store_error) result" where
  "write_session s sid = ok_or (NotWritable sid) (get_io_for s sid)"

definition all_session_ids :: "session_store \<Rightarrow> string list" where
  "all_session_ids s = map fst (sessions s) @ concat (map (\<lambda>(_, h). map sc_id (sh_children h)) (sessions s))"

section \<open>Opening\<close>

text \<open>Taking a handle out of the map, and dropping it.\<close>

definition remove_session :: "string \<Rightarrow> session_store \<Rightarrow> world \<Rightarrow> session_store \<times> world" where
  "remove_session sid s w =
     (s\<lparr>sessions := AList.delete sid (sessions s)\<rparr>,
      case map_of (sessions s) sid of None \<Rightarrow> w | Some h \<Rightarrow> drop_handle h w)"

definition zombie_ids :: "session_store \<Rightarrow> string list" where
  "zombie_ids s = map fst (filter (\<lambda>(_, h). sh_state h = SessDisconnected) (sessions s))"

definition purge_zombies :: "session_store \<Rightarrow> world \<Rightarrow> session_store \<times> world" where
  "purge_zombies s w = fold (\<lambda>sid (s, w). remove_session sid s w) (zombie_ids s) (s, w)"

definition allocate_runtime_identity :: "string \<Rightarrow> session_store \<Rightarrow> (runtime_identity \<times> session_store, store_error) result" where
  "allocate_runtime_identity sid s =
     (if next_runtime_id s = -1 then Err RuntimeIdExhausted
      else Ok (\<lparr>session_id = sid, runtime_id = next_runtime_id s\<rparr>, s\<lparr>next_runtime_id := next_runtime_id s + 1\<rparr>))"

text \<open>A disconnected session of the same number makes room, any other one is in the way.\<close>

definition vacate_session :: "string \<Rightarrow> session_store \<Rightarrow> world \<Rightarrow> (unit, store_error) result \<times> session_store \<times> world" where
  "vacate_session sid s w =
     (case map_of (sessions s) sid of
        None \<Rightarrow> (Ok (), s, w)
      | Some h \<Rightarrow>
          if sh_state h = SessDisconnected then (Ok (), remove_session sid s w)
          else (Err (SessionStillActive sid), s, w))"

definition insert_session :: "string \<Rightarrow> session_handle \<Rightarrow> session_store \<Rightarrow> session_store" where
  "insert_session sid h s =
     s\<lparr>sessions := AList.update sid h (sessions s), tab_order := filter (\<lambda>t. t \<noteq> sid) (tab_order s) @ [sid],
       session_names := AList.update sid (sh_name h) (session_names s), store_active_id := Some sid\<rparr>"

record protocol_connection =
  pc_data_plane :: "nat option"
  pc_service :: "nat option"
  pc_file_transfer :: "nat option"
  pc_channel_factory :: "nat option"
  pc_on_attached :: "nat option"
  pc_teardown_delay :: nat

record session_options =
  so_name :: string
  so_plugin_id :: string
  so_endpoint :: string
  so_transfer_enabled :: bool
  so_transfer_protocol :: "string option"
  so_send_bar_enabled :: bool
  so_id_override :: "string option"

definition tab_name :: "session_options \<Rightarrow> string" where
  "tab_name opts = (if so_name opts = [] then so_plugin_id opts @ '' @ '' @ so_endpoint opts else so_name opts)"

definition create_session ::
  "(string \<Rightarrow> bool) \<Rightarrow> string \<Rightarrow> u64 \<Rightarrow> message option \<Rightarrow> session_options \<Rightarrow> protocol_connection \<Rightarrow> session_store \<Rightarrow> world \<Rightarrow>
   (runtime_identity, store_error) result \<times> session_store \<times> world" where
  "create_session is_uuid fresh now attach_failure opts conn s w =
     (let (claim, s1, w1) =
        (case so_id_override opts of
           None \<Rightarrow> (Ok (), s, w)
         | Some raw \<Rightarrow> if \<not> is_uuid raw then (Err (InvalidSessionId raw), s, w) else vacate_session raw s w) in
      case claim of
        Err e \<Rightarrow> (Err e, s1, w1)
      | Panic \<Rightarrow> (Panic, s1, w1)
      | Ok _ \<Rightarrow>
       (let (s2, w2) = purge_zombies s1 w1 in
        if length (sessions s2) \<ge> max_active_root_sessions s2 then (Err (SessionLimit (max_active_root_sessions s2)), s2, w2)
        else
          (let sid = (case so_id_override opts of Some raw \<Rightarrow> raw | None \<Rightarrow> fresh) in
           case pc_data_plane conn of
             None \<Rightarrow> (Err NeedsDataPlane, s2, w2)
           | Some runtime \<Rightarrow>
               (case allocate_runtime_identity sid s2 of
                  Err e \<Rightarrow> (Err e, s2, w2)
                | Panic \<Rightarrow> (Panic, s2, w2)
                | Ok (identity, s3) \<Rightarrow>
                    (case attach_failure of
                       Some e \<Rightarrow> (Err (AttachFailed e), s3, w2)
                     | None \<Rightarrow>
                         (let (flag, w3) = alloc_flag w2;
                              w4 = emit_effect (StatsStarted identity flag) w3;
                              w5 = emit_opt (\<lambda>a. Attached a sid) (pc_on_attached conn) w4 in
                          (Ok identity,
                           insert_session sid
                             \<lparr>sh_published = False, sh_runtime_id = runtime_id identity, sh_id = sid, sh_name = tab_name opts,
                              sh_data_plane = Some (attach_paused runtime identity), sh_io = Some runtime,
                              sh_automation_io = Some runtime, sh_state = SessConnected, sh_plugin_id = so_plugin_id opts,
                              sh_endpoint = so_endpoint opts, sh_connected_at = Some now, sh_stats_flag = Some flag,
                              sh_transfer_enabled = so_transfer_enabled opts, sh_transfer_protocol = so_transfer_protocol opts,
                              sh_send_bar_enabled = so_send_bar_enabled opts, sh_script = None, sh_service = pc_service conn,
                              sh_file_transfer = pc_file_transfer conn, sh_attachment = pc_on_attached conn,
                              sh_channel_factory = pc_channel_factory conn, sh_scheduler = default_scheduler,
                              sh_transfer_tasks = [], sh_teardown_delay = pc_teardown_delay conn, sh_children = [],
                              sh_next_child_index = 0\<rparr> s3,
                           w5)))))))"

record container_runtime =
  cr_service :: "nat option"
  cr_file_transfer :: "nat option"
  cr_channel_factory :: "nat option"
  cr_io :: "nat option"
  cr_automation_io :: "nat option"
  cr_attachment :: "nat option"
  cr_teardown_delay :: nat

definition container_with_id ::
  "string \<Rightarrow> u64 \<Rightarrow> session_options \<Rightarrow> container_runtime \<Rightarrow> session_store \<Rightarrow> world \<Rightarrow>
   (runtime_identity, store_error) result \<times> session_store \<times> world" where
  "container_with_id sid now opts runtime s w =
     (let preserved = (case map_of (sessions s) sid of
            Some h \<Rightarrow> if sh_state h = SessDisconnected then sh_next_child_index h else 0 | None \<Rightarrow> 0);
          (claim, s1, w1) = vacate_session sid s w in
      case claim of
        Err e \<Rightarrow> (Err e, s1, w1)
      | Panic \<Rightarrow> (Panic, s1, w1)
      | Ok _ \<Rightarrow>
       (let (s2, w2) = purge_zombies s1 w1 in
        if length (sessions s2) \<ge> max_active_root_sessions s2 then (Err (SessionLimit (max_active_root_sessions s2)), s2, w2)
        else
          (case allocate_runtime_identity sid s2 of
             Err e \<Rightarrow> (Err e, s2, w2)
           | Panic \<Rightarrow> (Panic, s2, w2)
           | Ok (identity, s3) \<Rightarrow>
               (Ok identity,
                insert_session sid
                  \<lparr>sh_published = False, sh_runtime_id = runtime_id identity, sh_id = sid, sh_name = tab_name opts,
                   sh_data_plane = None, sh_io = cr_io runtime, sh_automation_io = cr_automation_io runtime,
                   sh_state = SessConnected, sh_plugin_id = so_plugin_id opts, sh_endpoint = so_endpoint opts,
                   sh_connected_at = Some now, sh_stats_flag = None, sh_transfer_enabled = so_transfer_enabled opts,
                   sh_transfer_protocol = so_transfer_protocol opts, sh_send_bar_enabled = so_send_bar_enabled opts,
                   sh_script = None, sh_service = cr_service runtime, sh_file_transfer = cr_file_transfer runtime,
                   sh_attachment = cr_attachment runtime, sh_channel_factory = cr_channel_factory runtime,
                   sh_scheduler = default_scheduler, sh_transfer_tasks = [], sh_teardown_delay = cr_teardown_delay runtime,
                   sh_children = [], sh_next_child_index = preserved\<rparr> s3,
                emit_opt (\<lambda>a. Attached a sid) (cr_attachment runtime) w2))))"

definition create_container_session ::
  "(string \<Rightarrow> bool) \<Rightarrow> string \<Rightarrow> u64 \<Rightarrow> session_options \<Rightarrow> container_runtime \<Rightarrow> session_store \<Rightarrow> world \<Rightarrow>
   (runtime_identity, store_error) result \<times> session_store \<times> world" where
  "create_container_session is_uuid fresh now opts runtime s w =
     (case so_id_override opts of
        Some raw \<Rightarrow> if \<not> is_uuid raw then (Err (InvalidSessionId raw), s, w) else container_with_id raw now opts runtime s w
      | None \<Rightarrow> container_with_id fresh now opts runtime s w)"

section \<open>Closing\<close>

fun close_children :: "sub_connection list \<Rightarrow> world \<Rightarrow> sub_cleanup list \<times> world" where
  "close_children [] w = ([], w)"
| "close_children (c # cs) w =
     (let w1 = raise_world (opt_list (sc_stats_flag c)) w;
          (script, w2) = take_script (sc_script c) w1;
          (ks, w3) = close_children cs w2 in
      (\<lparr>sk_channel_id = sc_id c, sk_data_plane = sc_data_plane c, sk_script = script\<rparr> # ks, w3))"

text \<open>The names of the last closed sessions are kept for error messages.\<close>

fun evict_names :: "string list \<Rightarrow> (string \<times> string) list \<Rightarrow> string list \<times> (string \<times> string) list" where
  "evict_names [] names = ([], names)"
| "evict_names (old # order) names =
     (if length (old # order) > MAX_REMOVED_SESSION_NAMES then evict_names order (AList.delete old names)
      else (old # order, names))"

definition close_session :: "string \<Rightarrow> session_store \<Rightarrow> world \<Rightarrow> (session_cleanup, store_error) result \<times> session_store \<times> world" where
  "close_session sid s w =
     (case map_of (sessions s) sid of
        None \<Rightarrow> (Err (session_not_found s sid), s, w)
      | Some h \<Rightarrow>
          (let (children, w1) = close_children (sh_children h) w;
               (order, names) = evict_names (removed_order s @ [sid]) (AList.update sid (sh_name h) (session_names s));
               w2 = w1\<lparr>flags := cancel_for_shutdown (sh_scheduler h) (flags w1)\<rparr>;
               w3 = raise_world (opt_list (sh_stats_flag h)) w2;
               (script, w4) = take_script (sh_script h) w3;
               tabs = filter (\<lambda>t. t \<noteq> sid) (tab_order s);
               closed = h\<lparr>sh_children := [], sh_data_plane := None, sh_script := None, sh_transfer_tasks := [], sh_service := None,
                 sh_attachment := None, sh_file_transfer := None, sh_channel_factory := None, sh_io := None,
                 sh_automation_io := None, sh_state := SessDisconnected\<rparr> in
           (Ok \<lparr>ck_identity = \<lparr>session_id = sid, runtime_id = sh_runtime_id h\<rparr>, ck_children = children,
               ck_data_plane = sh_data_plane h, ck_script = script, ck_transfers = sh_transfer_tasks h,
               ck_service = sh_service h, ck_attachment = sh_attachment h, ck_teardown_delay = sh_teardown_delay h\<rparr>,
            s\<lparr>sessions := AList.update sid closed (AList.delete sid (sessions s)), session_names := names, removed_order := order,
              tab_order := tabs,
              store_active_id := (if store_active_id s = Some sid then (case tabs of [] \<Rightarrow> None | t # _ \<Rightarrow> Some t) else store_active_id s)\<rparr>,
            w4)))"

definition close_if_current ::
  "runtime_identity \<Rightarrow> session_store \<Rightarrow> world \<Rightarrow> (session_cleanup, store_error) result \<times> session_store \<times> world" where
  "close_if_current identity s w =
     (if \<not> matches_runtime s identity then (Err RuntimeChanged, s, w) else close_session (session_id identity) s w)"

definition mark_disconnected :: "runtime_identity \<Rightarrow> session_store \<Rightarrow> world \<Rightarrow> session_cleanup option \<times> session_store \<times> world" where
  "mark_disconnected identity s w =
     (case map_of (sessions s) (session_id identity) of
        None \<Rightarrow> (None, s, w)
      | Some h \<Rightarrow>
          if sh_runtime_id h \<noteq> runtime_id identity \<or> sh_state h \<noteq> SessConnected then (None, s, w)
          else
            (case close_session (session_id identity) s w of
               (Ok c, s1, w1) \<Rightarrow> (Some c, s1, w1)
             | (_, s1, w1) \<Rightarrow> (None, s1, w1)))"

section \<open>Child connections\<close>

definition set_session :: "string \<Rightarrow> session_handle \<Rightarrow> session_store \<Rightarrow> session_store" where
  "set_session sid h s = s\<lparr>sessions := AList.update sid h (sessions s)\<rparr>"

definition add_sub_connection :: "string \<Rightarrow> sub_connection \<Rightarrow> session_store \<Rightarrow> (unit, store_error) result \<times> session_store" where
  "add_sub_connection parent c s =
     (case map_of (sessions s) parent of
        None \<Rightarrow> (Err (session_not_found s parent), s)
      | Some h \<Rightarrow>
          if sh_state h \<noteq> SessConnected \<or> sh_runtime_id h \<noteq> sc_runtime_id c then (Err (session_not_found s parent), s)
          else (Ok (), set_session parent (h\<lparr>sh_children := sh_children h @ [c]\<rparr>) s))"

definition activate_child :: "sub_connection \<Rightarrow> world \<Rightarrow> sub_connection \<times> world" where
  "activate_child c w =
     (case sc_data_plane c of
        None \<Rightarrow> (c, w)
      | Some d \<Rightarrow> (let (d1, w1) = activate_plane d w in (c\<lparr>sc_data_plane := Some d1\<rparr>, w1)))"

fun activate_published :: "sub_connection list \<Rightarrow> world \<Rightarrow> sub_connection list \<times> world" where
  "activate_published [] w = ([], w)"
| "activate_published (c # cs) w =
     (let (c1, w1) = (if sc_published c then activate_child c w else (c, w));
          (cs1, w2) = activate_published cs w1 in (c1 # cs1, w2))"

text \<open>
  The registration barrier: a data plane delivers only after its session is published, a child's only after both
  it and its parent are.
\<close>

definition activate_data_plane ::
  "runtime_identity \<Rightarrow> session_store \<Rightarrow> world \<Rightarrow> (unit, store_error) result \<times> session_store \<times> world" where
  "activate_data_plane identity s w =
     (if \<not> matches_runtime s identity then (Err RuntimeChanged, s, w)
      else
        (case map_of (sessions s) (session_id identity) of
           Some h \<Rightarrow>
             (let (d, w1) = (case sh_data_plane h of
                     None \<Rightarrow> (None, w)
                   | Some d \<Rightarrow> (let (d1, w1) = activate_plane d w in (Some d1, w1)));
                  (cs, w2) = activate_published (sh_children h) w1 in
              (Ok (), set_session (session_id identity) (h\<lparr>sh_published := True, sh_data_plane := d, sh_children := cs\<rparr>) s, w2))
         | None \<Rightarrow>
             (case find_sub_connection_index s (session_id identity) of
                None \<Rightarrow> (Err (ChildNotFound (session_id identity) []), s, w)
              | Some (pid, i) \<Rightarrow>
                  (case map_of (sessions s) pid of
                     None \<Rightarrow> (Err (SessionNotFound pid), s, w)
                   | Some h \<Rightarrow>
                       (let c = (sh_children h ! i)\<lparr>sc_published := True\<rparr>;
                            (c1, w1) = (if sh_published h then activate_child c w else (c, w)) in
                        (Ok (), set_session pid (h\<lparr>sh_children := (sh_children h)[i := c1]\<rparr>) s, w1))))))"

definition close_sub_connection ::
  "string \<Rightarrow> string \<Rightarrow> session_store \<Rightarrow> world \<Rightarrow> (bool \<times> sub_cleanup, store_error) result \<times> session_store \<times> world" where
  "close_sub_connection parent cid s w =
     (case map_of (sessions s) parent of
        None \<Rightarrow> (Err (session_not_found s parent), s, w)
      | Some h \<Rightarrow>
          (case index_of_child cid (sh_children h) of
             None \<Rightarrow> (Err (ChildNotFound cid parent), s, w)
           | Some i \<Rightarrow>
               (let c = sh_children h ! i;
                    rest = take i (sh_children h) @ drop (Suc i) (sh_children h);
                    (script, w1) = take_script (sc_script c) w;
                    w2 = raise_world (opt_list (sc_stats_flag c)) w1 in
                (Ok (list_all (\<lambda>c. sc_state c = SessDisconnected) rest,
                     \<lparr>sk_channel_id = cid, sk_data_plane = sc_data_plane c, sk_script = script\<rparr>),
                 set_session parent (h\<lparr>sh_children := rest\<rparr>) s, w2))))"

definition mark_sub_disconnected ::
  "runtime_identity \<Rightarrow> string \<Rightarrow> bool \<Rightarrow> session_store \<Rightarrow> world \<Rightarrow> bool \<times> session_store \<times> world" where
  "mark_sub_disconnected parent cid retain s w =
     (case map_of (sessions s) (session_id parent) of
        None \<Rightarrow> (False, s, w)
      | Some h \<Rightarrow>
          if sh_runtime_id h \<noteq> runtime_id parent \<or> sh_state h \<noteq> SessConnected then (False, s, w)
          else
            (case index_of_child cid (sh_children h) of
               None \<Rightarrow> (False, s, w)
             | Some i \<Rightarrow>
                 (let c = sh_children h ! i in
                  if sc_state c \<noteq> SessConnected then (False, s, w)
                  else
                    (True,
                     set_session (session_id parent)
                       (h\<lparr>sh_children := (sh_children h)[i := c\<lparr>sc_state := SessDisconnected, sc_retain_terminal := retain\<rparr>]\<rparr>) s,
                     raise_world (map script_shutdown (opt_list (sc_script c)) @ opt_list (sc_stats_flag c)) w))))"

section \<open>Tabs, scripts and transfers\<close>

definition switch_active :: "string \<Rightarrow> session_store \<Rightarrow> (unit, store_error) result \<times> session_store" where
  "switch_active sid s =
     (case map_of (sessions s) sid of
        Some h \<Rightarrow>
          if sh_state h = SessDisconnected then (Err (session_not_found s sid), s)
          else (Ok (), s\<lparr>store_active_id := Some sid\<rparr>)
      | None \<Rightarrow>
          if find_parent_of_channel s sid \<noteq> None then (Ok (), s\<lparr>store_active_id := Some sid\<rparr>)
          else (Err (session_not_found s sid), s))"

definition rename_session :: "string \<Rightarrow> string \<Rightarrow> session_store \<Rightarrow> (unit, store_error) result \<times> session_store" where
  "rename_session sid name s =
     (case map_of (sessions s) sid of
        None \<Rightarrow> (Err (session_not_found s sid), s)
      | Some h \<Rightarrow> (Ok (), (set_session sid (h\<lparr>sh_name := name\<rparr>) s)\<lparr>session_names := AList.update sid name (session_names s)\<rparr>))"

fun first_unknown :: "session_store \<Rightarrow> string list \<Rightarrow> string option" where
  "first_unknown s [] = None"
| "first_unknown s (t # ts) = (if map_of (sessions s) t = None then Some t else first_unknown s ts)"

definition reorder_tabs :: "string list \<Rightarrow> session_store \<Rightarrow> (unit, store_error) result \<times> session_store" where
  "reorder_tabs order s =
     (case first_unknown s order of
        Some t \<Rightarrow> (Err (session_not_found s t), s)
      | None \<Rightarrow> (Ok (), s\<lparr>tab_order := order\<rparr>))"

text \<open>A running script loads the new code, otherwise one is started.\<close>

definition load_or_start ::
  "message option \<Rightarrow> message option \<Rightarrow> string \<Rightarrow> nat \<Rightarrow> script_runtime option \<Rightarrow> world \<Rightarrow>
   (script_runtime \<times> world, store_error) result" where
  "load_or_start full failure code worker r w =
     (case r of
        Some x \<Rightarrow> rbind (script_load full code x w) (\<lambda>w1. Ok (x, w1))
      | None \<Rightarrow> script_start failure code worker w)"

definition start_script ::
  "message option \<Rightarrow> message option \<Rightarrow> string \<Rightarrow> string \<Rightarrow> nat \<Rightarrow> session_store \<Rightarrow> world \<Rightarrow>
   (unit, store_error) result \<times> session_store \<times> world" where
  "start_script full failure sid code worker s w =
     (case map_of (sessions s) sid of
        Some h \<Rightarrow>
          if sh_automation_io h = None then (Err NoAutomation, s, w)
          else
            (case load_or_start full failure code worker (sh_script h) w of
               Ok (x, w1) \<Rightarrow> (Ok (), set_session sid (h\<lparr>sh_script := Some x\<rparr>) s, w1)
             | Err e \<Rightarrow> (Err e, s, w) | Panic \<Rightarrow> (Panic, s, w))
      | None \<Rightarrow>
          (case find_sub_connection_index s sid of
             None \<Rightarrow> (Err (session_not_found s sid), s, w)
           | Some (pid, i) \<Rightarrow>
               (case map_of (sessions s) pid of
                  None \<Rightarrow> (Err (SessionNotFound pid), s, w)
                | Some h \<Rightarrow>
                    (case load_or_start full failure code worker (sc_script (sh_children h ! i)) w of
                       Ok (x, w1) \<Rightarrow>
                         (Ok (), set_session pid (h\<lparr>sh_children := (sh_children h)[i := (sh_children h ! i)\<lparr>sc_script := Some x\<rparr>]\<rparr>) s, w1)
                     | Err e \<Rightarrow> (Err e, s, w) | Panic \<Rightarrow> (Panic, s, w)))))"

definition stop_script ::
  "string \<Rightarrow> session_store \<Rightarrow> world \<Rightarrow> (nat option, store_error) result \<times> session_store \<times> world" where
  "stop_script sid s w =
     (case map_of (sessions s) sid of
        Some h \<Rightarrow> (let (k, w1) = take_script (sh_script h) w in (Ok k, set_session sid (h\<lparr>sh_script := None\<rparr>) s, w1))
      | None \<Rightarrow>
          (case find_sub_connection_index s sid of
             None \<Rightarrow> (Err (session_not_found s sid), s, w)
           | Some (pid, i) \<Rightarrow>
               (case map_of (sessions s) pid of
                  None \<Rightarrow> (Err (SessionNotFound pid), s, w)
                | Some h \<Rightarrow>
                    (let (k, w1) = take_script (sc_script (sh_children h ! i)) w in
                     (Ok k, set_session pid (h\<lparr>sh_children := (sh_children h)[i := (sh_children h ! i)\<lparr>sc_script := None\<rparr>]\<rparr>) s, w1)))))"

definition reset_child_counter :: "string \<Rightarrow> session_store \<Rightarrow> session_store" where
  "reset_child_counter parent s =
     (case map_of (sessions s) parent of None \<Rightarrow> s | Some h \<Rightarrow> set_session parent (h\<lparr>sh_next_child_index := 0\<rparr>) s)"

text \<open>What the transfer operations share: the scheduler of a session is consulted, and stored when it accepts.\<close>

definition with_scheduler ::
  "(transfer_scheduler \<Rightarrow> cancel_flags \<Rightarrow> (nat \<times> transfer_scheduler \<times> cancel_flags, scheduler_error) result) \<Rightarrow>
   string \<Rightarrow> session_store \<Rightarrow> world \<Rightarrow> (nat, store_error) result \<times> session_store \<times> world" where
  "with_scheduler f sid s w =
     (case map_of (sessions s) sid of
        None \<Rightarrow> (Err (session_not_found s sid), s, w)
      | Some h \<Rightarrow>
          (case f (sh_scheduler h) (flags w) of
             Ok (token, t, fl) \<Rightarrow> (Ok token, set_session sid (h\<lparr>sh_scheduler := t\<rparr>) s, w\<lparr>flags := fl\<rparr>)
           | Err e \<Rightarrow> (Err (TransferRefused e), s, w) | Panic \<Rightarrow> (Panic, s, w)))"

definition reserve_inline_transfer ::
  "string \<Rightarrow> string \<Rightarrow> session_store \<Rightarrow> world \<Rightarrow> (nat, store_error) result \<times> session_store \<times> world" where
  "reserve_inline_transfer sid tid = with_scheduler (reserve_inline tid) sid"

definition transfer_start ::
  "string \<Rightarrow> string \<Rightarrow> session_store \<Rightarrow> world \<Rightarrow> (nat, store_error) result \<times> session_store \<times> world" where
  "transfer_start sid tid = with_scheduler (reserve_auxiliary tid) sid"

definition cancel_scheduled_transfer ::
  "string \<Rightarrow> string option \<Rightarrow> session_store \<Rightarrow> world \<Rightarrow> (unit, store_error) result \<times> world" where
  "cancel_scheduled_transfer sid tid s w =
     (case map_of (sessions s) sid of
        None \<Rightarrow> (Err (session_not_found s sid), w)
      | Some h \<Rightarrow>
          (case cancel_transfer tid (sh_scheduler h) (flags w) of
             Ok fl \<Rightarrow> (Ok (), w\<lparr>flags := fl\<rparr>) | Err e \<Rightarrow> (Err (TransferRefused e), w) | Panic \<Rightarrow> (Panic, w)))"

definition transfer_done :: "runtime_identity \<Rightarrow> string option \<Rightarrow> session_store \<Rightarrow> session_store" where
  "transfer_done identity tid s =
     (if \<not> matches_runtime s identity then s
      else
        (case map_of (sessions s) (session_id identity) of
           None \<Rightarrow> s
         | Some h \<Rightarrow> set_session (session_id identity) (h\<lparr>sh_scheduler := snd (finish_transfer tid (sh_scheduler h))\<rparr>) s))"

text \<open>Tasks that have ended are dropped; which ones have is an argument.\<close>

definition register_transfer_task ::
  "(nat \<Rightarrow> bool) \<Rightarrow> runtime_identity \<Rightarrow> nat \<Rightarrow> session_store \<Rightarrow> (unit, store_error) result \<times> session_store" where
  "register_transfer_task finished identity task s =
     (if \<not> runtime_is_connected s identity then (Err TransferRuntimeGone, s)
      else
        (case map_of (sessions s) (session_id identity) of
           None \<Rightarrow> (Err (session_not_found s (session_id identity)), s)
         | Some h \<Rightarrow>
             (Ok (), set_session (session_id identity)
                (h\<lparr>sh_transfer_tasks := filter (\<lambda>t. \<not> finished t) (sh_transfer_tasks h) @ [task]\<rparr>) s)))"

definition session_state_of :: "session_store \<Rightarrow> string \<Rightarrow> session_state option" where
  "session_state_of s sid = map_option sh_state (map_of (sessions s) sid)"

end
