(* ===== verification/Session_Store_Invariant.thy ===== *)
theory Session_Store_Invariant
  imports Session_Store
begin

text \<open>
  What holds of the session store in every history of its operations: identities are unique and never come back,
  a closed session has given up its resources, data planes respect the registration barrier, the schedulers keep their limits and the store
  its own.
\<close>

section \<open>The invariant\<close>

text \<open>Closing moves every resource out.\<close>

definition gave_up :: "session_handle \<Rightarrow> bool" where
  "gave_up h \<longleftrightarrow> sh_data_plane h = None \<and> sh_io h = None \<and> sh_automation_io h = None \<and> sh_script h = None \<and>
     sh_service h = None \<and> sh_attachment h = None \<and> sh_file_transfer h = None \<and> sh_channel_factory h = None \<and>
     sh_transfer_tasks h = [] \<and> sh_children h = []"

text \<open>
  A data plane delivers exactly when it is published, and that of a child when its parent is as well; no data plane that the store
  holds was told to stop.
\<close>

definition barrier :: "session_handle \<Rightarrow> bool" where
  "barrier h \<longleftrightarrow>
     (\<forall>d. sh_data_plane h = Some d \<longrightarrow> dp_activated d = sh_published h \<and> \<not> dp_shutdown_requested d) \<and>
     (\<forall>c\<in>set (sh_children h). \<forall>d. sc_data_plane c = Some d \<longrightarrow>
        dp_activated d = (sh_published h \<and> sc_published c) \<and> \<not> dp_shutdown_requested d)"

definition session_ok :: "u64 \<Rightarrow> cancel_flags \<Rightarrow> string \<Rightarrow> session_handle \<Rightarrow> bool" where
  "session_ok nxt fl k h \<longleftrightarrow> sh_id h = k \<and> sh_runtime_id h < nxt \<and>
     (\<forall>c\<in>set (sh_children h). sc_runtime_id c = sh_runtime_id h) \<and>
     scheduler_ok (sh_scheduler h) fl \<and> barrier h \<and>
     (if sh_state h = SessConnected then True else sh_state h = SessDisconnected \<and> gave_up h)"

definition store_ok :: "session_store \<Rightarrow> world \<Rightarrow> bool" where
  "store_ok s w \<longleftrightarrow> distinct (map fst (sessions s)) \<and> length (sessions s) \<le> max_active_root_sessions s \<and>
     max_active_root_sessions s = DEFAULT_MAX_ACTIVE_ROOT_SESSIONS \<and>
     length (removed_order s) \<le> MAX_REMOVED_SESSION_NAMES \<and>
     (\<forall>k h. map_of (sessions s) k = Some h \<longrightarrow> session_ok (next_runtime_id s) (flags w) k h) \<and>
     (\<forall>k k' h h'. map_of (sessions s) k = Some h \<longrightarrow> map_of (sessions s) k' = Some h' \<longrightarrow>
        sh_runtime_id h = sh_runtime_id h' \<longrightarrow> k = k')"

abbreviation flag_count :: "world \<Rightarrow> nat" where
  "flag_count w \<equiv> next_flag (flags w)"

lemma session_ok_mono:
  "session_ok nxt fl k h \<Longrightarrow> nxt \<le> nxt' \<Longrightarrow> next_flag fl \<le> next_flag fl' \<Longrightarrow> session_ok nxt' fl' k h"
  unfolding session_ok_def using scheduler_ok_flags by (metis order_less_le_trans)

lemma length_update: "map_of xs k = Some v \<Longrightarrow> length (AList.update k v' xs) = length xs"
  by (induction xs) (auto split: if_splits)

lemma length_update_le: "length (AList.update k v xs) \<le> Suc (length xs)"
  by (induction xs) auto

lemma store_ok_get: "store_ok s w \<Longrightarrow> map_of (sessions s) k = Some h \<Longrightarrow> session_ok (next_runtime_id s) (flags w) k h"
  by (simp add: store_ok_def)

text \<open>Replacing a handle by one of the same run.\<close>

lemma store_ok_update:
  assumes ok: "store_ok s w" and h: "map_of (sessions s) k = Some h" "sh_runtime_id h' = sh_runtime_id h"
      "session_ok (next_runtime_id s) (flags w') k h'" and w: "flag_count w \<le> flag_count w'"
    and s': "map_of (sessions s') = (map_of (sessions s))(k \<mapsto> h')" "distinct (map fst (sessions s'))"
      "length (sessions s') \<le> length (sessions s)" "next_runtime_id s' = next_runtime_id s"
      "max_active_root_sessions s' = max_active_root_sessions s" "length (removed_order s') \<le> MAX_REMOVED_SESSION_NAMES"
  shows "store_ok s' w'"
proof -
  have old: "session_ok (next_runtime_id s') (flags w') j x" if "map_of (sessions s) j = Some x" for j x
    using session_ok_mono [OF store_ok_get [OF ok that]] w s'(4) by simp
  have uniq: "\<And>j j' x x'. map_of (sessions s) j = Some x \<Longrightarrow> map_of (sessions s) j' = Some x' \<Longrightarrow>
      sh_runtime_id x = sh_runtime_id x' \<Longrightarrow> j = j'" using ok by (simp add: store_ok_def)
  have "j = j'" if "map_of (sessions s') j = Some x" "map_of (sessions s') j' = Some x'" "sh_runtime_id x = sh_runtime_id x'" for j j' x x'
  proof -
    have run: "\<exists>y. map_of (sessions s) i = Some y \<and> sh_runtime_id y = sh_runtime_id z" if "map_of (sessions s') i = Some z" for i z
      using that h(1,2) unfolding s'(1) by (cases "i = k") simp_all
    then show ?thesis using that uniq by metis
  qed
  moreover have "session_ok (next_runtime_id s') (flags w') j x" if "map_of (sessions s') j = Some x" for j x
    using that old h(3) s'(4) unfolding s'(1) by (auto split: if_splits)
  moreover have "length (sessions s') \<le> max_active_root_sessions s'"
      "max_active_root_sessions s' = DEFAULT_MAX_ACTIVE_ROOT_SESSIONS" using ok s'(3,5) by (simp_all add: store_ok_def)
  ultimately show ?thesis using s'(2,6) unfolding store_ok_def by blast
qed

lemma store_ok_set:
  assumes "store_ok s w" "map_of (sessions s) k = Some h" "sh_runtime_id h' = sh_runtime_id h"
    "session_ok (next_runtime_id s) (flags w') k h'" "flag_count w \<le> flag_count w'"
  shows "store_ok (set_session k h' s) w'"
  using assms
  by (intro store_ok_update [OF assms]) (auto simp: set_session_def AList.update_conv' AList.distinct_update length_update store_ok_def)

text \<open>What does not touch the sessions.\<close>

lemma store_ok_same:
  assumes "store_ok s w" "sessions s' = sessions s" "next_runtime_id s' = next_runtime_id s"
    "max_active_root_sessions s' = max_active_root_sessions s" "removed_order s' = removed_order s" "flag_count w \<le> flag_count w'"
  shows "store_ok s' w'"
  using assms session_ok_mono [of "next_runtime_id s" "flags w" _ _ "next_runtime_id s" "flags w'"] by (auto simp: store_ok_def)

section \<open>Flags\<close>

lemma emit_flags [simp]: "flags (emit_effect e w) = flags w" "flags (emit_opt f x w) = flags w"
  by (simp_all add: emit_effect_def emit_opt_def split: option.split)

lemma raise_world_count [simp]: "flag_count (raise_world fs w) = flag_count w"
  by (simp add: raise_world_def)

lemma activate_flags [simp]: "flags (snd (activate_plane d w)) = flags w" "flags (snd (request_shutdown d w)) = flags w"
  by (simp_all add: activate_plane_def request_shutdown_def Let_def split_beta)

lemma take_script_count: "take_script r w = (k, w') \<Longrightarrow> flag_count w' = flag_count w"
  by (auto simp: take_script_def script_into_cleanup_def split: option.splits)

lemma drop_child_count [simp]: "flag_count (drop_child c w) = flag_count w"
  by (simp add: drop_child_def Let_def split: option.split)

lemma drop_handle_count [simp]: "flag_count (drop_handle h w) = flag_count w"
proof -
  have f: "flag_count (fold drop_child cs w) = flag_count w" for cs w by (induction cs arbitrary: w) simp_all
  show ?thesis by (simp add: drop_handle_def Let_def f cancel_for_shutdown_def split: option.split)
qed

lemma close_children_count: "close_children cs w = (ks, w') \<Longrightarrow> flag_count w' = flag_count w"
proof (induction cs arbitrary: w ks w')
  case (Cons c cs)
  then show ?case using take_script_count by (fastforce simp: Let_def split: prod.splits)
qed simp

lemma alloc_flag_count: "alloc_flag w = (f, w') \<Longrightarrow> flag_count w \<le> flag_count w'"
  by (auto simp: alloc_flag_def new_flag_def)

section \<open>Opening\<close>

lemma map_of_delete: "map_of (AList.delete k xs) j = (if j = k then None else map_of xs j)"
  by (simp add: AList.delete_conv')

lemma remove_session_ok:
  assumes "store_ok s w" "remove_session k s w = (s', w')"
  shows "store_ok s' w' \<and> map_of (sessions s') = (map_of (sessions s))(k := None) \<and> next_runtime_id s' = next_runtime_id s \<and>
    flag_count w' = flag_count w"
proof -
  have s': "s' = s\<lparr>sessions := AList.delete k (sessions s)\<rparr>" and w': "flag_count w' = flag_count w"
    using assms(2) by (auto simp: remove_session_def split: option.splits)
  have nx: "next_runtime_id s' = next_runtime_id s" by (simp add: s')
  have len: "length (sessions s') \<le> length (sessions s)" by (simp add: s' AList.length_delete_le)
  have m: "map_of (sessions s') j = (if j = k then None else map_of (sessions s) j)" for j by (simp add: s' map_of_delete)
  have fl: "session_ok (next_runtime_id s) (flags w') j h" if "map_of (sessions s) j = Some h" for j h
    using session_ok_mono [OF store_ok_get [OF assms(1) that]] w' by simp
  have "distinct (map fst (sessions s'))" using assms(1) by (simp add: s' store_ok_def AList.distinct_delete)
  moreover have "\<forall>j h. map_of (sessions s') j = Some h \<longrightarrow> session_ok (next_runtime_id s') (flags w') j h"
    using fl m nx by (metis option.distinct(1))
  moreover have "\<forall>i j h h'. map_of (sessions s') i = Some h \<longrightarrow> map_of (sessions s') j = Some h' \<longrightarrow>
      sh_runtime_id h = sh_runtime_id h' \<longrightarrow> i = j"
    using assms(1) unfolding m store_ok_def by (metis option.distinct(1))
  moreover have "length (sessions s') \<le> max_active_root_sessions s'"
      "max_active_root_sessions s' = DEFAULT_MAX_ACTIVE_ROOT_SESSIONS" "length (removed_order s') \<le> MAX_REMOVED_SESSION_NAMES"
    using assms(1) len by (simp_all add: store_ok_def s')
  ultimately have "store_ok s' w'" unfolding store_ok_def by blast
  with m w' show ?thesis by (auto simp: s')
qed

lemma purge_zombies_ok:
  assumes "store_ok s w" "purge_zombies s w = (s', w')"
  shows "store_ok s' w' \<and> map_of (sessions s') \<subseteq>\<^sub>m map_of (sessions s) \<and> next_runtime_id s' = next_runtime_id s \<and>
    flag_count w' = flag_count w"
proof -
  have "store_ok s' w' \<and> map_of (sessions s') \<subseteq>\<^sub>m map_of (sessions s) \<and> next_runtime_id s' = next_runtime_id s \<and> flag_count w' = flag_count w"
    if "fold (\<lambda>sid (s, w). remove_session sid s w) ids (s, w) = (s', w')" "store_ok s w" for ids s w
    using that
  proof (induction ids arbitrary: s w)
    case (Cons i ids)
    obtain s1 w1 where r: "remove_session i s w = (s1, w1)" by fastforce
    note h1 = remove_session_ok [OF Cons.prems(2) r]
    have "fold (\<lambda>sid (s, w). remove_session sid s w) ids (s1, w1) = (s', w')" using Cons.prems(1) r by simp
    from Cons.IH [OF this] h1 show ?case by (metis map_le_trans upd_None_map_le)
  qed simp
  with assms show ?thesis by (simp add: purge_zombies_def)
qed

text \<open>A new run gets the next identity.\<close>

lemma less_inc_self_iff: "(x :: u64) < x + 1 \<longleftrightarrow> x \<noteq> -1"
  by (metis inc_less_eq_self_iff_eq linorder_not_le)

lemma insert_session_ok:
  assumes ok: "store_ok s w" and new: "map_of (sessions s) k = None" "length (sessions s) < max_active_root_sessions s"
    and nxt: "next_runtime_id s \<noteq> -1" "sh_runtime_id h = next_runtime_id s"
    and h: "session_ok (next_runtime_id s + 1) (flags w') k h" and w: "flag_count w \<le> flag_count w'"
  shows "store_ok (insert_session k h (s\<lparr>next_runtime_id := next_runtime_id s + 1\<rparr>)) w'"
proof -
  let ?s = "insert_session k h (s\<lparr>next_runtime_id := next_runtime_id s + 1\<rparr>)"
  have lt: "next_runtime_id s < next_runtime_id s + 1" using nxt(1) less_inc_self_iff by blast
  have m: "map_of (sessions ?s) = (map_of (sessions s))(k \<mapsto> h)" by (simp add: insert_session_def AList.update_conv')
  have old: "session_ok (next_runtime_id ?s) (flags w') j x \<and> sh_runtime_id x < next_runtime_id s" if "map_of (sessions s) j = Some x" for j x
  proof
    show "session_ok (next_runtime_id ?s) (flags w') j x"
      using session_ok_mono [OF store_ok_get [OF ok that]] w lt by (simp add: insert_session_def)
    show "sh_runtime_id x < next_runtime_id s" using store_ok_get [OF ok that] by (simp add: session_ok_def)
  qed
  have uniq: "i = j" if "map_of (sessions ?s) i = Some x" "map_of (sessions ?s) j = Some y" "sh_runtime_id x = sh_runtime_id y" for i j x y
  proof -
    have "sh_runtime_id z = next_runtime_id s \<longleftrightarrow> l = k" if "map_of (sessions ?s) l = Some z" for l z
      using that old nxt(2) unfolding m by (cases "l = k") (auto dest: less_imp_neq)
    then show ?thesis using that ok unfolding m store_ok_def by (metis fun_upd_apply)
  qed
  have "\<forall>j x. map_of (sessions ?s) j = Some x \<longrightarrow> session_ok (next_runtime_id ?s) (flags w') j x"
    using old h unfolding m by (simp add: insert_session_def)
  moreover have "distinct (map fst (sessions ?s))" using ok by (simp add: insert_session_def store_ok_def AList.distinct_update)
  moreover have "length (sessions ?s) \<le> max_active_root_sessions ?s"
      "max_active_root_sessions ?s = DEFAULT_MAX_ACTIVE_ROOT_SESSIONS" "length (removed_order ?s) \<le> MAX_REMOVED_SESSION_NAMES"
    using ok new(2) length_update_le [of k h "sessions s"] by (simp_all add: insert_session_def store_ok_def)
  ultimately show ?thesis using uniq unfolding store_ok_def by blast
qed

text \<open>Sessions go on with their identity, a disconnected one as such, or get an identity that was never used.\<close>

definition runs_on :: "session_store \<Rightarrow> session_store \<Rightarrow> bool" where
  "runs_on s s' \<longleftrightarrow> next_runtime_id s \<le> next_runtime_id s' \<and>
     (\<forall>k h'. map_of (sessions s') k = Some h' \<longrightarrow>
        (\<exists>h. map_of (sessions s) k = Some h \<and> sh_runtime_id h = sh_runtime_id h' \<and>
          (sh_state h = SessDisconnected \<longrightarrow> sh_state h' = SessDisconnected)) \<or> next_runtime_id s \<le> sh_runtime_id h')"

lemma runs_on_refl: "sessions s' = sessions s \<Longrightarrow> next_runtime_id s' = next_runtime_id s \<Longrightarrow> runs_on s s'"
  by (simp add: runs_on_def)

lemma runs_on_le:
  "map_of (sessions s') \<subseteq>\<^sub>m map_of (sessions s) \<Longrightarrow> next_runtime_id s \<le> next_runtime_id s' \<Longrightarrow> runs_on s s'"
  unfolding runs_on_def map_le_def by (metis domI)

lemma runs_on_sub:
  "map_of (sessions s') \<subseteq>\<^sub>m map_of (sessions s) \<Longrightarrow> next_runtime_id s' = next_runtime_id s \<Longrightarrow> runs_on s s'"
  by (simp add: runs_on_le)

lemma runs_on_update:
  "map_of (sessions s) k = Some h \<Longrightarrow> sh_runtime_id h' = sh_runtime_id h \<Longrightarrow>
   (sh_state h = SessDisconnected \<Longrightarrow> sh_state h' = SessDisconnected) \<Longrightarrow> map_of (sessions s') = (map_of (sessions s))(k \<mapsto> h') \<Longrightarrow>
   next_runtime_id s' = next_runtime_id s \<Longrightarrow> runs_on s s'"
  by (auto simp: runs_on_def)

lemma runs_on_insert:
  "map_of (sessions s2) \<subseteq>\<^sub>m map_of (sessions s) \<Longrightarrow> next_runtime_id s2 = next_runtime_id s \<Longrightarrow> sh_runtime_id h = next_runtime_id s2 \<Longrightarrow>
   next_runtime_id s2 \<noteq> -1 \<Longrightarrow> runs_on s (insert_session k h (s2\<lparr>next_runtime_id := next_runtime_id s2 + 1\<rparr>))"
  unfolding runs_on_def map_le_def insert_session_def
  by (auto simp: AList.update_conv' less_imp_le less_inc_self_iff split: if_splits) (metis domI)

lemma vacate_session_ok:
  assumes "store_ok s w" "vacate_session k s w = (r, s', w')"
  shows "store_ok s' w' \<and> map_of (sessions s') \<subseteq>\<^sub>m map_of (sessions s) \<and> next_runtime_id s' = next_runtime_id s \<and>
    flag_count w' = flag_count w \<and> (r = Ok () \<longrightarrow> map_of (sessions s') k = None) \<and> r \<noteq> Panic"
  using assms remove_session_ok [OF assms(1)] by (auto simp: vacate_session_def split: option.splits if_splits)

lemma new_handle_ok:
  assumes "scheduler_ok (sh_scheduler h) fl" "sh_id h = k" "sh_runtime_id h < nxt" "sh_children h = []" "sh_state h = SessConnected"
    "\<And>d. sh_data_plane h = Some d \<Longrightarrow> \<not> dp_activated d \<and> \<not> dp_shutdown_requested d" "\<not> sh_published h"
  shows "session_ok nxt fl k h"
  using assms by (auto simp: session_ok_def barrier_def)

lemma default_scheduler_ok: "scheduler_ok default_scheduler fl"
  unfolding default_scheduler_def by (rule scheduler_ok_new)

text \<open>What opening a session of either kind does after the number is vacated.\<close>

lemma opened_ok:
  assumes ok: "store_ok s w" and s1: "store_ok s1 w1" "map_of (sessions s1) \<subseteq>\<^sub>m map_of (sessions s)" "next_runtime_id s1 = next_runtime_id s"
      "flag_count w1 = flag_count w" "map_of (sessions s1) k = None"
    and s2: "purge_zombies s1 w1 = (s2, w2)" "length (sessions s2) < max_active_root_sessions s2"
    and s3: "allocate_runtime_identity k s2 = Ok (identity, s3)"
    and h: "sh_id h = k" "sh_runtime_id h = runtime_id identity" "sh_children h = []" "sh_state h = SessConnected"
      "\<And>d. sh_data_plane h = Some d \<Longrightarrow> \<not> dp_activated d \<and> \<not> dp_shutdown_requested d" "\<not> sh_published h" "sh_scheduler h = default_scheduler"
    and w': "flag_count w2 \<le> flag_count w'"
  shows "store_ok (insert_session k h s3) w' \<and> runs_on s (insert_session k h s3)"
proof -
  note p = purge_zombies_ok [OF s1(1) s2(1)]
  have n: "next_runtime_id s2 \<noteq> -1" "s3 = s2\<lparr>next_runtime_id := next_runtime_id s2 + 1\<rparr>" "runtime_id identity = next_runtime_id s2"
    using s3 by (auto simp: allocate_runtime_identity_def split: if_splits)
  have "session_ok (next_runtime_id s2 + 1) (flags w') k h"
  proof (rule new_handle_ok [OF _ h(1) _ h(3,4,5,6)])
    show "scheduler_ok (sh_scheduler h) (flags w')" unfolding h(7) by (rule default_scheduler_ok)
    show "sh_runtime_id h < next_runtime_id s2 + 1" unfolding h(2) n(3) using n(1) less_inc_self_iff by blast
  qed
  moreover have none: "map_of (sessions s2) k = None"
  proof -
    have "dom (map_of (sessions s2)) \<subseteq> dom (map_of (sessions s1))" using p map_le_implies_dom_le by blast
    with s1(5) show ?thesis by blast
  qed
  ultimately have "store_ok (insert_session k h s3) w'"
    unfolding n(2) using p s2(2) n(1,3) h(2) w' by (intro insert_session_ok [of s2 w2]) simp_all
  moreover have "map_of (sessions s2) \<subseteq>\<^sub>m map_of (sessions s)" using p s1(2) map_le_trans by blast
  then have "runs_on s (insert_session k h s3)"
    unfolding n(2) using p s1(3) n(1,3) h(2) by (intro runs_on_insert) auto
  ultimately show ?thesis ..
qed

lemma allocated_ok:
  "allocate_runtime_identity k s = Ok (identity, s') \<Longrightarrow> store_ok s w \<Longrightarrow>
   store_ok s' w \<and> sessions s' = sessions s \<and> next_runtime_id s < next_runtime_id s'"
  using session_ok_mono [of "next_runtime_id s" "flags w" _ _ "next_runtime_id s + 1" "flags w"] less_inc_self_iff
  by (auto simp: allocate_runtime_identity_def store_ok_def less_imp_le split: if_splits)

lemma create_session_ok:
  assumes ok: "store_ok s w" and fresh: "map_of (sessions s) fresh = None"
    and c: "create_session is_uuid fresh now failure opts conn s w = (r, s', w')"
  shows "store_ok s' w' \<and> runs_on s s'"
proof -
  obtain claim s1 w1 where v: "(case so_id_override opts of None \<Rightarrow> (Ok (), s, w)
      | Some raw \<Rightarrow> if \<not> is_uuid raw then (Err (InvalidSessionId raw), s, w) else vacate_session raw s w) = (claim, s1, w1)"
    by (rule prod_cases3)
  let ?k = "case so_id_override opts of Some raw \<Rightarrow> raw | None \<Rightarrow> fresh"
  have s1: "store_ok s1 w1" "map_of (sessions s1) \<subseteq>\<^sub>m map_of (sessions s)" "next_runtime_id s1 = next_runtime_id s"
    "flag_count w1 = flag_count w" "claim = Ok () \<longrightarrow> map_of (sessions s1) ?k = None" "claim \<noteq> Panic"
    using v ok fresh vacate_session_ok [OF ok] by (auto split: option.splits if_splits)
  obtain s2 w2 where p: "purge_zombies s1 w1 = (s2, w2)" by fastforce
  note z = purge_zombies_ok [OF s1(1) p]
  have sub: "map_of (sessions s2) \<subseteq>\<^sub>m map_of (sessions s)" "next_runtime_id s2 = next_runtime_id s" using z s1 map_le_trans by auto
  show ?thesis
  proof (cases "claim = Ok () \<and> length (sessions s2) < max_active_root_sessions s2 \<and>
      (\<exists>runtime i. pc_data_plane conn = Some runtime \<and> allocate_runtime_identity ?k s2 = Ok i)")
    case False
    have "(s' = s1 \<and> w' = w1) \<or> (s' = s2 \<and> w' = w2)"
    proof (cases "claim = Ok ()")
      case granted: True
      show ?thesis
      proof (cases "length (sessions s2) < max_active_root_sessions s2 \<and> pc_data_plane conn \<noteq> None")
        case True
        then obtain runtime where "pc_data_plane conn = Some runtime" "length (sessions s2) < max_active_root_sessions s2" by blast
        with c v p granted False show ?thesis
          by (cases "allocate_runtime_identity ?k s2") (simp_all add: create_session_def)
      next
        case busy: False
        with c v p granted show ?thesis by (cases "pc_data_plane conn") (auto simp: create_session_def split: if_splits)
      qed
    next
      case closed: False
      with c v s1(6) show ?thesis by (cases claim) (simp_all add: create_session_def)
    qed
    then show ?thesis using s1 z sub runs_on_sub by blast
  next
    case True
    then obtain runtime identity s3 where t: "claim = Ok ()" "length (sessions s2) < max_active_root_sessions s2"
      "pc_data_plane conn = Some runtime" "allocate_runtime_identity ?k s2 = Ok (identity, s3)" by fastforce
    show ?thesis
    proof (cases failure)
      case (Some e)
      then have "s' = s3" "w' = w2" using c v p t by (auto simp: create_session_def Let_def split: option.splits)
      moreover have "store_ok s3 w2 \<and> runs_on s s3"
      proof
        have a: "store_ok s3 w2" "sessions s3 = sessions s2" "next_runtime_id s2 < next_runtime_id s3"
          using allocated_ok [OF t(4)] z by blast+
        then show "store_ok s3 w2" by simp
        show "runs_on s s3" by (rule runs_on_le) (use a sub in \<open>simp_all add: less_imp_le\<close>)
      qed
      ultimately show ?thesis by simp
    next
      case None
      obtain flag w3 where f: "alloc_flag w2 = (flag, w3)" by fastforce
      let ?h = "\<lparr>sh_published = False, sh_runtime_id = runtime_id identity, sh_id = ?k, sh_name = tab_name opts,
         sh_data_plane = Some (attach_paused runtime identity), sh_io = Some runtime,
         sh_automation_io = Some runtime, sh_state = SessConnected, sh_plugin_id = so_plugin_id opts,
         sh_endpoint = so_endpoint opts, sh_connected_at = Some now, sh_stats_flag = Some flag,
         sh_transfer_enabled = so_transfer_enabled opts, sh_transfer_protocol = so_transfer_protocol opts,
         sh_send_bar_enabled = so_send_bar_enabled opts, sh_script = None, sh_service = pc_service conn,
         sh_file_transfer = pc_file_transfer conn, sh_attachment = pc_on_attached conn,
         sh_channel_factory = pc_channel_factory conn, sh_scheduler = default_scheduler,
         sh_transfer_tasks = [], sh_teardown_delay = pc_teardown_delay conn, sh_children = [],
         sh_next_child_index = 0\<rparr>"
      have "s' = insert_session ?k ?h s3" "flags w' = flags w3"
        using c v p t None f by (auto simp: create_session_def Let_def)
      with opened_ok [OF ok s1(1-4) _ p t(2,4), of ?h w'] s1(5) t(1) alloc_flag_count [OF f] show ?thesis
        by (simp add: attach_paused_def)
    qed
  qed
qed

lemma container_with_id_ok:
  assumes ok: "store_ok s w" and c: "container_with_id k now opts rt s w = (r, s', w')"
  shows "store_ok s' w' \<and> runs_on s s'"
proof -
  obtain claim s1 w1 where v: "vacate_session k s w = (claim, s1, w1)" by (metis surj_pair)
  note s1 = vacate_session_ok [OF ok v]
  obtain s2 w2 where p: "purge_zombies s1 w1 = (s2, w2)" by fastforce
  have z: "store_ok s2 w2" "map_of (sessions s2) \<subseteq>\<^sub>m map_of (sessions s)" "next_runtime_id s2 = next_runtime_id s"
    using purge_zombies_ok [OF _ p] s1 map_le_trans by auto
  show ?thesis
  proof (cases "claim = Ok () \<and> length (sessions s2) < max_active_root_sessions s2 \<and> (\<exists>i. allocate_runtime_identity k s2 = Ok i)")
    case False
    have "(s' = s1 \<and> w' = w1) \<or> (s' = s2 \<and> w' = w2)"
    proof (cases "claim = Ok ()")
      case granted: True
      with c v p False show ?thesis
        by (cases "allocate_runtime_identity k s2") (auto simp: container_with_id_def split: if_splits)
    next
      case closed: False
      with c v s1 show ?thesis by (cases claim) (simp_all add: container_with_id_def)
    qed
    then show ?thesis using s1 z runs_on_sub by blast
  next
    case True
    then obtain identity s3 where t: "claim = Ok ()" "length (sessions s2) < max_active_root_sessions s2"
      "allocate_runtime_identity k s2 = Ok (identity, s3)" by fastforce
    then obtain h where "s' = insert_session k h s3" "flags w' = flags w2" "sh_id h = k" "sh_runtime_id h = runtime_id identity"
      "sh_children h = []" "sh_state h = SessConnected" "sh_data_plane h = None" "\<not> sh_published h" "sh_scheduler h = default_scheduler"
      using c v p by (auto simp: container_with_id_def Let_def)
    with opened_ok [OF ok _ _ _ _ _ p t(2,3), of h w'] s1 t(1) show ?thesis by simp
  qed
qed

section \<open>Closing\<close>

lemma delete_shorter: "map_of xs k \<noteq> None \<Longrightarrow> length (AList.delete k xs) < length xs"
  by (induction xs) (auto simp: less_Suc_eq_le AList.length_delete_le)

lemma evict_names_bound: "evict_names order names = (order', names') \<Longrightarrow> length order' \<le> MAX_REMOVED_SESSION_NAMES"
  by (induction order arbitrary: names) (auto split: if_splits)

text \<open>What closing a session that exists does.\<close>

lemma close_session_some:
  assumes h: "map_of (sessions s) sid = Some h" and c: "close_session sid s w = (r, s', w')"
  obtains cleanup closed children where "r = Ok cleanup" "map_of (sessions s') = (map_of (sessions s))(sid \<mapsto> closed)"
    "gave_up closed" "sh_id closed = sh_id h" "sh_runtime_id closed = sh_runtime_id h" "sh_scheduler closed = sh_scheduler h"
    "sh_state closed = SessDisconnected" "flag_count w' = flag_count w" "next_runtime_id s' = next_runtime_id s"
    "max_active_root_sessions s' = max_active_root_sessions s" "length (removed_order s') \<le> MAX_REMOVED_SESSION_NAMES"
    "length (sessions s') \<le> length (sessions s)" "distinct (map fst (sessions s)) \<Longrightarrow> distinct (map fst (sessions s'))"
    "close_children (sh_children h) w = (children, snd (close_children (sh_children h) w))"
    "cleanup = \<lparr>ck_identity = \<lparr>session_id = sid, runtime_id = sh_runtime_id h\<rparr>, ck_children = children,
       ck_data_plane = sh_data_plane h, ck_script = map_option script_worker (sh_script h), ck_transfers = sh_transfer_tasks h,
       ck_service = sh_service h, ck_attachment = sh_attachment h, ck_teardown_delay = sh_teardown_delay h\<rparr>"
    "\<forall>f\<in>set (transfer_tokens (sh_scheduler h)) \<union> set (opt_list (sh_stats_flag h)). raised (flags w') f"
proof -
  obtain children w1 where cc: "close_children (sh_children h) w = (children, w1)" by fastforce
  obtain order names where ev: "evict_names (removed_order s @ [sid]) (AList.update sid (sh_name h) (session_names s)) = (order, names)"
    by fastforce
  let ?w3 = "raise_world (opt_list (sh_stats_flag h)) (w1\<lparr>flags := cancel_for_shutdown (sh_scheduler h) (flags w1)\<rparr>)"
  obtain script w4 where ts: "take_script (sh_script h) ?w3 = (script, w4)" by fastforce
  have "flag_count w' = flag_count w"
    using c h cc ev ts take_script_count [OF ts] close_children_count [OF cc]
    by (simp add: close_session_def cancel_for_shutdown_def Let_def)
  moreover have "script = map_option script_worker (sh_script h)" and "\<And>f. raised (flags ?w3) f \<Longrightarrow> raised (flags w4) f"
    using ts by (auto simp: take_script_def script_into_cleanup_def raise_world_def split: option.splits)
  moreover have "length (AList.update sid x (AList.delete sid (sessions s))) \<le> length (sessions s)" for x
    using delete_shorter [of "sessions s" sid] length_update_le [of sid x "AList.delete sid (sessions s)"] h by simp
  moreover let ?closed = "h\<lparr>sh_children := [], sh_data_plane := None, sh_script := None, sh_transfer_tasks := [],
      sh_service := None, sh_attachment := None, sh_file_transfer := None, sh_channel_factory := None, sh_io := None,
      sh_automation_io := None, sh_state := SessDisconnected\<rparr>"
  have "map_of (sessions s') = (map_of (sessions s))(sid \<mapsto> ?closed)" "w' = w4" "removed_order s' = order"
      "sessions s' = AList.update sid ?closed (AList.delete sid (sessions s))" "next_runtime_id s' = next_runtime_id s"
      "max_active_root_sessions s' = max_active_root_sessions s"
      "r = Ok \<lparr>ck_identity = \<lparr>session_id = sid, runtime_id = sh_runtime_id h\<rparr>, ck_children = children,
       ck_data_plane = sh_data_plane h, ck_script = script, ck_transfers = sh_transfer_tasks h,
       ck_service = sh_service h, ck_attachment = sh_attachment h, ck_teardown_delay = sh_teardown_delay h\<rparr>"
    using c h cc ev ts by (auto simp: close_session_def Let_def AList.update_conv' AList.delete_conv')
  ultimately show ?thesis
    using cc evict_names_bound [OF ev]
    by (intro that [of _ ?closed children])
      (auto simp: gave_up_def AList.distinct_update AList.distinct_delete raise_world_def cancel_for_shutdown_def)
qed

lemma close_session_ok:
  assumes ok: "store_ok s w" and c: "close_session sid s w = (r, s', w')"
  shows "store_ok s' w' \<and> runs_on s s'"
proof (cases "map_of (sessions s) sid")
  case None
  with c ok show ?thesis by (auto simp: close_session_def runs_on_refl)
next
  case (Some h)
  from close_session_some [OF Some c] obtain closed where cl: "map_of (sessions s') = (map_of (sessions s))(sid \<mapsto> closed)"
    "gave_up closed" "sh_id closed = sh_id h" "sh_runtime_id closed = sh_runtime_id h" "sh_scheduler closed = sh_scheduler h"
    "sh_state closed = SessDisconnected" "flag_count w' = flag_count w" "next_runtime_id s' = next_runtime_id s"
    "max_active_root_sessions s' = max_active_root_sessions s" "length (removed_order s') \<le> MAX_REMOVED_SESSION_NAMES"
    "length (sessions s') \<le> length (sessions s)" "distinct (map fst (sessions s)) \<Longrightarrow> distinct (map fst (sessions s'))"
    by metis
  have "session_ok (next_runtime_id s) (flags w') sid h"
    using session_ok_mono [OF store_ok_get [OF ok Some]] cl(7) by simp
  then have "session_ok (next_runtime_id s) (flags w') sid closed"
    using cl(2-6) by (simp add: session_ok_def barrier_def gave_up_def)
  moreover have "distinct (map fst (sessions s'))" using cl(12) ok by (simp add: store_ok_def)
  ultimately have "store_ok s' w'"
    using cl by (intro store_ok_update [OF ok Some]) simp_all
  then show ?thesis using runs_on_update [OF Some cl(4) cl(6) cl(1,8)] by blast
qed

lemma mark_disconnected_ok:
  "store_ok s w \<Longrightarrow> mark_disconnected identity s w = (r, s', w') \<Longrightarrow> store_ok s' w' \<and> runs_on s s'"
  using close_session_ok
  by (fastforce simp: mark_disconnected_def runs_on_refl split: option.splits if_splits prod.splits result.splits)

lemma close_if_current_ok:
  "store_ok s w \<Longrightarrow> close_if_current identity s w = (r, s', w') \<Longrightarrow> store_ok s' w' \<and> runs_on s s'"
  using close_session_ok by (auto simp: close_if_current_def runs_on_refl split: if_splits)

section \<open>Operations on one session\<close>

lemma set_session_ok:
  assumes "store_ok s w" "map_of (sessions s) k = Some h" "sh_runtime_id h' = sh_runtime_id h"
    "session_ok (next_runtime_id s) (flags w') k h'" "flag_count w \<le> flag_count w'"
    "sh_state h = SessDisconnected \<Longrightarrow> sh_state h' = SessDisconnected"
  shows "store_ok (set_session k h' s) w' \<and> runs_on s (set_session k h' s)"
  using store_ok_set [OF assms(1-5)] assms(2,3,6)
  by (simp add: runs_on_update [of s k h h'] set_session_def AList.update_conv')

text \<open>A handle that keeps what the invariant looks at.\<close>

lemma session_ok_frame:
  assumes "session_ok nxt fl k h" "next_flag fl \<le> next_flag fl'" "sh_id h' = sh_id h" "sh_runtime_id h' = sh_runtime_id h"
    "sh_children h' = sh_children h" "sh_scheduler h' = sh_scheduler h \<or> scheduler_ok (sh_scheduler h') fl'"
    "sh_data_plane h' = sh_data_plane h" "sh_published h' = sh_published h" "sh_state h' = sh_state h" "gave_up h \<Longrightarrow> gave_up h'"
  shows "session_ok nxt fl' k h'"
  using assms scheduler_ok_flags [of "sh_scheduler h" fl fl'] by (auto simp: session_ok_def barrier_def)

lemma index_of_child_Some: "index_of_child cid cs = Some i \<Longrightarrow> i < length cs \<and> sc_id (cs ! i) = cid"
  by (induction cs arbitrary: i) (auto split: if_splits)

lemma find_in_sessions_Some:
  "find_in_sessions cid hs = Some (k, i) \<Longrightarrow> distinct (map fst hs) \<Longrightarrow>
   \<exists>h. map_of hs k = Some h \<and> i < length (sh_children h) \<and> sc_id (sh_children h ! i) = cid"
proof (induction hs)
  case (Cons x hs)
  obtain k' h' where x: "x = (k', h')" by fastforce
  show ?case
  proof (cases "index_of_child cid (sh_children h')")
    case None
    with Cons x obtain h where h: "map_of hs k = Some h" "i < length (sh_children h)" "sc_id (sh_children h ! i) = cid" by auto
    then have "k \<noteq> k'" using Cons.prems(2) x by (metis distinct.simps(2) fst_conv list.simps(9) map_of_eq_None_iff option.distinct(1) set_map)
    with h x show ?thesis by simp
  next
    case (Some j)
    with Cons.prems x index_of_child_Some [OF Some] show ?thesis by simp
  qed
qed simp

lemma find_sub_connection_Some:
  assumes "find_sub_connection_index s cid = Some (k, i)" "store_ok s w"
  obtains h where "map_of (sessions s) k = Some h" "i < length (sh_children h)" "sc_id (sh_children h ! i) = cid"
  using assms find_in_sessions_Some [of cid "sessions s" k i] by (auto simp: find_sub_connection_index_def store_ok_def)

text \<open>New children for a connected session; a session that has children is connected.\<close>

definition child_fits :: "session_handle \<Rightarrow> sub_connection \<Rightarrow> bool" where
  "child_fits h c \<longleftrightarrow> sc_runtime_id c = sh_runtime_id h \<and>
     (\<forall>d. sc_data_plane c = Some d \<longrightarrow> dp_activated d = (sh_published h \<and> sc_published c) \<and> \<not> dp_shutdown_requested d)"

lemma children_ok:
  assumes "session_ok nxt fl k h" "sh_state h = SessConnected" "next_flag fl \<le> next_flag fl'" "\<And>c. c \<in> set cs \<Longrightarrow> child_fits h c"
  shows "session_ok nxt fl' k (h\<lparr>sh_children := cs\<rparr>)"
  using assms(1-3) assms(4) scheduler_ok_flags [of "sh_scheduler h" fl fl'] unfolding session_ok_def barrier_def child_fits_def by simp

lemma children_fit: "session_ok nxt fl k h \<Longrightarrow> c \<in> set (sh_children h) \<Longrightarrow> child_fits h c \<and> sh_state h = SessConnected"
  by (auto simp: session_ok_def barrier_def child_fits_def gave_up_def split: if_splits)

lemma child_ok:
  assumes "session_ok nxt fl k h" "i < length (sh_children h)" "next_flag fl \<le> next_flag fl'" "child_fits h c"
  shows "session_ok nxt fl' k (h\<lparr>sh_children := (sh_children h)[i := c]\<rparr>)"
proof (rule children_ok [OF assms(1) _ assms(3)])
  show "sh_state h = SessConnected" using children_fit [OF assms(1) nth_mem [OF assms(2)]] ..
  show "child_fits h c'" if "c' \<in> set ((sh_children h)[i := c])" for c'
    using that children_fit [OF assms(1)] assms(4) set_update_subset_insert by fastforce
qed

lemma activate_plane_simps:
  "activate_plane d w = (d', w') \<Longrightarrow> dp_activated d' \<and> dp_shutdown_requested d' = dp_shutdown_requested d \<and> dp_runtime d' = dp_runtime d \<and> flags w' = flags w"
  by (auto simp: activate_plane_def emit_effect_def split: if_splits)

lemma activate_child_simps:
  "activate_child c w = (c', w') \<Longrightarrow> sc_runtime_id c' = sc_runtime_id c \<and> sc_id c' = sc_id c \<and> sc_published c' = sc_published c \<and>
     flags w' = flags w \<and>
     (\<forall>d'. sc_data_plane c' = Some d' \<longrightarrow>
        dp_activated d' \<and> (\<exists>d. sc_data_plane c = Some d \<and> dp_shutdown_requested d' = dp_shutdown_requested d))"
  by (auto simp: activate_child_def dest: activate_plane_simps split: option.splits prod.splits)

lemma activate_published_simps:
  assumes "activate_published cs w = (cs', w')"
    "\<And>c d. c \<in> set cs \<Longrightarrow> \<not> sc_published c \<Longrightarrow> sc_data_plane c = Some d \<Longrightarrow> \<not> dp_activated d"
    "\<And>c d. c \<in> set cs \<Longrightarrow> sc_data_plane c = Some d \<Longrightarrow> \<not> dp_shutdown_requested d"
  shows "flags w' = flags w \<and> list_all2 (\<lambda>c c'. sc_runtime_id c' = sc_runtime_id c \<and>
      (\<forall>d. sc_data_plane c' = Some d \<longrightarrow> dp_activated d = sc_published c' \<and> \<not> dp_shutdown_requested d)) cs cs'"
  using assms
proof (induction cs arbitrary: w cs' w')
  case (Cons c cs)
  obtain c1 w1 where c1: "(if sc_published c then activate_child c w else (c, w)) = (c1, w1)" by fastforce
  obtain cs1 w2 where cs1: "activate_published cs w1 = (cs1, w2)" by fastforce
  have "flags w2 = flags w1 \<and> list_all2 (\<lambda>c c'. sc_runtime_id c' = sc_runtime_id c \<and>
      (\<forall>d. sc_data_plane c' = Some d \<longrightarrow> dp_activated d = sc_published c' \<and> \<not> dp_shutdown_requested d)) cs cs1"
    by (rule Cons.IH [OF cs1]) (use Cons.prems(2,3) in auto)
  moreover have "flags w1 = flags w \<and> sc_runtime_id c1 = sc_runtime_id c \<and> (\<forall>d. sc_data_plane c1 = Some d \<longrightarrow> dp_activated d = sc_published c1 \<and> \<not> dp_shutdown_requested d)"
    using c1 Cons.prems(2,3) activate_child_simps by (cases "sc_published c") (fastforce, auto)
  moreover have "cs' = c1 # cs1" "w' = w2" using Cons.prems(1) c1 cs1 by (simp_all add: Let_def)
  ultimately show ?case by simp
qed simp

lemma activate_data_plane_ok:
  assumes ok: "store_ok s w" and a: "activate_data_plane identity s w = (r, s', w')"
  shows "store_ok s' w' \<and> runs_on s s'"
proof (cases "matches_runtime s identity")
  case False
  with a ok show ?thesis by (simp add: activate_data_plane_def runs_on_refl)
next
  case matches: True
  let ?sid = "session_id identity"
  show ?thesis
  proof (cases "map_of (sessions s) ?sid")
    case (Some h)
    note hok = store_ok_get [OF ok Some]
    obtain d w1 where d: "(case sh_data_plane h of None \<Rightarrow> (None, w)
        | Some d \<Rightarrow> (let (d1, w1) = activate_plane d w in (Some d1, w1))) = (d, w1)" by fastforce
    obtain cs w2 where cs: "activate_published (sh_children h) w1 = (cs, w2)" by fastforce
    have dd: "flags w1 = flags w" "\<And>x. d = Some x \<Longrightarrow> dp_activated x \<and> \<not> dp_shutdown_requested x" "sh_data_plane h = None \<longleftrightarrow> d = None"
      using d hok 
      by (auto simp: session_ok_def barrier_def dest: activate_plane_simps split: option.splits prod.splits)
    have kids: "flags w2 = flags w1 \<and> list_all2 (\<lambda>c c'. sc_runtime_id c' = sc_runtime_id c \<and>
        (\<forall>d. sc_data_plane c' = Some d \<longrightarrow> dp_activated d = sc_published c' \<and> \<not> dp_shutdown_requested d)) (sh_children h) cs"
      by (rule activate_published_simps [OF cs]) (use children_fit [OF hok] in \<open>auto simp: child_fits_def\<close>)
    have fits: "sc_runtime_id c' = sh_runtime_id h \<and> (\<forall>d. sc_data_plane c' = Some d \<longrightarrow> dp_activated d = sc_published c' \<and> \<not> dp_shutdown_requested d)"
      if "c' \<in> set cs" for c'
      using that kids children_fit [OF hok] by (fastforce simp: list_all2_conv_all_nth in_set_conv_nth child_fits_def)
    have "cs = [] \<longleftrightarrow> sh_children h = []" using kids by auto
    then have "session_ok (next_runtime_id s) (flags w2) ?sid (h\<lparr>sh_published := True, sh_data_plane := d, sh_children := cs\<rparr>)"
      using hok dd kids fits unfolding session_ok_def barrier_def gave_up_def by (auto split: if_splits)
    moreover have "s' = set_session ?sid (h\<lparr>sh_published := True, sh_data_plane := d, sh_children := cs\<rparr>) s" "w' = w2"
      using a matches Some d cs by (simp_all add: activate_data_plane_def)
    ultimately show ?thesis using set_session_ok [OF ok Some] dd kids by simp
  next
    case None
    show ?thesis
    proof (cases "find_sub_connection_index s ?sid")
      case (Some p)
      then obtain k i h where f: "find_sub_connection_index s ?sid = Some (k, i)" "map_of (sessions s) k = Some h"
        "i < length (sh_children h)" using find_sub_connection_Some [OF _ ok] by (metis surj_pair)
      note hok = store_ok_get [OF ok f(2)]
      let ?c = "(sh_children h ! i)\<lparr>sc_published := True\<rparr>"
      obtain c w1 where c: "(if sh_published h then activate_child ?c w else (?c, w)) = (c, w1)" by fastforce
      have "child_fits h c \<and> flags w1 = flags w"
        using c children_fit [OF hok nth_mem [OF f(3)]] activate_child_simps [of ?c w c w1]
        by (cases "sh_published h") (auto simp: child_fits_def)
      then show ?thesis
        using set_session_ok [OF ok f(2), of "h\<lparr>sh_children := (sh_children h)[i := c]\<rparr>" w1] child_ok [OF hok f(3), of "flags w1" c]
          a matches None f c by (simp add: activate_data_plane_def)
    qed (use None a matches ok in \<open>simp add: activate_data_plane_def runs_on_refl\<close>)
  qed
qed

definition fresh_child :: "sub_connection \<Rightarrow> bool" where
  "fresh_child c \<longleftrightarrow> \<not> sc_published c \<and> (\<forall>d. sc_data_plane c = Some d \<longrightarrow> \<not> dp_activated d \<and> \<not> dp_shutdown_requested d)"

lemma add_sub_connection_ok:
  assumes ok: "store_ok s w" and c: "fresh_child c" and a: "add_sub_connection k c s = (r, s')"
  shows "store_ok s' w \<and> runs_on s s'"
proof (cases "r = Ok ()")
  case True
  with a obtain h where h: "map_of (sessions s) k = Some h" "sh_state h = SessConnected" "sh_runtime_id h = sc_runtime_id c"
      "s' = set_session k (h\<lparr>sh_children := sh_children h @ [c]\<rparr>) s"
    by (auto simp: add_sub_connection_def split: option.splits if_splits)
  note hok = store_ok_get [OF ok h(1)]
  have "session_ok (next_runtime_id s) (flags w) k (h\<lparr>sh_children := sh_children h @ [c]\<rparr>)"
    by (rule children_ok [OF hok h(2) order_refl])
      (use children_fit [OF hok] h(3) c in \<open>auto simp: child_fits_def fresh_child_def\<close>)
  then show ?thesis unfolding h(4) by (intro set_session_ok [OF ok h(1)]) simp_all
next
  case False
  with a ok show ?thesis by (auto simp: add_sub_connection_def runs_on_refl split: option.splits if_splits)
qed

lemma close_sub_connection_ok:
  assumes ok: "store_ok s w" and a: "close_sub_connection k cid s w = (r, s', w')"
  shows "store_ok s' w' \<and> runs_on s s'"
proof (cases "map_of (sessions s) k")
  case (Some h)
  note hok = store_ok_get [OF ok Some]
  show ?thesis
  proof (cases "index_of_child cid (sh_children h)")
    case i: (Some i)
    let ?rest = "take i (sh_children h) @ drop (Suc i) (sh_children h)"
    obtain script w1 where t: "take_script (sc_script (sh_children h ! i)) w = (script, w1)" by fastforce
    have s': "s' = set_session k (h\<lparr>sh_children := ?rest\<rparr>) s" and n: "flag_count w \<le> flag_count w'"
      using a Some i t take_script_count [OF t] by (auto simp: close_sub_connection_def Let_def)
    have "session_ok (next_runtime_id s) (flags w') k (h\<lparr>sh_children := ?rest\<rparr>)"
    proof (rule children_ok [OF hok _ n])
      show "sh_state h = SessConnected" using children_fit [OF hok nth_mem] index_of_child_Some [OF i] by blast
      show "child_fits h c" if "c \<in> set ?rest" for c
        using that children_fit [OF hok] by (auto dest: in_set_takeD in_set_dropD)
    qed
    then show ?thesis unfolding s' by (intro set_session_ok [OF ok Some _ _ n]) simp_all
  qed (use a Some ok in \<open>simp add: close_sub_connection_def runs_on_refl\<close>)
qed (use a ok in \<open>simp add: close_sub_connection_def runs_on_refl\<close>)

text \<open>Changing a child, found by its number, without touching what ties it to its session.\<close>

lemma set_child_ok:
  assumes ok: "store_ok s w" and h: "map_of (sessions s) k = Some h" "i < length (sh_children h)" and n: "flag_count w \<le> flag_count w'"
    and c: "sc_runtime_id c = sc_runtime_id (sh_children h ! i)" "sc_published c = sc_published (sh_children h ! i)"
      "sc_data_plane c = sc_data_plane (sh_children h ! i)"
  shows "store_ok (set_session k (h\<lparr>sh_children := (sh_children h)[i := c]\<rparr>) s) w' \<and>
    runs_on s (set_session k (h\<lparr>sh_children := (sh_children h)[i := c]\<rparr>) s)"
proof (rule set_session_ok [OF ok h(1) _ _ n])
  note hok = store_ok_get [OF ok h(1)]
  have "child_fits h c" using children_fit [OF hok nth_mem [OF h(2)]] c by (simp add: child_fits_def)
  from child_ok [OF hok h(2) n this]
  show "session_ok (next_runtime_id s) (flags w') k (h\<lparr>sh_children := (sh_children h)[i := c]\<rparr>)" .
qed simp_all

lemma mark_sub_disconnected_ok:
  assumes ok: "store_ok s w" and a: "mark_sub_disconnected parent cid retain s w = (r, s', w')"
  shows "store_ok s' w' \<and> runs_on s s'"
proof (cases r)
  case True
  let ?k = "session_id parent"
  obtain h i where h: "map_of (sessions s) ?k = Some h" "index_of_child cid (sh_children h) = Some i"
    "s' = set_session ?k (h\<lparr>sh_children := (sh_children h)[i := (sh_children h ! i)\<lparr>sc_state := SessDisconnected, sc_retain_terminal := retain\<rparr>]\<rparr>) s"
    "flag_count w' = flag_count w"
    using a True by (auto simp: mark_sub_disconnected_def Let_def split: option.splits if_splits)
  show ?thesis unfolding h(3) by (rule set_child_ok [OF ok h(1)]) (use h(4) index_of_child_Some [OF h(2)] in simp_all)
next
  case False
  with a ok show ?thesis by (auto simp: mark_sub_disconnected_def Let_def runs_on_refl split: option.splits if_splits)
qed

text \<open>Changing a session without touching what the invariant looks at; only the scheduler may change, and a disconnected session gets nothing.\<close>

lemma keep_session_ok:
  assumes "store_ok s w" "map_of (sessions s) k = Some h" "sh_id h' = sh_id h" "sh_runtime_id h' = sh_runtime_id h"
    "sh_children h' = sh_children h" "sh_scheduler h' = sh_scheduler h \<or> scheduler_ok (sh_scheduler h') (flags w')"
    "sh_data_plane h' = sh_data_plane h" "sh_published h' = sh_published h" "sh_state h' = sh_state h" "gave_up h \<Longrightarrow> gave_up h'"
    "flag_count w \<le> flag_count w'"
  shows "store_ok (set_session k h' s) w' \<and> runs_on s (set_session k h' s)"
  by (rule set_session_ok [OF assms(1,2,4) session_ok_frame [OF store_ok_get [OF assms(1,2)]]]) (use assms in auto)

lemma load_or_start_count:
  "load_or_start full failure code worker r w = Ok (x, w') \<Longrightarrow> flag_count w \<le> flag_count w'"
  using alloc_flag_count
  by (auto simp: load_or_start_def script_load_def script_start_def split: option.splits if_splits prod.splits)

lemma start_script_ok:
  assumes ok: "store_ok s w" and a: "start_script full failure sid code worker s w = (r, s', w')"
  shows "store_ok s' w' \<and> runs_on s s'"
proof (cases "map_of (sessions s) sid")
  case (Some h)
  show ?thesis
  proof (cases "sh_automation_io h \<noteq> None \<and> (\<exists>p. load_or_start full failure code worker (sh_script h) w = Ok p)")
    case True
    then obtain x w1 where l: "load_or_start full failure code worker (sh_script h) w = Ok (x, w1)" by fastforce
    then have "s' = set_session sid (h\<lparr>sh_script := Some x\<rparr>) s" "w' = w1" using a Some True by (simp_all add: start_script_def)
    then show ?thesis using True load_or_start_count [OF l] keep_session_ok [OF ok Some, of "h\<lparr>sh_script := Some x\<rparr>" w1]
      by (auto simp: gave_up_def)
  next
    case False
    then have "s' = s" "w' = w"
      using a Some by (cases "load_or_start full failure code worker (sh_script h) w"; auto simp: start_script_def split: if_splits)+
    then show ?thesis using ok by (simp add: runs_on_refl)
  qed
next
  case None
  show ?thesis
  proof (cases "find_sub_connection_index s sid")
    case (Some p)
    then obtain k i h where f: "find_sub_connection_index s sid = Some (k, i)" "map_of (sessions s) k = Some h"
      "i < length (sh_children h)" using find_sub_connection_Some [OF _ ok] by (metis surj_pair)
    show ?thesis
    proof (cases "load_or_start full failure code worker (sc_script (sh_children h ! i)) w")
      case (Ok p)
      then obtain x w1 where l: "load_or_start full failure code worker (sc_script (sh_children h ! i)) w = Ok (x, w1)" by (cases p) simp
      with a None f have "s' = set_session k (h\<lparr>sh_children := (sh_children h)[i := (sh_children h ! i)\<lparr>sc_script := Some x\<rparr>]\<rparr>) s" "w' = w1"
        by (simp_all add: start_script_def)
      then show ?thesis using set_child_ok [OF ok f(2,3) load_or_start_count [OF l]] by simp
    qed (use a None f ok in \<open>simp_all add: start_script_def runs_on_refl\<close>)
  qed (use a None ok in \<open>simp add: start_script_def runs_on_refl\<close>)
qed

lemma stop_script_ok:
  assumes ok: "store_ok s w" and a: "stop_script sid s w = (r, s', w')"
  shows "store_ok s' w' \<and> runs_on s s'"
proof (cases "map_of (sessions s) sid")
  case (Some h)
  obtain k w1 where t: "take_script (sh_script h) w = (k, w1)" by fastforce
  then have "s' = set_session sid (h\<lparr>sh_script := None\<rparr>) s" "w' = w1" using a Some by (simp_all add: stop_script_def)
  then show ?thesis using take_script_count [OF t] keep_session_ok [OF ok Some, of "h\<lparr>sh_script := None\<rparr>" w1]
    by (simp add: gave_up_def)
next
  case None
  show ?thesis
  proof (cases "find_sub_connection_index s sid")
    case (Some p)
    then obtain k i h where f: "find_sub_connection_index s sid = Some (k, i)" "map_of (sessions s) k = Some h"
      "i < length (sh_children h)" using find_sub_connection_Some [OF _ ok] by (metis surj_pair)
    obtain j w1 where t: "take_script (sc_script (sh_children h ! i)) w = (j, w1)" by fastforce
    with a None f have "s' = set_session k (h\<lparr>sh_children := (sh_children h)[i := (sh_children h ! i)\<lparr>sc_script := None\<rparr>]\<rparr>) s" "w' = w1"
      by (simp_all add: stop_script_def)
    then show ?thesis using take_script_count [OF t] set_child_ok [OF ok f(2,3), of w1] by simp
  qed (use a None ok in \<open>simp add: stop_script_def runs_on_refl\<close>)
qed

lemma with_scheduler_ok:
  assumes ok: "store_ok s w" and a: "with_scheduler f k s w = (r, s', w')"
    and f: "\<And>t fl token t' fl'. f t fl = Ok (token, t', fl') \<Longrightarrow> scheduler_ok t fl \<Longrightarrow> scheduler_ok t' fl' \<and> next_flag fl' = next_flag fl + 1"
  shows "store_ok s' w' \<and> runs_on s s'"
proof (cases "map_of (sessions s) k")
  case (Some h)
  show ?thesis
  proof (cases "f (sh_scheduler h) (flags w)")
    case (Ok p)
    then obtain token t fl where p: "f (sh_scheduler h) (flags w) = Ok (token, t, fl)" by (cases p) simp
    then have "s' = set_session k (h\<lparr>sh_scheduler := t\<rparr>) s" "w' = w\<lparr>flags := fl\<rparr>" using a Some by (simp_all add: with_scheduler_def)
    moreover have "scheduler_ok t fl \<and> next_flag fl = next_flag (flags w) + 1"
      using f [OF p] store_ok_get [OF ok Some] by (simp add: session_ok_def)
    ultimately show ?thesis using keep_session_ok [OF ok Some, of "h\<lparr>sh_scheduler := t\<rparr>" "w\<lparr>flags := fl\<rparr>"]
      by (simp add: gave_up_def)
  qed (use a Some ok in \<open>simp_all add: with_scheduler_def runs_on_refl\<close>)
qed (use a ok in \<open>simp add: with_scheduler_def runs_on_refl\<close>)

lemma transfer_done_ok: "store_ok s w \<Longrightarrow> store_ok (transfer_done identity tid s) w \<and> runs_on s (transfer_done identity tid s)"
proof (cases "matches_runtime s identity \<and> map_of (sessions s) (session_id identity) \<noteq> None")
  case True
  assume ok: "store_ok s w"
  from True obtain h where h: "map_of (sessions s) (session_id identity) = Some h" by blast
  obtain b t where t: "finish_transfer tid (sh_scheduler h) = (b, t)" by fastforce
  have "scheduler_ok t (flags w)" using finish_transfer_ok [OF _ t] store_ok_get [OF ok h] by (simp add: session_ok_def)
  then show ?thesis using keep_session_ok [OF ok h, of "h\<lparr>sh_scheduler := t\<rparr>" w] True h t
    by (simp add: transfer_done_def gave_up_def)
qed (auto simp: transfer_done_def runs_on_refl split: option.split)

lemma cancel_scheduled_transfer_ok:
  "store_ok s w \<Longrightarrow> cancel_scheduled_transfer sid tid s w = (r, w') \<Longrightarrow> store_ok s w'"
  using store_ok_same [of s w s w']
  by (fastforce simp: cancel_scheduled_transfer_def cancel_transfer_def raise_flag_def split: option.splits result.splits list.splits)

lemma register_transfer_task_ok:
  assumes ok: "store_ok s w" and a: "register_transfer_task finished identity task s = (r, s')"
  shows "store_ok s' w \<and> runs_on s s'"
proof (cases "runtime_is_connected s identity \<and> map_of (sessions s) (session_id identity) \<noteq> None")
  case True
  then obtain h where h: "map_of (sessions s) (session_id identity) = Some h" by blast
  have "sh_state h = SessConnected" using True h by (simp add: runtime_is_connected_def)
  then have "session_ok (next_runtime_id s) (flags w) (session_id identity)
      (h\<lparr>sh_transfer_tasks := filter (\<lambda>t. \<not> finished t) (sh_transfer_tasks h) @ [task]\<rparr>)"
    using store_ok_get [OF ok h] by (simp add: session_ok_def barrier_def)
  note set_session_ok [OF ok h _ this order_refl]
  with a True h show ?thesis by (auto simp: register_transfer_task_def)
next
  case False
  with a ok show ?thesis by (auto simp: register_transfer_task_def runs_on_refl split: option.splits if_splits)
qed

lemma rename_session_ok:
  assumes ok: "store_ok s w" and a: "rename_session sid name s = (r, s')"
  shows "store_ok s' w \<and> runs_on s s'"
proof (cases "map_of (sessions s) sid")
  case (Some h)
  have k: "store_ok (set_session sid (h\<lparr>sh_name := name\<rparr>) s) w \<and> runs_on s (set_session sid (h\<lparr>sh_name := name\<rparr>) s)"
    by (rule keep_session_ok [OF ok Some]) (simp_all add: gave_up_def)
  have s': "s' = (set_session sid (h\<lparr>sh_name := name\<rparr>) s)\<lparr>session_names := AList.update sid name (session_names s)\<rparr>"
    using a Some by (simp add: rename_session_def)
  show ?thesis unfolding s'
    using k store_ok_same [of "set_session sid (h\<lparr>sh_name := name\<rparr>) s" w _ w] by (simp add: runs_on_def)
qed (use a ok in \<open>simp add: rename_session_def runs_on_refl\<close>)

lemma switch_active_ok: "store_ok s w \<Longrightarrow> switch_active sid s = (r, s') \<Longrightarrow> store_ok s' w \<and> runs_on s s'"
  using store_ok_same [of s w s' w] by (auto simp: switch_active_def runs_on_def split: option.splits if_splits)

lemma reorder_tabs_ok: "store_ok s w \<Longrightarrow> reorder_tabs order s = (r, s') \<Longrightarrow> store_ok s' w \<and> runs_on s s'"
  using store_ok_same [of s w s' w] by (auto simp: reorder_tabs_def runs_on_def split: option.splits)

lemma reset_child_counter_ok: "store_ok s w \<Longrightarrow> store_ok (reset_child_counter k s) w \<and> runs_on s (reset_child_counter k s)"
proof (cases "map_of (sessions s) k")
  case (Some h)
  assume ok: "store_ok s w"
  show ?thesis using keep_session_ok [OF ok Some, of "h\<lparr>sh_next_child_index := 0\<rparr>" w] Some
    by (simp add: reset_child_counter_def gave_up_def)
qed (simp add: reset_child_counter_def runs_on_refl)

section \<open>Histories\<close>

text \<open>Every operation of the store; a fresh number of a session is one that is not in use.\<close>

inductive store_step :: "session_store \<times> world \<Rightarrow> session_store \<times> world \<Rightarrow> bool" where
  create: "map_of (sessions s) fresh = None \<Longrightarrow> create_session is_uuid fresh now failure opts conn s w = (r, s', w') \<Longrightarrow> store_step (s, w) (s', w')"
| container: "create_container_session is_uuid fresh now opts rt s w = (r, s', w') \<Longrightarrow> store_step (s, w) (s', w')"
| closing: "close_session sid s w = (r, s', w') \<Longrightarrow> store_step (s, w) (s', w')"
| close_current: "close_if_current identity s w = (r, s', w') \<Longrightarrow> store_step (s, w) (s', w')"
| lost: "mark_disconnected identity s w = (c, s', w') \<Longrightarrow> store_step (s, w) (s', w')"
| add_child: "fresh_child c \<Longrightarrow> add_sub_connection parent c s = (r, s') \<Longrightarrow> store_step (s, w) (s', w)"
| publish: "activate_data_plane identity s w = (r, s', w') \<Longrightarrow> store_step (s, w) (s', w')"
| close_child: "close_sub_connection parent cid s w = (r', s', w') \<Longrightarrow> store_step (s, w) (s', w')"
| child_lost: "mark_sub_disconnected identity cid retain s w = (b, s', w') \<Longrightarrow> store_step (s, w) (s', w')"
| switch: "switch_active sid s = (r, s') \<Longrightarrow> store_step (s, w) (s', w)"
| rename: "rename_session sid name s = (r, s') \<Longrightarrow> store_step (s, w) (s', w)"
| reorder: "reorder_tabs order s = (r, s') \<Longrightarrow> store_step (s, w) (s', w)"
| script: "start_script full failure sid code worker s w = (r, s', w') \<Longrightarrow> store_step (s, w) (s', w')"
| end_script: "stop_script sid s w = (k, s', w') \<Longrightarrow> store_step (s, w) (s', w')"
| reset: "store_step (s, w) (reset_child_counter parent s, w)"
| inline_transfer: "reserve_inline_transfer sid tid s w = (t, s', w') \<Longrightarrow> store_step (s, w) (s', w')"
| auxiliary_transfer: "transfer_start sid tid s w = (t, s', w') \<Longrightarrow> store_step (s, w) (s', w')"
| cancel: "cancel_scheduled_transfer sid expected s w = (r, w') \<Longrightarrow> store_step (s, w) (s, w')"
| transfer_end: "store_step (s, w) (transfer_done identity expected s, w)"
| task: "register_transfer_task finished identity t s = (r, s') \<Longrightarrow> store_step (s, w) (s', w)"

inductive store_reach :: "session_store \<times> world \<Rightarrow> bool" where
  fresh_store: "next_flag (flags w) = 0 \<Longrightarrow> store_reach (new_store, w)"
| step: "store_reach p \<Longrightarrow> store_step p q \<Longrightarrow> store_reach q"

lemma create_container_session_ok:
  "store_ok s w \<Longrightarrow> create_container_session is_uuid fresh now opts rt s w = (r, s', w') \<Longrightarrow> store_ok s' w' \<and> runs_on s s'"
  using container_with_id_ok by (auto simp: create_container_session_def runs_on_refl split: option.splits if_splits)

lemma reserve_inline_transfer_ok:
  "store_ok s w \<Longrightarrow> reserve_inline_transfer sid tid s w = (r, s', w') \<Longrightarrow> store_ok s' w' \<and> runs_on s s'"
  unfolding reserve_inline_transfer_def using with_scheduler_ok reserve_inline_ok by blast

lemma transfer_start_ok:
  "store_ok s w \<Longrightarrow> transfer_start sid tid s w = (r, s', w') \<Longrightarrow> store_ok s' w' \<and> runs_on s s'"
  unfolding transfer_start_def using with_scheduler_ok reserve_auxiliary_ok by blast

lemmas operation_ok =
  create_session_ok create_container_session_ok close_session_ok close_if_current_ok mark_disconnected_ok add_sub_connection_ok
  activate_data_plane_ok close_sub_connection_ok mark_sub_disconnected_ok switch_active_ok rename_session_ok reorder_tabs_ok
  start_script_ok stop_script_ok reset_child_counter_ok reserve_inline_transfer_ok transfer_start_ok
  transfer_done_ok register_transfer_task_ok

lemma store_step_ok: "store_step p q \<Longrightarrow> store_ok (fst p) (snd p) \<Longrightarrow> store_ok (fst q) (snd q) \<and> runs_on (fst p) (fst q)"
proof (induction rule: store_step.induct)
  case (cancel sid expected s w r w')
  then show ?case using cancel_scheduled_transfer_ok runs_on_refl by simp
qed (simp, rule operation_ok, assumption+)+

lemma store_reach_ok: "store_reach p \<Longrightarrow> store_ok (fst p) (snd p)"
proof (induction rule: store_reach.induct)
  case (fresh_store w)
  show ?case by (simp add: store_ok_def new_store_def)
next
  case (step p q)
  then show ?case using store_step_ok by blast
qed

end
