(* ===== verification/Session_Lifecycle.thy ===== *)
theory Session_Lifecycle
  imports Session_Store_Invariant
begin

text \<open>
  The properties of the session store over its histories, from the invariant of \<open>Session_Store_Invariant\<close>.
\<close>

section \<open>Concrete stores\<close>

definition demo_world :: world where "demo_world = \<lparr>flags = no_flags, effects = []\<rparr>"

definition demo_options :: session_options where
  "demo_options = \<lparr>so_name = ''router'', so_plugin_id = ''ssh'', so_endpoint = ''10.0.0.1'', so_transfer_enabled = True,
     so_transfer_protocol = None, so_send_bar_enabled = False, so_id_override = Some ''s1''\<rparr>"

definition demo_connection :: protocol_connection where
  "demo_connection = \<lparr>pc_data_plane = Some 5, pc_service = Some 6, pc_file_transfer = None, pc_channel_factory = None,
     pc_on_attached = Some 7, pc_teardown_delay = 20\<rparr>"

definition demo_create :: "session_store \<times> world \<Rightarrow> (runtime_identity, store_error) result \<times> session_store \<times> world" where
  "demo_create p = create_session (\<lambda>_. True) ''s2'' 0 None demo_options demo_connection (fst p) (snd p)"

definition demo_open :: "session_store \<times> world" where "demo_open = snd (demo_create (new_store, demo_world))"

definition demo_published :: "session_store \<times> world" where
  "demo_published = snd (activate_data_plane \<lparr>session_id = ''s1'', runtime_id = 1\<rparr> (fst demo_open) (snd demo_open))"

definition demo_closed :: "session_store \<times> world" where
  "demo_closed = snd (close_session ''s1'' (fst demo_published) (snd demo_published))"

definition demo_reopened :: "session_store \<times> world" where "demo_reopened = snd (demo_create demo_closed)"

definition demo_handle :: session_handle where "demo_handle = the (map_of (sessions (fst demo_published)) ''s1'')"

lemma demo_get: "map_of (sessions (fst demo_published)) ''s1'' = Some demo_handle"
proof -
  have "map_of (sessions (fst demo_published)) ''s1'' \<noteq> None" by code_simp
  then show ?thesis unfolding demo_handle_def by (simp add: option.collapse)
qed

lemma demo_run: "sh_runtime_id demo_handle = 1" "sh_published demo_handle" "sh_children demo_handle = []"
  by code_simp+

lemma demo_create_step: "map_of (sessions (fst p)) ''s2'' = None \<Longrightarrow> store_step p (snd (demo_create p))"
  unfolding demo_create_def
  by (cases p, cases "create_session (\<lambda>_. True) ''s2'' 0 None demo_options demo_connection (fst p) (snd p)")
    (simp add: store_step.create)

lemma demo_reach: "store_reach demo_open" "store_reach (fst demo_published, snd demo_published)"
proof -
  have "store_reach (new_store, demo_world)" by (rule store_reach.fresh_store) (simp add: demo_world_def no_flags_def)
  moreover have "store_step (new_store, demo_world) demo_open"
    unfolding demo_open_def by (rule demo_create_step) (simp add: new_store_def)
  ultimately show o: "store_reach demo_open" by (rule store_reach.step)
  have "store_step (fst demo_open, snd demo_open) (fst demo_published, snd demo_published)"
    unfolding demo_published_def
    by (rule store_step.publish [where r = "fst (activate_data_plane \<lparr>session_id = ''s1'', runtime_id = 1\<rparr> (fst demo_open) (snd demo_open))"])
      (simp only: prod.collapse)
  with o show "store_reach (fst demo_published, snd demo_published)" by (simp only: prod.collapse) (rule store_reach.step)
qed

section \<open>The limits\<close>

text \<open>
  Whatever the history of the store, it holds at most 64 root sessions and remembers the closing of at
  most 50, and every identity in use lies below the next one to be given, so the counter never handed one out twice and
  never wrapped.
\<close>

theorem session_store_bounds:
  assumes "store_reach (s, w)"
  shows "length (sessions s) \<le> 64 \<and> length (removed_order s) \<le> 50 \<and>
    (\<forall>k h. map_of (sessions s) k = Some h \<longrightarrow> unat (sh_runtime_id h) < unat (next_runtime_id s))"
  using store_reach_ok [OF assms]
  by (auto simp: store_ok_def session_ok_def DEFAULT_MAX_ACTIVE_ROOT_SESSIONS_def MAX_REMOVED_SESSION_NAMES_def word_less_nat_alt)

lemma session_store_bounds_witness:
  "length (sessions (fst demo_published)) \<le> 64 \<and> unat (sh_runtime_id demo_handle) < unat (next_runtime_id (fst demo_published))"
  using session_store_bounds [OF demo_reach(2)] demo_get by blast

text \<open>
  C13. In every history: a session is stored under its own number, no two of them have the same
  runtime identity, their children carry their parent's, each session's transfers keep the scheduler's limits, and a session is either
  connected or disconnected with every resource given up; no state in between is ever visible to another caller of the store.
\<close>

theorem session_store_invariant:
  assumes "store_reach (s, w)" "map_of (sessions s) k = Some h"
  shows "sh_id h = k \<and> scheduler_ok (sh_scheduler h) (flags w) \<and>
    (\<forall>k' h'. map_of (sessions s) k' = Some h' \<longrightarrow> sh_runtime_id h' = sh_runtime_id h \<longrightarrow> k' = k) \<and>
    (\<forall>c\<in>set (sh_children h). sc_runtime_id c = sh_runtime_id h) \<and>
    (sh_state h = SessConnected \<or> sh_state h = SessDisconnected \<and> sh_data_plane h = None \<and> sh_io h = None \<and>
       sh_automation_io h = None \<and> sh_script h = None \<and> sh_service h = None \<and> sh_attachment h = None \<and>
       sh_file_transfer h = None \<and> sh_channel_factory h = None \<and> sh_transfer_tasks h = [] \<and> sh_children h = [])"
proof -
  note ok = store_reach_ok [OF assms(1), simplified]
  have "k' = k" if "map_of (sessions s) k' = Some h'" "sh_runtime_id h' = sh_runtime_id h" for k' h'
    using ok that assms(2) unfolding store_ok_def by blast
  with store_ok_get [OF ok assms(2)] show ?thesis by (auto simp: session_ok_def gave_up_def split: if_splits)
qed

lemma session_store_invariant_witness:
  "sh_id demo_handle = ''s1'' \<and> scheduler_ok (sh_scheduler demo_handle) (flags (snd demo_published))"
  using session_store_invariant [OF demo_reach(2) demo_get] by (elim conjE) (intro conjI)

section \<open>The registration barrier\<close>

text \<open>
  C14. In every history a data plane the store holds delivers exactly when its owner was published, and a
  child's exactly when the child and its parent both were; none of them was told to stop. So no output reaches a subscriber before
  the session is registered, and none is lost once it is.
\<close>

theorem registration_barrier:
  assumes "store_reach (s, w)" "map_of (sessions s) k = Some h"
  shows "(\<forall>d. sh_data_plane h = Some d \<longrightarrow> dp_activated d = sh_published h \<and> \<not> dp_shutdown_requested d) \<and>
    (\<forall>c\<in>set (sh_children h). \<forall>d. sc_data_plane c = Some d \<longrightarrow>
       dp_activated d = (sh_published h \<and> sc_published c) \<and> \<not> dp_shutdown_requested d)"
proof -
  from store_ok_get [OF store_reach_ok [OF assms(1), simplified] assms(2)] show ?thesis
    unfolding session_ok_def barrier_def by blast
qed

lemma registration_barrier_witness:
  "sh_published demo_handle \<and> map_option dp_activated (sh_data_plane demo_handle) = Some True"
proof -
  have "sh_data_plane demo_handle \<noteq> None" by code_simp
  with registration_barrier [OF demo_reach(2) demo_get] demo_run(2) show ?thesis by auto
qed

section \<open>A run that ended stays ended\<close>

definition dead_run :: "session_store \<Rightarrow> u64 \<Rightarrow> bool" where
  "dead_run s r \<longleftrightarrow> r < next_runtime_id s \<and>
     (\<forall>k h. map_of (sessions s) k = Some h \<longrightarrow> sh_runtime_id h = r \<longrightarrow> sh_state h = SessDisconnected)"

lemma dead_run_runs_on:
  assumes d: "dead_run s r" and r: "runs_on s s'"
  shows "dead_run s' r"
proof -
  have "sh_state h' = SessDisconnected" if h: "map_of (sessions s') k = Some h'" "sh_runtime_id h' = r" for k h'
  proof -
    have "\<not> next_runtime_id s \<le> sh_runtime_id h'" using d h(2) by (simp add: dead_run_def not_le)
    with r h obtain h0 where "map_of (sessions s) k = Some h0" "sh_runtime_id h0 = r"
      "sh_state h0 = SessDisconnected \<longrightarrow> sh_state h' = SessDisconnected" unfolding runs_on_def by metis
    with d show ?thesis unfolding dead_run_def by blast
  qed
  moreover have "r < next_runtime_id s'" using d r unfolding dead_run_def runs_on_def by (meson order_less_le_trans)
  ultimately show ?thesis unfolding dead_run_def by blast
qed

lemma dead_run_steps: "store_step\<^sup>*\<^sup>* p q \<Longrightarrow> store_reach p \<Longrightarrow> dead_run (fst p) r \<Longrightarrow> store_reach q \<and> dead_run (fst q) r"
proof (induction rule: rtranclp_induct)
  case (step q t)
  then show ?case using store_step_ok [OF step(2)] store_reach_ok dead_run_runs_on store_reach.step by metis
qed simp

lemma find_child_Some:
  "find_child s cid = Some (h, c) \<Longrightarrow> \<exists>k. map_of (sessions s) k = Some h"
  by (auto simp: find_child_def split: option.splits if_splits)

lemma dead_not_connected: "dead_run s r \<Longrightarrow> \<not> runtime_is_connected s \<lparr>session_id = x, runtime_id = r\<rparr>"
  unfolding dead_run_def runtime_is_connected_def using find_child_Some
  by (fastforce split: option.splits)

lemma closed_dead:
  assumes ok: "store_ok s w" and h: "map_of (sessions s) k = Some h" and c: "close_session k s w = (r, s', w')"
  shows "dead_run s' (sh_runtime_id h)"
proof -
  from close_session_some [OF h c] obtain closed where cl: "map_of (sessions s') = (map_of (sessions s))(k \<mapsto> closed)"
    "sh_state closed = SessDisconnected" "next_runtime_id s' = next_runtime_id s" by metis
  have "sh_runtime_id h < next_runtime_id s" using store_ok_get [OF ok h] by (simp add: session_ok_def)
  moreover have "sh_state x = SessDisconnected" if "map_of (sessions s') j = Some x" "sh_runtime_id x = sh_runtime_id h" for j x
    using that h ok cl(1,2) unfolding store_ok_def by (metis fun_upd_apply option.inject)
  ultimately show ?thesis using cl(3) by (simp add: dead_run_def)
qed

text \<open>
  C12. Once a session is closed, the identity of that run is refused for ever, for the session and
  for each of its children, whatever happens in between, the opening of a new session with the same number included: its I/O is not
  handed out, no transfer task is registered for it, a loss of connection reported for it changes nothing, and no child
  joins it.
\<close>

theorem closed_run_is_refused:
  assumes "store_reach (s, w)" "map_of (sessions s) k = Some h" "close_session k s w = (r, s', w')"
    "store_step\<^sup>*\<^sup>* (s', w') (t, v)" "runtime_id identity = sh_runtime_id h" "sc_runtime_id c = sh_runtime_id h"
  shows "io_for_runtime t identity = Err RuntimeChanged \<and>
    register_transfer_task finished identity task t = (Err TransferRuntimeGone, t) \<and>
    mark_disconnected identity t v = (None, t, v) \<and> mark_sub_disconnected identity cid retain t v = (False, t, v) \<and>
    (\<exists>e. add_sub_connection parent c t = (Err e, t))"
proof -
  have "store_reach (s', w')" using assms(1,3) store_reach.step store_step.closing by blast
  from dead_run_steps [OF assms(4) this] closed_dead [OF store_reach_ok [OF assms(1), simplified] assms(2,3)]
  have d: "dead_run t (sh_runtime_id h)" by simp
  obtain x where i: "identity = \<lparr>session_id = x, runtime_id = sh_runtime_id h\<rparr>" using assms(5) by (cases identity) simp
  from dead_not_connected [OF d] have n: "\<not> runtime_is_connected t identity" by (simp add: i)
  then have "io_for_runtime t identity = Err RuntimeChanged"
    "register_transfer_task finished identity task t = (Err TransferRuntimeGone, t)"
    by (simp_all add: io_for_runtime_def register_transfer_task_def)
  moreover have "mark_disconnected identity t v = (None, t, v)" "mark_sub_disconnected identity cid retain t v = (False, t, v)"
    using d by (auto simp: i mark_disconnected_def mark_sub_disconnected_def dead_run_def split: option.split)
  moreover have "\<exists>e. add_sub_connection parent c t = (Err e, t)"
    using d assms(6) by (auto simp: add_sub_connection_def dead_run_def split: option.split)
  ultimately show ?thesis by blast
qed

lemma demo_close: "close_session ''s1'' (fst demo_published) (snd demo_published) =
    (fst (close_session ''s1'' (fst demo_published) (snd demo_published)), fst demo_closed, snd demo_closed)"
  by (simp add: demo_closed_def)

lemma demo_reopen: "store_step\<^sup>*\<^sup>* (fst demo_closed, snd demo_closed) (fst demo_reopened, snd demo_reopened)"
proof -
  have "map_of (sessions (fst demo_closed)) ''s2'' = None" by code_simp
  from demo_create_step [OF this] show ?thesis unfolding demo_reopened_def [symmetric] by simp
qed

lemma demo_second_run: "io_for_runtime (fst demo_reopened) \<lparr>session_id = ''s1'', runtime_id = 2\<rparr> = Ok 5"
  by code_simp

lemma closed_run_is_refused_witness:
  "io_for_runtime (fst demo_reopened) \<lparr>session_id = ''s1'', runtime_id = 1\<rparr> = Err RuntimeChanged \<and>
   io_for_runtime (fst demo_reopened) \<lparr>session_id = ''s1'', runtime_id = 2\<rparr> = Ok 5"
proof -
  let ?c = "(sub_connection_new [] [] (attach_paused 0 \<lparr>session_id = [], runtime_id = 1\<rparr>) 0 0 False)"
  have "sc_runtime_id ?c = sh_runtime_id demo_handle" by (simp add: sub_connection_new_def attach_paused_def demo_run)
  from closed_run_is_refused [OF demo_reach(2) demo_get demo_close demo_reopen _ this,
      of "\<lparr>session_id = ''s1'', runtime_id = 1\<rparr>"] demo_run(1) demo_second_run
  show ?thesis by simp
qed

section \<open>Closing releases every resource once\<close>

text \<open>The releases in a log, and the resources a session owns, in the order the cleanup releases them.\<close>

fun is_release :: "session_effect \<Rightarrow> bool" where
  "is_release (Detached _ _) = True"
| "is_release (ServiceShutdown _) = True"
| "is_release (PlaneShutdown _) = True"
| "is_release (ScriptJoined _) = True"
| "is_release (TransferJoined _) = True"
| "is_release _ = False"

abbreviation releases :: "world \<Rightarrow> session_effect list" where
  "releases w \<equiv> filter is_release (effects w)"

definition plane_release :: "session_data_plane option \<Rightarrow> session_effect list" where
  "plane_release d = (case d of None \<Rightarrow> [] | Some d \<Rightarrow> [PlaneShutdown (dp_runtime d)])"

definition script_release :: "script_runtime option \<Rightarrow> session_effect list" where
  "script_release r = (case r of None \<Rightarrow> [] | Some r \<Rightarrow> [ScriptJoined (script_worker r)])"

definition child_resources :: "sub_connection \<Rightarrow> session_effect list" where
  "child_resources c = plane_release (sc_data_plane c) @ script_release (sc_script c)"

definition resources :: "session_handle \<Rightarrow> session_effect list" where
  "resources h = concat (map child_resources (sh_children h)) @ plane_release (sh_data_plane h) @ script_release (sh_script h) @
     map ServiceShutdown (opt_list (sh_service h)) @ map (\<lambda>a. Detached a (sh_id h)) (opt_list (sh_attachment h)) @
     map TransferJoined (sh_transfer_tasks h)"

lemma emit_effects [simp]:
  "effects (emit_effect e w) = effects w @ [e]" "effects (raise_world fs w) = effects w"
  "effects (emit_opt f x w) = effects w @ map f (opt_list x)"
  by (simp_all add: emit_effect_def raise_world_def emit_opt_def split: option.split)

lemma request_shutdown_releases:
  "\<not> dp_shutdown_requested d \<Longrightarrow> releases (snd (request_shutdown d w)) = releases w @ [PlaneShutdown (dp_runtime d)]"
  by (simp add: request_shutdown_def activate_plane_def Let_def)

lemma shutdown_opt_releases:
  "(\<And>d. p = Some d \<Longrightarrow> \<not> dp_shutdown_requested d) \<Longrightarrow>
   releases (case p of None \<Rightarrow> w | Some d \<Rightarrow> snd (request_shutdown d w)) = releases w @ plane_release p"
  by (simp add: plane_release_def request_shutdown_releases split: option.split)

lemma take_script_simps: "take_script r w = (k, w') \<Longrightarrow> effects w' = effects w \<and> k = map_option script_worker r"
  by (auto simp: take_script_def script_into_cleanup_def split: option.splits)

lemma script_joined [simp]:
  "map ScriptJoined (case r of None \<Rightarrow> [] | Some x \<Rightarrow> ((\<lambda>v. [v]) \<circ> script_worker) x) = script_release r"
  "filter is_release (script_release r) = script_release r"
  by (simp_all add: script_release_def split: option.split)

lemma sub_cleanup_releases:
  assumes "\<And>d. sc_data_plane c = Some d \<Longrightarrow> \<not> dp_shutdown_requested d"
  shows "releases (sub_cleanup_join \<lparr>sk_channel_id = i, sk_data_plane = sc_data_plane c,
      sk_script = map_option script_worker (sc_script c)\<rparr> v) = releases v @ child_resources c"
  using shutdown_opt_releases [where p = "sc_data_plane c", OF assms] by (simp add: sub_cleanup_join_def child_resources_def)

lemma close_children_releases:
  "close_children cs w = (ks, w') \<Longrightarrow> (\<And>c d. c \<in> set cs \<Longrightarrow> sc_data_plane c = Some d \<Longrightarrow> \<not> dp_shutdown_requested d) \<Longrightarrow>
   effects w' = effects w \<and> releases (fold sub_cleanup_join ks v) = releases v @ concat (map child_resources cs)"
proof (induction cs arbitrary: w ks w' v)
  case (Cons c cs)
  let ?w = "raise_world (opt_list (sc_stats_flag c)) w"
  obtain script w2 where t: "take_script (sc_script c) ?w = (script, w2)" by fastforce
  obtain ks2 w3 where r: "close_children cs w2 = (ks2, w3)" by fastforce
  let ?k = "\<lparr>sk_channel_id = sc_id c, sk_data_plane = sc_data_plane c, sk_script = map_option script_worker (sc_script c)\<rparr>"
  have k: "ks = ?k # ks2" "w' = w3" using Cons.prems(1) t r take_script_simps [OF t] by (simp_all add: Let_def)
  have ih: "effects w3 = effects w2 \<and> releases (fold sub_cleanup_join ks2 v) = releases v @ concat (map child_resources cs)" for v
    by (rule Cons.IH [OF r]) (use Cons.prems(2) in auto)
  have c: "releases (sub_cleanup_join ?k v) = releases v @ child_resources c"
    by (rule sub_cleanup_releases) (use Cons.prems(2) in auto)
  show ?case using ih take_script_simps [OF t] c by (simp add: k)
qed simp

lemma join_releases: "releases (fold (\<lambda>t. emit_effect (TransferJoined t)) ts v) = releases v @ map TransferJoined ts"
  by (induction ts arbitrary: v) simp_all

lemma finish_cleanup_releases:
  assumes "\<And>d. ck_data_plane c = Some d \<Longrightarrow> \<not> dp_shutdown_requested d"
    "\<And>v. releases (fold sub_cleanup_join (ck_children c) v) = releases v @ rs"
  shows "releases (finish_cleanup c v) = releases v @ rs @ plane_release (ck_data_plane c) @
    map ScriptJoined (opt_list (ck_script c)) @ map ServiceShutdown (opt_list (ck_service c)) @
    map (\<lambda>a. Detached a (session_id (ck_identity c))) (opt_list (ck_attachment c)) @ map TransferJoined (ck_transfers c)"
proof -
  have all: "filter is_release (map f (opt_list x)) = map f (opt_list x)" if "\<And>y. is_release (f y)" for f :: "nat \<Rightarrow> session_effect" and x
    using that by (simp split: option.split)
  show ?thesis
    unfolding finish_cleanup_def join_releases join_resources_def Let_def
    by (simp add: shutdown_opt_releases [where p = "ck_data_plane c", OF assms(1)] assms(2) all)
qed

lemma close_session_effects:
  assumes h: "map_of (sessions s) k = Some h" and c: "close_session k s w = (r, s', w')"
  shows "effects w' = effects (snd (close_children (sh_children h) w))"
proof -
  obtain children w1 where cc: "close_children (sh_children h) w = (children, w1)" by fastforce
  obtain order names where ev: "evict_names (removed_order s @ [k]) (AList.update k (sh_name h) (session_names s)) = (order, names)"
    by fastforce
  obtain script w4 where ts: "take_script (sh_script h)
      (raise_world (opt_list (sh_stats_flag h)) (w1\<lparr>flags := cancel_for_shutdown (sh_scheduler h) (flags w1)\<rparr>)) = (script, w4)" by fastforce
  show ?thesis using c h cc ev ts take_script_simps [OF ts] by (auto simp: close_session_def Let_def)
qed

lemma drop_nothing: "gave_up h \<Longrightarrow> releases (drop_handle h w) = releases w"
  by (simp add: gave_up_def drop_handle_def Let_def)

text \<open>
  C11. Closing a session, in any history, releases nothing while the store is locked, but
  raises the cancellation of its transfers and its statistics; the cleanup it returns, run later in whatever state, releases exactly the
  resources the session owned, each once and in order, its children's first. The handle that stays behind owns nothing, and
  dropping it releases nothing again.
\<close>

theorem closing_releases_everything_once:
  assumes "store_reach (s, w)" "map_of (sessions s) k = Some h" "close_session k s w = (r, s', w')"
  shows "\<exists>cleanup closed. r = Ok cleanup \<and> releases (finish_cleanup cleanup v) = releases v @ resources h \<and> effects w' = effects w \<and>
    (\<forall>f\<in>set (transfer_tokens (sh_scheduler h)) \<union> set (opt_list (sh_stats_flag h)). raised (flags w') f) \<and>
    map_of (sessions s') k = Some closed \<and> resources closed = [] \<and> releases (drop_handle closed v) = releases v"
proof -
  note hok = store_ok_get [OF store_reach_ok [OF assms(1), simplified] assms(2)]
  from close_session_some [OF assms(2,3)] obtain cleanup closed children where c: "r = Ok cleanup"
    "map_of (sessions s') = (map_of (sessions s))(k \<mapsto> closed)" "gave_up closed"
    "close_children (sh_children h) w = (children, snd (close_children (sh_children h) w))"
    "cleanup = \<lparr>ck_identity = \<lparr>session_id = k, runtime_id = sh_runtime_id h\<rparr>, ck_children = children,
       ck_data_plane = sh_data_plane h, ck_script = map_option script_worker (sh_script h), ck_transfers = sh_transfer_tasks h,
       ck_service = sh_service h, ck_attachment = sh_attachment h, ck_teardown_delay = sh_teardown_delay h\<rparr>"
    "\<forall>f\<in>set (transfer_tokens (sh_scheduler h)) \<union> set (opt_list (sh_stats_flag h)). raised (flags w') f" by metis
  have kids: "effects (snd (close_children (sh_children h) w)) = effects w \<and>
      releases (fold sub_cleanup_join children v) = releases v @ concat (map child_resources (sh_children h))" for v
    by (rule close_children_releases [OF c(4)]) (use hok in \<open>auto simp: session_ok_def barrier_def\<close>)
  have "releases (finish_cleanup cleanup v) = releases v @ resources h"
    using finish_cleanup_releases [of cleanup "concat (map child_resources (sh_children h))" v] kids hok
    by (simp add: c(5) resources_def session_ok_def barrier_def script_release_def split: option.split)
  moreover have "effects w' = effects w" using close_session_effects [OF assms(2,3)] kids by simp
  moreover have "resources closed = []" using c(3) by (simp add: resources_def gave_up_def plane_release_def script_release_def)
  ultimately show ?thesis using c(1,2,6) drop_nothing [OF c(3)] by auto
qed

lemma closing_releases_everything_once_witness:
  "\<exists>cleanup. fst (close_session ''s1'' (fst demo_published) (snd demo_published)) = Ok cleanup \<and>
     releases (finish_cleanup cleanup demo_world) = [PlaneShutdown 5, ServiceShutdown 6, Detached 7 ''s1'']"
proof -
  have "resources demo_handle = [PlaneShutdown 5, ServiceShutdown 6, Detached 7 ''s1'']" "releases demo_world = []" by code_simp+
  with closing_releases_everything_once [OF demo_reach(2) demo_get demo_close, of demo_world] show ?thesis by auto
qed

section \<open>The name of a session that is closed often\<close>

text \<open>
  The queue of closed sessions counts closings: when the last 50 were of the same session, closing it once more evicts its own
  name, and an error about it reports its number.
\<close>

lemma closed_name_forgotten:
  assumes h: "map_of (sessions s) sid = Some h" and q: "removed_order s = replicate n sid" "n \<le> 50"
    and c: "close_session sid s w = (r, s', w')"
  shows "removed_order s' = replicate (min (n + 1) 50) sid \<and>
    fst (switch_active sid s') = Err (SessionNotFound (if n < 50 then sh_name h else sid))"
proof -
  let ?names = "AList.update sid (sh_name h) (session_names s)"
  have "evict_names (removed_order s @ [sid]) ?names =
      (replicate (min (n + 1) 50) sid, if n < 50 then ?names else AList.delete sid ?names)"
  proof (cases "n < 50")
    case True
    then show ?thesis
      by (cases n) (simp_all add: q(1) MAX_REMOVED_SESSION_NAMES_def replicate_append_same)
  next
    case False
    then have "removed_order s @ [sid] = sid # sid # replicate 49 sid" using q
      by (simp add: replicate_append_same numeral_eq_Suc)
    with False show ?thesis by (simp add: MAX_REMOVED_SESSION_NAMES_def numeral_eq_Suc)
  qed
  then show ?thesis using c h
    by (auto simp: close_session_def Let_def switch_active_def session_not_found_def AList.update_conv' AList.delete_conv'
        split: prod.splits)
qed

end
