(* ===== verification/SystemView_Decoder.thy ===== *)
theory SystemView_Decoder
  imports TauTerm_Prelude "HOL-Library.Sublist"
begin

text \<open>
  The decoder of SEGGER SystemView traces: the second half of \<open>plugins/rtt/systemview.rs\<close>. Bytes arrive in chunks; after a
  marker of ten zero bytes they are a sequence of packets, each an event number, fields in groups of seven bits, for some events a
  string, and a time difference. Packets from number 24 on carry their length. The number of bytes in front of a field is a cursor, as in the code.

  A string is kept as its UTF-8 bytes, after the replacement of invalid sequences that \<open>String::from_utf8_lossy\<close> makes.
\<close>

section \<open>Lossy UTF-8\<close>

definition cont_byte :: "byte \<Rightarrow> bool" where "cont_byte b = (b AND 0xC0 = 0x80)"

definition in_range :: "byte \<Rightarrow> byte \<Rightarrow> byte \<Rightarrow> bool" where "in_range lo hi b = (lo \<le> b \<and> b \<le> hi)"

text \<open>The second byte of a sequence of three or four, which excludes overlong forms, surrogates and numbers that are too large.\<close>

definition second_ok :: "byte \<Rightarrow> byte \<Rightarrow> bool" where
  "second_ok a b =
     (if a = 0xE0 then in_range 0xA0 0xBF b
      else if a = 0xED then in_range 0x80 0x9F b
      else if in_range 0xE1 0xEF a then in_range 0x80 0xBF b
      else if a = 0xF0 then in_range 0x90 0xBF b
      else if in_range 0xF1 0xF3 a then in_range 0x80 0xBF b
      else a = 0xF4 \<and> in_range 0x80 0x8F b)"

text \<open>How many bytes of the front form a character, or the longest invalid start of one.\<close>

fun utf8_step :: "byte list \<Rightarrow> bool \<times> nat" where
  "utf8_step [] = (True, 0)"
| "utf8_step (a # bs) =
     (let get = (\<lambda>i. if i < length bs then bs ! i else 0) in
      if a < 0x80 then (True, 1)
      else if in_range 0xC2 0xDF a then (if cont_byte (get 0) then (True, 2) else (False, 1))
      else if in_range 0xE0 0xEF a then
        (if \<not> second_ok a (get 0) then (False, 1) else if \<not> cont_byte (get 1) then (False, 2) else (True, 3))
      else if in_range 0xF0 0xF4 a then
        (if \<not> second_ok a (get 0) then (False, 1) else if \<not> cont_byte (get 1) then (False, 2)
         else if \<not> cont_byte (get 2) then (False, 3) else (True, 4))
      else (False, 1))"

function from_utf8_lossy :: "byte list \<Rightarrow> byte list" where
  "from_utf8_lossy bs =
     (if bs = [] then []
      else (let (valid, n) = utf8_step bs in (if valid then take n bs else [0xEF, 0xBF, 0xBD]) @ from_utf8_lossy (drop n bs)))"
  by pat_completeness auto

lemma utf8_step_pos: "bs \<noteq> [] \<Longrightarrow> 0 < snd (utf8_step bs)"
  by (cases bs) (simp_all add: Let_def)

termination from_utf8_lossy
proof (relation "measure length")
  fix bs :: "byte list" and x valid n
  assume "bs \<noteq> []" "x = utf8_step bs" "(valid, n) = x"
  then show "(drop n bs, bs) \<in> measure length" using utf8_step_pos [of bs] by (metis diff_less in_measure length_drop length_greater_0_conv snd_conv)
qed simp

declare from_utf8_lossy.simps [simp del]

lemma from_utf8_lossy_ascii: "\<forall>b\<in>set bs. b < 0x80 \<Longrightarrow> from_utf8_lossy bs = bs"
proof (induction bs)
  case (Cons b bs)
  then show ?case by (subst from_utf8_lossy.simps) simp
qed (simp add: from_utf8_lossy.simps)

section \<open>Fields\<close>

type_synonym 'a scan = "(('a \<times> nat) option, unit) result"

definition MAX_DECODER_BUFFER :: nat where "MAX_DECODER_BUFFER = 64 * 1024"

fun varint_loop :: "nat \<Rightarrow> u32 \<Rightarrow> byte list \<Rightarrow> (u32 \<times> nat) option" where
  "varint_loop i v [] = None"
| "varint_loop i v (b # bs) =
     (if i \<ge> 5 then None
      else (let v = v OR push_bit (i * 7) (ucast (b AND 0x7F)) in
            if b AND 0x80 = 0 then Some (v, i + 1) else varint_loop (i + 1) v bs))"

definition decode_varint :: "byte list \<Rightarrow> u32 scan" where
  "decode_varint data =
     (case varint_loop 0 0 data of
        Some r \<Rightarrow> Ok (Some r)
      | None \<Rightarrow> if length data < 5 then Ok None else Err ())"

definition decode_string :: "byte list \<Rightarrow> byte list scan" where
  "decode_string data =
     (case data of
        [] \<Rightarrow> Ok None
      | first # _ \<Rightarrow>
          if first = 255 \<and> length data < 3 then Ok None
          else
            (let (len, prefix) = (if first = 255 then (256 * unat (data ! 1) + unat (data ! 2), 3) else (unat first, 1));
                 end' = prefix + len in
             if length data < end' then Ok None
             else rbind (slice data prefix end') (\<lambda>bs. Ok (Some (from_utf8_lossy bs, end')))))"

text \<open>\<open>let Some((value, consumed)) = f(&data[cursor..])? else return Ok(None)\<close>, with the cursor moved on.\<close>

fun scan_then :: "'a scan \<Rightarrow> ('a \<Rightarrow> nat \<Rightarrow> 'b scan) \<Rightarrow> 'b scan" where
  "scan_then (Ok (Some (v, c))) f = f v c"
| "scan_then (Ok None) f = Ok None"
| "scan_then (Err e) f = Err e"
| "scan_then Panic f = Panic"

definition scan_at :: "(byte list \<Rightarrow> 'a scan) \<Rightarrow> byte list \<Rightarrow> nat \<Rightarrow> 'a scan" where
  "scan_at f data cursor = scan_then (rbind (slice_from data cursor) f) (\<lambda>v n. Ok (Some (v, cursor + n)))"

fun scan_fields :: "nat \<Rightarrow> u32 list \<Rightarrow> byte list \<Rightarrow> nat \<Rightarrow> u32 list scan" where
  "scan_fields 0 fs data cursor = Ok (Some (fs, cursor))"
| "scan_fields (Suc n) fs data cursor =
     scan_then (scan_at decode_varint data cursor) (\<lambda>v cursor. scan_fields n (fs @ [v]) data cursor)"

section \<open>Packets\<close>

record parsed_packet =
  pk_event :: u32
  pk_fields :: "u32 list"
  pk_text :: "byte list option"
  pk_delta :: u32
  pk_boundary :: bool

definition field_count :: "u32 \<Rightarrow> nat option" where
  "field_count e =
     (if e \<in> {0, 3, 5, 10, 11, 17, 18, 20} then Some 0
      else if e \<in> {1, 2, 4, 6, 8, 12, 15, 16, 19} then Some 1
      else if e \<in> {7, 13, 23} then Some 2
      else if e = 21 then Some 4
      else if e \<in> {9, 14, 22} then Some 0
      else None)"

text \<open>Task information and module descriptions have two more fields and a string, the system description a string.\<close>

definition scan_text :: "u32 \<Rightarrow> u32 list \<Rightarrow> byte list \<Rightarrow> nat \<Rightarrow> (u32 list \<times> byte list option) scan" where
  "scan_text e fs data cursor =
     (if e \<in> {9, 22} then
        scan_then (scan_fields 2 fs data cursor) (\<lambda>fs cursor.
        scan_then (scan_at decode_string data cursor) (\<lambda>s cursor. Ok (Some ((fs, Some s), cursor))))
      else if e = 14 then scan_then (scan_at decode_string data cursor) (\<lambda>s cursor. Ok (Some ((fs, Some s), cursor)))
      else Ok (Some ((fs, None), cursor)))"

definition decode_standard_packet :: "u32 \<Rightarrow> nat \<Rightarrow> byte list \<Rightarrow> parsed_packet scan" where
  "decode_standard_packet e event_id_len data =
     (case field_count e of
        None \<Rightarrow> Err ()
      | Some n \<Rightarrow>
          scan_then (scan_fields n [] data event_id_len) (\<lambda>fs cursor.
          scan_then (scan_text e fs data cursor) (\<lambda>(fs, text) cursor.
          scan_then (scan_at decode_varint data cursor) (\<lambda>delta cursor.
            Ok (Some (\<lparr>pk_event = e, pk_fields = fs, pk_text = text, pk_delta = delta, pk_boundary = False\<rparr>, cursor))))))"

definition take_payload_varint :: "byte list \<Rightarrow> nat \<Rightarrow> (u32 \<times> nat) option" where
  "take_payload_varint payload cursor =
     (if length payload < cursor then None
      else (case decode_varint (drop cursor payload) of Ok (Some (v, n)) \<Rightarrow> Some (v, cursor + n) | _ \<Rightarrow> None))"

fun payload_fields :: "nat \<Rightarrow> byte list \<Rightarrow> nat \<Rightarrow> u32 list \<Rightarrow> u32 list \<times> nat" where
  "payload_fields 0 payload cursor fs = (fs, cursor)"
| "payload_fields (Suc n) payload cursor fs =
     (case take_payload_varint payload cursor of
        None \<Rightarrow> (fs, cursor)
      | Some (v, c) \<Rightarrow> payload_fields n payload c (fs @ [v]))"

definition payload_text :: "byte list \<Rightarrow> nat \<Rightarrow> byte list option" where
  "payload_text payload cursor =
     (case decode_string (if cursor \<le> length payload then drop cursor payload else []) of Ok (Some (s, _)) \<Rightarrow> Some s | _ \<Rightarrow> None)"

function all_payload_fields :: "byte list \<Rightarrow> nat \<Rightarrow> u32 list \<Rightarrow> u32 list" where
  "all_payload_fields payload cursor fs =
     (if cursor < length payload \<and> length fs < 4 then
        (case take_payload_varint payload cursor of
           None \<Rightarrow> fs
         | Some (v, c) \<Rightarrow> all_payload_fields payload c (fs @ [v]))
      else fs)"
  by pat_completeness auto
termination by (relation "measure (\<lambda>(_, _, fs). 4 - length fs)") auto

declare all_payload_fields.simps [simp del]

definition decode_length_delimited_payload :: "u32 \<Rightarrow> byte list \<Rightarrow> u32 list \<times> byte list option" where
  "decode_length_delimited_payload e payload =
     (if e = 24 then (fst (payload_fields 4 payload 0 []), None)
      else if e = 25 then (let (fs, cursor) = payload_fields 1 payload 0 [] in (fs, payload_text payload cursor))
      else if e = 27 \<or> e = 29 then (fst (payload_fields 1 payload 0 []), None)
      else if e = 31 then
        (let (fs, cursor) = payload_fields 1 payload 0 [] in
         if fs \<noteq> [] \<and> hd fs = 1 then
           (let (fs, cursor) = payload_fields 1 payload cursor fs in (fs, payload_text payload cursor))
         else (fs, None))
      else (all_payload_fields payload 0 [], None))"

definition decode_packet :: "byte list \<Rightarrow> parsed_packet scan" where
  "decode_packet data =
     scan_then (decode_varint data) (\<lambda>e event_id_len.
       if e < 24 then decode_standard_packet e event_id_len data
       else scan_then (scan_at decode_varint data event_id_len) (\<lambda>payload_len payload_start.
         if unat payload_len > MAX_DECODER_BUFFER then Err ()
         else
           (let payload_end = payload_start + unat payload_len in
            if length data < payload_end then Ok None
            else scan_then (scan_at decode_varint data payload_end) (\<lambda>delta cursor.
              rbind (slice data payload_start payload_end) (\<lambda>payload.
                (let (fs, text) = decode_length_delimited_payload e payload in
                 Ok (Some (\<lparr>pk_event = e, pk_fields = fs, pk_text = text, pk_delta = delta, pk_boundary = False\<rparr>, cursor))))))))"

section \<open>The decoder\<close>

definition zeros10 :: "byte list \<Rightarrow> bool" where
  "zeros10 data = (10 \<le> length data \<and> list_all (\<lambda>b. b = 0) (take 10 data))"

fun find_sync_marker :: "byte list \<Rightarrow> nat option" where
  "find_sync_marker [] = None"
| "find_sync_marker (b # bs) = (if zeros10 (b # bs) then Some 0 else map_option Suc (find_sync_marker bs))"

record systemview_decoder =
  sv_buffer :: "byte list"
  sv_synchronized :: bool
  sv_mark :: bool

definition default_decoder :: systemview_decoder where
  "default_decoder = \<lparr>sv_buffer = [], sv_synchronized = False, sv_mark = False\<rparr>"

definition reset_after_gap :: "systemview_decoder \<Rightarrow> systemview_decoder" where
  "reset_after_gap d = d\<lparr>sv_buffer := [], sv_synchronized := False, sv_mark := False\<rparr>"

definition sat64 :: "nat \<Rightarrow> nat" where "sat64 n = min n (2 ^ 64 - 1)"

definition trailing_zeros :: "byte list \<Rightarrow> nat" where
  "trailing_zeros bs = length (takeWhile (\<lambda>b. b = 0) (rev bs))"

text \<open>A packet takes at least one byte.\<close>

lemma varint_loop_bounds: "varint_loop i v bs = Some (u, n) \<Longrightarrow> i < n \<and> n \<le> i + length bs \<and> n \<le> 5"
  by (induction i v bs arbitrary: u n rule: varint_loop.induct) (auto simp: Let_def split: if_splits, fastforce+)

text \<open>
  What a scanner owes: it stays within the data, more data does not change a packet that was complete or invalid, and
  it never slices out of range.
\<close>

definition scans :: "(byte list \<Rightarrow> nat \<Rightarrow> 'a scan) \<Rightarrow> bool" where
  "scans p \<longleftrightarrow> (\<forall>data c. c \<le> length data \<longrightarrow>
     (\<forall>v c' ys. p data c = Ok (Some (v, c')) \<longrightarrow> c \<le> c' \<and> c' \<le> length data \<and> p (data @ ys) c = Ok (Some (v, c'))) \<and>
     (\<forall>ys. p data c = Err () \<longrightarrow> p (data @ ys) c = Err ()) \<and> p data c \<noteq> Panic)"

lemma scansI:
  assumes "\<And>data c v c' ys. c \<le> length data \<Longrightarrow> p data c = Ok (Some (v, c')) \<Longrightarrow>
      c \<le> c' \<and> c' \<le> length data \<and> p (data @ ys) c = Ok (Some (v, c'))"
    "\<And>data c ys. c \<le> length data \<Longrightarrow> p data c = Err () \<Longrightarrow> p (data @ ys) c = Err ()"
    "\<And>data c. c \<le> length data \<Longrightarrow> p data c \<noteq> Panic"
  shows "scans p"
  unfolding scans_def using assms by blast

lemma scansD:
  assumes "scans p" "c \<le> length data"
  shows "p data c = Ok (Some (v, c')) \<Longrightarrow> c \<le> c' \<and> c' \<le> length data \<and> p (data @ ys) c = Ok (Some (v, c'))"
    "p data c = Err () \<Longrightarrow> p (data @ ys) c = Err ()" "p data c \<noteq> Panic"
  using assms unfolding scans_def by blast+

lemma scan_cases:
  fixes r :: "'a scan"
  obtains (found) v n where "r = Ok (Some (v, n))" | (more) "r = Ok None" | (bad) "r = Err ()" | (panic) "r = Panic"
  by (cases r) (auto, metis option.exhaust surj_pair)

lemma scan_then_eq [result_simps]:
  "scan_then r f = Ok (Some x) \<longleftrightarrow> (\<exists>v n. r = Ok (Some (v, n)) \<and> f v n = Ok (Some x))"
  "scan_then r f = Err () \<longleftrightarrow> r = Err () \<or> (\<exists>v n. r = Ok (Some (v, n)) \<and> f v n = Err ())"
  "scan_then r f = Panic \<longleftrightarrow> r = Panic \<or> (\<exists>v n. r = Ok (Some (v, n)) \<and> f v n = Panic)"
  by (cases r rule: scan_cases; simp)+

lemma scans_return: "scans (\<lambda>data c. Ok (Some (v, c)))"
  by (rule scansI) auto

lemma scans_bind:
  assumes p: "scans p" and q: "\<And>v. scans (q v)"
  shows "scans (\<lambda>data c. scan_then (p data c) (\<lambda>v c. q v data c))"
proof (rule scansI)
  fix data :: "byte list" and c v c' ys assume c: "c \<le> length data"
  {
    assume "scan_then (p data c) (\<lambda>v c. q v data c) = Ok (Some (v, c'))"
    then obtain u k where u: "p data c = Ok (Some (u, k))" "q u data k = Ok (Some (v, c'))" by (auto simp: result_simps)
    with scansD(1) [OF p c u(1), of ys] scansD(1) [OF q _ u(2), of ys]
    show "c \<le> c' \<and> c' \<le> length data \<and> scan_then (p (data @ ys) c) (\<lambda>v c. q v (data @ ys) c) = Ok (Some (v, c'))" by simp
  next
    assume "scan_then (p data c) (\<lambda>v c. q v data c) = Err ()"
    then show "scan_then (p (data @ ys) c) (\<lambda>v c. q v (data @ ys) c) = Err ()"
    proof (cases "p data c" rule: scan_cases)
      case (found u k)
      with \<open>scan_then (p data c) (\<lambda>v c. q v data c) = Err ()\<close> scansD(1) [OF p c found, of ys] scansD(2) [OF q, of k data u ys]
      show ?thesis by simp
    qed (use scansD(2) [OF p c] in simp_all)
  next
    show "scan_then (p data c) (\<lambda>v c. q v data c) \<noteq> Panic"
    proof (cases "p data c" rule: scan_cases)
      case (found u k)
      with scansD(1) [OF p c found] scansD(3) [OF q, of k data u] show ?thesis by simp
    qed (use scansD(3) [OF p c] in simp_all)
  }
qed

lemma varint_loop_append: "varint_loop i v bs = Some r \<Longrightarrow> varint_loop i v (bs @ ys) = Some r"
  by (induction i v bs rule: varint_loop.induct) (auto simp: Let_def split: if_splits)

lemma varint_loop_end: "5 \<le> i \<Longrightarrow> varint_loop i v bs = None"
  by (cases bs) simp_all

lemma varint_loop_None: "varint_loop i v bs = None \<Longrightarrow> 5 \<le> i + length bs \<Longrightarrow> varint_loop i v (bs @ ys) = None"
  by (induction i v bs rule: varint_loop.induct) (auto simp: Let_def varint_loop_end split: if_splits)

lemma scan_at_eq: "c \<le> length data \<Longrightarrow> scan_at f data c = scan_then (f (drop c data)) (\<lambda>v n. Ok (Some (v, c + n)))"
  by (simp add: scan_at_def)

lemma scans_at:
  assumes "\<And>xs v n ys. f xs = Ok (Some (v, n)) \<Longrightarrow> n \<le> length xs \<and> f (xs @ ys) = Ok (Some (v, n))"
    "\<And>xs ys. f xs = Err () \<Longrightarrow> f (xs @ ys) = Err ()" "\<And>xs. f xs \<noteq> Panic"
  shows "scans (scan_at f)"
proof (rule scansI)
  fix data :: "byte list" and c v c' ys assume c: "c \<le> length data"
  have eq: "scan_at f (data @ ys) c = scan_then (f (drop c data @ ys)) (\<lambda>v n. Ok (Some (v, c + n)))" using c by (simp add: scan_at_eq)
  show "scan_at f data c = Ok (Some (v, c')) \<Longrightarrow> c \<le> c' \<and> c' \<le> length data \<and> scan_at f (data @ ys) c = Ok (Some (v, c'))"
    unfolding eq using c assms(1) [of "drop c data" _ _ ys] by (fastforce simp: scan_at_eq result_simps)
  show "scan_at f data c = Err () \<Longrightarrow> scan_at f (data @ ys) c = Err ()"
    unfolding eq using c assms(2) by (auto simp: scan_at_eq result_simps)
  show "scan_at f data c \<noteq> Panic" using c assms(3) by (auto simp: scan_at_eq result_simps)
qed

lemma scans_varint: "scans (scan_at decode_varint)"
proof (rule scans_at)
  fix xs v n ys
  show "decode_varint xs = Ok (Some (v, n)) \<Longrightarrow> n \<le> length xs \<and> decode_varint (xs @ ys) = Ok (Some (v, n))"
    by (auto simp: decode_varint_def varint_loop_append split: option.splits if_splits dest: varint_loop_bounds)
  show "decode_varint xs = Err () \<Longrightarrow> decode_varint (xs @ ys) = Err ()"
    by (auto simp: decode_varint_def varint_loop_None split: option.splits if_splits)
  show "decode_varint xs \<noteq> Panic" by (auto simp: decode_varint_def split: option.splits)
qed

lemma scans_string: "scans (scan_at decode_string)"
proof (rule scans_at)
  fix xs v n ys
  show "decode_string xs = Ok (Some (v, n)) \<Longrightarrow> n \<le> length xs \<and> decode_string (xs @ ys) = Ok (Some (v, n))"
    by (cases xs) (auto simp: decode_string_def Let_def slice_def nth_append split: if_splits)
  show "decode_string xs = Err () \<Longrightarrow> decode_string (xs @ ys) = Err ()" "decode_string xs \<noteq> Panic"
    by (cases xs; auto simp: decode_string_def Let_def slice_def split: if_splits)+
qed

lemma scans_fields: "scans (scan_fields n fs)"
proof (induction n arbitrary: fs)
  case (Suc n)
  have "scan_fields (Suc n) fs =
      (\<lambda>data c. scan_then (scan_at decode_varint data c) (\<lambda>v c. scan_fields n (fs @ [v]) data c))" by (rule ext)+ simp
  then show ?case using scans_bind [OF scans_varint Suc] by simp
next
  case 0
  have "scan_fields 0 fs = (\<lambda>data c. Ok (Some (fs, c)))" by (rule ext)+ simp
  then show ?case by (simp add: scans_return)
qed

lemma scans_text: "scans (scan_text e fs)"
proof -
  have s: "scans (\<lambda>data c. scan_then (scan_at decode_string data c) (\<lambda>s c. Ok (Some ((fs, Some s), c))))" for fs :: "u32 list"
    by (rule scans_bind [OF scans_string scans_return])
  consider "e \<in> {9, 22}" | "e \<notin> {9, 22}" "e = 14" | "e \<notin> {9, 22}" "e \<noteq> 14" by blast
  then show ?thesis
  proof cases
    case 1
    then have "scan_text e fs = (\<lambda>data c. scan_then (scan_fields 2 fs data c) (\<lambda>fs c.
        scan_then (scan_at decode_string data c) (\<lambda>s c. Ok (Some ((fs, Some s), c)))))" by (intro ext) (simp add: scan_text_def)
    then show ?thesis using scans_bind [OF scans_fields s] by simp
  next
    case 2
    then have "scan_text e fs = (\<lambda>data c. scan_then (scan_at decode_string data c) (\<lambda>s c. Ok (Some ((fs, Some s), c))))"
      by (intro ext) (simp add: scan_text_def)
    then show ?thesis using s by simp
  next
    case 3
    then have "scan_text e fs = (\<lambda>data c. Ok (Some ((fs, None), c)))" by (intro ext) (simp add: scan_text_def)
    then show ?thesis by (simp add: scans_return)
  qed
qed

lemma scans_standard: "scans (\<lambda>data c. decode_standard_packet e c data)"
proof (cases "field_count e")
  case None
  then have "(\<lambda>data c. decode_standard_packet e c data) = (\<lambda>_ _. Err ())" by (intro ext) (simp add: decode_standard_packet_def)
  then show ?thesis by (simp add: scans_def)
next
  case (Some n)
  let ?last = "\<lambda>(fs, text) data c. scan_then (scan_at decode_varint data c) (\<lambda>delta c.
      Ok (Some (\<lparr>pk_event = e, pk_fields = fs, pk_text = text, pk_delta = delta, pk_boundary = False\<rparr>, c)))"
  have last: "scans (?last x)" for x
    by (cases x) (use scans_bind [OF scans_varint scans_return] in simp)
  have "(\<lambda>data c. decode_standard_packet e c data) = (\<lambda>data c. scan_then (scan_fields n [] data c) (\<lambda>fs c.
      scan_then (scan_text e fs data c) (\<lambda>x c. ?last x data c)))"
    using Some by (intro ext) (simp add: decode_standard_packet_def case_prod_unfold)
  then show ?thesis using scans_bind [OF scans_fields scans_bind [OF scans_text last]] by simp
qed

lemma scans_payload: "scans (\<lambda>data c. scan_then (scan_at decode_varint data c) (\<lambda>payload_len payload_start.
    if unat payload_len > MAX_DECODER_BUFFER then Err ()
    else (let payload_end = payload_start + unat payload_len in
          if length data < payload_end then Ok None
          else scan_then (scan_at decode_varint data payload_end) (\<lambda>delta cursor.
            rbind (slice data payload_start payload_end) (\<lambda>payload.
              (let (fs, text) = decode_length_delimited_payload e payload in
               Ok (Some (\<lparr>pk_event = e, pk_fields = fs, pk_text = text, pk_delta = delta, pk_boundary = False\<rparr>, cursor))))))))"
    (is "scans (\<lambda>data c. scan_then _ (\<lambda>v k. ?q v data k))")
proof (rule scans_bind [OF scans_varint])
  fix v
  show "scans (\<lambda>data k. ?q v data k)"
  proof (cases "unat v > MAX_DECODER_BUFFER")
    case True
    then show ?thesis by (simp add: scans_def)
  next
    case False
    show ?thesis
    proof (rule scansI)
      fix data :: "byte list" and c r c' ys assume c: "c \<le> length data"
      let ?e = "c + unat v"
      {
        assume a: "?q v data c = Ok (Some (r, c'))"
        then have e: "?e \<le> length data" using False by (auto simp: Let_def split: if_splits)
        with a False obtain delta k where d: "scan_at decode_varint data ?e = Ok (Some (delta, k))" by (auto simp: Let_def result_simps)
        from scansD(1) [OF scans_varint e d, of ys] a d e False c
        show "c \<le> c' \<and> c' \<le> length data \<and> ?q v (data @ ys) c = Ok (Some (r, c'))"
          by (auto simp: Let_def split_beta)
      next
        assume a: "?q v data c = Err ()"
        then have e: "?e \<le> length data" using False by (auto simp: Let_def split: if_splits)
        with a False have "scan_at decode_varint data ?e = Err ()"
          by (cases "scan_at decode_varint data ?e" rule: scan_cases) (auto simp: Let_def split_beta)
        from scansD(2) [OF scans_varint e this, of ys] a e False
        show "?q v (data @ ys) c = Err ()" by (simp add: Let_def)
      next
        show "?q v data c \<noteq> Panic"
        proof (cases "?e \<le> length data")
          case True
          then show ?thesis using False scansD(3) [OF scans_varint True]
            by (cases "scan_at decode_varint data ?e" rule: scan_cases) (auto simp: Let_def split_beta)
        qed (use False in \<open>simp add: Let_def\<close>)
      }
    qed
  qed
qed

definition packet_body :: "u32 \<Rightarrow> byte list \<Rightarrow> nat \<Rightarrow> parsed_packet scan" where
  "packet_body e data c =
     (if e < 24 then decode_standard_packet e c data
      else scan_then (scan_at decode_varint data c) (\<lambda>payload_len payload_start.
         if unat payload_len > MAX_DECODER_BUFFER then Err ()
         else
           (let payload_end = payload_start + unat payload_len in
            if length data < payload_end then Ok None
            else scan_then (scan_at decode_varint data payload_end) (\<lambda>delta cursor.
              rbind (slice data payload_start payload_end) (\<lambda>payload.
                (let (fs, text) = decode_length_delimited_payload e payload in
                 Ok (Some (\<lparr>pk_event = e, pk_fields = fs, pk_text = text, pk_delta = delta, pk_boundary = False\<rparr>, cursor))))))))"

lemma decode_packet_eq: "decode_packet data = scan_then (scan_at decode_varint data 0) (\<lambda>e c. packet_body e data c)"
  by (cases "decode_varint data" rule: scan_cases) (simp_all add: decode_packet_def packet_body_def scan_at_def)

lemma scans_body: "scans (packet_body e)"
proof (cases "e < 24")
  case True
  then have "packet_body e = (\<lambda>data c. decode_standard_packet e c data)" by (intro ext) (simp add: packet_body_def)
  then show ?thesis using scans_standard by simp
next
  case False
  show ?thesis using scans_payload [of e] False by (simp add: packet_body_def [abs_def])
qed

text \<open>The packet decoder: it consumes, stays within the data, needs no more than the packet, and never slices out of range.\<close>

lemma decode_packet_scan:
  "decode_packet data = Ok (Some (p, n)) \<Longrightarrow> 0 < n \<and> n \<le> length data \<and> decode_packet (data @ ys) = Ok (Some (p, n))"
  "decode_packet data = Err () \<Longrightarrow> decode_packet (data @ ys) = Err ()" "decode_packet data \<noteq> Panic"
proof -
  have s: "scans (\<lambda>data c. scan_then (scan_at decode_varint data c) (\<lambda>e c. packet_body e data c))"
    by (rule scans_bind [OF scans_varint scans_body])
  note eq = decode_packet_eq [symmetric]
  show "decode_packet data = Err () \<Longrightarrow> decode_packet (data @ ys) = Err ()" "decode_packet data \<noteq> Panic"
    using scansD(2,3) [OF s, of 0] by (simp_all add: eq)
  assume d: "decode_packet data = Ok (Some (p, n))"
  then obtain e c where e: "scan_at decode_varint data 0 = Ok (Some (e, c))" "packet_body e data c = Ok (Some (p, n))"
    by (auto simp: decode_packet_eq result_simps)
  have "0 < c" using e(1) by (auto simp: scan_at_def decode_varint_def result_simps split: option.splits if_splits dest: varint_loop_bounds)
  moreover have "c \<le> n" using scansD(1) [OF scans_body _ e(2)] scansD(1) [OF scans_varint _ e(1)] by simp
  ultimately show "0 < n \<and> n \<le> length data \<and> decode_packet (data @ ys) = Ok (Some (p, n))"
    using scansD(1) [OF s, of 0 data p n ys] d by (simp add: eq)
qed

text \<open>The loop over the buffer. An index outside of it would panic; \<open>push_total\<close> shows that there is none.\<close>

lemma find_sync_marker_bound: "find_sync_marker bs = Some k \<Longrightarrow> k + 10 \<le> length bs"
  by (induction bs arbitrary: k) (auto simp: zeros10_def split: if_splits)

function push_loop ::
  "systemview_decoder \<Rightarrow> parsed_packet list \<Rightarrow> nat \<Rightarrow> (parsed_packet list \<times> nat \<times> systemview_decoder, unit) result" where
  "push_loop d packets errors =
     (let buffer = sv_buffer d in
      if buffer = [] then Ok (packets, errors, d)
      else if \<not> sv_synchronized d then
        (case find_sync_marker buffer of
           Some off \<Rightarrow> push_loop (d\<lparr>sv_buffer := drop (off + 10) buffer, sv_synchronized := True, sv_mark := True\<rparr>) packets errors
         | None \<Rightarrow>
             (let discard = length buffer - min (trailing_zeros buffer) 9 in
              Ok (packets, errors, d\<lparr>sv_buffer := drop discard buffer\<rparr>)))
      else if zeros10 buffer then push_loop (d\<lparr>sv_buffer := drop 10 buffer, sv_mark := True\<rparr>) packets errors
      else
        (case decode_packet buffer of
           Ok (Some (p, consumed)) \<Rightarrow>
             push_loop (d\<lparr>sv_buffer := drop consumed buffer, sv_mark := False\<rparr>) (packets @ [p\<lparr>pk_boundary := sv_mark d\<rparr>]) errors
         | Ok None \<Rightarrow> Ok (packets, errors, d)
         | Err _ \<Rightarrow> push_loop (d\<lparr>sv_buffer := tl buffer\<rparr>) packets (sat64 (errors + 1))
         | Panic \<Rightarrow> Panic))"
  by pat_completeness auto

termination
proof (relation "measure (\<lambda>(d, _, _). length (sv_buffer d))", goal_cases)
  case (2 d packets errors x y)
  then show ?case using find_sync_marker_bound by fastforce
next
  case (4 d packets errors x z z' a b)
  then show ?case using decode_packet_scan(1) by fastforce
qed (auto simp: zeros10_def)

declare push_loop.simps [simp del]

definition decoder_push :: "byte list \<Rightarrow> systemview_decoder \<Rightarrow> (parsed_packet list \<times> nat \<times> systemview_decoder, unit) result" where
  "decoder_push bytes d =
     rbind (push_loop (d\<lparr>sv_buffer := sv_buffer d @ bytes\<rparr>) [] 0) (\<lambda>(packets, errors, d).
       if length (sv_buffer d) > MAX_DECODER_BUFFER then Ok (packets, sat64 (errors + 1), d\<lparr>sv_buffer := []\<rparr>)
       else Ok (packets, errors, d))"

definition event_kind :: "u32 \<Rightarrow> string" where
  "event_kind e =
     (if e = 0 then ''nop'' else if e = 1 then ''overflow'' else if e = 2 then ''isr_enter'' else if e = 3 then ''isr_exit''
      else if e = 4 then ''task_start_exec'' else if e = 5 then ''task_stop_exec'' else if e = 6 then ''task_start_ready''
      else if e = 7 then ''task_stop_ready'' else if e = 8 then ''task_create'' else if e = 9 then ''task_info''
      else if e = 10 then ''trace_start'' else if e = 11 then ''trace_stop'' else if e = 12 then ''systime_cycles''
      else if e = 13 then ''systime_us'' else if e = 14 then ''system_description'' else if e = 15 then ''marker_start''
      else if e = 16 then ''marker_stop'' else if e = 17 then ''idle'' else if e = 18 then ''isr_to_scheduler''
      else if e = 19 then ''timer_enter'' else if e = 20 then ''timer_exit'' else if e = 21 then ''stack_info''
      else if e = 22 then ''module_description'' else if e = 23 then ''data_sample'' else if e = 24 then ''init''
      else if e = 25 then ''resource_name'' else if e = 26 then ''formatted_print'' else if e = 27 then ''module_count''
      else if e = 28 then ''end_call'' else if e = 29 then ''task_terminate'' else if e = 31 then ''extended'' else ''user_event'')"



end
