(* ===== verification/SystemView_Stream.thy ===== *)
theory SystemView_Stream
  imports SystemView_Decoder
begin

text \<open>
  What the SystemView decoder makes of a byte stream, however it is cut into chunks. The target's side, which the
  repository has in its tests only, is the reference: packets of standard and of delimited form with their bytes.
\<close>

section \<open>The target's encoding\<close>

lemma unat_drop7: "unat (drop_bit 7 v) = unat (v :: u32) div 128"
  by (simp add: unat_drop_bit_eq drop_bit_eq_div del: drop_bit_numeral_bit0 flip: drop_bit_eq_div) (simp add: drop_bit_eq_div)

lemma drop7_less: "drop_bit 7 v \<noteq> 0 \<Longrightarrow> unat (drop_bit 7 v) < unat (v :: u32)"
proof -
  assume "drop_bit 7 v \<noteq> 0"
  then have "v \<noteq> 0" by (metis drop_bit_of_0)
  then have "0 < unat v" by (simp add: unat_gt_0)
  then show ?thesis unfolding unat_drop7 by simp
qed

function encode_varint :: "u32 \<Rightarrow> byte list" where
  "encode_varint v =
     (let b = ucast (v AND 0x7F); v' = drop_bit 7 v in if v' \<noteq> 0 then (b OR 0x80) # encode_varint v' else [b])"
  by pat_completeness auto
termination by (relation "measure unat") (use drop7_less in auto)

declare encode_varint.simps [simp del]

definition encode_string :: "byte list \<Rightarrow> byte list" where
  "encode_string s =
     (if length s < 255 then word_of_nat (length s) # s
      else [255, word_of_nat (length s div 256), word_of_nat (length s mod 256)] @ s)"

datatype wire_packet =
    Standard u32 "u32 list" "byte list option" u32
  | Delimited u32 "byte list" u32

fun wire :: "wire_packet \<Rightarrow> byte list" where
  "wire (Standard e fs t d) =
     encode_varint e @ concat (map encode_varint fs) @ (case t of None \<Rightarrow> [] | Some s \<Rightarrow> encode_string s) @ encode_varint d"
| "wire (Delimited e payload d) = encode_varint e @ encode_varint (word_of_nat (length payload)) @ payload @ encode_varint d"

fun decoded :: "wire_packet \<Rightarrow> parsed_packet" where
  "decoded (Standard e fs t d) = \<lparr>pk_event = e, pk_fields = fs, pk_text = t, pk_delta = d, pk_boundary = False\<rparr>"
| "decoded (Delimited e payload d) =
     \<lparr>pk_event = e, pk_fields = fst (decode_length_delimited_payload e payload),
      pk_text = snd (decode_length_delimited_payload e payload), pk_delta = d, pk_boundary = False\<rparr>"

text \<open>Known events other than \<open>nop\<close>, with their fields, valid UTF-8, and a size that fits the decoder's buffer.\<close>

definition shape_ok :: "u32 \<Rightarrow> u32 list \<Rightarrow> byte list option \<Rightarrow> bool" where
  "shape_ok e fs t \<longleftrightarrow>
     (if e \<in> {9, 22} then length fs = 2 \<and> t \<noteq> None
      else if e = 14 then fs = [] \<and> t \<noteq> None
      else field_count e = Some (length fs) \<and> t = None)"

fun wire_ok :: "wire_packet \<Rightarrow> bool" where
  "wire_ok (Standard e fs t d) \<longleftrightarrow> e \<noteq> 0 \<and> e < 24 \<and> shape_ok e fs t \<and>
     (case t of None \<Rightarrow> True | Some s \<Rightarrow> from_utf8_lossy s = s \<and> length s < 65536) \<and>
     length (wire (Standard e fs t d)) \<le> MAX_DECODER_BUFFER"
| "wire_ok (Delimited e payload d) \<longleftrightarrow> 24 \<le> e \<and> length (wire (Delimited e payload d)) \<le> MAX_DECODER_BUFFER"

section \<open>One packet\<close>

lemma low7: "ucast (ucast (v AND 0x7F :: u32) AND 0x7F :: byte) = (v AND 0x7F :: u32)"
  "ucast ((ucast (v AND 0x7F) OR 0x80) AND 0x7F :: byte) = (v AND 0x7F :: u32)"
  "ucast (v AND 0x7F :: u32) AND (0x80 :: byte) = 0" "(ucast (v AND 0x7F :: u32) OR 0x80) AND (0x80 :: byte) \<noteq> 0"
proof -
  have m: "(0x7F :: 'a::len word) = mask 7" by (simp add: mask_eq_exp_minus_1)
  have "(0x80 :: byte) = push_bit 7 1" by simp
  then have b: "bit (0x80 :: byte) k \<longleftrightarrow> k = 7" for k by (simp only: bit_push_bit_iff) (auto simp: bit_1_iff)
  have "(0x80 :: int) = push_bit 7 1" by simp
  then have b32: "bit (0x80 :: int) k \<longleftrightarrow> k = 7" for k by (simp only: bit_push_bit_iff) (auto simp: bit_1_iff)
  show "ucast (ucast (v AND 0x7F :: u32) AND 0x7F :: byte) = (v AND 0x7F :: u32)"
    "ucast ((ucast (v AND 0x7F) OR 0x80) AND 0x7F :: byte) = (v AND 0x7F :: u32)"
    unfolding m by (rule bit_word_eqI; auto simp: bit_simps b b32)+
  show "ucast (v AND 0x7F :: u32) AND (0x80 :: byte) = 0"
    unfolding m by (rule bit_word_eqI; auto simp: bit_simps b b32)
  have "bit ((ucast (v AND 0x7F :: u32) OR 0x80) AND (0x80 :: byte)) 7" unfolding m by (simp add: bit_simps b)
  then show "(ucast (v AND 0x7F :: u32) OR 0x80) AND (0x80 :: byte) \<noteq> 0" by (metis bit_0_eq bot_apply bot_bool_def)
qed

lemma split7: "push_bit n (v AND 0x7F) OR push_bit (n + 7) (drop_bit 7 v) = push_bit n (v :: u32)"
proof -
  have m: "(0x7F :: u32) = mask 7" by (simp add: mask_eq_exp_minus_1)
  show ?thesis unfolding m
  proof (rule bit_word_eqI)
    fix k show "bit (push_bit n (v AND mask 7) OR push_bit (n + 7) (drop_bit 7 v)) k = bit (push_bit n v) k"
      by (cases "n + 7 \<le> k") (auto simp: bit_simps)
  qed
qed

lemma varint_loop_encode:
  "i < 5 \<Longrightarrow> unat w < 2 ^ (7 * (5 - i)) \<Longrightarrow>
   varint_loop i v (encode_varint w @ rest) = Some (v OR push_bit (i * 7) w, i + length (encode_varint w))"
proof (induction w arbitrary: i v rule: encode_varint.induct)
  case (1 w)
  show ?case
  proof (cases "drop_bit 7 w = 0")
    case True
    then have "push_bit (i * 7) (w AND 0x7F) = push_bit (i * 7) w" using split7 [of "i * 7" w] by simp
    then show ?thesis using True 1 by (subst (1 2) encode_varint.simps) (simp add: low7 Let_def)
  next
    case False
    note d = unat_drop7 [of w]
    have pos: "0 < unat w div 128" using False d by (metis unat_gt_0)
    then have "128 \<le> unat w" by (simp add: div_greater_zero_iff)
    then have i: "i + 1 < 5" using "1.prems" by (cases "i = 4") auto
    have "5 - i = Suc (5 - (i + 1))" using i by simp
    then have "(2 :: nat) ^ (7 * (5 - i)) = 128 * 2 ^ (7 * (5 - (i + 1)))" by (simp add: power_add)
    then have "unat (drop_bit 7 w) < 2 ^ (7 * (5 - (i + 1)))" using "1.prems"(2) unfolding d by (simp add: less_mult_imp_div_less mult.commute)
    from "1.IH" [OF refl refl False i this]
    have "varint_loop (i + 1) (v OR push_bit (i * 7) (w AND 0x7F)) (encode_varint (drop_bit 7 w) @ rest) =
        Some ((v OR push_bit (i * 7) (w AND 0x7F)) OR push_bit ((i + 1) * 7) (drop_bit 7 w), i + 1 + length (encode_varint (drop_bit 7 w)))" .
    moreover have "(v OR push_bit (i * 7) (w AND 0x7F)) OR push_bit ((i + 1) * 7) (drop_bit 7 w) = v OR push_bit (i * 7) w"
      using split7 [of "i * 7" w] by (simp add: or.assoc add.commute)
    ultimately show ?thesis using False i by (subst (1 2) encode_varint.simps) (simp add: low7 Let_def)
  qed
qed

lemma decode_varint_encode: "decode_varint (encode_varint w @ rest) = Ok (Some (w, length (encode_varint w)))"
proof -
  have "unat w < 4294967296" using unsigned_less [of w] by simp
  then have "unat w < 2 ^ (7 * (5 - 0))" by simp
  from varint_loop_encode [OF _ this, of 0 rest] show ?thesis by (simp add: decode_varint_def)
qed

lemma encode_varint_head: "\<exists>b bs. encode_varint v = b # bs \<and> (v \<noteq> 0 \<longrightarrow> b \<noteq> 0)"
proof (cases "drop_bit 7 v = 0")
  case True
  then have v: "v AND 0x7F = v" using split7 [of 0 v] by simp
  have "ucast v \<noteq> (0 :: byte)" if "v \<noteq> 0"
  proof
    assume "ucast v = (0 :: byte)"
    then have "v AND 0x7F = 0" using low7(1) [of v] v by simp
    then show False using v that by simp
  qed
  then show ?thesis using True v by (subst encode_varint.simps) (simp add: Let_def)
next
  case False
  have "ucast (v AND 0x7F) OR 0x80 \<noteq> (0 :: byte)" using low7(4) [of v] by (metis and_zero_eq zero_and_eq)
  then show ?thesis using False by (subst encode_varint.simps) (simp add: Let_def)
qed

lemma scan_varint_at:
  "scan_at decode_varint (pre @ encode_varint v @ rest) (length pre) = Ok (Some (v, length (pre @ encode_varint v)))"
  by (simp add: scan_at_def decode_varint_encode)

lemma scan_fields_at:
  "scan_fields (length fs) acc (pre @ concat (map encode_varint fs) @ rest) (length pre) =
   Ok (Some (acc @ fs, length (pre @ concat (map encode_varint fs))))"
proof (induction fs arbitrary: acc pre)
  case (Cons f fs)
  from Cons.IH [of "acc @ [f]" "pre @ encode_varint f"] show ?case
    using scan_varint_at [of pre f "concat (map encode_varint fs) @ rest"] by simp
qed simp

lemma unat_255_byte: "unat (255 :: byte) = 255"
  by simp

lemma scan_string_at:
  assumes "from_utf8_lossy s = s" "length s < 65536"
  shows "scan_at decode_string (pre @ encode_string s @ rest) (length pre) = Ok (Some (s, length (pre @ encode_string s)))"
proof (cases "length s < 255")
  case True
  then have n: "unat (word_of_nat (length s) :: byte) = length s" by (simp add: unat_of_nat)
  then have "word_of_nat (length s) \<noteq> (255 :: byte)" using True by (metis less_irrefl unat_255_byte)
  with n assms(1) show ?thesis
    using True by (simp add: scan_at_def decode_string_def encode_string_def slice_def)
next
  case False
  have "length s div 256 < 256" using assms(2) by (simp add: less_mult_imp_div_less)
  then have n: "unat (word_of_nat (length s div 256) :: byte) = length s div 256" "unat (word_of_nat (length s mod 256) :: byte) = length s mod 256"
    by (simp_all add: unat_of_nat)
  have "256 * (length s div 256) + length s mod 256 = length s" by simp
  with n assms(1) show ?thesis
    using False by (simp add: scan_at_def decode_string_def encode_string_def slice_def)
qed

lemma decode_standard_shape:
  assumes e: "e < 24" and ok: "shape_ok e fs t" "\<And>s. t = Some s \<Longrightarrow> from_utf8_lossy s = s \<and> length s < 65536"
  shows "decode_packet (wire (Standard e fs t d) @ rest) = Ok (Some (decoded (Standard e fs t d), length (wire (Standard e fs t d))))"
proof -
  let ?fs = "concat (map encode_varint fs)" and ?t = "case t of None \<Rightarrow> [] | Some s \<Rightarrow> encode_string s"
  let ?e = "encode_varint e" and ?data = "wire (Standard e fs t d) @ rest"
  have ev: "scan_at decode_varint ?data 0 = Ok (Some (e, length ?e))" using scan_varint_at [of "[]" e] by simp
  have dl: "scan_at decode_varint ?data (length (?e @ ?fs @ ?t)) = Ok (Some (d, length (?e @ ?fs @ ?t @ encode_varint d)))"
    using scan_varint_at [of "?e @ ?fs @ ?t" d rest] by simp
  have fields: "scan_fields (length fs) [] ?data (length ?e) = Ok (Some (fs, length (?e @ ?fs)))"
    using scan_fields_at [of fs "[]" ?e] by simp
  have str: "scan_at decode_string ?data (length (?e @ ?fs)) = Ok (Some (s, length (?e @ ?fs @ ?t)))" if "t = Some s" for s
    using scan_string_at [of s "?e @ ?fs"] ok(2) [OF that] that by simp
  obtain n where n: "field_count e = Some n" "scan_then (scan_fields n [] ?data (length ?e)) (\<lambda>fs c. scan_text e fs ?data c) =
      Ok (Some ((fs, t), length (?e @ ?fs @ ?t)))"
  proof (cases "e \<in> {9, 22}")
    case True
    with ok obtain s where t: "t = Some s" and l: "length fs = 2" by (auto simp: shape_ok_def)
    have "field_count e = Some 0" using True by (auto simp: field_count_def)
    with that show ?thesis using fields str [OF t] True unfolding l by (simp add: scan_text_def t)
  next
    case False
    show ?thesis
    proof (cases "e = 14")
      case True
      with ok False obtain s where t: "t = Some s" and l: "fs = []" by (auto simp: shape_ok_def)
      have "field_count e = Some 0" using True by (simp add: field_count_def)
      with that show ?thesis using str [OF t] False True by (simp add: scan_text_def t l)
    next
      case plain: False
      with ok False have "field_count e = Some (length fs)" "t = None" by (simp_all add: shape_ok_def split: if_splits)
      with that show ?thesis using fields False plain by (simp add: scan_text_def)
    qed
  qed
  obtain gs c where g: "scan_fields n [] ?data (length ?e) = Ok (Some (gs, c))" "scan_text e gs ?data c = Ok (Some ((fs, t), length (?e @ ?fs @ ?t)))"
    using n(2) by (auto simp: result_simps)
  show ?thesis
    unfolding decode_packet_eq ev scan_then.simps packet_body_def decode_standard_packet_def n(1) option.case g prod.case dl
    using e by simp
qed

lemma decode_standard_wire:
  "wire_ok (Standard e fs t d) \<Longrightarrow>
   decode_packet (wire (Standard e fs t d) @ rest) = Ok (Some (decoded (Standard e fs t d), length (wire (Standard e fs t d))))"
  by (rule decode_standard_shape) auto

lemma decode_delimited_wire:
  assumes "wire_ok (Delimited e payload d)"
  shows "decode_packet (wire (Delimited e payload d) @ rest) =
    Ok (Some (decoded (Delimited e payload d), length (wire (Delimited e payload d))))"
proof -
  let ?e = "encode_varint e" and ?n = "word_of_nat (length payload) :: u32" and ?data = "wire (Delimited e payload d) @ rest"
  have e: "\<not> e < 24" and len: "length payload \<le> MAX_DECODER_BUFFER" using assms by auto
  then have n: "unat ?n = length payload" by (simp add: MAX_DECODER_BUFFER_def unat_of_nat)
  have ev: "scan_at decode_varint ?data 0 = Ok (Some (e, length ?e))" using scan_varint_at [of "[]" e] by simp
  have pl: "scan_at decode_varint ?data (length ?e) = Ok (Some (?n, length (?e @ encode_varint ?n)))"
    using scan_varint_at [of ?e ?n] by simp
  have dl: "scan_at decode_varint ?data (length (?e @ encode_varint ?n) + length payload) = Ok (Some (d, length (wire (Delimited e payload d))))"
    using scan_varint_at [of "?e @ encode_varint ?n @ payload" d rest] by (simp add: add.assoc)
  show ?thesis
    unfolding decode_packet_eq ev scan_then.simps packet_body_def pl n Let_def dl
    using e len by (simp add: slice_def split_beta)
qed

lemma wire_decodes: "wire_ok p \<Longrightarrow> decode_packet (wire p @ rest) = Ok (Some (decoded p, length (wire p)))"
  using decode_standard_wire decode_delimited_wire by (cases p) blast+

lemma wire_head: "wire_ok p \<Longrightarrow> \<exists>b bs. wire p = b # bs \<and> b \<noteq> 0"
proof (cases p)
  case (Standard e fs t d)
  assume "wire_ok p"
  then have "e \<noteq> 0" by (simp add: Standard)
  with encode_varint_head [of e] Standard show ?thesis by auto
next
  case (Delimited e pl d)
  assume "wire_ok p"
  then have "e \<noteq> 0" by (auto simp: Delimited)
  with encode_varint_head [of e] Delimited show ?thesis by auto
qed

lemma wire_length: "wire_ok p \<Longrightarrow> length (wire p) \<le> MAX_DECODER_BUFFER"
  by (cases p) auto

lemma decoded_boundary: "(decoded p)\<lparr>pk_boundary := False\<rparr> = decoded p"
  by (cases p) simp_all

lemma proper_prefix_waits:
  assumes "wire_ok p" "wire p = r @ y" "y \<noteq> []"
  shows "decode_packet r = Ok None"
proof (cases "decode_packet r" rule: scan_cases)
  case (found v n)
  have "decode_packet (wire p) = Ok (Some (decoded p, length (wire p)))" using wire_decodes [OF assms(1), of "[]"] by simp
  with decode_packet_scan(1) [OF found, of y] assms(2,3) show ?thesis by simp
next
  case bad
  with decode_packet_scan(2) [OF bad, of y] wire_decodes [OF assms(1), of "[]"] assms(2) show ?thesis by simp
next
  case panic
  with decode_packet_scan(3) show ?thesis by blast
qed

section \<open>Chunks of a synchronized stream\<close>

fun marked :: "bool \<Rightarrow> parsed_packet list \<Rightarrow> parsed_packet list" where
  "marked m [] = []"
| "marked m (p # ps) = p\<lparr>pk_boundary := m\<rparr> # ps"

lemma marked_append: "marked m (xs @ ys) = marked m xs @ (if xs = [] then marked m ys else ys)"
  by (cases xs) simp_all

lemma marked_decoded: "marked False (map decoded ps) = map decoded ps"
  by (cases ps) (simp_all add: decoded_boundary)

definition partial :: "byte list \<Rightarrow> wire_packet list \<Rightarrow> bool" where
  "partial r ps \<longleftrightarrow> r = [] \<or> (\<exists>p qs y. ps = p # qs \<and> wire p = r @ y \<and> y \<noteq> [])"

abbreviation wires :: "wire_packet list \<Rightarrow> byte list" where "wires ps \<equiv> concat (map wire ps)"

lemma push_loop_packet:
  assumes "sv_synchronized d" "sv_buffer d = buf" "buf = b # bs" "b \<noteq> 0" "decode_packet buf = Ok (Some (p, n))"
  shows "push_loop d acc err =
    push_loop (d\<lparr>sv_buffer := drop n buf, sv_mark := False\<rparr>) (acc @ [p\<lparr>pk_boundary := sv_mark d\<rparr>]) err"
proof -
  have "\<not> zeros10 buf" "buf \<noteq> []" using assms(3,4) by (simp_all add: zeros10_def)
  with assms(1,2,5) show ?thesis by (subst push_loop.simps) (simp add: Let_def)
qed

lemma push_loop_wires:
  "list_all wire_ok (ps @ qs) \<Longrightarrow> sv_synchronized d \<Longrightarrow> sv_buffer d = wires ps @ r \<Longrightarrow> partial r qs \<Longrightarrow>
   push_loop d acc err = Ok (acc @ marked (sv_mark d) (map decoded ps), err, d\<lparr>sv_buffer := r, sv_mark := sv_mark d \<and> ps = []\<rparr>)"
proof (induction ps arbitrary: d acc)
  case Nil
  show ?case
  proof (cases "r = []")
    case True
    then show ?thesis using Nil by (subst push_loop.simps) (simp add: Let_def)
  next
    case False
    with Nil(4) obtain p ps y where p: "qs = p # ps" "wire p = r @ y" "y \<noteq> []" by (auto simp: partial_def)
    then have ok: "wire_ok p" using Nil(1) by simp
    obtain b bs where r: "r = b # bs" "b \<noteq> 0" using wire_head [OF ok] p(2) False by (cases r) auto
    have "decode_packet r = Ok None" by (rule proper_prefix_waits [OF ok p(2,3)])
    moreover have "\<not> zeros10 r" using r by (simp add: zeros10_def)
    ultimately show ?thesis using Nil r by (subst push_loop.simps) (simp add: Let_def)
  qed
next
  case (Cons p ps)
  have ok: "wire_ok p" using Cons.prems by simp
  obtain b bs where w: "wire p = b # bs" "b \<noteq> 0" using wire_head [OF ok] by blast
  let ?rest = "wires ps @ r"
  have buf: "sv_buffer d = wire p @ ?rest" using Cons.prems by simp
  have dec: "decode_packet (wire p @ ?rest) = Ok (Some (decoded p, length (wire p)))" by (rule wire_decodes [OF ok])
  have step: "push_loop d acc err = push_loop (d\<lparr>sv_buffer := ?rest, sv_mark := False\<rparr>) (acc @ [(decoded p)\<lparr>pk_boundary := sv_mark d\<rparr>]) err"
    using push_loop_packet [OF Cons.prems(2) buf _ w(2) dec] w(1) by simp
  have "push_loop (d\<lparr>sv_buffer := ?rest, sv_mark := False\<rparr>) (acc @ [(decoded p)\<lparr>pk_boundary := sv_mark d\<rparr>]) err =
      Ok ((acc @ [(decoded p)\<lparr>pk_boundary := sv_mark d\<rparr>]) @ map decoded ps, err, d\<lparr>sv_buffer := r, sv_mark := False\<rparr>)"
    using Cons.IH [of "d\<lparr>sv_buffer := ?rest, sv_mark := False\<rparr>"] Cons.prems by (simp add: marked_decoded)
  then show ?case by (simp add: step)
qed

lemma wires_split:
  "xs @ ys = wires ps \<Longrightarrow> \<exists>qs rs r. ps = qs @ rs \<and> xs = wires qs @ r \<and> r @ ys = wires rs \<and> partial r rs"
proof (induction ps arbitrary: xs)
  case Nil
  then show ?case by (intro exI [of _ "[]"]) (simp add: partial_def)
next
  case (Cons p ps)
  show ?case
  proof (cases "length xs < length (wire p)")
    case True
    from Cons.prems have "xs @ ys = wire p @ wires ps" by simp
    with True obtain us where y: "xs @ us = wire p" by (auto simp: append_eq_append_conv2)
    with True have "us \<noteq> []" by auto
    note y = y [symmetric] this
    then have "p # ps = [] @ (p # ps) \<and> xs = wires [] @ xs \<and> xs @ ys = wires (p # ps) \<and> partial xs (p # ps)"
      using Cons.prems by (simp add: partial_def)
    then show ?thesis by blast
  next
    case False
    from Cons.prems have "xs @ ys = wire p @ wires ps" by simp
    then have "prefix (wire p) xs" using False by (metis linorder_not_le prefixI prefix_length_prefix)
    then obtain x where x: "xs = wire p @ x" by (auto simp: prefix_def)
    with Cons.prems have "x @ ys = wires ps" by simp
    from Cons.IH [OF this] obtain qs rs r where "ps = qs @ rs" "x = wires qs @ r" "r @ ys = wires rs" "partial r rs" by blast
    then have "p # ps = (p # qs) @ rs \<and> xs = wires (p # qs) @ r \<and> r @ ys = wires rs \<and> partial r rs" by (simp add: x)
    then show ?thesis by blast
  qed
qed

lemma partial_length: "partial r ps \<Longrightarrow> list_all wire_ok ps \<Longrightarrow> length r \<le> MAX_DECODER_BUFFER"
  unfolding partial_def using wire_length by fastforce

fun feed :: "byte list list \<Rightarrow> systemview_decoder \<Rightarrow> (parsed_packet list \<times> nat \<times> systemview_decoder, unit) result" where
  "feed [] d = Ok ([], 0, d)"
| "feed (c # cs) d =
     rbind (decoder_push c d) (\<lambda>(ps, e, d). rbind (feed cs d) (\<lambda>(qs, f, d). Ok (ps @ qs, e + f, d)))"

text \<open>The part of a push that is synchronized, wherever the loop entered it.\<close>

lemma push_loop_synced:
  assumes "list_all wire_ok ps" "sv_synchronized d" "sv_buffer d @ ys = wires ps"
  obtains qs rs r where "ps = qs @ rs" "r @ ys = wires rs" "partial r rs" "length r \<le> MAX_DECODER_BUFFER"
    "push_loop d [] 0 = Ok (marked (sv_mark d) (map decoded qs), 0, d\<lparr>sv_buffer := r, sv_mark := sv_mark d \<and> qs = []\<rparr>)"
proof -
  from wires_split [OF assms(3)] obtain qs rs r where s: "ps = qs @ rs" "sv_buffer d = wires qs @ r" "r @ ys = wires rs" "partial r rs" by blast
  then have "list_all wire_ok rs" using assms(1) by simp
  with s(4) have "length r \<le> MAX_DECODER_BUFFER" by (rule partial_length)
  with that [OF s(1,3,4)] push_loop_wires [of qs rs d r "[]" 0] s assms show ?thesis by simp
qed

lemma feed_synced:
  "list_all wire_ok ps \<Longrightarrow> sv_synchronized d \<Longrightarrow> sv_buffer d @ concat cs = wires ps \<Longrightarrow> partial (sv_buffer d) ps \<Longrightarrow>
   feed cs d = Ok (marked (sv_mark d) (map decoded ps), 0, d\<lparr>sv_buffer := [], sv_mark := sv_mark d \<and> ps = []\<rparr>)"
proof (induction cs arbitrary: d ps)
  case Nil
  have "ps = []"
  proof (rule ccontr)
    assume "ps \<noteq> []"
    then obtain p qs where ps: "ps = p # qs" by (cases ps) auto
    with Nil wire_head [of p] show False by (auto simp: partial_def)
  qed
  then show ?case using Nil by simp
next
  case (Cons c cs)
  let ?d = "d\<lparr>sv_buffer := sv_buffer d @ c\<rparr>"
  obtain qs rs r where s: "ps = qs @ rs" "r @ concat cs = wires rs" "partial r rs" "length r \<le> MAX_DECODER_BUFFER"
    "push_loop ?d [] 0 = Ok (marked (sv_mark d) (map decoded qs), 0, d\<lparr>sv_buffer := r, sv_mark := sv_mark d \<and> qs = []\<rparr>)"
    using push_loop_synced [of ps ?d "concat cs"] Cons.prems by auto
  have "feed cs (d\<lparr>sv_buffer := r, sv_mark := sv_mark d \<and> qs = []\<rparr>) =
      Ok (marked (sv_mark d \<and> qs = []) (map decoded rs), 0, d\<lparr>sv_buffer := [], sv_mark := (sv_mark d \<and> qs = []) \<and> rs = []\<rparr>)"
    using Cons.IH [of rs "d\<lparr>sv_buffer := r, sv_mark := sv_mark d \<and> qs = []\<rparr>"] Cons.prems s by simp
  then show ?case using s by (auto simp: decoder_push_def marked_append marked_decoded)
qed

section \<open>Before the marker\<close>

text \<open>Bytes in which no marker starts, neither alone nor together with what follows them.\<close>

definition clean :: "byte list \<Rightarrow> bool" where
  "clean u \<longleftrightarrow> find_sync_marker u = None \<and> (u = [] \<or> last u \<noteq> 0)"

lemma find_append: "find_sync_marker xs = Some k \<Longrightarrow> find_sync_marker (xs @ ys) = Some k"
  by (induction xs arbitrary: k) (auto simp: zeros10_def dest: find_sync_marker_bound split: if_splits)

lemma zeros10_last: "zeros10 (u @ t) \<Longrightarrow> u \<noteq> [] \<Longrightarrow> last u \<noteq> 0 \<Longrightarrow> zeros10 u"
proof -
  assume z: "zeros10 (u @ t)" and u: "u \<noteq> []" "last u \<noteq> 0"
  have "10 < length u"
  proof (rule ccontr)
    assume "\<not> 10 < length u"
    then have "last u \<in> set (take 10 (u @ t))" using u(1) by simp
    with z u(2) show False by (auto simp: zeros10_def list_all_iff)
  qed
  with z show ?thesis by (simp add: zeros10_def)
qed

lemma find_clean: "clean u \<Longrightarrow> find_sync_marker (u @ t) = map_option (\<lambda>k. length u + k) (find_sync_marker t)"
proof (induction u)
  case (Cons b us)
  have "\<not> zeros10 (b # us)" and "find_sync_marker us = None" using Cons.prems by (auto simp: clean_def split: if_splits)
  moreover have "\<not> zeros10 ((b # us) @ t)"
  proof
    assume "zeros10 ((b # us) @ t)"
    from zeros10_last [OF this] Cons.prems \<open>\<not> zeros10 (b # us)\<close> show False by (simp add: clean_def)
  qed
  moreover have "clean us" using Cons.prems \<open>find_sync_marker us = None\<close> by (auto simp: clean_def)
  ultimately show ?case using Cons.IH by (simp add: option.map_comp comp_def)
qed (cases "find_sync_marker t"; simp)

lemma find_replicate: "z < 10 \<Longrightarrow> find_sync_marker (replicate z 0) = None"
  by (induction z) (auto simp: zeros10_def)

lemma find_marker: "find_sync_marker (replicate 10 0 @ body) = Some 0"
  by (simp add: numeral_eq_Suc zeros10_def)

lemma clean_append: "clean u \<Longrightarrow> clean v \<Longrightarrow> clean (u @ v)"
  using find_clean [of u v] by (cases "v = []") (auto simp: clean_def)

lemma split_trailing: "\<exists>u. xs = u @ replicate (trailing_zeros xs) 0 \<and> (u = [] \<or> last u \<noteq> 0)"
proof -
  let ?p = "\<lambda>b :: byte. b = 0" and ?u = "rev (dropWhile (\<lambda>b. b = 0) (rev xs))"
  have "takeWhile ?p (rev xs) = replicate (trailing_zeros xs) 0" unfolding trailing_zeros_def
    by (metis (full_types) replicate_length_same set_takeWhileD)
  then have "rev xs = replicate (trailing_zeros xs) 0 @ rev ?u" by (metis rev_rev_ident takeWhile_dropWhile_id)
  then have "xs = ?u @ replicate (trailing_zeros xs) 0" by (metis rev_append rev_replicate rev_rev_ident)
  moreover have "?u = [] \<or> last ?u \<noteq> 0" using hd_dropWhile [of ?p "rev xs"] by (auto simp: last_rev)
  ultimately show ?thesis by blast
qed

lemma split_no_marker:
  assumes "find_sync_marker xs = None"
  obtains u where "xs = u @ replicate (trailing_zeros xs) 0" "clean u" "trailing_zeros xs < 10"
proof -
  obtain u where u: "xs = u @ replicate (trailing_zeros xs) 0" "u = [] \<or> last u \<noteq> 0" using split_trailing by blast
  have "find_sync_marker u = None"
  proof (cases "find_sync_marker u")
    case (Some k)
    from find_append [OF this] u(1) have "find_sync_marker xs = Some k" by metis
    with assms show ?thesis by simp
  qed simp
  with u(2) have c: "clean u" by (simp add: clean_def)
  have "trailing_zeros xs < 10"
  proof (rule ccontr)
    assume "\<not> trailing_zeros xs < 10"
    then obtain n where "trailing_zeros xs = 10 + n" by (metis le_Suc_ex linorder_not_le)
    then have "find_sync_marker (replicate (trailing_zeros xs) (0 :: byte)) = Some 0"
      using find_marker by (simp add: replicate_add)
    with find_clean [OF c] u(1) assms show False by (metis option.distinct(1) option.simps(9))
  qed
  with that u(1) c show ?thesis by blast
qed

lemma push_loop_waiting:
  assumes "\<not> sv_synchronized d" "find_sync_marker (sv_buffer d) = None"
  shows "push_loop d acc err = Ok (acc, err, d\<lparr>sv_buffer := replicate (trailing_zeros (sv_buffer d)) 0\<rparr>)"
proof -
  obtain u where u: "sv_buffer d = u @ replicate (trailing_zeros (sv_buffer d)) 0" "trailing_zeros (sv_buffer d) < 10"
    using split_no_marker [OF assms(2)] by blast
  have l: "length (sv_buffer d) = length u + trailing_zeros (sv_buffer d)" by (subst u(1)) simp
  have "drop (length u) (sv_buffer d) = replicate (trailing_zeros (sv_buffer d)) 0" by (subst u(1)) simp
  moreover have "sv_buffer d = [] \<Longrightarrow> d\<lparr>sv_buffer := []\<rparr> = d" by (cases d) simp
  ultimately show ?thesis using assms u(2) l
    by (subst push_loop.simps) (auto simp: Let_def trailing_zeros_def)
qed

lemma push_loop_marker:
  assumes "\<not> sv_synchronized d" "find_sync_marker (sv_buffer d) = Some k"
  shows "push_loop d acc err =
    push_loop (d\<lparr>sv_buffer := drop (k + 10) (sv_buffer d), sv_synchronized := True, sv_mark := True\<rparr>) acc err"
proof -
  have "sv_buffer d \<noteq> []" using assms(2) by auto
  with assms show ?thesis by (subst push_loop.simps) (simp add: Let_def)
qed

lemma feed_unsynced:
  assumes ok: "list_all wire_ok ps" and j: "clean junk"
  shows "\<not> sv_synchronized d \<Longrightarrow> sv_buffer d = replicate z 0 \<Longrightarrow> z < 10 \<Longrightarrow> clean u \<Longrightarrow>
    u @ sv_buffer d @ concat cs = junk @ replicate 10 0 @ wires ps \<Longrightarrow>
    feed cs d = Ok (marked True (map decoded ps), 0, \<lparr>sv_buffer = [], sv_synchronized = True, sv_mark = (ps = [])\<rparr>)"
proof (induction cs arbitrary: d z u)
  case Nil
  have "find_sync_marker (u @ replicate z 0) = None" using find_clean [OF Nil(4)] find_replicate [OF Nil(3)] by simp
  moreover have "find_sync_marker (junk @ replicate 10 0 @ wires ps) = Some (length junk)"
    using find_clean [OF j] find_marker by simp
  ultimately show ?case using Nil by simp
next
  case (Cons c cs)
  let ?b = "sv_buffer d @ c" and ?d = "d\<lparr>sv_buffer := sv_buffer d @ c\<rparr>"
  have total: "u @ ?b @ concat cs = junk @ replicate 10 0 @ wires ps" using Cons.prems(5) by simp
  have m: "find_sync_marker (junk @ replicate 10 0 @ wires ps) = Some (length junk)"
    using find_clean [OF j] find_marker by simp
  show ?case
  proof (cases "find_sync_marker ?b")
    case None
    obtain v where v: "?b = v @ replicate (trailing_zeros ?b) 0" "clean v" "trailing_zeros ?b < 10"
      using split_no_marker [OF None] by blast
    let ?e = "d\<lparr>sv_buffer := replicate (trailing_zeros ?b) 0\<rparr>"
    have push: "decoder_push c d = Ok ([], 0, ?e)"
      using push_loop_waiting [of ?d] Cons.prems(1) None v(3) by (simp add: decoder_push_def MAX_DECODER_BUFFER_def)
    have "(u @ v) @ replicate (trailing_zeros ?b) 0 @ concat cs = u @ (v @ replicate (trailing_zeros ?b) 0) @ concat cs" by simp
    also have "\<dots> = junk @ replicate 10 0 @ wires ps" unfolding v(1) [symmetric] by (rule total)
    finally have "feed cs ?e = Ok (marked True (map decoded ps), 0, \<lparr>sv_buffer = [], sv_synchronized = True, sv_mark = (ps = [])\<rparr>)"
      using Cons.IH [of ?e "trailing_zeros ?b" "u @ v"] Cons.prems(1) v(3) clean_append [OF Cons.prems(4) v(2)] by simp
    with push show ?thesis by simp
  next
    case (Some k)
    let ?s = "d\<lparr>sv_buffer := drop (k + 10) ?b, sv_synchronized := True, sv_mark := True\<rparr>"
    have "find_sync_marker (u @ ?b @ concat cs) = Some (length u + k)"
      using find_clean [OF Cons.prems(4), of "?b @ concat cs"] find_append [OF Some] by simp
    then have k: "length u + k = length junk" using m total by simp
    have le: "k + 10 \<le> length ?b" by (rule find_sync_marker_bound [OF Some])
    have "drop (length u + (k + 10)) (u @ ?b @ concat cs) = wires ps" unfolding total using k by simp
    then have rest: "drop (k + 10) ?b @ concat cs = wires ps" using le by simp
    obtain qs rs r where s: "ps = qs @ rs" "r @ concat cs = wires rs" "partial r rs" "length r \<le> MAX_DECODER_BUFFER"
      "push_loop ?s [] 0 = Ok (marked True (map decoded qs), 0, ?s\<lparr>sv_buffer := r, sv_mark := (qs = [])\<rparr>)"
      using push_loop_synced [of ps ?s "concat cs"] ok rest by auto
    let ?e = "\<lparr>sv_buffer = r, sv_synchronized = True, sv_mark = (qs = [])\<rparr>"
    have "?s\<lparr>sv_buffer := r, sv_mark := (qs = [])\<rparr> = ?e" by (cases d) simp
    then have push: "decoder_push c d = Ok (marked True (map decoded qs), 0, ?e)"
      using push_loop_marker [of ?d k "[]" 0] Cons.prems(1) Some s(4,5) by (simp add: decoder_push_def)
    have "feed cs ?e = Ok (marked (qs = []) (map decoded rs), 0, \<lparr>sv_buffer = [], sv_synchronized = True, sv_mark = (qs = [] \<and> rs = [])\<rparr>)"
      using feed_synced [of rs ?e cs] ok s by simp
    with push show ?thesis using s(1) by (auto simp: marked_append marked_decoded)
  qed
qed

section \<open>Properties\<close>

text \<open>
  C7. A decoder that attaches to a running stream drops what comes before the first marker, provided that this contains no ten zeros in a row and does
  not end in a zero, and then returns exactly the packets that the target sent, the first one marked as the start of an epoch, with no decoding error and nothing left
  over; and this holds for every way the stream is cut into chunks, in the middle of the marker, of a number or of a string included. The packets are those of
  \<open>wire_ok\<close>: any event but \<open>nop\<close>, up to number 23 with the fields and the valid UTF-8 string that belong to it, from 24 on with any
  payload, of at most 64 KiB. What a zero before the marker does is shown below.
\<close>

theorem trace_stream_decoded:
  assumes "list_all wire_ok ps" "find_sync_marker junk = None" "junk = [] \<or> last junk \<noteq> 0"
    "concat chunks = junk @ replicate 10 0 @ wires ps"
  shows "feed chunks default_decoder =
    Ok (marked True (map decoded ps), 0, \<lparr>sv_buffer = [], sv_synchronized = True, sv_mark = (ps = [])\<rparr>)"
  using feed_unsynced [OF assms(1), of junk default_decoder 0 "[]" chunks] assms
  by (simp add: default_decoder_def clean_def)

lemma trace_stream_decoded_witness:
  "feed [[7, 0, 0, 0], [0, 0, 0, 0, 0, 0, 0, 4, 0x83], [0x02, 8, 14, 2, 72], [105, 0]] default_decoder =
     Ok ([\<lparr>pk_event = 4, pk_fields = [0x103], pk_text = None, pk_delta = 8, pk_boundary = True\<rparr>,
          \<lparr>pk_event = 14, pk_fields = [], pk_text = Some [72, 105], pk_delta = 0, pk_boundary = False\<rparr>], 0,
         \<lparr>sv_buffer = [], sv_synchronized = True, sv_mark = False\<rparr>)"
proof -
  let ?ps = "[Standard 4 [0x103] None 8, Standard 14 [] (Some [72, 105]) 0]"
  have w: "wire (Standard 4 [0x103] None 8) = [4, 0x83, 2, 8]" "wire (Standard 14 [] (Some [72, 105]) 0) = [14, 2, 72, 105, 0]"
    by code_simp+
  have "from_utf8_lossy [72, 105] = [72, 105]" by (rule from_utf8_lossy_ascii) simp
  then have "list_all wire_ok ?ps"
    by (simp add: w del: wire.simps)
    (simp add: shape_ok_def field_count_def MAX_DECODER_BUFFER_def)
  moreover have "concat [[7, 0, 0, 0], [0, 0, 0, 0, 0, 0, 0, 4, 0x83], [0x02, 8, 14, 2, 72], [105, 0]] =
      [7] @ replicate 10 0 @ wires ?ps" by (simp add: w numeral_eq_Suc del: wire.simps)
  moreover have "find_sync_marker [7] = None" by (simp add: zeros10_def)
  ultimately show ?thesis using trace_stream_decoded [of ?ps "[7]"] by (simp del: feed.simps)
qed

text \<open>The loop on arbitrary bytes.\<close>

lemma push_loop_total:
  "\<exists>ps e d'. push_loop d acc err = Ok (acc @ ps, e, d') \<and> length (sv_buffer d') \<le> length (sv_buffer d) \<and>
     length ps \<le> length (sv_buffer d) \<and> (sv_synchronized d \<longrightarrow> sv_synchronized d') \<and>
     (\<not> sv_synchronized d' \<longrightarrow> ps = [] \<and> e = err \<and> length (sv_buffer d') \<le> 9 \<and> find_sync_marker (sv_buffer d) = None)"
proof (induction d acc err rule: push_loop.induct)
  case (1 d acc err)
  let ?b = "sv_buffer d"
  show ?case
  proof (cases "?b = []")
    case True
    then show ?thesis by (subst push_loop.simps) (simp add: Let_def)
  next
    case ne: False
    show ?thesis
    proof (cases "sv_synchronized d")
      case False
      show ?thesis
      proof (cases "find_sync_marker ?b")
        case None
        have "trailing_zeros ?b < 10" "trailing_zeros ?b \<le> length ?b"
          using split_no_marker [OF None] by (blast, simp add: trailing_zeros_def) (metis length_rev length_takeWhile_le)
        then show ?thesis using push_loop_waiting [OF False None, of acc err] None False by simp
      next
        case (Some k)
        note le = find_sync_marker_bound [OF Some]
        from "1.IH"(1) [OF refl ne _ Some] False obtain ps e d' where
          "push_loop (d\<lparr>sv_buffer := drop (k + 10) ?b, sv_synchronized := True, sv_mark := True\<rparr>) acc err = Ok (acc @ ps, e, d')"
          "length (sv_buffer d') \<le> length (drop (k + 10) ?b)" "length ps \<le> length (drop (k + 10) ?b)" "sv_synchronized d'" by auto
        then show ?thesis using push_loop_marker [OF False Some, of acc err] le by (intro exI [of _ ps] exI [of _ e] exI [of _ d']) auto
      qed
    next
      case sync: True
      show ?thesis
      proof (cases "zeros10 ?b")
        case True
        from "1.IH"(2) [OF refl ne _ True] sync obtain ps e d' where
          "push_loop (d\<lparr>sv_buffer := drop 10 ?b, sv_mark := True\<rparr>) acc err = Ok (acc @ ps, e, d')"
          "length (sv_buffer d') \<le> length (drop 10 ?b)" "length ps \<le> length (drop 10 ?b)" "sv_synchronized d'" by auto
        then show ?thesis using sync ne True
          by (subst push_loop.simps) (intro exI [of _ ps] exI [of _ e] exI [of _ d'], auto simp: Let_def)
      next
        case no: False
        show ?thesis
        proof (cases "decode_packet ?b" rule: scan_cases)
          case (found p n)
          have n: "0 < n" "n \<le> length ?b" using decode_packet_scan(1) [OF found] by blast+
          from "1.IH"(3) [OF refl ne _ no found refl refl] sync obtain ps e d' where
            "push_loop (d\<lparr>sv_buffer := drop n ?b, sv_mark := False\<rparr>) (acc @ [p\<lparr>pk_boundary := sv_mark d\<rparr>]) err =
               Ok ((acc @ [p\<lparr>pk_boundary := sv_mark d\<rparr>]) @ ps, e, d')"
            "length (sv_buffer d') \<le> length (drop n ?b)" "length ps \<le> length (drop n ?b)" "sv_synchronized d'" by auto
          then show ?thesis using sync ne no found n
            by (subst push_loop.simps) (intro exI [of _ "p\<lparr>pk_boundary := sv_mark d\<rparr> # ps"] exI [of _ e] exI [of _ d'], auto simp: Let_def)
        next
          case more
          then show ?thesis using sync ne no by (subst push_loop.simps) (simp add: Let_def)
        next
          case bad
          from "1.IH"(4) [OF refl ne _ no bad] sync obtain ps e d' where
            "push_loop (d\<lparr>sv_buffer := tl ?b\<rparr>) acc (sat64 (err + 1)) = Ok (acc @ ps, e, d')"
            "length (sv_buffer d') \<le> length (tl ?b)" "length ps \<le> length (tl ?b)" "sv_synchronized d'" by auto
          then show ?thesis using sync ne no bad
            by (subst push_loop.simps) (intro exI [of _ ps] exI [of _ e] exI [of _ d'], auto simp: Let_def)
        next
          case panic
          with decode_packet_scan(3) show ?thesis by blast
        qed
      qed
    qed
  qed
qed

lemma decoder_push_total: "\<exists>ps e d'. decoder_push bytes d = Ok (ps, e, d')"
  using push_loop_total [of "d\<lparr>sv_buffer := sv_buffer d @ bytes\<rparr>" "[]" 0] by (auto simp: decoder_push_def)

text \<open>
  Whatever bytes arrive, in whatever state, a push returns without a panic, with no more packets than bytes
  were buffered, and keeps at most 64 KiB; and as long as no marker was found it returns no packet, counts no error and keeps
  no more than nine bytes, so that bytes from the middle of a stream never become events.
\<close>

theorem trace_decoder_total:
  "\<exists>ps e d'. decoder_push bytes d = Ok (ps, e, d') \<and> length (sv_buffer d') \<le> 65536 \<and>
     length ps \<le> length (sv_buffer d) + length bytes \<and>
     (\<not> sv_synchronized d' \<longrightarrow> ps = [] \<and> e = 0 \<and> length (sv_buffer d') \<le> 9) \<and>
     (\<not> sv_synchronized d \<and> find_sync_marker (sv_buffer d @ bytes) = None \<longrightarrow> \<not> sv_synchronized d')"
proof -
  let ?d = "d\<lparr>sv_buffer := sv_buffer d @ bytes\<rparr>"
  obtain ps e d' where p: "push_loop ?d [] 0 = Ok (ps, e, d')" "length ps \<le> length (sv_buffer d) + length bytes"
    "\<not> sv_synchronized d' \<longrightarrow> ps = [] \<and> e = 0 \<and> length (sv_buffer d') \<le> 9"
    using push_loop_total [of ?d "[]" 0] by auto
  have unsync: "\<not> sv_synchronized d'" if "\<not> sv_synchronized d" "find_sync_marker (sv_buffer d @ bytes) = None"
    using push_loop_waiting [of ?d "[]" 0] that p(1) by auto
  show ?thesis
  proof (cases "length (sv_buffer d') > MAX_DECODER_BUFFER")
    case True
    with p(3) have "sv_synchronized d'" by (auto simp: MAX_DECODER_BUFFER_def)
    with True p(1,2) unsync show ?thesis by (auto simp: decoder_push_def)
  next
    case False
    with p unsync show ?thesis by (auto simp: decoder_push_def MAX_DECODER_BUFFER_def)
  qed
qed

lemma trace_decoder_total_witness:
  "\<exists>d'. decoder_push [4, 7, 0, 0] default_decoder = Ok ([], 0, d') \<and> length (sv_buffer d') \<le> 9"
proof -
  have "find_sync_marker (sv_buffer default_decoder @ [4, 7, 0, 0]) = None" "\<not> sv_synchronized default_decoder"
    by (simp_all add: default_decoder_def zeros10_def)
  with trace_decoder_total [of "[4, 7, 0, 0]" default_decoder] show ?thesis by blast
qed

definition nop_packet :: parsed_packet where
  "nop_packet = \<lparr>pk_event = 0, pk_fields = [], pk_text = None, pk_delta = 0, pk_boundary = False\<rparr>"

lemma decode_zeros: "decode_packet (0 # 0 # r) = Ok (Some (nop_packet, 2))" "decode_packet [0] = Ok None"
proof -
  have "decode_packet [0, 0] = Ok (Some (nop_packet, 2))" "decode_packet [0] = Ok None" by code_simp+
  then show "decode_packet (0 # 0 # r) = Ok (Some (nop_packet, 2))" "decode_packet [0] = Ok None"
    using decode_packet_scan(1) [of "[0, 0]" nop_packet 2 r] by simp_all
qed

lemma push_loop_zeros:
  assumes "sv_synchronized d" "\<not> sv_mark d"
  shows "sv_buffer d = 0 # 0 # r \<Longrightarrow> length r < 8 \<Longrightarrow>
      push_loop d acc err = push_loop (d\<lparr>sv_buffer := r, sv_mark := False\<rparr>) (acc @ [nop_packet]) err"
    "sv_buffer d = [0] \<Longrightarrow> push_loop d acc err = Ok (acc, err, d)"
    "sv_buffer d = replicate 10 0 @ r \<Longrightarrow> push_loop d acc err = push_loop (d\<lparr>sv_buffer := r, sv_mark := True\<rparr>) acc err"
proof -
  have "nop_packet\<lparr>pk_boundary := False\<rparr> = nop_packet" by (simp add: nop_packet_def)
  then show "push_loop d acc err = push_loop (d\<lparr>sv_buffer := r, sv_mark := False\<rparr>) (acc @ [nop_packet]) err"
    if "sv_buffer d = 0 # 0 # r" "length r < 8"
    using that assms decode_zeros(1) by (subst push_loop.simps) (simp add: Let_def zeros10_def)
  show "push_loop d acc err = Ok (acc, err, d)" if "sv_buffer d = [0]"
    using that assms decode_zeros(2) by (subst push_loop.simps) (simp add: Let_def zeros10_def)
  show "push_loop d acc err = push_loop (d\<lparr>sv_buffer := r, sv_mark := True\<rparr>) acc err" if "sv_buffer d = replicate 10 0 @ r"
    using that assms by (subst push_loop.simps) (simp add: Let_def zeros10_def numeral_eq_Suc)
qed

section \<open>Zeros that are not the marker's\<close>

lemma push_loop_nops:
  assumes "sv_synchronized d" "\<not> sv_mark d"
  shows "sv_buffer d = replicate (2 * n) 0 @ r \<Longrightarrow> 2 * n < 10 \<Longrightarrow> r = [] \<or> hd r \<noteq> 0 \<or> r = [0] \<and> 2 * n < 9 \<Longrightarrow>
      push_loop d acc err = push_loop (d\<lparr>sv_buffer := r, sv_mark := False\<rparr>) (acc @ replicate n nop_packet) err"
  using assms
proof (induction n arbitrary: d acc)
  case 0
  then show ?case by (cases d) simp
next
  case (Suc n)
  let ?r = "replicate (2 * n) 0 @ r"
  have buf: "sv_buffer d = 0 # 0 # ?r" using Suc.prems(1) by (simp add: replicate_app_Cons_same)
  have no: "\<not> zeros10 (0 # 0 # ?r)"
  proof
    assume "zeros10 (0 # 0 # ?r)"
    then have z: "10 \<le> length (0 # 0 # ?r)" "\<And>b. b \<in> set (take 10 (0 # 0 # ?r)) \<Longrightarrow> b = 0"
      unfolding zeros10_def list_all_iff by blast+
    have "\<not> (r = [0] \<and> 2 * Suc n < 9)" "r \<noteq> []" using z(1) Suc.prems(2) by auto
    with Suc.prems(3) have h: "hd r \<noteq> 0" "r \<noteq> []" by blast+
    have "0 # 0 # ?r = replicate (2 * Suc n) 0 @ r" by simp
    then have "(0 # 0 # ?r) ! (2 * Suc n) = hd r" using h(2) by (simp only: nth_append length_replicate hd_conv_nth) (simp add: hd_conv_nth)
    moreover have "take 10 (0 # 0 # ?r) ! (2 * Suc n) = (0 # 0 # ?r) ! (2 * Suc n)" using Suc.prems(2) by (intro nth_take) simp
    moreover have "take 10 (0 # 0 # ?r) ! (2 * Suc n) \<in> set (take 10 (0 # 0 # ?r))"
      using Suc.prems(2) z(1) by (intro nth_mem) (simp only: length_take)
    ultimately show False using z(2) h(1) by metis
  qed
  have nop: "nop_packet\<lparr>pk_boundary := False\<rparr> = nop_packet" by (simp add: nop_packet_def)
  have "push_loop d acc err = push_loop (d\<lparr>sv_buffer := ?r, sv_mark := False\<rparr>) (acc @ [nop_packet]) err"
    using Suc.prems(4,5) buf no decode_zeros(1) [of ?r] nop by (subst push_loop.simps) (simp add: Let_def)
  also have "\<dots> = push_loop (d\<lparr>sv_buffer := r, sv_mark := False\<rparr>) ((acc @ [nop_packet]) @ replicate n nop_packet) err"
  proof -
    have "2 * n < 10" "r = [] \<or> hd r \<noteq> 0 \<or> r = [0] \<and> 2 * n < 9" using Suc.prems(2,3) by auto
    from Suc.IH [OF _ this, of "d\<lparr>sv_buffer := ?r, sv_mark := False\<rparr>" "acc @ [nop_packet]"] Suc.prems(4) show ?thesis by simp
  qed
  finally show ?case by simp
qed

lemma wires_head:
  assumes "list_all wire_ok ps"
  shows "wires ps = [] \<or> hd (wires ps) \<noteq> 0"
proof (cases ps)
  case (Cons p qs)
  then obtain b bs where "wire p = b # bs" "b \<noteq> 0" using wire_head [of p] assms by auto
  then show ?thesis by (simp add: Cons)
qed simp

lemma push_loop_split_zeros:
  assumes "list_all wire_ok ps" "n < 5"
  shows "push_loop \<lparr>sv_buffer = replicate (2 * n) 0 @ wires ps, sv_synchronized = True, sv_mark = False\<rparr> acc err =
    Ok (acc @ replicate n nop_packet @ map decoded ps, err, \<lparr>sv_buffer = [], sv_synchronized = True, sv_mark = False\<rparr>)"
proof -
  let ?d = "\<lparr>sv_buffer = wires ps, sv_synchronized = True, sv_mark = False\<rparr>"
  let ?z = "\<lparr>sv_buffer = replicate (2 * n) 0 @ wires ps, sv_synchronized = True, sv_mark = False\<rparr>"
  have "wires ps = [] \<or> hd (wires ps) \<noteq> 0 \<or> wires ps = [0] \<and> 2 * n < 9" using wires_head [OF assms(1)] by blast
  moreover have "2 * n < 10" using assms(2) by simp
  ultimately have "push_loop ?z acc err = push_loop ?d (acc @ replicate n nop_packet) err"
    using push_loop_nops [of ?z n "wires ps" acc err] by simp
  also have "\<dots> = Ok ((acc @ replicate n nop_packet) @ map decoded ps, err, \<lparr>sv_buffer = [], sv_synchronized = True, sv_mark = False\<rparr>)"
    using push_loop_wires [of ps "[]" ?d "[]" "acc @ replicate n nop_packet" err] assms(1) by (simp add: partial_def marked_decoded)
  finally show ?thesis by simp
qed

lemma split_first_chunk:
  assumes "2 \<le> k" "k \<le> 9"
  shows "decoder_push (replicate k 0) \<lparr>sv_buffer = [], sv_synchronized = True, sv_mark = False\<rparr> =
    Ok (replicate (k div 2) nop_packet, 0, \<lparr>sv_buffer = replicate (k mod 2) 0, sv_synchronized = True, sv_mark = False\<rparr>)"
proof -
  let ?d = "\<lparr>sv_buffer = replicate k 0, sv_synchronized = True, sv_mark = False\<rparr>"
    and ?e = "\<lparr>sv_buffer = replicate (k mod 2) 0, sv_synchronized = True, sv_mark = False\<rparr>"
  have k: "replicate k (0 :: byte) = replicate (2 * (k div 2)) 0 @ replicate (k mod 2) 0"
    by (metis mult_div_mod_eq replicate_add)
  have small: "2 * (k div 2) < 10" using assms by presburger
  have odd: "replicate (k mod 2) (0 :: byte) = [] \<or> hd (replicate (k mod 2) (0 :: byte)) \<noteq> 0 \<or>
      replicate (k mod 2) (0 :: byte) = [0] \<and> 2 * (k div 2) < 9"
  proof (cases "k mod 2 = 0")
    case False
    then have "k mod 2 = 1" "2 * (k div 2) < 9" using assms by presburger+
    then show ?thesis by simp
  qed simp
  have "sv_buffer ?d = replicate (2 * (k div 2)) 0 @ replicate (k mod 2) 0" using k by simp
  from push_loop_nops [OF _ _ this small odd, of "[]" 0]
  have "push_loop ?d [] 0 = push_loop ?e ([] @ replicate (k div 2) nop_packet) 0"
    by simp
  also have "\<dots> = Ok (replicate (k div 2) nop_packet, 0, ?e)"
  proof (cases "k mod 2 = 0")
    case True
    then show ?thesis by (subst push_loop.simps) (simp add: Let_def)
  next
    case False
    then have "k mod 2 = 1" by simp
    then show ?thesis using push_loop_zeros(2) [of ?e "replicate (k div 2) nop_packet" 0] by simp
  qed
  moreover have "\<not> 65536 < k mod 2" using mod_less_divisor [of 2 k] by linarith
  ultimately show ?thesis by (simp add: decoder_push_def MAX_DECODER_BUFFER_def)
qed

text \<open>A marker that is cut in two while the decoder is synchronized.\<close>

lemma split_marker:
  assumes "list_all wire_ok ps" "d = \<lparr>sv_buffer = [], sv_synchronized = True, sv_mark = False\<rparr>"
  shows "feed [replicate 10 0 @ wires ps] d = Ok (marked True (map decoded ps), 0, d\<lparr>sv_mark := (ps = [])\<rparr>) \<and>
    feed [replicate 1 0, replicate 9 0 @ wires ps] d = Ok (marked True (map decoded ps), 0, d\<lparr>sv_mark := (ps = [])\<rparr>) \<and>
    (\<forall>k. 2 \<le> k \<and> k \<le> 9 \<longrightarrow>
      feed [replicate k 0, replicate (10 - k) 0 @ wires ps] d = Ok (replicate 5 nop_packet @ map decoded ps, 0, d))"
proof -
  let ?m = "d\<lparr>sv_buffer := wires ps, sv_mark := True\<rparr>"
  have after: "push_loop ?m [] 0 = Ok (marked True (map decoded ps), 0, d\<lparr>sv_mark := (ps = [])\<rparr>)"
    using push_loop_wires [of ps "[]" ?m "[]" "[]" 0] assms by (simp add: partial_def)
  have whole: "push_loop (d\<lparr>sv_buffer := replicate 10 0 @ wires ps\<rparr>) [] 0 = Ok (marked True (map decoded ps), 0, d\<lparr>sv_mark := (ps = [])\<rparr>)"
    using push_loop_zeros(3) [of "d\<lparr>sv_buffer := replicate 10 0 @ wires ps\<rparr>" "wires ps" "[]" 0] after assms(2) by simp
  have one: "decoder_push [0] d = Ok ([], 0, d\<lparr>sv_buffer := [0]\<rparr>)"
    using push_loop_zeros(2) [of "d\<lparr>sv_buffer := [0]\<rparr>" "[]" 0] assms(2) by (simp add: decoder_push_def MAX_DECODER_BUFFER_def)
  have ten: "replicate 10 (0 :: byte) = 0 # replicate 9 0" by (simp add: numeral_eq_Suc)
  have cut: "feed [replicate k 0, replicate (10 - k) 0 @ wires ps] d = Ok (replicate 5 nop_packet @ map decoded ps, 0, d)"
    if k: "2 \<le> k" "k \<le> 9" for k
  proof -
    let ?n = "5 - k div 2"
    have n: "?n < 5" "k div 2 + ?n = 5" "k mod 2 + (10 - k) = 2 * ?n" using k by presburger+
    have zeros: "replicate (k mod 2) 0 @ replicate (10 - k) 0 @ wires ps = replicate (2 * ?n) (0 :: byte) @ wires ps"
      using n(3) by (metis append_assoc replicate_add)
    have "decoder_push (replicate (10 - k) 0 @ wires ps) (d\<lparr>sv_buffer := replicate (k mod 2) 0\<rparr>) =
        Ok (replicate ?n nop_packet @ map decoded ps, 0, d)"
      using push_loop_split_zeros [OF assms(1) n(1), of "[]" 0] assms(2) by (simp add: decoder_push_def MAX_DECODER_BUFFER_def zeros)
    then show ?thesis
      using split_first_chunk [OF k] assms(2) n(2) by (simp flip: replicate_add)
  qed
  show ?thesis
    using whole one cut ten assms(2) by (simp add: decoder_push_def MAX_DECODER_BUFFER_def)
qed

definition nop_after :: "u32 \<Rightarrow> parsed_packet" where
  "nop_after e = \<lparr>pk_event = 0, pk_fields = [], pk_text = None, pk_delta = e, pk_boundary = False\<rparr>"

lemma push_loop_shifted:
  assumes "sv_synchronized d"
  shows "0 \<notin> set es \<Longrightarrow> sv_buffer d = 0 # concat (map (\<lambda>e. encode_varint e @ [0]) es) \<Longrightarrow>
    push_loop d acc err = Ok (acc @ marked (sv_mark d) (map nop_after es), err, d\<lparr>sv_buffer := [0], sv_mark := sv_mark d \<and> es = []\<rparr>)"
  using assms
proof (induction es arbitrary: d acc)
  case Nil
  then show ?case using decode_zeros(2) by (subst push_loop.simps) (simp add: Let_def zeros10_def)
next
  case (Cons e es)
  let ?r = "0 # concat (map (\<lambda>e. encode_varint e @ [0]) es)"
  have w: "wire (Standard 0 [] None e) = 0 # encode_varint e" by (simp add: encode_varint.simps [of 0])
  have buf: "sv_buffer d = wire (Standard 0 [] None e) @ ?r" using Cons.prems(2) unfolding w by simp
  have dec: "decode_packet (wire (Standard 0 [] None e) @ ?r) = Ok (Some (nop_after e, length (wire (Standard 0 [] None e))))"
    using decode_standard_shape [of 0 "[]" None e ?r] by (simp add: shape_ok_def field_count_def nop_after_def del: wire.simps)
  obtain b bs where b: "encode_varint e = b # bs" "b \<noteq> 0" using encode_varint_head [of e] Cons.prems(1) by auto
  have no: "\<not> zeros10 (sv_buffer d)" "sv_buffer d \<noteq> []" unfolding buf w b(1) using b(2) by (simp_all add: zeros10_def)
  have same: "marked False (map nop_after es) = map nop_after es" by (cases es) (simp_all add: nop_after_def)
  have "push_loop d acc err = push_loop (d\<lparr>sv_buffer := ?r, sv_mark := False\<rparr>) (acc @ [(nop_after e)\<lparr>pk_boundary := sv_mark d\<rparr>]) err"
    using Cons.prems(3) no dec buf by (subst push_loop.simps) (simp add: Let_def del: wire.simps)
  also have "\<dots> = Ok ((acc @ [(nop_after e)\<lparr>pk_boundary := sv_mark d\<rparr>]) @ map nop_after es, err, d\<lparr>sv_buffer := [0], sv_mark := False\<rparr>)"
    using Cons.IH [of "d\<lparr>sv_buffer := ?r, sv_mark := False\<rparr>"] Cons.prems same by simp
  finally show ?case by simp
qed

text \<open>A zero before the marker.\<close>

lemma zero_before_marker:
  assumes "find_sync_marker junk = None" "junk = [] \<or> last junk \<noteq> 0" "0 \<notin> set es"
  shows "feed [(junk @ [0]) @ replicate 10 0 @ concat (map (\<lambda>e. encode_varint e @ [0]) es)] default_decoder =
    Ok (marked True (map nop_after es), 0, \<lparr>sv_buffer = [0], sv_synchronized = True, sv_mark = (es = [])\<rparr>)"
proof -
  let ?w = "concat (map (\<lambda>e. encode_varint e @ [0]) es)"
  have stream: "(junk @ [0]) @ replicate 10 0 @ ?w = junk @ replicate 10 0 @ 0 # ?w"
    by (simp add: replicate_app_Cons_same)
  have "clean junk" using assms by (simp add: clean_def)
  then have found: "find_sync_marker (junk @ replicate 10 0 @ 0 # ?w) = Some (length junk)"
    using find_clean find_marker by simp
  let ?d = "\<lparr>sv_buffer = junk @ replicate 10 0 @ 0 # ?w, sv_synchronized = False, sv_mark = False\<rparr>"
  have "push_loop ?d [] 0 = push_loop \<lparr>sv_buffer = 0 # ?w, sv_synchronized = True, sv_mark = True\<rparr> [] 0"
    using push_loop_marker [of ?d "length junk" "[]" 0] found by simp
  also have "\<dots> = Ok (marked True (map nop_after es), 0, \<lparr>sv_buffer = [0], sv_synchronized = True, sv_mark = (es = [])\<rparr>)"
    using push_loop_shifted [of "\<lparr>sv_buffer = 0 # ?w, sv_synchronized = True, sv_mark = True\<rparr>" es "[]" 0] assms(3) by simp
  finally show ?thesis
    unfolding stream by (simp add: decoder_push_def default_decoder_def MAX_DECODER_BUFFER_def)
qed

text \<open>
  C39. Markers the decoder misreads. A target that restarts its trace while the decoder is synchronized sends another marker, and its
  packets follow: when the marker arrives in one chunk, or is cut after its first byte, the first packet that follows is marked as the start of an epoch;
  cut after any other of its bytes, the ten zeros are taken for five empty events, and the packets follow with no epoch marked. And a decoder that attaches
  takes the first ten zeros for the marker: if a single zero stands before the marker, as the last byte of every packet with time difference
  zero does, the stream is read one byte early from then on: of the events without parameters that follow with time difference zero, whatever
  they are, none is decoded; each becomes an empty event, with the identifier as its time difference, and no error is counted.
\<close>

theorem marker_misread:
  assumes "list_all wire_ok ps" "d = \<lparr>sv_buffer = [], sv_synchronized = True, sv_mark = False\<rparr>"
    and "find_sync_marker junk = None" "junk = [] \<or> last junk \<noteq> 0" "0 \<notin> set es"
  shows "feed [replicate 10 0 @ wires ps] d = Ok (marked True (map decoded ps), 0, d\<lparr>sv_mark := (ps = [])\<rparr>) \<and>
    feed [replicate 1 0, replicate 9 0 @ wires ps] d = Ok (marked True (map decoded ps), 0, d\<lparr>sv_mark := (ps = [])\<rparr>) \<and>
    (\<forall>k. 2 \<le> k \<and> k \<le> 9 \<longrightarrow>
      feed [replicate k 0, replicate (10 - k) 0 @ wires ps] d = Ok (replicate 5 nop_packet @ map decoded ps, 0, d)) \<and>
    feed [(junk @ [0]) @ replicate 10 0 @ concat (map (\<lambda>e. encode_varint e @ [0]) es)] default_decoder =
      Ok (marked True (map nop_after es), 0, \<lparr>sv_buffer = [0], sv_synchronized = True, sv_mark = (es = [])\<rparr>)"
  using split_marker [OF assms(1,2)] zero_before_marker [OF assms(3-5)] by blast

lemma marker_misread_witness:
  "feed [replicate 3 0, replicate 7 0 @ [10, 0]] \<lparr>sv_buffer = [], sv_synchronized = True, sv_mark = False\<rparr> =
    Ok (replicate 5 nop_packet @ [\<lparr>pk_event = 10, pk_fields = [], pk_text = None, pk_delta = 0, pk_boundary = False\<rparr>], 0,
        \<lparr>sv_buffer = [], sv_synchronized = True, sv_mark = False\<rparr>) \<and>
   feed [[7, 0] @ replicate 10 0 @ [10, 0, 17, 0]] default_decoder =
    Ok ([(nop_after 10)\<lparr>pk_boundary := True\<rparr>, nop_after 17], 0, \<lparr>sv_buffer = [0], sv_synchronized = True, sv_mark = False\<rparr>)"
proof -
  let ?p = "Standard 10 [] None 0" and ?d = "\<lparr>sv_buffer = [], sv_synchronized = True, sv_mark = False\<rparr>"
  have w: "wire ?p = [10, 0]" "encode_varint 10 = [10]" "encode_varint 17 = [17]" by code_simp+
  have ok: "list_all wire_ok [?p]" by (simp add: w shape_ok_def field_count_def MAX_DECODER_BUFFER_def del: wire.simps)
  have j: "find_sync_marker [7] = None" "[7] = [] \<or> last [7 :: byte] \<noteq> 0" "0 \<notin> set [10, 17 :: u32]" by (simp_all add: zeros10_def)
  have "\<forall>k. 2 \<le> k \<and> k \<le> 9 \<longrightarrow>
      feed [replicate k 0, replicate (10 - k) 0 @ wires [?p]] ?d = Ok (replicate 5 nop_packet @ map decoded [?p], 0, ?d)"
    and z: "feed [([7] @ [0]) @ replicate 10 0 @ concat (map (\<lambda>e. encode_varint e @ [0]) [10, 17])] default_decoder =
      Ok (marked True (map nop_after [10, 17]), 0, \<lparr>sv_buffer = [0], sv_synchronized = True, sv_mark = ([10, 17 :: u32] = [])\<rparr>)"
    using marker_misread [OF ok refl j] by blast+
  from spec [OF this(1), of 3] z show ?thesis by (simp add: w del: wire.simps feed.simps)
qed

end
