(* ===== verification/SystemView_Trace.thy ===== *)
theory SystemView_Trace
  imports SystemView_Decoder "HOL-Library.AList" "HOL-Library.Product_Lexorder"
begin

text \<open>
  The state of a SystemView trace: the first half of \<open>plugins/rtt/systemview.rs\<close>. Packets become events of a bounded
  history, and the intervals between them are charged to the task that ran. Cycle counts and other 64-bit counters saturate, as in the code
  (\<open>sat64\<close>); instants are nanoseconds. A \<open>BTreeMap\<close> is an association list with distinct keys: the code reads it whole only to sort it.
\<close>

section \<open>Events and replay\<close>

definition MAX_EVENT_HISTORY :: nat where "MAX_EVENT_HISTORY = 8192"
definition TARGET_DROP_RATE_WINDOW :: nat where "TARGET_DROP_RATE_WINDOW = 2000000000"
definition TARGET_DROP_RATE_BUCKET :: nat where "TARGET_DROP_RATE_BUCKET = 100000000"
definition METADATA_RETRY_DELAYS_MS :: "nat list" where
  "METADATA_RETRY_DELAYS_MS = [350, 1000, 2500, 5000, 10000, 20000, 30000, 45000, 60000, 90000]"

datatype systemview_phase = PhaseIdle | PhaseRecording | PhaseStopped

record systemview_event =
  ev_sequence :: nat
  ev_id :: u32
  ev_kind :: string
  ev_cycles :: nat
  ev_delta :: u32
  ev_context :: "u32 option"
  ev_value :: "u64 option"
  ev_text :: "byte list option"
  ev_boundary :: bool

record execution_state =
  ex_active :: "u32 option"
  ex_interrupted :: "u32 option"
  ex_interrupted_idle :: bool
  ex_irq_depth :: nat
  ex_idle :: bool

definition default_execution :: execution_state where
  "default_execution = \<lparr>ex_active = None, ex_interrupted = None, ex_interrupted_idle = False, ex_irq_depth = 0, ex_idle = False\<rparr>"

definition sat32 :: "nat \<Rightarrow> nat" where "sat32 n = min n (2 ^ 32 - 1)"

definition apply_event :: "systemview_event \<Rightarrow> execution_state \<Rightarrow> execution_state" where
  "apply_event e x =
     (let x = (if ev_boundary e then default_execution else x); i = ev_id e in
      if i \<in> {1, 10, 11, 18} then default_execution
      else if i = 2 then
        (let x = (if ex_irq_depth x = 0
                  then x\<lparr>ex_interrupted := ex_active x, ex_active := None, ex_interrupted_idle := ex_idle x, ex_idle := False\<rparr> else x) in
         x\<lparr>ex_irq_depth := sat32 (ex_irq_depth x + 1)\<rparr>)
      else if i = 3 then
        (let x = x\<lparr>ex_irq_depth := ex_irq_depth x - 1\<rparr> in
         if ex_irq_depth x = 0
         then x\<lparr>ex_active := ex_interrupted x, ex_interrupted := None,
                ex_idle := (ex_interrupted x = None \<and> ex_interrupted_idle x), ex_interrupted_idle := False\<rparr>
         else x)
      else if i = 4 then default_execution\<lparr>ex_active := ev_context e\<rparr>
      else if i = 5 then x\<lparr>ex_active := None\<rparr>
      else if i = 17 then x\<lparr>ex_active := None, ex_idle := True\<rparr>
      else if i = 29 then
        (let x = (if ev_context e = ex_active x then x\<lparr>ex_active := None\<rparr> else x) in
         if ev_context e = ex_interrupted x then x\<lparr>ex_interrupted := None\<rparr> else x)
      else x)"

datatype systemview_control = ControlStart | ControlStop | RefreshMetadata | RefreshTasks

definition parse_control :: "string \<Rightarrow> systemview_control option" where
  "parse_control s =
     (if s = ''start'' then Some ControlStart else if s = ''stop'' then Some ControlStop
      else if s = ''refresh'' then Some RefreshMetadata else if s = ''refresh_tasks'' then Some RefreshTasks else None)"

fun control_bytes :: "systemview_control \<Rightarrow> byte list" where
  "control_bytes ControlStart = [1]"
| "control_bytes ControlStop = [2]"
| "control_bytes RefreshMetadata = [5, 4, 3]"
| "control_bytes RefreshTasks = [4]"

section \<open>The trace\<close>

record task_state =
  ts_name :: "byte list option"
  ts_priority :: "u32 option"
  ts_runtime :: nat
  ts_switches :: nat
  ts_terminated :: bool

definition default_task :: task_state where
  "default_task = \<lparr>ts_name = None, ts_priority = None, ts_runtime = 0, ts_switches = 0, ts_terminated = False\<rparr>"

record trace_state =
  generation :: nat
  channel_index :: nat
  control_available :: bool
  trace_phase :: systemview_phase
  event_count :: nat
  metadata_sync_attempts :: nat
  target_overflow_packets :: nat
  target_dropped_events :: nat
  target_drop_samples :: "(nat \<times> nat) list"
  decoder_errors :: nat
  presentation_dropped :: nat
  cleared_through :: nat
  sys_freq :: "u32 option"
  cpu_freq :: "u32 option"
  ram_base :: "u32 option"
  id_shift :: "u32 option"
  system_description :: "byte list list"
  window_start :: nat
  last_cycles :: nat
  active_task :: "(u32 \<times> nat) option"
  interrupted_task :: "u32 option"
  isr_depth :: nat
  tasks :: "(u32 \<times> task_state) list"
  entry_state :: execution_state
  trace_events :: "systemview_event list"
  next_sequence :: nat

definition new_trace :: "nat \<Rightarrow> nat \<Rightarrow> bool \<Rightarrow> trace_state" where
  "new_trace g channel control =
     \<lparr>generation = g, channel_index = channel, control_available = control, trace_phase = PhaseIdle, event_count = 0,
      metadata_sync_attempts = 0, target_overflow_packets = 0, target_dropped_events = 0, target_drop_samples = [],
      decoder_errors = 0, presentation_dropped = 0, cleared_through = 0, sys_freq = None, cpu_freq = None, ram_base = None,
      id_shift = None, system_description = [], window_start = 0, last_cycles = 0, active_task = None,
      interrupted_task = None, isr_depth = 0, tasks = [], entry_state = default_execution, trace_events = [], next_sequence = 1\<rparr>"

text \<open>\<open>tasks.entry(id).or_default()\<close>, changed by a function.\<close>

definition task_entry :: "trace_state \<Rightarrow> u32 \<Rightarrow> task_state" where
  "task_entry t i = (case map_of (tasks t) i of None \<Rightarrow> default_task | Some k \<Rightarrow> k)"

definition update_task :: "u32 \<Rightarrow> (task_state \<Rightarrow> task_state) \<Rightarrow> trace_state \<Rightarrow> trace_state" where
  "update_task i f t = t\<lparr>tasks := AList.update i (f (task_entry t i)) (tasks t)\<rparr>"

definition close_active_task :: "nat \<Rightarrow> trace_state \<Rightarrow> u32 option \<times> trace_state" where
  "close_active_task at t =
     (case active_task t of
        None \<Rightarrow> (None, t)
      | Some (i, started) \<Rightarrow>
          (Some i, update_task i (\<lambda>k. k\<lparr>ts_runtime := sat64 (ts_runtime k + (at - started))\<rparr>) (t\<lparr>active_task := None\<rparr>)))"

definition forget_execution :: "nat \<Rightarrow> trace_state \<Rightarrow> trace_state" where
  "forget_execution at t = (snd (close_active_task at t))\<lparr>interrupted_task := None, isr_depth := 0\<rparr>"

text \<open>Samples of recent losses, merged when they are less than a tenth of a second apart, for two seconds.\<close>

definition record_drop :: "nat \<Rightarrow> nat \<Rightarrow> (nat \<times> nat) list \<Rightarrow> (nat \<times> nat) list" where
  "record_drop now dropped samples =
     dropWhile (\<lambda>(at, _). now - at > TARGET_DROP_RATE_WINDOW)
       (if samples = [] then [(now, dropped)]
        else if now - fst (last samples) < TARGET_DROP_RATE_BUCKET
        then butlast samples @ [(fst (last samples), sat64 (snd (last samples) + dropped))]
        else samples @ [(now, dropped)])"

definition first_field :: "parsed_packet \<Rightarrow> u32 option" where
  "first_field p = (case pk_fields p of [] \<Rightarrow> None | f # _ \<Rightarrow> Some f)"

definition field :: "nat \<Rightarrow> parsed_packet \<Rightarrow> u32 option" where
  "field n p = get_opt (pk_fields p) n"

abbreviation as_value :: "u32 option \<Rightarrow> u64 option" where "as_value v \<equiv> map_option ucast v"

type_synonym arm = "u32 option \<times> u64 option \<times> byte list option \<times> trace_state"

text \<open>One definition per arm that changes the trace.\<close>

definition overflow_arm :: "nat \<Rightarrow> bool \<Rightarrow> parsed_packet \<Rightarrow> trace_state \<Rightarrow> u64 option \<times> trace_state" where
  "overflow_arm now track p t =
     (let dropped = (case first_field p of None \<Rightarrow> 0 | Some f \<Rightarrow> f);
          t = t\<lparr>target_overflow_packets := sat64 (target_overflow_packets t + 1),
                target_dropped_events := sat64 (target_dropped_events t + unat dropped)\<rparr>;
          t = (if track then t\<lparr>target_drop_samples := record_drop now (unat dropped) (target_drop_samples t)\<rparr> else t) in
      (Some (ucast dropped), t))"

definition isr_enter_arm :: "trace_state \<Rightarrow> trace_state" where
  "isr_enter_arm t =
     (let t = (if isr_depth t = 0
               then (let (i, t) = close_active_task (last_cycles t) t in t\<lparr>interrupted_task := i\<rparr>) else t) in
      t\<lparr>isr_depth := sat32 (isr_depth t + 1)\<rparr>)"

definition isr_exit_arm :: "trace_state \<Rightarrow> trace_state" where
  "isr_exit_arm t =
     (let t = t\<lparr>isr_depth := isr_depth t - 1\<rparr> in
      if isr_depth t = 0
      then (case interrupted_task t of
              None \<Rightarrow> t
            | Some i \<Rightarrow> t\<lparr>interrupted_task := None, active_task := Some (i, last_cycles t)\<rparr>)
      else t)"

definition task_start_arm :: "u32 \<Rightarrow> trace_state \<Rightarrow> trace_state" where
  "task_start_arm i t =
     (update_task i (\<lambda>k. k\<lparr>ts_switches := sat64 (ts_switches k + 1)\<rparr>) (forget_execution (last_cycles t) t))
       \<lparr>active_task := Some (i, last_cycles t)\<rparr>"

definition task_create_arm :: "u32 \<Rightarrow> trace_state \<Rightarrow> trace_state" where
  "task_create_arm i t = update_task i (\<lambda>k. if ts_terminated k then default_task else k) t"

definition task_terminate_arm :: "u32 \<Rightarrow> trace_state \<Rightarrow> trace_state" where
  "task_terminate_arm i t =
     (let t = (if map_option fst (active_task t) = Some i then snd (close_active_task (last_cycles t) t) else t);
          t = (if interrupted_task t = Some i then t\<lparr>interrupted_task := None\<rparr> else t) in
      update_task i (\<lambda>k. k\<lparr>ts_terminated := True\<rparr>) t)"

definition task_info_arm :: "parsed_packet \<Rightarrow> u32 \<Rightarrow> trace_state \<Rightarrow> trace_state" where
  "task_info_arm p i t =
     update_task i
       (\<lambda>k. (k\<lparr>ts_priority := field 1 p\<rparr>)\<lparr>ts_name := (case pk_text p of None \<Rightarrow> ts_name k | Some s \<Rightarrow> Some s)\<rparr>) t"

definition description_arm :: "parsed_packet \<Rightarrow> trace_state \<Rightarrow> trace_state" where
  "description_arm p t =
     (case pk_text p of
        None \<Rightarrow> t
      | Some s \<Rightarrow> if s \<noteq> [] \<and> s \<notin> set (system_description t) then t\<lparr>system_description := system_description t @ [s]\<rparr> else t)"

definition packet_arm :: "nat \<Rightarrow> bool \<Rightarrow> parsed_packet \<Rightarrow> trace_state \<Rightarrow> arm" where
  "packet_arm now track p t =
     (let e = pk_event p; first = first_field p; text = pk_text p in
      if e = 1 then (let (v, t) = overflow_arm now track p t in (None, v, text, t))
      else if e = 2 then (first, None, text, isr_enter_arm t)
      else if e = 3 then (None, None, text, isr_exit_arm t)
      else if e = 4 then (case first of None \<Rightarrow> (None, None, text, t) | Some i \<Rightarrow> (Some i, None, text, task_start_arm i t))
      else if e \<in> {5, 17} then
        (None, None, text, (snd (close_active_task (last_cycles t) t))\<lparr>interrupted_task := None\<rparr>)
      else if e \<in> {6, 15, 16, 19} then (first, None, text, t)
      else if e = 8 then (case first of None \<Rightarrow> (None, None, text, t) | Some i \<Rightarrow> (Some i, None, text, task_create_arm i t))
      else if e = 29 then (case first of None \<Rightarrow> (None, None, text, t) | Some i \<Rightarrow> (Some i, None, text, task_terminate_arm i t))
      else if e = 7 then (first, as_value (field 1 p), text, t)
      else if e = 9 then (case first of None \<Rightarrow> (None, None, text, t) | Some i \<Rightarrow> (Some i, None, text, task_info_arm p i t))
      else if e = 10 then (None, None, text, t\<lparr>trace_phase := PhaseRecording\<rparr>)
      else if e = 11 then (None, None, text, (forget_execution (last_cycles t) t)\<lparr>trace_phase := PhaseStopped\<rparr>)
      else if e = 12 then (None, as_value first, text, t)
      else if e = 13 then
        (None, Some (ucast (case first of None \<Rightarrow> 0 | Some f \<Rightarrow> f) OR push_bit 32 (ucast (case field 1 p of None \<Rightarrow> 0 | Some f \<Rightarrow> f))), text, t)
      else if e = 14 then (None, None, text, description_arm p t)
      else if e = 18 then (None, None, text, t\<lparr>isr_depth := 0, interrupted_task := None\<rparr>)
      else if e = 21 then (first, as_value (field 3 p), text, t)
      else if e = 23 then (first, as_value (field 1 p), text, t)
      else if e = 24 then
        (None, None, text, t\<lparr>sys_freq := first, cpu_freq := field 1 p, ram_base := field 2 p, id_shift := field 3 p\<rparr>)
      else if e = 25 then (first, None, text, t)
      else if e \<in> {27, 31} then (None, as_value first, text, t)
      else (None, as_value first, if text = Some [] then None else text, t))"

text \<open>Which events leave the history, and what they do to the state it starts from.\<close>

fun evict_events :: "systemview_event list \<Rightarrow> execution_state \<Rightarrow> systemview_event list \<times> execution_state" where
  "evict_events [] x = ([], x)"
| "evict_events (e # es) x =
     (if length (e # es) > MAX_EVENT_HISTORY then evict_events es (apply_event e x) else (e # es, x))"

definition start_packet :: "parsed_packet \<Rightarrow> trace_state \<Rightarrow> trace_state" where
  "start_packet p t =
     (let prev = last_cycles t;
          t = (if pk_boundary p then forget_execution prev t else t);
          t = (if pk_event p = 1 then forget_execution prev t else t) in
      t\<lparr>last_cycles := sat64 (prev + unat (pk_delta p)), event_count := sat64 (event_count t + 1)\<rparr>)"

definition apply_packet :: "nat \<Rightarrow> bool \<Rightarrow> parsed_packet \<Rightarrow> trace_state \<Rightarrow> systemview_event \<times> trace_state" where
  "apply_packet now track p t =
     (let (context, value, text, t) = packet_arm now track p (start_packet p t);
          e = \<lparr>ev_sequence = next_sequence t, ev_id = pk_event p, ev_kind = event_kind (pk_event p), ev_cycles = last_cycles t,
               ev_delta = pk_delta p, ev_context = context, ev_value = value, ev_text = text, ev_boundary = pk_boundary p\<rparr>;
          (es, x) = evict_events (trace_events t @ [e]) (entry_state t) in
      (e, t\<lparr>next_sequence := sat64 (next_sequence t + 1), trace_events := es, entry_state := x\<rparr>))"

definition trace_history :: "nat \<Rightarrow> trace_state \<Rightarrow> systemview_event list" where
  "trace_history limit t =
     (let limit = max 1 (min limit MAX_EVENT_HISTORY) in drop (length (trace_events t) - limit) (trace_events t))"

definition mark_input_gap :: "trace_state \<Rightarrow> trace_state" where
  "mark_input_gap t = forget_execution (last_cycles t) t"

definition clear_trace :: "trace_state \<Rightarrow> trace_state" where
  "clear_trace t =
     t\<lparr>event_count := 0, target_overflow_packets := 0, target_dropped_events := 0, target_drop_samples := [],
       decoder_errors := 0, presentation_dropped := 0, trace_events := [],
       entry_state := fold apply_event (trace_events t) (entry_state t), cleared_through := next_sequence t - 1,
       tasks := map (\<lambda>(i, k). (i, k\<lparr>ts_runtime := 0, ts_switches := 0\<rparr>)) (tasks t),
       active_task := map_option (\<lambda>(i, _). (i, last_cycles t)) (active_task t), window_start := last_cycles t\<rparr>"

record task_snapshot =
  tn_id :: u32
  tn_name :: "byte list option"
  tn_priority :: "u32 option"
  tn_runtime :: nat
  tn_switches :: nat

definition task_runtime :: "trace_state \<Rightarrow> u32 \<Rightarrow> task_state \<Rightarrow> nat" where
  "task_runtime t i k =
     (case active_task t of
        Some (a, started) \<Rightarrow> if a = i then sat64 (ts_runtime k + (last_cycles t - started)) else ts_runtime k
      | None \<Rightarrow> ts_runtime k)"

definition snapshot_tasks :: "trace_state \<Rightarrow> task_snapshot list" where
  "snapshot_tasks t =
     sort_key (\<lambda>s. (- int (tn_runtime s), unat (tn_id s)))
       (map (\<lambda>(i, k). \<lparr>tn_id = i, tn_name = ts_name k, tn_priority = ts_priority k, tn_runtime = task_runtime t i k,
          tn_switches = ts_switches k\<rparr>) (tasks t))"

definition drop_rate_per_sec :: "nat \<Rightarrow> trace_state \<Rightarrow> nat" where
  "drop_rate_per_sec now t =
     (let recent = fold (\<lambda>(_, d) s. sat64 (s + d)) (filter (\<lambda>(at, _). now - at \<le> TARGET_DROP_RATE_WINDOW) (target_drop_samples t)) 0 in
      sat64 (div_ceil (recent * 1000) 2000))"

section \<open>What is charged to the tasks\<close>

text \<open>All cycles charged so far, those of the running task included.\<close>

definition task_cycles :: "trace_state \<Rightarrow> nat" where
  "task_cycles t = sum_list (map (ts_runtime \<circ> snd) (tasks t))"

definition charged :: "trace_state \<Rightarrow> nat" where
  "charged t = task_cycles t + (case active_task t of None \<Rightarrow> 0 | Some (_, started) \<Rightarrow> last_cycles t - started)"

definition trace_ok :: "trace_state \<Rightarrow> bool" where
  "trace_ok t \<longleftrightarrow> distinct (map fst (tasks t)) \<and> window_start t \<le> last_cycles t \<and> last_cycles t \<le> 2 ^ 64 - 1 \<and>
     (\<forall>i s. active_task t = Some (i, s) \<longrightarrow> window_start t \<le> s \<and> s \<le> last_cycles t) \<and>
     charged t \<le> last_cycles t - window_start t \<and> (0 < isr_depth t \<longrightarrow> active_task t = None)"

lemma sum_update:
  "distinct (map fst xs) \<Longrightarrow>
   sum_list (map (f \<circ> snd) (AList.update i k xs)) + (case map_of xs i of None \<Rightarrow> 0 | Some k' \<Rightarrow> f k') =
   sum_list (map (f \<circ> snd) xs) + f k" for f :: "'b \<Rightarrow> nat"
proof (induction xs)
  case (Cons x xs)
  then show ?case by (cases x) (auto simp: map_of_eq_None_iff image_iff split: option.splits)
qed simp

lemma cycles_update:
  assumes "distinct (map fst (tasks t))"
  shows "task_cycles (update_task i f t) + ts_runtime (task_entry t i) = task_cycles t + ts_runtime (f (task_entry t i))"
  using sum_update [OF assms, of ts_runtime i "f (task_entry t i)"]
  by (simp add: task_cycles_def update_task_def task_entry_def default_task_def split: option.splits)

lemma update_task_simps [simp]:
  "window_start (update_task i f t) = window_start t" "last_cycles (update_task i f t) = last_cycles t"
  "active_task (update_task i f t) = active_task t" "isr_depth (update_task i f t) = isr_depth t"
  "interrupted_task (update_task i f t) = interrupted_task t"
  "distinct (map fst (tasks t)) \<Longrightarrow> distinct (map fst (tasks (update_task i f t)))"
  by (simp_all add: update_task_def AList.distinct_update)

lemma entry_runtime_le: "ts_runtime (task_entry t i) \<le> task_cycles t"
proof (cases "map_of (tasks t) i")
  case (Some k)
  then have "ts_runtime k \<in> set (map (ts_runtime \<circ> snd) (tasks t))" by (force dest: map_of_SomeD)
  then show ?thesis using Some by (simp add: task_entry_def task_cycles_def member_le_sum_list)
qed (simp add: task_entry_def default_task_def)

text \<open>A change of an entry that charges nothing.\<close>

lemma update_ok:
  assumes "trace_ok t" "ts_runtime (f (task_entry t i)) \<le> ts_runtime (task_entry t i)"
  shows "trace_ok (update_task i f t)"
proof -
  have "distinct (map fst (tasks t))" using assms(1) by (simp add: trace_ok_def)
  then have "task_cycles (update_task i f t) \<le> task_cycles t" using cycles_update [of t i f] assms(2) by simp
  then show ?thesis using assms(1) by (auto simp: trace_ok_def charged_def split: option.splits)
qed

lemma close_ok:
  assumes "trace_ok t" "close_active_task (last_cycles t) t = (i, t')"
  shows "trace_ok t' \<and> active_task t' = None \<and> last_cycles t' = last_cycles t \<and> window_start t' = window_start t \<and>
    isr_depth t' = isr_depth t \<and> interrupted_task t' = interrupted_task t \<and> i = map_option fst (active_task t)"
proof (cases "active_task t")
  case None
  then show ?thesis using assms by (simp add: close_active_task_def)
next
  case (Some a)
  obtain j s where a: "active_task t = Some (j, s)" using Some by (cases a) simp
  let ?f = "\<lambda>k. k\<lparr>ts_runtime := sat64 (ts_runtime k + (last_cycles t - s))\<rparr>" and ?u = "t\<lparr>active_task := None\<rparr>"
  have t': "t' = update_task j ?f ?u" "i = Some j" using assms(2) a by (simp_all add: close_active_task_def)
  have d: "distinct (map fst (tasks ?u))" and b: "charged t \<le> last_cycles t - window_start t" using assms(1) by (simp_all add: trace_ok_def)
  have "task_cycles (update_task j ?f ?u) \<le> task_cycles ?u + (last_cycles t - s)"
    using cycles_update [OF d, of j ?f] by (simp add: sat64_def)
  then have "task_cycles t' \<le> charged t" by (simp add: t' charged_def a task_cycles_def)
  with b assms(1) d show ?thesis unfolding trace_ok_def by (simp add: t' a charged_def)
qed

text \<open>What the accounting looks at.\<close>

lemma trace_ok_frame:
  assumes "trace_ok t" "tasks t' = tasks t" "window_start t' = window_start t" "last_cycles t' = last_cycles t"
    "active_task t' = active_task t" "isr_depth t' \<le> isr_depth t \<or> active_task t = None"
  shows "trace_ok t'"
proof -
  have "charged t' = charged t" unfolding charged_def task_cycles_def assms(2-5) ..
  with assms show ?thesis by (auto simp: trace_ok_def)
qed

lemma forget_ok:
  assumes "trace_ok t"
  shows "trace_ok (forget_execution (last_cycles t) t) \<and> active_task (forget_execution (last_cycles t) t) = None \<and>
    last_cycles (forget_execution (last_cycles t) t) = last_cycles t \<and> isr_depth (forget_execution (last_cycles t) t) = 0"
proof -
  obtain i t' where c: "close_active_task (last_cycles t) t = (i, t')" by fastforce
  note u = close_ok [OF assms c]
  then have "trace_ok (t'\<lparr>interrupted_task := None, isr_depth := 0\<rparr>)" using trace_ok_frame [of t'] by simp
  with u c show ?thesis by (simp add: forget_execution_def)
qed

lemma advance_ok:
  assumes "trace_ok t"
  shows "trace_ok (t\<lparr>last_cycles := sat64 (last_cycles t + n), event_count := c\<rparr>)"
proof -
  have "last_cycles t \<le> sat64 (last_cycles t + n)" using assms by (simp add: trace_ok_def sat64_def)
  moreover have "sat64 (last_cycles t + n) \<le> 2 ^ 64 - 1" by (simp add: sat64_def)
  ultimately show ?thesis using assms by (auto simp: trace_ok_def charged_def task_cycles_def split: option.splits)
qed

lemma start_packet_ok: "trace_ok t \<Longrightarrow> trace_ok (start_packet p t)"
proof -
  assume ok: "trace_ok t"
  let ?t1 = "if pk_boundary p then forget_execution (last_cycles t) t else t"
  have 1: "trace_ok ?t1" "last_cycles ?t1 = last_cycles t" using forget_ok [OF ok] ok by auto
  let ?t2 = "if pk_event p = 1 then forget_execution (last_cycles t) ?t1 else ?t1"
  have 2: "trace_ok ?t2" "last_cycles ?t2 = last_cycles t" using forget_ok [OF 1(1)] 1 by auto
  show ?thesis using advance_ok [OF 2(1), where n = "unat (pk_delta p)" and c = "sat64 (event_count ?t2 + 1)"]
    unfolding 2(2) start_packet_def Let_def .
qed

lemma isr_enter_ok:
  assumes "trace_ok t"
  shows "trace_ok (isr_enter_arm t)"
proof (cases "isr_depth t = 0")
  case True
  obtain i t' where c: "close_active_task (last_cycles t) t = (i, t')" by fastforce
  with close_ok [OF assms c] True show ?thesis
    by (auto simp: isr_enter_arm_def Let_def intro: trace_ok_frame [where t = t'])
next
  case False
  then have "active_task t = None" using assms by (simp add: trace_ok_def)
  with False show ?thesis by (auto simp: isr_enter_arm_def Let_def intro: trace_ok_frame [OF assms])
qed

lemma set_active_ok:
  assumes "trace_ok t" "isr_depth t' = 0" "tasks t' = tasks t" "window_start t' = window_start t" "last_cycles t' = last_cycles t"
    "active_task t' = Some (i, last_cycles t)"
  shows "trace_ok t'"
  using assms by (auto simp: trace_ok_def charged_def task_cycles_def)

lemma isr_exit_ok:
  assumes "trace_ok t"
  shows "trace_ok (isr_exit_arm t)"
proof (cases "isr_depth t - 1 = 0 \<and> interrupted_task t \<noteq> None")
  case True
  then obtain i where i: "interrupted_task t = Some i" by blast
  show ?thesis by (rule set_active_ok [OF assms, where i = i]) (use True i in \<open>simp_all add: isr_exit_arm_def Let_def\<close>)
next
  case False
  then show ?thesis by (auto simp: isr_exit_arm_def Let_def intro!: trace_ok_frame [OF assms])
qed

lemma task_start_ok:
  assumes "trace_ok t"
  shows "trace_ok (task_start_arm i t)"
proof -
  let ?f = "forget_execution (last_cycles t) t" and ?g = "\<lambda>k. k\<lparr>ts_switches := sat64 (ts_switches k + 1)\<rparr>"
  have "trace_ok (update_task i ?g ?f)" by (rule update_ok) (use forget_ok [OF assms] in simp_all)
  then show ?thesis using forget_ok [OF assms] by (auto simp: task_start_arm_def intro: set_active_ok)
qed

lemma task_terminate_ok:
  assumes "trace_ok t"
  shows "trace_ok (task_terminate_arm i t)"
proof -
  obtain j t' where c: "close_active_task (last_cycles t) t = (j, t')" by fastforce
  let ?t1 = "if map_option fst (active_task t) = Some i then snd (close_active_task (last_cycles t) t) else t"
  let ?t2 = "if interrupted_task ?t1 = Some i then ?t1\<lparr>interrupted_task := None\<rparr> else ?t1"
  have "trace_ok ?t1" using close_ok [OF assms c] assms c by simp
  then have "trace_ok ?t2" using trace_ok_frame [of ?t1 ?t2] by simp
  then show ?thesis unfolding task_terminate_arm_def Let_def by (rule update_ok) simp
qed

lemma packet_arm_ok:
  assumes ok: "trace_ok t" and a: "packet_arm now track p t = (c, v, x, t')"
  shows "trace_ok t'"
proof -
  obtain i u where cl: "close_active_task (last_cycles t) t = (i, u)" by fastforce
  have "trace_ok (u\<lparr>interrupted_task := None\<rparr>)" using close_ok [OF ok cl] trace_ok_frame [of u] by simp
  moreover have "trace_ok (snd (overflow_arm now track p t))"
    by (rule trace_ok_frame [OF ok]) (simp_all add: overflow_arm_def Let_def)
  moreover have "trace_ok (description_arm p t)"
    by (rule trace_ok_frame [OF ok]) (simp_all add: description_arm_def split: option.split)
  moreover have "trace_ok (task_create_arm j t)" "trace_ok (task_info_arm p j t)" for j
    unfolding task_create_arm_def task_info_arm_def by (rule update_ok [OF ok], simp add: default_task_def)+
  moreover have "trace_ok ((forget_execution (last_cycles t) t)\<lparr>trace_phase := PhaseStopped\<rparr>)"
    using forget_ok [OF ok] trace_ok_frame [of "forget_execution (last_cycles t) t"] by simp
  moreover have "trace_ok (t\<lparr>trace_phase := PhaseRecording\<rparr>)" "trace_ok (t\<lparr>isr_depth := 0, interrupted_task := None\<rparr>)"
    "trace_ok (t\<lparr>sys_freq := f1, cpu_freq := f2, ram_base := f3, id_shift := f4\<rparr>)" for f1 f2 f3 f4
    by (rule trace_ok_frame [OF ok]; simp)+
  ultimately show ?thesis
    using a ok isr_enter_ok [OF ok] isr_exit_ok [OF ok] task_start_ok [OF ok] task_terminate_ok [OF ok] cl
    by (auto simp: packet_arm_def Let_def split_beta split: if_splits option.splits)
qed

lemma apply_packet_ok:
  assumes "trace_ok t" "apply_packet now track p t = (e, t')"
  shows "trace_ok t'"
proof -
  obtain c v x u where a: "packet_arm now track p (start_packet p t) = (c, v, x, u)" by (metis surj_pair)
  have "trace_ok u" by (rule packet_arm_ok [OF start_packet_ok [OF assms(1)] a])
  with assms(2) a show ?thesis by (auto simp: apply_packet_def Let_def split_beta intro!: trace_ok_frame [of u])
qed

lemma clear_ok:
  assumes "trace_ok t"
  shows "trace_ok (clear_trace t)"
proof -
  have "map (ts_runtime \<circ> snd) (map (\<lambda>(i, k). (i, k\<lparr>ts_runtime := 0, ts_switches := 0\<rparr>)) (tasks t)) = map (\<lambda>_. 0) (tasks t)"
    by (induction "tasks t") auto
  then have "task_cycles (clear_trace t) = 0" by (simp add: task_cycles_def clear_trace_def sum_list_triv del: map_map)
  moreover have "map fst (tasks (clear_trace t)) = map fst (tasks t)" by (simp add: clear_trace_def split_beta comp_def)
  moreover have c: "last_cycles (clear_trace t) = last_cycles t" "window_start (clear_trace t) = last_cycles t"
    "isr_depth (clear_trace t) = isr_depth t"
    "active_task (clear_trace t) = map_option (\<lambda>(i, _). (i, last_cycles t)) (active_task t)" by (simp_all add: clear_trace_def)
  ultimately show ?thesis using assms unfolding trace_ok_def charged_def c by (auto split: option.split)
qed

section \<open>Histories\<close>

text \<open>What happens to a trace: packets, gaps of the input, the user clearing it, and counters set from outside; with the events emitted so far.\<close>

inductive trace_reach :: "trace_state \<Rightarrow> systemview_event list \<Rightarrow> bool" where
  start: "trace_reach (new_trace g channel control) []"
| packet: "trace_reach t es \<Longrightarrow> apply_packet now track p t = (e, t') \<Longrightarrow> trace_reach t' (es @ [e])"
| gap: "trace_reach t es \<Longrightarrow> trace_reach (mark_input_gap t) es"
| clear: "trace_reach t es \<Longrightarrow> trace_reach (clear_trace t) es"
| counters: "trace_reach t es \<Longrightarrow>
    trace_reach (t\<lparr>decoder_errors := a, presentation_dropped := b, metadata_sync_attempts := c, control_available := d\<rparr>) es"

lemma trace_reach_ok: "trace_reach t es \<Longrightarrow> trace_ok t"
proof (induction rule: trace_reach.induct)
  case (start g channel control)
  show ?case by (simp add: trace_ok_def new_trace_def charged_def task_cycles_def)
next
  case (packet t es now track p e t')
  then show ?case using apply_packet_ok by blast
next
  case (gap t es)
  then show ?case using forget_ok by (simp add: mark_input_gap_def)
next
  case (clear t es)
  then show ?case using clear_ok by blast
next
  case (counters t es a b c d)
  then show ?case using trace_ok_frame [of t] by simp
qed

text \<open>
  C23. In every history of a trace, whatever packets the target sends, the cycles charged to all tasks together,
  the running one included, do not exceed the cycles that passed since the trace was last cleared; nothing is charged twice, no
  counter overflows, and no task runs while an interrupt is being served.
\<close>

theorem cpu_time_conserved:
  assumes "trace_reach t es"
  shows "sum_list (map (\<lambda>(i, k). task_runtime t i k) (tasks t)) \<le> last_cycles t - window_start t \<and>
    (0 < isr_depth t \<longrightarrow> active_task t = None)"
proof -
  note ok = trace_reach_ok [OF assms]
  then have d: "distinct (map fst (tasks t))" and c: "charged t \<le> last_cycles t - window_start t" by (simp_all add: trace_ok_def)
  have "sum_list (map (\<lambda>(i, k). task_runtime t i k) (tasks t)) \<le> charged t"
  proof (cases "active_task t")
    case None
    then show ?thesis by (simp add: charged_def task_cycles_def task_runtime_def comp_def case_prod_unfold)
  next
    case (Some a)
    obtain j s where a: "active_task t = Some (j, s)" using Some by (cases a) simp
    have "sum_list (map (\<lambda>(i, k). task_runtime t i k) xs) \<le>
        sum_list (map (ts_runtime \<circ> snd) xs) + (if j \<in> fst ` set xs then last_cycles t - s else 0)"
      if "distinct (map fst xs)" for xs
      using that
    proof (induction xs)
      case (Cons x xs)
      obtain i k where "x = (i, k)" by fastforce
      with Cons show ?case by (cases "i = j") (simp_all add: task_runtime_def a sat64_def)
    qed simp
    from this [OF d] show ?thesis by (auto simp: charged_def task_cycles_def a split: if_splits)
  qed
  with c ok show ?thesis by (simp add: trace_ok_def)
qed

definition demo_packet :: "u32 \<Rightarrow> u32 list \<Rightarrow> u32 \<Rightarrow> parsed_packet" where
  "demo_packet e fs delta = \<lparr>pk_event = e, pk_fields = fs, pk_text = None, pk_delta = delta, pk_boundary = False\<rparr>"

definition run_packets :: "parsed_packet list \<Rightarrow> trace_state \<Rightarrow> systemview_event list \<times> trace_state" where
  "run_packets ps t = fold (\<lambda>p (es, t). let (e, t) = apply_packet 0 True p t in (es @ [e], t)) ps ([], t)"

lemma run_packets_reach: "run_packets ps (new_trace g c b) = (es, t) \<Longrightarrow> trace_reach t es"
proof -
  have "trace_reach t es" if "fold (\<lambda>p (es, t). let (e, t) = apply_packet 0 True p t in (es @ [e], t)) ps (fs, u) = (es, t)"
    "trace_reach u fs" for ps fs u
    using that
  proof (induction ps arbitrary: fs u)
    case (Cons p ps)
    obtain e v where a: "apply_packet 0 True p u = (e, v)" by fastforce
    show ?case by (rule Cons.IH [of "fs @ [e]" v]) (use Cons.prems a trace_reach.packet in \<open>auto simp: Let_def\<close>)
  qed simp
  from this [OF _ trace_reach.start] show "run_packets ps (new_trace g c b) = (es, t) \<Longrightarrow> trace_reach t es"
    unfolding run_packets_def .
qed

lemmas run_demo = run_packets_def apply_packet_def start_packet_def packet_arm_def demo_packet_def new_trace_def Let_def
  task_start_arm_def isr_enter_arm_def isr_exit_arm_def task_terminate_arm_def forget_execution_def close_active_task_def
  update_task_def task_entry_def default_task_def first_field_def sat64_def sat32_def MAX_EVENT_HISTORY_def

lemma cpu_time_conserved_witness:
  "\<exists>es t k. run_packets [demo_packet 4 [7] 10, demo_packet 2 [3] 100, demo_packet 3 [] 1000, demo_packet 5 [] 5] (new_trace 1 1 True) = (es, t) \<and>
     tasks t = [(7, k)] \<and> ts_runtime k = 105 \<and> sum_list (map (\<lambda>(i, k). task_runtime t i k) (tasks t)) \<le> 1115"
proof -
  let ?r = "run_packets [demo_packet 4 [7] 10, demo_packet 2 [3] 100, demo_packet 3 [] 1000, demo_packet 5 [] 5] (new_trace 1 1 True)"
  have v: "map (\<lambda>(i, k). (i, ts_runtime k)) (tasks (snd ?r)) = [(7, 105)]" "last_cycles (snd ?r) = 1115" "window_start (snd ?r) = 0"
    by (simp_all add: run_demo)
  then obtain k where k: "tasks (snd ?r) = [(7, k)]" "ts_runtime k = 105" by auto
  have "trace_reach (snd ?r) (fst ?r)" by (rule run_packets_reach) simp
  from cpu_time_conserved [OF this] v k show ?thesis by (metis diff_zero prod.collapse)
qed

end
