(* ===== verification/SystemView_Replay.thy ===== *)
theory SystemView_Replay
  imports SystemView_Trace "HOL-Library.Sublist"
begin

text \<open>
  The history of a SystemView trace: what the front end replays. Events that leave the bounded history are folded into the
  state it starts from, so a replay of what is left ends where a replay of everything would; and it agrees with the accounting of the
  trace as long as the target's events are properly nested.
\<close>

section \<open>The history\<close>

abbreviation replay :: "trace_state \<Rightarrow> execution_state" where
  "replay t \<equiv> fold apply_event (trace_events t) (entry_state t)"

lemma evict_events_eq:
  "evict_events es x = (es', x') \<Longrightarrow> \<exists>k. es' = drop k es \<and> x' = fold apply_event (take k es) x \<and> length es' \<le> MAX_EVENT_HISTORY"
proof (induction es arbitrary: x)
  case (Cons e es)
  show ?case
  proof (cases "length (e # es) > MAX_EVENT_HISTORY")
    case True
    with Cons.prems have "evict_events es (apply_event e x) = (es', x')" by simp
    from Cons.IH [OF this] obtain k where "es' = drop k es" "x' = fold apply_event (take k es) (apply_event e x)"
      "length es' \<le> MAX_EVENT_HISTORY" by blast
    then show ?thesis by (intro exI [of _ "Suc k"]) simp
  next
    case False
    with Cons.prems show ?thesis by (intro exI [of _ 0]) auto
  qed
qed (simp add: MAX_EVENT_HISTORY_def)

text \<open>The arms leave the history alone.\<close>

definition same_history :: "trace_state \<Rightarrow> trace_state \<Rightarrow> bool" where
  "same_history t u \<longleftrightarrow> trace_events u = trace_events t \<and> entry_state u = entry_state t \<and> next_sequence u = next_sequence t"

lemma same_history_simps [simp]:
  "same_history t t" "same_history t (update_task i f u) = same_history t u"
  "same_history t (snd (close_active_task c u)) = same_history t u" "same_history t (forget_execution c u) = same_history t u"
  by (auto simp: same_history_def update_task_def close_active_task_def forget_execution_def split: option.splits)

lemma same_history_arms:
  "same_history t (start_packet p t)" "same_history t (snd (overflow_arm now track p t))" "same_history t (isr_enter_arm t)"
  "same_history t (isr_exit_arm t)" "same_history t (task_start_arm i t)" "same_history t (task_terminate_arm i t)"
  "same_history t (task_create_arm i t)" "same_history t (task_info_arm p i t)" "same_history t (description_arm p t)"
  by (auto simp: same_history_def start_packet_def overflow_arm_def isr_enter_arm_def isr_exit_arm_def task_start_arm_def
      task_terminate_arm_def task_create_arm_def task_info_arm_def description_arm_def Let_def update_task_def close_active_task_def
      forget_execution_def split: option.splits)

lemma packet_arm_history:
  assumes "packet_arm now track p t = (c, v, x, t')"
  shows "same_history t t'"
proof -
  have "same_history t (snd (overflow_arm now track p t))" by (rule same_history_arms)
  moreover have "same_history t ((snd (close_active_task n t))\<lparr>interrupted_task := None\<rparr>)"
    "same_history t ((forget_execution n t)\<lparr>trace_phase := PhaseStopped\<rparr>)" for n
    by (simp_all add: same_history_def close_active_task_def forget_execution_def update_task_def split: option.split)
  moreover have "same_history t (t\<lparr>trace_phase := PhaseRecording\<rparr>)" "same_history t (t\<lparr>isr_depth := 0, interrupted_task := None\<rparr>)"
    "same_history t (t\<lparr>sys_freq := f1, cpu_freq := f2, ram_base := f3, id_shift := f4\<rparr>)" for f1 f2 f3 f4
    by (simp_all add: same_history_def)
  ultimately show ?thesis using assms same_history_arms [of t]
    by (auto simp: packet_arm_def Let_def split_beta split: if_splits option.splits)
qed

lemma apply_packet_history:
  assumes "apply_packet now track p t = (e, t')"
  shows "ev_sequence e = next_sequence t \<and> next_sequence t' = sat64 (next_sequence t + 1) \<and> replay t' = apply_event e (replay t) \<and>
    suffix (trace_events t') (trace_events t @ [e]) \<and> length (trace_events t') \<le> MAX_EVENT_HISTORY"
proof -
  obtain c v x u where a: "packet_arm now track p (start_packet p t) = (c, v, x, u)" by (metis surj_pair)
  have u: "same_history t u"
    using packet_arm_history [OF a] same_history_arms(1) [of t p] by (simp add: same_history_def)
  obtain es y where ev: "evict_events (trace_events u @ [e]) (entry_state u) = (es, y)" by fastforce
  from evict_events_eq [OF ev] obtain k where k: "es = drop k (trace_events u @ [e])"
    "y = fold apply_event (take k (trace_events u @ [e])) (entry_state u)" "length es \<le> MAX_EVENT_HISTORY" by blast
  have t': "t' = u\<lparr>next_sequence := sat64 (next_sequence u + 1), trace_events := es, entry_state := y\<rparr>"
    "ev_sequence e = next_sequence u"
    using assms a ev by (auto simp: apply_packet_def Let_def split: prod.splits)
  have "fold apply_event es y = fold apply_event (trace_events u @ [e]) (entry_state u)"
    unfolding k(1,2) by (metis append_take_drop_id fold_append comp_apply)
  moreover have "suffix es (trace_events u @ [e])" unfolding k(1) by (rule suffix_drop)
  ultimately show ?thesis using u k(3) by (simp add: t' same_history_def)
qed

lemma evict_events_exact:
  "fst (evict_events es x) = drop (length es - MAX_EVENT_HISTORY) es"
proof (induction es arbitrary: x)
  case (Cons e es)
  then show ?case by (cases "length (e # es) > MAX_EVENT_HISTORY") (auto simp: Suc_diff_le)
qed simp

lemma apply_packet_events:
  assumes "apply_packet now track p t = (e, t')"
  shows "trace_events t' = drop (Suc (length (trace_events t)) - MAX_EVENT_HISTORY) (trace_events t @ [e])"
proof -
  obtain c v x u where a: "packet_arm now track p (start_packet p t) = (c, v, x, u)" by (metis surj_pair)
  have u: "same_history t u"
    using packet_arm_history [OF a] same_history_arms(1) [of t p] by (simp add: same_history_def)
  have "trace_events t' = fst (evict_events (trace_events u @ [e]) (entry_state u))"
    using assms a by (auto simp: apply_packet_def Let_def split: prod.splits)
  then show ?thesis
    using u by (simp add: evict_events_exact same_history_def)
qed

text \<open>The histories of a trace with the events emitted before and since it was last cleared.\<close>

inductive trace_log :: "trace_state \<Rightarrow> systemview_event list \<Rightarrow> systemview_event list \<Rightarrow> bool" where
  start: "trace_log (new_trace g channel control) [] []"
| packet: "trace_log t es fs \<Longrightarrow> apply_packet now track p t = (e, t') \<Longrightarrow> trace_log t' es (fs @ [e])"
| gap: "trace_log t es fs \<Longrightarrow> trace_log (mark_input_gap t) es fs"
| clear: "trace_log t es fs \<Longrightarrow> trace_log (clear_trace t) (es @ fs) []"
| counters: "trace_log t es fs \<Longrightarrow>
    trace_log (t\<lparr>decoder_errors := a, presentation_dropped := b, metadata_sync_attempts := c, control_available := d\<rparr>) es fs"

lemma trace_reach_log: "trace_reach t es \<longleftrightarrow> (\<exists>as bs. es = as @ bs \<and> trace_log t as bs)"
proof
  show "trace_reach t es \<Longrightarrow> \<exists>as bs. es = as @ bs \<and> trace_log t as bs"
  proof (induction rule: trace_reach.induct)
    case (start g channel control)
    show ?case using trace_log.start by fastforce
  next
    case (packet t es now track p e t')
    then obtain as bs where "es = as @ bs" "trace_log t as bs" by blast
    with trace_log.packet [OF this(2) packet(2)] show ?case by (intro exI [of _ as] exI [of _ "bs @ [e]"]) simp
  next
    case (gap t es)
    then show ?case using trace_log.gap by blast
  next
    case (clear t es)
    then obtain as bs where "es = as @ bs" "trace_log t as bs" by blast
    with trace_log.clear [OF this(2)] show ?case by (intro exI [of _ es] exI [of _ "[]"]) simp
  next
    case (counters t es a b c d)
    then show ?case using trace_log.counters by blast
  qed
  have "trace_log t as bs \<Longrightarrow> trace_reach t (as @ bs)" for as bs
  proof (induction rule: trace_log.induct)
    case (packet t es fs now track p e t')
    from trace_reach.packet [OF packet(3,2)] show ?case by simp
  next
    case (clear t es fs)
    from trace_reach.clear [OF clear(2)] show ?case by simp
  qed (simp_all add: trace_reach.intros)
  then show "\<exists>as bs. es = as @ bs \<and> trace_log t as bs \<Longrightarrow> trace_reach t es" by blast
qed

lemma replay_ever:
  assumes "trace_reach t es"
  shows "replay t = fold apply_event es default_execution \<and>
    map ev_sequence es = map sat64 [1..<Suc (length es)] \<and> next_sequence t = sat64 (Suc (length es))"
    using assms
proof (induction rule: trace_reach.induct)
  case (start g channel control)
  show ?case by (simp add: new_trace_def sat64_def)
next
  case (packet t es now track p e t')
  have "sat64 (sat64 n + 1) = sat64 (Suc n)" for n by (simp add: sat64_def)
  then show ?case using apply_packet_history [OF packet(2)] packet.IH by simp
next
  case (gap t es)
  have "same_history t (mark_input_gap t)" by (simp add: mark_input_gap_def)
  with gap show ?case by (simp add: same_history_def)
next
  case (clear t es)
  then show ?case by (simp add: clear_trace_def)
next
  case (counters t es a b c d)
  then show ?case by simp
qed

lemma kept_since_clear: "trace_log t es fs \<Longrightarrow> trace_events t = drop (length fs - MAX_EVENT_HISTORY) fs"
proof (induction rule: trace_log.induct)
  case (packet t es fs now track p e t')
  show ?case
  proof (cases "length fs < MAX_EVENT_HISTORY")
    case True
    with packet apply_packet_events [OF packet(2)] show ?thesis by simp
  next
    case False
    then have "Suc (MAX_EVENT_HISTORY) - MAX_EVENT_HISTORY = 1" "Suc (length fs) - MAX_EVENT_HISTORY = Suc (length fs - MAX_EVENT_HISTORY)"
      by (simp_all add: Suc_diff_le)
    moreover have "length (trace_events t) = MAX_EVENT_HISTORY" using False packet.IH by simp
    ultimately show ?thesis using packet.IH apply_packet_events [OF packet(2)] False by simp
  qed
next
  case (gap t es fs)
  have "same_history t (mark_input_gap t)" by (simp add: mark_input_gap_def)
  with gap show ?case by (simp add: same_history_def)
qed (simp_all add: new_trace_def clear_trace_def)

text \<open>
  C8. In every history of a trace the events kept are those emitted since it was last cleared, all of them while they are at most 8192 and the last 8192
  otherwise. Events are numbered consecutively from one, over clears too; and replaying the kept events from the state kept with them gives the same execution state as
  replaying every event ever emitted, whatever was evicted or cleared in between.
\<close>

theorem replay_complete:
  assumes "trace_log t es fs"
  shows "fold apply_event (trace_events t) (entry_state t) = fold apply_event (es @ fs) default_execution \<and>
    trace_events t = drop (length fs - 8192) fs \<and> map ev_sequence (es @ fs) = map sat64 [1..<Suc (length (es @ fs))]"
proof -
  have "trace_reach t (es @ fs)" using assms trace_reach_log by blast
  from replay_ever [OF this] kept_since_clear [OF assms] show ?thesis by (simp add: MAX_EVENT_HISTORY_def)
qed

lemma run_packets_log:
  assumes "trace_log u es fs"
  shows "trace_log (snd (run_packets ps u)) es (fs @ fst (run_packets ps u))"
proof -
  let ?step = "\<lambda>p (gs, t). let (e, t) = apply_packet 0 True p t in (gs @ [e], t)"
  have "trace_log (snd (fold ?step ps (gs, v))) es (fs @ fst (fold ?step ps (gs, v)))" if "trace_log v es (fs @ gs)" for gs v
    using that
  proof (induction ps arbitrary: gs v)
    case (Cons p ps)
    obtain e v' where a: "apply_packet 0 True p v = (e, v')" by fastforce
    from trace_log.packet [OF Cons.prems a] have "trace_log v' es (fs @ gs @ [e])" by simp
    from Cons.IH [OF this] a show ?case by simp
  qed simp
  from this [of u "[]"] assms show ?thesis by (simp add: run_packets_def)
qed

lemma replay_complete_witness:
  "\<exists>t u e. snd (run_packets [demo_packet 4 [7] 10, demo_packet 2 [3] 100] (new_trace 1 1 True)) = t \<and>
     run_packets [demo_packet 3 [] 1000] (clear_trace t) = ([e], u) \<and> trace_events u = [e] \<and> ev_sequence e = 3 \<and>
     fold apply_event (trace_events u) (entry_state u) = default_execution\<lparr>ex_active := Some 7\<rparr>"
proof -
  let ?a = "run_packets [demo_packet 4 [7] 10, demo_packet 2 [3] 100] (new_trace 1 1 True)"
  let ?b = "run_packets [demo_packet 3 [] 1000] (clear_trace (snd ?a))"
  have "trace_log (snd ?a) [] ([] @ fst ?a)" by (rule run_packets_log [OF trace_log.start])
  from run_packets_log [OF trace_log.clear [OF this]] have r: "trace_log (snd ?b) (fst ?a) (fst ?b)" by simp
  obtain e where e: "fst ?b = [e]" "ev_sequence e = 3" "length (fst ?a) = 2" by (simp add: run_demo clear_trace_def)
  have "fold apply_event (fst ?a @ fst ?b) default_execution = default_execution\<lparr>ex_active := Some 7\<rparr>"
    by (simp add: run_demo clear_trace_def apply_event_def default_execution_def)
  with replay_complete [OF r] e show ?thesis
    by (intro exI [of _ "snd ?a"] exI [of _ "snd ?b"] exI [of _ e]) (auto simp: prod_eq_iff)
qed

section \<open>Replay and accounting\<close>

definition agrees :: "trace_state \<Rightarrow> execution_state \<Rightarrow> bool" where
  "agrees t x \<longleftrightarrow> ex_active x = map_option fst (active_task t) \<and> ex_interrupted x = interrupted_task t \<and> ex_irq_depth x = isr_depth t"

text \<open>
  Packets of a target whose events nest: an interrupt that ends has begun, a task stops or the core idles outside of
  interrupted tasks, a trace starts from nothing, the scheduler is entered while no task runs.
\<close>

definition orderly :: "trace_state \<Rightarrow> parsed_packet \<Rightarrow> bool" where
  "orderly t p \<longleftrightarrow>
     (let t = start_packet p t; e = pk_event p in
      (e = 3 \<longrightarrow> 0 < isr_depth t) \<and> (e \<in> {5, 17} \<longrightarrow> interrupted_task t = None) \<and>
      (e = 10 \<longrightarrow> active_task t = None \<and> interrupted_task t = None \<and> isr_depth t = 0) \<and>
      (e = 18 \<longrightarrow> active_task t = None) \<and> (e = 4 \<longrightarrow> pk_fields p \<noteq> []))"

lemma close_simps:
  "active_task (snd (close_active_task c t)) = None" "interrupted_task (snd (close_active_task c t)) = interrupted_task t"
  "isr_depth (snd (close_active_task c t)) = isr_depth t" "fst (close_active_task c t) = map_option fst (active_task t)"
  "active_task (forget_execution c t) = None" "interrupted_task (forget_execution c t) = None" "isr_depth (forget_execution c t) = 0"
  by (simp_all add: close_active_task_def forget_execution_def split: option.split)

lemma start_packet_agrees:
  assumes "agrees t x"
  shows "agrees (start_packet p t) (if pk_boundary p \<or> pk_event p = 1 then default_execution else x)"
  using assms by (simp add: agrees_def start_packet_def Let_def close_simps default_execution_def)

lemma packet_arm_agrees:
  assumes t: "trace_ok t" and x: "agrees t x" and a: "packet_arm now track p t = (c, v, s, t')"
    and o: "pk_event p = 3 \<longrightarrow> 0 < isr_depth t" "pk_event p \<in> {5, 17} \<longrightarrow> interrupted_task t = None"
      "pk_event p = 10 \<longrightarrow> active_task t = None \<and> interrupted_task t = None \<and> isr_depth t = 0"
      "pk_event p = 18 \<longrightarrow> active_task t = None" "pk_event p = 4 \<longrightarrow> pk_fields p \<noteq> []"
      "pk_event p = 1 \<longrightarrow> x = default_execution"
    and e: "ev_id e = pk_event p" "ev_context e = c" "\<not> ev_boundary e"
  shows "agrees t' (apply_event e x)"
proof -
  note E = apply_event_def agrees_def default_execution_def close_simps
  have active: "active_task t = None" if "0 < isr_depth t" using t that by (simp add: trace_ok_def)
  have upd: "agrees (update_task i f u) y = agrees u y" for i f u y by (simp add: agrees_def update_task_def)
  have drop: "agrees (snd (overflow_arm now track p t)) x" "agrees (description_arm p t) x"
    using x by (auto simp: agrees_def overflow_arm_def description_arm_def Let_def split: option.split)
  have irq: "agrees (isr_enter_arm t) (apply_event e x)" if "pk_event p = 2"
    using x active that e by (auto simp: E isr_enter_arm_def Let_def split_beta)
  have ret: "agrees (isr_exit_arm t) (apply_event e x)" if "pk_event p = 3"
    using x active o(1) that e by (auto simp: E isr_exit_arm_def Let_def split: option.split)
  have start: "agrees (task_start_arm i t) (apply_event e x)" if "pk_event p = 4" "c = Some i" for i
    using that e by (simp add: E task_start_arm_def update_task_def)
  have dead: "agrees (task_terminate_arm i t) (apply_event e x)" if "pk_event p = 29" "c = Some i" for i
    using x that e by (cases "active_task t") (auto simp: E task_terminate_arm_def update_task_def Let_def)
  have pass: "apply_event e x = x" if "pk_event p \<notin> {2, 3, 4, 5, 10, 11, 17, 18, 29}"
    using that o(6) e by (auto simp: apply_event_def Let_def)
  have gone: "agrees t (apply_event e x)" if "pk_event p = 29" "c = None"
    using that x e by (auto simp: E Let_def)
  have stop: "agrees ((snd (close_active_task (last_cycles t) t))\<lparr>interrupted_task := None\<rparr>) (apply_event e x)" if "pk_event p \<in> {5, 17}"
    using x o(2) that e by (auto simp: E Let_def)
  have rest: "agrees (t\<lparr>sys_freq := f1, cpu_freq := f2, ram_base := f3, id_shift := f4\<rparr>) x" for f1 f2 f3 f4
    using x by (simp add: agrees_def)
  have reset: "agrees (t\<lparr>trace_phase := PhaseRecording\<rparr>) (apply_event e x)" if "pk_event p = 10"
    using o(3) that e by (simp add: E Let_def)
  have quit: "agrees ((forget_execution (last_cycles t) t)\<lparr>trace_phase := PhaseStopped\<rparr>) (apply_event e x)" if "pk_event p = 11"
    using that e by (simp add: E Let_def)
  have sched: "agrees (t\<lparr>isr_depth := 0, interrupted_task := None\<rparr>) (apply_event e x)" if "pk_event p = 18"
    using o(4) that e by (simp add: E Let_def)
  show ?thesis
  proof (cases "pk_event p \<in> {2, 3, 4, 5, 10, 11, 17, 18, 29}")
    case True
    have "c \<noteq> None" if "pk_event p = 4"
      using a that o(5) by (auto simp: packet_arm_def Let_def first_field_def split: list.splits)
    then show ?thesis using a True irq ret start dead stop reset quit sched gone
      by (auto simp: packet_arm_def Let_def split_beta split: if_splits option.splits)
  next
    case False
    with pass have "apply_event e x = x" by blast
    moreover have "agrees t' x"
      using a x drop rest False
      by (auto simp: packet_arm_def Let_def split_beta upd task_create_arm_def task_info_arm_def split: if_splits option.splits)
    ultimately show ?thesis by simp
  qed
qed

inductive orderly_reach :: "trace_state \<Rightarrow> systemview_event list \<Rightarrow> bool" where
  start: "orderly_reach (new_trace g channel control) []"
| packet: "orderly_reach t es \<Longrightarrow> orderly t p \<Longrightarrow> apply_packet now track p t = (e, t') \<Longrightarrow> orderly_reach t' (es @ [e])"
| gap: "orderly_reach t es \<Longrightarrow> orderly (mark_input_gap t) p \<Longrightarrow> pk_boundary p \<Longrightarrow> apply_packet now track p (mark_input_gap t) = (e, t')
    \<Longrightarrow> orderly_reach t' (es @ [e])"
| clear: "orderly_reach t es \<Longrightarrow> orderly_reach (clear_trace t) es"
| counters: "orderly_reach t es \<Longrightarrow>
    orderly_reach (t\<lparr>decoder_errors := a, presentation_dropped := b, metadata_sync_attempts := c, control_available := d\<rparr>) es"

lemma orderly_reach_trace: "orderly_reach t es \<Longrightarrow> trace_reach t es"
  by (induction rule: orderly_reach.induct) (blast intro: trace_reach.intros)+

lemma apply_event_boundary:
  assumes "ev_id e = i" "ev_boundary e = b"
  shows "apply_event (e\<lparr>ev_boundary := False\<rparr>) (if b \<or> i = 1 then default_execution else x) = apply_event e x"
  using assms by (cases "i = 1"; cases b) (simp_all add: apply_event_def Let_def)

lemma apply_packet_agrees:
  assumes t: "trace_ok t" and x: "agrees t x \<or> pk_boundary p" and o: "orderly t p" and a: "apply_packet now track p t = (e, t')"
  shows "agrees t' (apply_event e x)"
proof -
  let ?t = "start_packet p t" and ?x = "if pk_boundary p \<or> pk_event p = 1 then default_execution else x"
  obtain c v s u where p: "packet_arm now track p ?t = (c, v, s, u)" by (metis surj_pair)
  obtain e' where e': "e' = e\<lparr>ev_boundary := False\<rparr>" by blast
  have e: "ev_id e = pk_event p" "ev_context e = c" "ev_boundary e = pk_boundary p" "agrees t' y = agrees u y" for y
    using a p by (auto simp: apply_packet_def Let_def agrees_def split: prod.splits)
  have "agrees ?t ?x"
  proof (cases "pk_boundary p")
    case True
    then show ?thesis by (simp add: agrees_def start_packet_def Let_def close_simps default_execution_def)
  next
    case False
    with x start_packet_agrees [of t x p] show ?thesis by simp
  qed
  from packet_arm_agrees [OF start_packet_ok [OF t] this p, of e'] o e e'
  have "agrees u (apply_event e' ?x)" by (simp add: orderly_def Let_def)
  moreover have "apply_event e' ?x = apply_event e x" using e(1,3) unfolding e' by (rule apply_event_boundary)
  ultimately show ?thesis using e(4) by simp
qed

text \<open>
  C24. While the events of the target nest, and every gap of the input is followed by a sync packet, the replayed
  history and the time accounting agree at every point, through losses, gaps, evictions and clears: they name the same running task, the same
  interrupted task and the same depth of interrupts.
\<close>

theorem replay_agrees:
  assumes "orderly_reach t es"
  shows "ex_active (fold apply_event (trace_events t) (entry_state t)) = map_option fst (active_task t) \<and>
    ex_interrupted (fold apply_event (trace_events t) (entry_state t)) = interrupted_task t \<and>
    ex_irq_depth (fold apply_event (trace_events t) (entry_state t)) = isr_depth t"
proof -
  have "agrees t (replay t)"
    using assms
  proof (induction rule: orderly_reach.induct)
    case (start g channel control)
    show ?case by (simp add: new_trace_def agrees_def default_execution_def)
  next
    case (packet t es p now track e t')
    have "trace_ok t" using packet(1) orderly_reach_trace trace_reach_ok by blast
    with packet apply_packet_agrees [of t "replay t"] apply_packet_history [OF packet(3)] show ?case by simp
  next
    case (gap t es p now track e t')
    have "trace_ok (mark_input_gap t)" using gap(1) orderly_reach_trace trace_reach.gap trace_reach_ok by blast
    then have "agrees t' (apply_event e (replay (mark_input_gap t)))" by (rule apply_packet_agrees) (use gap in simp_all)
    then show ?case using apply_packet_history [OF gap(4)] by presburger
  next
    case (clear t es)
    have "replay (clear_trace t) = replay t" by (simp add: clear_trace_def)
    moreover have "agrees (clear_trace t) y = agrees t y" for y by (cases "active_task t") (simp_all add: agrees_def clear_trace_def split_beta)
    ultimately show ?case using clear by simp
  next
    case (counters t es a b c d)
    then show ?case by (simp add: agrees_def)
  qed
  then show ?thesis by (simp add: agrees_def)
qed

lemma replay_agrees_witness:
  "\<exists>es t. run_packets [demo_packet 4 [7] 10, demo_packet 2 [3] 100] (new_trace 1 1 True) = (es, t) \<and> isr_depth t = 1 \<and>
     ex_interrupted (fold apply_event (trace_events t) (entry_state t)) = interrupted_task t \<and> interrupted_task t = Some 7"
proof -
  obtain e t where a: "apply_packet 0 True (demo_packet 4 [7] 10) (new_trace 1 1 True) = (e, t)" by fastforce
  obtain e' t' where b: "apply_packet 0 True (demo_packet 2 [3] 100) t = (e', t')" by fastforce
  have "orderly_reach t [e]"
    using orderly_reach.packet [OF orderly_reach.start _ a] by (simp add: orderly_def start_packet_def demo_packet_def Let_def)
  from orderly_reach.packet [OF this _ b] have "orderly_reach t' [e, e']"
    by (simp add: orderly_def start_packet_def demo_packet_def Let_def)
  note g = replay_agrees [OF this]
  have r: "run_packets [demo_packet 4 [7] 10, demo_packet 2 [3] 100] (new_trace 1 1 True) = ([e, e'], t')"
    using a b by (simp add: run_packets_def)
  moreover have "isr_depth t' = 1 \<and> interrupted_task t' = Some 7"
  proof -
    have "isr_depth (snd (run_packets [demo_packet 4 [7] 10, demo_packet 2 [3] 100] (new_trace 1 1 True))) = 1 \<and>
        interrupted_task (snd (run_packets [demo_packet 4 [7] 10, demo_packet 2 [3] 100] (new_trace 1 1 True))) = Some 7"
      by (simp add: run_demo)
    then show ?thesis unfolding r by simp
  qed
  ultimately show ?thesis using g by blast
qed

section \<open>Where they part\<close>

text \<open>Packets that neither start, stop, create nor terminate a task, nor enter, leave or reset anything.\<close>

definition uneventful :: "parsed_packet \<Rightarrow> bool" where
  "uneventful p \<longleftrightarrow> \<not> pk_boundary p \<and> pk_event p \<notin> {1, 2, 3, 4, 5, 8, 10, 11, 17, 18, 29}"

lemma run_packets_Cons:
  "run_packets (p # ps) t = (let (e, u) = apply_packet 0 True p t; (es, v) = run_packets ps u in (e # es, v))"
proof -
  let ?step = "\<lambda>p (gs, t). let (e, t) = apply_packet 0 True p t in (gs @ [e], t)"
  have acc: "fold ?step ps (gs, v) = (gs @ fst (fold ?step ps ([], v)), snd (fold ?step ps ([], v)))" for gs v
  proof (induction ps arbitrary: gs v)
    case (Cons p ps)
    obtain e v' where a: "apply_packet 0 True p v = (e, v')" by fastforce
    show ?case using Cons.IH [of "gs @ [e]" v'] Cons.IH [of "[e]" v'] a by simp
  qed simp
  show ?thesis
    using acc [of "[fst (apply_packet 0 True p t)]" "snd (apply_packet 0 True p t)"]
    by (simp add: run_packets_def split_beta Let_def)
qed

lemma run_packets_Nil: "run_packets [] t = ([], t)"
  by (simp add: run_packets_def)

text \<open>The accounting charges task \<open>i\<close> from \<open>s\<close> on, the replay has no running task.\<close>

definition parted :: "u32 \<Rightarrow> nat \<Rightarrow> nat \<Rightarrow> trace_state \<Rightarrow> bool" where
  "parted i s r t \<longleftrightarrow> active_task t = Some (i, s) \<and> ts_runtime (task_entry t i) = r \<and> ex_active (replay t) = None"

lemma apply_packet_arm:
  assumes "packet_arm now track p (start_packet p t) = (c, v, x, u)" "apply_packet now track p t = (e, t')"
  shows "active_task t' = active_task u \<and> isr_depth t' = isr_depth u \<and> interrupted_task t' = interrupted_task u \<and> tasks t' = tasks u \<and>
    last_cycles t' = last_cycles u \<and> ev_id e = pk_event p \<and> ev_context e = c \<and> ev_boundary e = pk_boundary p"
  using assms by (auto simp: apply_packet_def Let_def split: prod.splits)

lemma uneventful_step:
  assumes p: "uneventful p" and t: "parted i s r t" and a: "apply_packet now track p t = (e, t')"
  shows "parted i s r t' \<and> last_cycles t' = sat64 (last_cycles t + unat (pk_delta p))"
proof -
  obtain c v x u where m: "packet_arm now track p (start_packet p t) = (c, v, x, u)" by (metis surj_pair)
  note t' = apply_packet_arm [OF m a]
  have e: "apply_event e y = y" for y using p t' by (simp add: uneventful_def apply_event_def Let_def)
  have up: "ts_runtime (task_entry (update_task j (\<lambda>k. k\<lparr>ts_priority := a, ts_name := n k\<rparr>) w) i) = ts_runtime (task_entry w i)" for j a n w
    by (simp add: task_entry_def update_task_def AList.update_conv split: option.splits)
  have s: "active_task (start_packet p t) = active_task t" "tasks (start_packet p t) = tasks t"
    "last_cycles (start_packet p t) = sat64 (last_cycles t + unat (pk_delta p))"
    using p by (simp_all add: start_packet_def uneventful_def Let_def)
  have "active_task u = active_task t \<and> last_cycles u = last_cycles (start_packet p t) \<and> ts_runtime (task_entry u i) = ts_runtime (task_entry t i)"
  proof (cases "pk_event p = 9 \<and> pk_fields p \<noteq> []")
    case True
    then obtain j where "u = task_info_arm p j (start_packet p t)" using m by (auto simp: packet_arm_def Let_def first_field_def split: list.splits)
    moreover have "task_entry (start_packet p t) i = task_entry t i" using s by (simp add: task_entry_def)
    ultimately show ?thesis using s by (simp add: task_info_arm_def up)
  next
    case False
    then have "tasks u = tasks t \<and> active_task u = active_task t \<and> last_cycles u = last_cycles (start_packet p t)"
      using m p s by (auto simp: packet_arm_def Let_def uneventful_def description_arm_def first_field_def split: if_splits option.splits list.splits)
    then show ?thesis by (simp add: task_entry_def)
  qed
  then show ?thesis using t t' s e apply_packet_history [OF a] by (simp add: parted_def task_entry_def)
qed

text \<open>
  C40. When events do not nest the two part: in whatever state a trace is, when a task starts and an interrupt exit whose entry is not
  on the record follows, the replay has no running task, and stays that way over any number of packets that neither start, stop, create nor terminate a
  task, nor enter, leave or reset anything, while the accounting has the task running all the time and reports every cycle of those packets as its time.
\<close>

theorem replay_disagrees:
  assumes "pk_event p = 4" "pk_fields p = i # fs" "pk_event q = 3" "\<not> pk_boundary q" "list_all uneventful rs"
    and "run_packets [p] t = (es, u)" "run_packets (p # q # rs) t = (es', t')"
  shows "ex_active (fold apply_event (trace_events t') (entry_state t')) = None \<and> active_task t' = Some (i, last_cycles u) \<and>
    last_cycles t' = fold (\<lambda>r c. sat64 (c + unat (pk_delta r))) (q # rs) (last_cycles u) \<and>
    task_runtime t' i (task_entry t' i) = sat64 (ts_runtime (task_entry u i) + (last_cycles t' - last_cycles u))"
proof -
  obtain e where e: "apply_packet 0 True p t = (e, u)"
    using assms(6) by (auto simp: run_packets_Cons run_packets_Nil split_beta Let_def prod_eq_iff)
  obtain e' w where w: "apply_packet 0 True q u = (e', w)" by fastforce
  obtain c v x y where m: "packet_arm 0 True p (start_packet p t) = (c, v, x, y)" by (metis surj_pair)
  have l: "last_cycles (snd (close_active_task n z)) = last_cycles z" for n z
    by (simp add: close_active_task_def split: option.split)
  have u: "active_task u = Some (i, last_cycles u)" "isr_depth u = 0" "interrupted_task u = None" "apply_event e z = default_execution\<lparr>ex_active := Some i\<rparr>" for z
    using apply_packet_arm [OF m e] m assms(1,2)
    by (auto simp: packet_arm_def first_field_def task_start_arm_def Let_def forget_execution_def apply_event_def default_execution_def l)
  obtain c' v' x' y' where m': "packet_arm 0 True q (start_packet q u) = (c', v', x', y')" by (metis surj_pair)
  have y': "y' = isr_exit_arm (start_packet q u)" using m' assms(3) by (simp add: packet_arm_def)
  have q: "active_task (start_packet q u) = Some (i, last_cycles u)" "isr_depth (start_packet q u) = 0" "tasks (start_packet q u) = tasks u"
    "interrupted_task (start_packet q u) = None" "last_cycles (start_packet q u) = sat64 (last_cycles u + unat (pk_delta q))"
    using u assms(3,4) by (simp_all add: start_packet_def Let_def)
  note w' = apply_packet_arm [OF m' w, unfolded y' isr_exit_arm_def Let_def]
  have "ex_active (apply_event e' (default_execution\<lparr>ex_active := Some i\<rparr>)) = None"
    using w' assms(3,4) by (simp add: apply_event_def default_execution_def)
  moreover have "replay w = apply_event e' (default_execution\<lparr>ex_active := Some i\<rparr>)"
    using apply_packet_history [OF e] apply_packet_history [OF w] u(4) by simp
  ultimately have "parted i (last_cycles u) (ts_runtime (task_entry u i)) w \<and> last_cycles w = sat64 (last_cycles u + unat (pk_delta q))"
    using w' q by (simp add: parted_def task_entry_def)
  moreover have "parted i s r (snd (run_packets rs w)) \<and>
      last_cycles (snd (run_packets rs w)) = fold (\<lambda>r c. sat64 (c + unat (pk_delta r))) rs (last_cycles w)" if "parted i s r w" for s r w
    using assms(5) that
  proof (induction rs arbitrary: w)
    case (Cons r' rs)
    obtain e v where a: "apply_packet 0 True r' w = (e, v)" by fastforce
    from uneventful_step [OF _ Cons.prems(2) a] Cons.prems(1)
    have "parted i s r v \<and> last_cycles v = sat64 (last_cycles w + unat (pk_delta r'))" by simp
    with Cons.IH [of v] Cons.prems(1) a show ?case by (simp add: run_packets_Cons split_beta)
  qed (simp add: run_packets_Nil)
  moreover have "t' = snd (run_packets rs w)" using assms(7) e w by (auto simp: run_packets_Cons split_beta Let_def)
  ultimately show ?thesis by (simp add: parted_def task_runtime_def)
qed

lemma replay_disagrees_witness:
  "\<exists>es t. run_packets [demo_packet 4 [7] 10, demo_packet 3 [] 10, demo_packet 6 [9] 500] (new_trace 1 1 True) = (es, t) \<and>
     ex_active (fold apply_event (trace_events t) (entry_state t)) = None \<and> active_task t = Some (7, 10) \<and>
     task_runtime t 7 (task_entry t 7) = 510"
proof -
  obtain es u where a: "run_packets [demo_packet 4 [7] 10] (new_trace 1 1 True) = (es, u)" by fastforce
  obtain es' t where b: "run_packets [demo_packet 4 [7] 10, demo_packet 3 [] 10, demo_packet 6 [9] 500] (new_trace 1 1 True) = (es', t)" by fastforce
  have u: "last_cycles u = 10" "ts_runtime (task_entry u 7) = 0"
  proof -
    have "last_cycles (snd (run_packets [demo_packet 4 [7] 10] (new_trace 1 1 True))) = 10 \<and>
      ts_runtime (task_entry (snd (run_packets [demo_packet 4 [7] 10] (new_trace 1 1 True))) 7) = 0"
      by (simp add: run_demo task_entry_def)
    then show "last_cycles u = 10" "ts_runtime (task_entry u 7) = 0" unfolding a by simp_all
  qed
  show ?thesis
    using replay_disagrees [OF _ _ _ _ _ a b, of 7 "[]"] u b
    by (simp add: uneventful_def demo_packet_def sat64_def)
qed

end
