(* ===== verification/Rtt_Model.thy ===== *)
theory Rtt_Model
  imports TauTerm_Prelude
begin

text \<open>
  The data of the RTT plugin (\<open>plugins/rtt/model.rs\<close>, \<open>error.rs\<close>): channels, the runtime snapshot shown to the user, and the chunks
  that the acquisition thread stamps. Byte counts and sequence numbers are naturals, with the wrap-around or saturation of the code written where they are
  changed. A \<open>BTreeMap\<close> is an association list in key order.
\<close>

section \<open>Ordered maps\<close>

fun bt_insert :: "'k::linorder \<Rightarrow> 'v \<Rightarrow> ('k \<times> 'v) list \<Rightarrow> ('k \<times> 'v) list" where
  "bt_insert k v [] = [(k, v)]"
| "bt_insert k v ((j, u) # m) =
     (if k < j then (k, v) # (j, u) # m else if k = j then (k, v) # m else (j, u) # bt_insert k v m)"

definition bt_remove :: "'k \<Rightarrow> ('k \<times> 'v) list \<Rightarrow> ('k \<times> 'v) list" where
  "bt_remove k m = filter (\<lambda>(j, _). j \<noteq> k) m"

definition bt_keys :: "('k \<times> 'v) list \<Rightarrow> 'k list" where "bt_keys m = map fst m"

abbreviation bt_ok :: "('k::linorder \<times> 'v) list \<Rightarrow> bool" where "bt_ok m \<equiv> sorted_wrt (<) (bt_keys m)"

lemma map_of_bt_insert [simp]: "map_of (bt_insert k v m) = (map_of m)(k \<mapsto> v)"
  by (induction m) auto

lemma map_of_bt_remove [simp]: "map_of (bt_remove k m) = (map_of m)(k := None)"
  by (induction m) (auto simp: bt_remove_def)

lemma bt_keys_dom: "set (bt_keys m) = dom (map_of m)"
  by (simp add: bt_keys_def dom_map_of_conv_image_fst)

lemma set_bt_insert: "set (bt_keys (bt_insert k v m)) = insert k (set (bt_keys m))"
  by (simp add: bt_keys_dom)

lemma bt_ok_insert [simp]: "bt_ok m \<Longrightarrow> bt_ok (bt_insert k v m)"
proof (induction m)
  case (Cons x m)
  obtain j u where x: "x = (j, u)" by fastforce
  have "bt_ok m" using Cons.prems by (simp add: bt_keys_def)
  with Cons x set_bt_insert [of k v m] show ?case by (auto simp: bt_keys_def)
qed (simp add: bt_keys_def)

lemma bt_keys_remove: "bt_keys (bt_remove k m) = filter (\<lambda>j. j \<noteq> k) (bt_keys m)"
  by (simp add: bt_remove_def bt_keys_def filter_map comp_def case_prod_unfold)

lemma bt_ok_remove [simp]: "bt_ok m \<Longrightarrow> bt_ok (bt_remove k m)"
  by (simp add: bt_keys_remove sorted_wrt_filter)

lemma bt_ok_distinct: "bt_ok m \<Longrightarrow> distinct (map fst m)"
  by (simp add: bt_keys_def strict_sorted_iff)

section \<open>Errors\<close>

datatype rtt_error_code =
  ProbeNotFound | ProbeAmbiguous | ProbeBusy | ProbePermissionDenied | TargetNotFound | TargetAttachFailed
| UnsupportedWireProtocol | CoreNotFound | FirmwareFileUnavailable | FirmwareArtifactInvalid | RttNotInitialized
| RttControlBlockNotFound | RttMultipleControlBlocks | RttInvalidControlBlock | RttChannelNotFound | RttWriteFailed
| RttWriteQueueFull | RttWriteTimeout | JlinkServerUnavailable | JlinkChannelConfigFailed | TargetDisconnected
| ProbeDisconnected | SchedulerBusy | OperationTimeout | OperationOutcomeUnknown | RttInvalidConfig | BackendFault | RttCancelled

fun rtt_error_name :: "rtt_error_code \<Rightarrow> string" where
  "rtt_error_name ProbeNotFound = ''probe_not_found''"
| "rtt_error_name ProbeAmbiguous = ''probe_ambiguous''"
| "rtt_error_name ProbeBusy = ''probe_busy''"
| "rtt_error_name ProbePermissionDenied = ''probe_permission_denied''"
| "rtt_error_name TargetNotFound = ''target_not_found''"
| "rtt_error_name TargetAttachFailed = ''target_attach_failed''"
| "rtt_error_name UnsupportedWireProtocol = ''unsupported_wire_protocol''"
| "rtt_error_name CoreNotFound = ''core_not_found''"
| "rtt_error_name FirmwareFileUnavailable = ''firmware_file_unavailable''"
| "rtt_error_name FirmwareArtifactInvalid = ''firmware_artifact_invalid''"
| "rtt_error_name RttNotInitialized = ''rtt_not_initialized''"
| "rtt_error_name RttControlBlockNotFound = ''rtt_control_block_not_found''"
| "rtt_error_name RttMultipleControlBlocks = ''rtt_multiple_control_blocks''"
| "rtt_error_name RttInvalidControlBlock = ''rtt_invalid_control_block''"
| "rtt_error_name RttChannelNotFound = ''rtt_channel_not_found''"
| "rtt_error_name RttWriteFailed = ''rtt_write_failed''"
| "rtt_error_name RttWriteQueueFull = ''rtt_write_queue_full''"
| "rtt_error_name RttWriteTimeout = ''rtt_write_timeout''"
| "rtt_error_name JlinkServerUnavailable = ''jlink_server_unavailable''"
| "rtt_error_name JlinkChannelConfigFailed = ''jlink_channel_config_failed''"
| "rtt_error_name TargetDisconnected = ''target_disconnected''"
| "rtt_error_name ProbeDisconnected = ''probe_disconnected''"
| "rtt_error_name SchedulerBusy = ''scheduler_busy''"
| "rtt_error_name OperationTimeout = ''operation_timeout''"
| "rtt_error_name OperationOutcomeUnknown = ''operation_outcome_unknown''"
| "rtt_error_name RttInvalidConfig = ''invalid_config''"
| "rtt_error_name BackendFault = ''backend_fault''"
| "rtt_error_name RttCancelled = ''cancelled''"

definition is_transient_runtime_pressure :: "rtt_error_code \<Rightarrow> bool" where
  "is_transient_runtime_pressure c = (c = SchedulerBusy \<or> c = OperationTimeout)"

definition has_indeterminate_outcome :: "rtt_error_code \<Rightarrow> bool" where
  "has_indeterminate_outcome c = (c = OperationOutcomeUnknown)"

section \<open>Channels and snapshots\<close>

datatype rtt_phase = RttIdle | RttOpeningBackend | RttRunning | RttFaulted | RttStopping

record rtt_capabilities =
  enumerate_channels :: bool
  channel_metadata :: bool
  capability_locator :: bool
  direct_target_control :: bool

record rtt_descriptor =
  rd_kind :: string
  rd_display_name :: string
  rd_target :: "string option"
  rd_probe :: "string option"
  rd_control_block :: "string option"
  rd_capabilities :: rtt_capabilities

record rtt_direction =
  dir_buffer_size :: "nat option"
  dir_usable :: bool
  dir_issue :: "string option"

record rtt_channel =
  rx_index :: u32
  rx_name :: "string option"
  rx_up :: "rtt_direction option"
  rx_down :: "rtt_direction option"
  rx_metadata_complete :: bool

definition has_usable_up :: "rtt_channel \<Rightarrow> bool" where
  "has_usable_up c = (case rx_up c of None \<Rightarrow> False | Some d \<Rightarrow> dir_usable d)"

definition has_usable_down :: "rtt_channel \<Rightarrow> bool" where
  "has_usable_down c = (case rx_down c of None \<Rightarrow> False | Some d \<Rightarrow> dir_usable d)"

record rtt_observer =
  ro_kind :: string
  ro_channel :: u32
  ro_control :: "u32 option"

record rtt_snapshot =
  rs_generation :: nat
  rs_phase :: rtt_phase
  rs_backend :: "rtt_descriptor option"
  rs_channels :: "rtt_channel list"
  rs_automation_source :: "u32 option"
  rs_send_channel :: "u32 option"
  rs_observers :: "rtt_observer list"
  rs_claims :: "(u32 \<times> string) list"
  rs_rx_bytes :: nat
  rs_tx_bytes :: nat
  rs_evicted_bytes :: nat
  rs_evicted_chunks :: nat
  rs_automation_bytes :: nat
  rs_automation_chunks :: nat
  rs_presentation_bytes :: nat
  rs_presentation_chunks :: nat
  rs_pressure :: nat
  rs_last_error :: "rtt_error_code option"

definition default_rtt_snapshot :: rtt_snapshot where
  "default_rtt_snapshot =
     \<lparr>rs_generation = 0, rs_phase = RttIdle, rs_backend = None, rs_channels = [], rs_automation_source = None, rs_send_channel = None,
      rs_observers = [], rs_claims = [], rs_rx_bytes = 0, rs_tx_bytes = 0, rs_evicted_bytes = 0, rs_evicted_chunks = 0,
      rs_automation_bytes = 0, rs_automation_chunks = 0, rs_presentation_bytes = 0, rs_presentation_chunks = 0, rs_pressure = 0,
      rs_last_error = None\<rparr>"

record rtt_chunk =
  rc_generation :: nat
  rc_sequence :: nat
  rc_timestamp :: nat
  rc_channel :: u32
  rc_offset :: nat
  rc_data :: "byte list"

end
