(* ===== verification/Rtt_Shared.thy ===== *)
theory Rtt_Shared
  imports SystemView_Decoder Rtt_Model Data_Batcher "HOL-Library.While_Combinator" "HOL-Library.Sublist"
begin

text \<open>
  What the threads of an RTT session share: \<open>RttShared\<close> of \<open>plugins/rtt/runtime.rs\<close> with its bounded history, and the fan-out of
  \<open>embedded_debug/observation.rs\<close>. The code guards each field by a lock of its own and no method holds two at a time except to copy the claims. Each definition is
  a method as a whole, with a chunk stored and published in two steps; \<open>Rtt_Selection\<close> takes the methods that choose channels apart into what
  they do under each lock.
\<close>

section \<open>The fan-out\<close>

text \<open>
  The subscribers are the senders, the queues the receivers, both by the number of the subscription. A hook is what the code passes as
  \<open>on_drop\<close>: count the loss for an observer or for the automation.
\<close>

datatype drop_hook = CountDrop nat | AutomationDrop

record 'a observation_subscriber =
  os_id :: nat
  os_filter :: "'a \<Rightarrow> bool"
  os_hook :: drop_hook

record 'a observation_queue =
  oq_items :: "'a list"
  oq_connected :: bool

record 'a observation_source =
  so_capacity :: nat
  so_subscribers :: "'a observation_subscriber list"
  so_queues :: "(nat \<times> 'a observation_queue) list"
  so_next :: nat

record publish_report =
  pr_delivered :: nat
  pr_dropped :: nat
  pr_disconnected :: nat

definition new_source :: "nat \<Rightarrow> 'a observation_source" where
  "new_source capacity = \<lparr>so_capacity = max capacity 1, so_subscribers = [], so_queues = [], so_next = 0\<rparr>"

definition queue_of :: "nat \<Rightarrow> (nat \<times> 'a observation_queue) list \<Rightarrow> 'a observation_queue" where
  "queue_of i qs = (case map_of qs i of None \<Rightarrow> \<lparr>oq_items = [], oq_connected = False\<rparr> | Some q \<Rightarrow> q)"

definition subscribe_filtered ::
  "('a \<Rightarrow> bool) \<Rightarrow> drop_hook \<Rightarrow> 'a observation_source \<Rightarrow> nat \<times> 'a observation_source" where
  "subscribe_filtered flt hook s =
     (let i = so_next s in
      (i, s\<lparr>so_subscribers := so_subscribers s @ [\<lparr>os_id = i, os_filter = flt, os_hook = hook\<rparr>],
            so_queues := bt_insert i \<lparr>oq_items = [], oq_connected = True\<rparr> (so_queues s), so_next := i + 1\<rparr>))"

fun publish_loop ::
  "'a \<Rightarrow> nat \<Rightarrow> 'a observation_subscriber list \<Rightarrow> (nat \<times> 'a observation_queue) list \<Rightarrow>
   'a observation_subscriber list \<times> (nat \<times> 'a observation_queue) list \<times> publish_report \<times> drop_hook list" where
  "publish_loop v cap [] qs = ([], qs, \<lparr>pr_delivered = 0, pr_dropped = 0, pr_disconnected = 0\<rparr>, [])"
| "publish_loop v cap (b # bs) qs =
     (let q = queue_of (os_id b) qs in
      if \<not> os_filter b v then (let (kept, qs, r, hs) = publish_loop v cap bs qs in (b # kept, qs, r, hs))
      else if \<not> oq_connected q then
        (let (kept, qs, r, hs) = publish_loop v cap bs qs in (kept, qs, r\<lparr>pr_disconnected := pr_disconnected r + 1\<rparr>, hs))
      else if cap \<le> length (oq_items q) then
        (let (kept, qs, r, hs) = publish_loop v cap bs qs in (b # kept, qs, r\<lparr>pr_dropped := pr_dropped r + 1\<rparr>, os_hook b # hs))
      else
        (let (kept, qs, r, hs) = publish_loop v cap bs (bt_insert (os_id b) (q\<lparr>oq_items := oq_items q @ [v]\<rparr>) qs) in
         (b # kept, qs, r\<lparr>pr_delivered := pr_delivered r + 1\<rparr>, hs)))"

definition publish_observation ::
  "'a \<Rightarrow> 'a observation_source \<Rightarrow> publish_report \<times> drop_hook list \<times> 'a observation_source" where
  "publish_observation v s =
     (let (kept, qs, r, hs) = publish_loop v (so_capacity s) (so_subscribers s) (so_queues s) in
      (r, hs, s\<lparr>so_subscribers := kept, so_queues := qs\<rparr>))"

definition close_source :: "'a observation_source \<Rightarrow> 'a observation_source" where
  "close_source s = s\<lparr>so_subscribers := []\<rparr>"

text \<open>The receiver: an item, nothing yet, or nothing for ever; and dropping it.\<close>

datatype 'a observed = Observed 'a | ObservedNothing | ObservedEnd

definition receive_observation :: "nat \<Rightarrow> 'a observation_source \<Rightarrow> 'a observed \<times> 'a observation_source" where
  "receive_observation i s =
     (let q = queue_of i (so_queues s) in
      case oq_items q of
        v # vs \<Rightarrow> (Observed v, s\<lparr>so_queues := bt_insert i (q\<lparr>oq_items := vs\<rparr>) (so_queues s)\<rparr>)
      | [] \<Rightarrow> (if i \<in> os_id ` set (so_subscribers s) then ObservedNothing else ObservedEnd, s))"

definition drop_observation :: "nat \<Rightarrow> 'a observation_source \<Rightarrow> 'a observation_source" where
  "drop_observation i s = s\<lparr>so_queues := bt_insert i \<lparr>oq_items = [], oq_connected = False\<rparr> (so_queues s)\<rparr>"

section \<open>The history\<close>

definition HISTORY_PER_CHANNEL_BYTES :: nat where "HISTORY_PER_CHANNEL_BYTES = 256 * 1024"
definition HISTORY_PER_SESSION_BYTES :: nat where "HISTORY_PER_SESSION_BYTES = 2 * 1024 * 1024"
definition MAX_HISTORY_RESPONSE_CHUNKS :: nat where "MAX_HISTORY_RESPONSE_CHUNKS = 512"
definition RAW_OBSERVATION_SUBSCRIPTION_CAPACITY :: nat where "RAW_OBSERVATION_SUBSCRIPTION_CAPACITY = 1024"

record channel_history =
  ch_chunks :: "rtt_chunk list"
  ch_bytes :: nat
  ch_dropped_chunks :: nat
  ch_dropped_bytes :: nat

definition default_channel :: channel_history where
  "default_channel = \<lparr>ch_chunks = [], ch_bytes = 0, ch_dropped_chunks = 0, ch_dropped_bytes = 0\<rparr>"

record history_store =
  hs_channels :: "(u32 \<times> channel_history) list"
  hs_total :: nat

definition channel_of :: "u32 \<Rightarrow> history_store \<Rightarrow> channel_history" where
  "channel_of c h = (case map_of (hs_channels h) c of None \<Rightarrow> default_channel | Some k \<Rightarrow> k)"

definition drop_front :: "u32 \<Rightarrow> history_store \<Rightarrow> history_store" where
  "drop_front c h =
     (case map_of (hs_channels h) c of
        None \<Rightarrow> h
      | Some k \<Rightarrow>
          (case ch_chunks k of
             [] \<Rightarrow> h
           | x # xs \<Rightarrow>
               (let len = length (rc_data x) in
                h\<lparr>hs_channels :=
                    bt_insert c \<lparr>ch_chunks = xs, ch_bytes = ch_bytes k - len, ch_dropped_chunks = sat64 (ch_dropped_chunks k + 1),
                                 ch_dropped_bytes = sat64 (ch_dropped_bytes k + len)\<rparr> (hs_channels h),
                  hs_total := hs_total h - len\<rparr>)))"

text \<open>The first of the channels whose oldest chunk has the least sequence number.\<close>

definition least_sequence :: "(u32 \<times> nat) list \<Rightarrow> u32 option" where
  "least_sequence xs =
     map_option fst (fold (\<lambda>x best. case best of None \<Rightarrow> Some x | Some b \<Rightarrow> if snd x < snd b then Some x else Some b) xs None)"

definition oldest_channel :: "history_store \<Rightarrow> u32 option" where
  "oldest_channel h =
     least_sequence (List.map_filter
       (\<lambda>(c, k). case ch_chunks k of [] \<Rightarrow> None | x # _ \<Rightarrow> Some (c, rc_sequence x)) (hs_channels h))"

text \<open>The eviction loops as they are written: None is a loop that never ends, which the invariant excludes.\<close>

definition trim_channel :: "u32 \<Rightarrow> history_store \<Rightarrow> history_store option" where
  "trim_channel c =
     while_option (\<lambda>h. case map_of (hs_channels h) c of None \<Rightarrow> False | Some k \<Rightarrow> ch_bytes k > HISTORY_PER_CHANNEL_BYTES) (drop_front c)"

definition trim_session :: "history_store \<Rightarrow> history_store option" where
  "trim_session =
     while_option (\<lambda>h. hs_total h > HISTORY_PER_SESSION_BYTES \<and> oldest_channel h \<noteq> None)
       (\<lambda>h. case oldest_channel h of None \<Rightarrow> h | Some c \<Rightarrow> drop_front c h)"

definition loss_totals :: "history_store \<Rightarrow> nat \<times> nat" where
  "loss_totals h =
     fold (\<lambda>(_, k) (n, b). (sat64 (n + ch_dropped_chunks k), sat64 (b + ch_dropped_bytes k))) (hs_channels h) (0, 0)"

definition append_chunk :: "rtt_chunk \<Rightarrow> history_store \<Rightarrow> history_store" where
  "append_chunk x h =
     (let c = rc_channel x; len = length (rc_data x); k = channel_of c h in
      h\<lparr>hs_channels := bt_insert c (k\<lparr>ch_bytes := ch_bytes k + len, ch_chunks := ch_chunks k @ [x]\<rparr>) (hs_channels h),
        hs_total := hs_total h + len\<rparr>)"

definition push_history :: "rtt_chunk \<Rightarrow> history_store \<Rightarrow> ((nat \<times> nat) \<times> history_store) option" where
  "push_history x h =
     (case trim_channel (rc_channel x) (append_chunk x h) of
        None \<Rightarrow> None
      | Some h \<Rightarrow> (case trim_session h of None \<Rightarrow> None | Some h \<Rightarrow> Some (loss_totals h, h)))"

record chunk_dto =
  dto_generation :: nat
  dto_sequence :: nat
  dto_timestamp :: nat
  dto_channel :: u32
  dto_offset :: nat
  dto_data :: string

definition dto_from_stored :: "rtt_chunk \<Rightarrow> chunk_dto" where
  "dto_from_stored x =
     \<lparr>dto_generation = rc_generation x, dto_sequence = rc_sequence x, dto_timestamp = rc_timestamp x, dto_channel = rc_channel x,
      dto_offset = rc_offset x, dto_data = base64_encode (rc_data x)\<rparr>"

record history_response =
  hr_generation :: nat
  hr_chunks :: "chunk_dto list"
  hr_oldest :: "nat option"
  hr_newest :: "nat option"
  hr_dropped_chunks :: nat
  hr_dropped_bytes :: nat

definition history_page :: "nat \<Rightarrow> u32 \<Rightarrow> nat option \<Rightarrow> history_store \<Rightarrow> history_response" where
  "history_page generation c after_sequence h =
     (let history = map_of (hs_channels h) c;
          chunks = (case (history, after_sequence) of
              (Some k, Some s) \<Rightarrow> take MAX_HISTORY_RESPONSE_CHUNKS (filter (\<lambda>x. rc_sequence x > s) (ch_chunks k))
            | (Some k, None) \<Rightarrow> drop (length (ch_chunks k) - MAX_HISTORY_RESPONSE_CHUNKS) (ch_chunks k)
            | (None, _) \<Rightarrow> []);
          edge = (\<lambda>f. case history of None \<Rightarrow> None | Some k \<Rightarrow> if ch_chunks k = [] then None else Some (rc_sequence (f (ch_chunks k)))) in
      \<lparr>hr_generation = generation, hr_chunks = map dto_from_stored chunks, hr_oldest = edge hd, hr_newest = edge last,
       hr_dropped_chunks = (case history of None \<Rightarrow> 0 | Some k \<Rightarrow> ch_dropped_chunks k),
       hr_dropped_bytes = (case history of None \<Rightarrow> 0 | Some k \<Rightarrow> ch_dropped_bytes k)\<rparr>)"

section \<open>The shared state\<close>

record rtt_shared =
  rt_snapshot :: rtt_snapshot
  rt_history :: history_store
  rt_generation :: nat
  rt_next_sequence :: nat
  rt_source :: "rtt_chunk observation_source"
  rt_offsets :: "(u32 \<times> nat) list"
  rt_automation :: "u32 option"
  rt_send :: "u32 option"
  rt_claims :: "(u32 \<times> string) list"
  rt_drops :: "nat \<Rightarrow> nat"

definition new_rtt_shared :: "nat \<Rightarrow> rtt_shared" where
  "new_rtt_shared g =
     \<lparr>rt_snapshot = default_rtt_snapshot\<lparr>rs_generation := g\<rparr>, rt_history = \<lparr>hs_channels = [], hs_total = 0\<rparr>,
      rt_generation = g, rt_next_sequence = 1, rt_source = new_source RAW_OBSERVATION_SUBSCRIPTION_CAPACITY, rt_offsets = [],
      rt_automation = None, rt_send = None, rt_claims = [], rt_drops = (\<lambda>_. 0)\<rparr>"

abbreviation in_snapshot :: "(rtt_snapshot \<Rightarrow> rtt_snapshot) \<Rightarrow> rtt_shared \<Rightarrow> rtt_shared" where
  "in_snapshot f s \<equiv> s\<lparr>rt_snapshot := f (rt_snapshot s)\<rparr>"

definition set_phase :: "rtt_phase \<Rightarrow> rtt_shared \<Rightarrow> rtt_shared" where
  "set_phase p s = in_snapshot (\<lambda>n. n\<lparr>rs_phase := p\<rparr>) s"

text \<open>Channel 0 if it will do, otherwise the first that does.\<close>

definition preferred_channel :: "(rtt_channel \<Rightarrow> bool) \<Rightarrow> rtt_channel list \<Rightarrow> u32 option" where
  "preferred_channel P cs =
     (case find (\<lambda>c. rx_index c = 0 \<and> P c) cs of Some c \<Rightarrow> Some (rx_index c) | None \<Rightarrow> map_option rx_index (find P cs))"

definition keep_or_prefer :: "(rtt_channel \<Rightarrow> bool) \<Rightarrow> rtt_channel list \<Rightarrow> u32 option \<Rightarrow> u32 option" where
  "keep_or_prefer P cs selected =
     (if (case selected of None \<Rightarrow> False | Some i \<Rightarrow> \<exists>c\<in>set cs. rx_index c = i \<and> P c) then selected else preferred_channel P cs)"

definition free_down :: "(u32 \<times> string) list \<Rightarrow> rtt_channel \<Rightarrow> bool" where
  "free_down claims c = (has_usable_down c \<and> rx_index c \<notin> set (bt_keys claims))"

definition set_running :: "rtt_descriptor \<Rightarrow> rtt_channel list \<Rightarrow> rtt_shared \<Rightarrow> rtt_shared" where
  "set_running d cs s =
     (let automation = keep_or_prefer has_usable_up cs (rt_automation s); send = keep_or_prefer (free_down (rt_claims s)) cs (rt_send s) in
      in_snapshot (\<lambda>n. n\<lparr>rs_phase := RttRunning, rs_backend := Some d, rs_channels := cs, rs_automation_source := automation,
          rs_send_channel := send, rs_claims := rt_claims s, rs_last_error := None\<rparr>)
        (s\<lparr>rt_automation := automation, rt_send := send\<rparr>))"

text \<open>Receiving a chunk: stamp it, store it and account for it; then publish it.\<close>

definition store_rx :: "nat \<Rightarrow> u32 \<Rightarrow> byte list \<Rightarrow> rtt_shared \<Rightarrow> (rtt_chunk \<times> rtt_shared) option" where
  "store_rx now c data s =
     (let current = (case map_of (rt_offsets s) c of None \<Rightarrow> 0 | Some n \<Rightarrow> n);
          x = \<lparr>rc_generation = rt_generation s, rc_sequence = rt_next_sequence s, rc_timestamp = now, rc_channel = c,
               rc_offset = current, rc_data = data\<rparr> in
      map_option (\<lambda>(loss, h).
          (x, in_snapshot (\<lambda>n. n\<lparr>rs_rx_bytes := sat64 (rs_rx_bytes n + length data), rs_evicted_chunks := fst loss,
                                 rs_evicted_bytes := snd loss\<rparr>)
                (s\<lparr>rt_next_sequence := (rt_next_sequence s + 1) mod 2 ^ 64,
                   rt_offsets := bt_insert c (sat64 (current + length data)) (rt_offsets s), rt_history := h\<rparr>)))
        (push_history x (rt_history s)))"

definition record_automation_drop :: "nat \<Rightarrow> rtt_shared \<Rightarrow> rtt_shared" where
  "record_automation_drop bytes s =
     in_snapshot (\<lambda>n. n\<lparr>rs_automation_chunks := sat64 (rs_automation_chunks n + 1),
                        rs_automation_bytes := sat64 (rs_automation_bytes n + bytes)\<rparr>) s"

fun run_hook :: "rtt_chunk \<Rightarrow> drop_hook \<Rightarrow> rtt_shared \<Rightarrow> rtt_shared" where
  "run_hook x (CountDrop i) s = s\<lparr>rt_drops := (rt_drops s)(i := rt_drops s i + 1)\<rparr>"
| "run_hook x AutomationDrop s = record_automation_drop (length (rc_data x)) s"

definition publish_rx :: "rtt_chunk \<Rightarrow> rtt_shared \<Rightarrow> rtt_shared" where
  "publish_rx x s =
     (let (_, hs, src) = publish_observation x (rt_source s) in fold (run_hook x) hs (s\<lparr>rt_source := src\<rparr>))"

definition record_rx :: "nat \<Rightarrow> u32 \<Rightarrow> byte list \<Rightarrow> rtt_shared \<Rightarrow> (rtt_chunk \<times> rtt_shared) option" where
  "record_rx now c data s = map_option (\<lambda>(x, s). (x, publish_rx x s)) (store_rx now c data s)"

definition record_tx :: "nat \<Rightarrow> rtt_shared \<Rightarrow> rtt_shared" where
  "record_tx bytes s = in_snapshot (\<lambda>n. n\<lparr>rs_tx_bytes := sat64 (rs_tx_bytes n + bytes)\<rparr>) s"

definition record_presentation_drop_batch :: "nat \<Rightarrow> nat \<Rightarrow> rtt_shared \<Rightarrow> rtt_shared" where
  "record_presentation_drop_batch chunks bytes s =
     in_snapshot (\<lambda>n. n\<lparr>rs_presentation_chunks := sat64 (rs_presentation_chunks n + chunks),
                        rs_presentation_bytes := sat64 (rs_presentation_bytes n + bytes)\<rparr>) s"

definition record_runtime_pressure :: "rtt_shared \<Rightarrow> rtt_shared" where
  "record_runtime_pressure s = in_snapshot (\<lambda>n. n\<lparr>rs_pressure := sat64 (rs_pressure n + 1)\<rparr>) s"

definition set_rtt_error :: "rtt_error_code \<Rightarrow> rtt_shared \<Rightarrow> rtt_shared" where
  "set_rtt_error e s = in_snapshot (\<lambda>n. n\<lparr>rs_phase := RttFaulted, rs_last_error := Some e\<rparr>) s"

definition set_stopped :: "rtt_shared \<Rightarrow> rtt_shared" where
  "set_stopped s =
     in_snapshot (\<lambda>n. n\<lparr>rs_phase := RttIdle, rs_automation_source := None, rs_send_channel := None, rs_observers := [], rs_claims := []\<rparr>)
       (s\<lparr>rt_automation := None, rt_send := None\<rparr>)"

definition rtt_history_page :: "u32 \<Rightarrow> nat option \<Rightarrow> rtt_shared \<Rightarrow> history_response" where
  "rtt_history_page c after_sequence s = history_page (rs_generation (rt_snapshot s)) c after_sequence (rt_history s)"

definition observer_bootstrap :: "u32 \<Rightarrow> rtt_shared \<Rightarrow> rtt_chunk list" where
  "observer_bootstrap c s = (case map_of (hs_channels (rt_history s)) c of None \<Rightarrow> [] | Some k \<Rightarrow> ch_chunks k)"

definition validate_channel_direction :: "u32 \<Rightarrow> bool \<Rightarrow> rtt_shared \<Rightarrow> (unit, rtt_error_code) result" where
  "validate_channel_direction c require_up s =
     (case find (\<lambda>k. rx_index k = c) (rs_channels (rt_snapshot s)) of
        None \<Rightarrow> Err RttChannelNotFound
      | Some k \<Rightarrow>
          (case if require_up then rx_up k else rx_down k of
             None \<Rightarrow> Err RttChannelNotFound
           | Some d \<Rightarrow> if dir_usable d then Ok () else Err RttInvalidControlBlock))"

definition set_automation_source :: "u32 \<Rightarrow> rtt_shared \<Rightarrow> (rtt_shared, rtt_error_code) result" where
  "set_automation_source c s =
     rbind (validate_channel_direction c True s) (\<lambda>_.
       Ok (in_snapshot (\<lambda>n. n\<lparr>rs_automation_source := Some c\<rparr>) (s\<lparr>rt_automation := Some c\<rparr>)))"

definition validate_user_write :: "u32 \<Rightarrow> rtt_shared \<Rightarrow> (unit, rtt_error_code) result" where
  "validate_user_write c s = (if map_of (rt_claims s) c \<noteq> None then Err RttWriteFailed else Ok ())"

definition set_send_channel :: "u32 \<Rightarrow> rtt_shared \<Rightarrow> (rtt_shared, rtt_error_code) result" where
  "set_send_channel c s =
     rbind (validate_channel_direction c False s) (\<lambda>_. rbind (validate_user_write c s) (\<lambda>_.
       Ok (in_snapshot (\<lambda>n. n\<lparr>rs_send_channel := Some c\<rparr>) (s\<lparr>rt_send := Some c\<rparr>))))"

definition control_channel :: "rtt_shared \<Rightarrow> u32 option" where
  "control_channel s = map_option fst (find (\<lambda>(_, owner). owner = ''SystemView'') (rt_claims s))"

definition claim_down_channel :: "u32 \<Rightarrow> string \<Rightarrow> rtt_shared \<Rightarrow> (rtt_shared, rtt_error_code) result" where
  "claim_down_channel c owner s =
     rbind (validate_channel_direction c False s) (\<lambda>_.
       case map_of (rt_claims s) c of
         Some existing \<Rightarrow> if existing \<noteq> owner then Err RttWriteFailed else Ok s
       | None \<Rightarrow>
           (let s = s\<lparr>rt_claims := bt_insert c owner (rt_claims s)\<rparr>;
                replacement = preferred_channel (free_down (rt_claims s)) (rs_channels (rt_snapshot s)) in
            Ok (in_snapshot (\<lambda>n. n\<lparr>rs_send_channel := (if rs_send_channel n = Some c then replacement else rs_send_channel n),
                                   rs_claims := rt_claims s\<rparr>)
                  (s\<lparr>rt_send := (if rt_send s = Some c then replacement else rt_send s)\<rparr>))))"

definition release_down_channel :: "u32 \<Rightarrow> string \<Rightarrow> rtt_shared \<Rightarrow> rtt_shared" where
  "release_down_channel c owner s =
     (if map_of (rt_claims s) c \<noteq> Some owner then s
      else
        (let s = s\<lparr>rt_claims := bt_remove c (rt_claims s)\<rparr>;
             selected = (if rt_send s = None then preferred_channel (free_down (rt_claims s)) (rs_channels (rt_snapshot s)) else rt_send s) in
         in_snapshot (\<lambda>n. n\<lparr>rs_send_channel := selected, rs_claims := rt_claims s\<rparr>) (s\<lparr>rt_send := selected\<rparr>)))"

definition set_observers :: "rtt_observer list \<Rightarrow> rtt_shared \<Rightarrow> rtt_shared" where
  "set_observers os s = in_snapshot (\<lambda>n. n\<lparr>rs_observers := os\<rparr>) s"

definition subscribe_observer :: "u32 \<Rightarrow> rtt_shared \<Rightarrow> (nat \<times> rtt_shared, rtt_error_code) result" where
  "subscribe_observer c s =
     rbind (validate_channel_direction c True s) (\<lambda>_.
       (let (i, src) = subscribe_filtered (\<lambda>x. rc_channel x = c) (CountDrop (so_next (rt_source s))) (rt_source s) in
        Ok (i, s\<lparr>rt_source := src\<rparr>)))"

definition send_channel :: "rtt_shared \<Rightarrow> (u32, rtt_error_code) result" where
  "send_channel s = ok_or RttChannelNotFound (rt_send s)"

definition subscribe_automation :: "rtt_shared \<Rightarrow> (nat \<times> rtt_shared) option" where
  "subscribe_automation s =
     (case rt_automation s of
        None \<Rightarrow> None
      | Some c \<Rightarrow>
          (let (i, src) = subscribe_filtered (\<lambda>x. rc_channel x = c) AutomationDrop (rt_source s) in Some (i, s\<lparr>rt_source := src\<rparr>)))"

end
