(* ===== verification/Rtt_History.thy ===== *)
theory Rtt_History
  imports Rtt_Shared
begin

text \<open>
  The bounded history of an RTT session: pushing a chunk always ends, keeps the newest chunks of every channel within the limits and
  counts what it evicts.
\<close>

section \<open>Sums over an ordered map\<close>

lemma sum_bt_insert:
  "bt_ok m \<Longrightarrow> sum_list (map (f \<circ> snd) (bt_insert k v m)) + (case map_of m k of None \<Rightarrow> 0 | Some u \<Rightarrow> f u) =
     sum_list (map (f \<circ> snd) m) + f v" for f :: "'v \<Rightarrow> nat"
proof (induction m)
  case (Cons x m)
  obtain j u where x: "x = (j, u)" by fastforce
  have ok: "bt_ok m" "\<forall>i\<in>set (bt_keys m). j < i" using Cons.prems by (simp_all add: bt_keys_def x)
  have "map_of m k = None" if "k \<le> j" using ok(2) that by (metis bt_keys_dom domIff leD)
  with Cons.IH [OF ok(1)] x show ?case by (auto split: option.splits)
qed simp

definition chunk_bytes :: "rtt_chunk list \<Rightarrow> nat" where "chunk_bytes xs = sum_list (map (length \<circ> rc_data) xs)"

definition history_chunks :: "history_store \<Rightarrow> nat" where
  "history_chunks h = sum_list (map ((length \<circ> ch_chunks) \<circ> snd) (hs_channels h))"

definition of_channel :: "u32 \<Rightarrow> rtt_chunk list \<Rightarrow> rtt_chunk list" where "of_channel c = filter (\<lambda>x. rc_channel x = c)"

lemma chunk_bytes_simps [simp]:
  "chunk_bytes [] = 0" "chunk_bytes (x # xs) = length (rc_data x) + chunk_bytes xs" "chunk_bytes (xs @ ys) = chunk_bytes xs + chunk_bytes ys"
  by (simp_all add: chunk_bytes_def)

lemma of_channel_simps [simp]:
  "of_channel c [] = []" "of_channel c (xs @ ys) = of_channel c xs @ of_channel c ys"
  "of_channel c (x # xs) = (if rc_channel x = c then x # of_channel c xs else of_channel c xs)"
  by (simp_all add: of_channel_def)

lemma sat64_add [simp]: "sat64 (sat64 a + b) = sat64 (a + b)" "sat64 (Suc (sat64 a)) = sat64 (Suc a)"
  by (simp_all add: sat64_def)

section \<open>The invariant\<close>

text \<open>Each channel keeps the last of its chunks and counts the others.\<close>

definition channel_ok :: "rtt_chunk list \<Rightarrow> channel_history \<Rightarrow> bool" where
  "channel_ok xs k \<longleftrightarrow> ch_bytes k = chunk_bytes (ch_chunks k) \<and>
     (\<exists>old. xs = old @ ch_chunks k \<and> ch_dropped_chunks k = sat64 (length old) \<and> ch_dropped_bytes k = sat64 (chunk_bytes old))"

definition history_ok :: "rtt_chunk list \<Rightarrow> history_store \<Rightarrow> bool" where
  "history_ok cs h \<longleftrightarrow> bt_ok (hs_channels h) \<and> (\<forall>c. channel_ok (of_channel c cs) (channel_of c h)) \<and>
     hs_total h = sum_list (map (ch_bytes \<circ> snd) (hs_channels h))"

lemma history_ok_new: "history_ok [] \<lparr>hs_channels = [], hs_total = 0\<rparr>"
  by (simp add: history_ok_def channel_of_def channel_ok_def default_channel_def bt_keys_def sat64_def)

lemma history_ok_put:
  assumes "history_ok cs h" "channel_ok (of_channel c cs') k'" "\<forall>d. d \<noteq> c \<longrightarrow> of_channel d cs' = of_channel d cs"
    "n + ch_bytes (channel_of c h) = hs_total h + ch_bytes k'"
  shows "history_ok cs' (h\<lparr>hs_channels := bt_insert c k' (hs_channels h), hs_total := n\<rparr>)"
proof -
  have "bt_ok (hs_channels h)" "hs_total h = sum_list (map (ch_bytes \<circ> snd) (hs_channels h))" using assms(1) by (simp_all add: history_ok_def)
  with sum_bt_insert [of "hs_channels h" ch_bytes c k'] assms(4)
  have "n = sum_list (map (ch_bytes \<circ> snd) (bt_insert c k' (hs_channels h)))"
    by (auto simp: channel_of_def default_channel_def split: option.splits)
  with assms show ?thesis by (auto simp: history_ok_def channel_of_def)
qed

lemma drop_front_ok:
  assumes ok: "history_ok cs h"
  shows "history_ok cs (drop_front c h) \<and> (ch_chunks (channel_of c h) \<noteq> [] \<longrightarrow> history_chunks (drop_front c h) < history_chunks h)"
proof (cases "ch_chunks (channel_of c h)")
  case Nil
  then have "drop_front c h = h" by (auto simp: drop_front_def channel_of_def split: option.splits list.splits)
  with ok Nil show ?thesis by simp
next
  case (Cons x xs)
  then obtain k where k: "map_of (hs_channels h) c = Some k" "channel_of c h = k" "ch_chunks k = x # xs"
    by (auto simp: channel_of_def default_channel_def split: option.splits)
  let ?k = "\<lparr>ch_chunks = xs, ch_bytes = ch_bytes k - length (rc_data x), ch_dropped_chunks = sat64 (ch_dropped_chunks k + 1),
     ch_dropped_bytes = sat64 (ch_dropped_bytes k + length (rc_data x))\<rparr>"
  have d: "drop_front c h = h\<lparr>hs_channels := bt_insert c ?k (hs_channels h), hs_total := hs_total h - length (rc_data x)\<rparr>"
    using k by (simp add: drop_front_def Let_def)
  have kok: "channel_ok (of_channel c cs) k" and bt: "bt_ok (hs_channels h)" and tot: "hs_total h = sum_list (map (ch_bytes \<circ> snd) (hs_channels h))"
    using ok k(2) by (auto simp: history_ok_def)
  then obtain old where old: "of_channel c cs = old @ x # xs" "ch_dropped_chunks k = sat64 (length old)" "ch_dropped_bytes k = sat64 (chunk_bytes old)"
    "ch_bytes k = length (rc_data x) + chunk_bytes xs" using k(3) by (auto simp: channel_ok_def)
  then have "channel_ok (of_channel c cs) ?k" unfolding channel_ok_def by (intro conjI exI [of _ "old @ [x]"]) simp_all
  moreover have "ch_bytes k \<le> hs_total h"
  proof -
    have "ch_bytes k \<in> set (map (ch_bytes \<circ> snd) (hs_channels h))" using k(1) by (force dest: map_of_SomeD)
    then show ?thesis unfolding tot by (intro member_le_sum_list) simp_all
  qed
  ultimately have "history_ok cs (drop_front c h)"
    unfolding d using old(4) k(2) by (intro history_ok_put [OF ok]) simp_all
  moreover have "history_chunks (drop_front c h) < history_chunks h"
    using sum_bt_insert [OF bt, of "length \<circ> ch_chunks" c ?k] k by (simp add: d history_chunks_def)
  ultimately show ?thesis by blast
qed

lemma append_chunk_ok:
  assumes "history_ok cs h"
  shows "history_ok (cs @ [x]) (append_chunk x h)"
proof -
  let ?c = "rc_channel x"
  have "channel_ok (of_channel ?c cs) (channel_of ?c h)" using assms by (simp add: history_ok_def)
  then have "channel_ok (of_channel ?c (cs @ [x]))
      ((channel_of ?c h)\<lparr>ch_bytes := ch_bytes (channel_of ?c h) + length (rc_data x), ch_chunks := ch_chunks (channel_of ?c h) @ [x]\<rparr>)"
    by (auto simp: channel_ok_def)
  then show ?thesis unfolding append_chunk_def Let_def by (rule history_ok_put [OF assms]) auto
qed

section \<open>The eviction loops\<close>

lemma trim_channel_ok:
  assumes "history_ok cs h"
  obtains h' where "trim_channel c h = Some h'" "history_ok cs h'" "ch_bytes (channel_of c h') \<le> HISTORY_PER_CHANNEL_BYTES"
    "\<And>d. d \<noteq> c \<Longrightarrow> channel_of d h' = channel_of d h"
proof -
  let ?b = "\<lambda>h. case map_of (hs_channels h) c of None \<Rightarrow> False | Some k \<Rightarrow> ch_bytes k > HISTORY_PER_CHANNEL_BYTES"
  let ?P = "\<lambda>g. history_ok cs g \<and> (\<forall>d. d \<noteq> c \<longrightarrow> channel_of d g = channel_of d h)"
  have other: "channel_of d (drop_front c g) = channel_of d g" if "d \<noteq> c" for d g
    using that by (auto simp: drop_front_def channel_of_def Let_def split: option.splits list.splits)
  have step: "?P (drop_front c g) \<and> history_chunks (drop_front c g) < history_chunks g" if "?P g" "?b g" for g
  proof -
    have "ch_bytes (channel_of c g) > 0" using that(2) by (auto simp: channel_of_def HISTORY_PER_CHANNEL_BYTES_def split: option.splits)
    moreover have "channel_ok (of_channel c cs) (channel_of c g)" using that(1) by (simp add: history_ok_def)
    ultimately have "ch_chunks (channel_of c g) \<noteq> []" by (auto simp: channel_ok_def)
    with drop_front_ok [of cs g c] that(1) other show ?thesis by simp
  qed
  from measure_while_option_Some [of ?P ?b "drop_front c" history_chunks h] step assms
  obtain h' where t: "while_option ?b (drop_front c) h = Some h'" by blast
  have "?P h'" by (rule while_option_rule [OF _ t]) (use step assms in blast)+
  moreover have "ch_bytes (channel_of c h') \<le> HISTORY_PER_CHANNEL_BYTES"
    using while_option_stop [OF t] by (auto simp: channel_of_def default_channel_def HISTORY_PER_CHANNEL_BYTES_def split: option.splits)
  ultimately show ?thesis using t by (intro that [of h']) (auto simp: trim_channel_def)
qed

lemma least_sequence_None: "least_sequence xs = None \<longleftrightarrow> xs = []"
proof -
  let ?f = "\<lambda>x best. case best of None \<Rightarrow> Some x | Some b \<Rightarrow> if snd x < snd b then Some x else Some b"
  have "fold ?f ys (Some b) \<noteq> None" for ys :: "(u32 \<times> nat) list" and b
    by (induction ys arbitrary: b) simp_all
  then show ?thesis by (cases xs) (simp_all add: least_sequence_def)
qed

lemma least_sequence_Some:
  assumes "least_sequence xs = Some c"
  shows "\<exists>n. (c, n) \<in> set xs"
proof -
  let ?f = "\<lambda>x best. case best of None \<Rightarrow> Some x | Some b \<Rightarrow> if snd x < snd b then Some x else Some b"
  have "fold ?f ys best = Some y \<Longrightarrow> y \<in> set ys \<or> best = Some y" for ys :: "(u32 \<times> nat) list" and best y
    by (induction ys arbitrary: best) (fastforce split: option.splits if_splits)+
  from this [of xs None] assms show ?thesis by (auto simp: least_sequence_def)
qed

lemma oldest_channel_Some:
  assumes "bt_ok (hs_channels h)" "oldest_channel h = Some c"
  shows "ch_chunks (channel_of c h) \<noteq> []"
proof -
  obtain n where "(c, n) \<in> set (List.map_filter (\<lambda>(c, k). case ch_chunks k of [] \<Rightarrow> None | x # _ \<Rightarrow> Some (c, rc_sequence x)) (hs_channels h))"
    using least_sequence_Some assms(2) unfolding oldest_channel_def by blast
  then obtain k where "(c, k) \<in> set (hs_channels h)" "ch_chunks k \<noteq> []"
    by (auto simp: List.map_filter_def split: list.splits)
  then show ?thesis using bt_ok_distinct [OF assms(1)] by (simp add: channel_of_def)
qed

lemma trim_session_ok:
  assumes "history_ok cs h" "\<And>c. ch_bytes (channel_of c h) \<le> n"
  obtains h' where "trim_session h = Some h'" "history_ok cs h'" "hs_total h' \<le> HISTORY_PER_SESSION_BYTES"
    "\<And>c. ch_bytes (channel_of c h') \<le> n"
proof -
  let ?b = "\<lambda>h. hs_total h > HISTORY_PER_SESSION_BYTES \<and> oldest_channel h \<noteq> None"
  let ?s = "\<lambda>h. case oldest_channel h of None \<Rightarrow> h | Some c \<Rightarrow> drop_front c h"
  let ?P = "\<lambda>g. history_ok cs g \<and> (\<forall>c. ch_bytes (channel_of c g) \<le> n)"
  have less: "ch_bytes (channel_of d (drop_front c g)) \<le> ch_bytes (channel_of d g)" for c d g
    by (auto simp: drop_front_def channel_of_def Let_def split: option.splits list.splits)
  have step: "?P (?s g) \<and> history_chunks (?s g) < history_chunks g" if P: "?P g" and b: "?b g" for g
  proof -
    obtain c where c: "oldest_channel g = Some c" using b by blast
    have "bt_ok (hs_channels g)" using P by (simp add: history_ok_def)
    from oldest_channel_Some [OF this c] drop_front_ok [of cs g c] P c less [of _ c g] show ?thesis
      by (auto intro: order.trans)
  qed
  from measure_while_option_Some [of ?P ?b ?s history_chunks h] step assms
  obtain h' where t: "while_option ?b ?s h = Some h'" by blast
  have P: "?P h'" by (rule while_option_rule [OF _ t]) (use step assms in blast)+
  have "hs_total h' \<le> HISTORY_PER_SESSION_BYTES"
  proof (rule ccontr)
    assume a: "\<not> ?thesis"
    with while_option_stop [OF t] have "oldest_channel h' = None" by simp
    then have "\<forall>(c, k)\<in>set (hs_channels h'). ch_chunks k = []"
      by (auto simp: oldest_channel_def least_sequence_None List.map_filter_def filter_empty_conv split: list.splits)
    moreover have "ch_bytes k = chunk_bytes (ch_chunks k)" if "(c, k) \<in> set (hs_channels h')" for c k
    proof -
      have "channel_of c h' = k" using P that by (auto simp: channel_of_def history_ok_def dest!: bt_ok_distinct)
      moreover have "channel_ok (of_channel c cs) (channel_of c h')" using P by (simp add: history_ok_def)
      ultimately show ?thesis by (simp add: channel_ok_def)
    qed
    ultimately have "map (ch_bytes \<circ> snd) (hs_channels h') = map (\<lambda>_. 0) (hs_channels h')" by (intro map_cong) auto
    then have "hs_total h' = 0" using P by (simp add: history_ok_def sum_list_triv del: map_map map_eq_conv)
    with a show False by simp
  qed
  with P t show ?thesis by (intro that [of h']) (auto simp: trim_session_def)
qed

definition within_limits :: "history_store \<Rightarrow> bool" where
  "within_limits h \<longleftrightarrow> hs_total h \<le> HISTORY_PER_SESSION_BYTES \<and> (\<forall>c. ch_bytes (channel_of c h) \<le> HISTORY_PER_CHANNEL_BYTES)"

lemma push_history_ok:
  assumes "history_ok cs h" "within_limits h"
  obtains h' where "push_history x h = Some (loss_totals h', h')" "history_ok (cs @ [x]) h'" "within_limits h'"
proof -
  let ?h = "append_chunk x h"
  obtain g where g: "trim_channel (rc_channel x) ?h = Some g" "history_ok (cs @ [x]) g"
    "ch_bytes (channel_of (rc_channel x) g) \<le> HISTORY_PER_CHANNEL_BYTES"
    "\<And>d. d \<noteq> rc_channel x \<Longrightarrow> channel_of d g = channel_of d ?h"
    using trim_channel_ok [OF append_chunk_ok [OF assms(1)]] by blast
  have "channel_of d ?h = channel_of d h" if "d \<noteq> rc_channel x" for d
    using that by (simp add: append_chunk_def channel_of_def Let_def)
  then have l: "ch_bytes (channel_of c g) \<le> HISTORY_PER_CHANNEL_BYTES" for c
    using g(3,4) assms(2) by (cases "c = rc_channel x") (simp_all add: within_limits_def)
  obtain h' where "trim_session g = Some h'" "history_ok (cs @ [x]) h'" "within_limits h'"
    using trim_session_ok [OF g(2) l] by (metis within_limits_def)
  with g(1) show ?thesis by (intro that) (simp_all add: push_history_def)
qed

text \<open>Nothing is evicted below the limits.\<close>

lemma push_history_small:
  assumes "ch_bytes (channel_of (rc_channel x) (append_chunk x h)) \<le> HISTORY_PER_CHANNEL_BYTES"
    "hs_total (append_chunk x h) \<le> HISTORY_PER_SESSION_BYTES"
  shows "push_history x h = Some (loss_totals (append_chunk x h), append_chunk x h)"
proof -
  have "trim_channel (rc_channel x) (append_chunk x h) = Some (append_chunk x h)"
    unfolding trim_channel_def using assms(1) by (subst while_option_unfold) (auto simp: channel_of_def split: option.splits)
  moreover have "trim_session (append_chunk x h) = Some (append_chunk x h)"
    unfolding trim_session_def using assms(2) by (subst while_option_unfold) simp
  ultimately show ?thesis by (simp add: push_history_def)
qed

end
