(* ===== verification/Rtt_Selection.thy ===== *)
theory Rtt_Selection
  imports Rtt_Shared
begin

text \<open>
  The methods of \<open>RttShared\<close> that choose channels, one lock at a time. \<open>Rtt_Shared\<close> has each of them as a whole; here each step
  is what the code does while it holds one lock, so that calls of several threads can come between each other. A call that nothing
  comes between does what the method as a whole does.
\<close>

section \<open>Calls and where they stand\<close>

datatype selection_call =
  SelectSource u32
| SelectSend u32
| ClaimDown u32 string
| ReleaseDown u32 string
| AnnounceChannels rtt_descriptor "rtt_channel list"
| StopSession

text \<open>What a thread has found out and done so far, between two of its locks.\<close>

datatype selection_pc =
  Called selection_call
| Returned "(unit, rtt_error_code) result"
| SourceChecked u32
| SourceStored u32
| SendChecked u32
| SendFree u32
| SendStored u32
| ClaimChecked u32 string
| ClaimInserted u32
| ClaimListed u32 "rtt_channel list"
| ClaimReplaced u32 "u32 option"
| ClaimStored u32 "u32 option"
| ReleaseRemoved
| ReleaseListed "rtt_channel list"
| ReleaseFree "rtt_channel list" "u32 list"
| ReleaseStored "u32 option"
| AnnounceSource rtt_descriptor "rtt_channel list" "u32 option"
| AnnounceClaims rtt_descriptor "rtt_channel list" "u32 option" "u32 list"
| AnnounceSend rtt_descriptor "rtt_channel list" "u32 option" "u32 option"
| StopSource
| StopSend

definition writable :: "u32 list \<Rightarrow> rtt_channel \<Rightarrow> bool" where
  "writable claimed k = (has_usable_down k \<and> rx_index k \<notin> set claimed)"

definition after_check :: "(unit, rtt_error_code) result \<Rightarrow> selection_pc \<Rightarrow> selection_pc" where
  "after_check r next_pc = (case r of Ok _ \<Rightarrow> next_pc | Err e \<Rightarrow> Returned (Err e) | Panic \<Rightarrow> Returned Panic)"

section \<open>One lock at a time\<close>

fun source_region :: "selection_pc \<Rightarrow> rtt_shared \<Rightarrow> selection_pc \<times> rtt_shared" where
  "source_region (Called (SelectSource c)) s = (after_check (validate_channel_direction c True s) (SourceChecked c), s)"
| "source_region (SourceChecked c) s = (SourceStored c, s\<lparr>rt_automation := Some c\<rparr>)"
| "source_region (SourceStored c) s = (Returned (Ok ()), in_snapshot (\<lambda>n. n\<lparr>rs_automation_source := Some c\<rparr>) s)"
| "source_region pc s = (pc, s)"

fun send_region :: "selection_pc \<Rightarrow> rtt_shared \<Rightarrow> selection_pc \<times> rtt_shared" where
  "send_region (Called (SelectSend c)) s = (after_check (validate_channel_direction c False s) (SendChecked c), s)"
| "send_region (SendChecked c) s = (after_check (validate_user_write c s) (SendFree c), s)"
| "send_region (SendFree c) s = (SendStored c, s\<lparr>rt_send := Some c\<rparr>)"
| "send_region (SendStored c) s = (Returned (Ok ()), in_snapshot (\<lambda>n. n\<lparr>rs_send_channel := Some c\<rparr>) s)"
| "send_region pc s = (pc, s)"

fun claim_region :: "selection_pc \<Rightarrow> rtt_shared \<Rightarrow> selection_pc \<times> rtt_shared" where
  "claim_region (Called (ClaimDown c owner)) s = (after_check (validate_channel_direction c False s) (ClaimChecked c owner), s)"
| "claim_region (ClaimChecked c owner) s =
     (case map_of (rt_claims s) c of
        Some existing \<Rightarrow> (Returned (if existing \<noteq> owner then Err RttWriteFailed else Ok ()), s)
      | None \<Rightarrow> (ClaimInserted c, s\<lparr>rt_claims := bt_insert c owner (rt_claims s)\<rparr>))"
| "claim_region (ClaimInserted c) s = (ClaimListed c (rs_channels (rt_snapshot s)), s)"
| "claim_region (ClaimListed c cs) s = (ClaimReplaced c (preferred_channel (writable (bt_keys (rt_claims s))) cs), s)"
| "claim_region (ClaimReplaced c replacement) s =
     (ClaimStored c replacement, s\<lparr>rt_send := (if rt_send s = Some c then replacement else rt_send s)\<rparr>)"
| "claim_region (ClaimStored c replacement) s =
     (Returned (Ok ()), in_snapshot (\<lambda>n. n\<lparr>rs_send_channel := (if rs_send_channel n = Some c then replacement else rs_send_channel n),
                                          rs_claims := rt_claims s\<rparr>) s)"
| "claim_region pc s = (pc, s)"

fun release_region :: "selection_pc \<Rightarrow> rtt_shared \<Rightarrow> selection_pc \<times> rtt_shared" where
  "release_region (Called (ReleaseDown c owner)) s =
     (if map_of (rt_claims s) c = Some owner then (ReleaseRemoved, s\<lparr>rt_claims := bt_remove c (rt_claims s)\<rparr>) else (Returned (Ok ()), s))"
| "release_region ReleaseRemoved s = (ReleaseListed (rs_channels (rt_snapshot s)), s)"
| "release_region (ReleaseListed cs) s = (ReleaseFree cs (bt_keys (rt_claims s)), s)"
| "release_region (ReleaseFree cs claimed) s =
     (let selected = (if rt_send s = None then preferred_channel (writable claimed) cs else rt_send s) in
      (ReleaseStored selected, s\<lparr>rt_send := selected\<rparr>))"
| "release_region (ReleaseStored selected) s =
     (Returned (Ok ()), in_snapshot (\<lambda>n. n\<lparr>rs_send_channel := selected, rs_claims := rt_claims s\<rparr>) s)"
| "release_region pc s = (pc, s)"

fun announce_region :: "selection_pc \<Rightarrow> rtt_shared \<Rightarrow> selection_pc \<times> rtt_shared" where
  "announce_region (Called (AnnounceChannels d cs)) s =
     (let source = keep_or_prefer has_usable_up cs (rt_automation s) in (AnnounceSource d cs source, s\<lparr>rt_automation := source\<rparr>))"
| "announce_region (AnnounceSource d cs source) s = (AnnounceClaims d cs source (bt_keys (rt_claims s)), s)"
| "announce_region (AnnounceClaims d cs source claimed) s =
     (let send = keep_or_prefer (writable claimed) cs (rt_send s) in (AnnounceSend d cs source send, s\<lparr>rt_send := send\<rparr>))"
| "announce_region (AnnounceSend d cs source send) s =
     (Returned (Ok ()), in_snapshot (\<lambda>n. n\<lparr>rs_phase := RttRunning, rs_backend := Some d, rs_channels := cs, rs_automation_source := source,
        rs_send_channel := send, rs_claims := rt_claims s, rs_last_error := None\<rparr>) s)"
| "announce_region pc s = (pc, s)"

fun stop_region :: "selection_pc \<Rightarrow> rtt_shared \<Rightarrow> selection_pc \<times> rtt_shared" where
  "stop_region (Called StopSession) s = (StopSource, s\<lparr>rt_automation := None\<rparr>)"
| "stop_region StopSource s = (StopSend, s\<lparr>rt_send := None\<rparr>)"
| "stop_region StopSend s =
     (Returned (Ok ()), in_snapshot (\<lambda>n. n\<lparr>rs_phase := RttIdle, rs_automation_source := None, rs_send_channel := None, rs_observers := [],
        rs_claims := []\<rparr>) s)"
| "stop_region pc s = (pc, s)"

text \<open>The next lock of a call, whichever method it is of; a call that has returned takes none.\<close>

definition region :: "selection_pc \<Rightarrow> rtt_shared \<Rightarrow> selection_pc \<times> rtt_shared" where
  "region pc s =
     (case pc of
        Returned r \<Rightarrow> (pc, s)
      | Called (SelectSource c) \<Rightarrow> source_region pc s
      | Called (SelectSend c) \<Rightarrow> send_region pc s
      | Called (ClaimDown c owner) \<Rightarrow> claim_region pc s
      | Called (ReleaseDown c owner) \<Rightarrow> release_region pc s
      | Called (AnnounceChannels d cs) \<Rightarrow> announce_region pc s
      | Called StopSession \<Rightarrow> stop_region pc s
      | SourceChecked c \<Rightarrow> source_region pc s | SourceStored c \<Rightarrow> source_region pc s
      | SendChecked c \<Rightarrow> send_region pc s | SendFree c \<Rightarrow> send_region pc s | SendStored c \<Rightarrow> send_region pc s
      | ClaimChecked c owner \<Rightarrow> claim_region pc s | ClaimInserted c \<Rightarrow> claim_region pc s | ClaimListed c cs \<Rightarrow> claim_region pc s
      | ClaimReplaced c r \<Rightarrow> claim_region pc s | ClaimStored c r \<Rightarrow> claim_region pc s
      | ReleaseRemoved \<Rightarrow> release_region pc s | ReleaseListed cs \<Rightarrow> release_region pc s | ReleaseFree cs ks \<Rightarrow> release_region pc s
      | ReleaseStored selected \<Rightarrow> release_region pc s
      | AnnounceSource d cs a \<Rightarrow> announce_region pc s | AnnounceClaims d cs a ks \<Rightarrow> announce_region pc s
      | AnnounceSend d cs a b \<Rightarrow> announce_region pc s
      | StopSource \<Rightarrow> stop_region pc s | StopSend \<Rightarrow> stop_region pc s)"

section \<open>Calls alone\<close>

definition as_call :: "rtt_shared \<Rightarrow> (rtt_shared, rtt_error_code) result \<Rightarrow> (unit, rtt_error_code) result \<times> rtt_shared" where
  "as_call s r = (case r of Ok s' \<Rightarrow> (Ok (), s') | Err e \<Rightarrow> (Err e, s) | Panic \<Rightarrow> (Panic, s))"

fun whole_call :: "selection_call \<Rightarrow> rtt_shared \<Rightarrow> (unit, rtt_error_code) result \<times> rtt_shared" where
  "whole_call (SelectSource c) s = as_call s (set_automation_source c s)"
| "whole_call (SelectSend c) s = as_call s (set_send_channel c s)"
| "whole_call (ClaimDown c owner) s = as_call s (claim_down_channel c owner s)"
| "whole_call (ReleaseDown c owner) s = (Ok (), release_down_channel c owner s)"
| "whole_call (AnnounceChannels d cs) s = (Ok (), set_running d cs s)"
| "whole_call StopSession s = (Ok (), set_stopped s)"

lemma writable_free: "writable (bt_keys m) = free_down m"
  by (rule ext) (simp add: writable_def free_down_def)

definition alone :: "nat \<Rightarrow> selection_pc \<times> rtt_shared \<Rightarrow> selection_pc \<times> rtt_shared" where
  "alone n = (\<lambda>(pc, s). region pc s) ^^ n"

lemma alone_simps: "alone 0 x = x" "alone (Suc n) x = alone n (region (fst x) (snd x))"
  by (simp_all add: alone_def funpow_swap1 split_beta)

lemma region_returned: "region (Returned r) s = (Returned r, s)"
  by (simp add: region_def)

lemma alone_returned: "alone n (Returned r, s) = (Returned r, s)"
  by (induction n) (simp_all add: alone_simps region_returned)

lemma region_check:
  "region (Called (SelectSource c)) s = (after_check (validate_channel_direction c True s) (SourceChecked c), s)"
  "region (Called (SelectSend c)) s = (after_check (validate_channel_direction c False s) (SendChecked c), s)"
  "region (Called (ClaimDown c owner)) s = (after_check (validate_channel_direction c False s) (ClaimChecked c owner), s)"
  by (simp_all add: region_def)

lemma region_select:
  "region (SourceChecked c) s = (SourceStored c, s\<lparr>rt_automation := Some c\<rparr>)"
  "region (SourceStored c) s = (Returned (Ok ()), in_snapshot (\<lambda>n. n\<lparr>rs_automation_source := Some c\<rparr>) s)"
  "region (SendChecked c) s = (after_check (validate_user_write c s) (SendFree c), s)"
  "region (SendFree c) s = (SendStored c, s\<lparr>rt_send := Some c\<rparr>)"
  "region (SendStored c) s = (Returned (Ok ()), in_snapshot (\<lambda>n. n\<lparr>rs_send_channel := Some c\<rparr>) s)"
  by (simp_all add: region_def)

lemma region_claim:
  "region (ClaimChecked c owner) s = claim_region (ClaimChecked c owner) s" "region (ClaimInserted c) s = claim_region (ClaimInserted c) s"
  "region (ClaimListed c cs) s = claim_region (ClaimListed c cs) s" "region (ClaimReplaced c r) s = claim_region (ClaimReplaced c r) s"
  "region (ClaimStored c r) s = claim_region (ClaimStored c r) s"
  by (simp_all add: region_def)

lemma region_other:
  "region (Called (ReleaseDown c owner)) s = release_region (Called (ReleaseDown c owner)) s"
  "region ReleaseRemoved s = release_region ReleaseRemoved s" "region (ReleaseListed cs) s = release_region (ReleaseListed cs) s"
  "region (ReleaseFree cs ks) s = release_region (ReleaseFree cs ks) s" "region (ReleaseStored r) s = release_region (ReleaseStored r) s"
  "region (Called (AnnounceChannels d cs)) s = announce_region (Called (AnnounceChannels d cs)) s"
  "region (AnnounceSource d cs a) s = announce_region (AnnounceSource d cs a) s"
  "region (AnnounceClaims d cs a ks) s = announce_region (AnnounceClaims d cs a ks) s"
  "region (AnnounceSend d cs a r) s = announce_region (AnnounceSend d cs a r) s"
  "region (Called StopSession) s = stop_region (Called StopSession) s" "region StopSource s = stop_region StopSource s"
  "region StopSend s = stop_region StopSend s"
  by (simp_all add: region_def)

lemmas region_simps = region_check region_select region_claim region_other region_returned

lemma whole_call_regions: "alone 6 (Called k, s) = (Returned (fst (whole_call k s)), snd (whole_call k s))"
proof -
  have six: "alone 6 = alone (Suc (Suc (Suc (Suc (Suc (Suc 0))))))" by (simp add: numeral_eq_Suc)
  note steps = six alone_simps region_simps
  show ?thesis
  proof (cases k)
    case (SelectSource c)
    then show ?thesis
      by (cases "validate_channel_direction c True s") (simp_all add: steps after_check_def as_call_def set_automation_source_def)
  next
    case (SelectSend c)
    then show ?thesis
      by (cases "validate_channel_direction c False s"; cases "map_of (rt_claims s) c")
        (simp_all add: steps after_check_def as_call_def set_send_channel_def validate_user_write_def)
  next
    case (ClaimDown c owner)
    then show ?thesis
      by (cases "validate_channel_direction c False s"; cases "map_of (rt_claims s) c")
        (simp_all add: steps after_check_def as_call_def claim_down_channel_def writable_free Let_def)
  next
    case (ReleaseDown c owner)
    then show ?thesis
      by (cases "map_of (rt_claims s) c = Some owner") (simp_all add: steps release_down_channel_def writable_free Let_def)
  next
    case (AnnounceChannels d cs)
    then show ?thesis by (simp add: steps set_running_def writable_free Let_def)
  next
    case StopSession
    then show ?thesis by (simp add: steps set_stopped_def)
  qed
qed

section \<open>Calls of several threads\<close>

definition turn :: "nat \<Rightarrow> rtt_shared \<times> (nat \<Rightarrow> selection_pc) \<Rightarrow> rtt_shared \<times> (nat \<Rightarrow> selection_pc)" where
  "turn i x = (let (s, pcs) = x; (pc, s) = region (pcs i) s in (s, pcs(i := pc)))"

text \<open>A claim that comes between the check of a selection and its store.\<close>

lemma claim_between_check_and_store:
  assumes "validate_channel_direction c False s = Ok ()" "map_of (rt_claims s) c = None" "pcs 0 = Called (SelectSend c)" "pcs 1 = Called (ClaimDown c owner)"
    and "fold turn [0, 0, 1, 1, 1, 1, 1, 1, 0, 0] (s, pcs) = (s', pcs')"
  shows "pcs' 0 = Returned (Ok ()) \<and> pcs' 1 = Returned (Ok ()) \<and> rt_send s' = Some c \<and> map_of (rt_claims s') c = Some owner \<and>
    rs_send_channel (rt_snapshot s') = Some c"
proof -
  have ins: "map_of (bt_insert c owner m) c = Some owner" for m :: "(u32 \<times> string) list" by simp
  show ?thesis
    using assms(5) assms(1-4)
    by (auto simp: turn_def region_simps after_check_def validate_user_write_def Let_def ins)
qed

end
