(* ===== verification/SystemView_Runtime.thy ===== *)
theory SystemView_Runtime
  imports SystemView_Stream SystemView_Replay Rtt_Model
begin

text \<open>
  The decoder thread of a SystemView observer: the second half of \<open>plugins/rtt/systemview.rs\<close>. It takes chunks from its subscription, feeds
  the decoder and the trace, queues the events for the front end and asks the target for metadata of tasks it does not know. The front
  end clears the trace and reads snapshots meanwhile, and the acquisition counts the chunks it could not queue: whatever it does between two accesses of the thread to the shared state is a list of client operations. Instants
  are nanoseconds, read from a clock that a function gives.
\<close>

section \<open>Snapshots\<close>

definition MAX_PENDING_PRESENTATION_EVENTS :: nat where "MAX_PENDING_PRESENTATION_EVENTS = 1024"
definition TRACE_FLUSH_INTERVAL :: nat where "TRACE_FLUSH_INTERVAL = 50000000"
definition TRACE_SNAPSHOT_INTERVAL :: nat where "TRACE_SNAPSHOT_INTERVAL = 250000000"

record trace_snapshot =
  vn_generation :: nat
  vn_channel_index :: nat
  vn_phase :: systemview_phase
  vn_control_available :: bool
  vn_event_count :: nat
  vn_task_count :: nat
  vn_metadata_sync_attempts :: nat
  vn_metadata_sync_max_attempts :: nat
  vn_overflow_packets :: nat
  vn_dropped_events :: nat
  vn_drop_rate :: nat
  vn_dropped_chunks :: nat
  vn_decoder_errors :: nat
  vn_presentation_dropped :: nat
  vn_cleared_through :: nat
  vn_sys_freq :: "u32 option"
  vn_cpu_freq :: "u32 option"
  vn_ram_base :: "u32 option"
  vn_id_shift :: "u32 option"
  vn_description :: "byte list list"
  vn_entry_state :: execution_state
  vn_window_start :: nat
  vn_last_cycles :: nat
  vn_tasks :: "task_snapshot list"

definition snapshot_trace :: "nat \<Rightarrow> nat \<Rightarrow> trace_state \<Rightarrow> trace_snapshot" where
  "snapshot_trace now dropped_chunks t =
     (let ts = snapshot_tasks t in
      \<lparr>vn_generation = generation t, vn_channel_index = channel_index t, vn_phase = trace_phase t,
       vn_control_available = control_available t, vn_event_count = event_count t, vn_task_count = length ts,
       vn_metadata_sync_attempts = metadata_sync_attempts t, vn_metadata_sync_max_attempts = length METADATA_RETRY_DELAYS_MS,
       vn_overflow_packets = target_overflow_packets t, vn_dropped_events = target_dropped_events t,
       vn_drop_rate = drop_rate_per_sec now t, vn_dropped_chunks = dropped_chunks, vn_decoder_errors = decoder_errors t,
       vn_presentation_dropped = presentation_dropped t, vn_cleared_through = cleared_through t, vn_sys_freq = sys_freq t,
       vn_cpu_freq = cpu_freq t, vn_ram_base = ram_base t, vn_id_shift = id_shift t, vn_description = system_description t,
       vn_entry_state = entry_state t, vn_window_start = window_start t, vn_last_cycles = last_cycles t, vn_tasks = ts\<rparr>)"

section \<open>The shared state\<close>

record trace_shared =
  vs_state :: trace_state
  vs_decoder :: systemview_decoder
  vs_dropped_chunks :: nat

definition new_shared :: "nat \<Rightarrow> nat \<Rightarrow> bool \<Rightarrow> trace_shared" where
  "new_shared g channel control = \<lparr>vs_state = new_trace g channel control, vs_decoder = default_decoder, vs_dropped_chunks = 0\<rparr>"

text \<open>The instants at which the packets of a chunk are applied are given by their position.\<close>

fun apply_packets :: "(nat \<Rightarrow> nat) \<Rightarrow> bool \<Rightarrow> parsed_packet list \<Rightarrow> trace_state \<Rightarrow> systemview_event list \<times> trace_state" where
  "apply_packets clk track [] t = ([], t)"
| "apply_packets clk track (p # ps) t =
     (let (e, t) = apply_packet (clk 0) track p t; (es, t) = apply_packets (clk \<circ> Suc) track ps t in (e # es, t))"

definition ingest :: "(nat \<Rightarrow> nat) \<Rightarrow> bool \<Rightarrow> rtt_chunk \<Rightarrow> trace_shared \<Rightarrow> (systemview_event list \<times> trace_shared, unit) result" where
  "ingest clk track chunk v =
     rbind (decoder_push (rc_data chunk) (vs_decoder v)) (\<lambda>(packets, errors, d).
       (let t = vs_state v; (es, t) = apply_packets clk track packets (t\<lparr>decoder_errors := sat64 (decoder_errors t + errors)\<rparr>) in
        Ok (es, v\<lparr>vs_decoder := d, vs_state := t\<rparr>)))"

definition mark_gap_shared :: "trace_shared \<Rightarrow> trace_shared" where
  "mark_gap_shared v = v\<lparr>vs_decoder := reset_after_gap (vs_decoder v), vs_state := mark_input_gap (vs_state v)\<rparr>"

definition snapshot_shared :: "nat \<Rightarrow> trace_shared \<Rightarrow> trace_snapshot" where
  "snapshot_shared now v = snapshot_trace now (vs_dropped_chunks v) (vs_state v)"

definition history_shared :: "nat \<Rightarrow> trace_shared \<Rightarrow> systemview_event list" where
  "history_shared limit v = trace_history limit (vs_state v)"

definition set_metadata_sync_attempts :: "nat \<Rightarrow> trace_shared \<Rightarrow> trace_shared" where
  "set_metadata_sync_attempts n v = v\<lparr>vs_state := (vs_state v)\<lparr>metadata_sync_attempts := sat32 n\<rparr>\<rparr>"

definition clear_shared :: "trace_shared \<Rightarrow> trace_shared" where
  "clear_shared v = v\<lparr>vs_state := clear_trace (vs_state v)\<rparr>"

definition record_presentation_drop :: "nat \<Rightarrow> trace_shared \<Rightarrow> trace_shared" where
  "record_presentation_drop n v =
     v\<lparr>vs_state := (vs_state v)\<lparr>presentation_dropped := sat64 (presentation_dropped (vs_state v) + n)\<rparr>\<rparr>"

definition set_control_available :: "bool \<Rightarrow> trace_shared \<Rightarrow> trace_shared" where
  "set_control_available b v = v\<lparr>vs_state := (vs_state v)\<lparr>control_available := b\<rparr>\<rparr>"

section \<open>Metadata retries\<close>

record metadata_retry =
  unknown_tasks :: "u32 list"
  retry_attempts :: nat
  next_retry :: "nat option"

definition default_retry :: metadata_retry where
  "default_retry = \<lparr>unknown_tasks = [], retry_attempts = 0, next_retry = None\<rparr>"

definition retry_delay :: "nat \<Rightarrow> nat" where "retry_delay i = METADATA_RETRY_DELAYS_MS ! i * 1000000"

definition retry_update :: "trace_snapshot \<Rightarrow> nat \<Rightarrow> metadata_retry \<Rightarrow> bool \<times> metadata_retry" where
  "retry_update s now r =
     (let unknown = sort_key unat (map tn_id (filter (\<lambda>k. tn_name k = None \<or> tn_priority k = None) (vn_tasks s)));
          r = (if unknown \<noteq> unknown_tasks r then \<lparr>unknown_tasks = unknown, retry_attempts = 0, next_retry = None\<rparr> else r) in
      if unknown_tasks r = [] \<or> \<not> vn_control_available s then (False, r\<lparr>next_retry := None\<rparr>)
      else if length METADATA_RETRY_DELAYS_MS \<le> retry_attempts r then (False, r\<lparr>next_retry := None\<rparr>)
      else
        (let at = (case next_retry r of None \<Rightarrow> now + retry_delay (retry_attempts r) | Some at \<Rightarrow> at) in
         (at \<le> now, r\<lparr>next_retry := Some at\<rparr>)))"

definition mark_dispatched :: "nat \<Rightarrow> metadata_retry \<Rightarrow> metadata_retry" where
  "mark_dispatched now r =
     (let n = retry_attempts r + 1 in
      r\<lparr>retry_attempts := n,
        next_retry := (if n < length METADATA_RETRY_DELAYS_MS then Some (now + retry_delay n) else None)\<rparr>)"

definition retry_defer :: "nat \<Rightarrow> metadata_retry \<Rightarrow> metadata_retry" where
  "retry_defer now r = r\<lparr>next_retry := Some (now + 250000000)\<rparr>"

section \<open>The thread\<close>

datatype presentation =
  PresentBatch (batch_events: "systemview_event list") (batch_snapshot: trace_snapshot)
| PresentSnapshot (only_snapshot: trace_snapshot)

datatype trace_client = ClientClear | ClientControl bool | ChunkDropped

fun trace_client_op :: "trace_client \<Rightarrow> trace_shared \<Rightarrow> trace_shared" where
  "trace_client_op ClientClear v = clear_shared v"
| "trace_client_op (ClientControl b) v = set_control_available b v"
| "trace_client_op ChunkDropped v = v\<lparr>vs_dropped_chunks := vs_dropped_chunks v + 1\<rparr>"

abbreviation "meanwhile \<equiv> fold trace_client_op"

record trace_worker =
  wk_shared :: trace_shared
  wk_pending :: "systemview_event list"
  wk_expected :: "nat option"
  wk_through :: nat
  wk_last_flush :: nat
  wk_last_snapshot :: nat
  wk_retry :: metadata_retry
  wk_loss_active :: bool
  wk_changed :: bool
  wk_presented :: "presentation list"

text \<open>
  What surrounds an iteration: the clock for the packets and for the other readings in their order, the operations of clients before
  each access to the shared state, and whether the request for metadata could be sent.
\<close>

record surroundings =
  at_packets :: "nat \<Rightarrow> nat"
  at_reading :: "nat \<Rightarrow> nat"
  clients :: "nat \<Rightarrow> trace_client list"
  refresh_sent :: bool

fun trim_pending ::
  "(nat \<Rightarrow> trace_client list) \<Rightarrow> systemview_event list \<Rightarrow> trace_shared \<Rightarrow> systemview_event list \<times> trace_shared" where
  "trim_pending cl [] v = ([], v)"
| "trim_pending cl (e # es) v =
     (if length (e # es) > MAX_PENDING_PRESENTATION_EVENTS
      then trim_pending (cl \<circ> Suc) es (record_presentation_drop 1 (meanwhile (cl 0) v)) else (e # es, v))"

text \<open>One chunk, from the bootstrap or from the subscription: the gap if its offset is not the expected one, the decoding and the queue.\<close>

definition take_chunk :: "surroundings \<Rightarrow> bool \<Rightarrow> rtt_chunk \<Rightarrow> trace_worker \<Rightarrow> (trace_worker, unit) result" where
  "take_chunk u track chunk w =
     (let v = wk_shared w;
          v = (if wk_expected w \<noteq> None \<and> wk_expected w \<noteq> Some (rc_offset chunk) then mark_gap_shared (meanwhile (clients u 0) v) else v) in
      rbind (ingest (at_packets u) track chunk (meanwhile (clients u 1) v)) (\<lambda>(es, v).
        (let (pending, v) = trim_pending (\<lambda>i. clients u (i + 2)) (wk_pending w @ es) v in
         Ok (w\<lparr>wk_shared := v, wk_pending := pending, wk_expected := Some (sat64 (rc_offset chunk + length (rc_data chunk)))\<rparr>))))"

fun bootstrap_chunks :: "(nat \<Rightarrow> surroundings) \<Rightarrow> rtt_chunk list \<Rightarrow> trace_worker \<Rightarrow> (trace_worker, unit) result" where
  "bootstrap_chunks us [] w = Ok w"
| "bootstrap_chunks us (c # cs) w = rbind (take_chunk (us 0) False c w) (bootstrap_chunks (us \<circ> Suc) cs)"

definition start_worker :: "nat \<Rightarrow> nat \<Rightarrow> trace_worker \<Rightarrow> trace_worker" where
  "start_worker flush snapshot w =
     w\<lparr>wk_last_flush := flush, wk_last_snapshot := snapshot, wk_retry := default_retry, wk_loss_active := False, wk_changed := True\<rparr>"

definition new_worker :: "trace_shared \<Rightarrow> rtt_chunk list \<Rightarrow> trace_worker" where
  "new_worker v bootstrap =
     \<lparr>wk_shared = v, wk_pending = [], wk_expected = None,
      wk_through = (if bootstrap = [] then 0 else rc_sequence (last bootstrap)), wk_last_flush = 0, wk_last_snapshot = 0,
      wk_retry = default_retry, wk_loss_active = False, wk_changed = True, wk_presented = []\<rparr>"

definition ask_metadata :: "surroundings \<Rightarrow> trace_snapshot \<Rightarrow> trace_worker \<Rightarrow> trace_snapshot \<times> trace_worker" where
  "ask_metadata u s w =
     (let now = at_reading u 0; before = retry_attempts (wk_retry w); (due, r) = retry_update s now (wk_retry w);
          r = (if due then if refresh_sent u then mark_dispatched now r else retry_defer now r else r);
          w = w\<lparr>wk_retry := r\<rparr> in
      if retry_attempts r \<noteq> before
      then (let v = meanwhile (clients u 4) (set_metadata_sync_attempts (retry_attempts r) (meanwhile (clients u 3) (wk_shared w))) in
            (snapshot_shared (at_reading u 2) v, w\<lparr>wk_shared := v, wk_changed := True\<rparr>))
      else (s, w))"

definition present :: "surroundings \<Rightarrow> trace_snapshot \<Rightarrow> trace_worker \<Rightarrow> trace_worker" where
  "present u s w =
     (if TRACE_FLUSH_INTERVAL \<le> at_reading u 3 - wk_last_flush w \<and> wk_pending w \<noteq> []
      then (let v = meanwhile (clients u 5) (wk_shared w); s = snapshot_shared (at_reading u 4) v in
            w\<lparr>wk_shared := v, wk_pending := [], wk_loss_active := 0 < vn_drop_rate s,
              wk_presented := wk_presented w @ [PresentBatch (wk_pending w) s],
              wk_last_flush := at_reading u 5, wk_last_snapshot := at_reading u 6, wk_changed := False\<rparr>)
      else
        (let active = 0 < vn_drop_rate s; health = active \<or> wk_loss_active w \<noteq> active in
         if (wk_changed w \<or> health) \<and> TRACE_SNAPSHOT_INTERVAL \<le> at_reading u 4 - wk_last_snapshot w
         then w\<lparr>wk_loss_active := active, wk_presented := wk_presented w @ [PresentSnapshot s],
                wk_last_snapshot := at_reading u 5, wk_changed := False\<rparr>
         else w))"

text \<open>The rest of an iteration, after the subscription has been waited for.\<close>

definition housekeeping :: "surroundings \<Rightarrow> trace_worker \<Rightarrow> trace_worker" where
  "housekeeping u w =
     (let v = meanwhile (clients u 2) (wk_shared w); s = snapshot_shared (at_reading u 1) v;
          (s, w) = ask_metadata u s (w\<lparr>wk_shared := v\<rparr>) in present u s w)"

datatype received = GotChunk rtt_chunk | RecvTimeout

definition decoder_iteration :: "surroundings \<Rightarrow> surroundings \<Rightarrow> received \<Rightarrow> trace_worker \<Rightarrow> (trace_worker, unit) result" where
  "decoder_iteration u1 u2 r w =
     (case r of
        GotChunk chunk \<Rightarrow>
          if rc_sequence chunk \<le> wk_through w then Ok w
          else rbind (take_chunk u1 True chunk w) (\<lambda>w. Ok (housekeeping u2 (w\<lparr>wk_changed := True\<rparr>)))
      | RecvTimeout \<Rightarrow> Ok (housekeeping u2 w))"

definition finish_decoder :: "surroundings \<Rightarrow> trace_worker \<Rightarrow> trace_worker" where
  "finish_decoder u w =
     (if wk_pending w = [] then w
      else (let v = meanwhile (clients u 0) (wk_shared w) in
            w\<lparr>wk_shared := v, wk_presented := wk_presented w @ [PresentBatch (wk_pending w) (snapshot_shared (at_reading u 0) v)],
              wk_pending := []\<rparr>))"

section \<open>What the thread sees of the stream\<close>

text \<open>The chunks taken, cut where an offset is not the expected one; every run is decoded by a fresh decoder.\<close>

definition chunk_end :: "rtt_chunk \<Rightarrow> nat" where "chunk_end c = sat64 (rc_offset c + length (rc_data c))"

definition add_chunk :: "rtt_chunk list list \<Rightarrow> rtt_chunk \<Rightarrow> rtt_chunk list list" where
  "add_chunk rs c =
     (if rs \<noteq> [] \<and> chunk_end (last (last rs)) = rc_offset c then butlast rs @ [last rs @ [c]] else rs @ [[c]])"

definition runs :: "rtt_chunk list \<Rightarrow> rtt_chunk list list" where "runs cs = foldl add_chunk [] cs"

definition packet_key :: "parsed_packet \<Rightarrow> u32 \<times> u32 \<times> bool" where "packet_key p = (pk_event p, pk_delta p, pk_boundary p)"
definition event_key :: "systemview_event \<Rightarrow> u32 \<times> u32 \<times> bool" where "event_key e = (ev_id e, ev_delta e, ev_boundary e)"

definition run_keys :: "rtt_chunk list \<Rightarrow> (u32 \<times> u32 \<times> bool) list" where
  "run_keys r = (case feed (map rc_data r) default_decoder of Ok (ps, _, _) \<Rightarrow> map packet_key ps | _ \<Rightarrow> [])"

lemma runs_simps: "runs [] = []" "runs (cs @ [c]) = add_chunk (runs cs) c"
  by (simp_all add: runs_def)

lemma runs_nonempty: "(runs cs = []) = (cs = [])" "cs \<noteq> [] \<Longrightarrow> last (last (runs cs)) = last cs \<and> last (runs cs) \<noteq> []"
proof -
  have "(runs cs = []) = (cs = []) \<and> (cs \<noteq> [] \<longrightarrow> last (last (runs cs)) = last cs \<and> last (runs cs) \<noteq> [])"
    by (cases cs rule: rev_cases) (simp_all add: runs_simps add_chunk_def)
  then show "(runs cs = []) = (cs = [])" "cs \<noteq> [] \<Longrightarrow> last (last (runs cs)) = last cs \<and> last (runs cs) \<noteq> []" by blast+
qed

lemma concat_runs: "concat (runs cs) = cs"
proof (induction cs rule: rev_induct)
  case (snoc c cs)
  have "concat (runs cs) = concat (butlast (runs cs)) @ last (runs cs)" if "runs cs \<noteq> []"
    using append_butlast_last_id [OF that] by (metis concat_append concat.simps append_Nil2)
  with snoc show ?case by (auto simp: runs_simps add_chunk_def)
qed (simp add: runs_simps)

lemma feed_snoc:
  assumes "feed cs d = Ok (ps, n, d1)" "decoder_push c d1 = Ok (qs, m, d2)"
  shows "feed (cs @ [c]) d = Ok (ps @ qs, n + m, d2)"
  using assms by (induction cs d arbitrary: ps n rule: feed.induct) (auto simp: result_simps)

section \<open>Bookkeeping\<close>

lemma arm_keeps_dropped:
  assumes "packet_arm now track p t = (c, v, x, t')"
  shows "presentation_dropped t' = presentation_dropped t"
proof -
  have [simp]: "presentation_dropped (update_task i f u) = presentation_dropped u"
    "presentation_dropped (snd (close_active_task n u)) = presentation_dropped u" for i f u n
    by (simp_all add: update_task_def close_active_task_def split: option.split)
  show ?thesis using assms
    by (auto simp: packet_arm_def Let_def split_beta overflow_arm_def isr_enter_arm_def isr_exit_arm_def task_start_arm_def
        task_create_arm_def task_terminate_arm_def task_info_arm_def description_arm_def forget_execution_def split: if_splits option.splits)
qed

lemma apply_packet_keeps:
  assumes "apply_packet now track p t = (e, t')"
  shows "event_key e = packet_key p \<and> presentation_dropped t' = presentation_dropped t"
proof -
  obtain c v x u where a: "packet_arm now track p (start_packet p t) = (c, v, x, u)" by (metis surj_pair)
  have "presentation_dropped (forget_execution n y) = presentation_dropped y" for n y
    by (simp add: forget_execution_def close_active_task_def update_task_def split: option.split)
  then have "presentation_dropped (start_packet p t) = presentation_dropped t" by (simp add: start_packet_def Let_def)
  with assms a arm_keeps_dropped [OF a] show ?thesis
    by (auto simp: apply_packet_def event_key_def packet_key_def Let_def split: prod.splits)
qed

lemma apply_packets_keeps:
  "apply_packets clk track ps t = (es, t') \<Longrightarrow> trace_reach t fs \<Longrightarrow>
   trace_reach t' (fs @ es) \<and> map event_key es = map packet_key ps \<and> presentation_dropped t' = presentation_dropped t"
proof (induction clk track ps t arbitrary: es t' fs rule: apply_packets.induct)
  case (2 clk track p ps t)
  obtain e u where a: "apply_packet (clk 0) track p t = (e, u)" by fastforce
  obtain gs u' where b: "apply_packets (clk \<circ> Suc) track ps u = (gs, u')" by fastforce
  have "trace_reach u (fs @ [e])" using trace_reach.packet [OF 2(3) a] .
  from "2.IH" [OF a [symmetric] refl b this] 2(2) a b apply_packet_keeps [OF a] show ?case by (auto simp: Let_def)
qed simp

text \<open>The shared state with the events applied to it and the number of those that were dropped from the queue.\<close>

definition shared_ok :: "bool \<Rightarrow> trace_shared \<Rightarrow> systemview_event list \<Rightarrow> nat \<Rightarrow> bool" where
  "shared_ok x v es n \<longleftrightarrow> trace_reach (vs_state v) es \<and> presentation_dropped (vs_state v) \<le> n \<and>
     (x \<longrightarrow> presentation_dropped (vs_state v) = sat64 n)"

lemma reach_counter:
  assumes "trace_reach t es"
  shows "trace_reach (t\<lparr>decoder_errors := a\<rparr>) es" "trace_reach (t\<lparr>presentation_dropped := a\<rparr>) es"
    "trace_reach (t\<lparr>metadata_sync_attempts := a\<rparr>) es" "trace_reach (t\<lparr>control_available := b\<rparr>) es"
  using trace_reach.counters [OF assms, where a = a and b = "presentation_dropped t" and c = "metadata_sync_attempts t" and d = "control_available t"]
    trace_reach.counters [OF assms, where a = "decoder_errors t" and b = a and c = "metadata_sync_attempts t" and d = "control_available t"]
    trace_reach.counters [OF assms, where a = "decoder_errors t" and b = "presentation_dropped t" and c = a and d = "control_available t"]
    trace_reach.counters [OF assms, where a = "decoder_errors t" and b = "presentation_dropped t" and c = "metadata_sync_attempts t" and d = b]
  by simp_all

lemma client_ok:
  assumes "shared_ok x v es n" "x \<longrightarrow> c \<noteq> ClientClear"
  shows "shared_ok x (trace_client_op c v) es n \<and> vs_decoder (trace_client_op c v) = vs_decoder v"
proof -
  have "presentation_dropped (clear_trace t) = 0" for t by (simp add: clear_trace_def)
  then show ?thesis using assms
    by (cases c) (auto simp: shared_ok_def clear_shared_def set_control_available_def intro: reach_counter trace_reach.clear)
qed

lemma meanwhile_ok:
  "shared_ok x v es n \<Longrightarrow> x \<longrightarrow> ClientClear \<notin> set ops \<Longrightarrow>
   shared_ok x (meanwhile ops v) es n \<and> vs_decoder (meanwhile ops v) = vs_decoder v"
  by (induction ops arbitrary: v) (use client_ok in auto)

lemma gap_ok: "shared_ok x v es n \<Longrightarrow> shared_ok x (mark_gap_shared v) es n"
  by (auto simp: shared_ok_def mark_gap_shared_def intro: trace_reach.gap)
    (simp_all add: mark_input_gap_def forget_execution_def close_active_task_def update_task_def split: option.splits)

lemma ingest_ok:
  assumes "shared_ok x v es n"
  obtains qs m d fs v' where "decoder_push (rc_data c) (vs_decoder v) = Ok (qs, m, d)" "ingest clk track c v = Ok (fs, v')"
    "vs_decoder v' = d" "shared_ok x v' (es @ fs) n" "map event_key fs = map packet_key qs"
proof -
  obtain qs m d where p: "decoder_push (rc_data c) (vs_decoder v) = Ok (qs, m, d)"
    using decoder_push_total [of "rc_data c" "vs_decoder v"] by blast
  let ?t = "(vs_state v)\<lparr>decoder_errors := sat64 (decoder_errors (vs_state v) + m)\<rparr>"
  obtain fs t where a: "apply_packets clk track qs ?t = (fs, t)" by fastforce
  have "trace_reach ?t es" using assms reach_counter(1) by (simp add: shared_ok_def)
  from apply_packets_keeps [OF a this] have k: "trace_reach t (es @ fs)" "map event_key fs = map packet_key qs"
    "presentation_dropped t = presentation_dropped (vs_state v)" by simp_all
  show ?thesis
    by (rule that [OF p, of fs "v\<lparr>vs_decoder := d, vs_state := t\<rparr>"])
      (use assms k in \<open>simp_all add: ingest_def p a Let_def shared_ok_def\<close>)
qed

lemma trim_ok:
  "trim_pending cl es v = (es', v') \<Longrightarrow> shared_ok x v fs n \<Longrightarrow> x \<longrightarrow> (\<forall>i. ClientClear \<notin> set (cl i)) \<Longrightarrow>
   \<exists>k\<le>length es. es' = drop k es \<and> shared_ok x v' fs (n + k) \<and> vs_decoder v' = vs_decoder v \<and> length es' \<le> MAX_PENDING_PRESENTATION_EVENTS"
proof (induction cl es v arbitrary: n rule: trim_pending.induct)
  case (1 cl v)
  then show ?case by (simp add: MAX_PENDING_PRESENTATION_EVENTS_def)
next
  case (2 cl e es v)
  show ?case
  proof (cases "length (e # es) > MAX_PENDING_PRESENTATION_EVENTS")
    case True
    let ?v = "record_presentation_drop 1 (meanwhile (cl 0) v)"
    have m: "shared_ok x (meanwhile (cl 0) v) fs n" "vs_decoder (meanwhile (cl 0) v) = vs_decoder v"
      using meanwhile_ok [OF 2(3)] 2(4) by blast+
    have "sat64 (sat64 n + 1) = sat64 (Suc n)" by (simp add: sat64_def)
    moreover have "sat64 (i + 1) \<le> Suc n" if "i \<le> n" for i using that by (simp add: sat64_def)
    ultimately have d: "shared_ok x ?v fs (Suc n)" using m(1)
      by (auto simp: shared_ok_def record_presentation_drop_def intro: reach_counter(2))
    have "trim_pending (cl \<circ> Suc) es ?v = (es', v')" using 2(2) True by simp
    from "2.IH" [OF True this d] 2(4) obtain k where "k \<le> length es" "es' = drop k es" "shared_ok x v' fs (Suc n + k)"
      "vs_decoder v' = vs_decoder ?v" "length es' \<le> MAX_PENDING_PRESENTATION_EVENTS" by auto
    with m(2) show ?thesis by (intro exI [of _ "Suc k"]) (simp add: record_presentation_drop_def)
  next
    case False
    with 2 show ?thesis by (intro exI [of _ 0]) auto
  qed
qed

section \<open>The invariant of the thread\<close>

definition presented :: "trace_worker \<Rightarrow> systemview_event list" where
  "presented w = concat (map (\<lambda>p. case p of PresentBatch es _ \<Rightarrow> es | PresentSnapshot _ \<Rightarrow> []) (wk_presented w))"

definition decoded_ok :: "rtt_chunk list \<Rightarrow> systemview_event list \<Rightarrow> systemview_decoder \<Rightarrow> nat option \<Rightarrow> bool" where
  "decoded_ok cs es d expected \<longleftrightarrow>
     map event_key es = concat (map run_keys (runs cs)) \<and>
     (\<exists>ps n. feed (map rc_data (if cs = [] then [] else last (runs cs))) default_decoder = Ok (ps, n, d)) \<and>
     expected = (if cs = [] then None else Some (chunk_end (last cs)))"

definition worker_inv :: "bool \<Rightarrow> rtt_chunk list \<Rightarrow> systemview_event list \<Rightarrow> trace_worker \<Rightarrow> bool" where
  "worker_inv x cs es w \<longleftrightarrow>
     (\<exists>old. es = old @ wk_pending w \<and> subseq (presented w) old \<and> shared_ok x (wk_shared w) es (length old - length (presented w))) \<and>
     length (wk_pending w) \<le> MAX_PENDING_PRESENTATION_EVENTS \<and> decoded_ok cs es (vs_decoder (wk_shared w)) (wk_expected w)"

definition no_clear :: "surroundings \<Rightarrow> bool" where "no_clear u \<longleftrightarrow> (\<forall>i. ClientClear \<notin> set (clients u i))"

lemma decoded_step:
  assumes ok: "decoded_ok cs es d expected" and p: "decoder_push (rc_data c) d' = Ok (qs, m, d2)"
    and d': "d' = (if expected \<noteq> None \<and> expected \<noteq> Some (rc_offset c) then reset_after_gap d else d)"
    and k: "map event_key fs = map packet_key qs"
  shows "decoded_ok (cs @ [c]) (es @ fs) d2 (Some (chunk_end c))"
proof -
  let ?rs = "runs cs"
  obtain ps n where f: "feed (map rc_data (if cs = [] then [] else last ?rs)) default_decoder = Ok (ps, n, d)"
    and es: "map event_key es = concat (map run_keys ?rs)" using ok by (auto simp: decoded_ok_def)
  have e: "expected = (if cs = [] then None else Some (chunk_end (last cs)))" using ok by (simp add: decoded_ok_def)
  have single: "feed [rc_data c] default_decoder = Ok (qs, m, d2)" if "d' = default_decoder"
    using p that by simp
  show ?thesis
  proof (cases "cs \<noteq> [] \<and> chunk_end (last cs) = rc_offset c")
    case True
    then have r: "?rs = butlast ?rs @ [last ?rs]" "last (last ?rs) = last cs" "d' = d"
      using runs_nonempty [of cs] e d' by auto
    then have new: "runs (cs @ [c]) = butlast ?rs @ [last ?rs @ [c]]" using True runs_nonempty(1) [of cs] by (simp add: runs_simps add_chunk_def)
    have g: "feed (map rc_data (last ?rs @ [c])) default_decoder = Ok (ps @ qs, n + m, d2)"
      using feed_snoc [of "map rc_data (last ?rs)" default_decoder ps n d "rc_data c"] f p True r(3) by simp
    have "run_keys (last ?rs @ [c]) = run_keys (last ?rs) @ map packet_key qs"
      unfolding run_keys_def g using f True by simp
    moreover have "concat (map run_keys ?rs) = concat (map run_keys (butlast ?rs)) @ run_keys (last ?rs)"
      by (subst r(1)) simp
    ultimately show ?thesis using g es k by (simp add: decoded_ok_def new)
  next
    case False
    have "d' = default_decoder"
    proof (cases "cs = []")
      case True
      then show ?thesis using e f d' by simp
    next
      case ne: False
      with False e d' show ?thesis by (simp add: reset_after_gap_def default_decoder_def)
    qed
    note g = single [OF this]
    have new: "runs (cs @ [c]) = ?rs @ [[c]]" using False runs_nonempty [of cs] by (auto simp: runs_simps add_chunk_def)
    have "run_keys [c] = map packet_key qs" using g by (simp add: run_keys_def del: feed.simps)
    then show ?thesis using g es k by (simp add: decoded_ok_def new del: feed.simps)
  qed
qed

lemma take_chunk_inv:
  assumes w: "worker_inv x cs es w" and u: "x \<longrightarrow> no_clear u"
  obtains w' fs where "take_chunk u track c w = Ok w'" "worker_inv x (cs @ [c]) (es @ fs) w'" "wk_through w' = wk_through w"
proof -
  obtain old where old: "es = old @ wk_pending w" "subseq (presented w) old"
    "shared_ok x (wk_shared w) es (length old - length (presented w))" and dec: "decoded_ok cs es (vs_decoder (wk_shared w)) (wk_expected w)"
    using w by (auto simp: worker_inv_def)
  let ?n = "length old - length (presented w)" and ?gap = "wk_expected w \<noteq> None \<and> wk_expected w \<noteq> Some (rc_offset c)"
  let ?g = "if ?gap then mark_gap_shared (meanwhile (clients u 0) (wk_shared w)) else wk_shared w"
  let ?v = "meanwhile (clients u 1) ?g"
  have cl: "x \<longrightarrow> ClientClear \<notin> set (clients u i)" for i using u by (simp add: no_clear_def)
  have v0: "shared_ok x ?g es ?n" using old(3) gap_ok meanwhile_ok [OF old(3) cl] by simp
  have d0: "vs_decoder ?g = (if ?gap then reset_after_gap (vs_decoder (wk_shared w)) else vs_decoder (wk_shared w))"
    using meanwhile_ok [OF old(3) cl] by (simp add: mark_gap_shared_def)
  have v: "shared_ok x ?v es ?n"
    "vs_decoder ?v = (if ?gap then reset_after_gap (vs_decoder (wk_shared w)) else vs_decoder (wk_shared w))"
    using meanwhile_ok [OF v0 cl, of 1] unfolding d0 by blast+
  obtain qs m d fs v' where p: "decoder_push (rc_data c) (vs_decoder ?v) = Ok (qs, m, d)"
    and ing: "ingest (at_packets u) track c ?v = Ok (fs, v')" and v': "vs_decoder v' = d" "shared_ok x v' (es @ fs) ?n"
    and k: "map event_key fs = map packet_key qs"
    using ingest_ok [OF v(1)] .
  obtain pending v2 where t: "trim_pending (\<lambda>i. clients u (i + 2)) (wk_pending w @ fs) v' = (pending, v2)" by fastforce
  obtain i where i: "i \<le> length (wk_pending w @ fs)" "pending = drop i (wk_pending w @ fs)" "shared_ok x v2 (es @ fs) (?n + i)"
    "vs_decoder v2 = vs_decoder v'" "length pending \<le> MAX_PENDING_PRESENTATION_EVENTS"
    using trim_ok [OF t v'(2)] cl by blast
  let ?w = "w\<lparr>wk_shared := v2, wk_pending := pending, wk_expected := Some (chunk_end c)\<rparr>" and ?old = "old @ take i (wk_pending w @ fs)"
  have take: "take_chunk u track c w = Ok ?w" using ing t by (simp add: take_chunk_def Let_def chunk_end_def)
  have "length (presented w) \<le> length old" using list_emb_length [OF old(2)] .
  then have "?n + i = length ?old - length (presented w)" using i(1) by simp
  then have "shared_ok x v2 (es @ fs) (length ?old - length (presented w))" using i(3) by simp
  moreover have "es @ fs = ?old @ pending" unfolding old(1) i(2) append_assoc append_take_drop_id ..
  moreover have "subseq (presented w) ?old" using list_emb_append_mono [OF old(2) list_emb_Nil] by simp
  moreover have "decoded_ok (cs @ [c]) (es @ fs) (vs_decoder v2) (Some (chunk_end c))"
    using decoded_step [OF dec p v(2) k] i(4) v'(1) by simp
  ultimately have inv: "worker_inv x (cs @ [c]) (es @ fs) ?w"
    unfolding worker_inv_def using i(5) by (intro conjI exI [of _ ?old]) (simp_all add: presented_def)
  show ?thesis by (rule that [OF take inv]) simp
qed

lemma worker_inv_shared:
  assumes "worker_inv x cs es w" "\<And>n. shared_ok x (wk_shared w) es n \<Longrightarrow> shared_ok x v es n \<and> vs_decoder v = vs_decoder (wk_shared w)"
  shows "worker_inv x cs es (w\<lparr>wk_retry := r, wk_shared := v, wk_changed := b\<rparr>)"
  using assms by (auto simp: worker_inv_def presented_def)

lemma ask_metadata_inv:
  assumes "worker_inv x cs es w" "x \<longrightarrow> no_clear u" "ask_metadata u s w = (s', w')"
  shows "worker_inv x cs es w' \<and> wk_through w' = wk_through w"
proof -
  have cl: "x \<longrightarrow> ClientClear \<notin> set (clients u i)" for i using assms(2) by (simp add: no_clear_def)
  have set_ok: "shared_ok x (meanwhile (clients u 4) (set_metadata_sync_attempts n (meanwhile (clients u 3) v))) es k \<and>
      vs_decoder (meanwhile (clients u 4) (set_metadata_sync_attempts n (meanwhile (clients u 3) v))) = vs_decoder v"
    if "shared_ok x v es k" for n v k
  proof -
    have a: "shared_ok x (meanwhile (clients u 3) v) es k" "vs_decoder (meanwhile (clients u 3) v) = vs_decoder v"
      using meanwhile_ok [OF that cl] by blast+
    then have "shared_ok x (set_metadata_sync_attempts n (meanwhile (clients u 3) v)) es k"
      by (auto simp: shared_ok_def set_metadata_sync_attempts_def intro: reach_counter(3))
    from meanwhile_ok [OF this cl] a(2) show ?thesis by (simp add: set_metadata_sync_attempts_def)
  qed
  from assms(3) consider r where "w' = w\<lparr>wk_retry := r\<rparr>"
  | r n where "w' = w\<lparr>wk_retry := r, wk_shared := meanwhile (clients u 4) (set_metadata_sync_attempts n (meanwhile (clients u 3) (wk_shared w))),
      wk_changed := True\<rparr>"
    by (auto simp: ask_metadata_def Let_def split: prod.splits if_splits)
  then show ?thesis
  proof cases
    case 1
    then show ?thesis using assms(1) by (simp add: worker_inv_def presented_def)
  next
    case (2 r n)
    have "worker_inv x cs es w'" unfolding 2 by (rule worker_inv_shared [OF assms(1) set_ok])
    then show ?thesis by (simp add: 2)
  qed
qed

lemma present_inv:
  assumes "worker_inv x cs es w" "x \<longrightarrow> no_clear u"
  shows "worker_inv x cs es (present u s w) \<and> wk_through (present u s w) = wk_through w"
proof (cases "TRACE_FLUSH_INTERVAL \<le> at_reading u 3 - wk_last_flush w \<and> wk_pending w \<noteq> []")
  case True
  let ?v = "meanwhile (clients u 5) (wk_shared w)"
  obtain old where old: "es = old @ wk_pending w" "subseq (presented w) old"
    "shared_ok x (wk_shared w) es (length old - length (presented w))" and dec: "decoded_ok cs es (vs_decoder (wk_shared w)) (wk_expected w)"
    using assms(1) by (auto simp: worker_inv_def)
  have v: "shared_ok x ?v es (length old - length (presented w))" "vs_decoder ?v = vs_decoder (wk_shared w)"
    using meanwhile_ok [OF old(3)] assms(2) by (simp_all add: no_clear_def)
  have p: "presented (present u s w) = presented w @ wk_pending w" "wk_pending (present u s w) = []" "wk_shared (present u s w) = ?v"
    "wk_expected (present u s w) = wk_expected w" "wk_through (present u s w) = wk_through w"
    using True by (simp_all add: present_def presented_def Let_def)
  have "subseq (presented w @ wk_pending w) es" unfolding old(1) by (rule list_emb_append_mono [OF old(2)]) simp
  with v dec old(1) show ?thesis unfolding worker_inv_def p by (intro conjI exI [of _ es]) simp_all
next
  case False
  then show ?thesis using assms(1) by (auto simp: present_def Let_def worker_inv_def presented_def)
qed

lemma housekeeping_inv:
  assumes "worker_inv x cs es w" "x \<longrightarrow> no_clear u"
  shows "worker_inv x cs es (housekeeping u w) \<and> wk_through (housekeeping u w) = wk_through w"
proof -
  let ?v = "meanwhile (clients u 2) (wk_shared w)" and ?w = "w\<lparr>wk_shared := meanwhile (clients u 2) (wk_shared w)\<rparr>"
  obtain s w' where a: "ask_metadata u (snapshot_shared (at_reading u 1) ?v) ?w = (s, w')" by fastforce
  have "shared_ok x ?v es n \<and> vs_decoder ?v = vs_decoder (wk_shared w)" if "shared_ok x (wk_shared w) es n" for n
    using meanwhile_ok [OF that] assms(2) by (simp add: no_clear_def)
  then have "worker_inv x cs es ?w" using assms(1) by (auto simp: worker_inv_def presented_def)
  from ask_metadata_inv [OF this assms(2) a] present_inv [OF _ assms(2), of cs es w' s] a
  show ?thesis by (simp add: housekeeping_def Let_def)
qed

lemma finish_inv:
  assumes "worker_inv x cs es w" "x \<longrightarrow> no_clear u"
  shows "worker_inv x cs es (finish_decoder u w)"
proof -
  let ?v = "meanwhile (clients u 0) (wk_shared w)"
  obtain old where old: "es = old @ wk_pending w" "subseq (presented w) old"
    "shared_ok x (wk_shared w) es (length old - length (presented w))" and dec: "decoded_ok cs es (vs_decoder (wk_shared w)) (wk_expected w)"
    using assms(1) by (auto simp: worker_inv_def)
  have v: "shared_ok x ?v es (length old - length (presented w))" "vs_decoder ?v = vs_decoder (wk_shared w)"
    using meanwhile_ok [OF old(3)] assms(2) by (simp_all add: no_clear_def)
  have sub: "subseq (presented w @ wk_pending w) es" unfolding old(1) by (rule list_emb_append_mono [OF old(2)]) simp
  show ?thesis
  proof (cases "wk_pending w = []")
    case True
    then show ?thesis using assms(1) by (simp add: finish_decoder_def)
  next
    case False
    let ?w = "finish_decoder u w"
    have p: "presented ?w = presented w @ wk_pending w" "wk_pending ?w = []" "wk_shared ?w = ?v" "wk_expected ?w = wk_expected w"
      using False by (simp_all add: finish_decoder_def presented_def Let_def)
    from sub v dec old(1) show ?thesis unfolding worker_inv_def p by (intro conjI exI [of _ es]) simp_all
  qed
qed

section \<open>Runs of the thread\<close>

text \<open>
  A thread that started from a bootstrap and went through iterations, with the chunks it took; \<open>P\<close> restricts what its surroundings
  do. The last rule is the flush when it stops.
\<close>

inductive worker_reach :: "(surroundings \<Rightarrow> bool) \<Rightarrow> rtt_chunk list \<Rightarrow> trace_worker \<Rightarrow> bool" for P where
  start: "bootstrap_chunks us cs (new_worker (new_shared g channel control) cs) = Ok w \<Longrightarrow> \<forall>i. P (us i) \<Longrightarrow>
    worker_reach P cs (start_worker flush snapshot w)"
| chunk: "worker_reach P cs w \<Longrightarrow> P u1 \<Longrightarrow> P u2 \<Longrightarrow> wk_through w < rc_sequence c \<Longrightarrow>
    decoder_iteration u1 u2 (GotChunk c) w = Ok w' \<Longrightarrow> worker_reach P (cs @ [c]) w'"
| repeated: "worker_reach P cs w \<Longrightarrow> rc_sequence c \<le> wk_through w \<Longrightarrow>
    decoder_iteration u1 u2 (GotChunk c) w = Ok w' \<Longrightarrow> worker_reach P cs w'"
| wait: "worker_reach P cs w \<Longrightarrow> P u2 \<Longrightarrow> decoder_iteration u1 u2 RecvTimeout w = Ok w' \<Longrightarrow> worker_reach P cs w'"
| finish: "worker_reach P cs w \<Longrightarrow> P u \<Longrightarrow> worker_reach P cs (finish_decoder u w)"

lemma bootstrap_inv:
  "worker_inv x cs es w \<Longrightarrow> x \<longrightarrow> (\<forall>i. no_clear (us i)) \<Longrightarrow>
   \<exists>w' fs. bootstrap_chunks us bs w = Ok w' \<and> worker_inv x (cs @ bs) (es @ fs) w' \<and> wk_through w' = wk_through w"
proof (induction bs arbitrary: us cs es w)
  case Nil
  then show ?case by (intro exI [of _ w] exI [of _ "[]"]) simp
next
  case (Cons b bs)
  have "x \<longrightarrow> no_clear (us 0)" using Cons.prems(2) by blast
  from take_chunk_inv [OF Cons.prems(1) this, where track = False and c = b] obtain w' fs where
    t: "take_chunk (us 0) False b w = Ok w'" "worker_inv x (cs @ [b]) (es @ fs) w'" "wk_through w' = wk_through w" .
  have "x \<longrightarrow> (\<forall>i. no_clear ((us \<circ> Suc) i))" using Cons.prems(2) by simp
  from Cons.IH [OF t(2) this] obtain w2 gs where "bootstrap_chunks (us \<circ> Suc) bs w' = Ok w2"
    "worker_inv x ((cs @ [b]) @ bs) ((es @ fs) @ gs) w2" "wk_through w2 = wk_through w'" by blast
  with t show ?case by (intro exI [of _ w2] exI [of _ "fs @ gs"]) simp
qed

lemma new_worker_inv: "worker_inv x [] [] (new_worker (new_shared g channel control) bs)"
proof -
  have "presentation_dropped (new_trace g channel control) = 0" by (simp add: new_trace_def)
  then show ?thesis
    by (simp add: worker_inv_def new_worker_def new_shared_def presented_def shared_ok_def decoded_ok_def runs_simps sat64_def trace_reach.start)
qed

lemma start_worker_inv: "worker_inv x cs es w \<Longrightarrow> worker_inv x cs es (start_worker f s w)"
  by (simp add: worker_inv_def start_worker_def presented_def)

lemma worker_reach_inv:
  assumes "worker_reach P cs w" "\<forall>u. x \<and> P u \<longrightarrow> no_clear u"
  shows "\<exists>es. worker_inv x cs es w"
  using assms
proof (induction rule: worker_reach.induct)
  case (start us cs g channel control w flush snapshot)
  have "x \<longrightarrow> (\<forall>i. no_clear (us i))" using start by blast
  from bootstrap_inv [OF new_worker_inv this, of cs g channel control cs] start(1) show ?case
    by (auto intro: start_worker_inv)
next
  case (chunk cs w u1 u2 c w')
  then obtain es where w: "worker_inv x cs es w" by blast
  have u: "x \<longrightarrow> no_clear u1" "x \<longrightarrow> no_clear u2" using chunk by blast+
  obtain v fs where t: "take_chunk u1 True c w = Ok v" "worker_inv x (cs @ [c]) (es @ fs) v"
    using take_chunk_inv [OF w u(1)] .
  have "worker_inv x (cs @ [c]) (es @ fs) (v\<lparr>wk_changed := True\<rparr>)" using t(2) by (simp add: worker_inv_def presented_def)
  from housekeeping_inv [OF this u(2)] t(1) chunk show ?case by (auto simp: decoder_iteration_def)
next
  case (repeated cs w c u1 u2 w')
  then show ?case by (auto simp: decoder_iteration_def)
next
  case (wait cs w u2 u1 w')
  then obtain es where "worker_inv x cs es w" by blast
  with housekeeping_inv [of x cs es w u2] wait show ?case by (auto simp: decoder_iteration_def)
next
  case (finish cs w u)
  then obtain es where "worker_inv x cs es w" by blast
  with finish_inv [of x cs es w u] finish show ?case by blast
qed

lemma observer_iteration_total: "\<exists>w'. decoder_iteration u1 u2 r w = Ok w'"
proof -
  have take: "\<exists>w'. take_chunk u t c w = Ok w'" for u t c w
  proof -
    have "\<exists>es v'. ingest clk t c v = Ok (es, v')" for clk v
      using decoder_push_total [of "rc_data c" "vs_decoder v"] by (auto simp: ingest_def Let_def split_beta)
    then obtain es v' where "ingest (at_packets u) t c (meanwhile (clients u 1)
        (if wk_expected w \<noteq> None \<and> wk_expected w \<noteq> Some (rc_offset c) then mark_gap_shared (meanwhile (clients u 0) (wk_shared w))
         else wk_shared w)) = Ok (es, v')" by blast
    then show ?thesis by (simp add: take_chunk_def Let_def split_beta)
  qed
  show ?thesis
  proof (cases r)
    case (GotChunk c)
    obtain v where v: "take_chunk u1 True c w = Ok v" using take by blast
    show ?thesis unfolding decoder_iteration_def GotChunk received.case v by simp
  qed (simp add: decoder_iteration_def)
qed

text \<open>
  C19. Whatever chunks arrive, whenever they do and whatever the user does meanwhile, the front end receives
  events of the trace in their order and none twice; at most 1024 wait, always the newest, and as long as the user clears nothing the counter
  of dropped events says exactly how many of the older ones it will not receive.
\<close>

theorem trace_events_presented:
  assumes "worker_reach P cs w"
  shows "\<exists>old. trace_reach (vs_state (wk_shared w)) (old @ wk_pending w) \<and> subseq (presented w) old \<and> length (wk_pending w) \<le> 1024 \<and>
    ((\<forall>u. P u \<longrightarrow> no_clear u) \<longrightarrow> presentation_dropped (vs_state (wk_shared w)) = sat64 (length old - length (presented w)))"
proof -
  obtain es where "worker_inv (\<forall>u. P u \<longrightarrow> no_clear u) cs es w"
    using worker_reach_inv [OF assms, of "\<forall>u. P u \<longrightarrow> no_clear u"] by blast
  then show ?thesis by (auto simp: worker_inv_def shared_ok_def MAX_PENDING_PRESENTATION_EVENTS_def)
qed

lemma worker_follows:
  assumes "worker_reach P cs w"
  obtains es where "trace_reach (vs_state (wk_shared w)) es" "map event_key es = concat (map run_keys (runs cs))"
  using worker_reach_inv [OF assms, of False] by (auto simp: worker_inv_def shared_ok_def decoded_ok_def)

lemma run_keys_stream:
  assumes "concat (map rc_data r) = junk @ replicate 10 0 @ wires ps" "list_all wire_ok ps" "find_sync_marker junk = None"
    "junk = [] \<or> last junk \<noteq> 0"
  shows "run_keys r = map packet_key (marked True (map decoded ps))"
  using feed_unsynced [OF assms(2), of junk default_decoder 0 "[]" "map rc_data r"] assms
  by (simp add: run_keys_def default_decoder_def clean_def)

text \<open>
  The trace holds what the target sent: every run of chunks without a gap that carries, after the rest of some packet,
  a sync marker and packets of the target, contributes exactly one event for each of these packets, in order, and nothing else; and
  events of different runs follow each other in the order of the runs. What precedes the marker in a run leaves no event, so that a gap never
  produces a false one.
\<close>

theorem trace_follows_stream:
  assumes "worker_reach P cs w"
  shows "\<exists>es. trace_reach (vs_state (wk_shared w)) es \<and> concat (runs cs) = cs \<and> map event_key es = concat (map run_keys (runs cs)) \<and>
    (\<forall>r\<in>set (runs cs). \<forall>junk ps. concat (map rc_data r) = junk @ replicate 10 0 @ wires ps \<and> list_all wire_ok ps \<and>
       find_sync_marker junk = None \<and> (junk = [] \<or> last junk \<noteq> 0) \<longrightarrow>
       run_keys r = map packet_key (marked True (map decoded ps)))"
proof -
  obtain es where "trace_reach (vs_state (wk_shared w)) es" "map event_key es = concat (map run_keys (runs cs))"
    using worker_follows [OF assms] .
  then show ?thesis using concat_runs [of cs] run_keys_stream by blast
qed

definition demo_surroundings :: surroundings where
  "demo_surroundings = \<lparr>at_packets = (\<lambda>_. 0), at_reading = (\<lambda>i. i), clients = (\<lambda>_. []), refresh_sent = True\<rparr>"

definition demo_chunk :: "nat \<Rightarrow> nat \<Rightarrow> byte list \<Rightarrow> rtt_chunk" where
  "demo_chunk s off bs = \<lparr>rc_generation = 1, rc_sequence = s, rc_timestamp = 0, rc_channel = 1, rc_offset = off, rc_data = bs\<rparr>"

lemma demo_observer:
  assumes "0 < rc_sequence c"
  obtains w where "worker_reach no_clear [c] w"
    "decoder_iteration demo_surroundings demo_surroundings (GotChunk c) (start_worker 0 0 (new_worker (new_shared 1 1 True) [])) = Ok w"
proof -
  let ?w = "start_worker 0 0 (new_worker (new_shared 1 1 True) [])"
  have u: "no_clear demo_surroundings" by (simp add: no_clear_def demo_surroundings_def)
  have s: "worker_reach no_clear [] ?w" by (rule worker_reach.start [where us = "\<lambda>_. demo_surroundings"]) (use u in simp_all)
  obtain w where w: "decoder_iteration demo_surroundings demo_surroundings (GotChunk c) ?w = Ok w"
    using observer_iteration_total by blast
  have "wk_through ?w < rc_sequence c" using assms by (simp add: start_worker_def new_worker_def)
  from worker_reach.chunk [OF s u u this w] w show ?thesis by (intro that) simp_all
qed

lemma trace_events_presented_witness:
  "\<exists>w old. decoder_iteration demo_surroundings demo_surroundings (GotChunk (demo_chunk 1 0 [4, 7, 10]))
       (start_worker 0 0 (new_worker (new_shared 1 1 True) [])) = Ok w \<and>
     trace_reach (vs_state (wk_shared w)) (old @ wk_pending w) \<and> presentation_dropped (vs_state (wk_shared w)) = sat64 (length old - length (presented w))"
proof -
  obtain w where w: "worker_reach no_clear [demo_chunk 1 0 [4, 7, 10]] w"
    "decoder_iteration demo_surroundings demo_surroundings (GotChunk (demo_chunk 1 0 [4, 7, 10])) (start_worker 0 0 (new_worker (new_shared 1 1 True) [])) = Ok w"
    using demo_observer [of "demo_chunk 1 0 [4, 7, 10]"] by (auto simp: demo_chunk_def)
  from trace_events_presented [OF w(1)] w(2) show ?thesis by blast
qed

lemma trace_follows_stream_witness:
  "\<exists>w es. decoder_iteration demo_surroundings demo_surroundings (GotChunk (demo_chunk 1 0 ([7] @ replicate 10 0 @ [4, 0x83, 2, 8])))
       (start_worker 0 0 (new_worker (new_shared 1 1 True) [])) = Ok w \<and>
     trace_reach (vs_state (wk_shared w)) es \<and> map event_key es = [(4, 8, True)]"
proof -
  let ?c = "demo_chunk 1 0 ([7] @ replicate 10 0 @ [4, 0x83, 2, 8])" and ?p = "Standard 4 [0x103] None 8"
  obtain w where w: "worker_reach no_clear [?c] w"
    "decoder_iteration demo_surroundings demo_surroundings (GotChunk ?c) (start_worker 0 0 (new_worker (new_shared 1 1 True) [])) = Ok w"
    using demo_observer [of ?c] by (auto simp: demo_chunk_def)
  have wire: "wire ?p = [4, 0x83, 2, 8]" by code_simp
  have ok: "list_all wire_ok [?p]" by (simp add: wire shape_ok_def field_count_def MAX_DECODER_BUFFER_def del: wire.simps)
  have r: "runs [?c] = [[?c]]" by (simp add: runs_def add_chunk_def)
  have d: "concat (map rc_data [?c]) = [7] @ replicate 10 0 @ wires [?p]" by (simp add: demo_chunk_def wire del: wire.simps)
  have j: "find_sync_marker [7] = None" "last [7 :: byte] \<noteq> 0" by (simp_all add: zeros10_def)
  obtain es where es: "trace_reach (vs_state (wk_shared w)) es" "map event_key es = concat (map run_keys [[?c]])"
    "run_keys [?c] = map packet_key (marked True (map decoded [?p]))"
    using trace_follows_stream [OF w(1)] ok d j unfolding r by fastforce
  then have "map event_key es = [(4, 8, True)]" by (simp add: packet_key_def)
  with es(1) w(2) show ?thesis by (intro exI conjI)
qed

section \<open>Metadata retries over time\<close>

text \<open>The coordinator through its updates, with the instants of the requests sent for the current set of unknown tasks.\<close>

definition kept_requests :: "metadata_retry \<Rightarrow> metadata_retry \<Rightarrow> nat list \<Rightarrow> nat list" where
  "kept_requests r r' ds = (if unknown_tasks r' = unknown_tasks r then ds else [])"

inductive retry_reach :: "metadata_retry \<Rightarrow> nat \<Rightarrow> nat list \<Rightarrow> bool" where
  start: "retry_reach default_retry t []"
| idle: "retry_reach r t ds \<Longrightarrow> t \<le> now \<Longrightarrow> retry_update s now r = (False, r') \<Longrightarrow> retry_reach r' now (kept_requests r r' ds)"
| sent: "retry_reach r t ds \<Longrightarrow> t \<le> now \<Longrightarrow> retry_update s now r = (True, r') \<Longrightarrow>
    retry_reach (mark_dispatched now r') now (kept_requests r r' ds @ [now])"
| failed: "retry_reach r t ds \<Longrightarrow> t \<le> now \<Longrightarrow> retry_update s now r = (True, r') \<Longrightarrow>
    retry_reach (retry_defer now r') now (kept_requests r r' ds)"

definition requests_ok :: "metadata_retry \<Rightarrow> nat \<Rightarrow> nat list \<Rightarrow> bool" where
  "requests_ok r t ds \<longleftrightarrow> retry_attempts r = length ds \<and> length ds \<le> 10 \<and> (ds \<noteq> [] \<longrightarrow> last ds \<le> t) \<and>
     (\<forall>i. Suc i < length ds \<longrightarrow> ds ! i + retry_delay (Suc i) \<le> ds ! Suc i) \<and>
     (\<forall>at. next_retry r = Some at \<and> ds \<noteq> [] \<longrightarrow> last ds + retry_delay (length ds) \<le> at)"

lemma length_delays: "length METADATA_RETRY_DELAYS_MS = 10" by (simp add: METADATA_RETRY_DELAYS_MS_def)

lemma update_requests:
  assumes "requests_ok r t ds" "t \<le> now" "retry_update s now r = (b, r')"
  shows "requests_ok r' now (kept_requests r r' ds) \<and>
    (b \<longrightarrow> vn_control_available s \<and> unknown_tasks r' \<noteq> [] \<and> length (kept_requests r r' ds) < 10 \<and>
      (kept_requests r r' ds \<noteq> [] \<longrightarrow> last (kept_requests r r' ds) + retry_delay (length (kept_requests r r' ds)) \<le> now))"
  using assms unfolding retry_update_def kept_requests_def requests_ok_def length_delays
  by (auto simp: Let_def split: if_splits option.splits)

lemma sent_requests:
  assumes "requests_ok r now ds" "length ds < 10" "ds \<noteq> [] \<longrightarrow> last ds + retry_delay (length ds) \<le> now"
  shows "requests_ok (mark_dispatched now r) now (ds @ [now])"
proof -
  have "(ds @ [now]) ! i + retry_delay (Suc i) \<le> (ds @ [now]) ! Suc i" if "Suc i < length (ds @ [now])" for i
  proof (cases "Suc i < length ds")
    case True
    with assms(1) show ?thesis by (simp add: requests_ok_def nth_append)
  next
    case False
    with that have "Suc i = length ds" by simp
    then have ne: "ds \<noteq> []" by auto
    then have "ds ! i = last ds" using \<open>Suc i = length ds\<close> by (simp add: last_conv_nth flip: \<open>Suc i = length ds\<close>)
    with ne assms(3) \<open>Suc i = length ds\<close> show ?thesis by (simp add: nth_append)
  qed
  then show ?thesis using assms(1,2) by (auto simp: requests_ok_def mark_dispatched_def length_delays Let_def)
qed

lemma retry_reach_ok: "retry_reach r t ds \<Longrightarrow> requests_ok r t ds"
proof (induction rule: retry_reach.induct)
  case (start t)
  show ?case by (simp add: requests_ok_def default_retry_def)
next
  case (idle r t ds now s r')
  then show ?case using update_requests by blast
next
  case (sent r t ds now s r')
  with update_requests [OF sent.IH sent.hyps(2,3)] sent_requests show ?case by blast
next
  case (failed r t ds now s r')
  with update_requests [OF failed.IH failed.hyps(2,3)] show ?case by (auto simp: requests_ok_def retry_defer_def)
qed

text \<open>
  C22. For one set of tasks without name or priority the target is asked at most ten times, each time no sooner
  after the last than the delay of the table, however often the thread looks and however requests fail; and it is asked only while a
  task is unknown and the control channel is available.
\<close>

theorem metadata_requests_bounded:
  assumes "retry_reach r t ds"
  shows "retry_attempts r = length ds \<and> length ds \<le> 10 \<and>
    (\<forall>i. Suc i < length ds \<longrightarrow> ds ! i + METADATA_RETRY_DELAYS_MS ! Suc i * 1000000 \<le> ds ! Suc i) \<and>
    (\<forall>s now r'. t \<le> now \<and> retry_update s now r = (True, r') \<longrightarrow>
       vn_control_available s \<and> (\<exists>k\<in>set (vn_tasks s). tn_name k = None \<or> tn_priority k = None))"
proof -
  have ok: "requests_ok r t ds" by (rule retry_reach_ok [OF assms])
  have "vn_control_available s \<and> (\<exists>k\<in>set (vn_tasks s). tn_name k = None \<or> tn_priority k = None)"
    if "retry_update s now r = (True, r')" for s now r'
  proof -
    have "filter (\<lambda>k. tn_name k = None \<or> tn_priority k = None) (vn_tasks s) \<noteq> []" "vn_control_available s"
      using that by (auto simp: retry_update_def Let_def split: if_splits)
    then show ?thesis by (auto simp: filter_empty_conv)
  qed
  with ok show ?thesis by (auto simp: requests_ok_def retry_delay_def)
qed

definition demo_unknown :: trace_snapshot where
  "demo_unknown = snapshot_trace 0 0 ((new_trace 1 1 True)\<lparr>tasks := [(7, default_task)]\<rparr>)"

lemma metadata_requests_bounded_witness:
  "\<exists>r. retry_reach r 1350000000 [350000000, 1350000000] \<and> retry_attempts r = 2 \<and> 350000000 + METADATA_RETRY_DELAYS_MS ! 1 * 1000000 \<le> (1350000000 :: nat)"
proof -
  have s: "vn_tasks demo_unknown = [\<lparr>tn_id = 7, tn_name = None, tn_priority = None, tn_runtime = 0, tn_switches = 0\<rparr>]"
    "vn_control_available demo_unknown"
    by (simp_all add: demo_unknown_def snapshot_trace_def snapshot_tasks_def new_trace_def default_task_def task_runtime_def Let_def)
  have d: "METADATA_RETRY_DELAYS_MS ! 0 = 350" "METADATA_RETRY_DELAYS_MS ! 1 = 1000" "length METADATA_RETRY_DELAYS_MS = 10"
    by (simp_all add: METADATA_RETRY_DELAYS_MS_def)
  let ?r = "\<lambda>n at. \<lparr>unknown_tasks = [7], retry_attempts = n, next_retry = Some at\<rparr>"
  have 1: "retry_update demo_unknown 0 default_retry = (False, ?r 0 350000000)"
    by (simp add: retry_update_def default_retry_def s d retry_delay_def)
  have 2: "retry_update demo_unknown 350000000 (?r 0 350000000) = (True, ?r 0 350000000)"
    "mark_dispatched 350000000 (?r 0 350000000) = ?r 1 1350000000"
    by (simp_all add: retry_update_def mark_dispatched_def s d [unfolded One_nat_def] retry_delay_def)
  have 3: "retry_update demo_unknown 1350000000 (?r 1 1350000000) = (True, ?r 1 1350000000)"
    by (simp add: retry_update_def s d retry_delay_def)
  have "retry_reach (?r 0 350000000) 0 []" using retry_reach.idle [OF retry_reach.start [of 0] _ 1] by (simp add: kept_requests_def)
  from retry_reach.sent [OF this _ 2(1)] have "retry_reach (?r 1 1350000000) 350000000 [350000000]"
    unfolding 2(2) by (simp add: kept_requests_def)
  from retry_reach.sent [OF this _ 3] have "retry_reach (mark_dispatched 1350000000 (?r 1 1350000000)) 1350000000 [350000000, 1350000000]"
    by (simp add: kept_requests_def)
  from metadata_requests_bounded [OF this] this show ?thesis by (intro exI [of _ "mark_dispatched 1350000000 (?r 1 1350000000)"]) auto
qed

end
