(* ===== verification/Rtt_Observer.thy ===== *)
theory Rtt_Observer
  imports Rtt_History Rtt_Selection SystemView_Runtime
begin

text \<open>
  The threads of an RTT session together: the acquisition thread stores and publishes chunks one after the other, users select channels,
  protocols claim them, and observers subscribe, read the history and receive. What an observer decodes follows from what it takes.
\<close>

section \<open>The session as a step relation\<close>

text \<open>
  Methods that touch neither history nor fan-out. When calls overlap (\<open>ov\<close>), any part of a call that holds one lock may come at any
  time: every schedule of every number of threads is among these sequences of steps.
\<close>

inductive rtt_op :: "bool \<Rightarrow> rtt_shared \<Rightarrow> rtt_shared \<Rightarrow> bool" for ov where
  region: "ov \<Longrightarrow> region pc s = (pc', s') \<Longrightarrow> rtt_op ov s s'"
| phase: "rtt_op ov s (set_phase p s)"
| running: "rtt_op ov s (set_running d cs s)"
| tx: "rtt_op ov s (record_tx n s)"
| presentation: "rtt_op ov s (record_presentation_drop_batch n b s)"
| pressure: "rtt_op ov s (record_runtime_pressure s)"
| error: "rtt_op ov s (set_rtt_error e s)"
| stopped: "rtt_op ov s (set_stopped s)"
| automation: "set_automation_source c s = Ok s' \<Longrightarrow> rtt_op ov s s'"
| send: "set_send_channel c s = Ok s' \<Longrightarrow> rtt_op ov s s'"
| claim: "claim_down_channel c owner s = Ok s' \<Longrightarrow> rtt_op ov s s'"
| release: "rtt_op ov s (release_down_channel c owner s)"
| observers: "rtt_op ov s (set_observers os s)"

text \<open>
  What happened to an observer: its channel, how many chunks were published before it subscribed, the history it read, what it received.
  The system is the shared state, the chunk that is stored and not yet published, all chunks stored, and the observers.
\<close>

record observer_log =
  ol_channel :: u32
  ol_from :: nat
  ol_history :: "rtt_chunk list option"
  ol_received :: "rtt_chunk list"

definition published :: "rtt_chunk option \<Rightarrow> rtt_chunk list \<Rightarrow> rtt_chunk list" where
  "published u cs = (case u of None \<Rightarrow> cs | Some _ \<Rightarrow> butlast cs)"

inductive rtt_reach ::
  "bool \<Rightarrow> rtt_shared \<Rightarrow> rtt_chunk option \<Rightarrow> rtt_chunk list \<Rightarrow> (nat \<Rightarrow> observer_log option) \<Rightarrow> bool" for ov where
  start: "rtt_reach ov (new_rtt_shared g) None [] (\<lambda>_. None)"
| store: "rtt_reach ov s None cs ls \<Longrightarrow> store_rx now c data s = Some (x, s') \<Longrightarrow> rtt_reach ov s' (Some x) (cs @ [x]) ls"
| publish: "rtt_reach ov s (Some x) cs ls \<Longrightarrow> rtt_reach ov (publish_rx x s) None cs ls"
| operation: "rtt_reach ov s u cs ls \<Longrightarrow> rtt_op ov s s' \<Longrightarrow> rtt_reach ov s' u cs ls"
| subscribe: "rtt_reach ov s u cs ls \<Longrightarrow> subscribe_observer c s = Ok (i, s') \<Longrightarrow>
    rtt_reach ov s' u cs (ls(i \<mapsto> \<lparr>ol_channel = c, ol_from = length (published u cs), ol_history = None, ol_received = []\<rparr>))"
| automation: "rtt_reach ov s u cs ls \<Longrightarrow> subscribe_automation s = Some (i, s') \<Longrightarrow> rtt_reach ov s' u cs ls"
| subscribe_late: "rtt_reach ov s u cs ls \<Longrightarrow> ov \<Longrightarrow> i = so_next (rt_source s) \<Longrightarrow>
    s' = s\<lparr>rt_source := snd (subscribe_filtered (\<lambda>x. rc_channel x = c) (CountDrop i) (rt_source s))\<rparr> \<Longrightarrow>
    rtt_reach ov s' u cs (ls(i \<mapsto> \<lparr>ol_channel = c, ol_from = length (published u cs), ol_history = None, ol_received = []\<rparr>))"
| automation_late: "rtt_reach ov s u cs ls \<Longrightarrow> ov \<Longrightarrow> i = so_next (rt_source s) \<Longrightarrow>
    s' = s\<lparr>rt_source := snd (subscribe_filtered (\<lambda>x. rc_channel x = c) AutomationDrop (rt_source s))\<rparr> \<Longrightarrow> rtt_reach ov s' u cs ls"
| bootstrap: "rtt_reach ov s u cs ls \<Longrightarrow> ls i = Some l \<Longrightarrow> ol_history l = None \<Longrightarrow>
    rtt_reach ov s u cs (ls(i \<mapsto> l\<lparr>ol_history := Some (observer_bootstrap (ol_channel l) s)\<rparr>))"
| receive: "rtt_reach ov s u cs ls \<Longrightarrow> receive_observation i (rt_source s) = (Observed x, src) \<Longrightarrow>
    rtt_reach ov (s\<lparr>rt_source := src\<rparr>) u cs
      (case ls i of None \<Rightarrow> ls | Some l \<Rightarrow> ls(i \<mapsto> l\<lparr>ol_received := ol_received l @ [x]\<rparr>))"
| drop: "rtt_reach ov s u cs ls \<Longrightarrow> rtt_reach ov (s\<lparr>rt_source := drop_observation i (rt_source s)\<rparr>) u cs ls"
| close: "rtt_reach ov s u cs ls \<Longrightarrow> rtt_reach ov (s\<lparr>rt_source := close_source (rt_source s)\<rparr>) u cs ls"

section \<open>Who may write\<close>








text \<open>What the steps of the acquisition leave alone.\<close>

definition same_selection :: "rtt_shared \<Rightarrow> rtt_shared \<Rightarrow> bool" where
  "same_selection s s' \<longleftrightarrow> rt_send s' = rt_send s \<and> rt_automation s' = rt_automation s \<and> rt_claims s' = rt_claims s \<and>
     rs_send_channel (rt_snapshot s') = rs_send_channel (rt_snapshot s) \<and>
     rs_automation_source (rt_snapshot s') = rs_automation_source (rt_snapshot s) \<and>
     rs_channels (rt_snapshot s') = rs_channels (rt_snapshot s)"


lemma run_hook_same: "same_selection s (run_hook x h s) \<and> rt_history (run_hook x h s) = rt_history s \<and>
    rt_source (run_hook x h s) = rt_source s \<and> rt_next_sequence (run_hook x h s) = rt_next_sequence s \<and>
    rt_offsets (run_hook x h s) = rt_offsets s"
  by (cases h) (simp_all add: same_selection_def record_automation_drop_def)

lemma run_hooks_same: "same_selection s (fold (run_hook x) hs s) \<and> rt_history (fold (run_hook x) hs s) = rt_history s \<and>
    rt_source (fold (run_hook x) hs s) = rt_source s \<and> rt_next_sequence (fold (run_hook x) hs s) = rt_next_sequence s \<and>
    rt_offsets (fold (run_hook x) hs s) = rt_offsets s"
proof (induction hs arbitrary: s)
  case (Cons h hs)
  from Cons.IH [of "run_hook x h s"] run_hook_same [of s x h] show ?case by (simp add: same_selection_def)
qed (simp add: same_selection_def)







section \<open>What is acquired\<close>

text \<open>Offsets of a channel follow each other from \<open>n\<close> on.\<close>

fun offsets_from :: "nat \<Rightarrow> rtt_chunk list \<Rightarrow> bool" where
  "offsets_from n [] = True"
| "offsets_from n (x # xs) = (rc_offset x = sat64 n \<and> offsets_from (n + length (rc_data x)) xs)"

lemma offsets_from_append:
  "offsets_from n (xs @ ys) \<longleftrightarrow> offsets_from n xs \<and> offsets_from (n + chunk_bytes xs) ys"
  by (induction xs arbitrary: n) (auto simp: add.assoc)

definition next_offset :: "u32 \<Rightarrow> rtt_shared \<Rightarrow> nat" where
  "next_offset c s = (case map_of (rt_offsets s) c of None \<Rightarrow> 0 | Some n \<Rightarrow> n)"

definition acquired_ok :: "rtt_shared \<Rightarrow> rtt_chunk option \<Rightarrow> rtt_chunk list \<Rightarrow> bool" where
  "acquired_ok s u cs \<longleftrightarrow> history_ok cs (rt_history s) \<and> within_limits (rt_history s) \<and>
     rt_next_sequence s = Suc (length cs) mod 2 ^ 64 \<and> map rc_sequence cs = map (\<lambda>i. i mod 2 ^ 64) [1..<Suc (length cs)] \<and>
     (\<forall>c. next_offset c s = sat64 (chunk_bytes (of_channel c cs)) \<and> offsets_from 0 (of_channel c cs)) \<and>
     (\<forall>x. u = Some x \<longrightarrow> cs \<noteq> [] \<and> last cs = x)"

lemma store_acquired:
  assumes "acquired_ok s None cs"
  obtains x s' where "store_rx now c data s = Some (x, s')" "acquired_ok s' (Some x) (cs @ [x])" "rt_source s' = rt_source s"
    "rt_drops s' = rt_drops s" "rc_channel x = c \<and> rc_data x = data \<and> rc_sequence x = rt_next_sequence s"
proof -
  let ?x = "\<lparr>rc_generation = rt_generation s, rc_sequence = rt_next_sequence s, rc_timestamp = now, rc_channel = c,
               rc_offset = next_offset c s, rc_data = data\<rparr>"
  have ok: "history_ok cs (rt_history s)" "within_limits (rt_history s)" using assms by (simp_all add: acquired_ok_def)
  obtain h where h: "push_history ?x (rt_history s) = Some (loss_totals h, h)" "history_ok (cs @ [?x]) h" "within_limits h"
    using push_history_ok [OF ok] .
  let ?s = "in_snapshot (\<lambda>n. n\<lparr>rs_rx_bytes := sat64 (rs_rx_bytes n + length data), rs_evicted_chunks := fst (loss_totals h),
               rs_evicted_bytes := snd (loss_totals h)\<rparr>)
             (s\<lparr>rt_next_sequence := (rt_next_sequence s + 1) mod 2 ^ 64,
                rt_offsets := bt_insert c (sat64 (next_offset c s + length data)) (rt_offsets s), rt_history := h\<rparr>)"
  have st: "store_rx now c data s = Some (?x, ?s)" using h(1) by (simp add: store_rx_def next_offset_def Let_def)
  have "next_offset d ?s = (if d = c then sat64 (next_offset c s + length data) else next_offset d s)" for d
    by (simp add: next_offset_def)
  moreover have "next_offset d s = sat64 (chunk_bytes (of_channel d cs))" "offsets_from 0 (of_channel d cs)" for d
    using assms by (simp_all add: acquired_ok_def)
  moreover have "(Suc n mod 2 ^ 64 + 1) mod 2 ^ 64 = Suc (Suc n) mod 2 ^ 64" for n :: nat by (simp add: mod_Suc_eq)
  ultimately have acq: "acquired_ok ?s (Some ?x) (cs @ [?x])"
    using h(2,3) assms unfolding acquired_ok_def by (auto simp: offsets_from_append)
  show ?thesis by (rule that [OF st acq]) simp_all
qed

definition same_acquired :: "rtt_shared \<Rightarrow> rtt_shared \<Rightarrow> bool" where
  "same_acquired s s' \<longleftrightarrow> rt_history s' = rt_history s \<and> rt_next_sequence s' = rt_next_sequence s \<and> rt_offsets s' = rt_offsets s"

lemma same_acquired_ok: "same_acquired s s' \<Longrightarrow> acquired_ok s u cs \<Longrightarrow> acquired_ok s' u cs"
  by (simp add: same_acquired_def acquired_ok_def next_offset_def)

lemma region_same:
  assumes "region pc s = (pc', s')"
  shows "same_acquired s s' \<and> rt_source s' = rt_source s \<and> rt_drops s' = rt_drops s"
proof -
  have "s' = snd (region pc s)" using assms by simp
  then show ?thesis
  proof (cases pc)
    case (Called k)
    then show ?thesis using \<open>s' = snd (region pc s)\<close> by (cases k) (simp_all add: region_simps same_acquired_def Let_def)
  qed (simp_all add: region_simps same_acquired_def Let_def split: option.split)
qed

lemma rtt_op_same:
  assumes "rtt_op ov s s'"
  shows "same_acquired s s' \<and> rt_source s' = rt_source s \<and> rt_drops s' = rt_drops s"
  using assms region_same
  by (cases rule: rtt_op.cases)
    (auto simp: same_acquired_def set_phase_def set_running_def record_tx_def record_presentation_drop_batch_def record_runtime_pressure_def
      set_rtt_error_def set_stopped_def set_automation_source_def set_send_channel_def claim_down_channel_def release_down_channel_def
      set_observers_def result_simps Let_def split: option.splits if_splits)

lemma publish_rx_acquired: "same_acquired s (publish_rx x s)"
  using run_hooks_same [of "s\<lparr>rt_source := src\<rparr>" x hs for src hs]
  by (auto simp: publish_rx_def same_acquired_def split_beta)

lemma subscribe_observer_eq:
  "subscribe_observer c s = Ok (i, s') \<Longrightarrow>
   i = so_next (rt_source s) \<and> s' = s\<lparr>rt_source := snd (subscribe_filtered (\<lambda>x. rc_channel x = c) (CountDrop i) (rt_source s))\<rparr>"
  by (auto simp: subscribe_observer_def subscribe_filtered_def result_simps Let_def)

lemma subscribe_automation_eq:
  "subscribe_automation s = Some (i, s') \<Longrightarrow>
   i = so_next (rt_source s) \<and> (\<exists>flt. s' = s\<lparr>rt_source := snd (subscribe_filtered flt AutomationDrop (rt_source s))\<rparr>)"
  by (auto simp: subscribe_automation_def subscribe_filtered_def Let_def split: option.splits)

lemma rtt_reach_acquired: "rtt_reach ov s u cs ls \<Longrightarrow> acquired_ok s u cs"
proof (induction rule: rtt_reach.induct)
  case (start g)
  show ?case by (simp add: acquired_ok_def new_rtt_shared_def history_ok_new within_limits_def channel_of_def default_channel_def next_offset_def sat64_def)
next
  case (store s cs ls now c data x s')
  from store_acquired [OF store.IH, of now c data] store(2) show ?case by (metis option.inject prod.inject)
next
  case (publish s x cs ls)
  from publish have "acquired_ok s None cs" by (simp add: acquired_ok_def)
  with publish_rx_acquired same_acquired_ok show ?case by blast
next
  case (operation s u cs ls s')
  then show ?case using rtt_op_same same_acquired_ok by blast
next
  case (subscribe s u cs ls c i s')
  have "same_acquired s s'" using subscribe_observer_eq [OF subscribe(2)] by (simp add: same_acquired_def)
  with subscribe show ?case using same_acquired_ok by blast
next
  case (automation s u cs ls i s')
  have "same_acquired s s'" using subscribe_automation_eq [OF automation(2)] by (auto simp: same_acquired_def)
  with automation show ?case using same_acquired_ok by blast
qed (auto intro: same_acquired_ok simp: same_acquired_def)

text \<open>
  C18. Storing a received chunk always ends; and in every state of a session the history holds, for each channel, the
  newest of all its chunks, unchanged and in order, at most 256 KiB of them and 2 MiB over all channels, and counts the chunks and bytes that it
  has evicted.
\<close>

theorem rtt_history_exact:
  assumes "rtt_reach ov s u cs ls"
  shows "\<exists>old. of_channel c cs = old @ observer_bootstrap c s \<and> chunk_bytes (observer_bootstrap c s) \<le> 262144 \<and>
    sum_list (map (chunk_bytes \<circ> ch_chunks \<circ> snd) (hs_channels (rt_history s))) \<le> 2097152 \<and>
    hr_dropped_chunks (rtt_history_page c None s) = sat64 (length old) \<and>
    hr_dropped_bytes (rtt_history_page c None s) = sat64 (chunk_bytes old) \<and>
    (u = None \<longrightarrow> (\<exists>x s'. store_rx now d data s = Some (x, s')))"
proof -
  have ok: "acquired_ok s u cs" by (rule rtt_reach_acquired [OF assms])
  let ?h = "rt_history s"
  have h: "history_ok cs ?h" "within_limits ?h" using ok by (simp_all add: acquired_ok_def)
  let ?k = "channel_of c ?h"
  have k: "channel_ok (of_channel c cs) ?k" "ch_bytes ?k \<le> 262144"
    using h by (simp_all add: history_ok_def within_limits_def HISTORY_PER_CHANNEL_BYTES_def)
  have "chunk_bytes (ch_chunks j) = ch_bytes j" if "(d, j) \<in> set (hs_channels ?h)" for d j
  proof -
    have "channel_of d ?h = j" using h(1) that by (auto simp: channel_of_def history_ok_def dest!: bt_ok_distinct)
    moreover have "channel_ok (of_channel d cs) (channel_of d ?h)" using h(1) by (simp add: history_ok_def)
    ultimately show ?thesis by (simp add: channel_ok_def)
  qed
  then have "map (chunk_bytes \<circ> ch_chunks \<circ> snd) (hs_channels ?h) = map (ch_bytes \<circ> snd) (hs_channels ?h)" by (intro map_cong) auto
  then have "sum_list (map (chunk_bytes \<circ> ch_chunks \<circ> snd) (hs_channels ?h)) = sum_list (map (ch_bytes \<circ> snd) (hs_channels ?h))"
    by (rule arg_cong)
  also have "\<dots> \<le> 2097152" using h unfolding history_ok_def within_limits_def HISTORY_PER_SESSION_BYTES_def by linarith
  finally have t: "sum_list (map (chunk_bytes \<circ> ch_chunks \<circ> snd) (hs_channels ?h)) \<le> 2097152" .
  have b: "observer_bootstrap c s = ch_chunks ?k" "hr_dropped_chunks (rtt_history_page c None s) = ch_dropped_chunks ?k"
    "hr_dropped_bytes (rtt_history_page c None s) = ch_dropped_bytes ?k"
    by (auto simp: observer_bootstrap_def channel_of_def default_channel_def rtt_history_page_def history_page_def Let_def split: option.split)
  have "\<exists>x s'. store_rx now d data s = Some (x, s')" if "u = None"
    using store_acquired [of s cs now d data] ok that by metis
  with k t show ?thesis unfolding b by (auto simp: channel_ok_def)
qed

section \<open>What observers receive\<close>

lemma queue_of_insert [simp]: "queue_of i (bt_insert j q qs) = (if i = j then q else queue_of i qs)"
  by (simp add: queue_of_def)

text \<open>A publication, by its effect on each subscriber.\<close>

definition takes :: "'a \<Rightarrow> (nat \<times> 'a observation_queue) list \<Rightarrow> 'a observation_subscriber \<Rightarrow> bool" where
  "takes v qs b \<longleftrightarrow> os_filter b v \<and> oq_connected (queue_of (os_id b) qs)"

lemma publish_loop_effect:
  "publish_loop v cap bs qs = (kept, qs', r, hs) \<Longrightarrow> distinct (map os_id bs) \<Longrightarrow>
   kept = filter (\<lambda>b. \<not> os_filter b v \<or> takes v qs b) bs \<and>
   hs = map os_hook (filter (\<lambda>b. takes v qs b \<and> cap \<le> length (oq_items (queue_of (os_id b) qs))) bs) \<and>
   (\<forall>i. i \<notin> os_id ` set bs \<longrightarrow> queue_of i qs' = queue_of i qs) \<and>
   (\<forall>b\<in>set bs. queue_of (os_id b) qs' =
      (let q = queue_of (os_id b) qs in
       if takes v qs b \<and> length (oq_items q) < cap then q\<lparr>oq_items := oq_items q @ [v]\<rparr> else q))"
proof (induction bs arbitrary: qs kept qs' r hs)
  case (Cons b bs)
  let ?q = "queue_of (os_id b) qs"
  let ?qs = "if takes v qs b \<and> length (oq_items ?q) < cap then bt_insert (os_id b) (?q\<lparr>oq_items := oq_items ?q @ [v]\<rparr>) qs else qs"
  obtain k w p g where rec: "publish_loop v cap bs ?qs = (k, w, p, g)" by (metis surj_pair)
  have new: "os_id b \<notin> os_id ` set bs" "distinct (map os_id bs)" using Cons.prems(2) by auto
  have same: "takes v ?qs d = takes v qs d \<and> queue_of (os_id d) ?qs = queue_of (os_id d) qs" if "d \<in> set bs" for d
  proof -
    have "os_id d \<noteq> os_id b" using that new(1) by (metis image_eqI)
    then show ?thesis by (simp add: takes_def)
  qed
  note IH = Cons.IH [OF rec new(2)]
  have f: "filter (\<lambda>b. \<not> os_filter b v \<or> takes v ?qs b) bs = filter (\<lambda>b. \<not> os_filter b v \<or> takes v qs b) bs"
    "filter (\<lambda>b. takes v ?qs b \<and> cap \<le> length (oq_items (queue_of (os_id b) ?qs))) bs =
       filter (\<lambda>b. takes v qs b \<and> cap \<le> length (oq_items (queue_of (os_id b) qs))) bs"
    by (rule filter_cong [OF refl], drule same, simp only:)+
  have at: "queue_of (os_id b) w = queue_of (os_id b) ?qs" using IH new(1) by blast
  have res: "kept = (if \<not> os_filter b v \<or> takes v qs b then b # k else k)" "qs' = w"
    "hs = (if takes v qs b \<and> cap \<le> length (oq_items ?q) then os_hook b # g else g)"
    using Cons.prems(1) rec by (auto simp: takes_def Let_def split: if_splits)
  show ?case
    unfolding res using IH same at f by (auto simp: Let_def)
qed simp

definition items :: "nat \<Rightarrow> rtt_shared \<Rightarrow> rtt_chunk list" where
  "items i s = oq_items (queue_of i (so_queues (rt_source s)))"

definition attached :: "nat \<Rightarrow> rtt_shared \<Rightarrow> bool" where
  "attached i s \<longleftrightarrow> i \<in> os_id ` set (so_subscribers (rt_source s)) \<and> oq_connected (queue_of i (so_queues (rt_source s)))"

text \<open>The subscriptions: their numbers are unique and an observer counts its own losses.\<close>

definition own_hook :: "'a observation_subscriber \<Rightarrow> bool" where
  "own_hook b \<longleftrightarrow> (\<forall>j. os_hook b = CountDrop j \<longrightarrow> j = os_id b)"

definition observes :: "observer_log \<Rightarrow> rtt_chunk observation_subscriber \<Rightarrow> bool" where
  "observes l b \<longleftrightarrow> os_filter b = (\<lambda>x. rc_channel x = ol_channel l) \<and> os_hook b = CountDrop (os_id b)"

definition source_ok :: "rtt_shared \<Rightarrow> (nat \<Rightarrow> observer_log option) \<Rightarrow> bool" where
  "source_ok s ls \<longleftrightarrow>
     distinct (map os_id (so_subscribers (rt_source s))) \<and>
     (\<forall>b\<in>set (so_subscribers (rt_source s)). os_id b < so_next (rt_source s) \<and> own_hook b \<and> (\<forall>l. ls (os_id b) = Some l \<longrightarrow> observes l b)) \<and>
     (\<forall>i. so_next (rt_source s) \<le> i \<longrightarrow> ls i = None \<and> rt_drops s i = 0 \<and> items i s = []) \<and>
     (\<forall>i. \<not> oq_connected (queue_of i (so_queues (rt_source s))) \<longrightarrow> items i s = [])"

text \<open>What an observer received and what waits for it, against what was published on its channel since it subscribed.\<close>

definition log_ok :: "rtt_shared \<Rightarrow> rtt_chunk list \<Rightarrow> rtt_chunk list \<Rightarrow> nat \<Rightarrow> observer_log \<Rightarrow> bool" where
  "log_ok s pub cs i l \<longleftrightarrow> ol_from l \<le> length pub \<and>
     (let since = of_channel (ol_channel l) (drop (ol_from l) pub) in
      subseq (ol_received l @ items i s) since \<and>
      (attached i s \<longrightarrow> length since = length (ol_received l) + length (items i s) + rt_drops s i)) \<and>
     (\<forall>bs. ol_history l = Some bs \<longrightarrow> (\<exists>m. ol_from l \<le> m \<and> m \<le> length cs \<and> suffix bs (of_channel (ol_channel l) (take m cs))))"

definition observers_ok :: "rtt_shared \<Rightarrow> rtt_chunk option \<Rightarrow> rtt_chunk list \<Rightarrow> (nat \<Rightarrow> observer_log option) \<Rightarrow> bool" where
  "observers_ok s u cs ls \<longleftrightarrow> source_ok s ls \<and> (\<forall>i l. ls i = Some l \<longrightarrow> log_ok s (published u cs) cs i l)"

lemma observers_ok_frame:
  assumes "observers_ok s u cs ls" "rt_source s' = rt_source s" "rt_drops s' = rt_drops s"
  shows "observers_ok s' u cs ls"
  using assms(1) unfolding observers_ok_def source_ok_def log_ok_def items_def attached_def assms(2,3) .

lemma hooks_drops:
  assumes "distinct (map os_id bs)" "\<forall>b\<in>set bs. own_hook b"
  shows "rt_drops (fold (run_hook x) (map os_hook (filter P bs)) s) i =
    rt_drops s i + (if \<exists>b\<in>set bs. P b \<and> os_id b = i \<and> os_hook b = CountDrop i then 1 else 0)"
  using assms
proof (induction bs arbitrary: s)
  case (Cons b bs)
  have no: "\<not> (\<exists>d\<in>set bs. P d \<and> os_id d = i \<and> os_hook d = CountDrop i)" if "os_id b = i"
    using Cons.prems(1) that by (auto simp: image_iff)
  have own: "j = os_id b" if "os_hook b = CountDrop j" for j using Cons.prems(2) that by (simp add: own_hook_def)
  have "distinct (map os_id bs)" "\<forall>b\<in>set bs. own_hook b" using Cons.prems by simp_all
  note IH = Cons.IH [OF this]
  show ?case
  proof (cases "os_hook b")
    case (CountDrop j)
    with own have "j = os_id b" by blast
    with CountDrop no show ?thesis by (auto simp: IH)
  next
    case AutomationDrop
    then show ?thesis by (auto simp: IH record_automation_drop_def)
  qed
qed simp

lemma publish_observers:
  assumes ok: "observers_ok s (Some x) cs ls" and last: "cs \<noteq> []" "last cs = x"
  shows "observers_ok (publish_rx x s) None cs ls"
proof -
  let ?src = "rt_source s" and ?pub = "butlast cs"
  let ?bs = "so_subscribers ?src" and ?qs = "so_queues ?src" and ?cap = "so_capacity ?src"
  have cs: "cs = ?pub @ [x]" using append_butlast_last_id [OF last(1)] last(2) by simp
  obtain kept qs r hs where p: "publish_loop x ?cap ?bs ?qs = (kept, qs, r, hs)" by (metis surj_pair)
  have src: "source_ok s ls" using ok by (simp add: observers_ok_def)
  then have dist: "distinct (map os_id ?bs)" and hooks: "\<forall>b\<in>set ?bs. own_hook b"
    by (simp_all add: source_ok_def)
  let ?full = "\<lambda>b. takes x ?qs b \<and> ?cap \<le> length (oq_items (queue_of (os_id b) ?qs))"
  have eff: "kept = filter (\<lambda>b. \<not> os_filter b x \<or> takes x ?qs b) ?bs" "hs = map os_hook (filter ?full ?bs)"
    "\<And>i. i \<notin> os_id ` set ?bs \<Longrightarrow> queue_of i qs = queue_of i ?qs"
    "\<And>b. b \<in> set ?bs \<Longrightarrow> queue_of (os_id b) qs = (let q = queue_of (os_id b) ?qs in
       if takes x ?qs b \<and> length (oq_items q) < ?cap then q\<lparr>oq_items := oq_items q @ [x]\<rparr> else q)"
    using publish_loop_effect [OF p dist] by blast+
  let ?s = "publish_rx x s"
  have s: "rt_source ?s = ?src\<lparr>so_subscribers := kept, so_queues := qs\<rparr>"
    "rt_drops ?s i = rt_drops s i + (if \<exists>b\<in>set ?bs. ?full b \<and> os_id b = i \<and> os_hook b = CountDrop i then 1 else 0)" for i
  proof -
    have e: "?s = fold (run_hook x) hs (s\<lparr>rt_source := ?src\<lparr>so_subscribers := kept, so_queues := qs\<rparr>\<rparr>)"
      using p by (simp add: publish_rx_def publish_observation_def)
    show "rt_source ?s = ?src\<lparr>so_subscribers := kept, so_queues := qs\<rparr>" unfolding e using run_hooks_same by simp
    show "rt_drops ?s i = rt_drops s i + (if \<exists>b\<in>set ?bs. ?full b \<and> os_id b = i \<and> os_hook b = CountDrop i then 1 else 0)"
      unfolding e eff(2) hooks_drops [OF dist hooks] by simp
  qed
  have connected: "oq_connected (queue_of i qs) = oq_connected (queue_of i ?qs)" for i
  proof (cases "i \<in> os_id ` set ?bs")
    case True
    then obtain b where b: "b \<in> set ?bs" "os_id b = i" by blast
    show ?thesis using eff(4) [OF b(1)] unfolding b(2) by (simp add: Let_def)
  qed (simp add: eff(3))
  have same: "items i ?s = items i s" if "\<And>b. b \<in> set ?bs \<Longrightarrow> os_id b = i \<Longrightarrow> \<not> takes x ?qs b" for i
  proof (cases "i \<in> os_id ` set ?bs")
    case True
    then obtain b where b: "b \<in> set ?bs" "os_id b = i" by blast
    show ?thesis using eff(4) [OF b(1)] that [OF b] unfolding b(2) by (simp add: Let_def items_def s(1))
  qed (simp add: eff(3) items_def s(1))
  have "source_ok ?s ls"
    unfolding source_ok_def
  proof (intro conjI)
    show "distinct (map os_id (so_subscribers (rt_source ?s)))"
      unfolding s(1) by (simp add: eff(1) distinct_map_filter dist)
    show "\<forall>b\<in>set (so_subscribers (rt_source ?s)). os_id b < so_next (rt_source ?s) \<and> own_hook b \<and>
        (\<forall>l. ls (os_id b) = Some l \<longrightarrow> observes l b)"
      using src unfolding s(1) source_ok_def by (simp add: eff(1))
    show "\<forall>i. so_next (rt_source ?s) \<le> i \<longrightarrow> ls i = None \<and> rt_drops ?s i = 0 \<and> items i ?s = []"
    proof (intro allI impI)
      fix i
      assume "so_next (rt_source ?s) \<le> i"
      then have i: "so_next ?src \<le> i" by (simp add: s(1))
      have "os_id b \<noteq> i" if "b \<in> set ?bs" for b using src that i by (auto simp: source_ok_def)
      then have "items i ?s = items i s" "rt_drops ?s i = rt_drops s i" using same by (blast, auto simp: s(2))
      with src i show "ls i = None \<and> rt_drops ?s i = 0 \<and> items i ?s = []" by (simp add: source_ok_def)
    qed
    show "\<forall>i. \<not> oq_connected (queue_of i (so_queues (rt_source ?s))) \<longrightarrow> items i ?s = []"
      using src same by (auto simp: source_ok_def s(1) connected takes_def)
  qed
  moreover have "log_ok ?s cs cs i l" if l: "ls i = Some l" for i l
  proof -
    have lo: "log_ok s ?pub cs i l" using ok l by (simp add: observers_ok_def published_def)
    let ?c = "ol_channel l" and ?n = "ol_from l"
    let ?since = "of_channel ?c (drop ?n ?pub)"
    have n: "?n \<le> length ?pub" using lo by (simp add: log_ok_def)
    then have since: "of_channel ?c (drop ?n cs) = ?since @ (if rc_channel x = ?c then [x] else [])" by (subst cs) simp
    have sub: "subseq (ol_received l @ items i s) ?since" using lo by (simp add: log_ok_def Let_def)
    show ?thesis
    proof (cases "\<exists>b\<in>set ?bs. os_id b = i \<and> takes x ?qs b")
      case True
      then obtain b where b: "b \<in> set ?bs" "os_id b = i" "takes x ?qs b" by blast
      have "observes l b" using src b(1,2) l by (simp add: source_ok_def)
      then have f: "os_filter b = (\<lambda>x. rc_channel x = ?c)" "os_hook b = CountDrop i" using b(2) by (simp_all add: observes_def)
      then have chan: "rc_channel x = ?c" and con: "attached i s" using b by (auto simp: takes_def attached_def)
      have len: "length ?since = length (ol_received l) + length (items i s) + rt_drops s i" using lo con by (simp add: log_ok_def Let_def)
      have uniq: "(\<exists>d\<in>set ?bs. ?full d \<and> os_id d = i \<and> os_hook d = CountDrop i) = (?cap \<le> length (items i s))"
      proof
        assume "\<exists>d\<in>set ?bs. ?full d \<and> os_id d = i \<and> os_hook d = CountDrop i"
        then show "?cap \<le> length (items i s)" by (auto simp: items_def)
      next
        assume "?cap \<le> length (items i s)"
        then show "\<exists>d\<in>set ?bs. ?full d \<and> os_id d = i \<and> os_hook d = CountDrop i"
          using b f(2) by (intro bexI [OF _ b(1)]) (simp add: items_def)
      qed
      have it: "items i ?s = (if length (items i s) < ?cap then items i s @ [x] else items i s)"
        using eff(4) [OF b(1)] b by (simp add: items_def s(1) Let_def)
      have "subseq (ol_received l @ items i s @ [x]) (?since @ [x])"
        using list_emb_append_mono [OF sub, of "[x]" "[x]"] by simp
      moreover have "subseq (ol_received l @ items i s) (?since @ [x])"
        using list_emb_append_mono [OF sub list_emb_Nil, of "[x]"] by simp
      ultimately show ?thesis
        using lo n len chan unfolding log_ok_def since Let_def it s(2) uniq by auto
    next
      case False
      then have it: "items i ?s = items i s" by (intro same) blast
      have d: "rt_drops ?s i = rt_drops s i" using False by (auto simp: s(2))
      have sub': "subseq (ol_received l @ items i s) (?since @ ys)" for ys
        using list_emb_append_mono [OF sub list_emb_Nil, of ys] by simp
      have "attached i s \<and> rc_channel x \<noteq> ?c" if "attached i ?s"
      proof -
        from that obtain b where b: "b \<in> set ?bs" "os_id b = i" "\<not> os_filter b x \<or> takes x ?qs b" "oq_connected (queue_of i ?qs)"
          by (auto simp: attached_def s(1) eff(1) connected)
        with False have "\<not> os_filter b x" by blast
        moreover have "observes l b" using src b(1,2) l by (simp add: source_ok_def)
        ultimately show ?thesis using b by (auto simp: attached_def observes_def)
      qed
      then show ?thesis using lo n sub' unfolding log_ok_def since Let_def it d by auto
    qed
  qed
  ultimately show ?thesis by (simp add: observers_ok_def published_def)
qed

text \<open>The other steps.\<close>

lemma log_ok_weaken:
  assumes "log_ok s pub cs i l" "items i s' = items i s" "attached i s' \<longrightarrow> attached i s \<and> rt_drops s' i = rt_drops s i"
  shows "log_ok s' pub cs i l"
  using assms by (simp add: log_ok_def Let_def)

lemma log_ok_history:
  assumes "log_ok s pub cs i l" "ol_history l = Some bs"
  shows "\<exists>m. ol_from l \<le> m \<and> m \<le> length cs \<and> suffix bs (of_channel (ol_channel l) (take m cs))"
  using assms unfolding log_ok_def by (elim conjE) simp

lemma log_ok_later:
  assumes "log_ok s pub cs i l"
    "\<And>bs. ol_history l = Some bs \<Longrightarrow> \<exists>m. ol_from l \<le> m \<and> m \<le> length cs' \<and> suffix bs (of_channel (ol_channel l) (take m cs'))"
  shows "log_ok s pub cs' i l"
  using assms unfolding log_ok_def by (elim conjE) simp

lemma store_observers:
  assumes "observers_ok s None cs ls" "rt_source s' = rt_source s" "rt_drops s' = rt_drops s"
  shows "observers_ok s' (Some x) (cs @ [x]) ls"
proof -
  have s': "observers_ok s' None cs ls" by (rule observers_ok_frame [OF assms])
  have "log_ok s' cs (cs @ [x]) i l" if "ls i = Some l" for i l
  proof -
    have lo: "log_ok s' cs cs i l" using s' that by (simp add: observers_ok_def published_def)
    have "\<exists>m. ol_from l \<le> m \<and> m \<le> length (cs @ [x]) \<and> suffix bs (of_channel (ol_channel l) (take m (cs @ [x])))"
      if h: "ol_history l = Some bs" for bs
    proof -
      obtain m where "ol_from l \<le> m" "m \<le> length cs" "suffix bs (of_channel (ol_channel l) (take m cs))"
        using log_ok_history [OF lo h] by (elim exE conjE)
      then show ?thesis by (intro exI [of _ m]) simp
    qed
    then show ?thesis by (rule log_ok_later [OF lo])
  qed
  with s' show ?thesis by (simp add: observers_ok_def published_def)
qed

lemma subscribed_facts:
  assumes "src = snd (subscribe_filtered flt hook (rt_source s))" "s' = s\<lparr>rt_source := src\<rparr>" "i = so_next (rt_source s)"
  shows "so_subscribers src = so_subscribers (rt_source s) @ [\<lparr>os_id = i, os_filter = flt, os_hook = hook\<rparr>]"
    "so_next src = Suc i" "items j s' = (if j = i then [] else items j s)"
    "oq_connected (queue_of j (so_queues src)) = (j = i \<or> oq_connected (queue_of j (so_queues (rt_source s))))"
    "j \<noteq> i \<Longrightarrow> attached j s' = attached j s"
  using assms by (auto simp: subscribe_filtered_def Let_def items_def attached_def)

lemma subscribe_source:
  assumes src: "source_ok s ls" and s': "s' = s\<lparr>rt_source := snd (subscribe_filtered flt hook (rt_source s))\<rparr>" "i = so_next (rt_source s)"
    and ls': "\<forall>j. j \<noteq> i \<longrightarrow> ls' j = ls j" and new: "own_hook \<lparr>os_id = i, os_filter = flt, os_hook = hook\<rparr>"
      "\<forall>l. ls' i = Some l \<longrightarrow> observes l \<lparr>os_id = i, os_filter = flt, os_hook = hook\<rparr>"
  shows "source_ok s' ls'"
proof -
  note f = subscribed_facts [OF refl s']
  have old: "os_id b \<noteq> i" "os_id b < i" if "b \<in> set (so_subscribers (rt_source s))" for b
    using src that s'(2) by (auto simp: source_ok_def)
  then have "i \<notin> os_id ` set (so_subscribers (rt_source s))" by blast
  then have dist: "distinct (map os_id (so_subscribers (rt_source s')))" using src by (simp add: s'(1) f(1) source_ok_def)
  have subs: "os_id b < Suc i \<and> own_hook b \<and> (\<forall>l. ls' (os_id b) = Some l \<longrightarrow> observes l b)"
    if "b \<in> set (so_subscribers (rt_source s'))" for b
  proof (cases "b = \<lparr>os_id = i, os_filter = flt, os_hook = hook\<rparr>")
    case True
    with new show ?thesis by simp
  next
    case False
    with that have b: "b \<in> set (so_subscribers (rt_source s))" by (simp add: s'(1) f(1))
    with src old [OF b] ls' show ?thesis by (simp add: source_ok_def)
  qed
  have rest: "ls' j = None \<and> rt_drops s' j = 0 \<and> items j s' = []" if "Suc i \<le> j" for j
    using src that s'(2) ls' f(3) by (simp add: source_ok_def s'(1))
  have "items j s' = []" if "\<not> oq_connected (queue_of j (so_queues (rt_source s')))" for j
    using src that f(3,4) by (simp add: source_ok_def s'(1))
  with dist subs rest show ?thesis unfolding source_ok_def by (simp add: s'(1) f(2))
qed

lemma subscribe_observers:
  assumes ok: "observers_ok s u cs ls" and s: "i = so_next (rt_source s)"
    "s' = s\<lparr>rt_source := snd (subscribe_filtered (\<lambda>x. rc_channel x = c) (CountDrop i) (rt_source s))\<rparr>"
  shows "observers_ok s' u cs (ls(i \<mapsto> \<lparr>ol_channel = c, ol_from = length (published u cs), ol_history = None, ol_received = []\<rparr>))"
proof -
  note f = subscribed_facts [OF refl s(2,1)]
  let ?l = "\<lparr>ol_channel = c, ol_from = length (published u cs), ol_history = None, ol_received = []\<rparr>"
  have src: "source_ok s ls" using ok by (simp add: observers_ok_def)
  have "source_ok s' (ls(i \<mapsto> ?l))"
    by (rule subscribe_source [OF src s(2,1)]) (simp_all add: own_hook_def observes_def)
  moreover have "log_ok s' (published u cs) cs i ?l"
    using src f(3) [of i] by (auto simp: log_ok_def source_ok_def s(2)) (auto simp: s(1))?
  moreover have "log_ok s' (published u cs) cs j l" if "ls j = Some l" "j \<noteq> i" for j l
  proof -
    have "log_ok s (published u cs) cs j l" using ok that by (simp add: observers_ok_def)
    then show ?thesis by (rule log_ok_weaken) (use that f(3,5) in \<open>simp_all add: s(2)\<close>)
  qed
  ultimately show ?thesis by (simp add: observers_ok_def)
qed

lemma automation_observers:
  assumes ok: "observers_ok s u cs ls" and s: "s' = s\<lparr>rt_source := snd (subscribe_filtered flt AutomationDrop (rt_source s))\<rparr>" "i = so_next (rt_source s)"
  shows "observers_ok s' u cs ls"
proof -
  note f = subscribed_facts [OF refl s]
  have src: "source_ok s ls" using ok by (simp add: observers_ok_def)
  have no: "ls i = None" using src s(2) by (simp add: source_ok_def)
  have "source_ok s' ls" by (rule subscribe_source [OF src s]) (simp_all add: own_hook_def no)
  moreover have "log_ok s' (published u cs) cs j l" if "ls j = Some l" for j l
  proof -
    have "j \<noteq> i" using that no by auto
    have "log_ok s (published u cs) cs j l" using ok that by (simp add: observers_ok_def)
    then show ?thesis by (rule log_ok_weaken) (use \<open>j \<noteq> i\<close> f(3,5) in \<open>simp_all add: s(1)\<close>)
  qed
  ultimately show ?thesis by (simp add: observers_ok_def)
qed

lemma bootstrap_observers:
  assumes ok: "observers_ok s u cs ls" and acq: "acquired_ok s u cs" and l: "ls i = Some l"
  shows "observers_ok s u cs (ls(i \<mapsto> l\<lparr>ol_history := Some (observer_bootstrap (ol_channel l) s)\<rparr>))"
proof -
  have lo: "log_ok s (published u cs) cs i l" using ok l by (simp add: observers_ok_def)
  have "channel_ok (of_channel (ol_channel l) cs) (channel_of (ol_channel l) (rt_history s))"
    using acq by (simp add: acquired_ok_def history_ok_def)
  moreover have "observer_bootstrap (ol_channel l) s = ch_chunks (channel_of (ol_channel l) (rt_history s))"
    by (auto simp: observer_bootstrap_def channel_of_def default_channel_def split: option.split)
  ultimately have suf: "suffix (observer_bootstrap (ol_channel l) s) (of_channel (ol_channel l) cs)" by (auto simp: channel_ok_def suffix_def)
  have "length (published u cs) \<le> length cs" by (simp add: published_def split: option.split)
  then have "ol_from l \<le> length cs" using lo by (simp add: log_ok_def)
  with suf lo have "log_ok s (published u cs) cs i (l\<lparr>ol_history := Some (observer_bootstrap (ol_channel l) s)\<rparr>)"
    unfolding log_ok_def by (auto intro!: exI [of _ "length cs"])
  moreover have "source_ok s (ls(i \<mapsto> l\<lparr>ol_history := Some (observer_bootstrap (ol_channel l) s)\<rparr>))"
  proof -
    have "observes (l\<lparr>ol_history := h\<rparr>) b = observes l b" for b h by (simp add: observes_def)
    then show ?thesis using ok l by (auto simp: observers_ok_def source_ok_def)
  qed
  ultimately show ?thesis using ok by (simp add: observers_ok_def)
qed

lemma receive_observers:
  assumes ok: "observers_ok s u cs ls" and r: "receive_observation i (rt_source s) = (Observed x, src)"
  shows "observers_ok (s\<lparr>rt_source := src\<rparr>) u cs (case ls i of None \<Rightarrow> ls | Some l \<Rightarrow> ls(i \<mapsto> l\<lparr>ol_received := ol_received l @ [x]\<rparr>))"
proof -
  let ?s = "s\<lparr>rt_source := src\<rparr>" and ?ls = "case ls i of None \<Rightarrow> ls | Some l \<Rightarrow> ls(i \<mapsto> l\<lparr>ol_received := ol_received l @ [x]\<rparr>)"
  obtain vs where vs: "items i s = x # vs"
    "src = (rt_source s)\<lparr>so_queues := bt_insert i ((queue_of i (so_queues (rt_source s)))\<lparr>oq_items := vs\<rparr>) (so_queues (rt_source s))\<rparr>"
    using r by (auto simp: receive_observation_def items_def Let_def split: list.splits if_splits)
  have f: "items i ?s = vs" "j \<noteq> i \<Longrightarrow> items j ?s = items j s" "attached j ?s = attached j s"
    "oq_connected (queue_of j (so_queues src)) = oq_connected (queue_of j (so_queues (rt_source s)))" for j
    by (auto simp: vs(2) items_def attached_def)
  have src: "source_ok s ls" using ok by (simp add: observers_ok_def)
  have obs: "observes (l\<lparr>ol_received := h\<rparr>) b = observes l b" for l b h by (simp add: observes_def)
  have "source_ok ?s ?ls"
    unfolding source_ok_def
  proof (intro conjI)
    show "distinct (map os_id (so_subscribers (rt_source ?s)))" using src by (simp add: source_ok_def vs(2))
    show "\<forall>b\<in>set (so_subscribers (rt_source ?s)). os_id b < so_next (rt_source ?s) \<and> own_hook b \<and> (\<forall>l. ?ls (os_id b) = Some l \<longrightarrow> observes l b)"
      using src by (auto simp: source_ok_def vs(2) obs split: option.splits if_splits)
    show "\<forall>j. so_next (rt_source ?s) \<le> j \<longrightarrow> ?ls j = None \<and> rt_drops ?s j = 0 \<and> items j ?s = []"
    proof (intro allI impI)
      fix j
      assume "so_next (rt_source ?s) \<le> j"
      then have j: "ls j = None" "rt_drops s j = 0" "items j s = []" using src by (simp_all add: source_ok_def vs(2))
      then have "j \<noteq> i" using vs(1) by auto
      then show "?ls j = None \<and> rt_drops ?s j = 0 \<and> items j ?s = []" using j f(2) by (simp split: option.split)
    qed
    show "\<forall>j. \<not> oq_connected (queue_of j (so_queues (rt_source ?s))) \<longrightarrow> items j ?s = []"
    proof (intro allI impI)
      fix j
      assume "\<not> oq_connected (queue_of j (so_queues (rt_source ?s)))"
      then have "items j s = []" using src f(4) by (simp add: source_ok_def)
      then show "items j ?s = []" using f(2) vs(1) by (cases "j = i") auto
    qed
  qed
  moreover have "log_ok ?s (published u cs) cs j l" if l: "?ls j = Some l" for j l
  proof (cases "j = i")
    case True
    with l obtain k where k: "ls i = Some k" "l = k\<lparr>ol_received := ol_received k @ [x]\<rparr>" by (auto split: option.splits)
    have "log_ok s (published u cs) cs i k" using ok k(1) by (simp add: observers_ok_def)
    then show ?thesis unfolding True k(2) log_ok_def Let_def f(1,3) vs(1) by simp
  next
    case False
    with l have "ls j = Some l" by (simp split: option.splits)
    then have "log_ok s (published u cs) cs j l" using ok by (simp add: observers_ok_def)
    then show ?thesis by (rule log_ok_weaken) (use False f(2,3) in simp_all)
  qed
  ultimately show ?thesis by (simp add: observers_ok_def)
qed

lemma drop_observers:
  assumes ok: "observers_ok s u cs ls"
  shows "observers_ok (s\<lparr>rt_source := drop_observation i (rt_source s)\<rparr>) u cs ls"
proof -
  let ?s = "s\<lparr>rt_source := drop_observation i (rt_source s)\<rparr>"
  have f: "items j ?s = (if j = i then [] else items j s)" "attached j ?s \<Longrightarrow> j \<noteq> i \<and> attached j s"
    "oq_connected (queue_of j (so_queues (rt_source ?s))) \<longleftrightarrow> j \<noteq> i \<and> oq_connected (queue_of j (so_queues (rt_source s)))"
    "so_subscribers (rt_source ?s) = so_subscribers (rt_source s)" "so_next (rt_source ?s) = so_next (rt_source s)" for j
    by (auto simp: drop_observation_def items_def attached_def split: if_splits)
  have "source_ok s ls" using ok by (simp add: observers_ok_def)
  then have "source_ok ?s ls" unfolding source_ok_def f by simp
  moreover have "log_ok ?s (published u cs) cs j l" if l: "ls j = Some l" for j l
  proof -
    have lo: "log_ok s (published u cs) cs j l" using ok l by (simp add: observers_ok_def)
    show ?thesis
    proof (cases "j = i")
      case True
      have "subseq (ol_received l) (of_channel (ol_channel l) (drop (ol_from l) (published u cs)))"
        using lo subseq_order.trans [OF list_emb_append2 [of "(=)" "ol_received l"]] by (auto simp: log_ok_def Let_def elim: subseq_order.trans [rotated])
      then show ?thesis using lo f(1,2) [of j] True unfolding log_ok_def Let_def by auto
    next
      case False
      then show ?thesis using log_ok_weaken [OF lo] f(1,2) by simp
    qed
  qed
  ultimately show ?thesis by (simp add: observers_ok_def)
qed

lemma close_observers:
  assumes ok: "observers_ok s u cs ls"
  shows "observers_ok (s\<lparr>rt_source := close_source (rt_source s)\<rparr>) u cs ls"
proof -
  let ?s = "s\<lparr>rt_source := close_source (rt_source s)\<rparr>"
  have f: "items j ?s = items j s" "\<not> attached j ?s" for j by (simp_all add: close_source_def items_def attached_def)
  have "source_ok s ls" using ok by (simp add: observers_ok_def)
  then have "source_ok ?s ls" unfolding source_ok_def f by (simp add: close_source_def)
  moreover have "log_ok ?s (published u cs) cs j l" if "ls j = Some l" for j l
    using log_ok_weaken [of s "published u cs" cs j l ?s] f ok that by (simp add: observers_ok_def)
  ultimately show ?thesis by (simp add: observers_ok_def)
qed

lemma rtt_reach_observers: "rtt_reach ov s u cs ls \<Longrightarrow> observers_ok s u cs ls"
proof (induction rule: rtt_reach.induct)
  case (start g)
  show ?case by (simp add: observers_ok_def source_ok_def new_rtt_shared_def new_source_def items_def queue_of_def)
next
  case (store s cs ls now c data x s')
  obtain y s2 where "store_rx now c data s = Some (y, s2)" "rt_source s2 = rt_source s" "rt_drops s2 = rt_drops s"
    using store_acquired [OF rtt_reach_acquired [OF store(1)]] by metis
  with store store_observers show ?case by simp
next
  case (publish s x cs ls)
  have "cs \<noteq> []" "last cs = x" using rtt_reach_acquired [OF publish(1)] by (simp_all add: acquired_ok_def)
  with publish publish_observers show ?case by blast
next
  case (operation s u cs ls s')
  then show ?case using rtt_op_same observers_ok_frame by blast
next
  case (bootstrap s u cs ls i l)
  then show ?case using bootstrap_observers rtt_reach_acquired by blast
next
  case (subscribe s u cs ls c i s')
  with subscribe_observer_eq [OF subscribe(2)] subscribe_observers show ?case by blast
next
  case (automation s u cs ls i s')
  with subscribe_automation_eq [OF automation(2)] automation_observers show ?case by blast
qed (blast intro: subscribe_observers automation_observers receive_observers drop_observers close_observers)+

section \<open>What an observer decodes\<close>

text \<open>The chunks its thread takes: the history it read, then what it receives with a later number.\<close>

definition through :: "rtt_chunk list \<Rightarrow> nat" where "through bs = (if bs = [] then 0 else rc_sequence (last bs))"

definition taken :: "rtt_chunk list \<Rightarrow> rtt_chunk list \<Rightarrow> rtt_chunk list" where
  "taken bs received = bs @ filter (\<lambda>x. through bs < rc_sequence x) received"

lemma sequences:
  assumes "acquired_ok s u cs" "Suc (length cs) < 2 ^ 64"
  shows "map rc_sequence cs = [1..<Suc (length cs)]"
proof -
  have "map (\<lambda>i. i mod 2 ^ 64) [1..<Suc (length cs)] = [1..<Suc (length cs)]"
    by (rule map_idI) (use assms(2) in auto)
  then show ?thesis using assms(1) by (simp add: acquired_ok_def)
qed

lemma sequence_bounds:
  assumes "map rc_sequence cs = [1..<Suc (length cs)]"
  shows "x \<in> set (take m cs) \<Longrightarrow> 0 < rc_sequence x \<and> rc_sequence x \<le> m" "x \<in> set (drop m cs) \<Longrightarrow> m < rc_sequence x"
proof -
  have n: "rc_sequence (cs ! i) = Suc i" if "i < length cs" for i
    using arg_cong [OF assms, of "\<lambda>xs. xs ! i"] that by (simp del: upt_Suc)
  show "0 < rc_sequence x \<and> rc_sequence x \<le> m" if "x \<in> set (take m cs)"
    using that n by (auto simp: in_set_conv_nth)
  show "m < rc_sequence x" if "x \<in> set (drop m cs)"
    using that n by (auto simp: in_set_conv_nth)
qed

lemma sorted_sequences:
  assumes "map rc_sequence cs = [1..<Suc (length cs)]"
  shows "sorted_wrt (<) (map rc_sequence (of_channel c cs))"
proof -
  have "sorted_wrt (<) (map rc_sequence cs)" unfolding assms by (rule sorted_wrt_upt)
  then show ?thesis by (auto simp: of_channel_def sorted_wrt_map intro: sorted_wrt_filter)
qed

lemma le_last_sequence: "sorted_wrt (<) (map rc_sequence xs) \<Longrightarrow> x \<in> set xs \<Longrightarrow> rc_sequence x \<le> rc_sequence (last xs)"
  by (induction xs) (auto simp: less_imp_le)

lemma drop_take_split: "n \<le> m \<Longrightarrow> drop n xs = drop n (take m xs) @ drop m xs"
  using drop_append [of n "take m xs" "drop m xs"] by (cases "m \<le> length xs") (auto simp: min_def)

text \<open>What is left of the published chunks after those of the history are removed.\<close>

lemma later_chunks:
  assumes seq: "map rc_sequence cs = [1..<Suc (length cs)]" and m: "n \<le> m" "m \<le> length cs" and p: "prefix pub cs"
    and bs: "suffix bs (of_channel c (take m cs))"
  shows "filter (\<lambda>x. through bs < rc_sequence x) (of_channel c (drop n pub)) =
    (if bs = [] then of_channel c (drop n pub) else of_channel c (drop m pub))"
proof (cases "bs = []")
  case True
  have "\<forall>x\<in>set (of_channel c (drop n pub)). 0 < rc_sequence x"
  proof
    fix x
    assume "x \<in> set (of_channel c (drop n pub))"
    then have "x \<in> set (take (length cs) cs)" using p by (auto simp: of_channel_def prefix_def dest: in_set_dropD)
    then show "0 < rc_sequence x" using sequence_bounds(1) [OF seq] by blast
  qed
  with True show ?thesis by (simp add: through_def filter_id_conv)
next
  case False
  let ?A = "of_channel c (take m cs)"
  have A: "?A \<noteq> []" "last bs = last ?A" using bs False by (auto simp: suffix_def)
  then have "last bs \<in> set (take m cs)" by (metis filter_is_subset last_in_set of_channel_def subsetD)
  then have t: "through bs \<le> m" using sequence_bounds(1) [OF seq] False by (simp add: through_def)
  have late: "through bs < rc_sequence x" if "x \<in> set (drop m pub)" for x
  proof -
    have "x \<in> set (drop m cs)" using that p by (auto simp: prefix_def)
    then show ?thesis using sequence_bounds(2) [OF seq] t by (meson le_less_trans)
  qed
  have early: "rc_sequence x \<le> through bs" if "x \<in> set (of_channel c (drop n (take m pub)))" for x
  proof -
    have "x \<in> set ?A" using that p by (auto simp: of_channel_def prefix_def dest: in_set_dropD)
    moreover have "sorted_wrt (<) (map rc_sequence ?A)"
    proof -
      have "map rc_sequence (take m cs) = [1..<Suc (length (take m cs))]"
        using m(2) by (simp add: seq take_map [symmetric] min_absorb2 del: upt_Suc)
      then show ?thesis by (rule sorted_sequences)
    qed
    ultimately have "rc_sequence x \<le> rc_sequence (last ?A)" using le_last_sequence by blast
    then show ?thesis using False by (simp add: through_def A(2))
  qed
  have "drop n pub = drop n (take m pub) @ drop m pub" using m(1) by (rule drop_take_split)
  then have "of_channel c (drop n pub) = of_channel c (drop n (take m pub)) @ of_channel c (drop m pub)" by simp
  moreover have "filter (\<lambda>x. through bs < rc_sequence x) (of_channel c (drop n (take m pub))) = []"
    using early by (auto simp: filter_empty_conv not_less)
  moreover have "filter (\<lambda>x. through bs < rc_sequence x) (of_channel c (drop m pub)) = of_channel c (drop m pub)"
    by (rule filter_True) (use late in \<open>auto simp: of_channel_def\<close>)
  ultimately show ?thesis using False by simp
qed

lemma suffix_of_channel_drop: "suffix (of_channel c (drop n xs)) (of_channel c xs)"
  by (metis append_take_drop_id of_channel_simps(2) suffixI)

lemma subseq_filter_prefix: "subseq xs ys \<Longrightarrow> subseq (filter P xs) (filter P ys)"
  by (rule subseq_filter)

text \<open>Everything an observer takes, now or later, is in the stream of its channel; if nothing was lost it is the end of it.\<close>

lemma observer_pieces:
  assumes acq: "acquired_ok s u cs" and obs: "observers_ok s u cs ls" and l: "ls i = Some l" "ol_history l = Some bs"
    and small: "Suc (length cs) < 2 ^ 64"
  defines "all \<equiv> of_channel (ol_channel l) cs" and "got \<equiv> taken bs (ol_received l @ items i s)"
  shows "subseq got all" "attached i s \<and> rt_drops s i = 0 \<Longrightarrow> \<exists>rest. suffix (got @ rest) all \<and> (u = None \<longrightarrow> rest = [])"
proof -
  let ?c = "ol_channel l" and ?n = "ol_from l" and ?pub = "published u cs"
  have lo: "log_ok s ?pub cs i l" using obs l(1) by (simp add: observers_ok_def)
  have n: "?n \<le> length ?pub" using lo by (simp add: log_ok_def)
  obtain m where m: "?n \<le> m" "m \<le> length cs" "suffix bs (of_channel ?c (take m cs))"
    using log_ok_history [OF lo l(2)] by blast
  have p: "prefix ?pub cs" by (auto simp: published_def prefixeq_butlast split: option.split)
  obtain tail where tail: "cs = ?pub @ tail" using p by (auto simp: prefix_def)
  have "u = None \<longrightarrow> tail = []" using tail by (metis append_self_conv option.simps(4) published_def)
  with tail have unpublished: thesis if "\<And>ys. cs = ?pub @ ys \<Longrightarrow> u = None \<longrightarrow> ys = [] \<Longrightarrow> thesis" for thesis using that by blast
  note later = later_chunks [OF sequences [OF acq small] m(1,2) p m(3)]
  let ?since = "of_channel ?c (drop ?n ?pub)" and ?new = "\<lambda>x. through bs < rc_sequence x"
  have sub: "subseq (ol_received l @ items i s) ?since" using lo by (simp add: log_ok_def Let_def)
  have rest: "\<exists>rest. suffix (bs @ filter ?new ?since @ rest) all \<and> (u = None \<longrightarrow> rest = [])"
  proof (cases "bs = []")
    case True
    obtain ys where ys: "cs = ?pub @ ys" "u = None \<longrightarrow> ys = []" using unpublished .
    then have "u = None \<longrightarrow> of_channel ?c ys = []" by simp
    moreover have "all = of_channel ?c ?pub @ of_channel ?c ys" unfolding all_def using ys(1) by (metis of_channel_simps(2))
    moreover have "suffix (?since @ of_channel ?c ys) (of_channel ?c ?pub @ of_channel ?c ys)"
      using suffix_of_channel_drop [of ?c ?n ?pub] by simp
    ultimately show ?thesis using later True by (intro exI [of _ "of_channel ?c ys"]) simp
  next
    case False
    obtain ys where ys: "drop m cs = drop m ?pub @ ys" "u = None \<longrightarrow> ys = []"
    proof -
      obtain zs where zs: "cs = ?pub @ zs" "u = None \<longrightarrow> zs = []" using unpublished .
      have "drop m (?pub @ zs) = drop m ?pub @ drop (m - length ?pub) zs" by (rule drop_append)
      then have "drop m cs = drop m ?pub @ drop (m - length ?pub) zs" using zs(1) by simp
      then show ?thesis using zs(2) by (intro that [of "drop (m - length ?pub) zs"]) auto
    qed
    have "all = of_channel ?c (take m cs) @ of_channel ?c (drop m cs)" unfolding all_def by (metis append_take_drop_id of_channel_simps(2))
    then have "all = of_channel ?c (take m cs) @ of_channel ?c (drop m ?pub) @ of_channel ?c ys" by (simp add: ys(1))
    moreover have "suffix (bs @ of_channel ?c (drop m ?pub) @ of_channel ?c ys) (of_channel ?c (take m cs) @ of_channel ?c (drop m ?pub) @ of_channel ?c ys)"
      using m(3) by simp
    ultimately show ?thesis using later False ys(2) by (intro exI [of _ "of_channel ?c ys"]) auto
  qed
  have "subseq (bs @ filter ?new (ol_received l @ items i s)) (bs @ filter ?new ?since)"
    by (intro list_emb_append_mono subseq_filter sub) simp
  moreover from rest have "subseq (bs @ filter ?new ?since) all"
    by (metis append_assoc suffix_imp_subseq subseq_order.trans list_emb_append_mono list_emb_Nil append_Nil2 subseq_order.refl)
  ultimately show "subseq got all" unfolding got_def taken_def by (rule subseq_order.trans)
  show "\<exists>rest. suffix (got @ rest) all \<and> (u = None \<longrightarrow> rest = [])" if "attached i s \<and> rt_drops s i = 0"
  proof -
    have "length ?since = length (ol_received l @ items i s)" using lo that by (simp add: log_ok_def Let_def)
    then have "ol_received l @ items i s = ?since" using sub subseq_same_length by metis
    with rest show ?thesis by (simp add: got_def taken_def)
  qed
qed

text \<open>Contiguous chunks are one run.\<close>

lemma offsets_one_run:
  assumes "offsets_from n xs"
  shows "runs xs = (if xs = [] then [] else [xs])"
  using assms
proof (induction xs rule: rev_induct)
  case app: (snoc x xs)
  then have ok: "offsets_from n xs" "rc_offset x = sat64 (n + chunk_bytes xs)" by (simp_all add: offsets_from_append)
  show ?case
  proof (cases xs rule: rev_cases)
    case Nil
    then show ?thesis by (simp add: runs_def add_chunk_def)
  next
    case (snoc zs z)
    have "chunk_end z = rc_offset x" using ok unfolding snoc by (simp add: offsets_from_append chunk_end_def add.assoc)
    moreover have "last xs = z" "xs \<noteq> []" using snoc by simp_all
    ultimately show ?thesis using app.IH [OF ok(1)] by (simp add: runs_simps add_chunk_def)
  qed
qed (simp add: runs_simps)

lemma offsets_from_piece:
  assumes "offsets_from n (xs @ ys @ zs)"
  shows "\<exists>k. offsets_from k ys"
  using assms by (auto simp: offsets_from_append)

text \<open>
  C10. An observer that subscribes, reads the history and then takes what it receives with a later number misses
  nothing and repeats nothing, although chunks keep arriving between the two: what it takes now or later is a subsequence of its channel's
  chunks, so none comes twice; and as long as its queue did not overflow it is, but for a chunk that is just being published, the end of the channel's stream from where
  the history began.
\<close>

theorem observer_takes_each_chunk_once:
  assumes "rtt_reach ov s u cs ls" "ls i = Some l" "ol_history l = Some bs" "length cs < 2 ^ 64 - 1"
  shows "subseq (taken bs (ol_received l @ items i s)) (of_channel (ol_channel l) cs) \<and> distinct (map rc_sequence (of_channel (ol_channel l) cs)) \<and>
    (attached i s \<and> rt_drops s i = 0 \<longrightarrow>
       (\<exists>rest. suffix (taken bs (ol_received l @ items i s) @ rest) (of_channel (ol_channel l) cs) \<and> (u = None \<longrightarrow> rest = [])))"
proof -
  have small: "Suc (length cs) < 2 ^ 64" using assms(4) by simp
  note acq = rtt_reach_acquired [OF assms(1)] and obs = rtt_reach_observers [OF assms(1)]
  have "distinct (map rc_sequence (of_channel (ol_channel l) cs))"
    using sorted_sequences [OF sequences [OF acq small]] by (simp add: strict_sorted_iff)
  with observer_pieces [OF acq obs assms(2,3) small] show ?thesis by blast
qed

text \<open>
  C9. From the probe to the trace: if the queue of an observer did not overflow, the bytes its thread has decoded are a
  contiguous piece of what the target sent on the channel; and if this piece is a sync marker and packets that the decoder knows (\<open>wire_ok\<close>, as in
  \<open>SystemView_Stream\<close>) after something that contains no ten zeros in a row and does not end in a zero, then the trace has exactly one event for each
  of the packets, in order, wherever the stream was cut into chunks, whenever the observer attached and whatever users and protocols did meanwhile, their
  calls overlapping or not.
\<close>

theorem observed_trace_end_to_end:
  assumes "rtt_reach ov s u cs ls" "ls i = Some l" "ol_history l = Some bs" "length cs < 2 ^ 64 - 1"
    and "attached i s" "rt_drops s i = 0" "worker_reach P (taken bs (ol_received l)) w"
  shows "\<exists>before after. of_channel (ol_channel l) cs = before @ taken bs (ol_received l) @ after \<and>
    (\<forall>junk ps. concat (map rc_data (taken bs (ol_received l))) = junk @ replicate 10 0 @ wires ps \<and> list_all wire_ok ps \<and>
       find_sync_marker junk = None \<and> (junk = [] \<or> last junk \<noteq> 0) \<longrightarrow>
       (\<exists>es. trace_reach (vs_state (wk_shared w)) es \<and> map event_key es = map packet_key (marked True (map decoded ps))))"
proof -
  let ?t = "taken bs (ol_received l)" and ?all = "of_channel (ol_channel l) cs"
  have small: "Suc (length cs) < 2 ^ 64" using assms(4) by simp
  note acq = rtt_reach_acquired [OF assms(1)] and obs = rtt_reach_observers [OF assms(1)]
  obtain rest where "suffix (taken bs (ol_received l @ items i s) @ rest) ?all"
    using observer_pieces(2) [OF acq obs assms(2,3) small] assms(5,6) by blast
  moreover have "taken bs (ol_received l @ items i s) = ?t @ filter (\<lambda>x. through bs < rc_sequence x) (items i s)"
    by (simp add: taken_def)
  ultimately obtain before after where split: "?all = before @ ?t @ after" by (auto simp: suffix_def)
  have "offsets_from 0 ?all" using acq by (simp add: acquired_ok_def)
  then obtain k where "offsets_from k ?t" unfolding split using offsets_from_piece by blast
  note r = offsets_one_run [OF this]
  obtain es where es: "trace_reach (vs_state (wk_shared w)) es" "map event_key es = concat (map run_keys (runs ?t))"
    using worker_follows [OF assms(7)] .
  have "map event_key es = map packet_key (marked True (map decoded ps))"
    if "concat (map rc_data ?t) = junk @ replicate 10 0 @ wires ps" "list_all wire_ok ps" "find_sync_marker junk = None"
      "junk = [] \<or> last junk \<noteq> 0" for junk ps
  proof -
    have "?t \<noteq> []" using that(1) by auto
    then show ?thesis using es(2) run_keys_stream [OF that] by (simp add: r)
  qed
  with split es(1) show ?thesis by blast
qed

section \<open>A session\<close>

definition demo_channels :: "rtt_channel list" where
  "demo_channels =
     [\<lparr>rx_index = 1, rx_name = Some ''SysView'', rx_up = Some \<lparr>dir_buffer_size = None, dir_usable = True, dir_issue = None\<rparr>,
       rx_down = Some \<lparr>dir_buffer_size = None, dir_usable = True, dir_issue = None\<rparr>, rx_metadata_complete = True\<rparr>]"

definition demo_descriptor :: rtt_descriptor where
  "demo_descriptor = \<lparr>rd_kind = ''probe_rs'', rd_display_name = ''probe'', rd_target = None, rd_probe = None, rd_control_block = None,
     rd_capabilities = \<lparr>enumerate_channels = True, channel_metadata = True, capability_locator = True, direct_target_control = True\<rparr>\<rparr>"

definition demo_session :: rtt_shared where
  "demo_session = (set_running demo_descriptor demo_channels (new_rtt_shared 1))
     \<lparr>rt_source := snd (subscribe_filtered (\<lambda>x. rc_channel x = 1) (CountDrop 0) (rt_source (new_rtt_shared 1)))\<rparr>"

definition demo_log :: observer_log where
  "demo_log = \<lparr>ol_channel = 1, ol_from = 0, ol_history = Some [], ol_received = []\<rparr>"

lemma demo_started: "rtt_reach ov demo_session None [] [0 \<mapsto> demo_log]"
proof -
  let ?r = "set_running demo_descriptor demo_channels (new_rtt_shared 1)"
  have r: "rtt_reach ov ?r None [] (\<lambda>_. None)" by (rule rtt_reach.operation [OF rtt_reach.start rtt_op.running])
  have "subscribe_observer 1 ?r = Ok (0, demo_session)"
    by (simp add: subscribe_observer_def validate_channel_direction_def set_running_def demo_channels_def demo_session_def
        new_rtt_shared_def new_source_def subscribe_filtered_def Let_def)
  from rtt_reach.bootstrap [OF rtt_reach.subscribe [OF r this], of 0] show ?thesis
    by (simp add: demo_log_def observer_bootstrap_def demo_session_def set_running_def new_rtt_shared_def Let_def published_def)
qed

text \<open>One chunk through the session: stored, published, received.\<close>

lemma demo_received:
  obtains x s where "rtt_reach ov s None [x] [0 \<mapsto> demo_log\<lparr>ol_received := [x]\<rparr>]" "attached 0 s" "rt_drops s 0 = 0" "items 0 s = []"
    "rc_data x = data" "rc_channel x = 1" "rc_sequence x = 1" "rs_send_channel (rt_snapshot s) = Some 1"
proof -
  obtain x s where x: "store_rx 0 1 data demo_session = Some (x, s)" "rt_source s = rt_source demo_session" "rt_drops s = rt_drops demo_session"
    "rc_channel x = 1 \<and> rc_data x = data \<and> rc_sequence x = rt_next_sequence demo_session"
    using store_acquired [OF rtt_reach_acquired [OF demo_started]] by metis
  have snap: "rs_send_channel (rt_snapshot s) = Some 1"
    using x(1) by (auto simp: store_rx_def Let_def demo_session_def set_running_def keep_or_prefer_def preferred_channel_def
        demo_channels_def free_down_def has_usable_down_def new_rtt_shared_def bt_keys_def)
  let ?p = "publish_rx x s"
  have "rtt_reach ov ?p None [x] [0 \<mapsto> demo_log]"
    using rtt_reach.publish [OF rtt_reach.store [OF demo_started x(1)]] by simp
  moreover have p: "rt_source ?p = (rt_source s)\<lparr>so_queues := [(0, \<lparr>oq_items = [x], oq_connected = True\<rparr>)]\<rparr>" "rt_drops ?p = rt_drops s"
    "rt_snapshot ?p = rt_snapshot s"
    using x(4) by (simp_all add: publish_rx_def publish_observation_def x(2) demo_session_def subscribe_filtered_def new_rtt_shared_def
        new_source_def queue_of_def RAW_OBSERVATION_SUBSCRIPTION_CAPACITY_def Let_def)
  let ?src = "(rt_source s)\<lparr>so_queues := [(0, \<lparr>oq_items = [], oq_connected = True\<rparr>)]\<rparr>"
  have "receive_observation 0 (rt_source ?p) = (Observed x, ?src)" by (simp add: receive_observation_def p(1) queue_of_def)
  ultimately have reach: "rtt_reach ov (?p\<lparr>rt_source := ?src\<rparr>) None [x] [0 \<mapsto> demo_log\<lparr>ol_received := [x]\<rparr>]"
    using rtt_reach.receive by (fastforce simp: demo_log_def)
  have "attached 0 (?p\<lparr>rt_source := ?src\<rparr>)" "items 0 (?p\<lparr>rt_source := ?src\<rparr>) = []"
    by (simp_all add: attached_def items_def queue_of_def x(2) demo_session_def subscribe_filtered_def new_rtt_shared_def new_source_def Let_def)
  moreover have "rt_drops (?p\<lparr>rt_source := ?src\<rparr>) 0 = 0" "rt_next_sequence demo_session = 1"
    by (simp_all add: p(2) x(3) demo_session_def set_running_def new_rtt_shared_def Let_def)
  ultimately show ?thesis using x(4) snap p(3) by (intro that [OF reach]) simp_all
qed


lemma rtt_history_exact_witness:
  "\<exists>x s. of_channel 1 [x] = observer_bootstrap 1 s \<and> rc_data x = [4, 7, 10] \<and> hr_dropped_chunks (rtt_history_page 1 None s) = 0"
proof -
  obtain x s where x: "store_rx 0 1 [4, 7, 10] demo_session = Some (x, s)" "acquired_ok s (Some x) [x]" "rc_channel x = 1 \<and> rc_data x = [4, 7, 10]"
    using store_acquired [OF rtt_reach_acquired [OF demo_started], of 0 1 "[4, 7, 10]"] by (metis append_Nil)
  have r: "rtt_reach True s (Some x) [x] [0 \<mapsto> demo_log]" using rtt_reach.store [OF demo_started x(1)] by simp
  obtain old where old: "[x] = old @ observer_bootstrap 1 s" "hr_dropped_chunks (rtt_history_page 1 None s) = sat64 (length old)"
    using rtt_history_exact [OF r, of 1 0 1 "[]"] x(3) by auto
  let ?h = "append_chunk x (rt_history demo_session)"
  have h: "map_of (hs_channels ?h) 1 = Some (default_channel\<lparr>ch_bytes := 3, ch_chunks := [x]\<rparr>)" "hs_total ?h = 3"
    using x(3) by (simp_all add: append_chunk_def demo_session_def set_running_def new_rtt_shared_def channel_of_def default_channel_def Let_def)
  have "push_history x (rt_history demo_session) = Some (loss_totals ?h, ?h)"
    by (rule push_history_small) (use h x(3) in \<open>simp_all add: channel_of_def HISTORY_PER_CHANNEL_BYTES_def HISTORY_PER_SESSION_BYTES_def\<close>)
  then have "rt_history s = ?h" using x(1) by (auto simp: store_rx_def Let_def)
  then have "observer_bootstrap 1 s = [x]" by (simp add: observer_bootstrap_def h(1))
  with old x(3) show ?thesis by (intro exI [of _ x] exI [of _ s]) (auto simp: sat64_def)
qed

lemma observer_takes_each_chunk_once_witness:
  "\<exists>s x. rtt_reach True s None [x] [0 \<mapsto> demo_log\<lparr>ol_received := [x]\<rparr>] \<and> taken [] [x] = [x] \<and> suffix (taken [] [x]) (of_channel 1 [x])"
proof -
  obtain x s where x: "rtt_reach True s None [x] [0 \<mapsto> demo_log\<lparr>ol_received := [x]\<rparr>]" "attached 0 s" "rt_drops s 0 = 0" "items 0 s = []"
    "rc_channel x = 1" "rc_sequence x = 1" using demo_received [where ov = True and data = "[]"] by metis
  have "suffix (taken [] [x]) (of_channel 1 [x])"
    using observer_takes_each_chunk_once [OF x(1), of 0 "demo_log\<lparr>ol_received := [x]\<rparr>" "[]"] x(2-4) by (auto simp: demo_log_def)
  moreover have "taken [] [x] = [x]" using x(6) by (simp add: taken_def through_def)
  ultimately show ?thesis using x(1) by blast
qed

lemma observed_trace_end_to_end_witness:
  "\<exists>s x w es. rtt_reach True s None [x] [0 \<mapsto> demo_log\<lparr>ol_received := [x]\<rparr>] \<and> rc_data x = [7] @ replicate 10 0 @ [4, 0x83, 2, 8] \<and>
     worker_reach no_clear [x] w \<and> trace_reach (vs_state (wk_shared w)) es \<and> map event_key es = [(4, 8, True)]"
proof -
  let ?p = "Standard 4 [0x103] None 8"
  obtain x s where x: "rtt_reach True s None [x] [0 \<mapsto> demo_log\<lparr>ol_received := [x]\<rparr>]" "attached 0 s" "rt_drops s 0 = 0"
    "rc_data x = [7] @ replicate 10 0 @ [4, 0x83, 2, 8]" "rc_sequence x = 1" using demo_received [where ov = True] by metis
  have t: "taken [] [x] = [x]" using x(5) by (simp add: taken_def through_def)
  obtain w where w: "worker_reach no_clear [x] w" using demo_observer [of x] x(5) by auto
  have wire: "wire ?p = [4, 0x83, 2, 8]" by code_simp
  have ok: "list_all wire_ok [?p]" by (simp add: wire shape_ok_def field_count_def MAX_DECODER_BUFFER_def del: wire.simps)
  have d: "concat (map rc_data [x]) = [7] @ replicate 10 0 @ wires [?p]" by (simp add: x(4) wire del: wire.simps)
  have j: "find_sync_marker [7] = None" "last [7 :: byte] \<noteq> 0" by (simp_all add: zeros10_def)
  let ?l = "demo_log\<lparr>ol_received := [x]\<rparr>"
  have l: "[0 \<mapsto> ?l] (0 :: nat) = Some ?l" "ol_history ?l = Some []" "length [x] < 2 ^ 64 - 1" "taken [] (ol_received ?l) = [x]"
    using t by (simp_all add: demo_log_def)
  have wr: "worker_reach no_clear (taken [] (ol_received ?l)) w" using w unfolding l(4) .
  note e = observed_trace_end_to_end [OF x(1) l(1-3) x(2,3) wr]
  obtain es where es: "trace_reach (vs_state (wk_shared w)) es" "map event_key es = map packet_key (marked True (map decoded [?p]))"
    using e d ok j unfolding l(4) by blast
  then have "map event_key es = [(4, 8, True)]" by (simp add: packet_key_def)
  with es(1) w x(1,4) show ?thesis by (intro exI conjI)
qed

end
