(* ===== verification/Rtt_Worker.thy ===== *)
theory Rtt_Worker
  imports Rtt_History
begin

text \<open>
  The acquisition thread of an RTT session (\<open>plugins/rtt/worker.rs\<close>): it serves commands, polls the backend, records what it reads, writes one piece
  of one pending write per turn and sends batches to the front end. The backend and the clock are given per turn; the bytes the backend accepted, the
  replies and the batches are logged.
\<close>

section \<open>The thread\<close>

definition WORKER_FLUSH_INTERVAL :: nat where "WORKER_FLUSH_INTERVAL = 25000000"
definition WORKER_SNAPSHOT_INTERVAL :: nat where "WORKER_SNAPSHOT_INTERVAL = 1000000000"
definition PRESENTATION_QUEUE_MAX_BYTES :: nat where "PRESENTATION_QUEUE_MAX_BYTES = 256 * 1024"
definition MAX_COMMANDS_PER_TICK :: nat where "MAX_COMMANDS_PER_TICK = 8"
definition MAX_PENDING_WRITES :: nat where "MAX_PENDING_WRITES = 32"
definition WRITE_QUANTUM_BYTES :: nat where "WRITE_QUANTUM_BYTES = 4 * 1024"

text \<open>A write is known by the position of its command among all write commands; that stands for its reply channel.\<close>

datatype worker_command =
  WriteCommand u32 "byte list" | RefreshCommand rtt_descriptor "rtt_error_code + rtt_channel list" | ShutdownCommand

record pending_write =
  pw_id :: nat
  pw_channel :: u32
  pw_data :: "byte list"
  pw_offset :: nat
  pw_deadline :: nat

datatype shown = ShownBatch "chunk_dto list" bool | ShownSnapshot rtt_snapshot

record rtt_worker =
  rw_shared :: rtt_shared
  rw_writes :: "pending_write list"
  rw_presentation :: "rtt_chunk list"
  rw_presentation_bytes :: nat
  rw_last_flush :: nat
  rw_last_snapshot :: nat
  rw_asked :: "(u32 \<times> byte list) list"
  rw_sent :: "(nat \<times> u32 \<times> byte list) list"
  rw_replies :: "(nat \<times> (nat, rtt_error_code) result) list"
  rw_shown :: "shown list"

text \<open>One turn of the loop as its surroundings decide it: commands waiting, whether their sender is gone, what the backend returns, and the clock.\<close>

record turn =
  tn_commands :: "worker_command list"
  tn_disconnected :: bool
  tn_reads :: "(u32 \<times> byte list) list"
  tn_poll_error :: "rtt_error_code option"
  tn_write :: "rtt_error_code + nat"
  tn_emitted :: bool
  tn_clock :: "nat \<Rightarrow> nat"

definition reply_to :: "nat \<Rightarrow> (nat, rtt_error_code) result \<Rightarrow> rtt_worker \<Rightarrow> rtt_worker" where
  "reply_to i r w = w\<lparr>rw_replies := rw_replies w @ [(i, r)]\<rparr>"

definition emit_rtt_snapshot :: "rtt_worker \<Rightarrow> rtt_worker" where
  "emit_rtt_snapshot w = w\<lparr>rw_shown := rw_shown w @ [ShownSnapshot (rt_snapshot (rw_shared w))]\<rparr>"

definition accept_write :: "nat \<Rightarrow> u32 \<Rightarrow> byte list \<Rightarrow> rtt_worker \<Rightarrow> rtt_worker" where
  "accept_write deadline c data w =
     (let i = length (rw_asked w); w = w\<lparr>rw_asked := rw_asked w @ [(c, data)]\<rparr> in
      if MAX_PENDING_WRITES \<le> length (rw_writes w) then reply_to i (Err RttWriteQueueFull) w
      else w\<lparr>rw_writes := rw_writes w @ [\<lparr>pw_id = i, pw_channel = c, pw_data = data, pw_offset = 0, pw_deadline = deadline\<rparr>]\<rparr>)"

text \<open>At most eight commands; True when the loop is to end.\<close>

fun run_commands :: "nat \<Rightarrow> nat \<Rightarrow> bool \<Rightarrow> worker_command list \<Rightarrow> rtt_worker \<Rightarrow> rtt_worker \<times> bool" where
  "run_commands deadline 0 gone cs w = (w, False)"
| "run_commands deadline (Suc n) gone [] w = (w, gone)"
| "run_commands deadline (Suc n) gone (WriteCommand c data # cs) w = run_commands deadline n gone cs (accept_write deadline c data w)"
| "run_commands deadline (Suc n) gone (RefreshCommand d r # cs) w =
     run_commands deadline n gone cs
       (case r of Inr channels \<Rightarrow> emit_rtt_snapshot (w\<lparr>rw_shared := set_running d channels (rw_shared w)\<rparr>) | Inl e \<Rightarrow> w)"
| "run_commands deadline (Suc n) gone (ShutdownCommand # cs) w = (w, True)"

fun trim_presentation :: "rtt_chunk list \<Rightarrow> nat \<Rightarrow> rtt_shared \<Rightarrow> rtt_chunk list \<times> nat \<times> rtt_shared" where
  "trim_presentation [] bytes s = ([], bytes, s)"
| "trim_presentation (x # xs) bytes s =
     (if bytes > PRESENTATION_QUEUE_MAX_BYTES
      then trim_presentation xs (bytes - length (rc_data x)) (record_presentation_drop_batch 1 (length (rc_data x)) s)
      else (x # xs, bytes, s))"

definition take_read :: "nat \<Rightarrow> u32 \<Rightarrow> byte list \<Rightarrow> rtt_worker \<Rightarrow> rtt_worker option" where
  "take_read now c data w =
     map_option (\<lambda>(x, s).
         (let (xs, bytes, s) = trim_presentation (rw_presentation w @ [x]) (rw_presentation_bytes w + length (rc_data x)) s in
          w\<lparr>rw_shared := s, rw_presentation := xs, rw_presentation_bytes := bytes\<rparr>))
       (record_rx now c data (rw_shared w))"

fun take_reads :: "(nat \<Rightarrow> nat) \<Rightarrow> (u32 \<times> byte list) list \<Rightarrow> rtt_worker \<Rightarrow> rtt_worker option" where
  "take_reads clk [] w = Some w"
| "take_reads clk ((c, data) # rs) w = (case take_read (clk 0) c data w of None \<Rightarrow> None | Some w \<Rightarrow> take_reads (clk \<circ> Suc) rs w)"

text \<open>One piece of the first pending write; what remains of it goes to the back. The result is a fatal error.\<close>

definition service_one_write :: "nat \<Rightarrow> nat \<Rightarrow> rtt_error_code + nat \<Rightarrow> rtt_worker \<Rightarrow> rtt_error_code option \<times> rtt_worker" where
  "service_one_write before after result w =
     (case rw_writes w of
        [] \<Rightarrow> (None, w)
      | p # ps \<Rightarrow>
          (let w = w\<lparr>rw_writes := ps\<rparr> in
           if pw_deadline p \<le> before then (None, reply_to (pw_id p) (Err RttWriteTimeout) w)
           else
             (let stop = min (pw_offset p + WRITE_QUANTUM_BYTES) (length (pw_data p)) in
              case result of
                Inr n \<Rightarrow>
                  (let n = min n (stop - pw_offset p);
                       w = w\<lparr>rw_sent := rw_sent w @ [(pw_id p, pw_channel p, take n (drop (pw_offset p) (pw_data p)))],
                             rw_shared := record_tx n (rw_shared w)\<rparr>;
                       p = p\<lparr>pw_offset := pw_offset p + n\<rparr> in
                   if length (pw_data p) \<le> pw_offset p then (None, reply_to (pw_id p) (Ok (length (pw_data p))) w)
                   else if pw_deadline p \<le> after then (None, reply_to (pw_id p) (Err RttWriteTimeout) w)
                   else (None, w\<lparr>rw_writes := ps @ [p]\<rparr>))
              | Inl e \<Rightarrow> (if has_indeterminate_outcome e then Some e else None, reply_to (pw_id p) (Err e) w))))"

definition emit_presentation_batch :: "bool \<Rightarrow> rtt_worker \<Rightarrow> rtt_worker" where
  "emit_presentation_batch ok w =
     (if rw_presentation w = [] then w
      else
        w\<lparr>rw_shown := rw_shown w @ [ShownBatch (map dto_from_stored (rw_presentation w)) ok], rw_presentation := [], rw_presentation_bytes := 0,
          rw_shared := (if ok then rw_shared w
                        else record_presentation_drop_batch (length (rw_presentation w)) (rw_presentation_bytes w) (rw_shared w))\<rparr>)"

definition flush_due :: "turn \<Rightarrow> rtt_worker \<Rightarrow> rtt_worker" where
  "flush_due t w =
     (let w = (if rw_presentation w \<noteq> [] \<and> WORKER_FLUSH_INTERVAL \<le> tn_clock t 3 - rw_last_flush w
               then (emit_presentation_batch (tn_emitted t) w)\<lparr>rw_last_flush := tn_clock t 4\<rparr> else w) in
      if WORKER_SNAPSHOT_INTERVAL \<le> tn_clock t 5 - rw_last_snapshot w
      then (emit_rtt_snapshot w)\<lparr>rw_last_snapshot := tn_clock t 6\<rparr> else w)"

datatype turn_end = GoOn | Leave | LeaveFaulted rtt_error_code

definition handle_reads :: "turn \<Rightarrow> rtt_worker \<Rightarrow> (turn_end \<times> rtt_worker) option" where
  "handle_reads t w =
     (case take_reads (\<lambda>i. tn_clock t (i + 7)) (tn_reads t) w of
        None \<Rightarrow> None
      | Some w \<Rightarrow>
          (case service_one_write (tn_clock t 1) (tn_clock t 2) (tn_write t) w of
             (Some e, w) \<Rightarrow> Some (LeaveFaulted e, w)
           | (None, w) \<Rightarrow> Some (GoOn, flush_due t w)))"

definition worker_turn :: "nat \<Rightarrow> turn \<Rightarrow> rtt_worker \<Rightarrow> (turn_end \<times> rtt_worker) option" where
  "worker_turn write_timeout t w =
     (let (w, stop) = run_commands (tn_clock t 0 + write_timeout) MAX_COMMANDS_PER_TICK (tn_disconnected t) (tn_commands t) w in
      if stop then Some (Leave, w)
      else
        (case tn_poll_error t of
           Some e \<Rightarrow>
             if is_transient_runtime_pressure e then handle_reads t (w\<lparr>rw_shared := record_runtime_pressure (rw_shared w)\<rparr>)
             else Some (LeaveFaulted e, w)
         | None \<Rightarrow> handle_reads t w))"

definition cancel_pending_writes :: "rtt_worker \<Rightarrow> rtt_worker" where
  "cancel_pending_writes w = w\<lparr>rw_replies := rw_replies w @ map (\<lambda>p. (pw_id p, Err RttCancelled)) (rw_writes w), rw_writes := []\<rparr>"

definition leave_worker :: "bool \<Rightarrow> rtt_error_code option \<Rightarrow> rtt_worker \<Rightarrow> rtt_worker" where
  "leave_worker shown_ok fatal w =
     (let w = cancel_pending_writes (emit_presentation_batch shown_ok w) in
      emit_rtt_snapshot (w\<lparr>rw_shared := (case fatal of Some e \<Rightarrow> set_rtt_error e (rw_shared w) | None \<Rightarrow> set_stopped (rw_shared w))\<rparr>))"

definition new_rtt_worker :: "rtt_descriptor \<Rightarrow> rtt_channel list \<Rightarrow> nat \<Rightarrow> rtt_shared \<Rightarrow> rtt_worker" where
  "new_rtt_worker d channels now s =
     emit_rtt_snapshot \<lparr>rw_shared = set_running d channels (set_phase RttOpeningBackend s), rw_writes = [], rw_presentation = [],
       rw_presentation_bytes = 0, rw_last_flush = now, rw_last_snapshot = now, rw_asked = [], rw_sent = [], rw_replies = [], rw_shown = []\<rparr>"

section \<open>The writes\<close>

text \<open>The bytes of one write the backend has accepted, in the order of acceptance.\<close>

definition sent_of :: "nat \<Rightarrow> (nat \<times> u32 \<times> byte list) list \<Rightarrow> byte list" where
  "sent_of i xs = concat (map (\<lambda>(_, _, bs). bs) (filter (\<lambda>(j, _, _). j = i) xs))"

lemma sent_of_nil [simp]: "sent_of i [] = []"
  by (simp add: sent_of_def)

lemma sent_of_snoc [simp]: "sent_of i (xs @ [(j, c, bs)]) = sent_of i xs @ (if j = i then bs else [])"
  by (simp add: sent_of_def)

definition pending_fits :: "rtt_worker \<Rightarrow> pending_write \<Rightarrow> bool" where
  "pending_fits w p \<longleftrightarrow> pw_id p < length (rw_asked w) \<and> rw_asked w ! pw_id p = (pw_channel p, pw_data p) \<and>
     pw_offset p \<le> length (pw_data p) \<and> sent_of (pw_id p) (rw_sent w) = take (pw_offset p) (pw_data p)"

definition reply_fits :: "rtt_worker \<Rightarrow> nat \<times> (nat, rtt_error_code) result \<Rightarrow> bool" where
  "reply_fits w x \<longleftrightarrow> fst x < length (rw_asked w) \<and>
     (let data = snd (rw_asked w ! fst x) in
      case snd x of Ok n \<Rightarrow> n = length data \<and> sent_of (fst x) (rw_sent w) = data
      | Err e \<Rightarrow> prefix (sent_of (fst x) (rw_sent w)) data
      | Panic \<Rightarrow> False)"

definition piece_fits :: "rtt_worker \<Rightarrow> nat \<times> u32 \<times> byte list \<Rightarrow> bool" where
  "piece_fits w x \<longleftrightarrow> fst x < length (rw_asked w) \<and> fst (snd x) = fst (rw_asked w ! fst x) \<and> length (snd (snd x)) \<le> WRITE_QUANTUM_BYTES"

definition writes_ok :: "rtt_worker \<Rightarrow> bool" where
  "writes_ok w \<longleftrightarrow> length (rw_writes w) \<le> MAX_PENDING_WRITES \<and>
     mset (map pw_id (rw_writes w) @ map fst (rw_replies w)) = mset [0..<length (rw_asked w)] \<and>
     list_all (pending_fits w) (rw_writes w) \<and> list_all (reply_fits w) (rw_replies w) \<and> list_all (piece_fits w) (rw_sent w)"

definition write_side :: "rtt_worker \<Rightarrow> _" where
  "write_side w = (rw_writes w, rw_asked w, rw_sent w, rw_replies w)"

lemma writes_ok_side: "write_side w' = write_side w \<Longrightarrow> writes_ok w' = writes_ok w"
  by (simp add: write_side_def writes_ok_def pending_fits_def[abs_def] reply_fits_def[abs_def] piece_fits_def[abs_def] cong: result.case_cong)

lemma side_shared [simp]: "write_side (w\<lparr>rw_shared := s\<rparr>) = write_side w"
  "write_side (w\<lparr>rw_presentation := xs\<rparr>) = write_side w" "write_side (w\<lparr>rw_presentation_bytes := n\<rparr>) = write_side w"
  "write_side (w\<lparr>rw_last_flush := n\<rparr>) = write_side w" "write_side (w\<lparr>rw_last_snapshot := n\<rparr>) = write_side w"
  "write_side (w\<lparr>rw_shown := ys\<rparr>) = write_side w"
  by (simp_all add: write_side_def)

lemma side_snapshot [simp]: "write_side (emit_rtt_snapshot w) = write_side w"
  by (simp add: emit_rtt_snapshot_def)

lemma side_batch [simp]: "write_side (emit_presentation_batch ok w) = write_side w"
  by (simp add: emit_presentation_batch_def)

lemma side_flush [simp]: "write_side (flush_due t w) = write_side w"
  by (simp add: flush_due_def Let_def)

lemma side_read: "take_read now c data w = Some w' \<Longrightarrow> write_side w' = write_side w"
  by (cases "record_rx now c data (rw_shared w)") (auto simp: take_read_def split_def Let_def)

lemma side_reads: "take_reads clk rs w = Some w' \<Longrightarrow> write_side w' = write_side w"
  by (induction clk rs w rule: take_reads.induct) (auto split: option.splits dest: side_read)

lemma mset_upt_Suc [simp]: "mset [0..<Suc n] = add_mset n (mset [0..<n])"
  by simp

lemma accept_write_ok:
  assumes ok: "writes_ok w"
  shows "writes_ok (accept_write deadline c data w)"
proof -
  have grown: "pending_fits (w\<lparr>rw_asked := rw_asked w @ [(c, data)], rw_writes := ws, rw_replies := rs\<rparr>) p" if "pending_fits w p" for p ws rs
    using that by (auto simp: pending_fits_def nth_append)
  have replied: "reply_fits (w\<lparr>rw_asked := rw_asked w @ [(c, data)], rw_writes := ws, rw_replies := rs\<rparr>) x" if "reply_fits w x" for x ws rs
    using that by (auto simp: reply_fits_def nth_append Let_def split: result.splits)
  have piece: "piece_fits (w\<lparr>rw_asked := rw_asked w @ [(c, data)], rw_writes := ws, rw_replies := rs\<rparr>) x" if "piece_fits w x" for x ws rs
    using that by (auto simp: piece_fits_def nth_append)
  have fresh: "sent_of (length (rw_asked w)) (rw_sent w) = []"
    using ok by (force simp: writes_ok_def list_all_iff piece_fits_def sent_of_def)
  let ?i = "length (rw_asked w)"
  show ?thesis
  proof (cases "MAX_PENDING_WRITES \<le> length (rw_writes w)")
    case True
    have "list_all (pending_fits (accept_write deadline c data w)) (rw_writes w)"
      using ok grown[where ws = "rw_writes w" and rs = "rw_replies w @ [(?i, Err RttWriteQueueFull)]"] True
      by (simp add: accept_write_def Let_def reply_to_def writes_ok_def list_all_iff)
    moreover have "list_all (reply_fits (accept_write deadline c data w)) (rw_replies w @ [(?i, Err RttWriteQueueFull)])"
      using ok replied[where ws = "rw_writes w" and rs = "rw_replies w @ [(?i, Err RttWriteQueueFull)]"] True fresh
      by (simp add: accept_write_def Let_def reply_to_def writes_ok_def list_all_iff) (simp add: reply_fits_def)
    moreover have "list_all (piece_fits (accept_write deadline c data w)) (rw_sent w)"
      using ok piece[where ws = "rw_writes w" and rs = "rw_replies w @ [(?i, Err RttWriteQueueFull)]"] True
      by (simp add: accept_write_def Let_def reply_to_def writes_ok_def list_all_iff)
    ultimately show ?thesis
      using ok True by (simp add: writes_ok_def accept_write_def Let_def reply_to_def)
  next
    case False
    let ?p = "\<lparr>pw_id = ?i, pw_channel = c, pw_data = data, pw_offset = 0, pw_deadline = deadline\<rparr>"
    have "list_all (pending_fits (accept_write deadline c data w)) (rw_writes w @ [?p])"
      using ok grown[where ws = "rw_writes w @ [?p]" and rs = "rw_replies w"] False fresh
      by (simp add: accept_write_def Let_def writes_ok_def list_all_iff) (simp add: pending_fits_def)
    moreover have "list_all (reply_fits (accept_write deadline c data w)) (rw_replies w)"
      using ok replied[where ws = "rw_writes w @ [?p]" and rs = "rw_replies w"] False
      by (simp add: accept_write_def Let_def writes_ok_def list_all_iff)
    moreover have "list_all (piece_fits (accept_write deadline c data w)) (rw_sent w)"
      using ok piece[where ws = "rw_writes w @ [?p]" and rs = "rw_replies w"] False
      by (simp add: accept_write_def Let_def writes_ok_def list_all_iff)
    ultimately show ?thesis
      using ok False by (simp add: writes_ok_def accept_write_def Let_def)
  qed
qed

lemma run_commands_ok: "writes_ok w \<Longrightarrow> writes_ok (fst (run_commands deadline n gone cs w))"
proof (induction deadline n gone cs w rule: run_commands.induct)
  case (4 deadline n gone d r cs w)
  have "write_side (case r of Inr channels \<Rightarrow> emit_rtt_snapshot (w\<lparr>rw_shared := set_running d channels (rw_shared w)\<rparr>) | Inl e \<Rightarrow> w) = write_side w"
    by (simp split: sum.split)
  from 4 writes_ok_side[OF this] show ?case
    by simp
qed (simp_all add: accept_write_ok)

lemma writes_ok_reply:
  assumes ok: "writes_ok w" and ws: "rw_writes w = p # ps" and fits: "reply_fits w (pw_id p, r)"
  shows "writes_ok (reply_to (pw_id p) r (w\<lparr>rw_writes := ps\<rparr>))"
proof -
  have "pending_fits (reply_to (pw_id p) r (w\<lparr>rw_writes := ps\<rparr>)) = pending_fits w"
    "reply_fits (reply_to (pw_id p) r (w\<lparr>rw_writes := ps\<rparr>)) = reply_fits w"
    "piece_fits (reply_to (pw_id p) r (w\<lparr>rw_writes := ps\<rparr>)) = piece_fits w"
    by (simp_all add: reply_to_def pending_fits_def[abs_def] reply_fits_def[abs_def] piece_fits_def[abs_def] cong: result.case_cong)
  then show ?thesis
    using ok ws fits by (simp add: writes_ok_def) (simp add: reply_to_def)
qed

lemma writes_ok_rotate:
  assumes ok: "writes_ok w" and ws: "rw_writes w = p # ps"
  shows "writes_ok (w\<lparr>rw_writes := ps @ [p]\<rparr>)"
proof -
  have "pending_fits (w\<lparr>rw_writes := ps @ [p]\<rparr>) = pending_fits w" "reply_fits (w\<lparr>rw_writes := ps @ [p]\<rparr>) = reply_fits w"
    "piece_fits (w\<lparr>rw_writes := ps @ [p]\<rparr>) = piece_fits w"
    by (simp_all add: pending_fits_def[abs_def] reply_fits_def[abs_def] piece_fits_def[abs_def] cong: result.case_cong)
  then show ?thesis
    using ok ws by (simp add: writes_ok_def)
qed

lemma pending_reply_fits: "pending_fits w p \<Longrightarrow> reply_fits w (pw_id p, Err e)"
  by (simp add: pending_fits_def reply_fits_def take_is_prefix)

text \<open>The backend accepted \<open>n\<close> more bytes of the first pending write.\<close>

definition wrote :: "pending_write \<Rightarrow> pending_write list \<Rightarrow> nat \<Rightarrow> rtt_worker \<Rightarrow> rtt_worker" where
  "wrote p ps n w = w\<lparr>rw_writes := p\<lparr>pw_offset := pw_offset p + n\<rparr> # ps,
     rw_sent := rw_sent w @ [(pw_id p, pw_channel p, take n (drop (pw_offset p) (pw_data p)))]\<rparr>"

lemma writes_ok_wrote:
  assumes ok: "writes_ok w" and ws: "rw_writes w = p # ps" and n: "n \<le> length (pw_data p) - pw_offset p" "n \<le> WRITE_QUANTUM_BYTES"
  shows "writes_ok (wrote p ps n w)"
proof -
  have p: "pending_fits w p" and all: "list_all (pending_fits w) ps" "list_all (reply_fits w) (rw_replies w)" "list_all (piece_fits w) (rw_sent w)"
    and ids: "mset (pw_id p # map pw_id ps @ map fst (rw_replies w)) = mset [0..<length (rw_asked w)]"
    using ok ws by (simp_all add: writes_ok_def)
  have alone: "pw_id p \<notin> set (map pw_id ps @ map fst (rw_replies w))"
    using mset_eq_imp_distinct_iff[OF ids] by (simp only: distinct.simps distinct_upt simp_thms)
  have "pending_fits (wrote p ps n w) (p\<lparr>pw_offset := pw_offset p + n\<rparr>)"
    using p n by (auto simp: pending_fits_def wrote_def take_add)
  moreover have "list_all (pending_fits (wrote p ps n w)) ps"
    using all(1) alone by (auto simp: list_all_iff pending_fits_def wrote_def)
  moreover have "list_all (reply_fits (wrote p ps n w)) (rw_replies w)"
  proof -
    have "reply_fits (wrote p ps n w) x = reply_fits w x" if "fst x \<noteq> pw_id p" for x
      using that by (simp add: reply_fits_def wrote_def cong: result.case_cong)
    then show ?thesis
      using all(2) alone by (force simp: list_all_iff)
  qed
  moreover have "list_all (piece_fits (wrote p ps n w)) (rw_sent (wrote p ps n w))"
    using all(3) p n by (simp add: list_all_iff piece_fits_def wrote_def pending_fits_def)
  ultimately show ?thesis
    using ok ws by (simp add: writes_ok_def) (simp add: wrote_def)
qed

lemma service_ok:
  assumes ok: "writes_ok w"
  shows "writes_ok (snd (service_one_write before after result w))"
proof (cases "rw_writes w")
  case Nil
  then show ?thesis
    using ok by (simp add: service_one_write_def)
next
  case (Cons p ps)
  then have p: "pending_fits w p"
    using ok by (simp add: writes_ok_def)
  show ?thesis
  proof (cases "pw_deadline p \<le> before")
    case True
    then show ?thesis
      using Cons writes_ok_reply[OF ok Cons pending_reply_fits[OF p]] by (simp add: service_one_write_def)
  next
    case open_still: False
    show ?thesis
    proof (cases result)
      case (Inl e)
      then show ?thesis
        using Cons open_still writes_ok_reply[OF ok Cons pending_reply_fits[OF p]] by (simp add: service_one_write_def)
    next
      case (Inr got)
      define n where "n = min got (min (pw_offset p + WRITE_QUANTUM_BYTES) (length (pw_data p)) - pw_offset p)"
      let ?p = "p\<lparr>pw_offset := pw_offset p + n\<rparr>" and ?w = "wrote p ps n w"
      have n: "n \<le> length (pw_data p) - pw_offset p" "n \<le> WRITE_QUANTUM_BYTES"
        by (auto simp: n_def)
      note wok = writes_ok_wrote[OF ok Cons n]
      have ws: "rw_writes ?w = ?p # ps"
        by (simp add: wrote_def)
      have fits: "pending_fits ?w ?p"
        using wok ws by (simp add: writes_ok_def)
      have done_fits: "reply_fits ?w (pw_id ?p, Ok (length (pw_data p)))" if "length (pw_data p) \<le> pw_offset p + n"
        using fits that by (simp add: pending_fits_def reply_fits_def)
      have side: "write_side (snd (service_one_write before after result w)) =
          (if length (pw_data p) \<le> pw_offset p + n then write_side (reply_to (pw_id ?p) (Ok (length (pw_data p))) (?w\<lparr>rw_writes := ps\<rparr>))
           else if pw_deadline p \<le> after then write_side (reply_to (pw_id ?p) (Err RttWriteTimeout) (?w\<lparr>rw_writes := ps\<rparr>))
           else write_side (?w\<lparr>rw_writes := ps @ [?p]\<rparr>))"
        using Cons open_still Inr
        by (simp add: service_one_write_def Let_def n_def[symmetric] reply_to_def write_side_def wrote_def)
      consider "length (pw_data p) \<le> pw_offset p + n" | "\<not> length (pw_data p) \<le> pw_offset p + n" "pw_deadline p \<le> after"
        | "\<not> length (pw_data p) \<le> pw_offset p + n" "\<not> pw_deadline p \<le> after"
        by blast
      then show ?thesis
      proof cases
        case 1
        from side 1 show ?thesis
          by (simp only: if_True writes_ok_side writes_ok_reply[OF wok ws done_fits[OF 1]])
      next
        case 2
        from side 2 show ?thesis
          by (simp only: if_True if_False writes_ok_side writes_ok_reply[OF wok ws pending_reply_fits[OF fits]])
      next
        case 3
        from side 3 show ?thesis
          by (simp only: if_False writes_ok_side writes_ok_rotate[OF wok ws])
      qed
    qed
  qed
qed

lemma handle_reads_ok:
  assumes "writes_ok w" "handle_reads t w = Some (e, w')"
  shows "writes_ok w'"
proof -
  obtain u where u: "take_reads (\<lambda>i. tn_clock t (i + 7)) (tn_reads t) w = Some u"
    using assms(2) by (auto simp: handle_reads_def split: option.splits)
  then have "writes_ok (snd (service_one_write (tn_clock t 1) (tn_clock t 2) (tn_write t) u))"
    using assms(1) by (simp add: service_ok writes_ok_side[OF side_reads[OF u]])
  with u assms(2) show ?thesis
    by (auto simp: handle_reads_def writes_ok_side[OF side_flush] split: prod.splits option.splits)
qed

lemma worker_turn_ok:
  assumes "writes_ok w" "worker_turn write_timeout t w = Some (e, w')"
  shows "writes_ok w'"
proof -
  obtain v stop where v: "run_commands (tn_clock t 0 + write_timeout) MAX_COMMANDS_PER_TICK (tn_disconnected t) (tn_commands t) w = (v, stop)"
    by fastforce
  then have "writes_ok v"
    using run_commands_ok[OF assms(1)] by (metis fst_conv)
  moreover from this have "writes_ok (v\<lparr>rw_shared := s\<rparr>)" for s
    by (simp add: writes_ok_side[OF side_shared(1)])
  ultimately show ?thesis
    using assms(2) v by (auto simp: worker_turn_def elim: handle_reads_ok[rotated] split: if_splits option.splits)
qed

section \<open>Runs of the thread\<close>

inductive worker_run :: "nat \<Rightarrow> rtt_worker \<Rightarrow> turn_end \<Rightarrow> rtt_worker \<Rightarrow> bool" for write_timeout w0 where
  begun: "worker_run write_timeout w0 GoOn w0"
| turned: "worker_run write_timeout w0 GoOn w \<Longrightarrow> worker_turn write_timeout t w = Some (e, w') \<Longrightarrow> worker_run write_timeout w0 e w'"

lemma new_worker_ok: "writes_ok (new_rtt_worker d channels now s)"
  by (simp add: new_rtt_worker_def emit_rtt_snapshot_def writes_ok_def MAX_PENDING_WRITES_def)

lemma worker_run_ok: "worker_run write_timeout w0 e w \<Longrightarrow> writes_ok w0 \<Longrightarrow> writes_ok w"
  by (induction rule: worker_run.induct) (auto intro: worker_turn_ok)

lemma leave_side: "write_side (leave_worker shown_ok fatal w) = write_side (cancel_pending_writes w)"
  by (simp add: leave_worker_def Let_def) (simp add: write_side_def cancel_pending_writes_def emit_presentation_batch_def)

lemma cancel_ok:
  assumes ok: "writes_ok w"
  shows "writes_ok (cancel_pending_writes w)"
proof -
  have "reply_fits (cancel_pending_writes w) = reply_fits w" "piece_fits (cancel_pending_writes w) = piece_fits w"
    by (simp_all add: cancel_pending_writes_def reply_fits_def[abs_def] piece_fits_def[abs_def] cong: result.case_cong)
  moreover have "list_all (reply_fits w) (map (\<lambda>p. (pw_id p, Err RttCancelled)) (rw_writes w))"
    using ok by (auto simp: writes_ok_def list_all_iff pending_reply_fits)
  ultimately show ?thesis
    using ok by (simp add: writes_ok_def) (simp add: cancel_pending_writes_def multiset.map_comp o_def ac_simps)
qed

lemma leave_ok: "writes_ok w \<Longrightarrow> writes_ok (leave_worker shown_ok fatal w) \<and> rw_writes (leave_worker shown_ok fatal w) = []"
  using writes_ok_side[OF leave_side] cancel_ok leave_side[of shown_ok fatal w] by (auto simp: write_side_def cancel_pending_writes_def)

text \<open>
  C21. Once the acquisition thread of an RTT session has ended (shutdown, lost command channel or fatal error), every write
  command it took has been answered exactly once. A write answered with \<open>Ok n\<close> has had exactly its \<open>n\<close> bytes accepted by the backend,
  in order; of any other write the backend got a prefix. No backend call carries more than 4096 bytes.
\<close>

theorem rtt_write_replies:
  assumes "worker_run write_timeout (new_rtt_worker d channels now s) e w" and w': "leave_worker shown_ok fatal w = w'"
  shows "mset (map fst (rw_replies w')) = mset [0..<length (rw_asked w')] \<and>
    list_all (\<lambda>(i, r). case r of Ok n \<Rightarrow> n = length (snd (rw_asked w' ! i)) \<and> sent_of i (rw_sent w') = snd (rw_asked w' ! i)
              | Err _ \<Rightarrow> prefix (sent_of i (rw_sent w')) (snd (rw_asked w' ! i)) | Panic \<Rightarrow> False) (rw_replies w') \<and>
    list_all (\<lambda>(i, c, bs). c = fst (rw_asked w' ! i) \<and> length bs \<le> WRITE_QUANTUM_BYTES) (rw_sent w')"
proof -
  have "writes_ok w'" "rw_writes w' = []"
    using leave_ok[OF worker_run_ok[OF assms(1) new_worker_ok]] w' by auto
  then show ?thesis
    by (auto simp: writes_ok_def list_all_iff reply_fits_def piece_fits_def Let_def split: result.splits)
qed

definition quiet_turn :: "worker_command list \<Rightarrow> turn" where
  "quiet_turn cs = \<lparr>tn_commands = cs, tn_disconnected = False, tn_reads = [], tn_poll_error = None, tn_write = Inr 1, tn_emitted = True, tn_clock = \<lambda>_. 0\<rparr>"

text \<open>Two writes to channel 0 by a backend that takes one byte at a time.\<close>

definition two_writers :: "rtt_descriptor \<Rightarrow> rtt_channel list \<Rightarrow> rtt_shared \<Rightarrow> (turn_end \<times> rtt_worker) option" where
  "two_writers d channels s =
     (case worker_turn 10 (quiet_turn [WriteCommand 0 [1, 2], WriteCommand 0 [3]]) (new_rtt_worker d channels 0 s) of
        Some (_, w) \<Rightarrow> (case worker_turn 10 (quiet_turn []) w of Some (_, w) \<Rightarrow> worker_turn 10 (quiet_turn []) w | None \<Rightarrow> None)
      | None \<Rightarrow> None)"

lemma commands_per_tick: "MAX_COMMANDS_PER_TICK = Suc (Suc (Suc 5))"
  by (simp add: MAX_COMMANDS_PER_TICK_def)

lemma run_none: "run_commands deadline MAX_COMMANDS_PER_TICK gone [] w = (w, gone)"
  by (simp only: commands_per_tick run_commands.simps)

lemma run_two: "run_commands deadline MAX_COMMANDS_PER_TICK gone [WriteCommand c x, WriteCommand b y] w =
    (accept_write deadline b y (accept_write deadline c x w), gone)"
  by (simp only: commands_per_tick run_commands.simps)

lemmas turn_simps = worker_turn_def quiet_turn_def handle_reads_def service_one_write_def flush_due_def emit_presentation_batch_def
  emit_rtt_snapshot_def accept_write_def reply_to_def MAX_PENDING_WRITES_def WRITE_QUANTUM_BYTES_def
  WORKER_FLUSH_INTERVAL_def WORKER_SNAPSHOT_INTERVAL_def new_rtt_worker_def

text \<open>
  Two writes to one down channel can reach the target mixed: with a backend that accepts one byte per call, the writes
  1 2 and 3 to channel 0 are both answered with success and the backend receives 1 3 2.
\<close>

theorem rtt_writes_interleave:
  "(case two_writers d channels s of
      Some (e, w) \<Rightarrow> concat (map (snd \<circ> snd) (rw_sent w)) = [1, 3, 2] \<and> rw_replies w = [(1, Ok 1), (0, Ok 2)]
    | None \<Rightarrow> False)"
  by (simp add: two_writers_def turn_simps run_none run_two)

lemma leave_asked: "rw_asked (leave_worker shown_ok fatal w) = rw_asked w"
  using leave_side[of shown_ok fatal w] by (simp add: write_side_def cancel_pending_writes_def)

theorem rtt_write_replies_witness:
  "\<forall>d. \<exists>w. worker_run 10 (new_rtt_worker d [] 0 (new_rtt_shared 4)) GoOn w \<and>
     mset (map fst (rw_replies (leave_worker True None w))) = {#0, 1#}"
proof
  fix d
  let ?w0 = "new_rtt_worker d [] 0 (new_rtt_shared 4)"
  let ?t = "quiet_turn [WriteCommand 0 [1, 2], WriteCommand 0 [3]]"
  obtain w where turn: "worker_turn 10 ?t ?w0 = Some (GoOn, w)" and asked: "length (rw_asked w) = 2"
    by (simp add: turn_simps run_two)
  then have run: "worker_run 10 ?w0 GoOn w"
    by (blast intro: worker_run.intros)
  have "mset (map fst (rw_replies (leave_worker True None w))) = {#0, 1#}"
    using rtt_write_replies[OF run refl, of True None] asked by (simp add: leave_asked numeral_2_eq_2 atLeast0_lessThan_Suc add_mset_commute)
  with run show "\<exists>w. worker_run 10 ?w0 GoOn w \<and> mset (map fst (rw_replies (leave_worker True None w))) = {#0, 1#}"
    by blast
qed

end
