(* ===== verification/Spec2Isabelle.thy ===== *)
theory Spec2Isabelle
  imports Modbus_Exchange Modbus_Polling Transfer_Xmodem_Link Data_Batcher Telnet_Driver
    Data_Plane_Routing Data_Plane_Subscribers Data_Plane_Progress Session_Lifecycle SystemView_Stream SystemView_Replay
    Rtt_Observer Rtt_Worker
begin

text \<open>
  TauTerm is a terminal application whose Rust backend (\<open>src-tauri/src\<close>) offers, next to
  terminals and file transfer, protocol workbenches. This development verifies seven of its
  parts: the Modbus plugin (\<open>plugins/modbus\<close>), a client, a simulated server and a polling
  scheduler over RTU, ASCII and TCP; the XMODEM file transfer (\<open>transfer/xmodem.rs\<close> with its
  checksums and port helpers); the data plane that owns the byte stream of every session
  (\<open>transport/runtime.rs\<close>) with its TCP, serial and Telnet drivers (\<open>plugins/telnet\<close>); the batcher
  that merges session output for display (\<open>kernel/data_batcher.rs\<close>); the store that owns the sessions
  (\<open>kernel/session_store.rs\<close>) with its identities and transfer schedulers; and the RTT plugin above its access to probes
  (\<open>plugins/rtt\<close>, \<open>embedded_debug/observation.rs\<close>): the thread that reads and writes the channels of a target, the session's history and fan-out, and the
  SystemView observer, which decodes the event stream of the target's operating system and accounts for its tasks.

  \<^bold>\<open>How the parts interact.\<close> A Modbus request is encoded as a PDU (\<open>codec/pdu.rs\<close>) and framed as an
  ADU (\<open>codec/rtu.rs\<close>, \<open>ascii.rs\<close>, \<open>tcp.rs\<close>). The client (\<open>client.rs\<close>) writes the frame to the data
  plane, waits for a frame that answers it, validates the response PDU against the request and records
  the result; the scheduler (\<open>polling.rs\<close>) does so periodically for rows of a watch list and decodes
  register values (\<open>response.rs\<close>, \<open>value.rs\<close>). The server (\<open>server.rs\<close>) reassembles frames from a serial
  line or from TCP peers, executes them on the device (\<open>data_model.rs\<close>), possibly under injected
  faults, answers and records. Both are built from a validated configuration (\<open>config.rs\<close>,
  \<open>capability.rs\<close>). The XMODEM sender and receiver exchange numbered, checksummed blocks over a byte
  port, retransmitting on errors. A driver implements the contract of \<open>transport/stream.rs\<close> and is owned by
  the actor of a data plane, which reads it, publishes to the subscribers, executes the commands of the handles and
  leases the driver to a file transfer; what sessions receive is batched and Base64-encoded for the front end. The session store
  owns data planes, scripts, services and transfers of the sessions: it numbers their runs (\<open>session/identity.rs\<close>), delivers nothing before a
  session is published (\<open>session/runtime.rs\<close>), admits transfers (\<open>transfer/scheduler.rs\<close>) and moves what a closed session
  owned into a cleanup that runs outside its lock. In an RTT session the acquisition thread (\<open>worker.rs\<close>) stamps what it reads, stores it in a bounded history
  and publishes it (\<open>runtime.rs\<close>, \<open>observation.rs\<close>); an observer subscribes, then reads the history, and its thread (\<open>systemview.rs\<close>) decodes both.

  \<^bold>\<open>Theories.\<close>
  \<^item> \<open>TauTerm_Prelude\<close>: machine integers, \<open>Result\<close> with a value for panics, slices, byte conversion,
    chunks, and the collections \<open>result_simps\<close> and \<open>byte_simps\<close>.
  \<^item> \<open>Modbus_Pdu\<close>, \<open>Modbus_Pdu_Request\<close>, \<open>Modbus_Pdu_Response\<close>: \<open>codec/pdu.rs\<close>. Requests survive
    encoding and decoding, decoding and validation never panic, limits and echoes hold.
  \<^item> \<open>Modbus_Adu\<close> with the locales \<open>adu_codec\<close>, \<open>stream_framer\<close> and \<open>framed_codec\<close>, and \<open>Modbus_Rtu\<close>,
    \<open>Modbus_Tcp\<close>, \<open>Modbus_Ascii\<close> that interpret them: the three framings. Streams cut anywhere are
    recovered, a changed byte of an RTU frame is refused, the ASCII framer finds the next frame.
  \<^item> \<open>Modbus_Data_Model\<close> (locale \<open>point_store\<close>) and \<open>Modbus_Device\<close>: \<open>data_model.rs\<close>. The device is total and
    atomic, reads return what was written, and what it answers passes the client's validation.
  \<^item> \<open>Modbus_Config\<close>, \<open>Modbus_Value\<close>: configuration, transport rules, RTU gaps; register values.
  \<^item> \<open>Modbus_Transaction\<close> (locale \<open>sequence_log\<close>): codec dispatch, transaction records, the bounded history of
    client and server, and the link both talk over.
  \<^item> \<open>Modbus_Client\<close> (locale \<open>receiver\<close>), \<open>Modbus_Server\<close> (locale \<open>sender\<close>), \<open>Modbus_Polling\<close>: \<open>client.rs\<close>,
    \<open>server.rs\<close>, \<open>polling.rs\<close>. Transactions end in time with a sound result, writes are not repeated, handlers and
    loops of the server are safe under every input, the system of TCP peers keeps its invariant, rows are
    polled no faster than their period.
  \<^item> \<open>Modbus_Exchange\<close>: lemmas joining client, framing, server and device; the property below is their sum.
  \<^item> \<open>Transfer_Crc\<close> (locale \<open>xor_step\<close>): \<open>transfer/crc.rs\<close>, the tables and all checksums against bitwise
    definitions.
  \<^item> \<open>Transfer_Io\<close>: the port, the data types of \<open>transfer/types.rs\<close> and the helpers of \<open>transfer/io.rs\<close>.
  \<^item> \<open>Transfer_Xmodem\<close> (locale \<open>io_relation\<close>) and \<open>Transfer_Xmodem_Link\<close>: \<open>transfer/xmodem.rs\<close> and
    \<open>transfer/config.rs\<close>; the receiver refines a machine on frames, and a completed transfer delivers the file.
  \<^item> \<open>Transport_Stream\<close> (locales \<open>byte_stream\<close>, \<open>stream_driver\<close>): the contract of a driver and its errors,
    interpreted by the TCP and the serial driver.
  \<^item> \<open>Data_Plane\<close>: \<open>transport/runtime.rs\<close>, the actor as a function and the clients as a step relation.
    \<open>Data_Plane_Lease\<close>: the driver is in one place, a returned driver is accepted. \<open>Data_Plane_Routing\<close>: for every driver that keeps
    the contract the bytes are routed once and in order, and given up only when nobody takes them or a backlog nobody subscribed to is too long. \<open>Data_Plane_Subscribers\<close>: subscribers hear without gaps.
    \<open>Data_Plane_Progress\<close>: who waits for an answer gets one.
  \<^item> \<open>Telnet_Driver\<close>: the driver with its negotiation policy. Reads lose nothing, requests are
    answered by the policy, echo changes reach an attached session, and only an attached one.
  \<^item> \<open>Data_Batcher\<close>: handle and thread as a step relation. Accepted output is emitted once and in order, within
    a window of 16 ms when the queue is empty; Base64 is checked against the decoder of RFC 4648.
  \<^item> \<open>Session_Identity\<close>, \<open>Transfer_Scheduler\<close>: \<open>session/identity.rs\<close>, \<open>transfer/scheduler.rs\<close>. An inline transfer runs alone.
  \<^item> \<open>Session_Store\<close>: \<open>kernel/session_store.rs\<close> with the owners of data planes and scripts, one definition per method.
    \<open>Session_Store_Invariant\<close>: the methods as a step relation, the invariant and its preservation by each.
    \<open>Session_Lifecycle\<close>: limits, unique identities, the registration barrier, that the identity of a closed run is refused for ever, and that
    closing releases each resource once.
  \<^item> \<open>SystemView_Decoder\<close>, \<open>SystemView_Stream\<close>: the streaming decoder. It is total on every input, and a stream cut anywhere decodes to
    the packets that follow the first sync marker, unless a zero precedes it; a marker that is cut itself, or follows a zero, is misread.
  \<^item> \<open>SystemView_Trace\<close>, \<open>SystemView_Replay\<close>: the trace. No cycle is charged twice; the bounded history replays to the state that all
    events together lead to, and agrees with the accounting while the events of the target nest.
    \<open>SystemView_Runtime\<close>: the decoder thread. Every decoded event is presented once and in order or counted as dropped, every run of chunks without a gap is decoded
    on its own, and the target is asked for metadata a bounded number of times.
  \<^item> \<open>Rtt_Model\<close>, \<open>Rtt_Shared\<close>, \<open>Rtt_History\<close>: the data types, the state a session shares and its bounded history, whose eviction loops end.
    \<open>Rtt_Selection\<close>: the methods that select, claim, release and announce channels, one lock at a time; a call alone is the method.
    \<open>Rtt_Observer\<close>: sessions as a step relation, with whole methods or (\<open>ov\<close>) with their parts interleaved. In both the history is exact, an observer takes each
    chunk of its channel once, and what it decodes is what the target sent; the send channel is never one a protocol has claimed only while calls do not overlap.
  \<^item> \<open>Rtt_Worker\<close>: the acquisition thread. Every write is answered once, with success only if all of its bytes were accepted in order; but two
    writes to one channel may mix.

  \<^bold>\<open>State and effects.\<close> A struct is a record and an operation returns it updated; \<open>usize\<close> and byte
  counts are naturals, other integers words of their width; \<open>Err\<close> and \<open>Panic\<close> are values. A link
  or a port is a script of what will arrive and when, of the errors of writes, and a clock
  that advances only while waiting; every behaviour of the transport over finite time is such a script, and
  theorems quantify over all of them. Locks are taken per handler, so the step relation of the
  TCP server interleaves whole events of peers, and that of the batcher whole operations of handle and thread. The session store runs under one lock, so its steps are whole methods. A client of the trace acts before each access of the decoder thread to the shared state; of an RTT
  session a chunk is stored and published in two steps, and the methods that choose channels, and the check before a subscription, are also taken apart at each lock; the
  other methods touch one field, or belong to one thread. The data plane interleaves at each access to shared state (queue, channel, flag); a client keeps its handle, so
  the queue is never closed from its side. The
  \<open>telnet\<close> crate is a script of the events it returns; the traversal order of a hash map is a parameter. Floating point operations are a parameter of the value
  decoding, with no assumption; lossy UTF-8 conversion is kept as bytes; the RTU gaps are computed
  exactly, where the code rounds through floating point.

  \<^bold>\<open>Bounds.\<close> No definition uses fuel for a loop that the code ends itself: receive loops terminate
  because each event or byte shortens the script or the time left. The loops of the server
  end only when it is stopped; \<open>run_loop\<close> runs a given number of iterations and the properties hold for
  every number.

  \<^bold>\<open>Not modelled.\<close> Sockets and serial ports are scripts; starting and joining threads, the UDP transport and the
  async bridge of \<open>transport/stream.rs\<close> are left out, and the Modbus link and the transfer port stand for a subscription and a lease of
  the data plane. Of the session store the statistics thread, the receive pump and the library of saved sessions are left out; its resources are numbers whose
  release is logged. The session adapter of the plugin (\<open>plugins/modbus/mod.rs\<close>), JSON serialisation, the YMODEM and ZMODEM
  protocols, TFTP, iperf, the debug probes of the RTT plugin (a script of what each turn of the thread reads and writes) with its adapter and thread management, TRDP, SSH and shell plugins, the kernel's configuration store, log
  engine and script engine, and the application shell are outside the development; of these
  YMODEM, ZMODEM, TFTP and the iperf headers are the next candidates, over the port defined here.
\<close>

section \<open>What a Telnet terminal shows\<close>

lemma shared_subseq: "subseq (concat (map shared_bytes (drop k rs))) (concat (map route_bytes rs))"
proof -
  have "subseq (shared_bytes r) (route_bytes r)" for r by (cases r) auto
  then have "subseq (concat (map shared_bytes qs)) (concat (map route_bytes qs))" for qs
    by (induction qs) (auto intro: list_emb_append_mono)
  then have "subseq (concat (map shared_bytes (drop k rs))) (concat (map route_bytes (drop k rs)))" .
  moreover have "concat (map route_bytes rs) = concat (map route_bytes (take k rs)) @ concat (map route_bytes (drop k rs))"
    by (metis append_take_drop_id concat_append map_append)
  ultimately show ?thesis by (metis list_emb_append2)
qed

text \<open>C26. What a terminal shows is what the server sent: whatever consumers, leases and
  option negotiations go on, every subscriber of a Telnet data plane receives bytes of the server's text
  in order, none twice and none that the server did not send; and if it subscribed before anything was
  delivered and no lease was given, a prefix of the text with no gap.\<close>

theorem telnet_terminal_text:
  assumes "plane_reach telnet_ops d p" "subscriptions p i = Some c"
  shows "subseq (chan_bytes c) (clean_buffer d @ payload (telnet_events d)) \<and>
    (sub_from c = Some 0 \<and> (\<forall>r\<in>set (routed p). \<exists>ids bs. r = Shared ids bs) \<longrightarrow>
       prefix (chan_bytes c) (clean_buffer d @ payload (telnet_events d)))"
proof -
  obtain z where z: "routed_bytes p @ z = telnet_input d"
    using telnet.plane_reach_order [OF assms(1)] by (auto simp: order_ok_def accounted_def)
  have ok: "chan_ok p c" using plane_reach_subs [OF assms(1)] assms(2) by (simp add: subs_ok_def chans_ok_def)
  have pre: "prefix (routed_bytes p) (telnet_input d)" using z by (metis prefixI)
  have "subseq (chan_bytes c) (routed_bytes p)"
  proof (cases "sub_from c")
    case None
    with ok show ?thesis by (simp add: chan_ok_def chan_bytes_def)
  next
    case (Some k)
    with ok have "subseq (chan_bytes c) (shared_since k p)" by (simp add: chan_ok_def prefix_imp_subseq)
    also have "subseq (shared_since k p) (routed_bytes p)" by (simp add: shared_since_def routed_bytes_def shared_subseq)
    finally show ?thesis .
  qed
  then have "subseq (chan_bytes c) (telnet_input d)" using pre by (meson prefix_imp_subseq subseq_order.trans)
  moreover have "prefix (chan_bytes c) (telnet_input d)"
    if "sub_from c = Some 0" "\<forall>r\<in>set (routed p). \<exists>ids bs. r = Shared ids bs"
  proof -
    have "map shared_bytes (routed p) = map route_bytes (routed p)" using that(2) by (fastforce intro!: map_cong)
    then have "shared_since 0 p = routed_bytes p" unfolding shared_since_def routed_bytes_def drop_0 by (rule arg_cong)
    with ok that(1) pre show ?thesis by (auto simp: chan_ok_def intro: prefix_order.trans)
  qed
  ultimately show ?thesis by (simp add: telnet_input_def)
qed

theorem telnet_terminal_text_witness:
  "\<exists>p c. moves telnet_ops [Subscribes 4 7, Sends 7, ActorMoves, ActorMoves, ActorMoves, ActorMoves, ActorMoves, ActorMoves]
       (new_plane (demo_telnet [Inr (EvData heard), Inr (EvData [33])])) = Some p \<and>
     subscriptions p 1 = Some c \<and> chan_queue c = [PlaneData (heard @ [33])] \<and> prefix (chan_bytes c) (heard @ [33])"
proof -
  let ?d = "demo_telnet [Inr (EvData heard), Inr (EvData [33])]"
  obtain p c where p: "moves telnet_ops [Subscribes 4 7, Sends 7, ActorMoves, ActorMoves, ActorMoves, ActorMoves, ActorMoves, ActorMoves]
       (new_plane ?d) = Some p" "subscriptions p 1 = Some c" "chan_queue c = [PlaneData (heard @ [33])]" "sub_from c = Some 0"
    "\<forall>r\<in>set (routed p). \<exists>ids bs. r = Shared ids bs"
    by (simp add: plane_run telnet_ops_def demo_telnet_run READ_BUFFER_SIZE_def start_subscribe_def new_subscription_def
        handle_subscribe_def read_driver_def heard_def publish_shared_data_def try_send_def enqueue_event_def)
  have "clean_buffer ?d @ payload (telnet_events ?d) = heard @ [33]"
    by (simp add: demo_telnet_def telnet_new_def)
  with telnet_terminal_text [OF moves_reach [OF plane_reach.start p(1)] p(2)] p show ?thesis by auto
qed

section \<open>A request from the client to the device and back\<close>

text \<open>C1. A request the client can send over TCP is executed on the server's device exactly once,
  and when the frame the server answers with reaches the client within its timeout, the client
  reports precisely the device's outcome: success with the device's response, the values of a register read
  being the registers of the device, or the Modbus exception the device raised. The device needs one
  identification object, no fault is injected, and the response has to fit a frame.\<close>

theorem tcp_exchange:
  assumes client: "config_mode (client_cfg c) = ModeTcp" "config_client (client_cfg c) = Some cc"
      "runtime_open c" "0 < response_timeout_ms cc"
    and request: "canonical_request req"
      "encode_transaction ModeTcp (config_unit_id (server_cfg s)) (Some (next_transaction_id c)) req = Ok tx"
    and server: "\<not> no_response (server_fault s)" "fault_exception_code (server_fault s) = None"
      "write_errors slk = []" "device_objects (model s) k \<noteq> None"
      "length (reply_pdu (model s) req) \<le> MAX_PDU_LEN"
  shows "\<exists>s' slk' rx. process_tcp_frame s slk tx = Ok (s', slk') \<and> sent slk' = sent slk @ [rx] \<and>
    model s' = fst (execute (model s) req) \<and>
    (\<forall>lk t q. write_errors lk = [] \<and> subscribe_error lk = None \<and> queue lk = (t, Data rx) # q \<and>
       t \<le> clock lk + unat (response_timeout_ms cc) * 1000 \<longrightarrow>
       (\<exists>c' lk' r. execute_client c lk (config_unit_id (server_cfg s)) req = Ok (c', lk', r) \<and>
          sent lk' = sent lk @ [tx] \<and>
          (case snd (execute (model s) req) of
             Ok pdu \<Rightarrow> status r = Success \<and> response_pdu r = pdu
           | Err code \<Rightarrow> status r = ModbusException \<and> exception_code r = Some code
           | Panic \<Rightarrow> False) \<and>
          (\<forall>area a n values. req = ReadRegisters area a n \<and>
             block_read (case area of HoldingRegisters \<Rightarrow> holding_registers (model s)
               | InputRegisters \<Rightarrow> input_registers (model s)) a n = Ok values \<longrightarrow>
             semantic r = Some (SemRegisters values))))"
proof -
  let ?u = "config_unit_id (server_cfg s)" and ?tid = "next_transaction_id c" and ?reply = "reply_pdu (model s) req"
  obtain pdu where pdu: "encode_request req = Ok pdu" "request_supported_on_mode ModeTcp req"
    "tcp_encode ?tid ?u pdu = Ok tx"
    using request(2) by (auto simp: encode_transaction_def encode_adu_def result_simps split: if_splits)
  obtain rx where rx: "tcp_encode ?tid ?u ?reply = Ok rx" using reply_encodes [OF server(5)] .
  obtain s' slk' where srv: "process_tcp_frame s slk tx = Ok (s', slk')" "sent slk' = sent slk @ [rx]"
    "model s' = fst (execute (model s) req)"
    using tcp_frame_reply [OF pdu(3) refl request_round_trip [OF pdu(1) request(1)] pdu(2) server(1-3) rx] by blast
  have val: "validate_response req ?reply = Ok (expected_response (model s) req)"
    using reply_validates [OF pdu(1) server(4)] .
  have cli: "\<exists>c' lk' r. execute_client c lk ?u req = Ok (c', lk', r) \<and> sent lk' = sent lk @ [tx] \<and>
      response_pdu r = ?reply \<and> exception_code r = resp_exception (expected_response (model s) req) \<and>
      status r = (if resp_exception (expected_response (model s) req) = None then Success else ModbusException) \<and>
      semantic r = decode_semantic_response req (expected_response (model s) req)"
    if "write_errors lk = [] \<and> subscribe_error lk = None \<and> queue lk = (t, Data rx) # q \<and>
      t \<le> clock lk + unat (response_timeout_ms cc) * 1000" for lk t q
    using execute_client_answered [OF client(1-3) _ request(2) _ rx _ _ client(4) val] that by blast
  have "case snd (execute (model s) req) of
      Ok p \<Rightarrow> resp_exception (expected_response (model s) req) = None \<and> ?reply = p
    | Err code \<Rightarrow> resp_exception (expected_response (model s) req) = Some code | Panic \<Rightarrow> False"
    using execute_no_panic [of "model s" req]
    by (auto simp: expected_response_def reply_pdu_def split: result.splits)
  then show ?thesis
    using srv cli expected_registers by (fastforce split: result.splits)
qed

theorem tcp_exchange_witness:
  "\<exists>s' slk' rx. process_tcp_frame (demo_server\<lparr>model := demo_device\<rparr>) (demo_link [])
      [0, 1, 0, 0, 0, 6, 1, 3, 0, 7, 0, 2] = Ok (s', slk') \<and> sent slk' = [rx] \<and>
    (\<exists>c' lk' r. execute_client (demo_client (TcpEndpoint ''h'' 502 default_tcp)) (demo_link [(5000, Data rx)]) 1
        (ReadRegisters HoldingRegisters 7 2) = Ok (c', lk', r) \<and>
      status r = Success \<and> semantic r = Some (SemRegisters [0x1234, 5]))"
proof -
  let ?s = "demo_server\<lparr>model := demo_device\<rparr>" and ?c = "demo_client (TcpEndpoint ''h'' 502 default_tcp)"
  let ?req = "ReadRegisters HoldingRegisters 7 2"
  have u: "config_unit_id (server_cfg ?s) = 1" "next_transaction_id ?c = 1" "runtime_open ?c"
    "model ?s = demo_device" "\<not> no_response (server_fault ?s)" "fault_exception_code (server_fault ?s) = None"
    "unat (response_timeout_ms demo_client_role) = 1000" "0 < response_timeout_ms demo_client_role"
    by (simp_all add: demo_server_def demo_server_cfg_def demo_client_def default_fault_def demo_client_role_def)
  have tx: "encode_transaction ModeTcp (config_unit_id (server_cfg ?s)) (Some (next_transaction_id ?c)) ?req =
      Ok [0, 1, 0, 0, 0, 6, 1, 3, 0, 7, 0, 2]"
    unfolding u by code_simp
  have read: "block_read (holding_registers demo_device) 7 2 = Ok [0x1234, 5]" by (simp add: demo_simps)
  then have ans: "snd (execute demo_device ?req) = Ok [3, 4, 0x12, 0x34, 0, 5]"
    by (simp add: execute_eq registers_response_def as_u8_def to_be_bytes_def)
  have obj: "device_objects (model ?s) 0 \<noteq> None" by (simp add: u)
  have len: "length (reply_pdu (model ?s) ?req) \<le> MAX_PDU_LEN"
    using ans by (simp add: u reply_pdu_def MAX_PDU_LEN_def)
  have lk: "write_errors (demo_link q) = []" "subscribe_error (demo_link q) = None" "queue (demo_link q) = q"
    "sent (demo_link q) = []" "clock (demo_link q) = 0" for q
    by (simp_all add: demo_link_def)
  from tcp_exchange [OF demo_client_config(2,1) u(3,8) _ tx u(5,6) lk(1) obj len]
  obtain s' slk' rx where srv: "process_tcp_frame ?s (demo_link []) [0, 1, 0, 0, 0, 6, 1, 3, 0, 7, 0, 2] = Ok (s', slk')"
    "sent slk' = [rx]"
    and cli: "\<And>lk t q. write_errors lk = [] \<and> subscribe_error lk = None \<and> queue lk = (t, Data rx) # q \<and>
       t \<le> clock lk + 1000 * 1000 \<Longrightarrow> \<exists>c' lk' r. execute_client ?c lk 1 ?req = Ok (c', lk', r) \<and>
         status r = Success \<and> semantic r = Some (SemRegisters [0x1234, 5])"
    unfolding u ans lk result.case using read
    by (metis append_Nil canonical_request.simps(3) register_read_area.case(1))
  have "write_errors (demo_link [(5000, Data rx)]) = [] \<and> subscribe_error (demo_link [(5000, Data rx)]) = None \<and>
      queue (demo_link [(5000, Data rx)]) = (5000, Data rx) # [] \<and>
      5000 \<le> clock (demo_link [(5000, Data rx)]) + 1000 * 1000"
    by (simp add: lk)
  from cli [OF this] srv show ?thesis by blast
qed

end
